(* ===== verification/Prelude.thy ===== *)
theory Prelude
  imports Main "HOL-Library.AList"
begin

text \<open>
  What every component of the development shares.

  \<^item> Fallible code: a TypeScript function that may throw is a function into \<open>'e + 'a\<close>, with
    \<open>Inl\<close> for the error that is thrown. \<open>rbind\<close> is sequencing; the first error wins.
  \<^item> Methods of a mutable object: a method is a function from the object's state (and its
    arguments) to a pair of the outcome and the state after the call. A method that throws half
    way keeps the writes it has already made, so the error case carries a state too.
    \<open>attempt s r k\<close> is a call of fallible code \<open>r\<close> that reads but does not write: an error
    leaves the state \<open>s\<close> as it is at that point.
  \<^item> The insertion-ordered \<open>Map\<close> of JavaScript: an association list with distinct keys.
    \<open>map.set\<close> is \<open>AList.update\<close>, which overwrites in place and appends a new key at the end,
    \<open>map.get\<close> is \<open>map_of\<close>, \<open>map.delete\<close> is \<open>AList.delete\<close> and \<open>[...map.values()]\<close> is
    \<open>map snd\<close>.
  \<^item> Two interfaces as locales: transition systems with an inductive invariant, and comparators
    in the sense of \<open>Array.prototype.sort\<close>.
\<close>

named_theorems outcome_simps \<open>equations and inversions for fallible code and methods\<close>
named_theorems jsmap_simps \<open>facts about the association lists that model JavaScript maps\<close>

subsection \<open>Fallible code\<close>

type_synonym ('e, 'a) result = "'e + 'a"
type_synonym ('e, 'a, 's) outcome = "('e + 'a) \<times> 's"

definition rbind :: "('e, 'a) result \<Rightarrow> ('a \<Rightarrow> ('e, 'b) result) \<Rightarrow> ('e, 'b) result" where
  "rbind r k = (case r of Inl e \<Rightarrow> Inl e | Inr x \<Rightarrow> k x)"

definition guard :: "bool \<Rightarrow> 'e \<Rightarrow> ('e, unit) result" where
  "guard c e = (if c then Inr () else Inl e)"

primrec mapM :: "('a \<Rightarrow> ('e, 'b) result) \<Rightarrow> 'a list \<Rightarrow> ('e, 'b list) result" where
  "mapM f [] = Inr []"
| "mapM f (x # xs) = rbind (f x) (\<lambda>y. rbind (mapM f xs) (\<lambda>ys. Inr (y # ys)))"

definition attempt :: "'s \<Rightarrow> ('e, 'a) result \<Rightarrow> ('a \<Rightarrow> ('e, 'b, 's) outcome) \<Rightarrow> ('e, 'b, 's) outcome" where
  "attempt s r k = (case r of Inl e \<Rightarrow> (Inl e, s) | Inr x \<Rightarrow> k x)"

lemma rbind_Inr [simp]: "rbind (Inr x) k = k x"
  by (simp add: rbind_def)

lemma rbind_Inl [simp]: "rbind (Inl e) k = Inl e"
  by (simp add: rbind_def)

lemma rbind_eq_Inr_iff [simp, outcome_simps]:
  "rbind r k = Inr y \<longleftrightarrow> (\<exists>x. r = Inr x \<and> k x = Inr y)"
  by (cases r) auto

lemma rbind_eq_Inl_iff [outcome_simps]:
  "rbind r k = Inl e \<longleftrightarrow> r = Inl e \<or> (\<exists>x. r = Inr x \<and> k x = Inl e)"
  by (cases r) auto

lemma guard_eq_Inr_iff [simp, outcome_simps]: "guard c e = Inr u \<longleftrightarrow> c"
  by (simp add: guard_def)

lemma guard_eq_Inl_iff [simp, outcome_simps]: "guard c e = Inl e' \<longleftrightarrow> \<not> c \<and> e' = e"
  by (auto simp add: guard_def)

lemma guard_True [simp]: "guard True e = Inr ()"
  by (simp add: guard_def)

lemma guard_False [simp]: "guard False e = Inl e"
  by (simp add: guard_def)

lemma attempt_Inr [simp]: "attempt s (Inr x) k = k x"
  by (simp add: attempt_def)

lemma attempt_Inl [simp]: "attempt s (Inl e) k = (Inl e, s)"
  by (simp add: attempt_def)

lemma attempt_eq_Inr_iff [outcome_simps]:
  "attempt s r k = (Inr y, s') \<longleftrightarrow> (\<exists>x. r = Inr x \<and> k x = (Inr y, s'))"
  by (cases r) auto

lemma attempt_eq_Inl_iff [outcome_simps]:
  "attempt s r k = (Inl e, s') \<longleftrightarrow>
     r = Inl e \<and> s' = s \<or> (\<exists>x. r = Inr x \<and> k x = (Inl e, s'))"
  by (cases r) auto

text \<open>A method that only reads before a sub-call fails keeps every property of the state.\<close>

lemma attempt_state:
  assumes "P s" and "\<And>x. r = Inr x \<Longrightarrow> P (snd (k x))"
  shows "P (snd (attempt s r k))"
  using assms by (cases r) auto

lemma mapM_eq_Inr_length: "mapM f xs = Inr ys \<Longrightarrow> length ys = length xs"
  by (induction xs arbitrary: ys) auto

lemma mapM_eq_Inr_iff:
  "mapM f xs = Inr ys \<longleftrightarrow> list_all2 (\<lambda>x y. f x = Inr y) xs ys"
proof (induction xs arbitrary: ys)
  case Nil
  then show ?case by auto
next
  case (Cons x xs)
  then show ?case by (cases ys) auto
qed

lemma mapM_Inr: "(\<And>x. x \<in> set xs \<Longrightarrow> f x = Inr (g x)) \<Longrightarrow> mapM f xs = Inr (map g xs)"
  by (induction xs) auto

lemma mapM_cong [fundef_cong]:
  assumes "xs = ys" and "\<And>x. x \<in> set ys \<Longrightarrow> f x = g x"
  shows "mapM f xs = mapM g ys"
  using assms by (induction ys arbitrary: xs) auto

subsection \<open>JavaScript maps\<close>

type_synonym ('k, 'v) jsmap = "('k \<times> 'v) list"

abbreviation map_keys :: "('k, 'v) jsmap \<Rightarrow> 'k list" where
  "map_keys m \<equiv> map fst m"

abbreviation map_values :: "('k, 'v) jsmap \<Rightarrow> 'v list" where
  "map_values m \<equiv> map snd m"

definition wf_jsmap :: "('k, 'v) jsmap \<Rightarrow> bool" where
  "wf_jsmap m \<longleftrightarrow> distinct (map_keys m)"

lemma wf_jsmap_Nil [simp]: "wf_jsmap []"
  by (simp add: wf_jsmap_def)

lemma wf_jsmap_update [simp, jsmap_simps]: "wf_jsmap m \<Longrightarrow> wf_jsmap (AList.update k v m)"
  by (simp add: wf_jsmap_def distinct_update)

lemma map_of_update [simp, jsmap_simps]:
  "map_of (AList.update k v m) k' = (if k' = k then Some v else map_of m k')"
  by (simp add: update_conv')

lemma update_new [jsmap_simps]: "map_of m k = None \<Longrightarrow> AList.update k v m = m @ [(k, v)]"
  by (induction m) (auto split: if_splits)

lemma update_same [jsmap_simps]: "map_of m k = Some v \<Longrightarrow> AList.update k v m = m"
  by (induction m) (auto split: if_splits)

lemma update_update [simp]: "AList.update k v (AList.update k v' m) = AList.update k v m"
  by (induction m) auto

lemma map_keys_update_old [jsmap_simps]:
  "map_of m k = Some x \<Longrightarrow> map_keys (AList.update k v m) = map_keys m"
  by (induction m) (auto split: if_splits)

lemma map_values_iff:
  "wf_jsmap m \<Longrightarrow> v \<in> set (map_values m) \<longleftrightarrow> (\<exists>k. map_of m k = Some v)"
  unfolding wf_jsmap_def by force

lemma map_values_update: "v \<in> set (map_values (AList.update k x m)) \<Longrightarrow> v = x \<or> v \<in> set (map_values m)"
  by (induction m) (auto split: if_splits)

lemma distinct_keyed_ids:
  assumes "wf_jsmap xs" and "\<And>k v. map_of xs k = Some v \<Longrightarrow> f v = k"
  shows "distinct (map f (map_values xs))"
proof -
  have "map f (map_values xs) = map_keys xs"
    using assms by (auto simp: wf_jsmap_def intro!: map_cong)
  with assms(1) show ?thesis by (simp only: wf_jsmap_def)
qed

text \<open>
  Overwriting the value of an existing key keeps the selection of values by a predicate, up to the
  value that changed.
\<close>

lemma filter_update_old:
  assumes "wf_jsmap m" and "map_of m k = Some x"
  shows "filter P (map_values (AList.update k v m)) =
    concat (map (\<lambda>(k', v'). if k' = k then (if P v then [v] else [])
                            else if P v' then [v'] else []) m)"
  using assms
proof (induction m)
  case Nil
  then show ?case by simp
next
  case (Cons kv m)
  obtain k' v' where kv: "kv = (k', v')" by fastforce
  have not_in: "concat (map (\<lambda>(k'', v''). if k'' = k then (if P v then [v] else [])
                     else if P v'' then [v''] else []) m) = filter P (map_values m)"
    if "k \<notin> set (map_keys m)"
    using that by (induction m) auto
  show ?case
    using Cons not_in by (cases "k' = k") (auto simp: kv wf_jsmap_def)
qed

lemma filter_update_same:
  assumes wf: "wf_jsmap m" and k: "map_of m k = Some x" and "\<not> P x" "\<not> P v"
  shows "filter P (map_values (AList.update k v m)) = filter P (map_values m)"
proof -
  have "filter P (map_values (AList.update k v m)) = filter P (map_values (AList.update k x m))"
    unfolding filter_update_old [OF wf k] using assms(3,4) by simp
  also have "AList.update k x m = m"
    using k by (rule update_same)
  finally show ?thesis .
qed

lemma length_filter_update:
  assumes wf: "wf_jsmap m" and k: "map_of m k = Some x" and eq: "P v = P x"
  shows "length (filter P (map_values (AList.update k v m))) = length (filter P (map_values m))"
  using k eq by (induction m) (auto split: if_splits)

lemma filter_update_singleton:
  assumes wf: "wf_jsmap m" and k: "map_of m k = Some x"
    and sing: "filter P (map_values m) = [x]" and "P x"
  shows "filter P (map_values (AList.update k v m)) = (if P v then [v] else [])"
  using assms
proof (induction m)
  case Nil
  then show ?case by simp
next
  case (Cons kv m)
  obtain k' v' where kv: "kv = (k', v')" by fastforce
  show ?case
  proof (cases "k' = k")
    case True
    with Cons.prems kv show ?thesis by auto
  next
    case False
    with Cons.prems kv have m: "map_of m k = Some x" by simp
    then have "filter P (map_values m) \<noteq> []"
      using Cons.prems(4) by (force simp: filter_empty_conv dest: map_of_SomeD)
    with Cons.prems(3) have "\<not> P v'" and "filter P (map_values m) = [x]"
      by (cases "P v'"; simp add: kv)+
    with False m Cons show ?thesis by (auto simp: kv wf_jsmap_def)
  qed
qed

subsection \<open>Transition systems and inductive invariants\<close>

text \<open>
  A stateful component is its initial states and labelled steps. The reachable states are the least
  set with an initial state that is closed under steps; an inductive invariant holds in all of them.
\<close>

inductive reaches :: "('s \<Rightarrow> 'l \<Rightarrow> 's \<Rightarrow> bool) \<Rightarrow> 's \<Rightarrow> 's \<Rightarrow> bool" for step s where
  reaches_refl: "reaches step s s"
| reaches_step: "reaches step s t \<Longrightarrow> step t l u \<Longrightarrow> reaches step s u"

locale inductive_invariant =
  fixes init :: "'s \<Rightarrow> bool"
    and step :: "'s \<Rightarrow> 'l \<Rightarrow> 's \<Rightarrow> bool"
    and inv :: "'s \<Rightarrow> bool"
  assumes inv_init: "init s \<Longrightarrow> inv s"
    and inv_step: "inv s \<Longrightarrow> step s l t \<Longrightarrow> inv t"
begin

lemma inv_from: "reaches step s t \<Longrightarrow> inv s \<Longrightarrow> inv t"
  by (induction rule: reaches.induct) (auto intro: inv_step)

lemma inv_reachable: "init s \<Longrightarrow> reaches step s t \<Longrightarrow> inv t"
  using inv_from inv_init by blast

end

text \<open>
  A preorder on states that every step from a good state respects holds along a whole run: what
  only grows, or never changes again, does so for good.
\<close>

locale monotone_run = inductive_invariant init step inv
  for init :: "'s \<Rightarrow> bool" and step :: "'s \<Rightarrow> 'l \<Rightarrow> 's \<Rightarrow> bool" and inv :: "'s \<Rightarrow> bool" +
  fixes rel :: "'s \<Rightarrow> 's \<Rightarrow> bool"
  assumes rel_refl: "rel s s"
    and rel_trans: "rel s t \<Longrightarrow> rel t u \<Longrightarrow> rel s u"
    and rel_step: "inv s \<Longrightarrow> step s l t \<Longrightarrow> rel s t"
begin

lemma rel_run: "reaches step s t \<Longrightarrow> inv s \<Longrightarrow> rel s t"
  by (induction rule: reaches.induct) (auto intro: rel_refl rel_trans rel_step dest: inv_from)

end

subsection \<open>Comparators\<close>

text \<open>
  \<open>Array.prototype.sort\<close> takes a function into numbers. It is a comparator when its sign is
  antisymmetric and being less or equal is transitive.
\<close>

locale js_comparator =
  fixes cmp :: "'a \<Rightarrow> 'a \<Rightarrow> int"
  assumes cmp_anti: "sgn (cmp x y) = - sgn (cmp y x)"
    and cmp_trans: "cmp x y \<le> 0 \<Longrightarrow> cmp y z \<le> 0 \<Longrightarrow> cmp x z \<le> 0"
begin

lemma cmp_self: "cmp x x = 0"
  using cmp_anti [of x x] by (simp add: sgn_if split: if_splits)

lemma cmp_swap: "cmp x y \<le> 0 \<or> cmp y x \<le> 0"
  using cmp_anti [of x y] by (auto simp: sgn_if split: if_splits)

lemma cmp_less_iff: "cmp x y < 0 \<longleftrightarrow> 0 < cmp y x"
  using cmp_anti [of x y] by (auto simp: sgn_if split: if_splits)

lemma cmp_less_trans: "cmp x y < 0 \<Longrightarrow> cmp y z \<le> 0 \<Longrightarrow> cmp x z < 0"
proof (rule ccontr)
  assume xy: "cmp x y < 0" and yz: "cmp y z \<le> 0" and "\<not> cmp x z < 0"
  then have "cmp z x \<le> 0" using cmp_less_iff [of x z] by linarith
  with yz have "cmp y x \<le> 0" by (rule cmp_trans)
  with xy show False using cmp_less_iff [of x y] by linarith
qed

end

text \<open>
  Stable insertion sort by a comparator: what \<open>sort\<close> computes, since ECMAScript requires a stable
  sort and a comparator determines the stable result.
\<close>

primrec js_insort :: "('a \<Rightarrow> 'a \<Rightarrow> int) \<Rightarrow> 'a \<Rightarrow> 'a list \<Rightarrow> 'a list" where
  "js_insort cmp x [] = [x]"
| "js_insort cmp x (y # ys) = (if cmp x y \<le> 0 then x # y # ys else y # js_insort cmp x ys)"

definition js_sort :: "('a \<Rightarrow> 'a \<Rightarrow> int) \<Rightarrow> 'a list \<Rightarrow> 'a list" where
  "js_sort cmp xs = foldr (js_insort cmp) xs []"

lemma js_sort_Nil [simp]: "js_sort cmp [] = []"
  by (simp add: js_sort_def)

lemma js_sort_Cons: "js_sort cmp (x # xs) = js_insort cmp x (js_sort cmp xs)"
  by (simp add: js_sort_def)

lemma set_js_insort [simp]: "set (js_insort cmp x xs) = insert x (set xs)"
  by (induction xs) auto

lemma length_js_insort [simp]: "length (js_insort cmp x xs) = Suc (length xs)"
  by (induction xs) auto

lemma set_js_sort [simp]: "set (js_sort cmp xs) = set xs"
  by (induction xs) (auto simp: js_sort_Cons)

lemma length_js_sort [simp]: "length (js_sort cmp xs) = length xs"
  by (induction xs) (auto simp: js_sort_Cons)

lemma distinct_js_insort [simp]: "distinct (js_insort cmp x xs) \<longleftrightarrow> x \<notin> set xs \<and> distinct xs"
  by (induction xs) auto

lemma distinct_js_sort [simp]: "distinct (js_sort cmp xs) = distinct xs"
  by (induction xs) (auto simp: js_sort_Cons)

lemma js_sort_eq_Nil [simp]: "js_sort cmp xs = [] \<longleftrightarrow> xs = []"
  by (metis length_0_conv length_js_sort)

context js_comparator
begin

abbreviation in_order :: "'a list \<Rightarrow> bool" where
  "in_order \<equiv> sorted_wrt (\<lambda>x y. cmp x y \<le> 0)"

lemma in_order_insort: "in_order xs \<Longrightarrow> in_order (js_insort cmp x xs)"
proof (induction xs)
  case Nil
  then show ?case by simp
next
  case (Cons y ys)
  then show ?case
    using cmp_swap [of x y] by (auto intro: cmp_trans)
qed

lemma in_order_sort: "in_order (js_sort cmp xs)"
  by (induction xs) (auto simp: js_sort_Cons in_order_insort)

lemma hd_sort_least: "js_sort cmp xs = y # ys \<Longrightarrow> x \<in> set xs \<Longrightarrow> cmp y x \<le> 0"
proof -
  assume eq: "js_sort cmp xs = y # ys" and "x \<in> set xs"
  then have "x \<in> set (y # ys)" by (metis set_js_sort)
  moreover have "in_order (y # ys)" using in_order_sort [of xs] eq by simp
  ultimately show ?thesis using cmp_self by auto
qed

end

text \<open>The numeric comparisons the code chains with \<open>||\<close>: the first that is not zero decides.\<close>

definition compareBy :: "'a::linorder \<Rightarrow> 'a \<Rightarrow> int" where
  "compareBy left right = (if left < right then -1 else if left > right then 1 else 0)"

definition or_else :: "int \<Rightarrow> int \<Rightarrow> int" where
  "or_else a b = (if a \<noteq> 0 then a else b)"

lemma compareBy_le0 [simp]: "compareBy x y \<le> 0 \<longleftrightarrow> x \<le> y"
  by (auto simp: compareBy_def)

lemma compareBy_eq0 [simp]: "compareBy x y = 0 \<longleftrightarrow> x = y"
  by (auto simp: compareBy_def)

lemma compareBy_less0 [simp]: "compareBy x y < 0 \<longleftrightarrow> x < y"
  by (auto simp: compareBy_def)

lemma compareBy_swap: "compareBy y x = - compareBy x y"
  by (auto simp: compareBy_def)

lemma or_else_0 [simp]: "or_else 0 b = b" "or_else a b = 0 \<longleftrightarrow> a = 0 \<and> b = 0"
  by (auto simp: or_else_def)

lemma or_else_le0: "or_else a b \<le> 0 \<longleftrightarrow> a < 0 \<or> (a = 0 \<and> b \<le> 0)"
  by (auto simp: or_else_def)

lemma or_else_less0: "or_else a b < 0 \<longleftrightarrow> a < 0 \<or> (a = 0 \<and> b < 0)"
  by (auto simp: or_else_def)

lemma or_else_minus: "- or_else a b = or_else (- a) (- b)"
  by (auto simp: or_else_def)

lemma js_insort_compareBy: "js_insort compareBy x xs = insort x xs"
  by (induction xs) (auto simp: compareBy_def)

lemma js_sort_compareBy: "js_sort compareBy xs = sort xs"
  by (induction xs) (simp_all add: js_sort_Cons js_insort_compareBy)

lemmas compare_simps = compareBy_swap or_else_le0 or_else_less0 or_else_minus

end
