(* ===== verification/Js.thy ===== *)
theory Js
  imports Prelude "HOL-Library.Word" "HOL-Library.List_Lexorder"
begin

text \<open>
  The JavaScript values the sources use. A string is a list of 16-bit code units, so that
  comparison, \<open>length\<close> and surrogates are those of ECMAScript; \<open>js ''abc''\<close> is a literal.
  A number the code checks with \<open>Number.isSafeInteger\<close> before use is an \<open>int\<close>: within the safe
  range every sum and every product by a power of two the sources form is exact in a double, and a
  sum that leaves the range is refused both as a double and as an integer. \<open>js_of_int\<close> is
  \<open>String(n)\<close> and \<open>BigInt.toString(10)\<close>; \<open>js_quote\<close> and \<open>js_stringify_list\<close> are
  \<open>JSON.stringify\<close> on a string and on an array of strings.
\<close>

type_synonym code_unit = "16 word"
type_synonym jsstring = "code_unit list"

abbreviation unit_of :: "nat \<Rightarrow> code_unit" where
  "unit_of n \<equiv> word_of_nat n"

definition js :: "string \<Rightarrow> jsstring" where
  "js s = map (\<lambda>c. unit_of (of_char c)) s"

lemma unat_unit_of [simp]: "n < 65536 \<Longrightarrow> unat (unit_of n) = n"
  by (simp add: unat_of_nat)

lemma unat_unit_less [simp]: "unat (u :: code_unit) < 65536"
  using unsigned_less [of u, where ?'a = nat] by simp

lemma unit_of_inject: "m < 65536 \<Longrightarrow> n < 65536 \<Longrightarrow> unit_of m = unit_of n \<longleftrightarrow> m = n"
  by (metis unat_unit_of)

lemma js_code [code]: "js s = map (\<lambda>c. word_of_int (of_char c)) s"
  by (simp add: js_def of_int_of_char of_nat_of_char)

lemma js_Nil [simp]: "js [] = []"
  by (simp add: js_def)

lemma js_append: "js (s @ t) = js s @ js t"
  by (simp add: js_def)

lemma js_length [simp]: "length (js s) = length s"
  by (simp add: js_def)

lemma unit_of_char_eq [simp]: "unit_of (of_char c) = unit_of (of_char d) \<longleftrightarrow> c = d"
proof -
  have "(of_char c :: nat) < 65536" "(of_char d :: nat) < 65536"
    using nat_of_char_less_256 [of c] nat_of_char_less_256 [of d] by linarith+
  then show ?thesis by (simp add: unit_of_inject)
qed

lemma js_eq_iff [simp]: "js s = js t \<longleftrightarrow> s = t"
proof
  have "inj (\<lambda>c. unit_of (of_char c))" by (auto simp: inj_def)
  then show "js s = js t \<Longrightarrow> s = t" by (simp add: js_def inj_map_eq_map)
qed simp

subsection \<open>Numbers\<close>

definition MAX_SAFE_INTEGER :: int where
  "MAX_SAFE_INTEGER = 9007199254740991"

definition isSafeInteger :: "int \<Rightarrow> bool" where
  "isSafeInteger n \<longleftrightarrow> \<bar>n\<bar> \<le> MAX_SAFE_INTEGER"

fun dec_digits :: "nat \<Rightarrow> nat list" where
  "dec_digits n = (if n < 10 then [n] else dec_digits (n div 10) @ [n mod 10])"

declare dec_digits.simps [simp del]

definition digit_unit :: "nat \<Rightarrow> code_unit" where
  "digit_unit d = unit_of (48 + d)"

definition js_of_nat :: "nat \<Rightarrow> jsstring" where
  "js_of_nat n = map digit_unit (dec_digits n)"

definition js_of_int :: "int \<Rightarrow> jsstring" where
  "js_of_int i = (if i < 0 then 45 # js_of_nat (nat (- i)) else js_of_nat (nat i))"

definition is_digit :: "code_unit \<Rightarrow> bool" where
  "is_digit u \<longleftrightarrow> 48 \<le> u \<and> u \<le> 57"

definition digit_val :: "code_unit \<Rightarrow> nat" where
  "digit_val u = unat u - 48"

definition nat_of_js :: "jsstring \<Rightarrow> nat" where
  "nat_of_js s = foldl (\<lambda>a u. 10 * a + digit_val u) 0 s"

lemma dec_digits_less: "d \<in> set (dec_digits n) \<Longrightarrow> d < 10"
proof (induction n rule: dec_digits.induct)
  case (1 n)
  then show ?case by (subst (asm) dec_digits.simps) (auto split: if_splits)
qed

lemma dec_digits_neq_Nil [simp]: "dec_digits n \<noteq> []"
  by (subst dec_digits.simps) simp

lemma js_of_nat_neq_Nil [simp]: "js_of_nat n \<noteq> []"
  by (simp add: js_of_nat_def)

lemma unat_digit_unit [simp]: "d < 10 \<Longrightarrow> unat (digit_unit d) = 48 + d"
  unfolding digit_unit_def by (rule unat_unit_of) simp

lemma digit_val_unit [simp]: "d < 10 \<Longrightarrow> digit_val (digit_unit d) = d"
  by (simp add: digit_val_def)

lemma is_digit_nat: "is_digit u \<longleftrightarrow> 48 \<le> unat u \<and> unat u \<le> 57"
  by (simp add: is_digit_def word_le_nat_alt)

lemma is_digit_unit [simp]: "d < 10 \<Longrightarrow> is_digit (digit_unit d)"
  by (simp add: is_digit_nat)

lemma digit_val_less: "is_digit u \<Longrightarrow> digit_val u < 10"
  by (auto simp: is_digit_nat digit_val_def)

lemma digit_unit_val: "is_digit u \<Longrightarrow> digit_unit (digit_val u) = u"
  using unat_digit_unit [OF digit_val_less, of u]
  by (auto simp: word_unat_eq_iff is_digit_nat digit_val_def)

lemma js_of_nat_digits: "u \<in> set (js_of_nat n) \<Longrightarrow> is_digit u"
  by (auto simp: js_of_nat_def dest: dec_digits_less)

lemma nat_of_js_snoc [simp]: "nat_of_js (s @ [u]) = 10 * nat_of_js s + digit_val u"
  by (simp add: nat_of_js_def)

lemma nat_of_js_Nil [simp]: "nat_of_js [] = 0"
  by (simp add: nat_of_js_def)

lemma js_of_nat_rec:
  "js_of_nat n = (if n < 10 then [digit_unit n] else js_of_nat (n div 10) @ [digit_unit (n mod 10)])"
  by (simp add: js_of_nat_def dec_digits.simps [of n])

lemma nat_of_js_of_nat [simp]: "nat_of_js (js_of_nat n) = n"
proof (induction n rule: dec_digits.induct)
  case (1 n)
  show ?case
  proof (cases "n < 10")
    case True
    then show ?thesis using nat_of_js_snoc [of "[]"] by (simp add: js_of_nat_rec)
  next
    case False
    with 1 show ?thesis by (simp add: js_of_nat_rec [of n])
  qed
qed

lemma js_of_nat_inject [simp]: "js_of_nat m = js_of_nat n \<longleftrightarrow> m = n"
  by (metis nat_of_js_of_nat)

text \<open>A printed number has no leading zero, and every digit string without one is printed.\<close>

lemma js_of_nat_hd: "n \<noteq> 0 \<Longrightarrow> hd (js_of_nat n) \<noteq> 48"
proof (induction n rule: dec_digits.induct)
  case (1 n)
  show ?case
  proof (cases "n < 10")
    case True
    with 1 have "unat (digit_unit n) \<noteq> unat (48 :: code_unit)" by simp
    with True show ?thesis by (simp add: js_of_nat_rec [of n] word_unat_eq_iff)
  next
    case False
    with 1 show ?thesis by (simp add: js_of_nat_rec [of n])
  qed
qed

lemma nat_of_js_ge:
  assumes "\<forall>u\<in>set s. is_digit u" and "s \<noteq> []" and "hd s \<noteq> 48"
  shows "nat_of_js s \<noteq> 0"
  using assms
proof (induction s rule: rev_induct)
  case Nil
  then show ?case by simp
next
  case (snoc u s)
  show ?case
  proof (cases "s = []")
    case True
    with snoc.prems have "unat u \<noteq> unat (48 :: code_unit)" "is_digit u"
      by (auto simp: word_unat_eq_iff)
    with True show ?thesis using nat_of_js_snoc [of "[]" u] by (simp add: is_digit_nat digit_val_def)
  next
    case False
    with snoc show ?thesis by simp
  qed
qed

lemma js_of_nat_of_js:
  assumes "\<forall>u\<in>set s. is_digit u" and "s \<noteq> []" and "hd s \<noteq> 48 \<or> s = [48]"
  shows "js_of_nat (nat_of_js s) = s"
  using assms
proof (induction s rule: rev_induct)
  case Nil
  then show ?case by simp
next
  case (snoc u s)
  then have u: "digit_val u < 10" "digit_unit (digit_val u) = u"
    by (auto simp: digit_val_less digit_unit_val)
  show ?case
  proof (cases "s = []")
    case True
    with u show ?thesis using nat_of_js_snoc [of "[]" u] by (simp add: js_of_nat_rec)
  next
    case False
    with snoc.prems have pre: "\<forall>v\<in>set s. is_digit v" "hd s \<noteq> 48" by auto
    with False have "nat_of_js s \<noteq> 0" by (simp add: nat_of_js_ge)
    moreover have "js_of_nat (nat_of_js s) = s" using snoc.IH pre False by blast
    ultimately show ?thesis
      using u by (simp add: js_of_nat_rec [of "10 * nat_of_js s + digit_val u"])
  qed
qed

text \<open>For evaluation, printing works on binary integers.\<close>

function dec_units :: "int \<Rightarrow> jsstring" where
  "dec_units i = (if i < 10 then [word_of_int (48 + i)] else dec_units (i div 10) @ [word_of_int (48 + i mod 10)])"
  by auto
termination by (relation "measure nat") auto

declare dec_units.simps [simp del]

lemma digit_unit_int: "0 \<le> i \<Longrightarrow> word_of_int (48 + i) = digit_unit (nat i)"
proof -
  assume "0 \<le> i"
  then have "48 + i = int (48 + nat i)" by simp
  then show ?thesis unfolding digit_unit_def by (simp only: of_int_of_nat_eq)
qed

lemma dec_units_eq: "0 \<le> i \<Longrightarrow> dec_units i = js_of_nat (nat i)"
proof (induction i rule: dec_units.induct)
  case (1 i)
  show ?case
  proof (cases "i < 10")
    case True
    with 1(2) show ?thesis
      unfolding dec_units.simps [of i] js_of_nat_rec [of "nat i"] by (simp add: digit_unit_int del: of_int_add)
  next
    case False
    with 1(1) have "dec_units (i div 10) = js_of_nat (nat i div 10)" by (simp add: nat_div_distrib)
    moreover have "word_of_int (48 + i mod 10) = digit_unit (nat i mod 10)"
      using 1(2) by (subst digit_unit_int) (simp_all add: nat_mod_distrib)
    ultimately show ?thesis
      using False unfolding dec_units.simps [of i] js_of_nat_rec [of "nat i"] by (simp del: of_int_add)
  qed
qed

lemma js_of_int_code [code]: "js_of_int i = (if i < 0 then 45 # dec_units (- i) else dec_units i)"
  by (simp add: js_of_int_def dec_units_eq)

lemma js_of_int_inject [simp]: "js_of_int i = js_of_int j \<longleftrightarrow> i = j"
proof -
  have no_minus: "js_of_nat n \<noteq> 45 # s" for n s
    using js_of_nat_digits [of 45 n] by (auto simp: is_digit_def)
  show ?thesis
    using no_minus no_minus [THEN not_sym] by (auto simp: js_of_int_def)
qed

text \<open>\<open>BigInt\<close> of a string of digits, and of a printed number that is not negative.\<close>

definition bigint_of_js :: "jsstring \<Rightarrow> int" where
  "bigint_of_js s = foldl (\<lambda>a u. 10 * a + (uint u - 48)) 0 s"

lemma bigint_of_js_nat: "\<forall>u\<in>set s. is_digit u \<Longrightarrow> bigint_of_js s = int (nat_of_js s)"
proof (induction s rule: rev_induct)
  case Nil
  then show ?case by (simp add: bigint_of_js_def)
next
  case (snoc u s)
  then have "uint u - 48 = int (digit_val u)"
    by (simp add: is_digit_nat digit_val_def of_nat_diff)
  with snoc show ?case by (simp add: bigint_of_js_def)
qed

lemma bigint_of_js_of_int [simp]: "0 \<le> i \<Longrightarrow> bigint_of_js (js_of_int i) = i"
  using js_of_nat_digits by (simp add: js_of_int_def bigint_of_js_nat)

subsection \<open>Whitespace and trimming\<close>

text \<open>The white space and line terminators \<open>String.prototype.trim\<close> removes.\<close>

definition is_js_space :: "code_unit \<Rightarrow> bool" where
  "is_js_space u \<longleftrightarrow> u \<in> {9, 10, 11, 12, 13, 32, 0xA0, 0x1680, 0x2028, 0x2029, 0x202F, 0x205F,
     0x3000, 0xFEFF} \<or> 0x2000 \<le> u \<and> u \<le> 0x200A"

lemma is_js_space_code [code]:
  "is_js_space u = (let n = uint u in if n < 33 then n = 32 \<or> 9 \<le> n \<and> n \<le> 13
     else if n < 127 then False
     else n \<in> {0xA0, 0x1680, 0x2028, 0x2029, 0x202F, 0x205F, 0x3000, 0xFEFF} \<or> 0x2000 \<le> n \<and> n \<le> 0x200A)"
proof -
  have "is_js_space u \<longleftrightarrow> uint u \<in> {9, 10, 11, 12, 13, 32, 0xA0, 0x1680, 0x2028, 0x2029, 0x202F, 0x205F,
      0x3000, 0xFEFF} \<or> 0x2000 \<le> uint u \<and> uint u \<le> 0x200A"
    by (simp add: is_js_space_def word_uint_eq_iff word_le_def)
  then show ?thesis by (auto simp: Let_def)
qed

definition js_trim :: "jsstring \<Rightarrow> jsstring" where
  "js_trim s = rev (dropWhile is_js_space (rev (dropWhile is_js_space s)))"

lemma js_trim_eq_Nil: "js_trim s = [] \<longleftrightarrow> (\<forall>u\<in>set s. is_js_space u)"
proof -
  have "(\<forall>u\<in>set (dropWhile is_js_space s). is_js_space u) \<longleftrightarrow> (\<forall>u\<in>set s. is_js_space u)"
    by (induction s) auto
  then show ?thesis by (simp add: js_trim_def dropWhile_eq_Nil_conv)
qed

subsection \<open>Comparison\<close>

text \<open>
  The relational operators of ECMAScript compare strings by code units, which is the lexicographic
  order of the lists. \<open>compareNumber\<close> and \<open>compareText\<close> of the sources are \<open>compareBy\<close>.
\<close>

abbreviation compareNumber :: "int \<Rightarrow> int \<Rightarrow> int" where
  "compareNumber \<equiv> compareBy"

abbreviation compareText :: "jsstring \<Rightarrow> jsstring \<Rightarrow> int" where
  "compareText \<equiv> compareBy"

subsection \<open>Strings in JSON\<close>

definition is_high :: "code_unit \<Rightarrow> bool" where
  "is_high u \<longleftrightarrow> 0xD800 \<le> u \<and> u \<le> 0xDBFF"

definition is_low :: "code_unit \<Rightarrow> bool" where
  "is_low u \<longleftrightarrow> 0xDC00 \<le> u \<and> u \<le> 0xDFFF"

definition hex_digit :: "nat \<Rightarrow> code_unit" where
  "hex_digit d = unit_of (if d < 10 then 48 + d else 87 + d)"

definition unicode_escape :: "code_unit \<Rightarrow> jsstring" where
  "unicode_escape u = [92, 117, hex_digit (unat u div 4096), hex_digit (unat u div 256 mod 16),
     hex_digit (unat u div 16 mod 16), hex_digit (unat u mod 16)]"

definition quote_unit :: "code_unit \<Rightarrow> jsstring" where
  "quote_unit u =
     (if u = 8 then [92, 98] else if u = 9 then [92, 116] else if u = 10 then [92, 110]
      else if u = 12 then [92, 102] else if u = 13 then [92, 114]
      else if u = 34 then [92, 34] else if u = 92 then [92, 92]
      else if u < 32 then unicode_escape u else [u])"

lemma quote_unit_code [code]:
  "quote_unit u = (let n = uint u in if 34 < n \<and> n \<noteq> 92 then [u]
     else if n = 8 then [92, 98] else if n = 9 then [92, 116] else if n = 10 then [92, 110]
     else if n = 12 then [92, 102] else if n = 13 then [92, 114] else if n = 34 then [92, 34]
     else if n = 92 then [92, 92] else if n < 32 then unicode_escape u else [u])"
  by (simp add: quote_unit_def Let_def word_uint_eq_iff word_less_def)

lemma is_high_code [code]: "is_high u = (let n = uint u in 0xD800 \<le> n \<and> n \<le> 0xDBFF)"
  by (simp add: is_high_def word_le_def Let_def)

lemma is_low_code [code]: "is_low u = (let n = uint u in 0xDC00 \<le> n \<and> n \<le> 0xDFFF)"
  by (simp add: is_low_def word_le_def Let_def)

fun quote_body :: "jsstring \<Rightarrow> jsstring" where
  "quote_body [] = []"
| "quote_body [u] = (if is_high u \<or> is_low u then unicode_escape u else quote_unit u)"
| "quote_body (u # v # us) =
     (if is_high u \<and> is_low v then u # v # quote_body us
      else (if is_high u \<or> is_low u then unicode_escape u else quote_unit u) @ quote_body (v # us))"

definition js_quote :: "jsstring \<Rightarrow> jsstring" where
  "js_quote s = 34 # quote_body s @ [34]"

fun js_join :: "jsstring \<Rightarrow> jsstring list \<Rightarrow> jsstring" where
  "js_join sep [] = []"
| "js_join sep [x] = x"
| "js_join sep (x # y # xs) = x @ sep @ js_join sep (y # xs)"

definition js_stringify_list :: "jsstring list \<Rightarrow> jsstring" where
  "js_stringify_list xs = 91 # js_join [44] (map js_quote xs) @ [93]"

subsection \<open>JSON strings decode\<close>

text \<open>
  A decoder for quoted text shows that \<open>JSON.stringify\<close> of a list of strings is injective for all
  strings, also those that are not well-formed UTF-16.
\<close>

definition hex_val :: "code_unit \<Rightarrow> nat" where
  "hex_val u = (if unat u < 58 then unat u - 48 else unat u - 87)"

definition escaped_unit :: "code_unit \<Rightarrow> code_unit" where
  "escaped_unit c = (if c = 98 then 8 else if c = 116 then 9 else if c = 110 then 10
     else if c = 102 then 12 else if c = 114 then 13 else c)"

definition push_unit :: "code_unit \<Rightarrow> (jsstring \<times> jsstring) option \<Rightarrow> (jsstring \<times> jsstring) option" where
  "push_unit u = map_option (apfst ((#) u))"

fun unquote :: "jsstring \<Rightarrow> (jsstring \<times> jsstring) option" where
  "unquote [] = None"
| "unquote [u] = (if u = 34 then Some ([], []) else None)"
| "unquote [u, c] = (if u = 34 then Some ([], [c]) else if u = 92 then None else push_unit u (unquote [c]))"
| "unquote (u # c # rest) =
     (if u = 34 then Some ([], c # rest)
      else if u \<noteq> 92 then push_unit u (unquote (c # rest))
      else if c \<noteq> 117 then push_unit (escaped_unit c) (unquote rest)
      else push_unit (unit_of (4096 * hex_val (hd rest) + 256 * hex_val (hd (drop 1 rest))
          + 16 * hex_val (hd (drop 2 rest)) + hex_val (hd (drop 3 rest)))) (unquote (drop 4 rest)))"

lemma hex_val_digit [simp]: "d < 16 \<Longrightarrow> hex_val (hex_digit d) = d"
  by (auto simp: hex_val_def hex_digit_def)

lemma unit_of_hex: 
  fixes u :: code_unit
  shows "unit_of (4096 * (unat u div 4096) + 256 * (unat u div 256 mod 16)
     + 16 * (unat u div 16 mod 16) + unat u mod 16) = u"
proof -
  have "4096 * (n div 4096) + 256 * (n div 256 mod 16) + 16 * (n div 16 mod 16) + n mod 16 = n" for n :: nat
  proof -
    have "n div 256 div 16 = n div 4096" "n div 16 div 16 = n div 256" by (simp_all add: div_mult2_eq [symmetric])
    then show ?thesis
      using div_mult_mod_eq [of n 16] div_mult_mod_eq [of "n div 16" 16] div_mult_mod_eq [of "n div 256" 16]
      by linarith
  qed
  from this [of "unat u"] show ?thesis by (simp del: of_nat_add of_nat_mult)
qed

lemma unquote_plain: "u \<noteq> 34 \<Longrightarrow> u \<noteq> 92 \<Longrightarrow> r \<noteq> [] \<Longrightarrow> unquote (u # r) = push_unit u (unquote r)"
  by (cases r; cases "tl r") auto

lemma unquote_escape: "unquote (unicode_escape u @ r) = push_unit u (unquote r)"
proof -
  have "unat u div 4096 < 16" using unsigned_less [of u] by (simp add: less_mult_imp_div_less)
  then show ?thesis by (simp add: unicode_escape_def unit_of_hex del: of_nat_add of_nat_mult)
qed

lemma unquote_end: "unquote (34 # r) = Some ([], r)"
  by (cases r; cases "tl r") auto

lemma unquote_short: "c \<noteq> 117 \<Longrightarrow> r \<noteq> [] \<Longrightarrow> unquote (92 # c # r) = push_unit (escaped_unit c) (unquote r)"
  by (cases r) auto

lemma unquote_unit: "r \<noteq> [] \<Longrightarrow> unquote (quote_unit u @ r) = push_unit u (unquote r)"
  unfolding quote_unit_def
  by (simp add: unquote_short unquote_escape unquote_plain escaped_unit_def)

lemma high_low_plain: "is_high u \<or> is_low u \<Longrightarrow> u \<noteq> 34 \<and> u \<noteq> 92"
  by (auto simp: is_high_def is_low_def)

lemma unquote_body: "unquote (quote_body s @ 34 # r) = Some (s, r)"
proof (induction s rule: quote_body.induct)
  case 1
  then show ?case by (simp add: unquote_end)
next
  case (2 u)
  then show ?case by (simp add: unquote_end unquote_unit unquote_escape push_unit_def)
next
  case (3 u v us)
  show ?case
  proof (cases "is_high u \<and> is_low v")
    case True
    then have "unquote (quote_body us @ 34 # r) = Some (us, r)" by (rule 3)
    moreover have "u \<noteq> 34 \<and> u \<noteq> 92" "v \<noteq> 34 \<and> v \<noteq> 92" using True high_low_plain by auto
    ultimately show ?thesis using True by (simp add: unquote_plain push_unit_def)
  next
    case False
    then have "unquote (quote_body (v # us) @ 34 # r) = Some (v # us, r)" by (rule 3)
    moreover have "quote_body (u # v # us) =
        (if is_high u \<or> is_low u then unicode_escape u else quote_unit u) @ quote_body (v # us)"
      unfolding quote_body.simps(3) using False by (rule if_not_P)
    ultimately show ?thesis
      by (simp add: unquote_unit unquote_escape push_unit_def del: quote_body.simps)
  qed
qed

lemma js_quote_inject: "js_quote s @ r = js_quote s' @ r' \<longleftrightarrow> s = s' \<and> r = r'"
proof
  assume "js_quote s @ r = js_quote s' @ r'"
  then have "quote_body s @ 34 # r = quote_body s' @ 34 # r'" by (simp add: js_quote_def)
  then have "Some (s, r) = Some (s', r')" by (metis unquote_body)
  then show "s = s' \<and> r = r'" by simp
qed simp

lemma js_join_Cons: "js_join sep (x # xs) = x @ (if xs = [] then [] else sep @ js_join sep xs)"
  by (cases xs) auto

lemma js_quote_hd: "js_quote s = 34 # tl (js_quote s)"
  by (simp add: js_quote_def)

lemma js_join_quotes_inject:
  "js_join [44] (map js_quote xs) @ [93] = js_join [44] (map js_quote ys) @ [93] \<Longrightarrow> xs = ys"
proof (induction xs arbitrary: ys)
  case Nil
  then show ?case by (cases ys) (auto simp: js_join_Cons js_quote_def)
next
  case (Cons x xs)
  then obtain y ys' where ys: "ys = y # ys'" by (cases ys) (auto simp: js_join_Cons js_quote_def)
  define rest where "rest zs = (if zs = [] then [] else 44 # js_join [44] (map js_quote zs)) @ [93]" for zs
  have "js_quote x @ rest xs = js_quote y @ rest ys'"
    using Cons.prems by (simp add: ys js_join_Cons rest_def split: if_splits)
  then have "x = y" and "rest xs = rest ys'" by (simp_all add: js_quote_inject)
  then show ?case
    using Cons.IH [of ys'] ys by (auto simp: rest_def split: if_splits)
qed

lemma js_stringify_list_inject [simp]: "js_stringify_list xs = js_stringify_list ys \<longleftrightarrow> xs = ys"
  using js_join_quotes_inject by (auto simp: js_stringify_list_def)

end
