(* ===== verification/DurableWork.thy ===== *)
theory DurableWork
  imports Js
begin

text \<open>
  The vocabulary the Job and the Outbox state machines share (\<open>tools/job-outbox/shared.ts\<close>):
  retry policies and backoff, database time, leases with fencing tokens, attempts, audit records,
  and the checks both machines make before a transition. Times, durations, counters and tokens are
  numbers the code keeps within the safe-integer range; they are \<open>int\<close>.
\<close>

datatype DurableWorkErrorCode =
    ALREADY_EXISTS | DATABASE_TIME_REGRESSION | IDEMPOTENCY_CONFLICT | INVALID_ARGUMENT
  | INVALID_STATE | LEASE_EXPIRED | LEASE_MISMATCH | NOT_FOUND | SEQUENCE_CONFLICT

type_synonym 'a work_result = "DurableWorkErrorCode + 'a"

definition SECOND_IN_MS :: int where
  "SECOND_IN_MS = 1000"

definition MINUTE_IN_MS :: int where
  "MINUTE_IN_MS = 60 * SECOND_IN_MS"

definition MAX_POSTGRES_BIGINT :: int where
  "MAX_POSTGRES_BIGINT = 9223372036854775807"

record RetryPolicy =
  maximumAttemptsPerCycle :: int
  initialBackoffMs :: int
  maximumBackoffMs :: int
  leaseDurationMs :: int

definition defaultJobRetryPolicy :: RetryPolicy where
  "defaultJobRetryPolicy = \<lparr>maximumAttemptsPerCycle = 5, initialBackoffMs = 5 * SECOND_IN_MS,
     maximumBackoffMs = 5 * MINUTE_IN_MS, leaseDurationMs = 30 * SECOND_IN_MS\<rparr>"

definition defaultOutboxRetryPolicy :: RetryPolicy where
  "defaultOutboxRetryPolicy = \<lparr>maximumAttemptsPerCycle = 8, initialBackoffMs = SECOND_IN_MS,
     maximumBackoffMs = 15 * MINUTE_IN_MS, leaseDurationMs = 30 * SECOND_IN_MS\<rparr>"

datatype FailureCategory = DEPENDENCY | INTERNAL | LEASE | PERMANENT | THROTTLED

record FailureCause =
  fc_code :: jsstring
  fc_category :: FailureCategory
  fc_retryable :: bool
  fc_fingerprint :: jsstring

datatype WorkKind = JOB | OUTBOX

record LeaseHandle =
  workKind :: WorkKind
  workId :: jsstring
  attemptId :: jsstring
  workerId :: jsstring
  fencingToken :: int

record ActiveLease = LeaseHandle +
  acquiredAt :: int
  heartbeatAt :: int
  expiresAt :: int

datatype AttemptOutcome =
    Att_ACTIVE | Att_SUCCEEDED | Att_RETRY_SCHEDULED | Att_DEAD_LETTER | Att_LEASE_EXPIRED
  | Att_CANCELLED

record WorkAttempt =
  att_id :: jsstring
  att_workKind :: WorkKind
  att_workId :: jsstring
  att_workerId :: jsstring
  att_fencingToken :: int
  att_replayCycle :: int
  att_attemptInCycle :: int
  att_totalAttempt :: int
  att_startedAt :: int
  att_lastHeartbeatAt :: int
  att_finishedAt :: "int option"
  att_outcome :: AttemptOutcome
  att_failure :: "FailureCause option"

datatype ActorType = SYSTEM | WORKER | OPERATOR

record AuditRecord =
  aud_sequence :: int
  aud_eventType :: jsstring
  aud_workKind :: WorkKind
  aud_workId :: jsstring
  aud_attemptId :: "jsstring option"
  aud_actorType :: ActorType
  aud_actorId :: jsstring
  aud_correlationId :: jsstring
  aud_databaseAt :: int
  aud_details :: "(jsstring \<times> jsstring) list"

record LeaseProtectedRecord =
  w_id :: jsstring
  stateChangedAt :: int
  lastObservedDatabaseAt :: int
  lease :: "ActiveLease option"

subsection \<open>Checks and arithmetic\<close>

definition assertRetryPolicy :: "RetryPolicy \<Rightarrow> unit work_result" where
  "assertRetryPolicy p =
     rbind (guard (isSafeInteger (maximumAttemptsPerCycle p) \<and> 1 \<le> maximumAttemptsPerCycle p) INVALID_ARGUMENT) (\<lambda>_.
     rbind (guard (isSafeInteger (initialBackoffMs p) \<and> 0 < initialBackoffMs p) INVALID_ARGUMENT) (\<lambda>_.
     rbind (guard (isSafeInteger (maximumBackoffMs p) \<and> 0 < maximumBackoffMs p) INVALID_ARGUMENT) (\<lambda>_.
     rbind (guard (isSafeInteger (leaseDurationMs p) \<and> 0 < leaseDurationMs p) INVALID_ARGUMENT) (\<lambda>_.
     guard (initialBackoffMs p \<le> maximumBackoffMs p) INVALID_ARGUMENT))))"

definition retryBackoffMs :: "int \<Rightarrow> RetryPolicy \<Rightarrow> int work_result" where
  "retryBackoffMs attemptInCycle p =
     rbind (guard (isSafeInteger attemptInCycle \<and> 1 \<le> attemptInCycle) INVALID_ARGUMENT) (\<lambda>_.
     let exponent = min (attemptInCycle - 1) 52
     in Inr (min (maximumBackoffMs p) (initialBackoffMs p * 2 ^ nat exponent)))"

definition assertDatabaseTime :: "int \<Rightarrow> unit work_result" where
  "assertDatabaseTime databaseNow = guard (isSafeInteger databaseNow \<and> 0 \<le> databaseNow) INVALID_ARGUMENT"

definition addDatabaseDuration :: "int \<Rightarrow> int \<Rightarrow> int work_result" where
  "addDatabaseDuration databaseNow durationMs =
     rbind (assertDatabaseTime databaseNow) (\<lambda>_.
     rbind (guard (isSafeInteger durationMs \<and> 0 \<le> durationMs) INVALID_ARGUMENT) (\<lambda>_.
     rbind (guard (isSafeInteger (databaseNow + durationMs)) INVALID_ARGUMENT) (\<lambda>_.
     Inr (databaseNow + durationMs))))"

definition observeDatabaseTime :: "'r LeaseProtectedRecord_scheme \<Rightarrow> int \<Rightarrow> unit work_result" where
  "observeDatabaseTime record databaseNow =
     rbind (assertDatabaseTime databaseNow) (\<lambda>_.
     guard (lastObservedDatabaseAt record \<le> databaseNow) DATABASE_TIME_REGRESSION)"

definition assertValidLease ::
  "'r LeaseProtectedRecord_scheme \<Rightarrow> LeaseHandle \<Rightarrow> int \<Rightarrow> WorkKind \<Rightarrow> ActiveLease work_result" where
  "assertValidLease record handle databaseNow expectedKind =
     rbind (observeDatabaseTime record databaseNow) (\<lambda>_.
     case lease record of
       None \<Rightarrow> Inl LEASE_MISMATCH
     | Some l \<Rightarrow>
         if workKind handle \<noteq> expectedKind \<or> workId handle \<noteq> w_id record
            \<or> attemptId handle \<noteq> attemptId l \<or> workerId handle \<noteq> workerId l
            \<or> fencingToken handle \<noteq> fencingToken l
         then Inl LEASE_MISMATCH
         else if expiresAt l \<le> databaseNow then Inl LEASE_EXPIRED
         else Inr l)"

definition leaseHandle :: "ActiveLease \<Rightarrow> LeaseHandle" where
  "leaseHandle l = \<lparr>workKind = workKind l, workId = workId l, attemptId = attemptId l,
     workerId = workerId l, fencingToken = fencingToken l\<rparr>"

definition requireNonEmpty :: "jsstring \<Rightarrow> unit work_result" where
  "requireNonEmpty v = guard (js_trim v \<noteq> []) INVALID_ARGUMENT"

definition is_upper :: "code_unit \<Rightarrow> bool" where
  "is_upper u \<longleftrightarrow> 65 \<le> u \<and> u \<le> 90"

definition requireAuditCode :: "jsstring \<Rightarrow> unit work_result" where
  "requireAuditCode v = guard
     (2 \<le> length v \<and> length v \<le> 64 \<and> is_upper (hd v)
        \<and> list_all (\<lambda>u. is_upper u \<or> is_digit u \<or> u = 95) (tl v)) INVALID_ARGUMENT"

definition validateFailure :: "FailureCause \<Rightarrow> unit work_result" where
  "validateFailure f = rbind (requireNonEmpty (fc_code f)) (\<lambda>_. requireNonEmpty (fc_fingerprint f))"

primrec requireAllNonEmpty :: "jsstring list \<Rightarrow> unit work_result" where
  "requireAllNonEmpty [] = Inr ()"
| "requireAllNonEmpty (v # vs) = rbind (requireNonEmpty v) (\<lambda>_. requireAllNonEmpty vs)"

subsection \<open>What the checks guarantee\<close>

lemma assertDatabaseTime_iff [simp]:
  "assertDatabaseTime t = Inr u \<longleftrightarrow> isSafeInteger t \<and> 0 \<le> t"
  by (simp add: assertDatabaseTime_def)

lemma observeDatabaseTime_iff [simp]:
  "observeDatabaseTime r t = Inr u \<longleftrightarrow> isSafeInteger t \<and> 0 \<le> t \<and> lastObservedDatabaseAt r \<le> t"
  by (auto simp: observeDatabaseTime_def)

lemma assertValidLease_iff:
  "assertValidLease r h t k = Inr l \<longleftrightarrow>
     isSafeInteger t \<and> 0 \<le> t \<and> lastObservedDatabaseAt r \<le> t \<and> lease r = Some l
     \<and> workKind h = k \<and> workId h = w_id r \<and> attemptId h = attemptId l \<and> workerId h = workerId l
     \<and> fencingToken h = fencingToken l \<and> t < expiresAt l"
  by (auto simp: assertValidLease_def split: option.splits if_splits)

lemma addDatabaseDuration_iff [simp]:
  "addDatabaseDuration t d = Inr e \<longleftrightarrow>
     isSafeInteger t \<and> 0 \<le> t \<and> isSafeInteger d \<and> 0 \<le> d \<and> isSafeInteger (t + d) \<and> e = t + d"
  by (auto simp: addDatabaseDuration_def)

lemma assertRetryPolicy_iff:
  "assertRetryPolicy p = Inr u \<longleftrightarrow>
     isSafeInteger (maximumAttemptsPerCycle p) \<and> 1 \<le> maximumAttemptsPerCycle p
     \<and> isSafeInteger (initialBackoffMs p) \<and> 0 < initialBackoffMs p
     \<and> isSafeInteger (maximumBackoffMs p) \<and> 0 < maximumBackoffMs p
     \<and> isSafeInteger (leaseDurationMs p) \<and> 0 < leaseDurationMs p
     \<and> initialBackoffMs p \<le> maximumBackoffMs p"
  by (auto simp: assertRetryPolicy_def)

lemma retryBackoffMs_ok:
  "1 \<le> n \<Longrightarrow> isSafeInteger n \<Longrightarrow>
     retryBackoffMs n p = Inr (min (maximumBackoffMs p) (initialBackoffMs p * 2 ^ nat (min (n - 1) 52)))"
  by (simp add: retryBackoffMs_def)

lemma retryBackoffMs_range:
  assumes "assertRetryPolicy p = Inr u" and "retryBackoffMs n p = Inr d"
  shows "initialBackoffMs p \<le> d" and "d \<le> maximumBackoffMs p" and "isSafeInteger d" and "0 \<le> d"
proof -
  have p: "0 < initialBackoffMs p" "initialBackoffMs p \<le> maximumBackoffMs p"
    "isSafeInteger (maximumBackoffMs p)"
    using assms(1) by (auto simp: assertRetryPolicy_iff)
  have d: "d = min (maximumBackoffMs p) (initialBackoffMs p * 2 ^ nat (min (n - 1) 52))"
    using assms(2) by (auto simp: retryBackoffMs_def)
  have "initialBackoffMs p * 1 \<le> initialBackoffMs p * 2 ^ nat (min (n - 1) 52)"
    using p(1) by (intro mult_left_mono) auto
  with d p show "initialBackoffMs p \<le> d" and "d \<le> maximumBackoffMs p" by auto
  with p show "isSafeInteger d" and "0 \<le> d" by (auto simp: isSafeInteger_def)
qed

subsection \<open>Audit logs\<close>

text \<open>Both machines append to their log with the next sequence number.\<close>

definition audit_contiguous :: "AuditRecord list \<Rightarrow> bool" where
  "audit_contiguous log \<longleftrightarrow> map aud_sequence log = map int [1..<Suc (length log)]"

lemma audit_contiguous_Nil [simp]: "audit_contiguous []"
  by (simp add: audit_contiguous_def)

lemma audit_contiguous_snoc [simp]:
  "audit_contiguous (log @ [r]) \<longleftrightarrow> audit_contiguous log \<and> aud_sequence r = int (length log) + 1"
  by (auto simp: audit_contiguous_def)

end
