(* ===== verification/Job.thy ===== *)
theory Job
  imports DurableWork
begin

text \<open>
  The durable Job state machine (\<open>tools/job-outbox/job.ts\<close>): an idempotent queue whose jobs are
  claimed under a lease with a fencing token, report checkpoints, succeed, fail into a bounded
  retry cycle or a dead letter, are reclaimed when their lease expires, replayed or cancelled.

  \<open>JobStateModel\<close> is the class: its policy and its five private collections. Every method is a
  function from the model (and its arguments) to the outcome and the model after the call, also
  when it throws half way: \<open>heartbeat\<close> has then already moved \<open>heartbeatAt\<close>, a failing job has
  already dropped its lease.
\<close>

datatype JobState =
    Job_QUEUED | Job_RUNNING | Job_RETRY_WAIT | Job_SUCCEEDED | Job_DEAD_LETTER | Job_CANCELLED

record JobRecord = LeaseProtectedRecord +
  job_projectId :: jsstring
  job_jobType :: jsstring
  job_idempotencyKey :: jsstring
  job_inputDigest :: jsstring
  job_correlationId :: jsstring
  job_priority :: int
  job_state :: JobState
  job_createdAt :: int
  job_availableAt :: int
  job_nextFencingToken :: int
  job_replayCycle :: int
  job_replayCount :: int
  job_attemptsInCycle :: int
  job_totalAttempts :: int
  job_firstFailure :: "FailureCause option"
  job_lastFailure :: "FailureCause option"
  job_resultRef :: "jsstring option"
  job_cancellationReason :: "jsstring option"

record JobCheckpoint =
  cp_jobId :: jsstring
  cp_sequence :: int
  cp_name :: jsstring
  cp_outputRef :: jsstring
  cp_outputDigest :: jsstring
  cp_attemptId :: jsstring
  cp_completedAt :: int

record EnqueueJobInput =
  in_id :: jsstring
  in_projectId :: jsstring
  in_jobType :: jsstring
  in_idempotencyKey :: jsstring
  in_inputDigest :: jsstring
  in_correlationId :: jsstring
  in_databaseNow :: int
  in_priority :: "int option"
  in_availableAt :: "int option"

record ClaimJobInput =
  cl_workerId :: jsstring
  cl_attemptId :: jsstring
  cl_databaseNow :: int

record ClaimedJob =
  claimed_job :: JobRecord
  claimed_lease :: LeaseHandle
  latestCheckpoint :: "JobCheckpoint option"

record CompleteCheckpointInput =
  ci_sequence :: int
  ci_name :: jsstring
  ci_outputRef :: jsstring
  ci_outputDigest :: jsstring

record JobStateModel =
  jm_policy :: RetryPolicy
  jm_jobs :: "(jsstring, JobRecord) jsmap"
  jm_attempts :: "(jsstring, WorkAttempt) jsmap"
  jm_checkpoints :: "(jsstring, JobCheckpoint list) jsmap"
  jm_idempotencyIndex :: "(jsstring, jsstring) jsmap"
  jm_audit :: "AuditRecord list"

type_synonym 'a job_outcome = "(DurableWorkErrorCode, 'a, JobStateModel) outcome"

subsection \<open>Construction, lookups, validation\<close>

definition new_JobStateModel :: "RetryPolicy \<Rightarrow> JobStateModel work_result" where
  "new_JobStateModel p = rbind (assertRetryPolicy p) (\<lambda>_.
     Inr \<lparr>jm_policy = p, jm_jobs = [], jm_attempts = [], jm_checkpoints = [],
          jm_idempotencyIndex = [], jm_audit = []\<rparr>)"

definition requiredJob :: "JobStateModel \<Rightarrow> jsstring \<Rightarrow> JobRecord work_result" where
  "requiredJob m k = (case map_of (jm_jobs m) k of None \<Rightarrow> Inl NOT_FOUND | Some j \<Rightarrow> Inr j)"

definition requiredJobAttempt :: "JobStateModel \<Rightarrow> jsstring \<Rightarrow> WorkAttempt work_result" where
  "requiredJobAttempt m k = (case map_of (jm_attempts m) k of None \<Rightarrow> Inl NOT_FOUND | Some a \<Rightarrow> Inr a)"

definition job_checkpoints :: "JobStateModel \<Rightarrow> jsstring \<Rightarrow> JobCheckpoint list" where
  "job_checkpoints m k = (case map_of (jm_checkpoints m) k of None \<Rightarrow> [] | Some cs \<Rightarrow> cs)"

definition latest_checkpoint :: "JobStateModel \<Rightarrow> jsstring \<Rightarrow> JobCheckpoint option" where
  "latest_checkpoint m k = (let cs = job_checkpoints m k in if cs = [] then None else Some (last cs))"

definition jobIdempotencyScope :: "jsstring \<Rightarrow> jsstring \<Rightarrow> jsstring \<Rightarrow> jsstring" where
  "jobIdempotencyScope projectId jobType idempotencyKey =
     js_stringify_list [projectId, jobType, idempotencyKey]"

definition job_scope :: "JobRecord \<Rightarrow> jsstring" where
  "job_scope j = jobIdempotencyScope (job_projectId j) (job_jobType j) (job_idempotencyKey j)"

definition compareJobs :: "JobRecord \<Rightarrow> JobRecord \<Rightarrow> int" where
  "compareJobs left right =
     or_else (compareNumber (job_priority right) (job_priority left))
     (or_else (compareNumber (job_availableAt left) (job_availableAt right))
     (or_else (compareNumber (job_createdAt left) (job_createdAt right))
     (compareText (w_id left) (w_id right))))"

definition validateEnqueue :: "EnqueueJobInput \<Rightarrow> unit work_result" where
  "validateEnqueue i =
     rbind (requireAllNonEmpty [in_id i, in_projectId i, in_jobType i, in_idempotencyKey i,
       in_inputDigest i, in_correlationId i]) (\<lambda>_.
     rbind (assertDatabaseTime (in_databaseNow i)) (\<lambda>_.
     guard (case in_priority i of None \<Rightarrow> True | Some p \<Rightarrow> isSafeInteger p) INVALID_ARGUMENT))"

definition validateClaim :: "ClaimJobInput \<Rightarrow> unit work_result" where
  "validateClaim i =
     rbind (requireNonEmpty (cl_workerId i)) (\<lambda>_.
     rbind (requireNonEmpty (cl_attemptId i)) (\<lambda>_.
     assertDatabaseTime (cl_databaseNow i)))"

definition validateCheckpoint :: "CompleteCheckpointInput \<Rightarrow> unit work_result" where
  "validateCheckpoint i =
     rbind (guard (isSafeInteger (ci_sequence i) \<and> 1 \<le> ci_sequence i) INVALID_ARGUMENT) (\<lambda>_.
     requireAllNonEmpty [ci_name i, ci_outputRef i, ci_outputDigest i])"

definition job_appendAudit ::
  "JobStateModel \<Rightarrow> JobRecord \<Rightarrow> string \<Rightarrow> ActorType \<Rightarrow> jsstring \<Rightarrow> jsstring option \<Rightarrow> int
     \<Rightarrow> (jsstring \<times> jsstring) list \<Rightarrow> JobStateModel" where
  "job_appendAudit m j eventType actorType actorId activeAttempt databaseAt details =
     m\<lparr>jm_audit := jm_audit m @ [\<lparr>aud_sequence = int (length (jm_audit m)) + 1,
        aud_eventType = js eventType, aud_workKind = JOB, aud_workId = w_id j,
        aud_attemptId = activeAttempt, aud_actorType = actorType, aud_actorId = actorId,
        aud_correlationId = job_correlationId j, aud_databaseAt = databaseAt,
        aud_details = details\<rparr>]\<rparr>"

text \<open>The code mutates the object in the map; the model stores the changed record under its key.\<close>

definition put_job :: "JobStateModel \<Rightarrow> JobRecord \<Rightarrow> JobStateModel" where
  "put_job m j = m\<lparr>jm_jobs := AList.update (w_id j) j (jm_jobs m)\<rparr>"

definition put_job_attempt :: "JobStateModel \<Rightarrow> WorkAttempt \<Rightarrow> JobStateModel" where
  "put_job_attempt m a = m\<lparr>jm_attempts := AList.update (att_id a) a (jm_attempts m)\<rparr>"

subsection \<open>The operations\<close>

definition new_job_record :: "EnqueueJobInput \<Rightarrow> int \<Rightarrow> JobRecord" where
  "new_job_record i availableAt = \<lparr>w_id = in_id i, stateChangedAt = in_databaseNow i,
     lastObservedDatabaseAt = in_databaseNow i, lease = None,
     job_projectId = in_projectId i, job_jobType = in_jobType i,
     job_idempotencyKey = in_idempotencyKey i, job_inputDigest = in_inputDigest i,
     job_correlationId = in_correlationId i,
     job_priority = (case in_priority i of None \<Rightarrow> 0 | Some p \<Rightarrow> p),
     job_state = Job_QUEUED, job_createdAt = in_databaseNow i,
     job_availableAt = availableAt, job_nextFencingToken = 1, job_replayCycle = 0,
     job_replayCount = 0, job_attemptsInCycle = 0, job_totalAttempts = 0,
     job_firstFailure = None, job_lastFailure = None, job_resultRef = None,
     job_cancellationReason = None\<rparr>"

definition job_enqueue :: "JobStateModel \<Rightarrow> EnqueueJobInput \<Rightarrow> JobRecord job_outcome" where
  "job_enqueue m i = attempt m (validateEnqueue i) (\<lambda>_.
     let scope = jobIdempotencyScope (in_projectId i) (in_jobType i) (in_idempotencyKey i) in
     case map_of (jm_idempotencyIndex m) scope of
       Some existingId \<Rightarrow> attempt m (requiredJob m existingId) (\<lambda>existing.
         if job_inputDigest existing \<noteq> in_inputDigest i then (Inl IDEMPOTENCY_CONFLICT, m)
         else (Inr existing, m))
     | None \<Rightarrow>
         if map_of (jm_jobs m) (in_id i) \<noteq> None then (Inl ALREADY_EXISTS, m)
         else let availableAt = (case in_availableAt i of None \<Rightarrow> in_databaseNow i | Some t \<Rightarrow> t) in
         attempt m (assertDatabaseTime availableAt) (\<lambda>_.
         if availableAt < in_databaseNow i then (Inl INVALID_ARGUMENT, m)
         else let record = new_job_record i availableAt;
              m1 = put_job m record;
              m2 = m1\<lparr>jm_idempotencyIndex := AList.update scope (w_id record) (jm_idempotencyIndex m1)\<rparr>
         in (Inr record, job_appendAudit m2 record ''JOB_ENQUEUED'' SYSTEM (js ''job-enqueue'') None
               (in_databaseNow i) [(js ''state'', js ''QUEUED'')])))"

definition job_claimable :: "int \<Rightarrow> JobRecord \<Rightarrow> bool" where
  "job_claimable now j \<longleftrightarrow>
     (job_state j = Job_QUEUED \<or> job_state j = Job_RETRY_WAIT) \<and> job_availableAt j \<le> now"

definition job_new_lease :: "JobRecord \<Rightarrow> ClaimJobInput \<Rightarrow> int \<Rightarrow> ActiveLease" where
  "job_new_lease candidate i expires = \<lparr>workKind = JOB, workId = w_id candidate,
     attemptId = cl_attemptId i, workerId = cl_workerId i,
     fencingToken = job_nextFencingToken candidate, acquiredAt = cl_databaseNow i,
     heartbeatAt = cl_databaseNow i, expiresAt = expires\<rparr>"

definition job_new_attempt :: "JobRecord \<Rightarrow> ClaimJobInput \<Rightarrow> WorkAttempt" where
  "job_new_attempt candidate i = \<lparr>att_id = cl_attemptId i, att_workKind = JOB,
     att_workId = w_id candidate, att_workerId = cl_workerId i,
     att_fencingToken = job_nextFencingToken candidate,
     att_replayCycle = job_replayCycle candidate,
     att_attemptInCycle = job_attemptsInCycle candidate + 1,
     att_totalAttempt = job_totalAttempts candidate + 1,
     att_startedAt = cl_databaseNow i, att_lastHeartbeatAt = cl_databaseNow i,
     att_finishedAt = None, att_outcome = Att_ACTIVE, att_failure = None\<rparr>"

definition job_claimed :: "JobRecord \<Rightarrow> ActiveLease \<Rightarrow> int \<Rightarrow> JobRecord" where
  "job_claimed candidate l now = candidate\<lparr>job_state := Job_RUNNING, stateChangedAt := now,
     lastObservedDatabaseAt := now, lease := Some l,
     job_nextFencingToken := job_nextFencingToken candidate + 1,
     job_attemptsInCycle := job_attemptsInCycle candidate + 1,
     job_totalAttempts := job_totalAttempts candidate + 1\<rparr>"

definition job_claimNext :: "JobStateModel \<Rightarrow> ClaimJobInput \<Rightarrow> ClaimedJob option job_outcome" where
  "job_claimNext m i = attempt m (validateClaim i) (\<lambda>_.
     if map_of (jm_attempts m) (cl_attemptId i) \<noteq> None then (Inl ALREADY_EXISTS, m)
     else case js_sort compareJobs (filter (job_claimable (cl_databaseNow i)) (map_values (jm_jobs m))) of
       [] \<Rightarrow> (Inr None, m)
     | candidate # _ \<Rightarrow>
         attempt m (observeDatabaseTime candidate (cl_databaseNow i)) (\<lambda>_.
         attempt m (addDatabaseDuration (cl_databaseNow i) (leaseDurationMs (jm_policy m))) (\<lambda>expires.
         let l = job_new_lease candidate i expires;
             a = job_new_attempt candidate i;
             candidate' = job_claimed candidate l (cl_databaseNow i);
             m1 = put_job_attempt (put_job m candidate') a;
             m2 = job_appendAudit m1 candidate' ''JOB_CLAIMED'' WORKER (cl_workerId i)
               (Some (att_id a)) (cl_databaseNow i)
               [(js ''fencingToken'', js_of_int (fencingToken l))]
         in (Inr (Some \<lparr>claimed_job = candidate', claimed_lease = leaseHandle l,
               latestCheckpoint = latest_checkpoint m2 (w_id candidate')\<rparr>), m2))))"

text \<open>
  Every operation of a lease holder starts alike: the job must exist, be running, and be leased to
  the caller's handle. Until then nothing is written.
\<close>

definition with_job_lease ::
  "JobStateModel \<Rightarrow> LeaseHandle \<Rightarrow> int \<Rightarrow> (JobRecord \<Rightarrow> ActiveLease \<Rightarrow> 'a job_outcome) \<Rightarrow> 'a job_outcome" where
  "with_job_lease m h now k = attempt m (requiredJob m (workId h)) (\<lambda>j.
     if job_state j \<noteq> Job_RUNNING then (Inl INVALID_STATE, m)
     else attempt m (assertValidLease j h now JOB) (\<lambda>l. k j l))"

definition job_heartbeat :: "JobStateModel \<Rightarrow> LeaseHandle \<Rightarrow> int \<Rightarrow> LeaseHandle job_outcome" where
  "job_heartbeat m h now = with_job_lease m h now (\<lambda>j l.
     let l1 = l\<lparr>heartbeatAt := now\<rparr>; m1 = put_job m (j\<lparr>lease := Some l1\<rparr>) in
     attempt m1 (addDatabaseDuration now (leaseDurationMs (jm_policy m))) (\<lambda>expires.
     let l2 = l1\<lparr>expiresAt := expires\<rparr>;
         j2 = j\<lparr>lease := Some l2, lastObservedDatabaseAt := now\<rparr>;
         m2 = put_job m1 j2 in
     attempt m2 (requiredJobAttempt m2 (attemptId l2)) (\<lambda>a.
     let m3 = put_job_attempt m2 (a\<lparr>att_lastHeartbeatAt := now\<rparr>);
         m4 = job_appendAudit m3 j2 ''JOB_HEARTBEAT'' WORKER (workerId l2) (Some (att_id a)) now
           [(js ''leaseExpiresAt'', js_of_int (expiresAt l2))]
     in (Inr (leaseHandle l2), m4))))"

definition job_storeCheckpoint ::
  "JobStateModel \<Rightarrow> JobRecord \<Rightarrow> ActiveLease \<Rightarrow> CompleteCheckpointInput \<Rightarrow> int \<Rightarrow> JobCheckpoint job_outcome" where
  "job_storeCheckpoint m j l i now =
     (let checkpoint = \<lparr>cp_jobId = w_id j, cp_sequence = ci_sequence i, cp_name = ci_name i,
            cp_outputRef = ci_outputRef i, cp_outputDigest = ci_outputDigest i,
            cp_attemptId = attemptId l, cp_completedAt = now\<rparr>;
          m1 = m\<lparr>jm_checkpoints := AList.update (w_id j) (job_checkpoints m (w_id j) @ [checkpoint])
            (jm_checkpoints m)\<rparr>;
          j1 = j\<lparr>lastObservedDatabaseAt := now\<rparr>;
          m2 = job_appendAudit (put_job m1 j1) j1 ''JOB_CHECKPOINT_COMPLETED'' WORKER (workerId l)
            (Some (attemptId l)) now
            [(js ''checkpoint'', ci_name i), (js ''sequence'', js_of_int (ci_sequence i))]
      in (Inr checkpoint, m2))"

definition job_completeCheckpoint ::
  "JobStateModel \<Rightarrow> LeaseHandle \<Rightarrow> CompleteCheckpointInput \<Rightarrow> int \<Rightarrow> JobCheckpoint job_outcome" where
  "job_completeCheckpoint m h i now = attempt m (validateCheckpoint i) (\<lambda>_.
     with_job_lease m h now (\<lambda>j l.
     case latest_checkpoint m (w_id j) of
       None \<Rightarrow> job_storeCheckpoint m j l i now
     | Some latest \<Rightarrow>
         if ci_sequence i < cp_sequence latest then (Inl SEQUENCE_CONFLICT, m)
         else if ci_sequence i = cp_sequence latest then
           (if cp_name latest \<noteq> ci_name i \<or> cp_outputRef latest \<noteq> ci_outputRef i
               \<or> cp_outputDigest latest \<noteq> ci_outputDigest i
            then (Inl SEQUENCE_CONFLICT, m) else (Inr latest, m))
         else job_storeCheckpoint m j l i now))"

definition finished_attempt :: "WorkAttempt \<Rightarrow> int \<Rightarrow> AttemptOutcome \<Rightarrow> WorkAttempt" where
  "finished_attempt a now attemptOutcome = a\<lparr>att_finishedAt := Some now, att_outcome := attemptOutcome\<rparr>"

definition succeeded_job :: "JobRecord \<Rightarrow> jsstring \<Rightarrow> int \<Rightarrow> JobRecord" where
  "succeeded_job j ref now = j\<lparr>job_state := Job_SUCCEEDED, stateChangedAt := now,
     lastObservedDatabaseAt := now, lease := None, job_resultRef := Some ref\<rparr>"

definition job_succeed :: "JobStateModel \<Rightarrow> LeaseHandle \<Rightarrow> jsstring \<Rightarrow> int \<Rightarrow> JobRecord job_outcome" where
  "job_succeed m h ref now = attempt m (requireNonEmpty ref) (\<lambda>_.
     with_job_lease m h now (\<lambda>j l.
     attempt m (requiredJobAttempt m (attemptId l)) (\<lambda>a.
     let m1 = put_job_attempt m (finished_attempt a now Att_SUCCEEDED);
         j1 = succeeded_job j ref now;
         m2 = job_appendAudit (put_job m1 j1) j1 ''JOB_SUCCEEDED'' WORKER (workerId l)
           (Some (att_id a)) now [(js ''resultRecorded'', js ''true'')]
     in (Inr j1, m2))))"

definition failed_attempt :: "WorkAttempt \<Rightarrow> FailureCause \<Rightarrow> int \<Rightarrow> AttemptOutcome \<Rightarrow> WorkAttempt" where
  "failed_attempt a failure now attemptOutcome =
     a\<lparr>att_finishedAt := Some now, att_failure := Some failure, att_outcome := attemptOutcome\<rparr>"

definition failed_job :: "JobRecord \<Rightarrow> FailureCause \<Rightarrow> int \<Rightarrow> JobRecord" where
  "failed_job j failure now =
     j\<lparr>job_firstFailure := (case job_firstFailure j of None \<Rightarrow> Some failure | Some f \<Rightarrow> Some f),
       job_lastFailure := Some failure, lease := None, stateChangedAt := now,
       lastObservedDatabaseAt := now\<rparr>"

definition job_finishFailure ::
  "JobStateModel \<Rightarrow> JobRecord \<Rightarrow> WorkAttempt \<Rightarrow> FailureCause \<Rightarrow> int \<Rightarrow> ActorType \<Rightarrow> jsstring
     \<Rightarrow> AttemptOutcome \<Rightarrow> JobRecord job_outcome" where
  "job_finishFailure m j a failure now actorType actorId attemptOutcome =
     (let canRetry = fc_retryable failure \<and> job_attemptsInCycle j < maximumAttemptsPerCycle (jm_policy m);
          a1 = failed_attempt a failure now (if canRetry then attemptOutcome else Att_DEAD_LETTER);
          j1 = failed_job j failure now;
          m1 = put_job (put_job_attempt m a1) j1
      in if canRetry then
        attempt m1 (retryBackoffMs (job_attemptsInCycle j1) (jm_policy m)) (\<lambda>delay.
        let j2 = j1\<lparr>job_state := Job_RETRY_WAIT\<rparr>; m2 = put_job m1 j2 in
        attempt m2 (addDatabaseDuration now delay) (\<lambda>available.
        let j3 = j2\<lparr>job_availableAt := available\<rparr>;
            m3 = job_appendAudit (put_job m2 j3) j3 ''JOB_RETRY_SCHEDULED'' actorType actorId
              (Some (att_id a1)) now
              [(js ''failureCode'', fc_code failure), (js ''availableAt'', js_of_int available)]
        in (Inr j3, m3)))
      else
        let j2 = j1\<lparr>job_state := Job_DEAD_LETTER\<rparr>;
            m2 = job_appendAudit (put_job m1 j2) j2 ''JOB_DEAD_LETTERED'' actorType actorId
              (Some (att_id a1)) now
              [(js ''failureCode'', fc_code failure),
               (js ''retryable'', js (if fc_retryable failure then ''true'' else ''false''))]
        in (Inr j2, m2))"

definition job_fail :: "JobStateModel \<Rightarrow> LeaseHandle \<Rightarrow> FailureCause \<Rightarrow> int \<Rightarrow> JobRecord job_outcome" where
  "job_fail m h failure now = attempt m (validateFailure failure) (\<lambda>_.
     with_job_lease m h now (\<lambda>j l.
     attempt m (requiredJobAttempt m (attemptId l)) (\<lambda>a.
     job_finishFailure m j a failure now WORKER (workerId l) Att_RETRY_SCHEDULED)))"

definition job_leaseExpiredFailure :: FailureCause where
  "job_leaseExpiredFailure = \<lparr>fc_code = js ''LEASE_EXPIRED'', fc_category = LEASE,
     fc_retryable = True, fc_fingerprint = js ''job-lease-expired''\<rparr>"

text \<open>
  One round of the reclaim loop. The loop runs over the jobs as they stood when it started; a
  round changes no job but its own, so reading the job under its id is reading the loop variable.
\<close>

definition job_reclaimOne :: "JobStateModel \<Rightarrow> JobRecord \<Rightarrow> int \<Rightarrow> JobRecord option job_outcome" where
  "job_reclaimOne m j now =
     (case lease j of
        None \<Rightarrow> (Inr None, m)
      | Some l \<Rightarrow>
          if job_state j \<noteq> Job_RUNNING \<or> expiresAt l > now then (Inr None, m)
          else attempt m (observeDatabaseTime j now) (\<lambda>_.
          attempt m (requiredJobAttempt m (attemptId l)) (\<lambda>a.
          let m1 = job_appendAudit m j ''JOB_LEASE_EXPIRED'' SYSTEM (js ''lease-reaper'')
                (Some (att_id a)) now [(js ''workerId'', workerId l)]
          in case job_finishFailure m1 j a job_leaseExpiredFailure now SYSTEM (js ''lease-reaper'')
               Att_LEASE_EXPIRED of
               (Inl e, m2) \<Rightarrow> (Inl e, m2)
             | (Inr j2, m2) \<Rightarrow> (Inr (Some j2), m2))))"

fun job_reclaimLoop :: "JobStateModel \<Rightarrow> JobRecord list \<Rightarrow> int \<Rightarrow> JobRecord list job_outcome" where
  "job_reclaimLoop m [] now = (Inr [], m)"
| "job_reclaimLoop m (j # rest) now =
     (case job_reclaimOne m j now of
        (Inl e, m1) \<Rightarrow> (Inl e, m1)
      | (Inr r, m1) \<Rightarrow>
          (case job_reclaimLoop m1 rest now of
             (Inl e, m2) \<Rightarrow> (Inl e, m2)
           | (Inr rs, m2) \<Rightarrow> (Inr (case r of None \<Rightarrow> rs | Some j' \<Rightarrow> j' # rs), m2)))"

definition job_reclaimExpiredLeases :: "JobStateModel \<Rightarrow> int \<Rightarrow> JobRecord list job_outcome" where
  "job_reclaimExpiredLeases m now = attempt m (assertDatabaseTime now) (\<lambda>_.
     job_reclaimLoop m (js_sort compareJobs (map_values (jm_jobs m))) now)"

definition replayed_job :: "JobRecord \<Rightarrow> int \<Rightarrow> JobRecord" where
  "replayed_job j now = j\<lparr>job_state := Job_QUEUED, job_availableAt := now, stateChangedAt := now,
     lastObservedDatabaseAt := now, lease := None, job_replayCycle := job_replayCycle j + 1,
     job_replayCount := job_replayCount j + 1, job_attemptsInCycle := 0\<rparr>"

definition job_replayDeadLetter ::
  "JobStateModel \<Rightarrow> jsstring \<Rightarrow> jsstring \<Rightarrow> jsstring \<Rightarrow> int \<Rightarrow> JobRecord job_outcome" where
  "job_replayDeadLetter m jobId operatorId reasonCode now = attempt m (requireNonEmpty operatorId) (\<lambda>_.
     attempt m (requireAuditCode reasonCode) (\<lambda>_.
     attempt m (requiredJob m jobId) (\<lambda>j.
     attempt m (observeDatabaseTime j now) (\<lambda>_.
     if job_state j \<noteq> Job_DEAD_LETTER then (Inl INVALID_STATE, m)
     else let j1 = replayed_job j now;
          m1 = job_appendAudit (put_job m j1) j1 ''JOB_MANUALLY_REPLAYED'' OPERATOR operatorId None now
            [(js ''reasonCode'', reasonCode), (js ''replayCycle'', js_of_int (job_replayCycle j1))]
     in (Inr j1, m1)))))"

definition cancelled_job :: "JobRecord \<Rightarrow> jsstring \<Rightarrow> int \<Rightarrow> JobRecord" where
  "cancelled_job j reasonCode now = j\<lparr>job_state := Job_CANCELLED, stateChangedAt := now,
     lastObservedDatabaseAt := now, lease := None, job_cancellationReason := Some reasonCode\<rparr>"

definition job_cancel ::
  "JobStateModel \<Rightarrow> jsstring \<Rightarrow> jsstring \<Rightarrow> jsstring \<Rightarrow> int \<Rightarrow> JobRecord job_outcome" where
  "job_cancel m jobId operatorId reasonCode now = attempt m (requireNonEmpty operatorId) (\<lambda>_.
     attempt m (requireAuditCode reasonCode) (\<lambda>_.
     attempt m (requiredJob m jobId) (\<lambda>j.
     attempt m (observeDatabaseTime j now) (\<lambda>_.
     if job_state j = Job_SUCCEEDED \<or> job_state j = Job_CANCELLED then (Inl INVALID_STATE, m)
     else
       let active = map_option attemptId (lease j);
           j1 = cancelled_job j reasonCode now;
           finish = (\<lambda>m0. (Inr j1, job_appendAudit (put_job m0 j1) j1 ''JOB_CANCELLED'' OPERATOR
             operatorId active now [(js ''reasonCode'', reasonCode)]))
       in case active of
         None \<Rightarrow> finish m
       | Some k \<Rightarrow> attempt m (requiredJobAttempt m k) (\<lambda>a.
           finish (put_job_attempt m (finished_attempt a now Att_CANCELLED)))))))"

subsection \<open>The code's own invariant check\<close>

text \<open>\<open>assertInvariants\<close> throws at the first job that breaks one of its conditions.\<close>

datatype invariant_violation =
    TotalAttemptsMismatch jsstring | RunningWithoutMatchingLease jsstring
  | IdleWithLeaseOrAttempt jsstring | AttemptLimitExceeded jsstring
  | CheckpointsUnordered jsstring | IdempotencyIndexInconsistent jsstring
  | AuditNotContiguous

definition job_attempts :: "JobStateModel \<Rightarrow> jsstring \<Rightarrow> WorkAttempt list" where
  "job_attempts m k = filter (\<lambda>a. att_workKind a = JOB \<and> att_workId a = k) (map_values (jm_attempts m))"

fun checkpoints_ordered :: "JobCheckpoint list \<Rightarrow> bool" where
  "checkpoints_ordered (p # c # cs) \<longleftrightarrow> cp_sequence p < cp_sequence c \<and> checkpoints_ordered (c # cs)"
| "checkpoints_ordered _ \<longleftrightarrow> True"

definition job_assertJob :: "JobStateModel \<Rightarrow> JobRecord \<Rightarrow> invariant_violation + unit" where
  "job_assertJob m j =
     (let attempts = job_attempts m (w_id j);
          active = filter (\<lambda>a. att_outcome a = Att_ACTIVE) attempts in
      rbind (guard (job_totalAttempts j = int (length attempts)) (TotalAttemptsMismatch (w_id j))) (\<lambda>_.
      rbind (if job_state j = Job_RUNNING
             then guard (case lease j of None \<Rightarrow> False
                    | Some l \<Rightarrow> length active = 1 \<and> att_id (hd active) = attemptId l)
                    (RunningWithoutMatchingLease (w_id j))
             else guard (lease j = None \<and> length active = 0) (IdleWithLeaseOrAttempt (w_id j))) (\<lambda>_.
      rbind (guard (job_attemptsInCycle j \<le> maximumAttemptsPerCycle (jm_policy m))
               (AttemptLimitExceeded (w_id j))) (\<lambda>_.
      rbind (guard (checkpoints_ordered (job_checkpoints m (w_id j))) (CheckpointsUnordered (w_id j))) (\<lambda>_.
      guard (map_of (jm_idempotencyIndex m) (job_scope j) = Some (w_id j))
        (IdempotencyIndexInconsistent (w_id j)))))))"

definition job_assertInvariants :: "JobStateModel \<Rightarrow> invariant_violation + unit" where
  "job_assertInvariants m =
     rbind (mapM (job_assertJob m) (map_values (jm_jobs m))) (\<lambda>_.
     guard (audit_contiguous (jm_audit m)) AuditNotContiguous)"

end
