(* ===== verification/JobInvariants.thy ===== *)
theory JobInvariants
  imports Job
begin

text \<open>
  The invariant of the Job machine and its consequences: in every state the operations reach, the
  code's own \<open>assertInvariants\<close> passes; fencing tokens, database time, audit log and checkpoints
  only move forward; a superseded lease is refused everywhere.
\<close>

named_theorems job_defs \<open>the operations of the Job machine\<close>

lemmas [job_defs] = job_enqueue_def job_claimNext_def job_heartbeat_def job_completeCheckpoint_def
  job_succeed_def job_fail_def job_replayDeadLetter_def job_cancel_def

subsection \<open>Steps\<close>

datatype job_op =
    Op_enqueue EnqueueJobInput
  | Op_claimNext ClaimJobInput
  | Op_heartbeat LeaseHandle int
  | Op_completeCheckpoint LeaseHandle CompleteCheckpointInput int
  | Op_succeed LeaseHandle jsstring int
  | Op_fail LeaseHandle FailureCause int
  | Op_reclaimExpiredLeases int
  | Op_replayDeadLetter jsstring jsstring jsstring int
  | Op_cancel jsstring jsstring jsstring int

text \<open>A step is a call of a method with any arguments, whether it returns or throws.\<close>

inductive job_step :: "JobStateModel \<Rightarrow> job_op \<Rightarrow> JobStateModel \<Rightarrow> bool" where
  enqueue: "job_enqueue m i = (r, m') \<Longrightarrow> job_step m (Op_enqueue i) m'"
| claimNext: "job_claimNext m c = (r', m') \<Longrightarrow> job_step m (Op_claimNext c) m'"
| heartbeat: "job_heartbeat m h now = (rh, m') \<Longrightarrow> job_step m (Op_heartbeat h now) m'"
| completeCheckpoint: "job_completeCheckpoint m h ci now = (rc, m') \<Longrightarrow>
    job_step m (Op_completeCheckpoint h ci now) m'"
| succeed: "job_succeed m h ref now = (r, m') \<Longrightarrow> job_step m (Op_succeed h ref now) m'"
| fail: "job_fail m h f now = (r, m') \<Longrightarrow> job_step m (Op_fail h f now) m'"
| reclaim: "job_reclaimExpiredLeases m now = (rs, m') \<Longrightarrow> job_step m (Op_reclaimExpiredLeases now) m'"
| replay: "job_replayDeadLetter m k who why now = (r, m') \<Longrightarrow>
    job_step m (Op_replayDeadLetter k who why now) m'"
| cancel: "job_cancel m k who why now = (r, m') \<Longrightarrow> job_step m (Op_cancel k who why now) m'"

inductive_simps job_step_simps:
  "job_step m (Op_enqueue i) m'" "job_step m (Op_claimNext c) m'" "job_step m (Op_heartbeat h now) m'"
  "job_step m (Op_completeCheckpoint h ci now) m'" "job_step m (Op_succeed h ref now) m'"
  "job_step m (Op_fail h f now) m'" "job_step m (Op_reclaimExpiredLeases now) m'"
  "job_step m (Op_replayDeadLetter k who why now) m'" "job_step m (Op_cancel k who why now) m'"

definition job_start :: "RetryPolicy \<Rightarrow> JobStateModel" where
  "job_start p = \<lparr>jm_policy = p, jm_jobs = [], jm_attempts = [], jm_checkpoints = [],
     jm_idempotencyIndex = [], jm_audit = []\<rparr>"

lemma new_JobStateModel_iff:
  "new_JobStateModel p = Inr m \<longleftrightarrow> assertRetryPolicy p = Inr () \<and> m = job_start p"
  by (auto simp: new_JobStateModel_def job_start_def)

subsection \<open>The invariant\<close>

definition active_only :: "WorkAttempt list \<Rightarrow> WorkAttempt list" where
  "active_only as = filter (\<lambda>a. att_outcome a = Att_ACTIVE) as"

text \<open>
  What holds of one job, given the attempts recorded for it, its checkpoints and the idempotency
  index: the conditions of \<open>assertInvariants\<close>, strengthened until every operation keeps them.
\<close>

definition job_good ::
  "RetryPolicy \<Rightarrow> WorkAttempt list \<Rightarrow> JobCheckpoint list \<Rightarrow> (jsstring, jsstring) jsmap \<Rightarrow> JobRecord \<Rightarrow> bool" where
  "job_good p as cs idx j \<longleftrightarrow>
     job_totalAttempts j = int (length as)
   \<and> 0 \<le> job_attemptsInCycle j \<and> job_attemptsInCycle j \<le> maximumAttemptsPerCycle p
   \<and> (job_state j = Job_QUEUED \<or> job_state j = Job_RETRY_WAIT \<longrightarrow>
        job_attemptsInCycle j < maximumAttemptsPerCycle p)
   \<and> (\<forall>a\<in>set as. att_fencingToken a < job_nextFencingToken j)
   \<and> (if job_state j = Job_RUNNING
      then 1 \<le> job_attemptsInCycle j
         \<and> (\<exists>l a. lease j = Some l \<and> active_only as = [a] \<and> att_id a = attemptId l
              \<and> att_fencingToken a = fencingToken l \<and> fencingToken l + 1 = job_nextFencingToken j
              \<and> workKind l = JOB \<and> workId l = w_id j \<and> lastObservedDatabaseAt j < expiresAt l)
      else lease j = None \<and> active_only as = [])
   \<and> checkpoints_ordered cs
   \<and> map_of idx (job_scope j) = Some (w_id j)"

definition job_inv :: "JobStateModel \<Rightarrow> bool" where
  "job_inv m \<longleftrightarrow>
     assertRetryPolicy (jm_policy m) = Inr ()
   \<and> wf_jsmap (jm_jobs m) \<and> wf_jsmap (jm_attempts m)
   \<and> (\<forall>k a. map_of (jm_attempts m) k = Some a \<longrightarrow> att_id a = k \<and> att_workKind a = JOB
        \<and> map_of (jm_jobs m) (att_workId a) \<noteq> None)
   \<and> (\<forall>k j. map_of (jm_jobs m) k = Some j \<longrightarrow> w_id j = k
        \<and> job_good (jm_policy m) (job_attempts m k) (job_checkpoints m k) (jm_idempotencyIndex m) j)
   \<and> (\<forall>k cs. map_of (jm_checkpoints m) k = Some cs \<longrightarrow> map_of (jm_jobs m) k \<noteq> None)
   \<and> audit_contiguous (jm_audit m)"

lemma job_invI:
  assumes "assertRetryPolicy (jm_policy m) = Inr ()" "wf_jsmap (jm_jobs m)" "wf_jsmap (jm_attempts m)"
    and "\<And>k a. map_of (jm_attempts m) k = Some a \<Longrightarrow>
      att_id a = k \<and> att_workKind a = JOB \<and> map_of (jm_jobs m) (att_workId a) \<noteq> None"
    and "\<And>k j. map_of (jm_jobs m) k = Some j \<Longrightarrow> w_id j = k
      \<and> job_good (jm_policy m) (job_attempts m k) (job_checkpoints m k) (jm_idempotencyIndex m) j"
    and "\<And>k cs. map_of (jm_checkpoints m) k = Some cs \<Longrightarrow> map_of (jm_jobs m) k \<noteq> None"
    and "audit_contiguous (jm_audit m)"
  shows "job_inv m"
  using assms by (simp add: job_inv_def)

lemma job_inv_wf:
  assumes "job_inv m"
  shows "wf_jsmap (jm_jobs m)" "wf_jsmap (jm_attempts m)" "audit_contiguous (jm_audit m)"
  using assms by (auto simp: job_inv_def)

lemma job_checkpoint_job:
  "job_inv m \<Longrightarrow> map_of (jm_checkpoints m) k = Some cs \<Longrightarrow> map_of (jm_jobs m) k \<noteq> None"
  by (auto simp: job_inv_def)

text \<open>Appending to the log does not disturb anything else.\<close>

lemma job_appendAudit_simps [simp]:
  "jm_policy (job_appendAudit m j e t w k d x) = jm_policy m"
  "jm_jobs (job_appendAudit m j e t w k d x) = jm_jobs m"
  "jm_attempts (job_appendAudit m j e t w k d x) = jm_attempts m"
  "jm_checkpoints (job_appendAudit m j e t w k d x) = jm_checkpoints m"
  "jm_idempotencyIndex (job_appendAudit m j e t w k d x) = jm_idempotencyIndex m"
  "job_attempts (job_appendAudit m j e t w k d x) = job_attempts m"
  "job_checkpoints (job_appendAudit m j e t w k d x) = job_checkpoints m"
  "latest_checkpoint (job_appendAudit m j e t w k d x) = latest_checkpoint m"
  "requiredJob (job_appendAudit m j e t w k d x) = requiredJob m"
  "requiredJobAttempt (job_appendAudit m j e t w k d x) = requiredJobAttempt m"
  by (auto simp: job_appendAudit_def job_attempts_def job_checkpoints_def latest_checkpoint_def
      requiredJob_def requiredJobAttempt_def fun_eq_iff)

lemma job_inv_appendAudit [simp]: "job_inv (job_appendAudit m j e t w k d x) \<longleftrightarrow> job_inv m"
proof -
  have "audit_contiguous (jm_audit (job_appendAudit m j e t w k d x)) = audit_contiguous (jm_audit m)"
    by (simp add: job_appendAudit_def)
  then show ?thesis by (simp add: job_inv_def)
qed

lemma put_simps [simp]:
  "jm_policy (put_job m j) = jm_policy m" "jm_policy (put_job_attempt m a) = jm_policy m"
  "jm_jobs (put_job m j) = AList.update (w_id j) j (jm_jobs m)"
  "jm_jobs (put_job_attempt m a) = jm_jobs m"
  "jm_attempts (put_job m j) = jm_attempts m"
  "jm_attempts (put_job_attempt m a) = AList.update (att_id a) a (jm_attempts m)"
  "jm_checkpoints (put_job m j) = jm_checkpoints m" "jm_checkpoints (put_job_attempt m a) = jm_checkpoints m"
  "jm_idempotencyIndex (put_job m j) = jm_idempotencyIndex m"
  "jm_idempotencyIndex (put_job_attempt m a) = jm_idempotencyIndex m"
  "jm_audit (put_job m j) = jm_audit m" "jm_audit (put_job_attempt m a) = jm_audit m"
  "job_attempts (put_job m j) = job_attempts m"
  "job_checkpoints (put_job m j) = job_checkpoints m"
  "job_checkpoints (put_job_attempt m a) = job_checkpoints m"
  by (auto simp: put_job_def put_job_attempt_def job_attempts_def job_checkpoints_def fun_eq_iff)

lemma job_scope_update [simp]:
  "job_scope (j\<lparr>job_state := s\<rparr>) = job_scope j" "job_scope (j\<lparr>job_availableAt := t\<rparr>) = job_scope j"
  "job_scope (j\<lparr>stateChangedAt := t\<rparr>) = job_scope j" "job_scope (j\<lparr>lease := x\<rparr>) = job_scope j"
  "job_scope (j\<lparr>lastObservedDatabaseAt := t\<rparr>) = job_scope j"
  "job_scope (j\<lparr>job_resultRef := r\<rparr>) = job_scope j"
  "job_scope (j\<lparr>job_cancellationReason := r\<rparr>) = job_scope j"
  "job_scope (j\<lparr>job_replayCycle := n\<rparr>) = job_scope j" "job_scope (j\<lparr>job_replayCount := n\<rparr>) = job_scope j"
  "job_scope (j\<lparr>job_attemptsInCycle := n\<rparr>) = job_scope j"
  by (simp_all add: job_scope_def)

lemma job_record_simps [simp]:
  "w_id (new_job_record i t) = in_id i" "job_state (new_job_record i t) = Job_QUEUED"
  "lease (new_job_record i t) = None" "job_attemptsInCycle (new_job_record i t) = 0"
  "job_totalAttempts (new_job_record i t) = 0" "job_nextFencingToken (new_job_record i t) = 1"
  "job_scope (new_job_record i t) =
     jobIdempotencyScope (in_projectId i) (in_jobType i) (in_idempotencyKey i)"
  "w_id (job_claimed j l now) = w_id j" "job_state (job_claimed j l now) = Job_RUNNING"
  "lease (job_claimed j l now) = Some l" "lastObservedDatabaseAt (job_claimed j l now) = now"
  "job_attemptsInCycle (job_claimed j l now) = job_attemptsInCycle j + 1"
  "job_totalAttempts (job_claimed j l now) = job_totalAttempts j + 1"
  "job_nextFencingToken (job_claimed j l now) = job_nextFencingToken j + 1"
  "job_scope (job_claimed j l now) = job_scope j"
  "att_id (job_new_attempt j c) = cl_attemptId c" "att_workKind (job_new_attempt j c) = JOB"
  "att_workId (job_new_attempt j c) = w_id j" "att_outcome (job_new_attempt j c) = Att_ACTIVE"
  "att_fencingToken (job_new_attempt j c) = job_nextFencingToken j"
  "workKind (job_new_lease j c e) = JOB" "workId (job_new_lease j c e) = w_id j"
  "attemptId (job_new_lease j c e) = cl_attemptId c" "expiresAt (job_new_lease j c e) = e"
  "fencingToken (job_new_lease j c e) = job_nextFencingToken j"
  "att_id (failed_attempt a f now x) = att_id a" "att_workId (failed_attempt a f now x) = att_workId a"
  "att_workKind (failed_attempt a f now x) = att_workKind a" "att_outcome (failed_attempt a f now x) = x"
  "att_fencingToken (failed_attempt a f now x) = att_fencingToken a"
  "w_id (failed_job j f now) = w_id j" "lease (failed_job j f now) = None"
  "job_state (failed_job j f now) = job_state j" "job_scope (failed_job j f now) = job_scope j"
  "job_attemptsInCycle (failed_job j f now) = job_attemptsInCycle j"
  "job_totalAttempts (failed_job j f now) = job_totalAttempts j"
  "job_nextFencingToken (failed_job j f now) = job_nextFencingToken j"
  "lastObservedDatabaseAt (failed_job j f now) = now"
  "att_id (finished_attempt a now x) = att_id a" "att_workId (finished_attempt a now x) = att_workId a"
  "att_workKind (finished_attempt a now x) = att_workKind a" "att_outcome (finished_attempt a now x) = x"
  "att_fencingToken (finished_attempt a now x) = att_fencingToken a"
  by (simp_all add: finished_attempt_def new_job_record_def job_claimed_def job_new_attempt_def job_new_lease_def
      failed_attempt_def failed_job_def job_scope_def)

lemma ended_job_simps [simp]:
  "w_id (succeeded_job j ref now) = w_id j" "lease (succeeded_job j ref now) = None"
  "job_state (succeeded_job j ref now) = Job_SUCCEEDED" "job_scope (succeeded_job j ref now) = job_scope j"
  "job_attemptsInCycle (succeeded_job j ref now) = job_attemptsInCycle j"
  "job_totalAttempts (succeeded_job j ref now) = job_totalAttempts j"
  "job_nextFencingToken (succeeded_job j ref now) = job_nextFencingToken j"
  "lastObservedDatabaseAt (succeeded_job j ref now) = now"
  "w_id (cancelled_job j ref now) = w_id j" "lease (cancelled_job j ref now) = None"
  "job_state (cancelled_job j ref now) = Job_CANCELLED" "job_scope (cancelled_job j ref now) = job_scope j"
  "job_attemptsInCycle (cancelled_job j ref now) = job_attemptsInCycle j"
  "job_totalAttempts (cancelled_job j ref now) = job_totalAttempts j"
  "job_nextFencingToken (cancelled_job j ref now) = job_nextFencingToken j"
  "lastObservedDatabaseAt (cancelled_job j ref now) = now"
  "w_id (replayed_job j now) = w_id j" "lease (replayed_job j now) = None"
  "job_state (replayed_job j now) = Job_QUEUED" "job_scope (replayed_job j now) = job_scope j"
  "job_attemptsInCycle (replayed_job j now) = 0" "job_totalAttempts (replayed_job j now) = job_totalAttempts j"
  "job_nextFencingToken (replayed_job j now) = job_nextFencingToken j"
  "lastObservedDatabaseAt (replayed_job j now) = now"
  by (simp_all add: succeeded_job_def cancelled_job_def replayed_job_def job_scope_def)

text \<open>The part of a job that is fixed when it is enqueued.\<close>

definition job_identity :: "JobRecord \<Rightarrow> jsstring \<times> jsstring \<times> jsstring \<times> jsstring \<times> jsstring \<times> int \<times> int" where
  "job_identity j = (job_projectId j, job_jobType j, job_idempotencyKey j, job_inputDigest j,
     job_correlationId j, job_priority j, job_createdAt j)"

lemma job_identity_simps [simp]:
  "job_identity (job_claimed j l now) = job_identity j" "job_identity (failed_job j f now) = job_identity j"
  "job_identity (succeeded_job j ref now) = job_identity j" "job_identity (cancelled_job j ref now) = job_identity j"
  "job_identity (replayed_job j now) = job_identity j" "job_identity (j\<lparr>lease := x\<rparr>) = job_identity j"
  "job_identity (j\<lparr>lastObservedDatabaseAt := t\<rparr>) = job_identity j"
  "job_identity (j\<lparr>job_state := st\<rparr>) = job_identity j" "job_identity (j\<lparr>job_availableAt := t\<rparr>) = job_identity j"
  by (simp_all add: job_identity_def job_claimed_def failed_job_def succeeded_job_def cancelled_job_def
      replayed_job_def)

lemma job_identity_scope:
  "job_identity j = job_identity j' \<Longrightarrow> job_scope j = job_scope j' \<and> job_inputDigest j = job_inputDigest j'"
  by (simp add: job_identity_def job_scope_def)

lemma requiredJob_iff [simp]: "requiredJob m k = Inr j \<longleftrightarrow> map_of (jm_jobs m) k = Some j"
  by (simp add: requiredJob_def split: option.splits)

lemma requiredJobAttempt_iff [simp]:
  "requiredJobAttempt m k = Inr a \<longleftrightarrow> map_of (jm_attempts m) k = Some a"
  by (simp add: requiredJobAttempt_def split: option.splits)

lemma job_invD:
  assumes "job_inv m" and "map_of (jm_jobs m) k = Some j"
  shows "w_id j = k"
    and "job_good (jm_policy m) (job_attempts m k) (job_checkpoints m k) (jm_idempotencyIndex m) j"
  using assms by (auto simp: job_inv_def)

lemma job_inv_attemptD:
  assumes "job_inv m" and "map_of (jm_attempts m) k = Some a"
  shows "att_id a = k" and "att_workKind a = JOB" and "a \<in> set (job_attempts m (att_workId a))"
    and "map_of (jm_jobs m) (att_workId a) \<noteq> None"
proof -
  show "att_id a = k" and kind: "att_workKind a = JOB" and "map_of (jm_jobs m) (att_workId a) \<noteq> None"
    using assms by (auto simp: job_inv_def)
  have "a \<in> set (map_values (jm_attempts m))"
    using assms(2) by (force dest: map_of_SomeD)
  with kind show "a \<in> set (job_attempts m (att_workId a))"
    by (simp add: job_attempts_def)
qed

lemma attempts_of_in_map:
  assumes "job_inv m" and "a \<in> set (job_attempts m k)"
  shows "map_of (jm_attempts m) (att_id a) = Some a" and "att_workId a = k" and "att_workKind a = JOB"
proof -
  have "a \<in> set (map_values (jm_attempts m))" and eqs: "att_workId a = k" "att_workKind a = JOB"
    using assms(2) by (auto simp: job_attempts_def)
  moreover have wf: "wf_jsmap (jm_attempts m)" using assms(1) by (simp add: job_inv_def)
  ultimately obtain k' where k': "map_of (jm_attempts m) k' = Some a"
    using map_values_iff by metis
  with assms(1) have "att_id a = k'" by (rule job_inv_attemptD)
  with k' show "map_of (jm_attempts m) (att_id a) = Some a" by simp
  show "att_workId a = k" "att_workKind a = JOB" by (fact eqs)+
qed

text \<open>The lease of a running job names the one active attempt of that job.\<close>

lemma running_attempt:
  assumes inv: "job_inv m" and j: "map_of (jm_jobs m) k = Some j" and l: "lease j = Some l"
  obtains a where "job_state j = Job_RUNNING" "map_of (jm_attempts m) (attemptId l) = Some a"
    "active_only (job_attempts m k) = [a]" "att_workId a = k" "att_workKind a = JOB"
    "att_id a = attemptId l" "workId l = k" "fencingToken l + 1 = job_nextFencingToken j"
    "lastObservedDatabaseAt j < expiresAt l" "1 \<le> job_attemptsInCycle j" "att_outcome a = Att_ACTIVE"
    "att_fencingToken a = fencingToken l" "workKind l = JOB"
proof -
  have run: "job_state j = Job_RUNNING"
    using job_invD(2) [OF inv j] l by (auto simp: job_good_def split: if_splits)
  then obtain a where a: "active_only (job_attempts m k) = [a]" "att_id a = attemptId l"
    "fencingToken l + 1 = job_nextFencingToken j" "workId l = k" "1 \<le> job_attemptsInCycle j"
    "lastObservedDatabaseAt j < expiresAt l" "att_fencingToken a = fencingToken l" "workKind l = JOB"
    using job_invD [OF inv j] l by (auto simp: job_good_def)
  from a(1) have "a \<in> set (active_only (job_attempts m k))" by simp
  then have act: "a \<in> set (job_attempts m k)" "att_outcome a = Att_ACTIVE"
    by (auto simp: active_only_def)
  show ?thesis
    using that [OF run _ a(1) _ _ a(2) a(4,3) a(6,5) act(2) a(7,8)] attempts_of_in_map [OF inv act(1)] a(2)
    by simp
qed


subsection \<open>Changing one job and one attempt\<close>

lemma put_job_put_job [simp]: "w_id j1 = w_id j2 \<Longrightarrow> put_job (put_job m j1) j2 = put_job m j2"
  by (simp add: put_job_def)

lemma put_job_attempt_put_job: "put_job_attempt (put_job m j) a = put_job (put_job_attempt m a) j"
  by (simp add: put_job_def put_job_attempt_def)

lemma job_inv_put:
  assumes inv: "job_inv m" and j: "map_of (jm_jobs m) (w_id j') = Some j"
    and good: "job_good (jm_policy m) (job_attempts m (w_id j')) (job_checkpoints m (w_id j'))
      (jm_idempotencyIndex m) j'"
  shows "job_inv (put_job m j')"
  using inv good by (auto simp: job_inv_def)

text \<open>An attempt \<open>a\<close> on record is replaced by \<open>a'\<close>, which belongs to the same job.\<close>

definition replaces_attempt :: "JobStateModel \<Rightarrow> WorkAttempt \<Rightarrow> WorkAttempt \<Rightarrow> bool" where
  "replaces_attempt m a a' \<longleftrightarrow> job_inv m \<and> map_of (jm_attempts m) (att_id a') = Some a
     \<and> att_workId a' = att_workId a \<and> att_workKind a' = JOB"

lemma replaces_attemptD:
  assumes "replaces_attempt m a a'"
  shows "job_inv m" "map_of (jm_attempts m) (att_id a') = Some a" "att_workId a' = att_workId a"
    "att_workKind a' = JOB" "att_workKind a = JOB" "wf_jsmap (jm_attempts m)"
  using assms job_inv_attemptD(2) [of m "att_id a'" a] by (auto simp: replaces_attempt_def job_inv_def)

lemma put_attempt_other:
  assumes "replaces_attempt m a a'" and "k \<noteq> att_workId a"
  shows "job_attempts (put_job_attempt m a') k = job_attempts m k"
  unfolding job_attempts_def using replaces_attemptD [OF assms(1)] assms(2)
  by (simp add: filter_update_same)

lemma put_attempt_length:
  assumes "replaces_attempt m a a'"
  shows "length (job_attempts (put_job_attempt m a') k) = length (job_attempts m k)"
  unfolding job_attempts_def put_simps
  by (rule length_filter_update [of _ _ a]) (simp_all add: replaces_attemptD [OF assms])

lemma put_attempt_active:
  assumes rep: "replaces_attempt m a a'" and "active_only (job_attempts m k) = [a]"
  shows "active_only (job_attempts (put_job_attempt m a') k)
    = (if att_outcome a' = Att_ACTIVE then [a'] else [])"
proof -
  let ?P = "\<lambda>x. (att_workKind x = JOB \<and> att_workId x = k) \<and> att_outcome x = Att_ACTIVE"
  have sing: "filter ?P (map_values (jm_attempts m)) = [a]"
    using assms(2) by (simp add: active_only_def job_attempts_def conj_commute)
  then have "a \<in> set (filter ?P (map_values (jm_attempts m)))" by simp
  then have Pa: "?P a" by simp
  from filter_update_singleton [OF replaces_attemptD(6,2) [OF rep] sing Pa] Pa replaces_attemptD(3,4) [OF rep]
  show ?thesis by (simp add: active_only_def job_attempts_def conj_commute)
qed

lemma put_attempt_tokens:
  assumes rep: "replaces_attempt m a a'" and tok: "att_fencingToken a' = att_fencingToken a"
    and less: "\<forall>x\<in>set (job_attempts m k). att_fencingToken x < n"
  shows "\<forall>x\<in>set (job_attempts (put_job_attempt m a') k). att_fencingToken x < n"
proof
  note D = replaces_attemptD [OF rep]
  fix x assume "x \<in> set (job_attempts (put_job_attempt m a') k)"
  then have x: "x \<in> set (map_values (jm_attempts (put_job_attempt m a')))" "att_workId x = k" "att_workKind x = JOB"
    by (auto simp: job_attempts_def)
  moreover have "wf_jsmap (jm_attempts (put_job_attempt m a'))" using D by simp
  ultimately obtain q where "map_of (jm_attempts (put_job_attempt m a')) q = Some x"
    using map_values_iff by metis
  then have "x = a' \<or> x \<in> set (job_attempts m k)"
    using job_inv_attemptD(3) [OF D(1), of q x] x by (auto split: if_splits)
  moreover have "a \<in> set (job_attempts m (att_workId a))"
    using job_inv_attemptD [OF D(1,2)] by simp
  ultimately show "att_fencingToken x < n" using tok less x D(3) by auto
qed

lemma job_inv_put_both:
  assumes rep: "replaces_attempt m a a'"
    and j: "map_of (jm_jobs m) (w_id j') = Some j" and id: "w_id j' = att_workId a"
    and good: "job_good (jm_policy m) (job_attempts (put_job_attempt m a') (w_id j'))
      (job_checkpoints m (w_id j')) (jm_idempotencyIndex m) j'"
  shows "job_inv (put_job (put_job_attempt m a') j')"
proof -
  note D = replaces_attemptD [OF rep]
  have "job_good (jm_policy m) (job_attempts (put_job_attempt m a') k) (job_checkpoints m k)
      (jm_idempotencyIndex m) x"
    if "map_of (jm_jobs m) k = Some x" "k \<noteq> w_id j'" for k x
    using that put_attempt_other [OF rep, of k] job_invD(2) [OF D(1)] id by simp
  moreover have "map_of (jm_jobs m) (att_workId a') \<noteq> None"
    using j id D(3) by simp
  ultimately show ?thesis
    using D good by (auto simp: job_inv_def)
qed

text \<open>Ending the active attempt of a running job, whatever the job becomes.\<close>

lemma job_inv_end_attempt:
  assumes inv: "job_inv m" and j: "map_of (jm_jobs m) k = Some j" and l: "lease j = Some l"
    and a: "map_of (jm_attempts m) (attemptId l) = Some a"
    and a': "att_id a' = att_id a" "att_workId a' = att_workId a" "att_workKind a' = att_workKind a"
      "att_fencingToken a' = att_fencingToken a" "att_outcome a' \<noteq> Att_ACTIVE"
    and j': "w_id j' = k" "lease j' = None" "job_state j' \<noteq> Job_RUNNING" "job_scope j' = job_scope j"
      "job_totalAttempts j' = job_totalAttempts j" "job_nextFencingToken j' = job_nextFencingToken j"
      "job_attemptsInCycle j' = job_attemptsInCycle j"
      "job_state j' = Job_QUEUED \<or> job_state j' = Job_RETRY_WAIT \<longrightarrow>
         job_attemptsInCycle j < maximumAttemptsPerCycle (jm_policy m)"
  shows "job_inv (put_job (put_job_attempt m a') j')"
proof -
  obtain b where b: "map_of (jm_attempts m) (attemptId l) = Some b"
    "active_only (job_attempts m k) = [b]" "att_workId b = k" "att_workKind b = JOB" "att_id b = attemptId l"
    using running_attempt [OF inv j l] by metis
  with a have ab: "b = a" by simp
  have rep: "replaces_attempt m a a'"
    using inv a a' b ab by (simp add: replaces_attempt_def)
  note good = job_invD [OF inv j]
  show ?thesis
  proof (rule job_inv_put_both [OF rep])
    show "map_of (jm_jobs m) (w_id j') = Some j" "w_id j' = att_workId a" using j j' b ab by simp_all
    show "job_good (jm_policy m) (job_attempts (put_job_attempt m a') (w_id j'))
        (job_checkpoints m (w_id j')) (jm_idempotencyIndex m) j'"
      using good j' put_attempt_active [OF rep] put_attempt_length [OF rep] a' b ab
        put_attempt_tokens [OF rep a'(4), of k]
      by (auto simp: job_good_def split: if_splits)
  qed
qed

subsection \<open>Every operation keeps the invariant\<close>

lemma job_policyD:
  assumes "job_inv m"
  shows "1 \<le> maximumAttemptsPerCycle (jm_policy m)" "isSafeInteger (maximumAttemptsPerCycle (jm_policy m))"
    "0 < leaseDurationMs (jm_policy m)" "assertRetryPolicy (jm_policy m) = Inr ()"
  using assms by (auto simp: job_inv_def assertRetryPolicy_iff)

text \<open>A job that fails may retry only with attempts left, so its backoff is always defined.\<close>

lemma running_backoff:
  assumes inv: "job_inv m" and j: "map_of (jm_jobs m) k = Some j" and l: "lease j = Some l"
  shows "\<exists>d. retryBackoffMs (job_attemptsInCycle j) (jm_policy m) = Inr d"
proof -
  have "1 \<le> job_attemptsInCycle j" using running_attempt [OF inv j l] by metis
  moreover have "job_attemptsInCycle j \<le> maximumAttemptsPerCycle (jm_policy m)"
    using job_invD(2) [OF inv j] by (simp add: job_good_def)
  ultimately show ?thesis
    using job_policyD(2) [OF inv] by (auto simp: retryBackoffMs_ok isSafeInteger_def)
qed

lemmas job_inv_attempt = attempt_state [where P = job_inv]

lemma job_finishFailure_inv:
  assumes inv: "job_inv m" and j: "map_of (jm_jobs m) k = Some j" and l: "lease j = Some l"
    and a: "map_of (jm_attempts m) (attemptId l) = Some a" and out: "out \<noteq> Att_ACTIVE"
  shows "job_inv (snd (job_finishFailure m j a f now act who out))"
proof -
  obtain d where d: "retryBackoffMs (job_attemptsInCycle j) (jm_policy m) = Inr d"
    using running_backoff [OF inv j l] by blast
  have id: "w_id j = k" "att_id a = attemptId l" using job_invD(1) [OF inv j] job_inv_attemptD [OF inv a] by auto
  note ends = job_inv_end_attempt [OF inv j l a]
  show ?thesis
  proof (cases "fc_retryable f \<and> job_attemptsInCycle j < maximumAttemptsPerCycle (jm_policy m)")
    case True
    then show ?thesis
      unfolding job_finishFailure_def Let_def
      by (simp add: d id) (rule job_inv_attempt; (simp add: id)?; rule ends; simp add: id out)
  next
    case False
    then show ?thesis
      unfolding job_finishFailure_def Let_def if_not_P [OF False]
      by (simp add: id) (rule ends; simp add: id)
  qed
qed

lemma no_job_no_attempts:
  assumes "job_inv m" and "map_of (jm_jobs m) k = None"
  shows "job_attempts m k = []" and "job_checkpoints m k = []"
proof -
  have "a \<notin> set (job_attempts m k)" for a
  proof
    assume "a \<in> set (job_attempts m k)"
    from attempts_of_in_map [OF assms(1) this] job_inv_attemptD(4) [OF assms(1)] assms(2)
    show False by metis
  qed
  then show "job_attempts m k = []" by (meson last_in_set)
  show "job_checkpoints m k = []"
    using assms by (auto simp: job_checkpoints_def job_inv_def split: option.splits)
qed

lemma job_inv_new_job:
  assumes inv: "job_inv m" and k: "map_of (jm_jobs m) (w_id j) = None"
    and idx: "map_of (jm_idempotencyIndex m) (job_scope j) = None"
    and j: "job_state j = Job_QUEUED" "lease j = None" "job_attemptsInCycle j = 0" "job_totalAttempts j = 0"
  shows "job_inv ((put_job m j)\<lparr>jm_idempotencyIndex :=
    AList.update (job_scope j) (w_id j) (jm_idempotencyIndex m)\<rparr>)" (is "job_inv ?m")
proof -
  have sel: "job_attempts ?m = job_attempts m" "job_checkpoints ?m = job_checkpoints m"
    by (auto simp: job_attempts_def job_checkpoints_def fun_eq_iff)
  have "job_good (jm_policy m) [] [] (AList.update (job_scope j) (w_id j) (jm_idempotencyIndex m)) j"
    using j job_policyD(1) [OF inv] by (simp add: job_good_def active_only_def)
  moreover have "job_good (jm_policy m) (job_attempts m q) (job_checkpoints m q)
      (AList.update (job_scope j) (w_id j) (jm_idempotencyIndex m)) x"
    if "map_of (jm_jobs m) q = Some x" for q x
    using job_invD(2) [OF inv that] idx by (auto simp: job_good_def)
  ultimately show ?thesis
    using inv no_job_no_attempts [OF inv k] by (auto simp: job_inv_def sel)
qed

text \<open>
  What a call can do to the state. These inversions list, for each operation, the states it can
  leave behind; the invariant and the progress relation are proved over them.
\<close>

lemma job_enqueue_cases:
  assumes "job_enqueue m i = (r, m')"
  obtains (unchanged) "m' = m"
  | (enqueued) t where "r = Inr (new_job_record i t)" "map_of (jm_jobs m) (in_id i) = None"
      "map_of (jm_idempotencyIndex m) (job_scope (new_job_record i t)) = None"
      "m' = job_appendAudit ((put_job m (new_job_record i t))\<lparr>jm_idempotencyIndex :=
         AList.update (job_scope (new_job_record i t)) (in_id i) (jm_idempotencyIndex m)\<rparr>)
         (new_job_record i t) ''JOB_ENQUEUED'' SYSTEM (js ''job-enqueue'') None (in_databaseNow i)
         [(js ''state'', js ''QUEUED'')]"
      "isSafeInteger t" "in_databaseNow i \<le> t" "0 \<le> in_databaseNow i"
proof -
  let ?t = "case in_availableAt i of None \<Rightarrow> in_databaseNow i | Some t \<Rightarrow> t"
  let ?j = "new_job_record i ?t"
  show ?thesis
  proof (cases "validateEnqueue i = Inr () \<and> map_of (jm_idempotencyIndex m) (job_scope ?j) = None
      \<and> map_of (jm_jobs m) (in_id i) = None \<and> assertDatabaseTime ?t = Inr () \<and> in_databaseNow i \<le> ?t")
    case True
    then have facts: "validateEnqueue i = Inr ()" "map_of (jm_jobs m) (in_id i) = None"
      "assertDatabaseTime ?t = Inr ()" "\<not> ?t < in_databaseNow i"
      and none: "map_of (jm_idempotencyIndex m) (job_scope ?j) = None" by auto
    have eq: "job_enqueue m i = (Inr ?j, job_appendAudit ((put_job m ?j)\<lparr>jm_idempotencyIndex :=
         AList.update (job_scope ?j) (in_id i) (jm_idempotencyIndex m)\<rparr>) ?j ''JOB_ENQUEUED'' SYSTEM
         (js ''job-enqueue'') None (in_databaseNow i) [(js ''state'', js ''QUEUED'')])"
      using none by (simp add: job_enqueue_def Let_def facts)
    have "isSafeInteger ?t" "0 \<le> in_databaseNow i"
      using facts by (auto simp: validateEnqueue_def)
    with eq none facts assms show ?thesis by (intro enqueued [of ?t]) auto
  next
    case False
    then have "snd (job_enqueue m i) = m"
      by (auto simp: job_enqueue_def Let_def attempt_def split: sum.splits option.split)
    with assms show ?thesis by (intro unchanged) auto
  qed
qed

lemma job_claimNext_cases:
  assumes "job_claimNext m c = (r, m')"
  obtains (unchanged) "m' = m" "\<nexists>x. r = Inr (Some x)"
  | (claimed) j e rest where
      "js_sort compareJobs (filter (job_claimable (cl_databaseNow c)) (map_values (jm_jobs m))) = j # rest"
      "map_of (jm_attempts m) (cl_attemptId c) = None"
      "lastObservedDatabaseAt j \<le> cl_databaseNow c" "0 \<le> cl_databaseNow c"
      "e = cl_databaseNow c + leaseDurationMs (jm_policy m)" "isSafeInteger e"
      "m' = job_appendAudit (put_job_attempt (put_job m (job_claimed j (job_new_lease j c e) (cl_databaseNow c)))
          (job_new_attempt j c)) (job_claimed j (job_new_lease j c e) (cl_databaseNow c)) ''JOB_CLAIMED''
          WORKER (cl_workerId c) (Some (cl_attemptId c)) (cl_databaseNow c)
          [(js ''fencingToken'', js_of_int (job_nextFencingToken j))]"
      "r = Inr (Some \<lparr>claimed_job = job_claimed j (job_new_lease j c e) (cl_databaseNow c),
          claimed_lease = leaseHandle (job_new_lease j c e),
          latestCheckpoint = latest_checkpoint m (w_id j)\<rparr>)"
proof -
  have lc: "latest_checkpoint (put_job_attempt m1 a) = latest_checkpoint m1"
    "latest_checkpoint (put_job m1 j) = latest_checkpoint m1" for m1 a j
    by (auto simp: latest_checkpoint_def fun_eq_iff)
  let ?now = "cl_databaseNow c"
  let ?sorted = "js_sort compareJobs (filter (job_claimable ?now) (map_values (jm_jobs m)))"
  show ?thesis
  proof (cases "validateClaim c = Inr () \<and> map_of (jm_attempts m) (cl_attemptId c) = None \<and> ?sorted \<noteq> []
      \<and> observeDatabaseTime (hd ?sorted) ?now = Inr ()
      \<and> isSafeInteger (leaseDurationMs (jm_policy m)) \<and> 0 \<le> leaseDurationMs (jm_policy m)
      \<and> isSafeInteger (?now + leaseDurationMs (jm_policy m))")
    case True
    then obtain j rest where j: "?sorted = j # rest" by (cases ?sorted) auto
    let ?e = "?now + leaseDurationMs (jm_policy m)"
    from True j have facts: "validateClaim c = Inr ()" "map_of (jm_attempts m) (cl_attemptId c) = None"
      "observeDatabaseTime j ?now = Inr ()" by simp_all
    from True have add: "addDatabaseDuration ?now (leaseDurationMs (jm_policy m)) = Inr ?e" by simp
    have "job_claimNext m c = (Inr (Some \<lparr>claimed_job = job_claimed j (job_new_lease j c ?e) ?now,
          claimed_lease = leaseHandle (job_new_lease j c ?e), latestCheckpoint = latest_checkpoint m (w_id j)\<rparr>),
        job_appendAudit (put_job_attempt (put_job m (job_claimed j (job_new_lease j c ?e) ?now))
            (job_new_attempt j c)) (job_claimed j (job_new_lease j c ?e) ?now) ''JOB_CLAIMED''
          WORKER (cl_workerId c) (Some (cl_attemptId c)) ?now
          [(js ''fencingToken'', js_of_int (job_nextFencingToken j))])"
      by (simp add: job_claimNext_def Let_def lc facts add j)
    with True j assms show ?thesis by (intro claimed [OF j]) auto
  next
    case False
    then have "snd (job_claimNext m c) = m \<and> (\<nexists>x. fst (job_claimNext m c) = Inr (Some x))"
      by (auto simp: job_claimNext_def Let_def attempt_def split: sum.splits list.splits)
    with assms show ?thesis by (intro unchanged) auto
  qed
qed

lemma job_enqueue_inv:
  assumes inv: "job_inv m" and call: "job_enqueue m i = (r, m')"
  shows "job_inv m'"
  using call
proof (cases rule: job_enqueue_cases)
  case unchanged
  with inv show ?thesis by simp
next
  case (enqueued t)
  have "job_inv ((put_job m (new_job_record i t))\<lparr>jm_idempotencyIndex :=
      AList.update (job_scope (new_job_record i t)) (w_id (new_job_record i t)) (jm_idempotencyIndex m)\<rparr>)"
    by (rule job_inv_new_job [OF inv]) (use enqueued in simp_all)
  with enqueued(4) show ?thesis by simp
qed

lemma job_in_values:
  assumes "job_inv m" and "j \<in> set (map_values (jm_jobs m))"
  shows "map_of (jm_jobs m) (w_id j) = Some j"
proof -
  have "wf_jsmap (jm_jobs m)" using assms(1) by (simp add: job_inv_def)
  with assms(2) obtain k where k: "map_of (jm_jobs m) k = Some j" using map_values_iff by metis
  with job_invD(1) [OF assms(1) k] show ?thesis by simp
qed

lemma claim_candidate:
  assumes inv: "job_inv m"
    and sorted: "js_sort compareJobs (filter (job_claimable now) (map_values (jm_jobs m))) = j # rest"
  shows "map_of (jm_jobs m) (w_id j) = Some j" and "job_claimable now j"
proof -
  have "j \<in> set (js_sort compareJobs (filter (job_claimable now) (map_values (jm_jobs m))))"
    by (simp add: sorted)
  then have "j \<in> set (map_values (jm_jobs m))" and cl: "job_claimable now j" by simp_all
  then show "map_of (jm_jobs m) (w_id j) = Some j" by (intro job_in_values [OF inv])
  show "job_claimable now j" by (rule cl)
qed

lemma job_attempts_new:
  assumes "map_of (jm_attempts m) (att_id a) = None" and "att_workKind a = JOB"
  shows "job_attempts (put_job_attempt m a) k = job_attempts m k @ (if att_workId a = k then [a] else [])"
  using assms by (simp add: job_attempts_def update_new)

lemma job_claimNext_inv:
  assumes inv: "job_inv m" and call: "job_claimNext m c = (r, m')"
  shows "job_inv m'"
  using call
proof (cases rule: job_claimNext_cases)
  case unchanged
  with inv show ?thesis by simp
next
  case (claimed j e rest)
  note j = claim_candidate [OF inv claimed(1)]
  let ?a = "job_new_attempt j c" and ?l = "job_new_lease j c e"
  let ?j = "job_claimed j ?l (cl_databaseNow c)"
  have good: "job_good (jm_policy m) (job_attempts m (w_id j)) (job_checkpoints m (w_id j))
      (jm_idempotencyIndex m) j"
    by (rule job_invD [OF inv j(1)])
  have idle: "job_state j \<noteq> Job_RUNNING" "job_attemptsInCycle j < maximumAttemptsPerCycle (jm_policy m)"
    using j(2) good by (auto simp: job_claimable_def job_good_def)
  have "job_good (jm_policy m) (job_attempts m (w_id j) @ [?a]) (job_checkpoints m (w_id j))
      (jm_idempotencyIndex m) ?j"
    using good idle claimed(4,5) job_policyD(3) [OF inv]
    by (auto simp: job_good_def active_only_def)
  moreover have "job_attempts (put_job_attempt (put_job m ?j) ?a) k =
      job_attempts m k @ (if w_id j = k then [?a] else [])" for k
    using claimed(2) by (simp add: job_attempts_new)
  ultimately have jobs: "w_id x = k \<and> job_good (jm_policy m) (job_attempts (put_job_attempt (put_job m ?j) ?a) k)
      (job_checkpoints m k) (jm_idempotencyIndex m) x"
    if "map_of (AList.update (w_id j) ?j (jm_jobs m)) k = Some x" for k x
    using that job_invD [OF inv, of k x] by (auto split: if_splits)
  have atts: "att_id x = k \<and> att_workKind x = JOB \<and> map_of (AList.update (w_id j) ?j (jm_jobs m)) (att_workId x) \<noteq> None"
    if "map_of (AList.update (cl_attemptId c) ?a (jm_attempts m)) k = Some x" for k x
    using that job_inv_attemptD(1,2,4) [OF inv, of k x] by (auto split: if_splits)
  have "job_inv (put_job_attempt (put_job m ?j) ?a)"
  proof (rule job_invI; unfold put_simps job_record_simps)
    show "assertRetryPolicy (jm_policy m) = Inr ()" by (rule job_policyD [OF inv])
    show "wf_jsmap (AList.update (w_id j) ?j (jm_jobs m))"
      "wf_jsmap (AList.update (cl_attemptId c) ?a (jm_attempts m))" "audit_contiguous (jm_audit m)"
      using job_inv_wf [OF inv] by simp_all
    show "map_of (AList.update (w_id j) ?j (jm_jobs m)) k \<noteq> None"
      if "map_of (jm_checkpoints m) k = Some cs" for k cs
      using job_checkpoint_job [OF inv that] by simp
  qed (fact atts jobs)+
  with claimed(7) show ?thesis by simp
qed

text \<open>A change to a running job that moves its clock forward and renews or keeps its lease.\<close>

lemma job_inv_renew:
  assumes inv: "job_inv m" and j: "map_of (jm_jobs m) k = Some j" and l: "lease j = Some l"
    and l': "attemptId l' = attemptId l" "workKind l' = workKind l" "workId l' = workId l"
      "fencingToken l' = fencingToken l" "now < expiresAt l'"
  shows "job_inv (put_job m (j\<lparr>lease := Some l', lastObservedDatabaseAt := now\<rparr>))"
proof (rule job_inv_put [OF inv])
  note good = job_invD [OF inv j]
  show "map_of (jm_jobs m) (w_id (j\<lparr>lease := Some l', lastObservedDatabaseAt := now\<rparr>)) = Some j"
    using j good(1) by simp
  show "job_good (jm_policy m) (job_attempts m (w_id (j\<lparr>lease := Some l', lastObservedDatabaseAt := now\<rparr>)))
      (job_checkpoints m (w_id (j\<lparr>lease := Some l', lastObservedDatabaseAt := now\<rparr>)))
      (jm_idempotencyIndex m) (j\<lparr>lease := Some l', lastObservedDatabaseAt := now\<rparr>)"
    using good l l' by (auto simp: job_good_def split: if_splits)
qed

lemma job_inv_heartbeat_attempt:
  assumes inv: "job_inv m" and j: "map_of (jm_jobs m) k = Some j" and l: "lease j = Some l"
    and a: "map_of (jm_attempts m) (attemptId l) = Some a"
  shows "job_inv (put_job_attempt m (a\<lparr>att_lastHeartbeatAt := now\<rparr>))"
proof -
  let ?a = "a\<lparr>att_lastHeartbeatAt := now\<rparr>"
  obtain b where b: "map_of (jm_attempts m) (attemptId l) = Some b"
    "active_only (job_attempts m k) = [b]" "att_workId b = k" "att_workKind b = JOB"
    "att_id b = attemptId l" "att_outcome b = Att_ACTIVE"
    using running_attempt [OF inv j l] by metis
  with a have ab: "b = a" by simp
  have rep: "replaces_attempt m a ?a" using inv a b ab by (simp add: replaces_attempt_def)
  have same: "put_job (put_job_attempt m ?a) j = put_job_attempt m ?a"
  proof -
    have "AList.update k j (jm_jobs m) = jm_jobs m"
      using j by (rule update_same)
    then show ?thesis using job_invD(1) [OF inv j] by (simp add: put_job_def put_job_attempt_def)
  qed
  have "job_inv (put_job (put_job_attempt m ?a) j)"
  proof (rule job_inv_put_both [OF rep])
    show "map_of (jm_jobs m) (w_id j) = Some j" "w_id j = att_workId a"
      using job_invD(1) [OF inv j] j b ab by simp_all
    show "job_good (jm_policy m) (job_attempts (put_job_attempt m ?a) (w_id j))
        (job_checkpoints m (w_id j)) (jm_idempotencyIndex m) j"
      using job_invD [OF inv j] l b ab put_attempt_length [OF rep] put_attempt_active [OF rep, of k]
        put_attempt_tokens [OF rep, of k]
      by (auto simp: job_good_def split: if_splits)
  qed
  then show ?thesis by (simp add: same)
qed

lemma with_job_lease_cases:
  assumes "with_job_lease m h now K = (r, m')"
  obtains (refused) e where "r = Inl e" "m' = m"
  | (accepted) j l where "map_of (jm_jobs m) (workId h) = Some j" "job_state j = Job_RUNNING"
      "assertValidLease j h now JOB = Inr l" "lease j = Some l" "K j l = (r, m')"
proof (cases "requiredJob m (workId h)")
  case (Inl e)
  with assms show ?thesis by (intro refused [of e]) (auto simp: with_job_lease_def)
next
  case (Inr j)
  show ?thesis
  proof (cases "job_state j = Job_RUNNING")
    case False
    with assms Inr show ?thesis by (intro refused [of INVALID_STATE]) (auto simp: with_job_lease_def)
  next
    case run: True
    show ?thesis
    proof (cases "assertValidLease j h now JOB")
      case (Inl e)
      with assms Inr run show ?thesis by (intro refused [of e]) (auto simp: with_job_lease_def)
    next
      case v: (Inr l)
      then have "lease j = Some l" by (simp add: assertValidLease_iff)
      with assms Inr run v show ?thesis by (intro accepted [of j l]) (auto simp: with_job_lease_def)
    qed
  qed
qed

lemma with_job_lease_state:
  assumes "P m"
    and K: "\<And>j l. map_of (jm_jobs m) (workId h) = Some j \<Longrightarrow> lease j = Some l \<Longrightarrow>
      assertValidLease j h now JOB = Inr l \<Longrightarrow> P (snd (K j l))"
  shows "P (snd (with_job_lease m h now K))"
proof -
  obtain r m' where call: "with_job_lease m h now K = (r, m')" by fastforce
  then show ?thesis
  proof (cases rule: with_job_lease_cases)
    case (refused e)
    with call assms(1) show ?thesis by simp
  next
    case (accepted j l)
    with K [of j l] call show ?thesis by simp
  qed
qed

lemmas job_with_lease_inv = with_job_lease_state [where P = job_inv]

lemma job_heartbeat_inv:
  assumes inv: "job_inv m"
  shows "job_inv (snd (job_heartbeat m h now))"
  unfolding job_heartbeat_def Let_def
proof (rule job_with_lease_inv [OF inv], rule job_inv_attempt)
  fix j l assume j: "map_of (jm_jobs m) (workId h) = Some j" and l: "lease j = Some l"
  have "lastObservedDatabaseAt j < expiresAt l" using running_attempt [OF inv j l] by metis
  with job_inv_renew [OF inv j l, of "l\<lparr>heartbeatAt := now\<rparr>" "lastObservedDatabaseAt j"]
  show "job_inv (put_job m (j\<lparr>lease := Some (l\<lparr>heartbeatAt := now\<rparr>)\<rparr>))" by simp
  fix e assume "addDatabaseDuration now (leaseDurationMs (jm_policy m)) = Inr e"
  then have "now < e" using job_policyD(3) [OF inv] by simp
  let ?l = "l\<lparr>heartbeatAt := now, expiresAt := e\<rparr>"
  let ?j = "j\<lparr>lease := Some ?l, lastObservedDatabaseAt := now\<rparr>"
  have id: "w_id j = workId h" by (rule job_invD [OF inv j])
  have renewed: "job_inv (put_job m ?j)"
    using job_inv_renew [OF inv j l, of ?l now] \<open>now < e\<close> by simp
  note beat = job_inv_heartbeat_attempt [OF renewed, of "workId h" ?j ?l]
  show "job_inv (snd (attempt (put_job (put_job m (j\<lparr>lease := Some (l\<lparr>heartbeatAt := now\<rparr>)\<rparr>)) ?j)
      (requiredJobAttempt (put_job (put_job m (j\<lparr>lease := Some (l\<lparr>heartbeatAt := now\<rparr>)\<rparr>)) ?j) (attemptId ?l))
      (\<lambda>a. (Inr (leaseHandle ?l), job_appendAudit (put_job_attempt
          (put_job (put_job m (j\<lparr>lease := Some (l\<lparr>heartbeatAt := now\<rparr>)\<rparr>)) ?j) (a\<lparr>att_lastHeartbeatAt := now\<rparr>))
        ?j ''JOB_HEARTBEAT'' WORKER (workerId ?l) (Some (att_id a)) now
        [(js ''leaseExpiresAt'', js_of_int (expiresAt ?l))]))))"
    by (rule job_inv_attempt) (use renewed beat id in simp_all)
qed

lemma checkpoints_ordered_snoc:
  "checkpoints_ordered (cs @ [c]) \<longleftrightarrow>
     checkpoints_ordered cs \<and> (cs = [] \<or> cp_sequence (last cs) < cp_sequence c)"
  by (induction cs rule: checkpoints_ordered.induct) auto

lemma job_inv_add_checkpoint:
  assumes inv: "job_inv m" and j: "map_of (jm_jobs m) k = Some j"
    and c: "job_checkpoints m k = [] \<or> cp_sequence (last (job_checkpoints m k)) < cp_sequence c"
  shows "job_inv (m\<lparr>jm_checkpoints := AList.update k (job_checkpoints m k @ [c]) (jm_checkpoints m)\<rparr>)"
    (is "job_inv ?m")
proof -
  have sel: "job_attempts ?m = job_attempts m"
    "job_checkpoints ?m = (job_checkpoints m)(k := job_checkpoints m k @ [c])"
    by (auto simp: job_attempts_def job_checkpoints_def fun_eq_iff)
  have jobs: "w_id x = q \<and> job_good (jm_policy m) (job_attempts m q) (job_checkpoints ?m q) (jm_idempotencyIndex m) x"
    if "map_of (jm_jobs m) q = Some x" for q x
    using job_invD [OF inv that] c by (auto simp: sel job_good_def checkpoints_ordered_snoc)
  have cps: "map_of (jm_jobs m) q \<noteq> None" if "map_of (jm_checkpoints ?m) q = Some cs" for q cs
    using that j job_checkpoint_job [OF inv, of q] by (auto split: if_splits)
  show ?thesis
    by (rule job_invI)
       (use job_policyD(4) [OF inv] job_inv_wf [OF inv] job_inv_attemptD [OF inv] jobs cps in
          \<open>simp_all add: sel(1)\<close>)
qed

lemma job_storeCheckpoint_inv:
  assumes inv: "job_inv m" and j: "map_of (jm_jobs m) k = Some j" and l: "lease j = Some l"
    and now: "now < expiresAt l"
    and c: "job_checkpoints m k = [] \<or> cp_sequence (last (job_checkpoints m k)) < ci_sequence i"
  shows "job_inv (snd (job_storeCheckpoint m j l i now))"
proof -
  have id: "w_id j = k" by (rule job_invD [OF inv j])
  define c where "c = \<lparr>cp_jobId = k, cp_sequence = ci_sequence i, cp_name = ci_name i,
    cp_outputRef = ci_outputRef i, cp_outputDigest = ci_outputDigest i, cp_attemptId = attemptId l,
    cp_completedAt = now\<rparr>"
  have "job_inv (m\<lparr>jm_checkpoints := AList.update k (job_checkpoints m k @ [c]) (jm_checkpoints m)\<rparr>)"
    by (rule job_inv_add_checkpoint [OF inv j]) (use assms(5) in \<open>simp add: c_def\<close>)
  from job_inv_renew [OF this, of k j l l now] j l now
  have "job_inv (put_job (m\<lparr>jm_checkpoints := AList.update k (job_checkpoints m k @ [c]) (jm_checkpoints m)\<rparr>)
      (j\<lparr>lease := Some l, lastObservedDatabaseAt := now\<rparr>))" by simp
  moreover have "j\<lparr>lease := Some l, lastObservedDatabaseAt := now\<rparr> = j\<lparr>lastObservedDatabaseAt := now\<rparr>"
    using l by (cases j) simp
  ultimately show ?thesis
    using id by (simp add: job_storeCheckpoint_def Let_def c_def)
qed

lemma job_completeCheckpoint_inv:
  assumes inv: "job_inv m"
  shows "job_inv (snd (job_completeCheckpoint m h i now))"
  unfolding job_completeCheckpoint_def
proof (rule job_inv_attempt [OF inv], rule job_with_lease_inv [OF inv])
  fix j l
  assume j: "map_of (jm_jobs m) (workId h) = Some j" and l: "lease j = Some l"
    and v: "assertValidLease j h now JOB = Inr l"
  have id: "w_id j = workId h" by (rule job_invD [OF inv j])
  have now: "now < expiresAt l" using v by (simp add: assertValidLease_iff)
  note store = job_storeCheckpoint_inv [OF inv j l now]
  show "job_inv (snd (case latest_checkpoint m (w_id j) of
       None \<Rightarrow> job_storeCheckpoint m j l i now
     | Some latest \<Rightarrow>
         if ci_sequence i < cp_sequence latest then (Inl SEQUENCE_CONFLICT, m)
         else if ci_sequence i = cp_sequence latest then
           (if cp_name latest \<noteq> ci_name i \<or> cp_outputRef latest \<noteq> ci_outputRef i
               \<or> cp_outputDigest latest \<noteq> ci_outputDigest i
            then (Inl SEQUENCE_CONFLICT, m) else (Inr latest, m))
         else job_storeCheckpoint m j l i now))"
    using store inv id by (auto simp: latest_checkpoint_def Let_def)
qed

lemma job_succeed_inv:
  assumes inv: "job_inv m"
  shows "job_inv (snd (job_succeed m h ref now))"
  unfolding job_succeed_def Let_def
  by (rule job_inv_attempt [OF inv], rule job_with_lease_inv [OF inv], rule job_inv_attempt [OF inv])
     (simp, rule job_inv_end_attempt [OF inv], simp_all add: job_invD(1) [OF inv])

lemma job_fail_inv:
  assumes inv: "job_inv m"
  shows "job_inv (snd (job_fail m h f now))"
  unfolding job_fail_def
  by (rule job_inv_attempt [OF inv], rule job_with_lease_inv [OF inv], rule job_inv_attempt [OF inv])
     (auto intro: job_finishFailure_inv [OF inv])

text \<open>What a failing job becomes: it waits for its retry or is a dead letter, and holds no lease.\<close>

lemma job_finishFailure_cases:
  assumes d: "retryBackoffMs (job_attemptsInCycle j) (jm_policy m) = Inr d"
    and call: "job_finishFailure m j a f now act who out = (r, m')"
  obtains (retry) t where "job_attemptsInCycle j < maximumAttemptsPerCycle (jm_policy m)" "r = Inr t"
      "t = (failed_job j f now)\<lparr>job_state := Job_RETRY_WAIT, job_availableAt := now + d\<rparr>"
      "jm_jobs m' = AList.update (w_id j) t (jm_jobs m)" "jm_checkpoints m' = jm_checkpoints m"
      "jm_audit m' = jm_audit m @ [last (jm_audit m')]"
  | (refused) t e where "r = Inl e" "\<not> isSafeInteger (now + d) \<or> \<not> isSafeInteger now \<or> now < 0 \<or> d < 0 \<or> \<not> isSafeInteger d"
      "t = (failed_job j f now)\<lparr>job_state := Job_RETRY_WAIT\<rparr>"
      "jm_jobs m' = AList.update (w_id j) t (jm_jobs m)" "jm_checkpoints m' = jm_checkpoints m"
      "jm_audit m' = jm_audit m"
  | (dead) t where "r = Inr t" "t = (failed_job j f now)\<lparr>job_state := Job_DEAD_LETTER\<rparr>"
      "jm_jobs m' = AList.update (w_id j) t (jm_jobs m)" "jm_checkpoints m' = jm_checkpoints m"
      "jm_audit m' = jm_audit m @ [last (jm_audit m')]"
proof (cases "fc_retryable f \<and> job_attemptsInCycle j < maximumAttemptsPerCycle (jm_policy m)")
  case can: True
  show ?thesis
  proof (cases "addDatabaseDuration now d")
    case (Inl e)
    have "\<not> (isSafeInteger (now + d) \<and> isSafeInteger now \<and> 0 \<le> now \<and> 0 \<le> d \<and> isSafeInteger d)"
      using Inl addDatabaseDuration_iff [of now d "now + d"] by auto
    with call can Inl d show ?thesis
      by (intro refused [of e]) (auto simp: job_finishFailure_def Let_def)
  next
    case (Inr t)
    then have "t = now + d" by simp
    with call can Inr d show ?thesis
      by (intro retry) (auto simp: job_finishFailure_def Let_def job_appendAudit_def)
  qed
next
  case False
  with call show ?thesis
    unfolding job_finishFailure_def Let_def if_not_P [OF False]
    by (intro dead) (auto simp: job_appendAudit_def)
qed

lemma job_finishFailure_jobs:
  assumes "job_inv m" "map_of (jm_jobs m) k = Some j" "lease j = Some l"
    and call: "job_finishFailure m j a f now act who out = (r, m')"
  obtains t where "jm_jobs m' = AList.update (w_id j) t (jm_jobs m)" "lease t = None"
    "job_state t \<in> {Job_RETRY_WAIT, Job_DEAD_LETTER}" "job_nextFencingToken t = job_nextFencingToken j"
    "lastObservedDatabaseAt t = now" "jm_checkpoints m' = jm_checkpoints m"
    "\<exists>log. jm_audit m' = jm_audit m @ log" "job_identity t = job_identity j"
proof -
  obtain d where d: "retryBackoffMs (job_attemptsInCycle j) (jm_policy m) = Inr d"
    using running_backoff [OF assms(1-3)] by blast
  from d call show ?thesis
    by (cases rule: job_finishFailure_cases) (auto intro!: that)
qed

lemma job_reclaimOne_cases:
  assumes "job_reclaimOne m j now = (r, m')"
  obtains (unchanged) "m' = m" "\<And>x l. r = Inr x \<Longrightarrow> lease j = Some l \<Longrightarrow> job_state j = Job_RUNNING \<Longrightarrow> now < expiresAt l"
  | (reclaimed) l a rf where "lease j = Some l" "job_state j = Job_RUNNING" "expiresAt l \<le> now"
      "lastObservedDatabaseAt j \<le> now" "map_of (jm_attempts m) (attemptId l) = Some a"
      "job_finishFailure (job_appendAudit m j ''JOB_LEASE_EXPIRED'' SYSTEM (js ''lease-reaper'')
           (Some (att_id a)) now [(js ''workerId'', workerId l)]) j a job_leaseExpiredFailure now SYSTEM
           (js ''lease-reaper'') Att_LEASE_EXPIRED = (rf, m')"
      "r = (case rf of Inl e \<Rightarrow> Inl e | Inr t \<Rightarrow> Inr (Some t))"
proof (cases "\<exists>l a. lease j = Some l \<and> job_state j = Job_RUNNING \<and> expiresAt l \<le> now
    \<and> observeDatabaseTime j now = Inr () \<and> map_of (jm_attempts m) (attemptId l) = Some a")
  case True
  then obtain l a where la: "lease j = Some l" "job_state j = Job_RUNNING" "expiresAt l \<le> now"
    "observeDatabaseTime j now = Inr ()" "requiredJobAttempt m (attemptId l) = Inr a"
    "map_of (jm_attempts m) (attemptId l) = Some a" by auto
  obtain rf mf where ff: "job_finishFailure (job_appendAudit m j ''JOB_LEASE_EXPIRED'' SYSTEM
      (js ''lease-reaper'') (Some (att_id a)) now [(js ''workerId'', workerId l)]) j a
      job_leaseExpiredFailure now SYSTEM (js ''lease-reaper'') Att_LEASE_EXPIRED = (rf, mf)"
    by fastforce
  have "r = (case rf of Inl e \<Rightarrow> Inl e | Inr t \<Rightarrow> Inr (Some t))" "mf = m'"
    using assms la(3) by (auto simp: job_reclaimOne_def la(1,2,4,5) Let_def ff split: sum.splits)
  with ff la show ?thesis
    by (intro reclaimed [OF la(1,2,3) _ la(6), of rf]) auto
next
  case False
  with assms show ?thesis
    by (intro unchanged)
       (auto simp: job_reclaimOne_def attempt_def requiredJobAttempt_def Let_def
         split: option.splits if_splits sum.splits)
qed

lemma job_reclaimOne_inv:
  assumes inv: "job_inv m" and j: "map_of (jm_jobs m) (w_id j) = Some j"
    and call: "job_reclaimOne m j now = (r, m')"
  shows "job_inv m'" and "k \<noteq> w_id j \<Longrightarrow> map_of (jm_jobs m') k = map_of (jm_jobs m) k"
proof -
  have "job_inv m' \<and> (k \<noteq> w_id j \<longrightarrow> map_of (jm_jobs m') k = map_of (jm_jobs m) k)"
    using call
  proof (cases rule: job_reclaimOne_cases)
    case unchanged
    with inv show ?thesis by simp
  next
    case (reclaimed l a rf)
    let ?m = "job_appendAudit m j ''JOB_LEASE_EXPIRED'' SYSTEM (js ''lease-reaper'') (Some (att_id a)) now
      [(js ''workerId'', workerId l)]"
    have inv1: "job_inv ?m" and j1: "map_of (jm_jobs ?m) (w_id j) = Some j" using inv j by simp_all
    have "job_inv m'"
      using job_finishFailure_inv [OF inv1 j1 reclaimed(1), of a Att_LEASE_EXPIRED] reclaimed(5,6)
      by (metis AttemptOutcome.distinct(7) job_appendAudit_simps(3) snd_conv)
    then show ?thesis
      using job_finishFailure_jobs [OF inv1 j1 reclaimed(1) reclaimed(6)]
      by (metis (no_types, lifting) job_appendAudit_simps(2) map_of_update)
  qed
  then show "job_inv m'" and "k \<noteq> w_id j \<Longrightarrow> map_of (jm_jobs m') k = map_of (jm_jobs m) k" by auto
qed

text \<open>The rounds of the loop do not disturb the jobs still to come.\<close>

definition loop_ready :: "JobStateModel \<Rightarrow> JobRecord list \<Rightarrow> bool" where
  "loop_ready m todo \<longleftrightarrow> job_inv m \<and> distinct (map w_id todo)
     \<and> (\<forall>j\<in>set todo. map_of (jm_jobs m) (w_id j) = Some j)"

lemma loop_ready_Cons:
  assumes "loop_ready m (j # rest)" and "job_reclaimOne m j now = (r, m1)"
  shows "loop_ready m1 rest"
  using assms job_reclaimOne_inv [of m j now r m1] by (auto simp: loop_ready_def) (metis image_eqI)

lemma job_reclaimLoop_inv: "loop_ready m todo \<Longrightarrow> job_inv (snd (job_reclaimLoop m todo now))"
proof (induction m todo now rule: job_reclaimLoop.induct)
  case (1 m now)
  then show ?case by (simp add: loop_ready_def)
next
  case (2 m j rest now)
  obtain r m1 where one: "job_reclaimOne m j now = (r, m1)" by fastforce
  have ready: "loop_ready m1 rest" by (rule loop_ready_Cons [OF "2.prems" one])
  then have "job_inv m1" by (simp add: loop_ready_def)
  with 2 one ready show ?case by (cases r) (auto split: prod.splits sum.splits)
qed

lemma wf_jsmap_ids:
  "job_inv m \<Longrightarrow> distinct (map w_id (map_values (jm_jobs m)))"
  by (rule distinct_keyed_ids [OF job_inv_wf(1) job_invD(1)])

lemma distinct_map_js_sort: "distinct (map f xs) \<Longrightarrow> distinct (map f (js_sort cmp xs))"
  by (auto simp: distinct_map)

lemma loop_ready_sorted: "job_inv m \<Longrightarrow> loop_ready m (js_sort compareJobs (map_values (jm_jobs m)))"
  by (simp add: loop_ready_def distinct_map_js_sort wf_jsmap_ids job_in_values del: map_map)

lemma job_reclaim_inv:
  assumes inv: "job_inv m"
  shows "job_inv (snd (job_reclaimExpiredLeases m now))"
  unfolding job_reclaimExpiredLeases_def
  by (rule job_inv_attempt [OF inv]) (rule job_reclaimLoop_inv [OF loop_ready_sorted [OF inv]])

lemma job_inv_idle:
  assumes inv: "job_inv m" and j: "map_of (jm_jobs m) k = Some j" and "lease j = None"
    and "job_state j \<noteq> Job_RUNNING"
    and j': "w_id j' = k" "lease j' = None" "job_state j' \<noteq> Job_RUNNING" "job_scope j' = job_scope j"
      "job_totalAttempts j' = job_totalAttempts j" "job_nextFencingToken j' = job_nextFencingToken j"
      "0 \<le> job_attemptsInCycle j'" "job_attemptsInCycle j' \<le> job_attemptsInCycle j"
      "job_state j' = Job_QUEUED \<or> job_state j' = Job_RETRY_WAIT \<longrightarrow>
         job_attemptsInCycle j' < maximumAttemptsPerCycle (jm_policy m)"
  shows "job_inv (put_job m j')"
proof (rule job_inv_put [OF inv])
  show "map_of (jm_jobs m) (w_id j') = Some j" using j j' by simp
  show "job_good (jm_policy m) (job_attempts m (w_id j')) (job_checkpoints m (w_id j')) (jm_idempotencyIndex m) j'"
    using job_invD [OF inv j] assms(4) j' by (auto simp: job_good_def)
qed

lemma job_idle_lease:
  "job_inv m \<Longrightarrow> map_of (jm_jobs m) k = Some j \<Longrightarrow> lease j = None \<longleftrightarrow> job_state j \<noteq> Job_RUNNING"
  using job_invD(2) [of m k j] by (auto simp: job_good_def split: if_splits)

lemma job_replay_inv:
  assumes inv: "job_inv m"
  shows "job_inv (snd (job_replayDeadLetter m k who why now))"
  unfolding job_replayDeadLetter_def Let_def
proof (intro job_inv_attempt [OF inv])
  fix j assume "requiredJob m k = Inr j"
  then have j: "map_of (jm_jobs m) k = Some j" by simp
  have "job_inv (put_job m (replayed_job j now))" if "job_state j = Job_DEAD_LETTER"
    by (rule job_inv_idle [OF inv j])
       (use that j job_idle_lease [OF inv j] job_invD(1) [OF inv j] job_policyD(1) [OF inv]
          job_invD(2) [OF inv j] in \<open>simp_all add: job_good_def\<close>)
  then show "job_inv (snd (if job_state j \<noteq> Job_DEAD_LETTER then (Inl INVALID_STATE, m)
      else (Inr (replayed_job j now), job_appendAudit (put_job m (replayed_job j now)) (replayed_job j now)
        ''JOB_MANUALLY_REPLAYED'' OPERATOR who None now
        [(js ''reasonCode'', why), (js ''replayCycle'', js_of_int (job_replayCycle (replayed_job j now)))])))"
    using inv by simp
qed

lemma job_cancel_inv:
  assumes inv: "job_inv m"
  shows "job_inv (snd (job_cancel m k who why now))"
proof -
  have idle: "job_inv (put_job m (cancelled_job j why now))"
    if j: "map_of (jm_jobs m) k = Some j" and l: "lease j = None" for j
    by (rule job_inv_idle [OF inv j l])
       (use l job_idle_lease [OF inv j] job_invD [OF inv j] in \<open>simp_all add: job_good_def\<close>)
  have held: "job_inv (put_job (put_job_attempt m (finished_attempt a now Att_CANCELLED)) (cancelled_job j why now))"
    if j: "map_of (jm_jobs m) k = Some j" and l: "lease j = Some l"
      and a: "map_of (jm_attempts m) (attemptId l) = Some a" for j l a
    by (rule job_inv_end_attempt [OF inv j l a]) (use job_invD(1) [OF inv j] in simp_all)
  show ?thesis
    unfolding job_cancel_def Let_def
    by (intro job_inv_attempt [OF inv])
       (use inv idle held in \<open>auto split: option.splits intro!: job_inv_attempt [OF inv]\<close>)
qed

theorem job_step_inv: "job_step m op m' \<Longrightarrow> job_inv m \<Longrightarrow> job_inv m'"
  by (induction rule: job_step.induct)
     (metis job_enqueue_inv job_claimNext_inv job_heartbeat_inv job_completeCheckpoint_inv job_succeed_inv
        job_fail_inv job_reclaim_inv job_replay_inv job_cancel_inv snd_conv)+

lemma job_inv_start: "assertRetryPolicy p = Inr () \<Longrightarrow> job_inv (job_start p)"
  by (simp add: job_inv_def job_start_def)

lemma job_good_asserts:
  assumes inv: "job_inv m" and j: "map_of (jm_jobs m) (w_id j) = Some j"
  shows "job_assertJob m j = Inr ()"
proof -
  note good = job_invD(2) [OF inv j, unfolded job_good_def active_only_def]
  show ?thesis
  proof (cases "job_state j = Job_RUNNING")
    case True
    with good obtain l a where
      "lease j = Some l" "filter (\<lambda>a. att_outcome a = Att_ACTIVE) (job_attempts m (w_id j)) = [a]"
      "att_id a = attemptId l" by auto
    with good True show ?thesis by (simp add: job_assertJob_def Let_def)
  next
    case False
    with good show ?thesis by (simp add: job_assertJob_def Let_def)
  qed
qed

lemma job_inv_asserts:
  assumes inv: "job_inv m"
  shows "job_assertInvariants m = Inr ()"
proof -
  have "mapM (job_assertJob m) (map_values (jm_jobs m)) = Inr (map (\<lambda>_. ()) (map_values (jm_jobs m)))"
    by (rule mapM_Inr) (rule job_good_asserts [OF inv job_in_values [OF inv]])
  then show ?thesis
    using job_inv_wf(3) [OF inv] by (simp add: job_assertInvariants_def)
qed

text \<open>The Job machine is a transition system with an inductive invariant.\<close>

definition job_init :: "JobStateModel \<Rightarrow> bool" where
  "job_init m \<longleftrightarrow> (\<exists>p. new_JobStateModel p = Inr m)"

interpretation job_machine: inductive_invariant job_init job_step job_inv
  by unfold_locales (auto simp: job_init_def new_JobStateModel_iff job_inv_start intro: job_step_inv)

end
