(* ===== verification/JobProgress.thy ===== *)
theory JobProgress
  imports JobInvariants "HOL-Library.Sublist"
begin

text \<open>
  What only moves forward in the Job machine, and what follows for leases: fencing tokens and
  observed database time never go back, a job that succeeded or was cancelled never changes again,
  checkpoints and the audit log only grow. A lease that has been superseded is refused for good.
\<close>

subsection \<open>Progress\<close>

definition job_forward :: "JobRecord \<Rightarrow> JobRecord \<Rightarrow> bool" where
  "job_forward j j' \<longleftrightarrow>
     job_nextFencingToken j \<le> job_nextFencingToken j'
   \<and> lastObservedDatabaseAt j \<le> lastObservedDatabaseAt j'
   \<and> (lease j = None \<and> job_nextFencingToken j' = job_nextFencingToken j \<longrightarrow> lease j' = None)
   \<and> job_identity j' = job_identity j
   \<and> (job_state j = Job_SUCCEEDED \<or> job_state j = Job_CANCELLED \<longrightarrow> j' = j)"

definition job_progress :: "JobStateModel \<Rightarrow> JobStateModel \<Rightarrow> bool" where
  "job_progress m m' \<longleftrightarrow>
     (\<forall>k j. map_of (jm_jobs m) k = Some j \<longrightarrow> (\<exists>j'. map_of (jm_jobs m') k = Some j' \<and> job_forward j j'))
   \<and> (\<forall>k. prefix (job_checkpoints m k) (job_checkpoints m' k))
   \<and> prefix (jm_audit m) (jm_audit m')"

lemma job_forward_refl [simp]: "job_forward j j"
  by (simp add: job_forward_def)

lemma job_forward_trans: "job_forward i j \<Longrightarrow> job_forward j k \<Longrightarrow> job_forward i k"
  by (auto simp: job_forward_def)

lemma job_progress_refl [simp]: "job_progress m m"
  by (auto simp: job_progress_def)

lemma job_progress_trans:
  assumes "job_progress m m1" and "job_progress m1 m2"
  shows "job_progress m m2"
  unfolding job_progress_def
proof (intro conjI allI impI)
  fix k j assume "map_of (jm_jobs m) k = Some j"
  with assms(1) obtain j1 where j1: "map_of (jm_jobs m1) k = Some j1" "job_forward j j1"
    unfolding job_progress_def by blast
  with assms(2) obtain j2 where "map_of (jm_jobs m2) k = Some j2" "job_forward j1 j2"
    unfolding job_progress_def by blast
  with j1 show "\<exists>j'. map_of (jm_jobs m2) k = Some j' \<and> job_forward j j'"
    by (blast intro: job_forward_trans)
next
  show "prefix (job_checkpoints m k) (job_checkpoints m2 k)" for k
    using assms prefix_order.trans unfolding job_progress_def by blast
  show "prefix (jm_audit m) (jm_audit m2)"
    using assms prefix_order.trans unfolding job_progress_def by blast
qed

text \<open>Storing one job that moved forward, with the log extended, is progress.\<close>

lemma job_progress_put:
  assumes "map_of (jm_jobs m) k = Some j" and "job_forward j j'"
    and "jm_jobs m' = AList.update k j' (jm_jobs m)"
    and "\<And>q. prefix (job_checkpoints m q) (job_checkpoints m' q)"
    and "prefix (jm_audit m) (jm_audit m')"
  shows "job_progress m m'"
  using assms by (auto simp: job_progress_def)

lemma job_audit_prefix [simp]:
  "prefix (jm_audit m) (jm_audit (job_appendAudit m1 j e t w k d x)) \<longleftrightarrow>
     prefix (jm_audit m) (jm_audit m1 @ [\<lparr>aud_sequence = int (length (jm_audit m1)) + 1,
        aud_eventType = js e, aud_workKind = JOB, aud_workId = w_id j, aud_attemptId = k,
        aud_actorType = t, aud_actorId = w, aud_correlationId = job_correlationId j,
        aud_databaseAt = d, aud_details = x\<rparr>])"
  by (simp add: job_appendAudit_def)

lemma lease_not_ended: "job_inv m \<Longrightarrow> map_of (jm_jobs m) k = Some j \<Longrightarrow> lease j = Some l \<Longrightarrow>
    job_state j = Job_RUNNING"
  using job_idle_lease [of m k j] by auto

lemma job_enqueue_progress:
  assumes inv: "job_inv m" and call: "job_enqueue m i = (r, m')"
  shows "job_progress m m'"
  using call
proof (cases rule: job_enqueue_cases)
  case unchanged
  then show ?thesis by simp
next
  case (enqueued t)
  have "job_checkpoints m' = job_checkpoints m"
    by (simp add: enqueued(4) job_checkpoints_def fun_eq_iff)
  with enqueued(2) show ?thesis
    by (auto simp: job_progress_def enqueued(4))
qed

lemma job_claimNext_progress:
  assumes inv: "job_inv m" and call: "job_claimNext m c = (r, m')"
  shows "job_progress m m'"
  using call
proof (cases rule: job_claimNext_cases)
  case unchanged
  then show ?thesis by simp
next
  case (claimed j e rest)
  note j = claim_candidate [OF inv claimed(1)]
  show ?thesis
    by (rule job_progress_put [OF j(1)])
       (use claimed(3) j(2) in \<open>auto simp: claimed(7) job_forward_def job_claimable_def\<close>)
qed

lemma job_finishFailure_progress:
  assumes inv: "job_inv m" and j: "map_of (jm_jobs m) k = Some j" and l: "lease j = Some l"
    and now: "lastObservedDatabaseAt j \<le> now"
    and call: "job_finishFailure m j a f now act who out = (r, m')"
  shows "job_progress m m'"
proof -
  obtain t where t: "jm_jobs m' = AList.update (w_id j) t (jm_jobs m)"
    "job_nextFencingToken t = job_nextFencingToken j" "lastObservedDatabaseAt t = now"
    "jm_checkpoints m' = jm_checkpoints m" "\<exists>log. jm_audit m' = jm_audit m @ log"
    "job_identity t = job_identity j"
    by (rule job_finishFailure_jobs [OF inv j l call])
  have "job_checkpoints m' = job_checkpoints m" using t(4) by (simp add: job_checkpoints_def fun_eq_iff)
  moreover have "job_forward j t"
    using t now l lease_not_ended [OF inv j l] by (simp add: job_forward_def)
  ultimately show ?thesis
    using t(1,5) job_invD(1) [OF inv j] by (intro job_progress_put [OF j, of t]) auto
qed

lemmas job_progress_attempt = attempt_state [where P = "job_progress m" for m]
lemmas job_progress_lease = with_job_lease_state [where P = "job_progress m" for m]

lemma job_heartbeat_progress:
  assumes inv: "job_inv m"
  shows "job_progress m (snd (job_heartbeat m h now))"
  unfolding job_heartbeat_def Let_def
proof (rule job_progress_lease [OF job_progress_refl], rule job_progress_attempt)
  fix j l
  assume j: "map_of (jm_jobs m) (workId h) = Some j" and l: "lease j = Some l"
    and v: "assertValidLease j h now JOB = Inr l"
  note facts = lease_not_ended [OF inv j l] job_invD(1) [OF inv j]
  have now: "lastObservedDatabaseAt j \<le> now" using v by (simp add: assertValidLease_iff)
  have put: "job_progress m (put_job m (j\<lparr>lease := x, lastObservedDatabaseAt := t\<rparr>))"
    if "lastObservedDatabaseAt j \<le> t" for x t
    by (rule job_progress_put [OF j]) (use facts that l in \<open>auto simp: job_forward_def\<close>)
  from put [of "lastObservedDatabaseAt j"]
  show "job_progress m (put_job m (j\<lparr>lease := Some (l\<lparr>heartbeatAt := now\<rparr>)\<rparr>))" by simp
  fix e
  let ?l = "l\<lparr>heartbeatAt := now, expiresAt := e\<rparr>"
  let ?j = "j\<lparr>lease := Some ?l, lastObservedDatabaseAt := now\<rparr>"
  from put [OF now, of "Some ?l"]
  show "job_progress m (snd (attempt (put_job (put_job m (j\<lparr>lease := Some (l\<lparr>heartbeatAt := now\<rparr>)\<rparr>)) ?j)
      (requiredJobAttempt (put_job (put_job m (j\<lparr>lease := Some (l\<lparr>heartbeatAt := now\<rparr>)\<rparr>)) ?j) (attemptId ?l))
      (\<lambda>a. (Inr (leaseHandle ?l), job_appendAudit (put_job_attempt
          (put_job (put_job m (j\<lparr>lease := Some (l\<lparr>heartbeatAt := now\<rparr>)\<rparr>)) ?j) (a\<lparr>att_lastHeartbeatAt := now\<rparr>))
        ?j ''JOB_HEARTBEAT'' WORKER (workerId ?l) (Some (att_id a)) now
        [(js ''leaseExpiresAt'', js_of_int (expiresAt ?l))]))))"
    by (intro job_progress_attempt) (auto simp: job_progress_def)
qed

lemma job_storeCheckpoint_progress:
  assumes inv: "job_inv m" and j: "map_of (jm_jobs m) k = Some j" and l: "lease j = Some l"
    and now: "lastObservedDatabaseAt j \<le> now"
  shows "job_progress m (snd (job_storeCheckpoint m j l i now))"
  unfolding job_storeCheckpoint_def Let_def
  by (simp, rule job_progress_put [OF j])
     (use lease_not_ended [OF inv j l] job_invD(1) [OF inv j] now in
        \<open>auto simp: job_forward_def job_checkpoints_def\<close>)

lemma job_completeCheckpoint_progress:
  assumes inv: "job_inv m"
  shows "job_progress m (snd (job_completeCheckpoint m h i now))"
  unfolding job_completeCheckpoint_def
  by (intro job_progress_attempt job_progress_lease job_progress_refl)
     (auto simp: assertValidLease_iff intro: job_storeCheckpoint_progress [OF inv] split: option.split)

lemma job_succeed_progress:
  assumes inv: "job_inv m"
  shows "job_progress m (snd (job_succeed m h ref now))"
  unfolding job_succeed_def Let_def
proof (intro job_progress_attempt job_progress_lease job_progress_refl)
  fix j l a
  assume j: "map_of (jm_jobs m) (workId h) = Some j" and l: "lease j = Some l"
    and v: "assertValidLease j h now JOB = Inr l"
  show "job_progress m (snd (Inr (succeeded_job j ref now), job_appendAudit (put_job (put_job_attempt m
      (finished_attempt a now Att_SUCCEEDED)) (succeeded_job j ref now)) (succeeded_job j ref now)
      ''JOB_SUCCEEDED'' WORKER (workerId l) (Some (att_id a)) now [(js ''resultRecorded'', js ''true'')]))"
    by (simp, rule job_progress_put [OF j])
       (use lease_not_ended [OF inv j l] job_invD(1) [OF inv j] v in
          \<open>auto simp: job_forward_def assertValidLease_iff\<close>)
qed

lemma job_fail_progress:
  assumes inv: "job_inv m"
  shows "job_progress m (snd (job_fail m h f now))"
  unfolding job_fail_def
  by (intro job_progress_attempt job_progress_lease job_progress_refl)
     (auto simp: assertValidLease_iff intro: job_finishFailure_progress [OF inv _ _ _ prod.collapse [symmetric]])

lemma job_reclaimOne_progress:
  assumes inv: "job_inv m" and j: "map_of (jm_jobs m) (w_id j) = Some j"
    and call: "job_reclaimOne m j now = (r, m')"
  shows "job_progress m m'"
  using call
proof (cases rule: job_reclaimOne_cases)
  case unchanged
  then show ?thesis by simp
next
  case (reclaimed l a rf)
  let ?m = "job_appendAudit m j ''JOB_LEASE_EXPIRED'' SYSTEM (js ''lease-reaper'') (Some (att_id a)) now
    [(js ''workerId'', workerId l)]"
  have "job_progress ?m m'"
    by (rule job_finishFailure_progress [OF _ _ reclaimed(1,4,6)]) (use inv j in simp_all)
  moreover have "job_progress m ?m" by (auto simp: job_progress_def)
  ultimately show ?thesis by (rule job_progress_trans [rotated])
qed

lemma job_reclaimLoop_progress:
  "loop_ready m todo \<Longrightarrow> job_progress m (snd (job_reclaimLoop m todo now))"
proof (induction m todo now rule: job_reclaimLoop.induct)
  case (1 m now)
  then show ?case by simp
next
  case (2 m j rest now)
  obtain r m1 where one: "job_reclaimOne m j now = (r, m1)" by fastforce
  have "job_progress m m1"
    by (rule job_reclaimOne_progress [OF _ _ one]) (use "2.prems" in \<open>auto simp: loop_ready_def\<close>)
  moreover have "job_progress m1 (snd (job_reclaimLoop m1 rest now))" if "r = Inr x" for x
    using 2 that one loop_ready_Cons [OF "2.prems" one] by simp
  ultimately show ?case
    using one by (cases r) (auto split: prod.splits sum.splits intro: job_progress_trans)
qed

lemma job_reclaim_progress:
  "job_inv m \<Longrightarrow> job_progress m (snd (job_reclaimExpiredLeases m now))"
  unfolding job_reclaimExpiredLeases_def
  by (intro job_progress_attempt job_progress_refl job_reclaimLoop_progress loop_ready_sorted)

lemma job_replay_progress:
  assumes inv: "job_inv m"
  shows "job_progress m (snd (job_replayDeadLetter m k who why now))"
proof -
  have "job_progress m (put_job m (replayed_job j now))"
    if "map_of (jm_jobs m) k = Some j" "job_state j = Job_DEAD_LETTER" "lastObservedDatabaseAt j \<le> now" for j
    by (rule job_progress_put [OF that(1)])
       (use that job_invD(1) [OF inv that(1)] in \<open>auto simp: job_forward_def\<close>)
  then show ?thesis
    unfolding job_replayDeadLetter_def Let_def
    by (intro job_progress_attempt job_progress_refl) (auto simp: job_progress_def)
qed

lemma job_cancel_progress:
  assumes inv: "job_inv m"
  shows "job_progress m (snd (job_cancel m k who why now))"
proof -
  have "job_progress m (put_job m1 (cancelled_job j why now))"
    if "map_of (jm_jobs m) k = Some j" "job_state j \<noteq> Job_SUCCEEDED" "job_state j \<noteq> Job_CANCELLED"
      "lastObservedDatabaseAt j \<le> now" "m1 = m \<or> (\<exists>a. m1 = put_job_attempt m a)" for j m1
    by (rule job_progress_put [OF that(1), of "cancelled_job j why now"])
       (use that job_invD(1) [OF inv that(1)] in \<open>auto simp: job_forward_def\<close>)
  then show ?thesis
    unfolding job_cancel_def Let_def
    by (intro job_progress_attempt job_progress_refl)
       (auto simp: job_progress_def attempt_def split: option.splits sum.splits)
qed

lemma job_step_progress: "job_step m op m' \<Longrightarrow> job_inv m \<Longrightarrow> job_progress m m'"
  by (induction rule: job_step.induct)
     (metis job_enqueue_progress job_claimNext_progress job_heartbeat_progress
        job_completeCheckpoint_progress job_succeed_progress job_fail_progress job_reclaim_progress
        job_replay_progress job_cancel_progress snd_conv)+

interpretation job_run: monotone_run job_init job_step job_inv job_progress
  by unfold_locales (auto intro: job_progress_trans job_step_progress)

end
