(* ===== verification/JobProperties.thy ===== *)
theory JobProperties
  imports JobProgress
begin

text \<open>
  The properties of the Job machine: its own invariant check never fails, progress, fencing,
  the order of claims, reclaiming expired leases, idempotent enqueueing, and the retry budget.
\<close>

subsection \<open>The order of claims\<close>

lemma compareJobs_swap: "compareJobs y x = - compareJobs x y"
  unfolding compareJobs_def or_else_minus by (simp only: compareBy_swap [symmetric])

lemma compareJobs_le0:
  "compareJobs x y \<le> 0 \<longleftrightarrow>
     job_priority y < job_priority x
   \<or> job_priority x = job_priority y \<and> (job_availableAt x < job_availableAt y
   \<or> job_availableAt x = job_availableAt y \<and> (job_createdAt x < job_createdAt y
   \<or> job_createdAt x = job_createdAt y \<and> w_id x \<le> w_id y))"
  by (auto simp: compareJobs_def or_else_le0)

interpretation jobs_order: js_comparator compareJobs
proof
  fix x y z
  show "sgn (compareJobs x y) = - sgn (compareJobs y x)"
    by (simp add: compareJobs_swap [of y x])
  show "compareJobs x y \<le> 0 \<Longrightarrow> compareJobs y z \<le> 0 \<Longrightarrow> compareJobs x z \<le> 0"
    unfolding compareJobs_le0 by auto
qed

subsection \<open>Examples\<close>

text \<open>A run used by the witnesses: two jobs are enqueued and the first is claimed twice.\<close>

definition example_enqueue :: "string \<Rightarrow> int \<Rightarrow> EnqueueJobInput" where
  "example_enqueue k t = \<lparr>in_id = js k, in_projectId = js ''p'', in_jobType = js ''t'',
     in_idempotencyKey = js k, in_inputDigest = js ''d'', in_correlationId = js ''c'',
     in_databaseNow = t, in_priority = None, in_availableAt = None\<rparr>"

definition example_claim :: "string \<Rightarrow> int \<Rightarrow> ClaimJobInput" where
  "example_claim a t = \<lparr>cl_workerId = js ''w'', cl_attemptId = js a, cl_databaseNow = t\<rparr>"

definition example_m0 :: JobStateModel where
  "example_m0 = job_start defaultJobRetryPolicy"

definition example_m1 :: JobStateModel where
  "example_m1 = snd (job_enqueue example_m0 (example_enqueue ''a'' 1000))"

definition example_m2 :: JobStateModel where
  "example_m2 = snd (job_claimNext example_m1 (example_claim ''x'' 2000))"

lemma example_run:
  "job_init example_m0" "reaches job_step example_m0 example_m1" "reaches job_step example_m1 example_m2"
  "reaches job_step example_m0 example_m2"
proof -
  show "job_init example_m0"
    unfolding job_init_def new_JobStateModel_iff example_m0_def
    by (intro exI [of _ defaultJobRetryPolicy]) code_simp
  have "job_step example_m0 (Op_enqueue (example_enqueue ''a'' 1000)) example_m1"
    unfolding example_m1_def by (rule job_step.enqueue [OF prod.collapse [symmetric]])
  then show one: "reaches job_step example_m0 example_m1" by (rule reaches_step [OF reaches_refl])
  have "job_step example_m1 (Op_claimNext (example_claim ''x'' 2000)) example_m2"
    unfolding example_m2_def by (rule job_step.claimNext [OF prod.collapse [symmetric]])
  then show "reaches job_step example_m1 example_m2" "reaches job_step example_m0 example_m2"
    using one by (auto intro: reaches_step reaches_refl)
qed

text \<open>
  Claim C1. In every state that any sequence of calls reaches from a newly constructed Job machine,
  with any arguments and whether the calls return or throw, \<open>assertInvariants\<close> finds nothing
  wrong: attempts are counted, a running job has exactly one active attempt that its lease names,
  an idle job has neither, the retry budget is kept, checkpoints are ordered, the idempotency
  index and the audit log are consistent.
\<close>

theorem job_invariants_hold:
  assumes "job_init m0" and "reaches job_step m0 m"
  shows "job_assertInvariants m = Inr ()"
  by (rule job_inv_asserts [OF job_machine.inv_reachable [OF assms]])

theorem job_invariants_hold_witness:
  "job_assertInvariants example_m2 = Inr ()
   \<and> map job_state (map_values (jm_jobs example_m2)) = [Job_RUNNING]"
proof
  show "job_assertInvariants example_m2 = Inr ()"
    by (rule job_invariants_hold [OF example_run(1,4)])
  show "map job_state (map_values (jm_jobs example_m2)) = [Job_RUNNING]" by code_simp
qed

text \<open>
  Claim C19. Along any run the machine only moves forward: a job never disappears, its fencing token
  and the database time it has observed never decrease, what was enqueued never changes, a job
  that succeeded or was cancelled is frozen, and checkpoints and audit records are only appended.
\<close>

theorem job_moves_forward:
  assumes "job_init m0" and "reaches job_step m0 m" and "reaches job_step m m'"
    and "map_of (jm_jobs m) k = Some j"
  shows "\<exists>j'. map_of (jm_jobs m') k = Some j'
      \<and> job_nextFencingToken j \<le> job_nextFencingToken j'
      \<and> lastObservedDatabaseAt j \<le> lastObservedDatabaseAt j'
      \<and> job_scope j' = job_scope j \<and> job_inputDigest j' = job_inputDigest j
      \<and> (job_state j = Job_SUCCEEDED \<or> job_state j = Job_CANCELLED \<longrightarrow> j' = j)
      \<and> prefix (job_checkpoints m k) (job_checkpoints m' k) \<and> prefix (jm_audit m) (jm_audit m')"
proof -
  have progress: "job_progress m m'"
    by (rule job_run.rel_run [OF assms(3) job_machine.inv_reachable [OF assms(1,2)]])
  then obtain j' where "map_of (jm_jobs m') k = Some j'" "job_forward j j'"
    using assms(4) unfolding job_progress_def by blast
  then show ?thesis
    using progress job_identity_scope [of j' j] by (auto simp: job_progress_def job_forward_def)
qed

lemma example_m1_job: "map_of (jm_jobs example_m1) (js ''a'') = Some (new_job_record (example_enqueue ''a'' 1000) 1000)"
  by code_simp

theorem job_moves_forward_witness:
  "\<exists>j'. map_of (jm_jobs example_m2) (js ''a'') = Some j' \<and> 1 \<le> job_nextFencingToken j'
     \<and> prefix (jm_audit example_m1) (jm_audit example_m2) \<and> length (jm_audit example_m2) = 2"
proof -
  have "length (jm_audit example_m2) = 2" by code_simp
  then show ?thesis
    using job_moves_forward [OF example_run(1,2,3) example_m1_job] by auto
qed

subsection \<open>Fencing\<close>

text \<open>A handle whose token the job's lease does not carry passes none of the lease checks.\<close>

definition lease_lost :: "JobStateModel \<Rightarrow> LeaseHandle \<Rightarrow> bool" where
  "lease_lost m h \<longleftrightarrow> (case map_of (jm_jobs m) (workId h) of
     None \<Rightarrow> False
   | Some j \<Rightarrow> fencingToken h < job_nextFencingToken j
        \<and> (case lease j of None \<Rightarrow> True | Some l \<Rightarrow> fencingToken l \<noteq> fencingToken h))"

lemma lease_lost_refused:
  assumes "lease_lost m h"
  shows "\<exists>e. with_job_lease m h now K = (Inl e, m)"
proof -
  obtain r m' where call: "with_job_lease m h now K = (r, m')" by fastforce
  then show ?thesis
  proof (cases rule: with_job_lease_cases)
    case (accepted j l)
    with assms show ?thesis by (auto simp: lease_lost_def assertValidLease_iff)
  qed (simp add: call)
qed

lemma attempt_refused: "(\<And>x. \<exists>e. K x = (Inl e, s)) \<Longrightarrow> \<exists>e. attempt s r K = (Inl e, s)"
  by (cases r) auto

lemma lease_lost_forever:
  assumes inv: "job_inv m" and run: "reaches job_step m m'" and lost: "lease_lost m h"
  shows "lease_lost m' h"
proof -
  from lost obtain j where j: "map_of (jm_jobs m) (workId h) = Some j"
    and h: "fencingToken h < job_nextFencingToken j"
      "\<And>l. lease j = Some l \<Longrightarrow> fencingToken l \<noteq> fencingToken h"
    by (auto simp: lease_lost_def split: option.splits)
  have inv': "job_inv m'" by (rule job_machine.inv_from [OF run inv])
  from job_run.rel_run [OF run inv] j
  obtain j' where j': "map_of (jm_jobs m') (workId h) = Some j'" and fwd: "job_forward j j'"
    unfolding job_progress_def by blast
  have "fencingToken l' \<noteq> fencingToken h" if l': "lease j' = Some l'" for l'
  proof -
    have tok: "fencingToken l' + 1 = job_nextFencingToken j'" by (rule running_attempt [OF inv' j' l'])
    show ?thesis
    proof (cases "job_nextFencingToken j' = job_nextFencingToken j")
      case True
      with fwd l' obtain l where l: "lease j = Some l" by (cases "lease j") (auto simp: job_forward_def)
      have "fencingToken l + 1 = job_nextFencingToken j" by (rule running_attempt [OF inv j l])
      with tok True h(2) [OF l] show ?thesis by simp
    next
      case False
      with fwd h(1) tok show ?thesis by (simp add: job_forward_def)
    qed
  qed
  with j' h(1) fwd show ?thesis by (auto simp: lease_lost_def job_forward_def split: option.splits)
qed

text \<open>
  Claim C3. Fencing: once a handle that was handed out has lost its lease (the job is leased under
  another token or not at all), no later call with it has an effect. In every later state
  heartbeat, checkpoint, success and failure reported with it throw and change nothing, whatever
  happened in between.
\<close>

theorem superseded_lease_refused:
  assumes "job_init m0" and "reaches job_step m0 m" and "lease_lost m h" and "reaches job_step m m'"
  shows "(\<exists>e. job_heartbeat m' h now = (Inl e, m'))
    \<and> (\<exists>e. job_completeCheckpoint m' h ci now = (Inl e, m'))
    \<and> (\<exists>e. job_succeed m' h ref now = (Inl e, m'))
    \<and> (\<exists>e. job_fail m' h f now = (Inl e, m'))"
proof -
  have lost: "lease_lost m' h"
    by (rule lease_lost_forever [OF job_machine.inv_reachable [OF assms(1,2)] assms(4,3)])
  show ?thesis
    unfolding job_heartbeat_def job_completeCheckpoint_def job_succeed_def job_fail_def
    by (intro conjI attempt_refused lease_lost_refused [OF lost])
qed

text \<open>The example goes on: the lease of the first attempt expires, and the job is claimed again.\<close>

definition example_handle :: LeaseHandle where
  "example_handle = \<lparr>workKind = JOB, workId = js ''a'', attemptId = js ''x'', workerId = js ''w'', fencingToken = 1\<rparr>"

definition example_m3 :: JobStateModel where
  "example_m3 = snd (job_reclaimExpiredLeases example_m2 40000)"

definition example_m4 :: JobStateModel where
  "example_m4 = snd (job_claimNext example_m3 (example_claim ''y'' 50000))"

lemma example_run_on:
  "reaches job_step example_m0 example_m3" "reaches job_step example_m3 example_m4"
proof -
  have "job_step example_m2 (Op_reclaimExpiredLeases 40000) example_m3"
    unfolding example_m3_def by (rule job_step.reclaim [OF prod.collapse [symmetric]])
  with example_run(4) show "reaches job_step example_m0 example_m3" by (rule reaches_step)
  have "job_step example_m3 (Op_claimNext (example_claim ''y'' 50000)) example_m4"
    unfolding example_m4_def by (rule job_step.claimNext [OF prod.collapse [symmetric]])
  then show "reaches job_step example_m3 example_m4" by (rule reaches_step [OF reaches_refl])
qed

theorem superseded_lease_refused_witness:
  "\<not> isl (fst (job_heartbeat example_m2 example_handle 3000))
   \<and> (\<exists>e. job_heartbeat example_m4 example_handle 51000 = (Inl e, example_m4))
   \<and> map job_state (map_values (jm_jobs example_m4)) = [Job_RUNNING]"
proof (intro conjI)
  have "lease_lost example_m3 example_handle" by code_simp
  from superseded_lease_refused [OF example_run(1) example_run_on(1) this example_run_on(2)]
  show "\<exists>e. job_heartbeat example_m4 example_handle 51000 = (Inl e, example_m4)" by blast
  show "\<not> isl (fst (job_heartbeat example_m2 example_handle 3000))" by code_simp
  show "map job_state (map_values (jm_jobs example_m4)) = [Job_RUNNING]" by code_simp
qed

subsection \<open>Claiming\<close>

text \<open>
  Claim C21. What \<open>claimNext\<close> returns. Without a claimable job (queued or waiting for a retry, and
  available) it returns null and changes nothing; otherwise the job it hands out was claimable and
  first in the order of priority, availability, creation and id among all claimable jobs, it is
  now running under a new lease with the job's next fencing token, and no other job changed.
\<close>

theorem claimNext_hands_out_first:
  assumes "job_init m0" and "reaches job_step m0 m" and call: "job_claimNext m c = (Inr r, m')"
  shows "case r of
      None \<Rightarrow> m' = m \<and> (\<forall>k j. map_of (jm_jobs m) k = Some j \<longrightarrow> \<not> job_claimable (cl_databaseNow c) j)
    | Some x \<Rightarrow> \<exists>j. map_of (jm_jobs m) (workId (claimed_lease x)) = Some j \<and> job_claimable (cl_databaseNow c) j
        \<and> (\<forall>k j2. map_of (jm_jobs m) k = Some j2 \<and> job_claimable (cl_databaseNow c) j2 \<longrightarrow> compareJobs j j2 \<le> 0)
        \<and> fencingToken (claimed_lease x) = job_nextFencingToken j
        \<and> job_state (claimed_job x) = Job_RUNNING \<and> job_nextFencingToken (claimed_job x) = job_nextFencingToken j + 1
        \<and> map_of (jm_jobs m') = (map_of (jm_jobs m))(w_id j \<mapsto> claimed_job x)"
proof -
  have inv: "job_inv m" by (rule job_machine.inv_reachable [OF assms(1,2)])
  have stored: "j \<in> set (map_values (jm_jobs m))" if "map_of (jm_jobs m) k = Some j" for k j
    using that by (force dest: map_of_SomeD)
  from call show ?thesis
  proof (cases rule: job_claimNext_cases)
    case unchanged
    then have "r = None" by (cases r) auto
    moreover have "js_sort compareJobs (filter (job_claimable (cl_databaseNow c)) (map_values (jm_jobs m))) = []"
      using call \<open>r = None\<close> by (auto simp: job_claimNext_def Let_def outcome_simps split: if_splits list.splits)
    ultimately show ?thesis
      using unchanged stored by (auto simp: filter_empty_conv)
  next
    case (claimed j e rest)
    note j = claim_candidate [OF inv claimed(1)]
    have least: "compareJobs j j2 \<le> 0" if "map_of (jm_jobs m) k = Some j2" "job_claimable (cl_databaseNow c) j2" for k j2
      using jobs_order.hd_sort_least [OF claimed(1)] stored that by auto
    from claimed(8) show ?thesis
      using j least by (auto simp: claimed(7) leaseHandle_def fun_eq_iff)
  qed
qed

theorem claimNext_hands_out_first_witness:
  "\<exists>x m'. job_claimNext example_m1 (example_claim ''x'' 2000) = (Inr (Some x), m')
     \<and> fencingToken (claimed_lease x) = 1 \<and> job_nextFencingToken (claimed_job x) = 2"
proof -
  obtain r m' where call: "job_claimNext example_m1 (example_claim ''x'' 2000) = (r, m')" by fastforce
  have "case fst (job_claimNext example_m1 (example_claim ''x'' 2000)) of Inr (Some x) \<Rightarrow> workId (claimed_lease x) = js ''a'' | _ \<Rightarrow> False"
    by code_simp
  with call obtain x where x: "r = Inr (Some x)" "workId (claimed_lease x) = js ''a''"
    by (auto split: sum.splits option.splits)
  have "job_nextFencingToken (new_job_record (example_enqueue ''a'' 1000) 1000) = 1" by simp
  with claimNext_hands_out_first [OF example_run(1,2) call [unfolded x(1)]] x call show ?thesis
    by (auto simp: example_m1_job)
qed

subsection \<open>Idempotent enqueueing\<close>

lemma jobIdempotencyScope_inject [simp]:
  "jobIdempotencyScope p t k = jobIdempotencyScope p' t' k' \<longleftrightarrow> p = p' \<and> t = t' \<and> k = k'"
  by (simp add: jobIdempotencyScope_def)

text \<open>
  Claim C27. Enqueueing is idempotent for good: once a job is stored for a project, job type and
  idempotency key, any later enqueue with the same three strings changes nothing; it returns that job if the input
  digest is the same and throws \<open>IDEMPOTENCY_CONFLICT\<close> if it is not, and no other job ever has the
  same three strings.
\<close>

theorem enqueue_idempotent:
  assumes "job_init m0" and "reaches job_step m0 m" and j: "map_of (jm_jobs m) k = Some j"
    and run: "reaches job_step m m'" and i: "validateEnqueue i = Inr ()"
    and key: "in_projectId i = job_projectId j" "in_jobType i = job_jobType j"
      "in_idempotencyKey i = job_idempotencyKey j"
  shows "\<exists>j'. map_of (jm_jobs m') k = Some j' \<and> job_inputDigest j' = job_inputDigest j
    \<and> job_enqueue m' i = (if in_inputDigest i = job_inputDigest j then Inr j' else Inl IDEMPOTENCY_CONFLICT, m')
    \<and> (\<forall>k2 j2. map_of (jm_jobs m') k2 = Some j2 \<and> job_projectId j2 = job_projectId j
          \<and> job_jobType j2 = job_jobType j \<and> job_idempotencyKey j2 = job_idempotencyKey j \<longrightarrow> k2 = k)"
proof -
  have inv: "job_inv m" by (rule job_machine.inv_reachable [OF assms(1,2)])
  have inv': "job_inv m'" by (rule job_machine.inv_from [OF run inv])
  from job_run.rel_run [OF run inv] j obtain j' where j': "map_of (jm_jobs m') k = Some j'" "job_forward j j'"
    unfolding job_progress_def by blast
  then have same: "job_scope j' = job_scope j" "job_inputDigest j' = job_inputDigest j"
    using job_identity_scope [of j' j] by (auto simp: job_forward_def)
  have index: "map_of (jm_idempotencyIndex m') (job_scope x) = Some q" if "map_of (jm_jobs m') q = Some x" for x q
    using job_invD [OF inv' that] by (simp add: job_good_def)
  have idx: "map_of (jm_idempotencyIndex m')
      (jobIdempotencyScope (in_projectId i) (in_jobType i) (in_idempotencyKey i)) = Some k"
    using index [OF j'(1)] same(1) key by (simp add: job_scope_def)
  have call: "job_enqueue m' i = (if in_inputDigest i = job_inputDigest j then Inr j' else Inl IDEMPOTENCY_CONFLICT, m')"
    by (simp add: job_enqueue_def requiredJob_def i idx j'(1) same(2))
  have "k2 = k" if "map_of (jm_jobs m') k2 = Some j2" "job_projectId j2 = job_projectId j"
    "job_jobType j2 = job_jobType j" "job_idempotencyKey j2 = job_idempotencyKey j" for k2 j2
    using index [OF that(1)] index [OF j'(1)] same(1) that(2-) by (simp add: job_scope_def)
  with call j'(1) same(2) show ?thesis by blast
qed

theorem enqueue_idempotent_witness:
  "\<exists>j'. map_of (jm_jobs example_m2) (js ''a'') = Some j'
     \<and> job_enqueue example_m2 (example_enqueue ''a'' 1000) = (Inr j', example_m2)"
proof -
  have v: "validateEnqueue (example_enqueue ''a'' 1000) = Inr ()" by code_simp
  let ?i = "example_enqueue ''a'' 1000"
  have key: "in_projectId ?i = job_projectId (new_job_record ?i 1000)" "in_jobType ?i = job_jobType (new_job_record ?i 1000)"
    "in_idempotencyKey ?i = job_idempotencyKey (new_job_record ?i 1000)"
    "in_inputDigest ?i = job_inputDigest (new_job_record ?i 1000)"
    by (simp_all add: new_job_record_def)
  show ?thesis
    using enqueue_idempotent [OF example_run(1,2) example_m1_job example_run(3) v key(1-3)]
    unfolding if_P [OF key(4)] by blast
qed

subsection \<open>Failures and expired leases\<close>

lemma job_fail_runs:
  assumes inv: "job_inv m" and v: "validateFailure f = Inr ()" and j: "map_of (jm_jobs m) (workId h) = Some j"
    and l: "assertValidLease j h now JOB = Inr l"
  obtains a where "job_fail m h f now = job_finishFailure m j a f now WORKER (workerId l) Att_RETRY_SCHEDULED"
    "lease j = Some l"
proof -
  have lj: "lease j = Some l" using l by (simp add: assertValidLease_iff)
  obtain a where a: "job_state j = Job_RUNNING" "map_of (jm_attempts m) (attemptId l) = Some a"
    by (rule running_attempt [OF inv j lj])
  have "job_fail m h f now = job_finishFailure m j a f now WORKER (workerId l) Att_RETRY_SCHEDULED"
    by (simp add: job_fail_def with_job_lease_def requiredJob_def requiredJobAttempt_def v j l a)
  with lj show ?thesis by (rule that [rotated])
qed

text \<open>
  What \<open>fail\<close> does for a worker that holds the lease, when the retry time stays in the
  safe-integer range: a retryable failure with attempts left in the cycle puts the job in
  \<open>RETRY_WAIT\<close>, available after a delay that doubles with every attempt between the initial and
  the maximum backoff; any other failure makes it a dead letter. The lease is gone and exactly one
  audit record is appended.
\<close>

theorem fail_schedules_or_buries:
  assumes "job_init m0" and "reaches job_step m0 m" and v: "validateFailure f = Inr ()"
    and j: "map_of (jm_jobs m) (workId h) = Some j" and l: "assertValidLease j h now JOB = Inr l"
    and safe: "isSafeInteger (now + maximumBackoffMs (jm_policy m))"
  shows "\<exists>t m'. job_fail m h f now = (Inr t, m') \<and> map_of (jm_jobs m') = (map_of (jm_jobs m))(workId h \<mapsto> t)
    \<and> lease t = None \<and> job_lastFailure t = Some f \<and> length (jm_audit m') = length (jm_audit m) + 1
    \<and> (if fc_retryable f \<and> job_attemptsInCycle j < maximumAttemptsPerCycle (jm_policy m)
       then job_state t = Job_RETRY_WAIT
         \<and> (\<exists>d. job_availableAt t = now + d \<and> initialBackoffMs (jm_policy m) \<le> d \<and> d \<le> maximumBackoffMs (jm_policy m)
              \<and> (d = maximumBackoffMs (jm_policy m)
                 \<or> d = initialBackoffMs (jm_policy m) * 2 ^ nat (min (job_attemptsInCycle j - 1) 52)))
       else job_state t = Job_DEAD_LETTER)"
proof -
  let ?p = "jm_policy m"
  have inv: "job_inv m" by (rule job_machine.inv_reachable [OF assms(1,2)])
  obtain a where call: "job_fail m h f now = job_finishFailure m j a f now WORKER (workerId l) Att_RETRY_SCHEDULED"
    and lj: "lease j = Some l" by (rule job_fail_runs [OF inv v j l])
  have id: "w_id j = workId h" by (rule job_invD(1) [OF inv j])
  obtain d where d: "retryBackoffMs (job_attemptsInCycle j) ?p = Inr d"
    using running_backoff [OF inv j lj] by blast
  have p: "assertRetryPolicy ?p = Inr ()" using inv by (simp add: job_inv_def)
  note range = retryBackoffMs_range [OF p d]
  have "d = min (maximumBackoffMs ?p) (initialBackoffMs ?p * 2 ^ nat (min (job_attemptsInCycle j - 1) 52))"
    using d by (auto simp: retryBackoffMs_def)
  then have dd: "d = maximumBackoffMs ?p \<or> d = initialBackoffMs ?p * 2 ^ nat (min (job_attemptsInCycle j - 1) 52)"
    by (auto simp: min_def split: if_splits)
  have "isSafeInteger now" "0 \<le> now" using l by (auto simp: assertValidLease_iff)
  with range safe have add: "addDatabaseDuration now d = Inr (now + d)" by (auto simp: isSafeInteger_def)
  show ?thesis
  proof (cases "fc_retryable f \<and> job_attemptsInCycle j < maximumAttemptsPerCycle ?p")
    case True
    then show ?thesis
      unfolding call job_finishFailure_def Let_def if_P [OF True]
      using range(1,2) dd by (auto simp: d add id job_appendAudit_def failed_job_def)
  next
    case False
    then show ?thesis
      unfolding call job_finishFailure_def Let_def if_not_P [OF False]
      by (auto simp: id job_appendAudit_def failed_job_def)
  qed
qed

definition example_failure :: FailureCause where
  "example_failure = \<lparr>fc_code = js ''E'', fc_category = DEPENDENCY, fc_retryable = True, fc_fingerprint = js ''f''\<rparr>"

definition example_running :: JobRecord where
  "example_running = job_claimed (new_job_record (example_enqueue ''a'' 1000) 1000)
     (job_new_lease (new_job_record (example_enqueue ''a'' 1000) 1000) (example_claim ''x'' 2000) 32000) 2000"

definition example_lease :: ActiveLease where
  "example_lease = job_new_lease (new_job_record (example_enqueue ''a'' 1000) 1000) (example_claim ''x'' 2000) 32000"

lemma example_m2_job:
  "map_of (jm_jobs example_m2) (workId example_handle) = Some example_running"
  "assertValidLease example_running example_handle 3000 JOB = Inr example_lease"
  "validateFailure example_failure = Inr ()"
  by code_simp+

theorem fail_schedules_or_buries_witness:
  "\<exists>t m'. job_fail example_m2 example_handle example_failure 3000 = (Inr t, m') \<and> job_state t = Job_RETRY_WAIT"
proof -
  have "isSafeInteger (3000 + maximumBackoffMs (jm_policy example_m2))" by code_simp
  moreover have "fc_retryable example_failure \<and>
    job_attemptsInCycle example_running < maximumAttemptsPerCycle (jm_policy example_m2)" by code_simp
  ultimately show ?thesis
    using fail_schedules_or_buries [OF example_run(1,4) example_m2_job(3,1,2)] by (auto split: if_splits)
qed

text \<open>
  Claim C28. \<open>fail\<close> is not atomic at the end of the time range: when a failure that may be retried has
  a retry time, the present time plus the backoff of this attempt, that leaves the safe-integer range,
  it throws \<open>INVALID_ARGUMENT\<close>, yet the job has already lost its lease and is in
  \<open>RETRY_WAIT\<close> with its old availability time (so it can be claimed at once, without backoff), and
  no audit record says so.
\<close>

theorem fail_throws_half_way:
  assumes "job_init m0" and "reaches job_step m0 m" and v: "validateFailure f = Inr ()"
    and j: "map_of (jm_jobs m) (workId h) = Some j" and l: "assertValidLease j h now JOB = Inr l"
    and retry: "fc_retryable f" "job_attemptsInCycle j < maximumAttemptsPerCycle (jm_policy m)"
    and unsafe: "\<not> isSafeInteger (now + min (maximumBackoffMs (jm_policy m))
      (initialBackoffMs (jm_policy m) * 2 ^ nat (min (job_attemptsInCycle j - 1) 52)))"
  shows "\<exists>t m'. job_fail m h f now = (Inl INVALID_ARGUMENT, m') \<and> map_of (jm_jobs m') (workId h) = Some t
    \<and> job_state t = Job_RETRY_WAIT \<and> lease t = None \<and> job_availableAt t = job_availableAt j
    \<and> jm_audit m' = jm_audit m"
proof -
  let ?p = "jm_policy m"
  have inv: "job_inv m" by (rule job_machine.inv_reachable [OF assms(1,2)])
  obtain a where call: "job_fail m h f now = job_finishFailure m j a f now WORKER (workerId l) Att_RETRY_SCHEDULED"
    and lj: "lease j = Some l" by (rule job_fail_runs [OF inv v j l])
  have id: "w_id j = workId h" by (rule job_invD(1) [OF inv j])
  obtain d where d: "retryBackoffMs (job_attemptsInCycle j) ?p = Inr d"
    using running_backoff [OF inv j lj] by blast
  have p: "assertRetryPolicy ?p = Inr ()" using inv by (simp add: job_inv_def)
  note range = retryBackoffMs_range [OF p d]
  have now: "isSafeInteger now" "0 \<le> now" using l by (auto simp: assertValidLease_iff)
  have "\<not> isSafeInteger (now + d)" using unsafe d by (auto simp: retryBackoffMs_def)
  with now range have add: "addDatabaseDuration now d = Inl INVALID_ARGUMENT"
    by (simp add: addDatabaseDuration_def assertDatabaseTime_def)
  from retry have can: "fc_retryable f \<and> job_attemptsInCycle j < maximumAttemptsPerCycle ?p" by simp
  show ?thesis
    unfolding call job_finishFailure_def Let_def if_P [OF can]
    by (simp add: d add id failed_job_def)
qed

text \<open>At the end of the safe range: a job available and leased in its last minute.\<close>

definition example_late :: int where
  "example_late = 9007199254710991"

definition example_l2 :: JobStateModel where
  "example_l2 = snd (job_claimNext example_m1 (example_claim ''x'' example_late))"

definition example_late_lease :: ActiveLease where
  "example_late_lease = job_new_lease (new_job_record (example_enqueue ''a'' 1000) 1000)
     (example_claim ''x'' example_late) MAX_SAFE_INTEGER"

definition example_late_running :: JobRecord where
  "example_late_running = job_claimed (new_job_record (example_enqueue ''a'' 1000) 1000) example_late_lease example_late"

theorem fail_throws_half_way_witness:
  "\<exists>t m'. job_fail example_l2 example_handle example_failure (MAX_SAFE_INTEGER - 1) = (Inl INVALID_ARGUMENT, m')
     \<and> map_of (jm_jobs m') (js ''a'') = Some t \<and> job_state t = Job_RETRY_WAIT \<and> job_availableAt t = 1000"
proof -
  have "job_step example_m1 (Op_claimNext (example_claim ''x'' example_late)) example_l2"
    unfolding example_l2_def by (rule job_step.claimNext [OF prod.collapse [symmetric]])
  with example_run(2) have run: "reaches job_step example_m0 example_l2" by (rule reaches_step)
  have facts: "map_of (jm_jobs example_l2) (workId example_handle) = Some example_late_running"
    "assertValidLease example_late_running example_handle (MAX_SAFE_INTEGER - 1) JOB = Inr example_late_lease"
    "fc_retryable example_failure"
    "job_attemptsInCycle example_late_running < maximumAttemptsPerCycle (jm_policy example_l2)"
    "\<not> isSafeInteger ((MAX_SAFE_INTEGER - 1) + min (maximumBackoffMs (jm_policy example_l2))
      (initialBackoffMs (jm_policy example_l2) * 2 ^ nat (min (job_attemptsInCycle example_late_running - 1) 52)))"
    "job_availableAt example_late_running = 1000" "workId example_handle = js ''a''"
    by code_simp+
  show ?thesis
    using fail_throws_half_way [OF example_run(1) run example_m2_job(3) facts(1-5)] facts(6,7) by auto
qed

text \<open>A round with time to spare ends the lease it finds expired and never throws.\<close>

definition lease_live :: "int \<Rightarrow> JobRecord \<Rightarrow> bool" where
  "lease_live now j \<longleftrightarrow> (case lease j of None \<Rightarrow> True | Some l \<Rightarrow> now < expiresAt l)"

lemma job_finishFailure_policy: "jm_policy (snd (job_finishFailure m j a f now act who out)) = jm_policy m"
  by (simp add: job_finishFailure_def Let_def attempt_def split: sum.split)

lemma job_reclaimOne_live: "lease_live now j \<Longrightarrow> job_reclaimOne m j now = (Inr None, m)"
  by (auto simp: lease_live_def job_reclaimOne_def split: option.splits)

lemma job_reclaimOne_expired:
  assumes inv: "job_inv m" and j: "map_of (jm_jobs m) (w_id j) = Some j"
    and now: "0 \<le> now" and safe: "isSafeInteger (now + maximumBackoffMs (jm_policy m))"
    and expired: "\<not> lease_live now j"
  obtains t m' where "job_reclaimOne m j now = (Inr (Some t), m')" "jm_policy m' = jm_policy m"
    "map_of (jm_jobs m') (w_id j) = Some t" "lease t = None"
proof -
  obtain l where l: "lease j = Some l" "expiresAt l \<le> now"
    using expired by (auto simp: lease_live_def split: option.splits)
  obtain a where a: "job_state j = Job_RUNNING" "map_of (jm_attempts m) (attemptId l) = Some a"
    "lastObservedDatabaseAt j < expiresAt l" by (rule running_attempt [OF inv j l(1)])
  have p: "assertRetryPolicy (jm_policy m) = Inr ()" using inv by (simp add: job_inv_def)
  have max: "0 < maximumBackoffMs (jm_policy m)" using p by (simp add: assertRetryPolicy_iff)
  have time: "observeDatabaseTime j now = Inr ()"
    using l(2) a(3) now safe max by (auto simp: isSafeInteger_def)
  let ?m = "job_appendAudit m j ''JOB_LEASE_EXPIRED'' SYSTEM (js ''lease-reaper'') (Some (att_id a)) now
    [(js ''workerId'', workerId l)]"
  obtain rf mf where ff: "job_finishFailure ?m j a job_leaseExpiredFailure now SYSTEM (js ''lease-reaper'')
      Att_LEASE_EXPIRED = (rf, mf)" by fastforce
  obtain d where d: "retryBackoffMs (job_attemptsInCycle j) (jm_policy ?m) = Inr d"
    using running_backoff [OF inv j l(1)] by auto
  then have d': "retryBackoffMs (job_attemptsInCycle j) (jm_policy m) = Inr d" by simp
  note range = retryBackoffMs_range [OF p d']
  from d ff obtain t where t: "rf = Inr t" "map_of (jm_jobs mf) (w_id j) = Some t" "lease t = None"
    by (cases rule: job_finishFailure_cases) (use range now safe max in \<open>auto simp: isSafeInteger_def\<close>)
  have "jm_policy mf = jm_policy m"
    using job_finishFailure_policy [of ?m j a job_leaseExpiredFailure now SYSTEM "js ''lease-reaper''"
        Att_LEASE_EXPIRED] ff by simp
  moreover have "job_reclaimOne m j now = (Inr (Some t), mf)"
    using l(2) by (simp add: job_reclaimOne_def l(1) a(1,2) time requiredJobAttempt_def Let_def ff t(1))
  ultimately show ?thesis using t by (intro that)
qed

lemma job_reclaimLoop_ok:
  assumes "loop_ready m todo" and "0 \<le> now" and "isSafeInteger (now + maximumBackoffMs (jm_policy m))"
  shows "\<exists>rs m'. job_reclaimLoop m todo now = (Inr rs, m')
    \<and> (\<forall>k. k \<notin> w_id ` set todo \<longrightarrow> map_of (jm_jobs m') k = map_of (jm_jobs m) k)
    \<and> (\<forall>j\<in>set todo. \<exists>t. map_of (jm_jobs m') (w_id j) = Some t \<and> lease_live now t \<and> (lease_live now j \<longrightarrow> t = j))"
  using assms
proof (induction m todo now rule: job_reclaimLoop.induct)
  case (1 m now)
  then show ?case by simp
next
  case (2 m j rest now)
  have inv: "job_inv m" and j: "map_of (jm_jobs m) (w_id j) = Some j"
    and fresh: "w_id j \<notin> w_id ` set rest"
    using "2.prems"(1) by (auto simp: loop_ready_def)
  obtain x m1 where one: "job_reclaimOne m j now = (Inr x, m1)" "jm_policy m1 = jm_policy m"
    and t: "\<exists>t. map_of (jm_jobs m1) (w_id j) = Some t \<and> lease_live now t \<and> (lease_live now j \<longrightarrow> t = j)"
  proof (cases "lease_live now j")
    case True
    with j show ?thesis by (intro that [of None m]) (auto simp: job_reclaimOne_live)
  next
    case False
    obtain t m1 where "job_reclaimOne m j now = (Inr (Some t), m1)" "jm_policy m1 = jm_policy m"
      "map_of (jm_jobs m1) (w_id j) = Some t" "lease t = None"
      by (rule job_reclaimOne_expired [OF inv j "2.prems"(2,3) False])
    with False show ?thesis by (intro that [of "Some t" m1]) (auto simp: lease_live_def)
  qed
  have ready: "loop_ready m1 rest" by (rule loop_ready_Cons [OF "2.prems"(1) one(1)])
  have other: "map_of (jm_jobs m1) k = map_of (jm_jobs m) k" if "k \<noteq> w_id j" for k
    using job_reclaimOne_inv(2) [OF inv j one(1)] that by blast
  obtain rs m' where rest: "job_reclaimLoop m1 rest now = (Inr rs, m')"
    and keep: "\<And>k. k \<notin> w_id ` set rest \<Longrightarrow> map_of (jm_jobs m') k = map_of (jm_jobs m1) k"
    and ends: "\<And>i. i \<in> set rest \<Longrightarrow> \<exists>t. map_of (jm_jobs m') (w_id i) = Some t \<and> lease_live now t \<and> (lease_live now i \<longrightarrow> t = i)"
    using "2.IH" [OF one(1) [symmetric] refl ready "2.prems"(2)] "2.prems"(3) one(2) by auto
  have "map_of (jm_jobs m') (w_id j) = map_of (jm_jobs m1) (w_id j)" by (rule keep [OF fresh])
  with one(1) rest keep ends other t show ?case by (auto split: option.split)
qed

text \<open>
  Claim C22. The reaper: called at a time that leaves room for the longest backoff,
  \<open>reclaimExpiredLeases\<close> returns; afterwards no job holds a lease that has expired by then, and
  every job that held no expired lease is as it was.
\<close>

theorem reclaim_ends_expired_leases:
  assumes "job_init m0" and "reaches job_step m0 m"
    and "0 \<le> now" and "isSafeInteger (now + maximumBackoffMs (jm_policy m))"
  shows "\<exists>rs m'. job_reclaimExpiredLeases m now = (Inr rs, m')
    \<and> (\<forall>k j. map_of (jm_jobs m') k = Some j \<longrightarrow> lease_live now j)
    \<and> (\<forall>k j. map_of (jm_jobs m) k = Some j \<and> lease_live now j \<longrightarrow> map_of (jm_jobs m') k = Some j)"
proof -
  have inv: "job_inv m" by (rule job_machine.inv_reachable [OF assms(1,2)])
  let ?todo = "js_sort compareJobs (map_values (jm_jobs m))"
  have "0 < maximumBackoffMs (jm_policy m)" using inv by (simp add: job_inv_def assertRetryPolicy_iff)
  with assms(3,4) have time: "assertDatabaseTime now = Inr ()" by (auto simp: isSafeInteger_def)
  obtain rs m' where run: "job_reclaimLoop m ?todo now = (Inr rs, m')"
    and keep: "\<And>k. k \<notin> w_id ` set ?todo \<Longrightarrow> map_of (jm_jobs m') k = map_of (jm_jobs m) k"
    and ends: "\<And>j. j \<in> set ?todo \<Longrightarrow> \<exists>t. map_of (jm_jobs m') (w_id j) = Some t \<and> lease_live now t \<and> (lease_live now j \<longrightarrow> t = j)"
    using job_reclaimLoop_ok [OF loop_ready_sorted [OF inv] assms(3,4)] by blast
  have todo: "\<exists>j\<in>set ?todo. w_id j = k \<and> map_of (jm_jobs m) k = Some j" if "map_of (jm_jobs m) k \<noteq> None" for k
  proof -
    from that obtain j where j: "map_of (jm_jobs m) k = Some j" by blast
    then have "j \<in> set ?todo" by (force dest: map_of_SomeD)
    with j job_invD(1) [OF inv j] show ?thesis by blast
  qed
  have "lease_live now t" if t: "map_of (jm_jobs m') k = Some t" for k t
  proof -
    have "k \<in> w_id ` set ?todo" using keep [of k] todo [of k] t by (metis image_eqI option.discI)
    with ends t show ?thesis by fastforce
  qed
  moreover have "map_of (jm_jobs m') k = Some j" if "map_of (jm_jobs m) k = Some j" "lease_live now j" for k j
    using todo [of k] ends [of j] that by force
  ultimately show ?thesis
    using run by (auto simp: job_reclaimExpiredLeases_def time simp del: assertDatabaseTime_iff)
qed

theorem reclaim_ends_expired_leases_witness:
  "\<exists>rs m'. job_reclaimExpiredLeases example_m2 40000 = (Inr rs, m')
     \<and> (\<forall>k j. map_of (jm_jobs m') k = Some j \<longrightarrow> lease_live 40000 j) \<and> \<not> lease_live 40000 example_running"
proof -
  have "isSafeInteger (40000 + maximumBackoffMs (jm_policy example_m2))" by code_simp
  moreover have "\<not> lease_live 40000 example_running" by code_simp
  ultimately show ?thesis using reclaim_ends_expired_leases [OF example_run(1,4), of 40000] by auto
qed

end
