(* ===== verification/Outbox.thy ===== *)
theory Outbox
  imports DurableWork
begin

text \<open>
  The transactional outbox (\<open>tools/job-outbox/outbox.ts\<close>): a business transaction commits a batch
  of events; each event is delivered to its destination under a lease, in the order of its stream
  (project, destination, object), with retries, dead letters and manual replay.

  \<open>OutboxStateModel\<close> is the class; its methods are functions from the model to the outcome and the
  model after the call, also when they throw half way. \<open>changeSetSequence\<close> is a \<open>bigint\<close> and
  \<open>eventOrdinal\<close> a number: both are \<open>int\<close> here.
\<close>

datatype OutboxState =
    Ob_PENDING | Ob_LEASED | Ob_DELIVERING | Ob_RETRY_WAIT | Ob_DELIVERED | Ob_DEAD_LETTER

datatype ConsumerDisposition = APPLIED | ALREADY_APPLIED

datatype ActionDeliveryStatus = NOT_APPLICABLE | Ads_PENDING | PARTIAL | COMPLETE | Ads_DEAD_LETTER

record OutboxEvent = LeaseProtectedRecord +
  ev_projectId :: jsstring
  ev_businessTransactionId :: jsstring
  ev_actionExecutionId :: jsstring
  ev_changeSetId :: jsstring
  ev_changeSetSequence :: int
  ev_eventOrdinal :: int
  ev_objectRid :: jsstring
  ev_destinationId :: jsstring
  ev_eventType :: jsstring
  ev_payloadSchemaVersion :: jsstring
  ev_payloadDigest :: jsstring
  ev_actorId :: jsstring
  ev_correlationId :: jsstring
  ev_state :: OutboxState
  ev_committedAt :: int
  ev_availableAt :: int
  ev_nextFencingToken :: int
  ev_replayCycle :: int
  ev_replayCount :: int
  ev_attemptsInCycle :: int
  ev_totalAttempts :: int
  ev_firstFailure :: "FailureCause option"
  ev_lastFailure :: "FailureCause option"
  ev_deliveredAt :: "int option"
  ev_consumerDisposition :: "ConsumerDisposition option"

record NewOutboxEvent =
  ne_id :: jsstring
  ne_actionExecutionId :: jsstring
  ne_changeSetId :: jsstring
  ne_changeSetSequence :: int
  ne_eventOrdinal :: int
  ne_objectRid :: jsstring
  ne_destinationId :: jsstring
  ne_eventType :: jsstring
  ne_payloadSchemaVersion :: jsstring
  ne_payloadDigest :: jsstring
  ne_actorId :: jsstring

record CommitBusinessTransactionInput =
  ct_businessTransactionId :: jsstring
  ct_transactionDigest :: jsstring
  ct_projectId :: jsstring
  ct_correlationId :: jsstring
  ct_databaseNow :: int
  ct_events :: "NewOutboxEvent list"

datatype DeliveryObservation = NOT_SENT | SENT_NO_ACK | ACKNOWLEDGED

record OutboxDeliveryAttempt = WorkAttempt +
  deliveryStartedAt :: "int option"
  acknowledgedAt :: "int option"
  acknowledgedEventId :: "jsstring option"
  att_consumerId :: "jsstring option"
  att_consumerDisposition :: "ConsumerDisposition option"
  deliveryObservation :: DeliveryObservation

record OutboxClaimInput =
  oc_workerId :: jsstring
  oc_attemptId :: jsstring
  oc_databaseNow :: int
  oc_destinationId :: "jsstring option"

record ClaimedOutboxEvent =
  claimed_event :: OutboxEvent
  claimed_event_lease :: LeaseHandle

record ConsumerAcknowledgement =
  ack_eventId :: jsstring
  ack_consumerId :: jsstring
  ack_disposition :: ConsumerDisposition

record OutboxHealth =
  h_pending :: nat
  h_leased :: nat
  h_delivering :: nat
  h_retryWait :: nat
  h_deadLetter :: nat
  h_oldestUndeliveredLagMs :: int
  h_blockedStreams :: nat
  h_retryAttempts :: nat

record BusinessTransactionRecord =
  bt_id :: jsstring
  bt_transactionDigest :: jsstring
  bt_eventDefinitionSignature :: jsstring
  bt_eventIds :: "jsstring list"
  bt_committedAt :: int

record OutboxStateModel =
  om_policy :: RetryPolicy
  om_events :: "(jsstring, OutboxEvent) jsmap"
  om_attempts :: "(jsstring, OutboxDeliveryAttempt) jsmap"
  om_transactions :: "(jsstring, BusinessTransactionRecord) jsmap"
  om_streamPositions :: "(jsstring, jsstring) jsmap"
  om_audit :: "AuditRecord list"

type_synonym 'a ob_outcome = "(DurableWorkErrorCode, 'a, OutboxStateModel) outcome"

subsection \<open>Streams and order\<close>

definition stream_key_of :: "jsstring \<Rightarrow> jsstring \<Rightarrow> jsstring \<Rightarrow> jsstring" where
  "stream_key_of projectId destinationId objectRid = js_stringify_list [projectId, destinationId, objectRid]"

definition streamKey :: "OutboxEvent \<Rightarrow> jsstring" where
  "streamKey e = stream_key_of (ev_projectId e) (ev_destinationId e) (ev_objectRid e)"

text \<open>\<open>JSON.stringify\<close> of four strings and a number, which is printed without quotes.\<close>

definition streamPositionKey :: "jsstring \<Rightarrow> jsstring \<Rightarrow> jsstring \<Rightarrow> int \<Rightarrow> int \<Rightarrow> jsstring" where
  "streamPositionKey projectId destinationId objectRid changeSetSequence eventOrdinal =
     91 # js_join [44] (map js_quote [projectId, destinationId, objectRid, js_of_int changeSetSequence]
                        @ [js_of_int eventOrdinal]) @ [93]"

definition event_position :: "OutboxEvent \<Rightarrow> jsstring" where
  "event_position e = streamPositionKey (ev_projectId e) (ev_destinationId e) (ev_objectRid e)
     (ev_changeSetSequence e) (ev_eventOrdinal e)"

definition compareStreamPosition :: "OutboxEvent \<Rightarrow> OutboxEvent \<Rightarrow> int" where
  "compareStreamPosition left right =
     (if ev_changeSetSequence left < ev_changeSetSequence right then -1
      else if ev_changeSetSequence left > ev_changeSetSequence right then 1
      else or_else (compareNumber (ev_eventOrdinal left) (ev_eventOrdinal right))
             (compareText (w_id left) (w_id right)))"

definition compareEvents :: "OutboxEvent \<Rightarrow> OutboxEvent \<Rightarrow> int" where
  "compareEvents left right =
     or_else (compareNumber (ev_availableAt left) (ev_availableAt right))
     (or_else (compareNumber (ev_committedAt left) (ev_committedAt right))
     (or_else (compareText (streamKey left) (streamKey right))
     (compareStreamPosition left right)))"

definition event_signature :: "NewOutboxEvent \<Rightarrow> jsstring" where
  "event_signature e = js_stringify_list [ne_id e, ne_actionExecutionId e, ne_changeSetId e,
     js_of_int (ne_changeSetSequence e), js_of_int (ne_eventOrdinal e), ne_objectRid e,
     ne_destinationId e, ne_eventType e, ne_payloadSchemaVersion e, ne_payloadDigest e, ne_actorId e]"

definition eventDefinitionSignature :: "NewOutboxEvent list \<Rightarrow> jsstring" where
  "eventDefinitionSignature es = js_stringify_list (js_sort compareText (map event_signature es))"

definition predecessors :: "OutboxStateModel \<Rightarrow> OutboxEvent \<Rightarrow> OutboxEvent list" where
  "predecessors m e = filter (\<lambda>c. streamKey c = streamKey e \<and> compareStreamPosition c e < 0)
     (map_values (om_events m))"

definition hasUndeliveredPredecessor :: "OutboxStateModel \<Rightarrow> OutboxEvent \<Rightarrow> bool" where
  "hasUndeliveredPredecessor m e \<longleftrightarrow> list_ex (\<lambda>p. ev_state p \<noteq> Ob_DELIVERED) (predecessors m e)"

subsection \<open>Construction, lookups, validation\<close>

definition new_OutboxStateModel :: "RetryPolicy \<Rightarrow> OutboxStateModel work_result" where
  "new_OutboxStateModel p = rbind (assertRetryPolicy p) (\<lambda>_.
     Inr \<lparr>om_policy = p, om_events = [], om_attempts = [], om_transactions = [],
          om_streamPositions = [], om_audit = []\<rparr>)"

definition requiredEvent :: "OutboxStateModel \<Rightarrow> jsstring \<Rightarrow> OutboxEvent work_result" where
  "requiredEvent m k = (case map_of (om_events m) k of None \<Rightarrow> Inl NOT_FOUND | Some e \<Rightarrow> Inr e)"

definition requiredDelivery :: "OutboxStateModel \<Rightarrow> jsstring \<Rightarrow> OutboxDeliveryAttempt work_result" where
  "requiredDelivery m k = (case map_of (om_attempts m) k of None \<Rightarrow> Inl NOT_FOUND | Some a \<Rightarrow> Inr a)"

definition validateCommit :: "CommitBusinessTransactionInput \<Rightarrow> unit work_result" where
  "validateCommit i = rbind (requireAllNonEmpty [ct_businessTransactionId i, ct_transactionDigest i,
       ct_projectId i, ct_correlationId i]) (\<lambda>_. assertDatabaseTime (ct_databaseNow i))"

definition validateNewEvent :: "NewOutboxEvent \<Rightarrow> unit work_result" where
  "validateNewEvent e =
     rbind (requireAllNonEmpty [ne_id e, ne_actionExecutionId e, ne_changeSetId e, ne_objectRid e,
       ne_destinationId e, ne_eventType e, ne_payloadSchemaVersion e, ne_payloadDigest e, ne_actorId e]) (\<lambda>_.
     rbind (guard (0 \<le> ne_changeSetSequence e \<and> ne_changeSetSequence e \<le> MAX_POSTGRES_BIGINT) INVALID_ARGUMENT) (\<lambda>_.
     guard (isSafeInteger (ne_eventOrdinal e) \<and> 0 \<le> ne_eventOrdinal e) INVALID_ARGUMENT))"

definition validateAcknowledgement :: "ConsumerAcknowledgement \<Rightarrow> unit work_result" where
  "validateAcknowledgement a = requireAllNonEmpty [ack_eventId a, ack_consumerId a]"

definition ob_appendAudit ::
  "OutboxStateModel \<Rightarrow> OutboxEvent \<Rightarrow> string \<Rightarrow> ActorType \<Rightarrow> jsstring \<Rightarrow> jsstring option \<Rightarrow> int
     \<Rightarrow> (jsstring \<times> jsstring) list \<Rightarrow> OutboxStateModel" where
  "ob_appendAudit m e eventType actorType actorId activeAttempt databaseAt details =
     m\<lparr>om_audit := om_audit m @ [\<lparr>aud_sequence = int (length (om_audit m)) + 1,
        aud_eventType = js eventType, aud_workKind = OUTBOX, aud_workId = w_id e,
        aud_attemptId = activeAttempt, aud_actorType = actorType, aud_actorId = actorId,
        aud_correlationId = ev_correlationId e, aud_databaseAt = databaseAt,
        aud_details = details\<rparr>]\<rparr>"

definition put_event :: "OutboxStateModel \<Rightarrow> OutboxEvent \<Rightarrow> OutboxStateModel" where
  "put_event m e = m\<lparr>om_events := AList.update (w_id e) e (om_events m)\<rparr>"

definition put_delivery :: "OutboxStateModel \<Rightarrow> OutboxDeliveryAttempt \<Rightarrow> OutboxStateModel" where
  "put_delivery m a = m\<lparr>om_attempts := AList.update (att_id a) a (om_attempts m)\<rparr>"

definition js_bool :: "bool \<Rightarrow> jsstring" where
  "js_bool b = js (if b then ''true'' else ''false'')"

subsection \<open>Committing a business transaction\<close>

text \<open>
  The loop that checks a batch before anything is written: \<open>batchIds\<close> and \<open>batchPositions\<close> are the
  ids and the positions of the events before the current one.
\<close>

definition ob_late :: "OutboxStateModel \<Rightarrow> jsstring \<Rightarrow> NewOutboxEvent \<Rightarrow> bool" where
  "ob_late m projectId e \<longleftrightarrow>
     list_ex (\<lambda>x. streamKey x = stream_key_of projectId (ne_destinationId e) (ne_objectRid e)
       \<and> ne_changeSetSequence e \<le> ev_changeSetSequence x) (map_values (om_events m))"

definition new_position :: "jsstring \<Rightarrow> NewOutboxEvent \<Rightarrow> jsstring" where
  "new_position projectId e = streamPositionKey projectId (ne_destinationId e) (ne_objectRid e)
     (ne_changeSetSequence e) (ne_eventOrdinal e)"

fun ob_checkBatch ::
  "OutboxStateModel \<Rightarrow> jsstring \<Rightarrow> jsstring list \<Rightarrow> jsstring list \<Rightarrow> NewOutboxEvent list \<Rightarrow> unit work_result" where
  "ob_checkBatch m projectId batchIds batchPositions [] = Inr ()"
| "ob_checkBatch m projectId batchIds batchPositions (e # es) =
     rbind (validateNewEvent e) (\<lambda>_.
     rbind (guard (ne_id e \<notin> set batchIds \<and> map_of (om_events m) (ne_id e) = None) ALREADY_EXISTS) (\<lambda>_.
     let position = new_position projectId e in
     rbind (guard (position \<notin> set batchPositions \<and> map_of (om_streamPositions m) position = None)
       SEQUENCE_CONFLICT) (\<lambda>_.
     rbind (guard (\<not> ob_late m projectId e) SEQUENCE_CONFLICT) (\<lambda>_.
     ob_checkBatch m projectId (ne_id e # batchIds) (position # batchPositions) es))))"

definition new_event_record :: "CommitBusinessTransactionInput \<Rightarrow> NewOutboxEvent \<Rightarrow> OutboxEvent" where
  "new_event_record i e = \<lparr>w_id = ne_id e, stateChangedAt = ct_databaseNow i,
     lastObservedDatabaseAt = ct_databaseNow i, lease = None, ev_projectId = ct_projectId i,
     ev_businessTransactionId = ct_businessTransactionId i,
     ev_actionExecutionId = ne_actionExecutionId e, ev_changeSetId = ne_changeSetId e,
     ev_changeSetSequence = ne_changeSetSequence e, ev_eventOrdinal = ne_eventOrdinal e,
     ev_objectRid = ne_objectRid e, ev_destinationId = ne_destinationId e,
     ev_eventType = ne_eventType e, ev_payloadSchemaVersion = ne_payloadSchemaVersion e,
     ev_payloadDigest = ne_payloadDigest e, ev_actorId = ne_actorId e,
     ev_correlationId = ct_correlationId i, ev_state = Ob_PENDING, ev_committedAt = ct_databaseNow i,
     ev_availableAt = ct_databaseNow i, ev_nextFencingToken = 1, ev_replayCycle = 0,
     ev_replayCount = 0, ev_attemptsInCycle = 0, ev_totalAttempts = 0, ev_firstFailure = None,
     ev_lastFailure = None, ev_deliveredAt = None, ev_consumerDisposition = None\<rparr>"

definition ob_storeOne :: "int \<Rightarrow> OutboxStateModel \<Rightarrow> OutboxEvent \<Rightarrow> OutboxStateModel" where
  "ob_storeOne now m e =
     (let m1 = put_event m e;
          m2 = m1\<lparr>om_streamPositions := AList.update (event_position e) (w_id e) (om_streamPositions m1)\<rparr>
      in ob_appendAudit m2 e ''OUTBOX_EVENT_COMMITTED'' SYSTEM (js ''business-transaction'') None now
           [(js ''actionExecutionId'', ev_actionExecutionId e), (js ''changeSetId'', ev_changeSetId e)])"

definition ob_commit :: "OutboxStateModel \<Rightarrow> CommitBusinessTransactionInput \<Rightarrow> OutboxEvent list ob_outcome" where
  "ob_commit m i = attempt m (validateCommit i) (\<lambda>_.
     let signature = eventDefinitionSignature (ct_events i) in
     case map_of (om_transactions m) (ct_businessTransactionId i) of
       Some existing \<Rightarrow>
         if bt_transactionDigest existing \<noteq> ct_transactionDigest i
            \<or> bt_eventDefinitionSignature existing \<noteq> signature
         then (Inl IDEMPOTENCY_CONFLICT, m)
         else attempt m (mapM (requiredEvent m) (bt_eventIds existing)) (\<lambda>es. (Inr es, m))
     | None \<Rightarrow> attempt m (ob_checkBatch m (ct_projectId i) [] [] (ct_events i)) (\<lambda>_.
         let committed = map (new_event_record i) (ct_events i);
             transaction = \<lparr>bt_id = ct_businessTransactionId i,
               bt_transactionDigest = ct_transactionDigest i,
               bt_eventDefinitionSignature = signature, bt_eventIds = map w_id committed,
               bt_committedAt = ct_databaseNow i\<rparr>;
             m1 = foldl (ob_storeOne (ct_databaseNow i)) m committed
         in (Inr committed, m1\<lparr>om_transactions :=
               AList.update (bt_id transaction) transaction (om_transactions m1)\<rparr>)))"

subsection \<open>Claiming\<close>

definition ob_claimable :: "OutboxStateModel \<Rightarrow> OutboxClaimInput \<Rightarrow> OutboxEvent \<Rightarrow> bool" where
  "ob_claimable m i e \<longleftrightarrow>
     (ev_state e = Ob_PENDING \<or> ev_state e = Ob_RETRY_WAIT) \<and> ev_availableAt e \<le> oc_databaseNow i
     \<and> (case oc_destinationId i of None \<Rightarrow> True | Some d \<Rightarrow> ev_destinationId e = d)
     \<and> \<not> hasUndeliveredPredecessor m e"

definition validateObClaim :: "OutboxClaimInput \<Rightarrow> unit work_result" where
  "validateObClaim i = rbind (requireNonEmpty (oc_workerId i)) (\<lambda>_.
     rbind (requireNonEmpty (oc_attemptId i)) (\<lambda>_.
     rbind (assertDatabaseTime (oc_databaseNow i)) (\<lambda>_.
     case oc_destinationId i of None \<Rightarrow> Inr () | Some d \<Rightarrow> requireNonEmpty d)))"

definition ob_new_lease :: "OutboxEvent \<Rightarrow> OutboxClaimInput \<Rightarrow> int \<Rightarrow> ActiveLease" where
  "ob_new_lease candidate i expires = \<lparr>workKind = OUTBOX, workId = w_id candidate,
     attemptId = oc_attemptId i, workerId = oc_workerId i,
     fencingToken = ev_nextFencingToken candidate, acquiredAt = oc_databaseNow i,
     heartbeatAt = oc_databaseNow i, expiresAt = expires\<rparr>"

definition ob_new_attempt :: "OutboxEvent \<Rightarrow> OutboxClaimInput \<Rightarrow> OutboxDeliveryAttempt" where
  "ob_new_attempt candidate i = \<lparr>att_id = oc_attemptId i, att_workKind = OUTBOX,
     att_workId = w_id candidate, att_workerId = oc_workerId i,
     att_fencingToken = ev_nextFencingToken candidate,
     att_replayCycle = ev_replayCycle candidate,
     att_attemptInCycle = ev_attemptsInCycle candidate + 1,
     att_totalAttempt = ev_totalAttempts candidate + 1,
     att_startedAt = oc_databaseNow i, att_lastHeartbeatAt = oc_databaseNow i,
     att_finishedAt = None, att_outcome = Att_ACTIVE, att_failure = None,
     deliveryStartedAt = None, acknowledgedAt = None, acknowledgedEventId = None,
     att_consumerId = None, att_consumerDisposition = None, deliveryObservation = NOT_SENT\<rparr>"

definition ob_claimed :: "OutboxEvent \<Rightarrow> ActiveLease \<Rightarrow> int \<Rightarrow> OutboxEvent" where
  "ob_claimed candidate l now = candidate\<lparr>ev_state := Ob_LEASED, stateChangedAt := now,
     lastObservedDatabaseAt := now, lease := Some l,
     ev_nextFencingToken := ev_nextFencingToken candidate + 1,
     ev_attemptsInCycle := ev_attemptsInCycle candidate + 1,
     ev_totalAttempts := ev_totalAttempts candidate + 1\<rparr>"

definition ob_claimNext :: "OutboxStateModel \<Rightarrow> OutboxClaimInput \<Rightarrow> ClaimedOutboxEvent option ob_outcome" where
  "ob_claimNext m i = attempt m (validateObClaim i) (\<lambda>_.
     if map_of (om_attempts m) (oc_attemptId i) \<noteq> None then (Inl ALREADY_EXISTS, m)
     else case js_sort compareEvents (filter (ob_claimable m i) (map_values (om_events m))) of
       [] \<Rightarrow> (Inr None, m)
     | candidate # _ \<Rightarrow>
         attempt m (observeDatabaseTime candidate (oc_databaseNow i)) (\<lambda>_.
         attempt m (addDatabaseDuration (oc_databaseNow i) (leaseDurationMs (om_policy m))) (\<lambda>expires.
         let l = ob_new_lease candidate i expires;
             a = ob_new_attempt candidate i;
             candidate' = ob_claimed candidate l (oc_databaseNow i);
             m1 = put_delivery (put_event m candidate') a;
             m2 = ob_appendAudit m1 candidate' ''OUTBOX_EVENT_CLAIMED'' WORKER (oc_workerId i)
               (Some (att_id a)) (oc_databaseNow i)
               [(js ''fencingToken'', js_of_int (fencingToken l))]
         in (Inr (Some \<lparr>claimed_event = candidate', claimed_event_lease = leaseHandle l\<rparr>), m2))))"

subsection \<open>Delivering under a lease\<close>

definition in_flight :: "OutboxEvent \<Rightarrow> bool" where
  "in_flight e \<longleftrightarrow> ev_state e = Ob_LEASED \<or> ev_state e = Ob_DELIVERING"

text \<open>
  Every operation of a lease holder starts alike: the event must exist, be in the phase the
  operation asks for, and be leased to the caller's handle. Until then nothing is written.
\<close>

definition with_event_lease ::
  "OutboxStateModel \<Rightarrow> (OutboxEvent \<Rightarrow> bool) \<Rightarrow> LeaseHandle \<Rightarrow> int
     \<Rightarrow> (OutboxEvent \<Rightarrow> ActiveLease \<Rightarrow> 'a ob_outcome) \<Rightarrow> 'a ob_outcome" where
  "with_event_lease m phase h now k = attempt m (requiredEvent m (workId h)) (\<lambda>e.
     if \<not> phase e then (Inl INVALID_STATE, m)
     else attempt m (assertValidLease e h now OUTBOX) (\<lambda>l. k e l))"

definition ob_heartbeat :: "OutboxStateModel \<Rightarrow> LeaseHandle \<Rightarrow> int \<Rightarrow> LeaseHandle ob_outcome" where
  "ob_heartbeat m h now = with_event_lease m in_flight h now (\<lambda>e l.
     let l1 = l\<lparr>heartbeatAt := now\<rparr>; m1 = put_event m (e\<lparr>lease := Some l1\<rparr>) in
     attempt m1 (addDatabaseDuration now (leaseDurationMs (om_policy m))) (\<lambda>expires.
     let l2 = l1\<lparr>expiresAt := expires\<rparr>;
         e2 = e\<lparr>lease := Some l2, lastObservedDatabaseAt := now\<rparr>;
         m2 = put_event m1 e2 in
     attempt m2 (requiredDelivery m2 (attemptId l2)) (\<lambda>a.
     let m3 = put_delivery m2 (a\<lparr>att_lastHeartbeatAt := now\<rparr>);
         m4 = ob_appendAudit m3 e2 ''OUTBOX_HEARTBEAT'' WORKER (workerId l2) (Some (attemptId l2)) now
           [(js ''leaseExpiresAt'', js_of_int (expiresAt l2))]
     in (Inr (leaseHandle l2), m4))))"

definition started_event :: "OutboxEvent \<Rightarrow> int \<Rightarrow> OutboxEvent" where
  "started_event e now = e\<lparr>ev_state := Ob_DELIVERING, stateChangedAt := now, lastObservedDatabaseAt := now\<rparr>"

definition started_attempt :: "OutboxDeliveryAttempt \<Rightarrow> int \<Rightarrow> OutboxDeliveryAttempt" where
  "started_attempt a now = a\<lparr>deliveryStartedAt := Some now, deliveryObservation := SENT_NO_ACK\<rparr>"

definition ob_startDelivery :: "OutboxStateModel \<Rightarrow> LeaseHandle \<Rightarrow> int \<Rightarrow> OutboxEvent ob_outcome" where
  "ob_startDelivery m h now = with_event_lease m (\<lambda>e. ev_state e = Ob_LEASED) h now (\<lambda>e l.
     attempt m (requiredDelivery m (attemptId l)) (\<lambda>a.
     let e1 = started_event e now;
         m1 = put_delivery (put_event m e1) (started_attempt a now);
         m2 = ob_appendAudit m1 e1 ''OUTBOX_DELIVERY_STARTED'' WORKER (workerId l) (Some (att_id a)) now
           [(js ''destinationId'', ev_destinationId e), (js ''eventId'', w_id e)]
     in (Inr e1, m2)))"

definition acked_attempt ::
  "OutboxDeliveryAttempt \<Rightarrow> ConsumerAcknowledgement \<Rightarrow> int \<Rightarrow> OutboxDeliveryAttempt" where
  "acked_attempt a ack now = a\<lparr>att_finishedAt := Some now, att_outcome := Att_SUCCEEDED,
     acknowledgedAt := Some now, acknowledgedEventId := Some (ack_eventId ack),
     att_consumerId := Some (ack_consumerId ack),
     att_consumerDisposition := Some (ack_disposition ack), deliveryObservation := ACKNOWLEDGED\<rparr>"

definition delivered_event :: "OutboxEvent \<Rightarrow> ConsumerAcknowledgement \<Rightarrow> int \<Rightarrow> OutboxEvent" where
  "delivered_event e ack now = e\<lparr>ev_state := Ob_DELIVERED, stateChangedAt := now,
     lastObservedDatabaseAt := now, lease := None, ev_deliveredAt := Some now,
     ev_consumerDisposition := Some (ack_disposition ack)\<rparr>"

definition disposition_text :: "ConsumerDisposition \<Rightarrow> jsstring" where
  "disposition_text d = js (case d of APPLIED \<Rightarrow> ''APPLIED'' | ALREADY_APPLIED \<Rightarrow> ''ALREADY_APPLIED'')"

definition ob_acknowledge ::
  "OutboxStateModel \<Rightarrow> LeaseHandle \<Rightarrow> ConsumerAcknowledgement \<Rightarrow> int \<Rightarrow> OutboxEvent ob_outcome" where
  "ob_acknowledge m h ack now = attempt m (validateAcknowledgement ack) (\<lambda>_.
     with_event_lease m (\<lambda>e. ev_state e = Ob_DELIVERING) h now (\<lambda>e l.
     if ack_eventId ack \<noteq> w_id e then (Inl IDEMPOTENCY_CONFLICT, m)
     else if ack_consumerId ack \<noteq> ev_destinationId e then (Inl LEASE_MISMATCH, m)
     else attempt m (requiredDelivery m (attemptId l)) (\<lambda>a.
     let m1 = put_delivery m (acked_attempt a ack now);
         e1 = delivered_event e ack now;
         m2 = ob_appendAudit (put_event m1 e1) e1 ''OUTBOX_DELIVERY_ACKNOWLEDGED'' WORKER (workerId l)
           (Some (att_id a)) now
           [(js ''consumerDisposition'', disposition_text (ack_disposition ack)),
            (js ''consumerId'', ack_consumerId ack), (js ''eventId'', ack_eventId ack)]
     in (Inr e1, m2))))"

subsection \<open>Failures, expired leases, replay\<close>

definition failed_delivery ::
  "OutboxDeliveryAttempt \<Rightarrow> FailureCause \<Rightarrow> int \<Rightarrow> AttemptOutcome \<Rightarrow> OutboxDeliveryAttempt" where
  "failed_delivery a failure now attemptOutcome =
     a\<lparr>att_finishedAt := Some now, att_failure := Some failure, att_outcome := attemptOutcome\<rparr>"

definition failed_event :: "OutboxEvent \<Rightarrow> FailureCause \<Rightarrow> int \<Rightarrow> OutboxState \<Rightarrow> OutboxEvent" where
  "failed_event e failure now state =
     e\<lparr>ev_firstFailure := (case ev_firstFailure e of None \<Rightarrow> Some failure | Some f \<Rightarrow> Some f),
       ev_lastFailure := Some failure, lease := None, stateChangedAt := now,
       lastObservedDatabaseAt := now, ev_state := state\<rparr>"

definition ob_finishFailure ::
  "OutboxStateModel \<Rightarrow> OutboxEvent \<Rightarrow> OutboxDeliveryAttempt \<Rightarrow> FailureCause \<Rightarrow> int \<Rightarrow> ActorType
     \<Rightarrow> jsstring \<Rightarrow> AttemptOutcome \<Rightarrow> OutboxEvent ob_outcome" where
  "ob_finishFailure m e a failure now actorType actorId attemptOutcome =
     (let canRetry = fc_retryable failure \<and> ev_attemptsInCycle e < maximumAttemptsPerCycle (om_policy m);
          a1 = failed_delivery a failure now (if canRetry then attemptOutcome else Att_DEAD_LETTER);
          sent = js_bool (deliveryStartedAt a1 \<noteq> None)
      in if canRetry then
        let e1 = failed_event e failure now Ob_RETRY_WAIT;
            m1 = put_event (put_delivery m a1) e1 in
        attempt m1 (retryBackoffMs (ev_attemptsInCycle e1) (om_policy m)) (\<lambda>delay.
        attempt m1 (addDatabaseDuration now delay) (\<lambda>available.
        let e2 = e1\<lparr>ev_availableAt := available\<rparr>;
            m2 = ob_appendAudit (put_event m1 e2) e2 ''OUTBOX_RETRY_SCHEDULED'' actorType actorId
              (Some (att_id a1)) now
              [(js ''deliveryMayHaveOccurred'', sent), (js ''failureCode'', fc_code failure),
               (js ''availableAt'', js_of_int available)]
        in (Inr e2, m2)))
      else
        let e1 = failed_event e failure now Ob_DEAD_LETTER;
            m1 = ob_appendAudit (put_event (put_delivery m a1) e1) e1 ''OUTBOX_DEAD_LETTERED'' actorType actorId
              (Some (att_id a1)) now
              [(js ''deliveryMayHaveOccurred'', sent), (js ''failureCode'', fc_code failure),
               (js ''retryable'', js_bool (fc_retryable failure))]
        in (Inr e1, m1))"

definition ob_failDelivery :: "OutboxStateModel \<Rightarrow> LeaseHandle \<Rightarrow> FailureCause \<Rightarrow> int \<Rightarrow> OutboxEvent ob_outcome" where
  "ob_failDelivery m h failure now = attempt m (validateFailure failure) (\<lambda>_.
     with_event_lease m in_flight h now (\<lambda>e l.
     attempt m (requiredDelivery m (attemptId l)) (\<lambda>a.
     ob_finishFailure m e a failure now WORKER (workerId l) Att_RETRY_SCHEDULED)))"

definition ob_leaseExpiredFailure :: "bool \<Rightarrow> FailureCause" where
  "ob_leaseExpiredFailure wasSent = \<lparr>fc_code = js ''LEASE_EXPIRED'', fc_category = LEASE,
     fc_retryable = True,
     fc_fingerprint = js (if wasSent then ''outbox-lease-expired-after-send''
                          else ''outbox-lease-expired-before-send'')\<rparr>"

definition ob_reclaimOne :: "OutboxStateModel \<Rightarrow> OutboxEvent \<Rightarrow> int \<Rightarrow> OutboxEvent option ob_outcome" where
  "ob_reclaimOne m e now =
     (case lease e of
        None \<Rightarrow> (Inr None, m)
      | Some l \<Rightarrow>
          if \<not> in_flight e \<or> expiresAt l > now then (Inr None, m)
          else attempt m (observeDatabaseTime e now) (\<lambda>_.
          attempt m (requiredDelivery m (attemptId l)) (\<lambda>a.
          let wasSent = deliveryStartedAt a \<noteq> None;
              m1 = ob_appendAudit m e ''OUTBOX_LEASE_EXPIRED'' SYSTEM (js ''lease-reaper'')
                (Some (att_id a)) now
                [(js ''deliveryMayHaveOccurred'', js_bool wasSent), (js ''workerId'', workerId l)]
          in case ob_finishFailure m1 e a (ob_leaseExpiredFailure wasSent) now SYSTEM
               (js ''lease-reaper'') Att_LEASE_EXPIRED of
               (Inl err, m2) \<Rightarrow> (Inl err, m2)
             | (Inr e2, m2) \<Rightarrow> (Inr (Some e2), m2))))"

fun ob_reclaimLoop :: "OutboxStateModel \<Rightarrow> OutboxEvent list \<Rightarrow> int \<Rightarrow> OutboxEvent list ob_outcome" where
  "ob_reclaimLoop m [] now = (Inr [], m)"
| "ob_reclaimLoop m (e # rest) now =
     (case ob_reclaimOne m e now of
        (Inl err, m1) \<Rightarrow> (Inl err, m1)
      | (Inr r, m1) \<Rightarrow>
          (case ob_reclaimLoop m1 rest now of
             (Inl err, m2) \<Rightarrow> (Inl err, m2)
           | (Inr rs, m2) \<Rightarrow> (Inr (case r of None \<Rightarrow> rs | Some x \<Rightarrow> x # rs), m2)))"

definition ob_reclaimExpiredLeases :: "OutboxStateModel \<Rightarrow> int \<Rightarrow> OutboxEvent list ob_outcome" where
  "ob_reclaimExpiredLeases m now = attempt m (assertDatabaseTime now) (\<lambda>_.
     ob_reclaimLoop m (js_sort compareEvents (map_values (om_events m))) now)"

definition replayed_event :: "OutboxEvent \<Rightarrow> int \<Rightarrow> OutboxEvent" where
  "replayed_event e now = e\<lparr>ev_state := Ob_PENDING, ev_availableAt := now, stateChangedAt := now,
     lastObservedDatabaseAt := now, lease := None, ev_replayCycle := ev_replayCycle e + 1,
     ev_replayCount := ev_replayCount e + 1, ev_attemptsInCycle := 0\<rparr>"

definition ob_replayDeadLetter ::
  "OutboxStateModel \<Rightarrow> jsstring \<Rightarrow> jsstring \<Rightarrow> jsstring \<Rightarrow> int \<Rightarrow> OutboxEvent ob_outcome" where
  "ob_replayDeadLetter m eventId operatorId reasonCode now = attempt m (requireNonEmpty operatorId) (\<lambda>_.
     attempt m (requireAuditCode reasonCode) (\<lambda>_.
     attempt m (requiredEvent m eventId) (\<lambda>e.
     attempt m (observeDatabaseTime e now) (\<lambda>_.
     if ev_state e \<noteq> Ob_DEAD_LETTER then (Inl INVALID_STATE, m)
     else let e1 = replayed_event e now;
          m1 = ob_appendAudit (put_event m e1) e1 ''OUTBOX_MANUALLY_REPLAYED'' OPERATOR operatorId None now
            [(js ''reasonCode'', reasonCode), (js ''replayCycle'', js_of_int (ev_replayCycle e1))]
     in (Inr e1, m1)))))"

subsection \<open>Reports\<close>

definition actionDeliveryStatus :: "OutboxStateModel \<Rightarrow> jsstring \<Rightarrow> ActionDeliveryStatus" where
  "actionDeliveryStatus m actionExecutionId =
     (let events = filter (\<lambda>e. ev_actionExecutionId e = actionExecutionId) (map_values (om_events m));
          delivered = length (filter (\<lambda>e. ev_state e = Ob_DELIVERED) events)
      in if length events = 0 then NOT_APPLICABLE
         else if list_ex (\<lambda>e. ev_state e = Ob_DEAD_LETTER) events then Ads_DEAD_LETTER
         else if delivered = length events then COMPLETE
         else if 0 < delivered then PARTIAL
         else Ads_PENDING)"

definition count_state :: "OutboxStateModel \<Rightarrow> OutboxState \<Rightarrow> nat" where
  "count_state m s = length (filter (\<lambda>e. ev_state e = s) (map_values (om_events m)))"

definition outbox_health :: "OutboxStateModel \<Rightarrow> int \<Rightarrow> OutboxHealth work_result" where
  "outbox_health m databaseNow = rbind (assertDatabaseTime databaseNow) (\<lambda>_.
     let events = map_values (om_events m);
         undelivered = filter (\<lambda>e. ev_state e \<noteq> Ob_DELIVERED) events
     in Inr \<lparr>h_pending = count_state m Ob_PENDING, h_leased = count_state m Ob_LEASED,
          h_delivering = count_state m Ob_DELIVERING, h_retryWait = count_state m Ob_RETRY_WAIT,
          h_deadLetter = count_state m Ob_DEAD_LETTER,
          h_oldestUndeliveredLagMs = (if undelivered = [] then 0
            else max 0 (databaseNow - Min (set (map ev_committedAt undelivered)))),
          h_blockedStreams =
            length (remdups (map streamKey (filter (hasUndeliveredPredecessor m) events))),
          h_retryAttempts = length (filter (\<lambda>a. att_outcome a = Att_RETRY_SCHEDULED
            \<or> att_outcome a = Att_LEASE_EXPIRED) (map_values (om_attempts m)))\<rparr>)"

subsection \<open>The code's own invariant check\<close>

datatype outbox_violation =
    Ob_TotalAttemptsMismatch jsstring | Ob_InFlightWithoutLease jsstring
  | Ob_PhaseDisagrees jsstring | Ob_IdleWithLease jsstring | Ob_UnacknowledgedDelivery jsstring
  | Ob_AttemptLimitExceeded jsstring | Ob_PositionInconsistent jsstring
  | Ob_AheadOfPredecessor jsstring | Ob_ConcurrentDelivery jsstring
  | Ob_TransactionIndexInconsistent jsstring | Ob_AuditNotContiguous

definition event_attempts :: "OutboxStateModel \<Rightarrow> jsstring \<Rightarrow> OutboxDeliveryAttempt list" where
  "event_attempts m k =
     filter (\<lambda>a. att_workKind a = OUTBOX \<and> att_workId a = k) (map_values (om_attempts m))"

definition ob_assertEvent :: "OutboxStateModel \<Rightarrow> OutboxEvent \<Rightarrow> outbox_violation + unit" where
  "ob_assertEvent m e =
     (let attempts = event_attempts m (w_id e);
          active = filter (\<lambda>a. att_outcome a = Att_ACTIVE) attempts in
      rbind (guard (ev_totalAttempts e = int (length attempts)) (Ob_TotalAttemptsMismatch (w_id e))) (\<lambda>_.
      rbind (if in_flight e
             then rbind (guard (case lease e of None \<Rightarrow> False
                      | Some l \<Rightarrow> length active = 1 \<and> att_id (hd active) = attemptId l)
                      (Ob_InFlightWithoutLease (w_id e))) (\<lambda>_.
                  guard (\<not> (ev_state e = Ob_LEASED \<and> deliveryStartedAt (hd active) \<noteq> None)
                       \<and> \<not> (ev_state e = Ob_DELIVERING \<and> deliveryStartedAt (hd active) = None))
                    (Ob_PhaseDisagrees (w_id e)))
             else guard (lease e = None \<and> length active = 0) (Ob_IdleWithLease (w_id e))) (\<lambda>_.
      rbind (guard (\<not> (ev_state e = Ob_DELIVERED
                 \<and> (ev_deliveredAt e = None \<or> ev_consumerDisposition e = None)))
               (Ob_UnacknowledgedDelivery (w_id e))) (\<lambda>_.
      rbind (guard (ev_attemptsInCycle e \<le> maximumAttemptsPerCycle (om_policy m))
               (Ob_AttemptLimitExceeded (w_id e))) (\<lambda>_.
      rbind (guard (map_of (om_streamPositions m) (event_position e) = Some (w_id e))
               (Ob_PositionInconsistent (w_id e))) (\<lambda>_.
      guard (\<not> ((in_flight e \<or> ev_state e = Ob_DELIVERED)
                 \<and> list_ex (\<lambda>p. ev_state p \<noteq> Ob_DELIVERED) (predecessors m e)))
        (Ob_AheadOfPredecessor (w_id e))))))))"

fun ob_assertStreams :: "jsstring list \<Rightarrow> OutboxEvent list \<Rightarrow> outbox_violation + unit" where
  "ob_assertStreams inFlightStreams [] = Inr ()"
| "ob_assertStreams inFlightStreams (e # es) =
     (if \<not> in_flight e then ob_assertStreams inFlightStreams es
      else rbind (guard (streamKey e \<notin> set inFlightStreams) (Ob_ConcurrentDelivery (streamKey e))) (\<lambda>_.
        ob_assertStreams (streamKey e # inFlightStreams) es))"

definition ob_assertTransaction ::
  "OutboxStateModel \<Rightarrow> BusinessTransactionRecord \<Rightarrow> outbox_violation + unit" where
  "ob_assertTransaction m t = guard
     (list_all (\<lambda>k. case map_of (om_events m) k of None \<Rightarrow> False
        | Some e \<Rightarrow> ev_businessTransactionId e = bt_id t) (bt_eventIds t))
     (Ob_TransactionIndexInconsistent (bt_id t))"

definition ob_assertInvariants :: "OutboxStateModel \<Rightarrow> outbox_violation + unit" where
  "ob_assertInvariants m =
     rbind (mapM (ob_assertEvent m) (map_values (om_events m))) (\<lambda>_.
     rbind (ob_assertStreams [] (map_values (om_events m))) (\<lambda>_.
     rbind (mapM (ob_assertTransaction m) (map_values (om_transactions m))) (\<lambda>_.
     guard (audit_contiguous (om_audit m)) Ob_AuditNotContiguous)))"

end
