(* ===== verification/OutboxInvariants.thy ===== *)
theory OutboxInvariants
  imports Outbox
begin

text \<open>
  The life of an outbox event as an abstract transition system, the refinement of the methods to
  it, and the invariant. A move changes one event and at most one delivery attempt; every method
  except \<open>commitBusinessTransaction\<close> is a sequence of moves, whether it returns or throws. The
  invariant is proved for the moves and for the commit.
\<close>

subsection \<open>Moves\<close>

lemma ob_appendAudit_simps [simp]:
  "om_policy (ob_appendAudit m e ev t who k d x) = om_policy m"
  "om_events (ob_appendAudit m e ev t who k d x) = om_events m"
  "om_attempts (ob_appendAudit m e ev t who k d x) = om_attempts m"
  "om_transactions (ob_appendAudit m e ev t who k d x) = om_transactions m"
  "om_streamPositions (ob_appendAudit m e ev t who k d x) = om_streamPositions m"
  "audit_contiguous (om_audit (ob_appendAudit m e ev t who k d x)) = audit_contiguous (om_audit m)"
  "\<exists>log. om_audit (ob_appendAudit m e ev t who k d x) = om_audit m @ log"
  by (auto simp: ob_appendAudit_def)

lemma put_event_simps [simp]:
  "om_policy (put_event m e) = om_policy m" "om_policy (put_delivery m a) = om_policy m"
  "om_events (put_event m e) = AList.update (w_id e) e (om_events m)" "om_events (put_delivery m a) = om_events m"
  "om_attempts (put_event m e) = om_attempts m"
  "om_attempts (put_delivery m a) = AList.update (att_id a) a (om_attempts m)"
  "om_transactions (put_event m e) = om_transactions m" "om_transactions (put_delivery m a) = om_transactions m"
  "om_streamPositions (put_event m e) = om_streamPositions m"
  "om_streamPositions (put_delivery m a) = om_streamPositions m"
  "om_audit (put_event m e) = om_audit m" "om_audit (put_delivery m a) = om_audit m"
  by (simp_all add: put_event_def put_delivery_def)

definition ev_identity where
  "ev_identity e = (w_id e, ev_projectId e, ev_businessTransactionId e, ev_actionExecutionId e,
     ev_changeSetId e, ev_changeSetSequence e, ev_eventOrdinal e, ev_objectRid e,
     ev_destinationId e, ev_eventType e, ev_payloadSchemaVersion e, ev_payloadDigest e,
     ev_actorId e, ev_correlationId e, ev_committedAt e)"

lemma ev_identityD:
  assumes "ev_identity e' = ev_identity e"
  shows "w_id e' = w_id e" "streamKey e' = streamKey e" "event_position e' = event_position e"
    "compareStreamPosition e' x = compareStreamPosition e x"
    "compareStreamPosition x e' = compareStreamPosition x e"
    "ev_businessTransactionId e' = ev_businessTransactionId e"
    "ev_changeSetSequence e' = ev_changeSetSequence e"
  using assms by (simp_all add: ev_identity_def streamKey_def event_position_def compareStreamPosition_def)

lemma ev_identity_simps [simp]:
  "ev_identity (ob_claimed e l now) = ev_identity e" "ev_identity (started_event e now) = ev_identity e"
  "ev_identity (delivered_event e ack now) = ev_identity e" "ev_identity (failed_event e f now s) = ev_identity e"
  "ev_identity (replayed_event e now) = ev_identity e" "ev_identity (e\<lparr>lease := x\<rparr>) = ev_identity e"
  "ev_identity (e\<lparr>lastObservedDatabaseAt := t\<rparr>) = ev_identity e"
  "ev_identity (e\<lparr>ev_availableAt := t\<rparr>) = ev_identity e"
  by (simp_all add: ev_identity_def ob_claimed_def started_event_def delivered_event_def
      failed_event_def replayed_event_def)

text \<open>
  The state after a method that stored the event \<open>e'\<close> under \<open>k\<close> and, if any, the attempt \<open>x\<close>, and
  extended the log; nothing else changed.
\<close>

definition ob_changed ::
  "OutboxStateModel \<Rightarrow> jsstring \<Rightarrow> OutboxEvent \<Rightarrow> OutboxDeliveryAttempt option \<Rightarrow> OutboxStateModel \<Rightarrow> bool" where
  "ob_changed m k e' x m' \<longleftrightarrow>
     om_policy m' = om_policy m \<and> om_events m' = AList.update k e' (om_events m)
   \<and> om_attempts m' = (case x of None \<Rightarrow> om_attempts m | Some a \<Rightarrow> AList.update (att_id a) a (om_attempts m))
   \<and> om_transactions m' = om_transactions m \<and> om_streamPositions m' = om_streamPositions m
   \<and> (\<exists>log. om_audit m' = om_audit m @ log)
   \<and> (audit_contiguous (om_audit m) \<longrightarrow> audit_contiguous (om_audit m'))"

definition same_lease :: "ActiveLease \<Rightarrow> ActiveLease \<Rightarrow> bool" where
  "same_lease l l' \<longleftrightarrow> workKind l' = workKind l \<and> workId l' = workId l \<and> attemptId l' = attemptId l
     \<and> workerId l' = workerId l \<and> fencingToken l' = fencingToken l"

definition same_attempt :: "OutboxDeliveryAttempt \<Rightarrow> OutboxDeliveryAttempt \<Rightarrow> bool" where
  "same_attempt a a' \<longleftrightarrow> att_id a' = att_id a \<and> att_workId a' = att_workId a
     \<and> att_workKind a' = att_workKind a \<and> att_outcome a' = att_outcome a
     \<and> deliveryStartedAt a' = deliveryStartedAt a"

inductive ob_move :: "OutboxStateModel \<Rightarrow> OutboxStateModel \<Rightarrow> bool" for m m' where
  claim: "map_of (om_events m) k = Some e \<Longrightarrow> ev_state e = Ob_PENDING \<or> ev_state e = Ob_RETRY_WAIT \<Longrightarrow>
    \<not> hasUndeliveredPredecessor m e \<Longrightarrow> lastObservedDatabaseAt e \<le> now \<Longrightarrow>
    map_of (om_attempts m) (oc_attemptId i) = None \<Longrightarrow> now < expires \<Longrightarrow>
    ob_changed m k (ob_claimed e (ob_new_lease e i expires) now) (Some (ob_new_attempt e i)) m' \<Longrightarrow>
    ob_move m m'"
| renew: "map_of (om_events m) k = Some e \<Longrightarrow> lease e = Some l \<Longrightarrow>
    map_of (om_attempts m) (attemptId l) = Some a \<Longrightarrow> same_lease l l' \<Longrightarrow> same_attempt a a' \<Longrightarrow>
    lastObservedDatabaseAt e \<le> now \<Longrightarrow> now < expiresAt l' \<Longrightarrow>
    ob_changed m k (e\<lparr>lease := Some l', lastObservedDatabaseAt := now\<rparr>) (Some a') m' \<Longrightarrow>
    ob_move m m'"
| start: "map_of (om_events m) k = Some e \<Longrightarrow> lease e = Some l \<Longrightarrow> ev_state e = Ob_LEASED \<Longrightarrow>
    map_of (om_attempts m) (attemptId l) = Some a \<Longrightarrow>
    lastObservedDatabaseAt e \<le> now \<Longrightarrow> now < expiresAt l \<Longrightarrow>
    ob_changed m k (started_event e now) (Some (started_attempt a now)) m' \<Longrightarrow> ob_move m m'"
| deliver: "map_of (om_events m) k = Some e \<Longrightarrow> lease e = Some l \<Longrightarrow> ev_state e = Ob_DELIVERING \<Longrightarrow>
    map_of (om_attempts m) (attemptId l) = Some a \<Longrightarrow> lastObservedDatabaseAt e \<le> now \<Longrightarrow>
    ack_eventId ack = w_id e \<Longrightarrow> ack_consumerId ack = ev_destinationId e \<Longrightarrow>
    ob_changed m k (delivered_event e ack now) (Some (acked_attempt a ack now)) m' \<Longrightarrow> ob_move m m'"
| fail: "map_of (om_events m) k = Some e \<Longrightarrow> lease e = Some l \<Longrightarrow>
    map_of (om_attempts m) (attemptId l) = Some a \<Longrightarrow> lastObservedDatabaseAt e \<le> now \<Longrightarrow>
    (s = Ob_RETRY_WAIT \<and> ev_attemptsInCycle e < maximumAttemptsPerCycle (om_policy m)) \<or> s = Ob_DEAD_LETTER \<Longrightarrow>
    out \<noteq> Att_ACTIVE \<Longrightarrow>
    ob_changed m k ((failed_event e f now s)\<lparr>ev_availableAt := t\<rparr>) (Some (failed_delivery a f now out)) m' \<Longrightarrow>
    ob_move m m'"
| replay: "map_of (om_events m) k = Some e \<Longrightarrow> ev_state e = Ob_DEAD_LETTER \<Longrightarrow>
    lastObservedDatabaseAt e \<le> now \<Longrightarrow>
    ob_changed m k (replayed_event e now) None m' \<Longrightarrow> ob_move m m'"
| log: "m' = ob_appendAudit m e ev t who k d details \<Longrightarrow> ob_move m m'"

subsection \<open>The invariant\<close>

text \<open>A delivery in flight: its lease names an active attempt of the event, in the same phase.\<close>

definition ev_leased :: "OutboxStateModel \<Rightarrow> OutboxEvent \<Rightarrow> bool" where
  "ev_leased m e \<longleftrightarrow> 1 \<le> ev_attemptsInCycle e
     \<and> (\<exists>l a. lease e = Some l \<and> map_of (om_attempts m) (attemptId l) = Some a
          \<and> att_workId a = w_id e \<and> att_outcome a = Att_ACTIVE
          \<and> (ev_state e = Ob_LEASED \<longleftrightarrow> deliveryStartedAt a = None)
          \<and> fencingToken l + 1 = ev_nextFencingToken e
          \<and> workKind l = OUTBOX \<and> workId l = w_id e \<and> lastObservedDatabaseAt e < expiresAt l)"

definition ev_ready :: "OutboxStateModel \<Rightarrow> OutboxEvent \<Rightarrow> bool" where
  "ev_ready m e \<longleftrightarrow> (\<forall>k p. map_of (om_events m) k = Some p \<and> streamKey p = streamKey e
     \<and> compareStreamPosition p e < 0 \<longrightarrow> ev_state p = Ob_DELIVERED)"

definition ev_good :: "OutboxStateModel \<Rightarrow> OutboxEvent \<Rightarrow> bool" where
  "ev_good m e \<longleftrightarrow>
     ev_totalAttempts e = int (length (event_attempts m (w_id e)))
   \<and> 0 \<le> ev_attemptsInCycle e \<and> ev_attemptsInCycle e \<le> maximumAttemptsPerCycle (om_policy m)
   \<and> (ev_state e = Ob_PENDING \<or> ev_state e = Ob_RETRY_WAIT \<longrightarrow>
        ev_attemptsInCycle e < maximumAttemptsPerCycle (om_policy m))
   \<and> (if in_flight e then ev_leased m e else lease e = None)
   \<and> (ev_state e = Ob_DELIVERED \<longrightarrow> ev_deliveredAt e \<noteq> None \<and> ev_consumerDisposition e \<noteq> None)
   \<and> map_of (om_streamPositions m) (event_position e) = Some (w_id e)
   \<and> (in_flight e \<or> ev_state e = Ob_DELIVERED \<longrightarrow> ev_ready m e)"

definition att_good :: "OutboxStateModel \<Rightarrow> OutboxDeliveryAttempt \<Rightarrow> bool" where
  "att_good m a \<longleftrightarrow> att_workKind a = OUTBOX
     \<and> (\<exists>e. map_of (om_events m) (att_workId a) = Some e
          \<and> (att_outcome a = Att_ACTIVE \<longrightarrow> (\<exists>l. lease e = Some l \<and> attemptId l = att_id a)))"

definition tx_good :: "OutboxStateModel \<Rightarrow> BusinessTransactionRecord \<Rightarrow> bool" where
  "tx_good m t \<longleftrightarrow> (\<forall>k\<in>set (bt_eventIds t). \<exists>e. map_of (om_events m) k = Some e
     \<and> ev_businessTransactionId e = bt_id t)"

definition ob_inv :: "OutboxStateModel \<Rightarrow> bool" where
  "ob_inv m \<longleftrightarrow>
     assertRetryPolicy (om_policy m) = Inr ()
   \<and> wf_jsmap (om_events m) \<and> wf_jsmap (om_attempts m)
   \<and> (\<forall>k e. map_of (om_events m) k = Some e \<longrightarrow> w_id e = k \<and> ev_good m e)
   \<and> (\<forall>i a. map_of (om_attempts m) i = Some a \<longrightarrow> att_id a = i \<and> att_good m a)
   \<and> (\<forall>t\<in>set (map_values (om_transactions m)). tx_good m t)
   \<and> audit_contiguous (om_audit m)"

lemma ob_invI:
  assumes "assertRetryPolicy (om_policy m) = Inr ()" "wf_jsmap (om_events m)" "wf_jsmap (om_attempts m)"
    and "\<And>k e. map_of (om_events m) k = Some e \<Longrightarrow> w_id e = k \<and> ev_good m e"
    and "\<And>i a. map_of (om_attempts m) i = Some a \<Longrightarrow> att_id a = i \<and> att_good m a"
    and "\<And>t. t \<in> set (map_values (om_transactions m)) \<Longrightarrow> tx_good m t"
    and "audit_contiguous (om_audit m)"
  shows "ob_inv m"
  using assms by (simp add: ob_inv_def)

lemma ob_invD:
  assumes "ob_inv m"
  shows "assertRetryPolicy (om_policy m) = Inr ()" "wf_jsmap (om_events m)" "wf_jsmap (om_attempts m)"
    "audit_contiguous (om_audit m)"
    "map_of (om_events m) k = Some e \<Longrightarrow> w_id e = k" "map_of (om_events m) k = Some e \<Longrightarrow> ev_good m e"
    "map_of (om_attempts m) i = Some a \<Longrightarrow> att_id a = i" "map_of (om_attempts m) i = Some a \<Longrightarrow> att_good m a"
    "t \<in> set (map_values (om_transactions m)) \<Longrightarrow> tx_good m t"
  using assms by (auto simp: ob_inv_def)

lemma ev_lease_flight:
  "ev_good m e \<Longrightarrow> lease e = Some l \<Longrightarrow> in_flight e \<and> ev_leased m e"
  by (auto simp: ev_good_def split: if_splits)

text \<open>The lease of an event names the only active attempt of that event.\<close>

lemma leased_attempt:
  assumes inv: "ob_inv m" and e: "map_of (om_events m) k = Some e" and l: "lease e = Some l"
  obtains a where "map_of (om_attempts m) (attemptId l) = Some a" "att_id a = attemptId l"
    "att_workId a = k" "att_workKind a = OUTBOX" "att_outcome a = Att_ACTIVE" "in_flight e"
    "ev_state e = Ob_LEASED \<longleftrightarrow> deliveryStartedAt a = None" "fencingToken l + 1 = ev_nextFencingToken e"
    "workKind l = OUTBOX" "workId l = k" "lastObservedDatabaseAt e < expiresAt l" "1 \<le> ev_attemptsInCycle e"
proof -
  have fl: "in_flight e" "ev_leased m e" using ev_lease_flight [OF ob_invD(6) [OF inv e] l] by auto
  have id: "w_id e = k" by (rule ob_invD(5) [OF inv e])
  from fl(2) obtain a where a: "map_of (om_attempts m) (attemptId l) = Some a" "att_workId a = k"
    "att_outcome a = Att_ACTIVE" "ev_state e = Ob_LEASED \<longleftrightarrow> deliveryStartedAt a = None"
    "fencingToken l + 1 = ev_nextFencingToken e" "workKind l = OUTBOX" "workId l = k"
    "lastObservedDatabaseAt e < expiresAt l" "1 \<le> ev_attemptsInCycle e"
    unfolding ev_leased_def id l by auto
  have "att_id a = attemptId l" by (rule ob_invD(7) [OF inv a(1)])
  moreover have "att_workKind a = OUTBOX" using ob_invD(8) [OF inv a(1)] by (simp add: att_good_def)
  ultimately show ?thesis using that [OF a(1) _ a(2) _ a(3) fl(1) a(4-9)] by simp
qed

lemma active_attempt_leased:
  assumes "ob_inv m" and "map_of (om_attempts m) i = Some a" and "att_outcome a = Att_ACTIVE"
    and "map_of (om_events m) (att_workId a) = Some e"
  shows "\<exists>l. lease e = Some l \<and> attemptId l = i"
  using ob_invD(7,8) [OF assms(1,2)] assms(3,4) by (auto simp: att_good_def)

subsection \<open>Changing one event keeps the invariant\<close>

definition stored_fresh :: "OutboxStateModel \<Rightarrow> OutboxDeliveryAttempt option \<Rightarrow> bool" where
  "stored_fresh m x \<longleftrightarrow> (\<exists>a. x = Some a \<and> map_of (om_attempts m) (att_id a) = None)"

text \<open>What the new event and the new attempt have to satisfy.\<close>

definition ev_transition ::
  "OutboxStateModel \<Rightarrow> OutboxEvent \<Rightarrow> OutboxEvent \<Rightarrow> OutboxDeliveryAttempt option \<Rightarrow> bool" where
  "ev_transition m e e' x \<longleftrightarrow>
     ev_identity e' = ev_identity e
   \<and> (\<forall>a. x = Some a \<longrightarrow> att_workKind a = OUTBOX \<and> att_workId a = w_id e
        \<and> (\<forall>b. map_of (om_attempts m) (att_id a) = Some b \<longrightarrow> att_workId b = w_id e)
        \<and> (att_outcome a = Att_ACTIVE \<longrightarrow> (\<exists>l. lease e' = Some l \<and> attemptId l = att_id a)))
   \<and> (\<forall>l. lease e = Some l \<longrightarrow> (\<exists>a. x = Some a \<and> att_id a = attemptId l))
   \<and> ev_totalAttempts e' = ev_totalAttempts e + (if stored_fresh m x then 1 else 0)
   \<and> 0 \<le> ev_attemptsInCycle e' \<and> ev_attemptsInCycle e' \<le> maximumAttemptsPerCycle (om_policy m)
   \<and> (ev_state e' = Ob_PENDING \<or> ev_state e' = Ob_RETRY_WAIT \<longrightarrow>
        ev_attemptsInCycle e' < maximumAttemptsPerCycle (om_policy m))
   \<and> (if in_flight e'
      then 1 \<le> ev_attemptsInCycle e'
         \<and> (\<exists>l a. lease e' = Some l \<and> x = Some a \<and> att_id a = attemptId l \<and> att_outcome a = Att_ACTIVE
              \<and> (ev_state e' = Ob_LEASED \<longleftrightarrow> deliveryStartedAt a = None)
              \<and> fencingToken l + 1 = ev_nextFencingToken e'
              \<and> workKind l = OUTBOX \<and> workId l = w_id e \<and> lastObservedDatabaseAt e' < expiresAt l)
      else lease e' = None)
   \<and> (ev_state e' = Ob_DELIVERED \<longrightarrow> ev_deliveredAt e' \<noteq> None \<and> ev_consumerDisposition e' \<noteq> None)
   \<and> (in_flight e' \<or> ev_state e' = Ob_DELIVERED \<longrightarrow> ev_ready m e)
   \<and> (ev_state e = Ob_DELIVERED \<longrightarrow> ev_state e' = Ob_DELIVERED)"

lemma ev_transition_flight:
  "ev_transition m e e' x \<Longrightarrow> in_flight e' \<Longrightarrow> \<exists>l a. 1 \<le> ev_attemptsInCycle e' \<and>
     lease e' = Some l \<and> x = Some a \<and> att_id a = attemptId l \<and> att_outcome a = Att_ACTIVE
     \<and> (ev_state e' = Ob_LEASED \<longleftrightarrow> deliveryStartedAt a = None)
     \<and> fencingToken l + 1 = ev_nextFencingToken e'
     \<and> workKind l = OUTBOX \<and> workId l = w_id e \<and> lastObservedDatabaseAt e' < expiresAt l"
  unfolding ev_transition_def by simp

lemma ob_changed_simps:
  assumes "ob_changed m k e' x m'"
  shows "om_policy m' = om_policy m" "map_of (om_events m') q = (if q = k then Some e' else map_of (om_events m) q)"
    "map_of (om_attempts m') i = (case x of None \<Rightarrow> map_of (om_attempts m) i
       | Some a \<Rightarrow> if i = att_id a then Some a else map_of (om_attempts m) i)"
    "om_transactions m' = om_transactions m" "om_streamPositions m' = om_streamPositions m"
  using assms by (auto simp: ob_changed_def split: option.splits)

lemma event_attempts_changed:
  assumes inv: "ob_inv m" and ch: "ob_changed m k e' x m'"
    and x: "\<And>a. x = Some a \<Longrightarrow> att_workKind a = OUTBOX \<and> att_workId a = k
      \<and> (\<forall>b. map_of (om_attempts m) (att_id a) = Some b \<longrightarrow> att_workId b = k)"
  shows "length (event_attempts m' q) = length (event_attempts m q) + (if q = k \<and> stored_fresh m x then 1 else 0)"
proof (cases x)
  case None
  with ch show ?thesis by (simp add: ob_changed_def event_attempts_def stored_fresh_def)
next
  case (Some a)
  then have atts: "om_attempts m' = AList.update (att_id a) a (om_attempts m)"
    using ch by (simp add: ob_changed_def)
  note xa = x [OF Some]
  show ?thesis
  proof (cases "map_of (om_attempts m) (att_id a)")
    case None
    with Some xa show ?thesis by (auto simp: event_attempts_def atts update_new stored_fresh_def)
  next
    case old: (Some b)
    have "att_workKind b = OUTBOX" using ob_invD(8) [OF inv old] by (simp add: att_good_def)
    with old xa have "length (event_attempts m' q) = length (event_attempts m q)"
      unfolding event_attempts_def atts by (intro length_filter_update [OF ob_invD(3) [OF inv] old]) simp
    with Some old show ?thesis by (simp add: stored_fresh_def)
  qed
qed

lemma ev_ready_changed:
  assumes e: "map_of (om_events m) k = Some e" and ch: "ob_changed m k e' x m'"
    and id: "ev_identity e' = ev_identity e" and stays: "ev_state e = Ob_DELIVERED \<longrightarrow> ev_state e' = Ob_DELIVERED"
    and y: "ev_identity y' = ev_identity y" and ready: "ev_ready m y"
  shows "ev_ready m' y'"
  using ready e stays
  unfolding ev_ready_def ob_changed_simps [OF ch] ev_identityD [OF y]
  by (auto simp: ev_identityD [OF id])

lemma ob_inv_changed:
  assumes inv: "ob_inv m" and e: "map_of (om_events m) k = Some e" and ch: "ob_changed m k e' x m'"
    and tr: "ev_transition m e e' x"
  shows "ob_inv m'"
proof (rule ob_invI)
  note sel = ob_changed_simps [OF ch]
  have id: "ev_identity e' = ev_identity e" and stays: "ev_state e = Ob_DELIVERED \<longrightarrow> ev_state e' = Ob_DELIVERED"
    using tr by (simp_all add: ev_transition_def)
  have k: "w_id e = k" "w_id e' = k" using ob_invD(5) [OF inv e] ev_identityD(1) [OF id] by auto
  have x: "att_workKind a = OUTBOX" "att_workId a = k"
    "map_of (om_attempts m) (att_id a) = Some b \<Longrightarrow> att_workId b = k"
    "att_outcome a = Att_ACTIVE \<Longrightarrow> \<exists>l. lease e' = Some l \<and> attemptId l = att_id a" if "x = Some a" for a b
    using tr that by (auto simp: ev_transition_def k)
  have len: "length (event_attempts m' q) = length (event_attempts m q) + (if q = k \<and> stored_fresh m x then 1 else 0)" for q
    by (rule event_attempts_changed [OF inv ch]) (use x in blast)
  note ready = ev_ready_changed [OF e ch id stays]
  show "assertRetryPolicy (om_policy m') = Inr ()" using ob_invD(1) [OF inv] sel(1) by simp
  show "wf_jsmap (om_events m')" using ob_invD(2) [OF inv] ch by (simp add: ob_changed_def)
  show "wf_jsmap (om_attempts m')" using ob_invD(3) [OF inv] ch by (auto simp: ob_changed_def split: option.splits)
  show "audit_contiguous (om_audit m')" using ob_invD(4) [OF inv] ch by (simp add: ob_changed_def)
  show "tx_good m' t" if "t \<in> set (map_values (om_transactions m'))" for t
  proof -
    have "tx_good m t" using that by (intro ob_invD(9) [OF inv]) (simp add: sel)
    then show ?thesis using e by (auto simp: tx_good_def sel ev_identityD(6) [OF id])
  qed
  show "w_id y = q \<and> ev_good m' y" if y: "map_of (om_events m') q = Some y" for q y
  proof (cases "q = k")
    case True
    with y have "y = e'" by (simp add: sel)
    have "ev_leased m' e'" if fl: "in_flight e'"
    proof -
      from ev_transition_flight [OF tr fl] obtain l a where la: "lease e' = Some l" "x = Some a"
        "att_id a = attemptId l" "att_outcome a = Att_ACTIVE" "ev_state e' = Ob_LEASED \<longleftrightarrow> deliveryStartedAt a = None"
        "fencingToken l + 1 = ev_nextFencingToken e'" "workKind l = OUTBOX" "workId l = w_id e"
        "lastObservedDatabaseAt e' < expiresAt l" "1 \<le> ev_attemptsInCycle e'" by (elim exE conjE)
      have "map_of (om_attempts m') (attemptId l) = Some a" by (simp add: sel la(2,3))
      with la x(2) [OF la(2)] k show ?thesis by (simp add: ev_leased_def)
    qed
    moreover have "ev_totalAttempts e' = int (length (event_attempts m' k))"
      using tr len [of k] ob_invD(6) [OF inv e] k by (simp add: ev_transition_def ev_good_def)
    moreover have "in_flight e' \<or> ev_state e' = Ob_DELIVERED \<longrightarrow> ev_ready m' e'"
      using tr ready [OF id] by (simp add: ev_transition_def)
    moreover have "map_of (om_streamPositions m') (event_position e') = Some k"
      using ob_invD(6) [OF inv e] ev_identityD(3) [OF id] k by (simp add: ev_good_def sel)
    ultimately have "ev_good m' e'"
      using tr k unfolding ev_good_def sel ev_transition_def by auto
    with True \<open>y = e'\<close> k show ?thesis by simp
  next
    case False
    with y have y: "map_of (om_events m) q = Some y" by (simp add: sel)
    note old = ob_invD(5,6) [OF inv y]
    have "ev_leased m' y" if fl: "ev_leased m y"
    proof -
      obtain l where l: "lease y = Some l" using fl by (auto simp: ev_leased_def)
      have "map_of (om_attempts m') (attemptId l) = map_of (om_attempts m) (attemptId l)"
      proof (cases "\<exists>a. x = Some a \<and> att_id a = attemptId l")
        case True
        then obtain a where a: "x = Some a" "att_id a = attemptId l" by blast
        obtain b where "map_of (om_attempts m) (attemptId l) = Some b" "att_workId b = q"
          by (rule leased_attempt [OF inv y l])
        with a x(3) [OF a(1), of b] False show ?thesis by simp
      qed (auto simp: sel split: option.splits)
      with fl l show ?thesis by (auto simp: ev_leased_def)
    qed
    moreover have "length (event_attempts m' q) = length (event_attempts m q)" using len False by simp
    ultimately show ?thesis
      using old ready [of y y] unfolding ev_good_def sel by (auto split: if_splits)
  qed
  show "att_id a = i \<and> att_good m' a" if a: "map_of (om_attempts m') i = Some a" for i a
  proof (cases "x = Some a \<and> att_id a = i")
    case True
    then show ?thesis using x(1,2,4) [of a] by (auto simp: att_good_def sel)
  next
    case False
    then have old: "map_of (om_attempts m) i = Some a" and diff: "\<And>b. x = Some b \<Longrightarrow> att_id b \<noteq> i"
      using a by (auto simp: sel split: option.splits if_splits)
    note good = ob_invD(7,8) [OF inv old]
    have "\<exists>l. lease e' = Some l \<and> attemptId l = i" if wk: "att_workId a = k" and act: "att_outcome a = Att_ACTIVE"
    proof -
      obtain l where "lease e = Some l" "attemptId l = i"
        using active_attempt_leased [OF inv old act] wk e by auto
      then obtain b where "x = Some b" "att_id b = i" using tr by (auto simp: ev_transition_def)
      with diff show ?thesis by blast
    qed
    with good show ?thesis by (auto simp: att_good_def sel)
  qed
qed

subsection \<open>Moves keep the invariant\<close>

lemma ev_ready_iff:
  assumes "ob_inv m"
  shows "ev_ready m e \<longleftrightarrow> \<not> hasUndeliveredPredecessor m e"
  using map_values_iff [OF ob_invD(2) [OF assms]]
  by (auto simp: ev_ready_def hasUndeliveredPredecessor_def predecessors_def list_ex_iff)

lemma ob_policyD:
  assumes "ob_inv m"
  shows "1 \<le> maximumAttemptsPerCycle (om_policy m)" "isSafeInteger (maximumAttemptsPerCycle (om_policy m))"
    "0 < leaseDurationMs (om_policy m)"
  using ob_invD(1) [OF assms] by (auto simp: assertRetryPolicy_iff)

lemma claim_transition:
  assumes inv: "ob_inv m" and e: "map_of (om_events m) k = Some e"
    and st: "ev_state e = Ob_PENDING \<or> ev_state e = Ob_RETRY_WAIT" and pre: "\<not> hasUndeliveredPredecessor m e"
    and new: "map_of (om_attempts m) (oc_attemptId i) = None" and time: "now < expires"
  shows "ev_transition m e (ob_claimed e (ob_new_lease e i expires) now) (Some (ob_new_attempt e i))"
proof -
  have good: "ev_good m e" by (rule ob_invD(6) [OF inv e])
  have fl: "\<not> in_flight e" using st by (auto simp: in_flight_def)
  then have idle: "lease e = None" using good by (simp add: ev_good_def)
  have "in_flight (ob_claimed e (ob_new_lease e i expires) now)" by (simp add: in_flight_def ob_claimed_def)
  then show ?thesis
    using good st pre new time idle unfolding ev_transition_def ev_identity_simps ev_ready_iff [OF inv]
    by (auto simp: ob_claimed_def ob_new_attempt_def ob_new_lease_def stored_fresh_def ev_good_def)
qed

text \<open>The transitions of a delivery in flight replace its active attempt.\<close>

lemma flight_transition:
  assumes inv: "ob_inv m" and e: "map_of (om_events m) k = Some e" and l: "lease e = Some l"
    and a: "map_of (om_attempts m) (attemptId l) = Some a"
    and a': "att_id a' = att_id a" "att_workId a' = att_workId a" "att_workKind a' = att_workKind a"
    and e': "ev_identity e' = ev_identity e" "ev_totalAttempts e' = ev_totalAttempts e"
      "ev_attemptsInCycle e' = ev_attemptsInCycle e" "ev_nextFencingToken e' = ev_nextFencingToken e"
      "ev_state e' \<noteq> Ob_PENDING"
      "ev_state e' = Ob_RETRY_WAIT \<Longrightarrow> ev_attemptsInCycle e < maximumAttemptsPerCycle (om_policy m)"
      "ev_state e' = Ob_DELIVERED \<Longrightarrow> ev_deliveredAt e' \<noteq> None \<and> ev_consumerDisposition e' \<noteq> None"
    and idle: "\<not> in_flight e' \<Longrightarrow> lease e' = None \<and> att_outcome a' \<noteq> Att_ACTIVE"
    and busy: "in_flight e' \<Longrightarrow> (\<exists>l'. lease e' = Some l' \<and> same_lease l l' \<and> lastObservedDatabaseAt e' < expiresAt l')
      \<and> att_outcome a' = Att_ACTIVE \<and> (ev_state e' = Ob_LEASED \<longleftrightarrow> deliveryStartedAt a' = None)"
  shows "ev_transition m e e' (Some a')"
proof -
  obtain b where b: "map_of (om_attempts m) (attemptId l) = Some b" "att_id b = attemptId l"
    "att_workId b = k" "att_workKind b = OUTBOX" "in_flight e" "fencingToken l + 1 = ev_nextFencingToken e"
    "workKind l = OUTBOX" "workId l = k" "1 \<le> ev_attemptsInCycle e" by (rule leased_attempt [OF inv e l])
  have ab: "b = a" using a b(1) by simp
  have id: "w_id e = k" by (rule ob_invD(5) [OF inv e])
  have good: "ev_good m e" by (rule ob_invD(6) [OF inv e])
  have ready: "ev_ready m e" using good b(5) by (simp add: ev_good_def)
  have fresh: "\<not> stored_fresh m (Some a')" using a' a b ab by (simp add: stored_fresh_def)
  have range: "0 \<le> ev_attemptsInCycle e" "ev_attemptsInCycle e \<le> maximumAttemptsPerCycle (om_policy m)"
    using good by (simp_all add: ev_good_def)
  have nd: "ev_state e \<noteq> Ob_DELIVERED" using b(5) by (auto simp: in_flight_def)
  note facts = a' e'(1-5) b(2-4) ab id fresh ready range nd
  show ?thesis
  proof (cases "in_flight e'")
    case False
    with idle show ?thesis
      unfolding ev_transition_def using facts e'(6,7) l a b(1) by auto
  next
    case True
    from busy [OF True] obtain l' where l': "lease e' = Some l'" "same_lease l l'"
      "lastObservedDatabaseAt e' < expiresAt l'" "att_outcome a' = Att_ACTIVE"
      "ev_state e' = Ob_LEASED \<longleftrightarrow> deliveryStartedAt a' = None" by (elim conjE exE)
    have eqs: "attemptId l' = attemptId l" "fencingToken l' = fencingToken l" "workKind l' = workKind l"
      "workId l' = workId l" using l'(2) by (simp_all add: same_lease_def)
    show ?thesis
      unfolding ev_transition_def if_P [OF True]
      by (intro conjI allI impI exI [of _ l'] exI [of _ a'])
         (use True facts e'(6,7) l a b(1,6-9) in \<open>auto simp: l' eqs in_flight_def\<close>)
  qed
qed

lemma ob_move_inv:
  assumes "ob_move m m'" and inv: "ob_inv m"
  shows "ob_inv m'"
  using assms(1)
proof cases
  case (claim k e now i expires)
  then show ?thesis by (intro ob_inv_changed [OF inv claim(1,7)] claim_transition [OF inv claim(1,2,3,5,6)])
next
  case (renew k e l a l' a' now)
  obtain b where "map_of (om_attempts m) (attemptId l) = Some b" "in_flight e" "att_outcome b = Att_ACTIVE"
    "ev_state e = Ob_LEASED \<longleftrightarrow> deliveryStartedAt b = None" by (rule leased_attempt [OF inv renew(1,2)])
  moreover have "in_flight (e\<lparr>lease := y, lastObservedDatabaseAt := t\<rparr>) = in_flight e" for y t
    by (simp add: in_flight_def)
  ultimately show ?thesis
    by (intro ob_inv_changed [OF inv renew(1,8)] flight_transition [OF inv renew(1,2,3)])
       (use renew(3,4,5,7) in \<open>auto simp: same_attempt_def in_flight_def\<close>)
next
  case (start k e l a now)
  obtain b where "map_of (om_attempts m) (attemptId l) = Some b" "att_outcome b = Att_ACTIVE"
    by (rule leased_attempt [OF inv start(1,2)])
  with start show ?thesis
    by (intro ob_inv_changed [OF inv start(1,7)] flight_transition [OF inv start(1,2,4)])
       (auto simp: started_event_def started_attempt_def in_flight_def same_lease_def ev_identity_def)
next
  case (deliver k e l a now ack)
  then show ?thesis
    by (intro ob_inv_changed [OF inv deliver(1,8)] flight_transition [OF inv deliver(1,2,4)])
       (auto simp: delivered_event_def acked_attempt_def in_flight_def ev_identity_def)
next
  case (fail k e l a now s out f t)
  then show ?thesis
    by (intro ob_inv_changed [OF inv fail(1,7)] flight_transition [OF inv fail(1,2,3)])
       (auto simp: failed_event_def failed_delivery_def in_flight_def ev_identity_def)
next
  case (replay k e now)
  have good: "ev_good m e" by (rule ob_invD(6) [OF inv replay(1)])
  then have "lease e = None" using replay(2) by (simp add: ev_good_def in_flight_def)
  then have "ev_transition m e (replayed_event e now) None"
    using good replay(2) ob_policyD(1) [OF inv] unfolding ev_transition_def ev_identity_simps
    by (auto simp: replayed_event_def in_flight_def stored_fresh_def ev_good_def)
  then show ?thesis by (rule ob_inv_changed [OF inv replay(1,4)])
next
  case (log e ev t who k d details)
  have sel: "event_attempts m' = event_attempts m" by (simp add: event_attempts_def log fun_eq_iff)
  have "ev_good m' x = ev_good m x" "att_good m' a = att_good m a" "tx_good m' b = tx_good m b" for x a b
    unfolding ev_good_def ev_leased_def ev_ready_def att_good_def tx_good_def sel by (simp_all add: log)
  then show ?thesis using inv unfolding ob_inv_def by (simp add: log)
qed

end
