(* ===== verification/OutboxSteps.thy ===== *)
theory OutboxSteps
  imports OutboxInvariants "HOL-Library.Sublist"
begin

text \<open>
  The methods of the outbox refine the moves: each is a sequence of moves, whether it returns or
  throws. With the commit they make a transition system whose invariant implies that the code's own
  \<open>assertInvariants\<close> always passes.
\<close>

subsection \<open>Methods as moves\<close>

lemma ob_changed_put [simp]:
  assumes "w_id e' = k"
  shows "ob_changed m k e' (Some a) (ob_appendAudit (put_delivery (put_event m e') a) x ev t who q d y)"
    and "ob_changed m k e' (Some a) (ob_appendAudit (put_event (put_delivery m a) e') x ev t who q d y)"
    and "ob_changed m k e' (Some a) (put_event (put_delivery m a) e')"
    and "ob_changed m k e' None (ob_appendAudit (put_event m e') x ev t who q d y)"
  using assms by (auto simp: ob_changed_def ob_appendAudit_def)

lemma put_event_put_event [simp]: "w_id e1 = w_id e2 \<Longrightarrow> put_event (put_event m e1) e2 = put_event m e2"
  by (simp add: put_event_def)

lemma requiredEvent_iff [simp]: "requiredEvent m k = Inr e \<longleftrightarrow> map_of (om_events m) k = Some e"
  by (simp add: requiredEvent_def split: option.splits)

lemma requiredDelivery_iff [simp]: "requiredDelivery m k = Inr a \<longleftrightarrow> map_of (om_attempts m) k = Some a"
  by (simp add: requiredDelivery_def split: option.splits)

lemma put_delivery_same: "map_of (om_attempts m) (att_id a) = Some a \<Longrightarrow> put_delivery m a = m"
  by (simp add: put_delivery_def update_same)

lemma with_event_lease_cases:
  assumes "with_event_lease m phase h now K = (r, m')"
  obtains (refused) err where "r = Inl err" "m' = m"
  | (accepted) e l where "map_of (om_events m) (workId h) = Some e" "phase e"
      "assertValidLease e h now OUTBOX = Inr l" "lease e = Some l" "K e l = (r, m')"
proof (cases "requiredEvent m (workId h)")
  case (Inl e)
  with assms show ?thesis by (intro refused [of e]) (auto simp: with_event_lease_def)
next
  case (Inr e)
  show ?thesis
  proof (cases "phase e")
    case False
    with assms Inr show ?thesis by (intro refused [of INVALID_STATE]) (auto simp: with_event_lease_def)
  next
    case run: True
    show ?thesis
    proof (cases "assertValidLease e h now OUTBOX")
      case (Inl err)
      with assms Inr run show ?thesis by (intro refused [of err]) (auto simp: with_event_lease_def)
    next
      case v: (Inr l)
      then have "lease e = Some l" by (simp add: assertValidLease_iff)
      with assms Inr run v show ?thesis by (intro accepted [of e l]) (auto simp: with_event_lease_def)
    qed
  qed
qed

lemma with_event_lease_state:
  assumes "P m"
    and K: "\<And>e l. map_of (om_events m) (workId h) = Some e \<Longrightarrow> phase e \<Longrightarrow> lease e = Some l \<Longrightarrow>
      assertValidLease e h now OUTBOX = Inr l \<Longrightarrow> P (snd (K e l))"
  shows "P (snd (with_event_lease m phase h now K))"
proof -
  obtain r m' where call: "with_event_lease m phase h now K = (r, m')" by fastforce
  then show ?thesis
  proof (cases rule: with_event_lease_cases)
    case (refused e)
    with call assms(1) show ?thesis by simp
  next
    case (accepted e l)
    with K [of e l] call show ?thesis by simp
  qed
qed

abbreviation ob_moves :: "OutboxStateModel \<Rightarrow> OutboxStateModel \<Rightarrow> bool" where
  "ob_moves \<equiv> ob_move\<^sup>*\<^sup>*"

lemma ob_moves_inv: "ob_moves m m' \<Longrightarrow> ob_inv m \<Longrightarrow> ob_inv m'"
  by (induction rule: rtranclp_induct) (auto intro: ob_move_inv)

lemmas ob_moves_attempt = attempt_state [where P = "ob_moves m" for m]
lemmas ob_moves_lease = with_event_lease_state [where P = "ob_moves m" for m]

lemma ob_heartbeat_moves:
  assumes inv: "ob_inv m"
  shows "ob_moves m (snd (ob_heartbeat m h now))"
  unfolding ob_heartbeat_def Let_def
proof (rule ob_moves_lease [OF rtranclp.rtrancl_refl], rule ob_moves_attempt)
  fix e l
  assume e: "map_of (om_events m) (workId h) = Some e" and l: "lease e = Some l"
    and v: "assertValidLease e h now OUTBOX = Inr l"
  have id: "w_id e = workId h" by (rule ob_invD(5) [OF inv e])
  obtain a where a: "map_of (om_attempts m) (attemptId l) = Some a" "att_id a = attemptId l"
    "lastObservedDatabaseAt e < expiresAt l" by (rule leased_attempt [OF inv e l])
  have now: "lastObservedDatabaseAt e \<le> now" using v by (simp add: assertValidLease_iff)
  let ?l1 = "l\<lparr>heartbeatAt := now\<rparr>"
  let ?e1 = "e\<lparr>lease := Some ?l1\<rparr>"
  have same: "put_delivery m a = m" using a by (intro put_delivery_same) simp
  have "ob_move m (put_event (put_delivery m a) (e\<lparr>lease := Some ?l1, lastObservedDatabaseAt := lastObservedDatabaseAt e\<rparr>))"
    by (rule ob_move.renew [OF e l a(1), where l' = ?l1 and now = "lastObservedDatabaseAt e" and a' = a])
       (use a(3) id in \<open>simp_all add: same_lease_def same_attempt_def\<close>)
  then show "ob_moves m (put_event m ?e1)" by (simp add: same r_into_rtranclp)
  fix x assume "addDatabaseDuration now (leaseDurationMs (om_policy m)) = Inr x"
  then have x: "now < x" using ob_policyD(3) [OF inv] by simp
  let ?l2 = "?l1\<lparr>expiresAt := x\<rparr>"
  let ?e2 = "e\<lparr>lease := Some ?l2, lastObservedDatabaseAt := now\<rparr>"
  have put: "put_event (put_event m ?e1) ?e2 = put_event m ?e2" by simp
  have "ob_move m (put_event (put_delivery m a) ?e2)"
    by (rule ob_move.renew [OF e l a(1), where l' = ?l2 and now = now and a' = a])
       (use x now id in \<open>simp_all add: same_lease_def same_attempt_def\<close>)
  then have half: "ob_moves m (put_event m ?e2)" by (simp add: same r_into_rtranclp)
  have "ob_move m (ob_appendAudit (put_delivery (put_event m ?e2) (a\<lparr>att_lastHeartbeatAt := now\<rparr>)) ?e2
      ''OUTBOX_HEARTBEAT'' WORKER (workerId ?l2) (Some (attemptId ?l2)) now
      [(js ''leaseExpiresAt'', js_of_int (expiresAt ?l2))])"
    by (rule ob_move.renew [OF e l a(1), where l' = ?l2 and now = now and a' = "a\<lparr>att_lastHeartbeatAt := now\<rparr>"])
       (use x now id in \<open>simp_all add: same_lease_def same_attempt_def\<close>)
  then show "ob_moves m (snd (attempt (put_event (put_event m ?e1) ?e2)
      (requiredDelivery (put_event (put_event m ?e1) ?e2) (attemptId ?l2))
      (\<lambda>a. (Inr (leaseHandle ?l2), ob_appendAudit (put_delivery (put_event (put_event m ?e1) ?e2)
          (a\<lparr>att_lastHeartbeatAt := now\<rparr>)) ?e2 ''OUTBOX_HEARTBEAT'' WORKER (workerId ?l2)
        (Some (attemptId ?l2)) now [(js ''leaseExpiresAt'', js_of_int (expiresAt ?l2))]))))"
    unfolding put by (intro ob_moves_attempt half) (use a(1) in \<open>auto simp: r_into_rtranclp\<close>)
qed

lemma event_record_ids [simp]:
  "w_id (ob_claimed e l now) = w_id e" "w_id (started_event e now) = w_id e"
  "w_id (delivered_event e ack now) = w_id e" "w_id (failed_event e f now s) = w_id e"
  "w_id (replayed_event e now) = w_id e"
  by (simp_all add: ob_claimed_def started_event_def delivered_event_def failed_event_def replayed_event_def)

lemma ob_startDelivery_moves:
  assumes inv: "ob_inv m"
  shows "ob_moves m (snd (ob_startDelivery m h now))"
  unfolding ob_startDelivery_def Let_def
proof (intro ob_moves_lease ob_moves_attempt rtranclp.rtrancl_refl)
  fix e l a
  assume e: "map_of (om_events m) (workId h) = Some e" and st: "ev_state e = Ob_LEASED" and l: "lease e = Some l"
    and v: "assertValidLease e h now OUTBOX = Inr l" and a: "requiredDelivery m (attemptId l) = Inr a"
  show "ob_moves m (snd (Inr (started_event e now), ob_appendAudit (put_delivery (put_event m (started_event e now))
      (started_attempt a now)) (started_event e now) ''OUTBOX_DELIVERY_STARTED'' WORKER (workerId l)
      (Some (att_id a)) now [(js ''destinationId'', ev_destinationId e), (js ''eventId'', w_id e)]))"
    unfolding snd_conv
    by (rule r_into_rtranclp, rule ob_move.start [OF e l st _ _ _ ob_changed_put(1)])
       (use a v ob_invD(5) [OF inv e] in \<open>simp_all add: assertValidLease_iff\<close>)
qed

lemma ob_acknowledge_moves:
  assumes inv: "ob_inv m"
  shows "ob_moves m (snd (ob_acknowledge m h ack now))"
  unfolding ob_acknowledge_def Let_def
proof (intro ob_moves_lease ob_moves_attempt rtranclp.rtrancl_refl)
  fix e l
  assume e: "map_of (om_events m) (workId h) = Some e" and st: "ev_state e = Ob_DELIVERING" and l: "lease e = Some l"
    and v: "assertValidLease e h now OUTBOX = Inr l"
  have "ob_moves m (ob_appendAudit (put_event (put_delivery m (acked_attempt a ack now)) (delivered_event e ack now))
      (delivered_event e ack now) ''OUTBOX_DELIVERY_ACKNOWLEDGED'' WORKER (workerId l) (Some (att_id a)) now y)"
    if "ack_eventId ack = w_id e" "ack_consumerId ack = ev_destinationId e"
      "map_of (om_attempts m) (attemptId l) = Some a" for a y
    by (rule r_into_rtranclp, rule ob_move.deliver [OF e l st that(3) _ that(1,2) ob_changed_put(2)])
       (use v ob_invD(5) [OF inv e] in \<open>simp_all add: assertValidLease_iff\<close>)
  then show "ob_moves m (snd (if ack_eventId ack \<noteq> w_id e then (Inl IDEMPOTENCY_CONFLICT, m)
     else if ack_consumerId ack \<noteq> ev_destinationId e then (Inl LEASE_MISMATCH, m)
     else attempt m (requiredDelivery m (attemptId l)) (\<lambda>a.
       (Inr (delivered_event e ack now), ob_appendAudit (put_event (put_delivery m (acked_attempt a ack now))
         (delivered_event e ack now)) (delivered_event e ack now) ''OUTBOX_DELIVERY_ACKNOWLEDGED'' WORKER (workerId l)
           (Some (att_id a)) now
           [(js ''consumerDisposition'', disposition_text (ack_disposition ack)),
            (js ''consumerId'', ack_consumerId ack), (js ''eventId'', ack_eventId ack)]))))"
    by (auto simp: attempt_def split: sum.splits)
qed

lemma failed_event_available:
  "(failed_event e f now s)\<lparr>ev_availableAt := ev_availableAt e\<rparr> = failed_event e f now s"
  by (simp add: failed_event_def)

lemma ob_finishFailure_moves:
  assumes inv: "ob_inv m" and e: "map_of (om_events m) k = Some e" and l: "lease e = Some l"
    and a: "map_of (om_attempts m) (attemptId l) = Some a" and now: "lastObservedDatabaseAt e \<le> now"
    and out: "out \<noteq> Att_ACTIVE"
  shows "ob_moves m (snd (ob_finishFailure m e a f now act who out))"
proof -
  have id: "w_id e = k" by (rule ob_invD(5) [OF inv e])
  have dead: "ob_move m (ob_appendAudit (put_event (put_delivery m (failed_delivery a f now Att_DEAD_LETTER))
      (failed_event e f now Ob_DEAD_LETTER)) (failed_event e f now Ob_DEAD_LETTER) ev act who q d y)" for ev q d y
    by (rule ob_move.fail [OF e l a now, where s = Ob_DEAD_LETTER and out = Att_DEAD_LETTER and f = f and t = "ev_availableAt e"])
       (use id in \<open>simp_all add: failed_event_available\<close>)
  show ?thesis
  proof (cases "fc_retryable f \<and> ev_attemptsInCycle e < maximumAttemptsPerCycle (om_policy m)")
    case True
    let ?e = "failed_event e f now Ob_RETRY_WAIT" and ?a = "failed_delivery a f now out"
    let ?m = "put_event (put_delivery m ?a) ?e"
    have "ob_move m ?m"
      by (rule ob_move.fail [OF e l a now, where s = Ob_RETRY_WAIT and out = out and f = f and t = "ev_availableAt e"])
         (use id True out in \<open>simp_all add: failed_event_available\<close>)
    moreover have "ob_move m (ob_appendAudit (put_event (put_delivery m ?a) (?e\<lparr>ev_availableAt := t\<rparr>))
        (?e\<lparr>ev_availableAt := t\<rparr>) ev act who q d y)" for ev q d y t
      by (rule ob_move.fail [OF e l a now, where s = Ob_RETRY_WAIT and out = out and f = f and t = t]) (use id True out in simp_all)
    ultimately show ?thesis
      unfolding ob_finishFailure_def Let_def if_P [OF True]
      by (intro ob_moves_attempt r_into_rtranclp) simp_all
  next
    case False
    then show ?thesis
      unfolding ob_finishFailure_def Let_def if_not_P [OF False] by (simp add: dead r_into_rtranclp)
  qed
qed

lemma ob_failDelivery_moves:
  assumes inv: "ob_inv m"
  shows "ob_moves m (snd (ob_failDelivery m h f now))"
  unfolding ob_failDelivery_def
  by (intro ob_moves_attempt ob_moves_lease rtranclp.rtrancl_refl)
     (auto simp: assertValidLease_iff intro: ob_finishFailure_moves [OF inv])

lemma ob_reclaimOne_moves:
  assumes inv: "ob_inv m" and e: "map_of (om_events m) (w_id e) = Some e"
  shows "ob_moves m (snd (ob_reclaimOne m e now))"
proof (cases "lease e")
  case None
  then show ?thesis by (simp add: ob_reclaimOne_def)
next
  case l: (Some l)
  have "ob_moves m (snd (case ob_finishFailure (ob_appendAudit m e ev t who q d y) e a f now act w Att_LEASE_EXPIRED of
      (Inl err, m2) \<Rightarrow> (Inl err, m2) | (Inr e2, m2) \<Rightarrow> (Inr (Some e2), m2)))"
    if a: "map_of (om_attempts m) (attemptId l) = Some a" and now: "lastObservedDatabaseAt e \<le> now"
    for a ev t who q d y f act w
  proof -
    let ?m = "ob_appendAudit m e ev t who q d y"
    have log: "ob_move m ?m" by (rule ob_move.log [OF refl])
    have "ob_moves ?m (snd (ob_finishFailure ?m e a f now act w Att_LEASE_EXPIRED))"
      by (rule ob_finishFailure_moves [OF ob_move_inv [OF log inv], where k = "w_id e"])
         (use l e a now in simp_all)
    with log show ?thesis
      by (auto split: prod.split sum.split intro: converse_rtranclp_into_rtranclp)
  qed
  then show ?thesis
    by (auto simp: ob_reclaimOne_def l Let_def attempt_def split: sum.splits)
qed

lemma ob_move_events: "ob_move m m' \<Longrightarrow> map_of (om_events m) k = Some e \<Longrightarrow> ob_inv m \<Longrightarrow>
    \<exists>e'. map_of (om_events m') k = Some e' \<and> ev_identity e' = ev_identity e"
  by (induction rule: ob_move.induct) (auto simp: ob_changed_simps)

definition ob_loop_ready :: "OutboxStateModel \<Rightarrow> OutboxEvent list \<Rightarrow> bool" where
  "ob_loop_ready m todo \<longleftrightarrow> ob_inv m \<and> distinct (map w_id todo)
     \<and> (\<forall>e\<in>set todo. map_of (om_events m) (w_id e) = Some e)"

lemma ob_finishFailure_other:
  "q \<noteq> w_id e \<Longrightarrow> map_of (om_events (snd (ob_finishFailure m e a f now act who out))) q = map_of (om_events m) q"
  by (simp add: ob_finishFailure_def Let_def attempt_def split: sum.split)

lemma ob_reclaimOne_other:
  "q \<noteq> w_id e \<Longrightarrow> map_of (om_events (snd (ob_reclaimOne m e now))) q = map_of (om_events m) q"
proof -
  assume q: "q \<noteq> w_id e"
  have "snd (case x of (Inl err, m2) \<Rightarrow> (Inl err, m2) | (Inr e2, m2) \<Rightarrow> (Inr (Some e2), m2)) = snd x"
    for x :: "OutboxEvent ob_outcome" by (auto split: prod.split sum.split)
  then show ?thesis
    using ob_finishFailure_other [OF q]
    by (simp add: ob_reclaimOne_def attempt_def Let_def split: option.split sum.split)
qed

lemma ob_loop_ready_Cons:
  assumes "ob_loop_ready m (e # rest)" and "ob_reclaimOne m e now = (r, m1)"
  shows "ob_loop_ready m1 rest" and "ob_moves m m1"
proof -
  have moves: "ob_moves m m1" using ob_reclaimOne_moves [of m e now] assms by (auto simp: ob_loop_ready_def)
  then have "ob_inv m1" using assms(1) by (auto simp: ob_loop_ready_def intro: ob_moves_inv)
  moreover have "map_of (om_events m1) (w_id x) = Some x" if "x \<in> set rest" for x
    using assms(1) that ob_reclaimOne_other [of "w_id x" e m now] assms(2)
    by (auto simp: ob_loop_ready_def image_iff)
  ultimately show "ob_loop_ready m1 rest" using assms(1) by (simp add: ob_loop_ready_def)
  show "ob_moves m m1" by (rule moves)
qed

lemma ob_reclaimLoop_moves: "ob_loop_ready m todo \<Longrightarrow> ob_moves m (snd (ob_reclaimLoop m todo now))"
proof (induction m todo now rule: ob_reclaimLoop.induct)
  case (1 m now)
  then show ?case by simp
next
  case (2 m e rest now)
  obtain r m1 where one: "ob_reclaimOne m e now = (r, m1)" by fastforce
  note next1 = ob_loop_ready_Cons [OF "2.prems" one]
  have "ob_moves m1 (snd (ob_reclaimLoop m1 rest now))" if "r = Inr x" for x
    using 2 that one next1(1) by simp
  with next1(2) show ?case
    using one by (cases r) (auto split: prod.splits sum.splits intro: rtranclp_trans)
qed

lemma event_in_values:
  assumes "ob_inv m" and "e \<in> set (map_values (om_events m))"
  shows "map_of (om_events m) (w_id e) = Some e"
proof -
  obtain k where k: "map_of (om_events m) k = Some e"
    using assms map_values_iff [OF ob_invD(2) [OF assms(1)]] by blast
  with ob_invD(5) [OF assms(1) k] show ?thesis by simp
qed

lemma ob_reclaim_moves:
  assumes inv: "ob_inv m"
  shows "ob_moves m (snd (ob_reclaimExpiredLeases m now))"
proof -
  have "distinct (map w_id (map_values (om_events m)))"
    by (rule distinct_keyed_ids [OF ob_invD(2,5) [OF inv]])
  then have "ob_loop_ready m (js_sort compareEvents (map_values (om_events m)))"
    using inv event_in_values [OF inv] by (simp add: ob_loop_ready_def distinct_map del: map_map)
  then show ?thesis
    unfolding ob_reclaimExpiredLeases_def
    by (intro ob_moves_attempt rtranclp.rtrancl_refl ob_reclaimLoop_moves)
qed

lemma ob_replay_moves:
  assumes inv: "ob_inv m"
  shows "ob_moves m (snd (ob_replayDeadLetter m k who why now))"
proof -
  have "ob_moves m (ob_appendAudit (put_event m (replayed_event e now)) x ev t w q d y)"
    if "map_of (om_events m) k = Some e" "ev_state e = Ob_DEAD_LETTER" "lastObservedDatabaseAt e \<le> now" for e x ev t w q d y
    by (rule r_into_rtranclp, rule ob_move.replay [OF that ob_changed_put(4)])
       (use ob_invD(5) [OF inv that(1)] in simp)
  then show ?thesis
    unfolding ob_replayDeadLetter_def Let_def
    by (intro ob_moves_attempt rtranclp.rtrancl_refl) auto
qed

lemma ob_claim_candidate:
  assumes inv: "ob_inv m" and "js_sort compareEvents (filter (ob_claimable m i) (map_values (om_events m))) = e # rest"
  shows "map_of (om_events m) (w_id e) = Some e" and "ob_claimable m i e"
proof -
  have "e \<in> set (js_sort compareEvents (filter (ob_claimable m i) (map_values (om_events m))))"
    by (simp add: assms(2))
  then show "map_of (om_events m) (w_id e) = Some e" and "ob_claimable m i e"
    by (simp_all add: event_in_values [OF inv])
qed

lemma ob_claimNext_moves:
  assumes inv: "ob_inv m"
  shows "ob_moves m (snd (ob_claimNext m i))"
proof -
  let ?now = "oc_databaseNow i"
  have "ob_moves m (ob_appendAudit (put_delivery (put_event m (ob_claimed e (ob_new_lease e i x) ?now))
      (ob_new_attempt e i)) (ob_claimed e (ob_new_lease e i x) ?now) ev t w q d y)"
    if "map_of (om_attempts m) (oc_attemptId i) = None"
      "js_sort compareEvents (filter (ob_claimable m i) (map_values (om_events m))) = e # rest"
      "lastObservedDatabaseAt e \<le> ?now" "x = ?now + leaseDurationMs (om_policy m)" for e rest x ev t w q d y
    by (rule r_into_rtranclp,
        rule ob_move.claim [OF ob_claim_candidate(1) [OF inv that(2)] _ _ that(3,1) _ ob_changed_put(1)])
       (use ob_claim_candidate(2) [OF inv that(2)] that(4) ob_policyD(3) [OF inv] in \<open>auto simp: ob_claimable_def\<close>)
  then show ?thesis
    unfolding ob_claimNext_def Let_def
    by (intro ob_moves_attempt rtranclp.rtrancl_refl)
       (auto split: list.split intro!: ob_moves_attempt)
qed

subsection \<open>Committing\<close>

text \<open>What the loop over the batch has checked when it accepts.\<close>

lemma ob_checkBatch_iff:
  "ob_checkBatch m p ids poss es = Inr () \<longleftrightarrow>
     (\<forall>e\<in>set es. validateNewEvent e = Inr () \<and> map_of (om_events m) (ne_id e) = None
        \<and> map_of (om_streamPositions m) (new_position p e) = None \<and> \<not> ob_late m p e)
   \<and> distinct (map ne_id es) \<and> set (map ne_id es) \<inter> set ids = {}
   \<and> distinct (map (new_position p) es) \<and> set (map (new_position p) es) \<inter> set poss = {}"
proof (induction es arbitrary: ids poss)
  case Nil
  then show ?case by simp
next
  case (Cons e es)
  have "(\<exists>x. validateNewEvent e = Inr x) \<longleftrightarrow> validateNewEvent e = Inr ()" by simp
  then show ?case using Cons.IH [of "ne_id e # ids" "new_position p e # poss"] by (auto simp: Let_def)
qed

definition ev_settled :: "OutboxEvent \<Rightarrow> bool" where
  "ev_settled e \<longleftrightarrow> in_flight e \<or> ev_state e = Ob_DELIVERED"

text \<open>A fresh event can be stored when no event that has advanced follows it in its stream.\<close>

definition storable :: "OutboxStateModel \<Rightarrow> OutboxEvent \<Rightarrow> bool" where
  "storable m e \<longleftrightarrow> map_of (om_events m) (w_id e) = None
     \<and> map_of (om_streamPositions m) (event_position e) = None
     \<and> ev_state e = Ob_PENDING \<and> lease e = None \<and> ev_attemptsInCycle e = 0 \<and> ev_totalAttempts e = 0
     \<and> (\<forall>k x. map_of (om_events m) k = Some x \<and> ev_settled x \<and> streamKey x = streamKey e \<longrightarrow>
          ev_changeSetSequence x < ev_changeSetSequence e)"

lemma ob_storeOne_simps:
  "om_policy (ob_storeOne now m e) = om_policy m"
  "om_events (ob_storeOne now m e) = AList.update (w_id e) e (om_events m)"
  "om_attempts (ob_storeOne now m e) = om_attempts m"
  "om_transactions (ob_storeOne now m e) = om_transactions m"
  "om_streamPositions (ob_storeOne now m e) = AList.update (event_position e) (w_id e) (om_streamPositions m)"
  "audit_contiguous (om_audit (ob_storeOne now m e)) = audit_contiguous (om_audit m)"
  "event_attempts (ob_storeOne now m e) = event_attempts m"
  "prefix (om_audit m) (om_audit (ob_storeOne now m e))"
  by (simp_all add: ob_storeOne_def Let_def event_attempts_def fun_eq_iff ob_appendAudit_def)

lemma ob_storeOne_inv:
  assumes inv: "ob_inv m" and st: "storable m e"
  shows "ob_inv (ob_storeOne now m e)" (is "ob_inv ?m")
proof (rule ob_invI; unfold ob_storeOne_simps)
  have fresh: "map_of (om_events m) (w_id e) = None" "map_of (om_streamPositions m) (event_position e) = None"
    and e: "ev_state e = Ob_PENDING" "lease e = None" "ev_attemptsInCycle e = 0" "ev_totalAttempts e = 0"
    and first: "\<And>k x. map_of (om_events m) k = Some x \<Longrightarrow> ev_settled x \<Longrightarrow> streamKey x = streamKey e \<Longrightarrow>
      ev_changeSetSequence x < ev_changeSetSequence e"
    using st by (auto simp: storable_def)
  show "assertRetryPolicy (om_policy m) = Inr ()" "wf_jsmap (AList.update (w_id e) e (om_events m))"
    "wf_jsmap (om_attempts m)" "audit_contiguous (om_audit m)"
    using ob_invD(1-4) [OF inv] by simp_all
  show "tx_good ?m t" if "t \<in> set (map_values (om_transactions m))" for t
    using ob_invD(9) [OF inv that] fresh(1) by (auto simp: tx_good_def ob_storeOne_simps)
  show "att_id a = i \<and> att_good ?m a" if a: "map_of (om_attempts m) i = Some a" for i a
    using ob_invD(7,8) [OF inv a] fresh(1) by (auto simp: att_good_def ob_storeOne_simps)
  have "map_of (om_attempts m) i = Some a \<Longrightarrow> att_workId a \<noteq> w_id e" for i a
    using ob_invD(8) [OF inv, of i a] fresh(1) by (auto simp: att_good_def)
  then have "\<forall>a\<in>set (map_values (om_attempts m)). att_workId a \<noteq> w_id e"
    using map_values_iff [OF ob_invD(3) [OF inv]] by metis
  then have none: "event_attempts m (w_id e) = []" by (auto simp: event_attempts_def filter_empty_conv)
  show "w_id y = k \<and> ev_good ?m y" if y: "map_of (AList.update (w_id e) e (om_events m)) k = Some y" for k y
  proof (cases "k = w_id e")
    case True
    with y have "y = e" by simp
    then show ?thesis
      using True e none ob_policyD(1) [OF inv] by (simp add: ev_good_def ob_storeOne_simps in_flight_def)
  next
    case False
    with y have y: "map_of (om_events m) k = Some y" by simp
    note old = ob_invD(5,6) [OF inv y]
    have "ev_ready ?m y" if "ev_ready m y" "ev_settled y"
    proof -
      have "\<not> compareStreamPosition e y < 0" if "streamKey e = streamKey y"
        using first [OF y \<open>ev_settled y\<close>] that by (simp add: compareStreamPosition_def)
      with \<open>ev_ready m y\<close> show ?thesis by (auto simp: ev_ready_def ob_storeOne_simps)
    qed
    moreover have "ev_leased ?m y = ev_leased m y" by (simp add: ev_leased_def ob_storeOne_simps)
    moreover have "event_position y \<noteq> event_position e" using old(2) fresh(2) by (auto simp: ev_good_def)
    ultimately show ?thesis
      using old unfolding ev_good_def ob_storeOne_simps ev_settled_def by auto
  qed
qed

lemma ob_storeAll:
  assumes "ob_inv m" and "\<forall>e\<in>set es. storable m e" and "distinct (map w_id es)" and "distinct (map event_position es)"
  shows "ob_inv (foldl (ob_storeOne now) m es)
    \<and> (\<forall>k. map_of (om_events (foldl (ob_storeOne now) m es)) k =
         (case find (\<lambda>e. w_id e = k) es of None \<Rightarrow> map_of (om_events m) k | Some e \<Rightarrow> Some e))
    \<and> om_transactions (foldl (ob_storeOne now) m es) = om_transactions m
    \<and> prefix (om_audit m) (om_audit (foldl (ob_storeOne now) m es))"
  using assms
proof (induction es arbitrary: m)
  case Nil
  then show ?case by simp
next
  case (Cons e es)
  let ?m = "ob_storeOne now m e"
  have st: "storable m e" using Cons.prems by simp
  then have "ev_state e = Ob_PENDING" by (simp add: storable_def)
  then have "storable ?m x" if x: "x \<in> set es" for x
  proof -
    have "w_id x \<noteq> w_id e" using Cons.prems(3) x by (force simp: image_iff)
    moreover have "event_position x \<noteq> event_position e" using Cons.prems(4) x by (force simp: image_iff)
    moreover have "storable m x" using Cons.prems(2) x by simp
    ultimately show ?thesis
      using \<open>ev_state e = Ob_PENDING\<close> by (auto simp: storable_def ob_storeOne_simps ev_settled_def in_flight_def)
  qed
  then have "ob_inv (foldl (ob_storeOne now) ?m es)
    \<and> (\<forall>k. map_of (om_events (foldl (ob_storeOne now) ?m es)) k =
         (case find (\<lambda>e. w_id e = k) es of None \<Rightarrow> map_of (om_events ?m) k | Some e \<Rightarrow> Some e))
    \<and> om_transactions (foldl (ob_storeOne now) ?m es) = om_transactions ?m
    \<and> prefix (om_audit ?m) (om_audit (foldl (ob_storeOne now) ?m es))"
    using Cons.prems by (intro Cons.IH ob_storeOne_inv [OF Cons.prems(1) st]) auto
  moreover have "find (\<lambda>x. w_id x = w_id e) es = None"
    using Cons.prems(3) unfolding find_None_iff by (simp add: image_iff) metis
  moreover have "prefix (om_audit m) z" if "prefix (om_audit ?m) z" for z
    using ob_storeOne_simps(8) [of m now e] that by (rule prefix_order.trans)
  ultimately show ?case by (simp add: ob_storeOne_simps split: option.split)
qed

lemma new_event_record_simps [simp]:
  "w_id (new_event_record i e) = ne_id e" "ev_state (new_event_record i e) = Ob_PENDING"
  "event_position (new_event_record i e) = new_position (ct_projectId i) e"
  "streamKey (new_event_record i e) = stream_key_of (ct_projectId i) (ne_destinationId e) (ne_objectRid e)"
  "ev_changeSetSequence (new_event_record i e) = ne_changeSetSequence e"
  "ev_businessTransactionId (new_event_record i e) = ct_businessTransactionId i"
  "lease (new_event_record i e) = None" "ev_attemptsInCycle (new_event_record i e) = 0"
  "ev_totalAttempts (new_event_record i e) = 0"
  by (simp_all add: new_event_record_def event_position_def new_position_def streamKey_def)

definition commit_record :: "CommitBusinessTransactionInput \<Rightarrow> BusinessTransactionRecord" where
  "commit_record i = \<lparr>bt_id = ct_businessTransactionId i, bt_transactionDigest = ct_transactionDigest i,
     bt_eventDefinitionSignature = eventDefinitionSignature (ct_events i),
     bt_eventIds = map ne_id (ct_events i), bt_committedAt = ct_databaseNow i\<rparr>"

definition commit_state :: "OutboxStateModel \<Rightarrow> CommitBusinessTransactionInput \<Rightarrow> OutboxStateModel" where
  "commit_state m i = (let m1 = foldl (ob_storeOne (ct_databaseNow i)) m (map (new_event_record i) (ct_events i))
     in m1\<lparr>om_transactions := AList.update (ct_businessTransactionId i) (commit_record i) (om_transactions m1)\<rparr>)"

lemma ob_commit_cases:
  assumes "ob_commit m i = (r, m')"
  obtains (unchanged) "m' = m"
  | (committed) "map_of (om_transactions m) (ct_businessTransactionId i) = None"
      "ob_checkBatch m (ct_projectId i) [] [] (ct_events i) = Inr ()"
      "r = Inr (map (new_event_record i) (ct_events i))" "m' = commit_state m i"
proof (cases "validateCommit i = Inr () \<and> map_of (om_transactions m) (ct_businessTransactionId i) = None
    \<and> ob_checkBatch m (ct_projectId i) [] [] (ct_events i) = Inr ()")
  case True
  have "(w_id \<circ> new_event_record i) = ne_id" by (simp add: fun_eq_iff)
  with True assms show ?thesis
    by (intro committed) (simp_all add: ob_commit_def Let_def commit_state_def commit_record_def)
next
  case False
  then have "snd (ob_commit m i) = m"
    by (auto simp: ob_commit_def Let_def attempt_def split: sum.splits option.splits)
  with assms show ?thesis by (intro unchanged) auto
qed

lemma commit_storable:
  assumes "ob_inv m" and "ob_checkBatch m (ct_projectId i) [] [] (ct_events i) = Inr ()"
  shows "\<forall>e\<in>set (map (new_event_record i) (ct_events i)). storable m e"
proof
  fix x assume "x \<in> set (map (new_event_record i) (ct_events i))"
  then obtain e where e: "e \<in> set (ct_events i)" "x = new_event_record i e" by auto
  have ok: "map_of (om_events m) (ne_id e) = None" "map_of (om_streamPositions m) (new_position (ct_projectId i) e) = None"
    "\<not> ob_late m (ct_projectId i) e"
    using assms(2) e(1) by (auto simp: ob_checkBatch_iff)
  have "ev_changeSetSequence y < ne_changeSetSequence e"
    if "map_of (om_events m) k = Some y" "streamKey y = stream_key_of (ct_projectId i) (ne_destinationId e) (ne_objectRid e)"
    for k y
  proof -
    have "y \<in> set (map_values (om_events m))" using that(1) by (force dest: map_of_SomeD)
    with ok(3) that(2) show ?thesis by (auto simp: ob_late_def list_ex_iff)
  qed
  with ok e(2) show "storable m x" by (auto simp: storable_def)
qed

lemma commit_state_facts:
  assumes inv: "ob_inv m" and check: "ob_checkBatch m (ct_projectId i) [] [] (ct_events i) = Inr ()"
  shows "ob_inv (commit_state m i)"
    and "map_of (om_events (commit_state m i)) k =
      (case find (\<lambda>e. ne_id e = k) (ct_events i) of None \<Rightarrow> map_of (om_events m) k
       | Some e \<Rightarrow> Some (new_event_record i e))"
    and "om_transactions (commit_state m i) =
      AList.update (ct_businessTransactionId i) (commit_record i) (om_transactions m)"
    and "prefix (om_audit m) (om_audit (commit_state m i))"
proof -
  let ?es = "map (new_event_record i) (ct_events i)"
  let ?m1 = "foldl (ob_storeOne (ct_databaseNow i)) m ?es"
  have "distinct (map w_id ?es)" "distinct (map event_position ?es)"
    using check by (simp_all add: ob_checkBatch_iff comp_def)
  note all = ob_storeAll [OF inv commit_storable [OF inv check] this, of "ct_databaseNow i"]
  have find: "find (\<lambda>e. w_id e = k) (map (new_event_record i) es) = map_option (new_event_record i) (find (\<lambda>e. ne_id e = k) es)"
    for es k by (induction es) auto
  have ev: "map_of (om_events ?m1) k = (case find (\<lambda>e. ne_id e = k) (ct_events i) of None \<Rightarrow> map_of (om_events m) k
       | Some e \<Rightarrow> Some (new_event_record i e))" for k
    using all by (auto simp: find split: option.split)
  then show "map_of (om_events (commit_state m i)) k = (case find (\<lambda>e. ne_id e = k) (ct_events i) of
      None \<Rightarrow> map_of (om_events m) k | Some e \<Rightarrow> Some (new_event_record i e))"
    by (simp add: commit_state_def Let_def)
  show "om_transactions (commit_state m i) =
      AList.update (ct_businessTransactionId i) (commit_record i) (om_transactions m)"
    "prefix (om_audit m) (om_audit (commit_state m i))"
    using all by (simp_all add: commit_state_def Let_def)
  have sel: "event_attempts (commit_state m i) = event_attempts ?m1"
    by (simp add: commit_state_def Let_def event_attempts_def fun_eq_iff)
  have good: "ev_good (commit_state m i) x = ev_good ?m1 x" "att_good (commit_state m i) a = att_good ?m1 a"
    "tx_good (commit_state m i) b = tx_good ?m1 b" for x a b
    unfolding ev_good_def ev_leased_def ev_ready_def att_good_def tx_good_def sel
    by (simp_all add: commit_state_def Let_def)
  have own: "tx_good ?m1 (commit_record i)"
  proof -
    have "\<exists>x. find (\<lambda>e. ne_id e = k) (ct_events i) = Some x" if "k \<in> ne_id ` set (ct_events i)" for k
      using that by (cases "find (\<lambda>e. ne_id e = k) (ct_events i)") (auto simp: find_None_iff)
    then show ?thesis by (force simp: tx_good_def commit_record_def ev)
  qed
  have tx: "tx_good ?m1 t" if "t \<in> set (map_values (om_transactions (commit_state m i)))" for t
  proof -
    have "t = commit_record i \<or> t \<in> set (map_values (om_transactions ?m1))"
      using that map_values_update [of t "ct_businessTransactionId i" "commit_record i" "om_transactions ?m1"]
      by (simp add: commit_state_def Let_def)
    then show ?thesis using own ob_invD(9) [of ?m1 t] all by blast
  qed
  have inv1: "ob_inv ?m1" using all by blast
  have same: "om_policy (commit_state m i) = om_policy ?m1" "om_events (commit_state m i) = om_events ?m1"
    "om_attempts (commit_state m i) = om_attempts ?m1" "om_audit (commit_state m i) = om_audit ?m1"
    by (simp_all add: commit_state_def Let_def)
  show "ob_inv (commit_state m i)"
  proof (rule ob_invI; unfold same good)
    show "w_id e = k \<and> ev_good ?m1 e" if "map_of (om_events ?m1) k = Some e" for k e
      using ob_invD(5,6) [OF inv1 that] by blast
    show "att_id a = k \<and> att_good ?m1 a" if "map_of (om_attempts ?m1) k = Some a" for k a
      using ob_invD(7,8) [OF inv1 that] by blast
  qed (fact ob_invD(1-4) [OF inv1] tx)+
qed

subsection \<open>The transition system\<close>

datatype ob_op =
    Ob_commit CommitBusinessTransactionInput
  | Ob_claimNext OutboxClaimInput
  | Ob_heartbeat LeaseHandle int
  | Ob_startDelivery LeaseHandle int
  | Ob_acknowledge LeaseHandle ConsumerAcknowledgement int
  | Ob_failDelivery LeaseHandle FailureCause int
  | Ob_reclaimExpiredLeases int
  | Ob_replayDeadLetter jsstring jsstring jsstring int

text \<open>A step is a call of a method with any arguments, whether it returns or throws.\<close>

primrec ob_call :: "OutboxStateModel \<Rightarrow> ob_op \<Rightarrow> OutboxStateModel" where
  "ob_call m (Ob_commit i) = snd (ob_commit m i)"
| "ob_call m (Ob_claimNext i) = snd (ob_claimNext m i)"
| "ob_call m (Ob_heartbeat h now) = snd (ob_heartbeat m h now)"
| "ob_call m (Ob_startDelivery h now) = snd (ob_startDelivery m h now)"
| "ob_call m (Ob_acknowledge h ack now) = snd (ob_acknowledge m h ack now)"
| "ob_call m (Ob_failDelivery h f now) = snd (ob_failDelivery m h f now)"
| "ob_call m (Ob_reclaimExpiredLeases now) = snd (ob_reclaimExpiredLeases m now)"
| "ob_call m (Ob_replayDeadLetter k who why now) = snd (ob_replayDeadLetter m k who why now)"

definition ob_step :: "OutboxStateModel \<Rightarrow> ob_op \<Rightarrow> OutboxStateModel \<Rightarrow> bool" where
  "ob_step m op m' \<longleftrightarrow> m' = ob_call m op"

definition ob_init :: "OutboxStateModel \<Rightarrow> bool" where
  "ob_init m \<longleftrightarrow> (\<exists>p. new_OutboxStateModel p = Inr m)"

lemma ob_call_moves:
  assumes "ob_inv m" and "\<nexists>i. op = Ob_commit i"
  shows "ob_moves m (ob_call m op)"
  using assms by (cases op) (auto intro: ob_claimNext_moves ob_heartbeat_moves ob_startDelivery_moves
    ob_acknowledge_moves ob_failDelivery_moves ob_reclaim_moves ob_replay_moves)

lemma ob_step_inv:
  assumes inv: "ob_inv m" and step: "ob_step m op m'"
  shows "ob_inv m'"
proof (cases "\<exists>i. op = Ob_commit i")
  case True
  then obtain i where "op = Ob_commit i" by blast
  with step have "ob_commit m i = (fst (ob_commit m i), m')" by (simp add: ob_step_def)
  then show ?thesis by (cases rule: ob_commit_cases) (use inv commit_state_facts(1) [OF inv] in auto)
next
  case False
  with ob_call_moves [OF inv False] step inv show ?thesis by (auto simp: ob_step_def intro: ob_moves_inv)
qed

lemma ob_inv_init: "ob_init m \<Longrightarrow> ob_inv m"
  by (auto simp: ob_init_def new_OutboxStateModel_def ob_inv_def)

interpretation outbox_machine: inductive_invariant ob_init ob_step ob_inv
  by unfold_locales (auto intro: ob_inv_init ob_step_inv)

end
