(* ===== verification/OutboxProperties.thy ===== *)
theory OutboxProperties
  imports OutboxSteps "HOL-Library.Multiset"
begin

text \<open>
  The properties of the outbox: its own invariant check never fails, delivery in stream order,
  progress and fencing, atomic and idempotent commits, and the delivery status of an action.
\<close>

subsection \<open>The invariant implies the code's check\<close>

lemma filter_values_single:
  assumes wf: "wf_jsmap xs" and k: "map_of xs k = Some v" "P v"
    and only: "\<And>k' v'. map_of xs k' = Some v' \<Longrightarrow> P v' \<Longrightarrow> k' = k"
  shows "filter P (map_values xs) = [v]"
  using assms
proof (induction xs)
  case Nil
  then show ?case by simp
next
  case (Cons kv xs)
  obtain k' v' where kv: "kv = (k', v')" by fastforce
  have tl: "map_of xs q = Some w \<Longrightarrow> q \<noteq> k'" for q w
    using Cons.prems(1) by (force simp: kv wf_jsmap_def dest: map_of_SomeD)
  show ?case
  proof (cases "k' = k")
    case True
    have "\<not> P w" if w: "w \<in> set (map_values xs)" for w
    proof
      assume "P w"
      obtain q where q: "map_of xs q = Some w"
        using w map_values_iff [of xs w] Cons.prems(1) by (auto simp: kv wf_jsmap_def)
      with tl [OF q] have "map_of (kv # xs) q = Some w" by (simp add: kv)
      from Cons.prems(4) [OF this \<open>P w\<close>] tl [OF q] True show False by simp
    qed
    with Cons.prems(2,3) True show ?thesis by (auto simp: kv filter_empty_conv)
  next
    case False
    with Cons.prems(4) [of k' v'] have "\<not> P v'" by (auto simp: kv)
    moreover have "filter P (map_values xs) = [v]"
    proof (rule Cons.IH)
      show "wf_jsmap xs" "map_of xs k = Some v" "P v" using Cons.prems False by (auto simp: kv wf_jsmap_def)
      show "q = k" if "map_of xs q = Some w" "P w" for q w
        using Cons.prems(4) [of q w] tl [OF that(1)] that by (simp add: kv)
    qed
    ultimately show ?thesis by (simp add: kv)
  qed
qed

lemma active_of_event:
  assumes inv: "ob_inv m" and e: "map_of (om_events m) k = Some e"
  shows "lease e = None \<Longrightarrow> filter (\<lambda>a. att_outcome a = Att_ACTIVE) (event_attempts m k) = []"
    and "lease e = Some l \<Longrightarrow> map_of (om_attempts m) (attemptId l) = Some a \<Longrightarrow>
      filter (\<lambda>a. att_outcome a = Att_ACTIVE) (event_attempts m k) = [a]"
proof -
  let ?P = "\<lambda>a. (att_workKind a = OUTBOX \<and> att_workId a = k) \<and> att_outcome a = Att_ACTIVE"
  have eq: "filter (\<lambda>a. att_outcome a = Att_ACTIVE) (event_attempts m k) = filter ?P (map_values (om_attempts m))"
    by (simp add: event_attempts_def conj_commute)
  have only: "\<exists>l. lease e = Some l \<and> attemptId l = i" if "map_of (om_attempts m) i = Some a" "?P a" for i a
    using active_attempt_leased [OF inv that(1)] that(2) e by auto
  show "filter (\<lambda>a. att_outcome a = Att_ACTIVE) (event_attempts m k) = []" if "lease e = None"
  proof -
    have "\<not> ?P a" if "a \<in> set (map_values (om_attempts m))" for a
      using that map_values_iff [OF ob_invD(3) [OF inv]] only [of _ a] \<open>lease e = None\<close> by fastforce
    then show ?thesis unfolding eq by (simp add: filter_empty_conv)
  qed
  show "filter (\<lambda>a. att_outcome a = Att_ACTIVE) (event_attempts m k) = [a]"
    if l: "lease e = Some l" and a: "map_of (om_attempts m) (attemptId l) = Some a"
  proof -
    obtain b where "map_of (om_attempts m) (attemptId l) = Some b" "?P b"
      by (rule leased_attempt [OF inv e l]) blast
    then have "?P a" using a by simp
    then show ?thesis
      unfolding eq by (rule filter_values_single [where k = "attemptId l" and P = ?P, OF ob_invD(3) [OF inv] a])
        (use only l in fastforce)
  qed
qed

lemma ob_event_asserts:
  assumes inv: "ob_inv m" and e: "map_of (om_events m) (w_id e) = Some e"
  shows "ob_assertEvent m e = Inr ()"
proof -
  note good = ob_invD(6) [OF inv e, unfolded ev_good_def]
  have ready: "in_flight e \<or> ev_state e = Ob_DELIVERED \<longrightarrow> \<not> list_ex (\<lambda>p. ev_state p \<noteq> Ob_DELIVERED) (predecessors m e)"
    using good ev_ready_iff [OF inv] by (simp add: hasUndeliveredPredecessor_def)
  show ?thesis
  proof (cases "in_flight e")
    case True
    with good obtain l where l: "lease e = Some l" by (auto simp: ev_leased_def)
    obtain a where a: "map_of (om_attempts m) (attemptId l) = Some a" "att_id a = attemptId l"
      "ev_state e = Ob_LEASED \<longleftrightarrow> deliveryStartedAt a = None" by (rule leased_attempt [OF inv e l])
    have "ev_state e = Ob_DELIVERING \<longrightarrow> ev_state e \<noteq> Ob_LEASED" by simp
    then show ?thesis
      using good True ready a active_of_event(2) [OF inv e l a(1)] l
      by (auto simp: ob_assertEvent_def Let_def)
  next
    case False
    with good have "lease e = None" by simp
    then show ?thesis
      using good False ready active_of_event(1) [OF inv e] by (simp add: ob_assertEvent_def Let_def)
  qed
qed

subsection \<open>Streams\<close>

lemma compareStreamPosition_less:
  "compareStreamPosition x y < 0 \<longleftrightarrow>
     ev_changeSetSequence x < ev_changeSetSequence y
   \<or> ev_changeSetSequence x = ev_changeSetSequence y \<and> (ev_eventOrdinal x < ev_eventOrdinal y
   \<or> ev_eventOrdinal x = ev_eventOrdinal y \<and> w_id x < w_id y)"
  by (auto simp: compareStreamPosition_def or_else_def compareBy_def)

lemma streamKey_eq_iff [simp]:
  "streamKey x = streamKey y \<longleftrightarrow> ev_projectId x = ev_projectId y
     \<and> ev_destinationId x = ev_destinationId y \<and> ev_objectRid x = ev_objectRid y"
  by (simp add: streamKey_def stream_key_of_def)

lemma stream_exclusive:
  assumes inv: "ob_inv m" and x: "map_of (om_events m) i = Some x" and y: "map_of (om_events m) k = Some y"
    and fl: "in_flight x" "in_flight y" and key: "streamKey x = streamKey y"
  shows "i = k"
proof (rule ccontr)
  assume "i \<noteq> k"
  then have "w_id x \<noteq> w_id y" using ob_invD(5) [OF inv] x y by metis
  then have "compareStreamPosition x y < 0 \<or> compareStreamPosition y x < 0"
    unfolding compareStreamPosition_less by auto
  moreover have "ev_ready m x" "ev_ready m y" using ob_invD(6) [OF inv] x y fl by (auto simp: ev_good_def)
  ultimately have "ev_state x = Ob_DELIVERED \<or> ev_state y = Ob_DELIVERED"
    using x y key by (auto simp: ev_ready_def simp del: streamKey_eq_iff)
  with fl show False by (auto simp: in_flight_def)
qed

lemma ob_assertStreams_ok:
  assumes "distinct (map streamKey (filter in_flight es))"
    and "set (map streamKey (filter in_flight es)) \<inter> set keys = {}"
  shows "ob_assertStreams keys es = Inr ()"
  using assms by (induction es arbitrary: keys) auto

lemma ob_streams_assert:
  assumes inv: "ob_inv m"
  shows "ob_assertStreams [] (map_values (om_events m)) = Inr ()"
proof (rule ob_assertStreams_ok)
  have "distinct (map w_id (map_values (om_events m)))"
    by (rule distinct_keyed_ids [OF ob_invD(2,5) [OF inv]])
  then have d: "distinct (map_values (om_events m))" by (simp only: distinct_map)
  have "inj_on streamKey (set (filter in_flight (map_values (om_events m))))"
  proof (rule inj_onI)
    fix x y
    assume x: "x \<in> set (filter in_flight (map_values (om_events m)))"
      and y: "y \<in> set (filter in_flight (map_values (om_events m)))" and key: "streamKey x = streamKey y"
    from x y have fl: "in_flight x" "in_flight y" and xs: "x \<in> set (map_values (om_events m))"
      "y \<in> set (map_values (om_events m))" by simp_all
    note ex = event_in_values [OF inv xs(1)] and ey = event_in_values [OF inv xs(2)]
    have "w_id x = w_id y" by (rule stream_exclusive [OF inv ex ey fl key])
    then have "Some x = Some y" unfolding ex [symmetric] ey [symmetric] by simp
    then show "x = y" by simp
  qed
  with d show "distinct (map streamKey (filter in_flight (map_values (om_events m))))"
    by (simp add: distinct_map)
qed simp

lemma ob_inv_asserts:
  assumes inv: "ob_inv m"
  shows "ob_assertInvariants m = Inr ()"
proof -
  have ev: "mapM (ob_assertEvent m) (map_values (om_events m)) = Inr (map (\<lambda>_. ()) (map_values (om_events m)))"
    by (rule mapM_Inr) (rule ob_event_asserts [OF inv event_in_values [OF inv]])
  have tx: "mapM (ob_assertTransaction m) (map_values (om_transactions m)) =
      Inr (map (\<lambda>_. ()) (map_values (om_transactions m)))"
  proof (rule mapM_Inr)
    fix t assume "t \<in> set (map_values (om_transactions m))"
    from ob_invD(9) [OF inv this] show "ob_assertTransaction m t = Inr ()"
      by (force simp: tx_good_def ob_assertTransaction_def list_all_iff)
  qed
  show ?thesis
    using ob_invD(4) [OF inv] by (simp add: ob_assertInvariants_def ev tx ob_streams_assert [OF inv])
qed

subsection \<open>An example\<close>

definition example_event :: "string \<Rightarrow> int \<Rightarrow> NewOutboxEvent" where
  "example_event k n = \<lparr>ne_id = js k, ne_actionExecutionId = js ''x'', ne_changeSetId = js ''c'',
     ne_changeSetSequence = n, ne_eventOrdinal = 0, ne_objectRid = js ''o'', ne_destinationId = js ''d'',
     ne_eventType = js ''t'', ne_payloadSchemaVersion = js ''1'', ne_payloadDigest = js ''h'', ne_actorId = js ''u''\<rparr>"

definition example_commit :: CommitBusinessTransactionInput where
  "example_commit = \<lparr>ct_businessTransactionId = js ''b'', ct_transactionDigest = js ''z'',
     ct_projectId = js ''p'', ct_correlationId = js ''r'', ct_databaseNow = 1000,
     ct_events = [example_event ''e2'' 2, example_event ''e1'' 1]\<rparr>"

definition example_o0 :: OutboxStateModel where
  "example_o0 = \<lparr>om_policy = defaultOutboxRetryPolicy, om_events = [], om_attempts = [], om_transactions = [],
     om_streamPositions = [], om_audit = []\<rparr>"

definition example_o1 :: OutboxStateModel where
  "example_o1 = ob_call example_o0 (Ob_commit example_commit)"

definition example_o2 :: OutboxStateModel where
  "example_o2 = ob_call example_o1 (Ob_claimNext \<lparr>oc_workerId = js ''w'', oc_attemptId = js ''a'',
     oc_databaseNow = 2000, oc_destinationId = None\<rparr>)"

lemma example_outbox_run:
  "ob_init example_o0" "reaches ob_step example_o0 example_o1" "reaches ob_step example_o1 example_o2"
  "reaches ob_step example_o0 example_o2"
proof -
  have p: "assertRetryPolicy defaultOutboxRetryPolicy = Inr ()" by code_simp
  show "ob_init example_o0"
    unfolding ob_init_def by (rule exI [of _ defaultOutboxRetryPolicy]) (simp add: new_OutboxStateModel_def p example_o0_def)
  have s1: "ob_step example_o0 (Ob_commit example_commit) example_o1" by (simp add: ob_step_def example_o1_def)
  have s2: "\<exists>op. ob_step example_o1 op example_o2" unfolding ob_step_def example_o2_def by blast
  show one: "reaches ob_step example_o0 example_o1" using s1 by (blast intro: reaches_step reaches_refl)
  show "reaches ob_step example_o1 example_o2" using s2 by (blast intro: reaches_step reaches_refl)
  show "reaches ob_step example_o0 example_o2"
    using s2 one by (blast intro: reaches_step)
qed

text \<open>
  Claim C5. In every state that any sequence of calls reaches from a newly constructed outbox, with
  any arguments and whether the calls return or throw, \<open>assertInvariants\<close> finds nothing wrong.
\<close>

theorem outbox_invariants_hold:
  assumes "ob_init m0" and "reaches ob_step m0 m"
  shows "ob_assertInvariants m = Inr ()"
  by (rule ob_inv_asserts [OF outbox_machine.inv_reachable [OF assms]])

theorem outbox_invariants_hold_witness:
  "ob_assertInvariants example_o2 = Inr ()
   \<and> map (\<lambda>e. (w_id e, ev_state e)) (map_values (om_events example_o2)) = [(js ''e2'', Ob_PENDING), (js ''e1'', Ob_LEASED)]"
proof
  show "ob_assertInvariants example_o2 = Inr ()" by (rule outbox_invariants_hold [OF example_outbox_run(1,4)])
  show "map (\<lambda>e. (w_id e, ev_state e)) (map_values (om_events example_o2)) = [(js ''e2'', Ob_PENDING), (js ''e1'', Ob_LEASED)]"
    by code_simp
qed

text \<open>
  Claim C7. Delivery respects the order of a stream. In every reachable state, if an event is leased,
  being delivered or delivered, then every event for the same project, destination and object with
  a smaller change-set sequence, or the same sequence and a smaller ordinal, has been delivered;
  and at most one event of a stream is in flight.
\<close>

theorem outbox_in_order:
  assumes "ob_init m0" and "reaches ob_step m0 m"
    and x: "map_of (om_events m) i = Some x" and y: "map_of (om_events m) k = Some y"
    and stream: "ev_projectId x = ev_projectId y" "ev_destinationId x = ev_destinationId y"
      "ev_objectRid x = ev_objectRid y"
  shows "(ev_state y \<in> {Ob_LEASED, Ob_DELIVERING, Ob_DELIVERED}
      \<and> (ev_changeSetSequence x < ev_changeSetSequence y
         \<or> ev_changeSetSequence x = ev_changeSetSequence y \<and> ev_eventOrdinal x < ev_eventOrdinal y)
      \<longrightarrow> ev_state x = Ob_DELIVERED)
    \<and> (ev_state x \<in> {Ob_LEASED, Ob_DELIVERING} \<and> ev_state y \<in> {Ob_LEASED, Ob_DELIVERING} \<longrightarrow> i = k)"
proof -
  have inv: "ob_inv m" by (rule outbox_machine.inv_reachable [OF assms(1,2)])
  have key: "streamKey x = streamKey y" using stream by simp
  have ready: "ev_ready m y" if "ev_state y \<in> {Ob_LEASED, Ob_DELIVERING, Ob_DELIVERED}"
    using ob_invD(6) [OF inv y] that unfolding ev_good_def in_flight_def by blast
  show ?thesis
  proof (intro conjI impI)
    assume hyp: "ev_state y \<in> {Ob_LEASED, Ob_DELIVERING, Ob_DELIVERED}
      \<and> (ev_changeSetSequence x < ev_changeSetSequence y
         \<or> ev_changeSetSequence x = ev_changeSetSequence y \<and> ev_eventOrdinal x < ev_eventOrdinal y)"
    then have "compareStreamPosition x y < 0" unfolding compareStreamPosition_less by blast
    with ready hyp x key show "ev_state x = Ob_DELIVERED" unfolding ev_ready_def by blast
  next
    assume "ev_state x \<in> {Ob_LEASED, Ob_DELIVERING} \<and> ev_state y \<in> {Ob_LEASED, Ob_DELIVERING}"
    then show "i = k" by (intro stream_exclusive [OF inv x y _ _ key]) (auto simp: in_flight_def)
  qed
qed

theorem outbox_in_order_witness:
  "\<exists>x y. map_of (om_events example_o2) (js ''e1'') = Some x \<and> map_of (om_events example_o2) (js ''e2'') = Some y
     \<and> (ev_state y \<in> {Ob_LEASED, Ob_DELIVERING, Ob_DELIVERED} \<longrightarrow> ev_state x = Ob_DELIVERED)"
proof -
  obtain x y where xy: "map_of (om_events example_o2) (js ''e1'') = Some x" "map_of (om_events example_o2) (js ''e2'') = Some y"
    and same: "ev_projectId x = ev_projectId y" "ev_destinationId x = ev_destinationId y" "ev_objectRid x = ev_objectRid y"
      "ev_changeSetSequence x < ev_changeSetSequence y"
  proof -
    have "case (map_of (om_events example_o2) (js ''e1''), map_of (om_events example_o2) (js ''e2'')) of
        (Some x, Some y) \<Rightarrow> ev_projectId x = ev_projectId y \<and> ev_destinationId x = ev_destinationId y
          \<and> ev_objectRid x = ev_objectRid y \<and> ev_changeSetSequence x < ev_changeSetSequence y
      | _ \<Rightarrow> False" by code_simp
    then show ?thesis using that by (auto split: option.splits)
  qed
  show ?thesis using outbox_in_order [OF example_outbox_run(1,4) xy same(1-3)] xy same(4) by blast
qed

subsection \<open>Progress\<close>

definition ev_forward :: "OutboxEvent \<Rightarrow> OutboxEvent \<Rightarrow> bool" where
  "ev_forward e e' \<longleftrightarrow>
     ev_nextFencingToken e \<le> ev_nextFencingToken e'
   \<and> lastObservedDatabaseAt e \<le> lastObservedDatabaseAt e'
   \<and> (lease e = None \<and> ev_nextFencingToken e' = ev_nextFencingToken e \<longrightarrow> lease e' = None)
   \<and> ev_identity e' = ev_identity e
   \<and> (ev_state e = Ob_DELIVERED \<longrightarrow> e' = e)"

definition ob_progress :: "OutboxStateModel \<Rightarrow> OutboxStateModel \<Rightarrow> bool" where
  "ob_progress m m' \<longleftrightarrow>
     (\<forall>k e. map_of (om_events m) k = Some e \<longrightarrow> (\<exists>e'. map_of (om_events m') k = Some e' \<and> ev_forward e e'))
   \<and> (\<forall>k t. map_of (om_transactions m) k = Some t \<longrightarrow> map_of (om_transactions m') k = Some t)
   \<and> prefix (om_audit m) (om_audit m')"

lemma ev_forward_refl [simp]: "ev_forward e e"
  by (simp add: ev_forward_def)

lemma ev_forward_trans: "ev_forward e f \<Longrightarrow> ev_forward f g \<Longrightarrow> ev_forward e g"
  by (auto simp: ev_forward_def)

lemma ob_progress_refl [simp]: "ob_progress m m"
  by (auto simp: ob_progress_def)

lemma ob_progress_trans:
  assumes "ob_progress m m1" and "ob_progress m1 m2"
  shows "ob_progress m m2"
  unfolding ob_progress_def
proof (intro conjI allI impI)
  fix k e assume "map_of (om_events m) k = Some e"
  with assms(1) obtain e1 where e1: "map_of (om_events m1) k = Some e1" "ev_forward e e1"
    unfolding ob_progress_def by blast
  with assms(2) obtain e2 where "map_of (om_events m2) k = Some e2" "ev_forward e1 e2"
    unfolding ob_progress_def by blast
  with e1 show "\<exists>e'. map_of (om_events m2) k = Some e' \<and> ev_forward e e'"
    by (blast intro: ev_forward_trans)
next
  show "map_of (om_transactions m2) k = Some t" if "map_of (om_transactions m) k = Some t" for k t
    using assms that unfolding ob_progress_def by blast
  show "prefix (om_audit m) (om_audit m2)"
    using assms prefix_order.trans unfolding ob_progress_def by blast
qed

lemma ob_progress_changed:
  assumes "map_of (om_events m) k = Some e" and "ob_changed m k e' x m'" and "ev_forward e e'"
  shows "ob_progress m m'"
  using assms unfolding ob_progress_def by (auto simp: ob_changed_simps) (auto simp: ob_changed_def)

lemma ob_move_progress:
  assumes "ob_move m m'" and inv: "ob_inv m"
  shows "ob_progress m m'"
  using assms(1)
proof cases
  case (claim k e now i expires)
  then show ?thesis
    by (intro ob_progress_changed [OF claim(1,7)]) (auto simp: ev_forward_def ob_claimed_def ev_identity_def)
next
  case (renew k e l a l' a' now)
  have "in_flight e" by (rule leased_attempt [OF inv renew(1,2)])
  with renew show ?thesis
    by (intro ob_progress_changed [OF renew(1,8)]) (auto simp: ev_forward_def in_flight_def)
next
  case (start k e l a now)
  then show ?thesis
    by (intro ob_progress_changed [OF start(1,7)]) (auto simp: ev_forward_def started_event_def ev_identity_def)
next
  case (deliver k e l a now ack)
  then show ?thesis
    by (intro ob_progress_changed [OF deliver(1,8)]) (auto simp: ev_forward_def delivered_event_def ev_identity_def)
next
  case (fail k e l a now s out f t)
  have "in_flight e" by (rule leased_attempt [OF inv fail(1,2)])
  with fail show ?thesis
    by (intro ob_progress_changed [OF fail(1,7)])
       (auto simp: ev_forward_def failed_event_def ev_identity_def in_flight_def)
next
  case (replay k e now)
  then show ?thesis
    by (intro ob_progress_changed [OF replay(1,4)]) (auto simp: ev_forward_def replayed_event_def ev_identity_def)
next
  case (log e ev t who k d details)
  then show ?thesis by (auto simp: ob_progress_def ob_appendAudit_def)
qed

lemma ob_moves_progress: "ob_moves m m' \<Longrightarrow> ob_inv m \<Longrightarrow> ob_progress m m'"
  by (induction rule: rtranclp_induct) (auto intro: ob_progress_trans ob_move_progress ob_moves_inv)

lemma commit_progress:
  assumes inv: "ob_inv m" and tx: "map_of (om_transactions m) (ct_businessTransactionId i) = None"
    and check: "ob_checkBatch m (ct_projectId i) [] [] (ct_events i) = Inr ()"
  shows "ob_progress m (commit_state m i)"
proof -
  have "find (\<lambda>e. ne_id e = k) (ct_events i) = None" if "map_of (om_events m) k = Some x" for k x
    using check that by (auto simp: find_None_iff ob_checkBatch_iff)
  then show ?thesis
    using tx by (auto simp: ob_progress_def commit_state_facts [OF inv check])
qed

lemma ob_step_progress:
  assumes inv: "ob_inv m" and step: "ob_step m op m'"
  shows "ob_progress m m'"
proof (cases "\<exists>i. op = Ob_commit i")
  case True
  then obtain i where "op = Ob_commit i" by blast
  with step have "ob_commit m i = (fst (ob_commit m i), m')" by (simp add: ob_step_def)
  then show ?thesis by (cases rule: ob_commit_cases) (use commit_progress [OF inv] in auto)
next
  case False
  with ob_moves_progress [OF ob_call_moves [OF inv False] inv] step show ?thesis by (simp add: ob_step_def)
qed

interpretation outbox_run: monotone_run ob_init ob_step ob_inv ob_progress
  by unfold_locales (auto intro: ob_progress_trans ob_step_progress)

text \<open>
  Delivery is final and history is never lost: along any run an event never disappears,
  its fencing token and observed database time never decrease, its identity never changes, a
  delivered event is never touched again, committed transactions stay as recorded, and the audit
  log is only appended to.
\<close>

theorem outbox_moves_forward:
  assumes "ob_init m0" and "reaches ob_step m0 m" and "reaches ob_step m m'"
    and "map_of (om_events m) k = Some e"
  shows "\<exists>e'. map_of (om_events m') k = Some e'
      \<and> ev_nextFencingToken e \<le> ev_nextFencingToken e' \<and> lastObservedDatabaseAt e \<le> lastObservedDatabaseAt e'
      \<and> streamKey e' = streamKey e \<and> event_position e' = event_position e
      \<and> (ev_state e = Ob_DELIVERED \<longrightarrow> e' = e)
      \<and> (\<forall>q t. map_of (om_transactions m) q = Some t \<longrightarrow> map_of (om_transactions m') q = Some t)
      \<and> prefix (om_audit m) (om_audit m')"
proof -
  have progress: "ob_progress m m'"
    by (rule outbox_run.rel_run [OF assms(3) outbox_machine.inv_reachable [OF assms(1,2)]])
  then obtain e' where e': "map_of (om_events m') k = Some e'" "ev_forward e e'"
    using assms(4) unfolding ob_progress_def by blast
  then have id: "ev_identity e' = ev_identity e" by (simp add: ev_forward_def)
  show ?thesis
    using progress e' ev_identityD(2,3) [OF id] unfolding ob_progress_def ev_forward_def by blast
qed

theorem outbox_moves_forward_witness:
  "\<exists>e e'. map_of (om_events example_o1) (js ''e1'') = Some e \<and> map_of (om_events example_o2) (js ''e1'') = Some e'
     \<and> ev_nextFencingToken e \<le> ev_nextFencingToken e' \<and> prefix (om_audit example_o1) (om_audit example_o2)"
proof -
  have "map_of (om_events example_o1) (js ''e1'') \<noteq> None" by code_simp
  then obtain e where e: "map_of (om_events example_o1) (js ''e1'') = Some e" by blast
  from outbox_moves_forward [OF example_outbox_run(1,2,3) e] e show ?thesis by blast
qed

subsection \<open>Fencing\<close>

definition delivery_lease_lost :: "OutboxStateModel \<Rightarrow> LeaseHandle \<Rightarrow> bool" where
  "delivery_lease_lost m h \<longleftrightarrow> (case map_of (om_events m) (workId h) of
     None \<Rightarrow> False
   | Some e \<Rightarrow> fencingToken h < ev_nextFencingToken e
        \<and> (case lease e of None \<Rightarrow> True | Some l \<Rightarrow> fencingToken l \<noteq> fencingToken h))"

lemma delivery_lease_lost_refused:
  assumes "delivery_lease_lost m h"
  shows "\<exists>err. with_event_lease m phase h now K = (Inl err, m)"
proof -
  obtain r m' where call: "with_event_lease m phase h now K = (r, m')" by fastforce
  then show ?thesis
  proof (cases rule: with_event_lease_cases)
    case (accepted e l)
    with assms show ?thesis by (auto simp: delivery_lease_lost_def assertValidLease_iff)
  qed (simp add: call)
qed

lemma delivery_lease_lost_forever:
  assumes inv: "ob_inv m" and run: "reaches ob_step m m'" and lost: "delivery_lease_lost m h"
  shows "delivery_lease_lost m' h"
proof -
  from lost obtain e where e: "map_of (om_events m) (workId h) = Some e"
    and h: "fencingToken h < ev_nextFencingToken e"
      "\<And>l. lease e = Some l \<Longrightarrow> fencingToken l \<noteq> fencingToken h"
    by (auto simp: delivery_lease_lost_def split: option.splits)
  have inv': "ob_inv m'" by (rule outbox_machine.inv_from [OF run inv])
  from outbox_run.rel_run [OF run inv] e
  obtain e' where e': "map_of (om_events m') (workId h) = Some e'" and fwd: "ev_forward e e'"
    unfolding ob_progress_def by blast
  have "fencingToken l' \<noteq> fencingToken h" if l': "lease e' = Some l'" for l'
  proof -
    have tok: "fencingToken l' + 1 = ev_nextFencingToken e'" by (rule leased_attempt [OF inv' e' l'])
    show ?thesis
    proof (cases "ev_nextFencingToken e' = ev_nextFencingToken e")
      case True
      with fwd l' obtain l where l: "lease e = Some l" by (cases "lease e") (auto simp: ev_forward_def)
      have "fencingToken l + 1 = ev_nextFencingToken e" by (rule leased_attempt [OF inv e l])
      with tok True h(2) [OF l] show ?thesis by simp
    next
      case False
      with fwd h(1) tok show ?thesis by (simp add: ev_forward_def)
    qed
  qed
  with e' h(1) fwd show ?thesis by (auto simp: delivery_lease_lost_def ev_forward_def split: option.splits)
qed

lemma attempt_always_refused: "(\<And>x. \<exists>e. K x = (Inl e, s)) \<Longrightarrow> \<exists>e. attempt s r K = (Inl e, s)"
  by (cases r) auto

text \<open>
  Fencing of deliveries: once a handle that was handed out has lost its lease, no later
  call with it has an effect. In every later state heartbeat, start of delivery, acknowledgement
  and failure reported with it throw and change nothing.
\<close>

theorem superseded_delivery_refused:
  assumes "ob_init m0" and "reaches ob_step m0 m" and "delivery_lease_lost m h" and "reaches ob_step m m'"
  shows "(\<exists>e. ob_heartbeat m' h now = (Inl e, m'))
    \<and> (\<exists>e. ob_startDelivery m' h now = (Inl e, m'))
    \<and> (\<exists>e. ob_acknowledge m' h ack now = (Inl e, m'))
    \<and> (\<exists>e. ob_failDelivery m' h f now = (Inl e, m'))"
proof -
  have lost: "delivery_lease_lost m' h"
    by (rule delivery_lease_lost_forever [OF outbox_machine.inv_reachable [OF assms(1,2)] assms(4,3)])
  show ?thesis
    unfolding ob_heartbeat_def ob_startDelivery_def ob_acknowledge_def ob_failDelivery_def
    by (intro conjI attempt_always_refused delivery_lease_lost_refused [OF lost])
qed

definition example_delivery :: LeaseHandle where
  "example_delivery = \<lparr>workKind = OUTBOX, workId = js ''e1'', attemptId = js ''a'', workerId = js ''w'', fencingToken = 1\<rparr>"

definition example_o3 :: OutboxStateModel where
  "example_o3 = ob_call example_o2 (Ob_reclaimExpiredLeases 40000)"

definition example_o4 :: OutboxStateModel where
  "example_o4 = ob_call example_o3 (Ob_claimNext \<lparr>oc_workerId = js ''w'', oc_attemptId = js ''b'',
     oc_databaseNow = 50000, oc_destinationId = Some (js ''d'')\<rparr>)"

theorem superseded_delivery_refused_witness:
  "\<not> isl (fst (ob_startDelivery example_o2 example_delivery 3000))
   \<and> (\<exists>e. ob_startDelivery example_o4 example_delivery 51000 = (Inl e, example_o4))"
proof (intro conjI)
  have s3: "ob_step example_o2 (Ob_reclaimExpiredLeases 40000) example_o3" by (simp add: ob_step_def example_o3_def)
  have s4: "\<exists>op. ob_step example_o3 op example_o4" unfolding ob_step_def example_o4_def by blast
  have r3: "reaches ob_step example_o0 example_o3" using example_outbox_run(4) s3 by (rule reaches_step)
  have r4: "reaches ob_step example_o3 example_o4" using s4 by (blast intro: reaches_step reaches_refl)
  have "delivery_lease_lost example_o3 example_delivery" by code_simp
  from superseded_delivery_refused [OF example_outbox_run(1) r3 this r4]
  show "\<exists>e. ob_startDelivery example_o4 example_delivery 51000 = (Inl e, example_o4)" by blast
  show "\<not> isl (fst (ob_startDelivery example_o2 example_delivery 3000))" by code_simp
qed

subsection \<open>Committing\<close>

lemma find_by_key: "x \<in> set xs \<Longrightarrow> distinct (map f xs) \<Longrightarrow> find (\<lambda>y. f y = f x) xs = Some x"
  by (induction xs) (auto simp: image_iff)

lemma event_signature_inject: "event_signature e = event_signature f \<longleftrightarrow> e = f"
  by (cases e, cases f) (simp add: event_signature_def)

text \<open>Sorting texts by \<open>compareText\<close> is sorting.\<close>

text \<open>The signature of a batch determines its events up to their order.\<close>

lemma eventDefinitionSignature_eq_iff:
  "eventDefinitionSignature es = eventDefinitionSignature fs \<longleftrightarrow> mset es = mset fs"
proof -
  have "inj event_signature" by (simp add: inj_def event_signature_inject)
  then have undo: "image_mset (inv event_signature) (image_mset event_signature M) = M" for M
    by (simp add: multiset.map_comp inv_o_cancel)
  show ?thesis
  proof
    assume "eventDefinitionSignature es = eventDefinitionSignature fs"
    then have "mset (sort (map event_signature es)) = mset (sort (map event_signature fs))"
      by (simp add: eventDefinitionSignature_def js_sort_compareBy)
    then have "image_mset event_signature (mset es) = image_mset event_signature (mset fs)" by simp
    then show "mset es = mset fs" by (metis undo)
  next
    assume "mset es = mset fs"
    then have "mset (map event_signature es) = mset (map event_signature fs)" by simp
    then have "sort (map event_signature es) = sort (map event_signature fs)"
      by (intro properties_for_sort) simp_all
    then show "eventDefinitionSignature es = eventDefinitionSignature fs"
      by (simp add: eventDefinitionSignature_def js_sort_compareBy)
  qed
qed

text \<open>
  Claim C12. A business transaction is committed once and whole. A commit that is accepted stores every
  event of the batch as pending. In every later state a commit under the same transaction id writes
  nothing: with the same digest and the same events, in whatever order, it returns those events,
  and with any other content it throws \<open>IDEMPOTENCY_CONFLICT\<close>.
\<close>

theorem commit_once:
  assumes "ob_init m0" and "reaches ob_step m0 m"
    and new: "map_of (om_transactions m) (ct_businessTransactionId i) = None"
    and call: "ob_commit m i = (Inr es, m1)" and run: "reaches ob_step m1 m2"
    and again: "validateCommit j = Inr ()" "ct_businessTransactionId j = ct_businessTransactionId i"
  shows "es = map (new_event_record i) (ct_events i)
    \<and> (\<forall>e\<in>set (ct_events i). map_of (om_events m1) (ne_id e) = Some (new_event_record i e))
    \<and> (if ct_transactionDigest j = ct_transactionDigest i \<and> mset (ct_events j) = mset (ct_events i)
       then \<exists>fs. ob_commit m2 j = (Inr fs, m2) \<and> map ev_identity fs = map ev_identity es
       else ob_commit m2 j = (Inl IDEMPOTENCY_CONFLICT, m2))"
proof -
  have inv: "ob_inv m" by (rule outbox_machine.inv_reachable [OF assms(1,2)])
  have check: "ob_checkBatch m (ct_projectId i) [] [] (ct_events i) = Inr ()"
    and es: "es = map (new_event_record i) (ct_events i)" and m1: "m1 = commit_state m i"
    using call new
    by (auto simp: ob_commit_def Let_def commit_state_def commit_record_def comp_def outcome_simps)
  note facts = commit_state_facts [OF inv check]
  have inv1: "ob_inv m1" using facts(1) m1 by simp
  have stored: "map_of (om_events m1) (ne_id e) = Some (new_event_record i e)" if "e \<in> set (ct_events i)" for e
  proof -
    have "distinct (map ne_id (ct_events i))" using check by (simp add: ob_checkBatch_iff)
    with that have "find (\<lambda>x. ne_id x = ne_id e) (ct_events i) = Some e"
      by (intro find_by_key)
    then show ?thesis by (simp add: m1 facts(2))
  qed
  have progress: "ob_progress m1 m2" by (rule outbox_run.rel_run [OF run inv1])
  have tx: "map_of (om_transactions m2) (ct_businessTransactionId i) = Some (commit_record i)"
    using progress facts(3) m1 by (simp add: ob_progress_def)
  have "\<exists>f. map_of (om_events m2) (ne_id e) = Some f \<and> ev_identity f = ev_identity (new_event_record i e)"
    if "e \<in> set (ct_events i)" for e
    using progress stored [OF that] unfolding ob_progress_def ev_forward_def by blast
  then have "\<exists>fs. mapM (requiredEvent m2) (map ne_id ds) = Inr fs
      \<and> map ev_identity fs = map ev_identity (map (new_event_record i) ds)"
    if "set ds \<subseteq> set (ct_events i)" for ds
    using that by (induction ds) (fastforce simp: requiredEvent_def)+
  then obtain fs where fs: "mapM (requiredEvent m2) (map ne_id (ct_events i)) = Inr fs"
    "map ev_identity fs = map ev_identity (map (new_event_record i) (ct_events i))" by blast
  have "ob_commit m2 j = (if ct_transactionDigest j = ct_transactionDigest i \<and> mset (ct_events j) = mset (ct_events i)
      then (Inr fs, m2) else (Inl IDEMPOTENCY_CONFLICT, m2))"
    using fs(1) eventDefinitionSignature_eq_iff [of "ct_events i" "ct_events j"]
    by (auto simp: ob_commit_def Let_def again tx commit_record_def)
  with es stored fs(2) show ?thesis by auto
qed

theorem commit_once_witness:
  "\<exists>es m1. ob_commit example_o0 example_commit = (Inr es, m1) \<and> es \<noteq> []
     \<and> (\<exists>fs. ob_commit m1 example_commit = (Inr fs, m1) \<and> map ev_identity fs = map ev_identity es)"
proof -
  have "\<not> isl (fst (ob_commit example_o0 example_commit))" by code_simp
  then obtain es m1 where call: "ob_commit example_o0 example_commit = (Inr es, m1)"
    by (cases "ob_commit example_o0 example_commit"; cases "fst (ob_commit example_o0 example_commit)") auto
  have "map_of (om_transactions example_o0) (ct_businessTransactionId example_commit) = None"
    "validateCommit example_commit = Inr ()" by code_simp+
  from commit_once [OF example_outbox_run(1) reaches_refl this(1) call reaches_refl this(2) refl] call
  show ?thesis by (auto simp: example_commit_def)
qed

text \<open>
  What the delivery status of an action says, in terms of the events it caused: there are
  none; some is a dead letter; all are delivered; some but not all are delivered; or none is.
\<close>

theorem action_status_meaning:
  "actionDeliveryStatus m x =
     (let caused = {e \<in> set (map_values (om_events m)). ev_actionExecutionId e = x};
          delivered = {e. ev_state e = Ob_DELIVERED} in
      if caused = {} then NOT_APPLICABLE
      else if \<exists>e\<in>caused. ev_state e = Ob_DEAD_LETTER then Ads_DEAD_LETTER
      else if caused \<subseteq> delivered then COMPLETE
      else if caused \<inter> delivered \<noteq> {} then PARTIAL
      else Ads_PENDING)"
proof -
  define es where "es = filter (\<lambda>e. ev_actionExecutionId e = x) (map_values (om_events m))"
  have all: "length (filter (\<lambda>e. ev_state e = Ob_DELIVERED) es) = length es \<longleftrightarrow> set es \<subseteq> {e. ev_state e = Ob_DELIVERED}"
  proof
    assume len: "length (filter (\<lambda>e. ev_state e = Ob_DELIVERED) es) = length es"
    have "ev_state e = Ob_DELIVERED" if "e \<in> set es" for e
      using length_filter_less [OF that, of "\<lambda>e. ev_state e = Ob_DELIVERED"] len by (cases "ev_state e = Ob_DELIVERED") simp_all
    then show "set es \<subseteq> {e. ev_state e = Ob_DELIVERED}" by blast
  next
    assume "set es \<subseteq> {e. ev_state e = Ob_DELIVERED}"
    then have "filter (\<lambda>e. ev_state e = Ob_DELIVERED) es = es" by (intro filter_True) blast
    then show "length (filter (\<lambda>e. ev_state e = Ob_DELIVERED) es) = length es" by simp
  qed
  have some: "0 < length (filter (\<lambda>e. ev_state e = Ob_DELIVERED) es) \<longleftrightarrow> set es \<inter> {e. ev_state e = Ob_DELIVERED} \<noteq> {}"
    by (auto simp: filter_empty_conv)
  have none: "length es = 0 \<longleftrightarrow> set es = {}" by simp
  have "actionDeliveryStatus m x =
     (if set es = {} then NOT_APPLICABLE else if \<exists>e\<in>set es. ev_state e = Ob_DEAD_LETTER then Ads_DEAD_LETTER
      else if set es \<subseteq> {e. ev_state e = Ob_DELIVERED} then COMPLETE
      else if set es \<inter> {e. ev_state e = Ob_DELIVERED} \<noteq> {} then PARTIAL else Ads_PENDING)"
    unfolding actionDeliveryStatus_def Let_def all [symmetric] some [symmetric] list_ex_iff none [symmetric]
      es_def [symmetric] ..
  moreover have "{e \<in> set (map_values (om_events m)). ev_actionExecutionId e = x} = set es" by (auto simp: es_def)
  ultimately show ?thesis unfolding Let_def by (simp only:)
qed

end
