(* ===== verification/Utf8.thy ===== *)
theory Utf8
  imports Js
begin

text \<open>
  UTF-8 as the sources use it through \<open>TextEncoder\<close> and \<open>Buffer\<close>: the code points of a string of
  UTF-16 code units, their encoding (a lone surrogate is encoded as U+FFFD), the length in bytes and
  the order of the bytes. Encoding preserves and reflects the order of the code points, so it is
  injective on well-formed strings and its bytes sort as the code points do.
\<close>

type_synonym byte = "8 word"

subsection \<open>Code points\<close>

fun code_points :: "jsstring \<Rightarrow> nat list" where
  "code_points [] = []"
| "code_points [u] = [unat u]"
| "code_points (u # v # us) =
     (if is_high u \<and> is_low v
      then (0x10000 + (unat u - 0xD800) * 1024 + (unat v - 0xDC00)) # code_points us
      else unat u # code_points (v # us))"

definition is_surrogate :: "nat \<Rightarrow> bool" where
  "is_surrogate c \<longleftrightarrow> 0xD800 \<le> c \<and> c \<le> 0xDFFF"

lemma is_surrogate_code [code]: "is_surrogate c \<longleftrightarrow> \<not> c < 0x80 \<and> 0xD800 \<le> c \<and> c \<le> 0xDFFF"
  by (auto simp: is_surrogate_def)

text \<open>\<open>String.prototype.isWellFormed\<close>.\<close>

definition isWellFormed :: "jsstring \<Rightarrow> bool" where
  "isWellFormed s \<longleftrightarrow> list_all (\<lambda>c. \<not> is_surrogate c) (code_points s)"

definition utf16 :: "nat \<Rightarrow> jsstring" where
  "utf16 c = (if c < 0x10000 then [unit_of c]
     else [unit_of (0xD800 + (c - 0x10000) div 1024), unit_of (0xDC00 + (c - 0x10000) mod 1024)])"

lemma is_high_nat: "is_high u \<longleftrightarrow> 0xD800 \<le> unat u \<and> unat u \<le> 0xDBFF"
  by (simp add: is_high_def word_le_nat_alt)

lemma is_low_nat: "is_low u \<longleftrightarrow> 0xDC00 \<le> unat u \<and> unat u \<le> 0xDFFF"
  by (simp add: is_low_def word_le_nat_alt)

lemma utf16_pair:
  assumes "is_high u" and "is_low v"
  shows "utf16 (0x10000 + (unat u - 0xD800) * 1024 + (unat v - 0xDC00)) = [u, v]"
proof -
  have u: "0xD800 \<le> unat u" "unat u \<le> 0xDBFF" and v: "0xDC00 \<le> unat v" "unat v \<le> 0xDFFF"
    using assms by (auto simp: is_high_nat is_low_nat)
  define x y where "x = unat u - 0xD800" and "y = unat v - 0xDC00"
  have xy: "unat u = 0xD800 + x" "unat v = 0xDC00 + y" "y < 1024" using u v by (auto simp: x_def y_def)
  have "utf16 (0x10000 + x * 1024 + y) = [unit_of (0xD800 + x), unit_of (0xDC00 + y)]"
    using xy(3) by (simp add: utf16_def)
  also have "\<dots> = [u, v]" unfolding xy(1,2) [symmetric] by simp
  finally show ?thesis by (simp add: x_def y_def)
qed

lemma utf16_single: "utf16 (unat u) = [u]"
  using unat_unit_less [of u] by (simp add: utf16_def)

lemma utf16_code_points: "concat (map utf16 (code_points s)) = s"
  by (induction s rule: code_points.induct) (auto simp: utf16_single utf16_pair)

lemma code_points_inject [simp]: "code_points s = code_points t \<longleftrightarrow> s = t"
  by (metis utf16_code_points)

lemma code_points_range: "c \<in> set (code_points s) \<Longrightarrow> c < 0x110000"
proof (induction s rule: code_points.induct)
  case (2 u)
  have "unat u < 0x110000" using unat_unit_less [of u] by linarith
  with 2 show ?case by simp
next
  case (3 u v us)
  show ?case
  proof (cases "is_high u \<and> is_low v")
    case True
    then have "0x10000 + (unat u - 0xD800) * 1024 + (unat v - 0xDC00) < 0x110000"
      by (auto simp: is_high_nat is_low_nat)
    with True 3 show ?thesis by auto
  next
    case False
    then have cp: "code_points (u # v # us) = unat u # code_points (v # us)"
      unfolding code_points.simps(3) by (rule if_not_P)
    have "unat u < 0x110000" using unat_unit_less [of u] by linarith
    then show ?thesis using 3(2) [OF False] 3(3) unfolding cp by (auto simp del: code_points.simps)
  qed
qed simp

subsection \<open>Encoding\<close>

definition utf8_point :: "nat \<Rightarrow> nat list" where
  "utf8_point c =
     (if c < 0x80 then [c]
      else if c < 0x800 then [0xC0 + c div 64, 0x80 + c mod 64]
      else if c < 0x10000 then [0xE0 + c div 4096, 0x80 + c div 64 mod 64, 0x80 + c mod 64]
      else [0xF0 + c div 262144, 0x80 + c div 4096 mod 64, 0x80 + c div 64 mod 64, 0x80 + c mod 64])"

definition scalar :: "nat \<Rightarrow> nat" where
  "scalar c = (if is_surrogate c then 0xFFFD else c)"

definition utf8_nats :: "jsstring \<Rightarrow> nat list" where
  "utf8_nats s = concat (map (utf8_point \<circ> scalar) (code_points s))"

definition utf8Encode :: "jsstring \<Rightarrow> byte list" where
  "utf8Encode s = map word_of_nat (utf8_nats s)"

definition utf8ByteLength :: "jsstring \<Rightarrow> nat" where
  "utf8ByteLength s = length (utf8Encode s)"

definition utf8_width :: "nat \<Rightarrow> nat" where
  "utf8_width c = (if c < 0x80 then 1 else if c < 0x800 then 2 else if c < 0x10000 then 3 else 4)"

lemma length_utf8_point: "length (utf8_point c) = utf8_width c"
  by (simp add: utf8_point_def utf8_width_def)

lemma utf8_point_range: "c < 0x110000 \<Longrightarrow> b \<in> set (utf8_point c) \<Longrightarrow> b < 256"
  by (auto simp: utf8_point_def split: if_splits)

lemma scalar_range: "c < 0x110000 \<Longrightarrow> scalar c < 0x110000"
  by (simp add: scalar_def)

lemma utf8_nats_range: "b \<in> set (utf8_nats s) \<Longrightarrow> b < 256"
  by (auto simp: utf8_nats_def dest!: code_points_range intro: utf8_point_range scalar_range)

lemma unat_utf8Encode: "map unat (utf8Encode s) = utf8_nats s"
proof -
  have "map (unat \<circ> (word_of_nat :: nat \<Rightarrow> byte)) (utf8_nats s) = map id (utf8_nats s)"
    by (rule map_cong [OF refl]) (auto simp: unat_of_nat dest: utf8_nats_range)
  then show ?thesis by (simp add: utf8Encode_def)
qed

lemma utf8Encode_eq_iff: "utf8Encode s = utf8Encode t \<longleftrightarrow> utf8_nats s = utf8_nats t"
  by (metis unat_utf8Encode utf8Encode_def)

lemma utf8ByteLength_sum: "utf8ByteLength s = sum_list (map (utf8_width \<circ> scalar) (code_points s))"
  by (simp add: utf8ByteLength_def utf8Encode_def utf8_nats_def length_concat comp_def length_utf8_point)

subsection \<open>Length\<close>

lemma utf8_width_pos [simp]: "0 < utf8_width c"
  by (simp add: utf8_width_def)

lemma width_unit_le: "utf8_width (scalar (unat (u :: code_unit))) \<le> 3"
  using unat_unit_less [of u] by (auto simp: scalar_def utf8_width_def)

text \<open>Appending anything makes the encoding longer, even when a surrogate pair is completed.\<close>

lemma utf8ByteLength_Cons:
  "utf8ByteLength (u # v # us) =
     (if is_high u \<and> is_low v then 4 + utf8ByteLength us
      else utf8_width (scalar (unat u)) + utf8ByteLength (v # us))"
proof -
  have "utf8_width (scalar (0x10000 + x)) = 4" for x
    by (simp add: scalar_def is_surrogate_def utf8_width_def)
  then show ?thesis by (auto simp: utf8ByteLength_sum add.assoc)
qed

lemma utf8ByteLength_Nil [simp]: "utf8ByteLength [] = 0"
  by (simp add: utf8ByteLength_sum)

lemma utf8ByteLength_single: "utf8ByteLength [u] = utf8_width (scalar (unat u))"
  by (simp add: utf8ByteLength_sum)

lemma utf8ByteLength_pos: "s \<noteq> [] \<Longrightarrow> 0 < utf8ByteLength s"
  by (cases s rule: code_points.cases)
     (auto simp: utf8ByteLength_single utf8ByteLength_Cons add_pos_nonneg)

lemma utf8ByteLength_append_less: "q \<noteq> [] \<Longrightarrow> utf8ByteLength p < utf8ByteLength (p @ q)"
proof (induction p rule: code_points.induct)
  case 1
  then show ?case by (simp add: utf8ByteLength_pos)
next
  case (2 u)
  then obtain v us where q: "q = v # us" by (cases q) auto
  then show ?case
    using width_unit_le [of u] utf8ByteLength_pos [of "v # us"]
    by (simp add: utf8ByteLength_single utf8ByteLength_Cons)
next
  case (3 u v us)
  then show ?case by (simp add: utf8ByteLength_Cons)
qed

text \<open>So among the prefixes of one string the length in bytes determines the prefix.\<close>

lemma utf8_width_mono: "c \<le> c' \<Longrightarrow> utf8_width c \<le> utf8_width c'"
  by (simp add: utf8_width_def)

lemma utf8_prefix_inject:
  assumes "p @ q = p' @ q'" and "utf8ByteLength p = utf8ByteLength p'"
  shows "p = p' \<and> q = q'"
proof -
  have ext: "us = []" if "utf8ByteLength x = utf8ByteLength (x @ us)" for x us
    using utf8ByteLength_append_less [of us x] that by fastforce
  from assms(1) obtain us where "p = p' @ us \<and> us @ q = q' \<or> p @ us = p' \<and> q = us @ q'"
    by (auto simp: append_eq_append_conv2)
  then show ?thesis using ext [of p' us] ext [of p us] assms(2) by auto
qed

subsection \<open>Order\<close>

lemma digits_less:
  fixes c :: nat
  assumes "c < c'"
  shows "c div 64 < c' div 64 \<or> c div 64 = c' div 64 \<and> c mod 64 < c' mod 64"
proof -
  have "c div 64 \<le> c' div 64" using assms by (simp add: div_le_mono)
  moreover have "c = 64 * (c div 64) + c mod 64" "c' = 64 * (c' div 64) + c' mod 64" by simp_all
  ultimately show ?thesis using assms by linarith
qed

lemma div_4096: "c div 4096 = c div 64 div (64 :: nat)" "c div 262144 = c div 64 div 64 div (64 :: nat)"
  by (simp_all add: div_mult2_eq [symmetric])

text \<open>The encodings of two code points are ordered by the first byte in which they differ.\<close>

lemma utf8_point_less:
  assumes "c < c'" and "c' < 0x110000"
  shows "utf8_point c @ r < utf8_point c' @ r'"
proof -
  let ?d = "c div 64" and ?d' = "c' div 64"
  have 1: "?d < ?d' \<or> ?d = ?d' \<and> c mod 64 < c' mod 64" using assms(1) by (rule digits_less)
  have 2: "?d < ?d' \<Longrightarrow> ?d div 64 < ?d' div 64 \<or> ?d div 64 = ?d' div 64 \<and> ?d mod 64 < ?d' mod 64"
    by (rule digits_less)
  have 3: "?d div 64 < ?d' div 64 \<Longrightarrow> ?d div 64 div 64 < ?d' div 64 div 64 \<or>
      ?d div 64 div 64 = ?d' div 64 div 64 \<and> ?d div 64 mod 64 < ?d' div 64 mod 64"
    by (rule digits_less)
  consider "utf8_width c = utf8_width c'" | "utf8_width c < utf8_width c'"
    using utf8_width_mono [of c c'] assms(1) by linarith
  then show ?thesis
  proof cases
    case same: 1
    then consider "c' < 0x80" | "0x80 \<le> c" "c' < 0x800" | "0x800 \<le> c" "c' < 0x10000" | "0x10000 \<le> c"
      using assms(1) by (auto simp: utf8_width_def split: if_splits)
    then show ?thesis
      using assms(1) 1 2 3 by cases (auto simp: utf8_point_def div_4096)
  next
    case 2
    then show ?thesis
      using assms by (auto simp: utf8_width_def utf8_point_def less_mult_imp_div_less split: if_splits)
  qed
qed

lemma utf8_point_neq_Nil [simp]: "utf8_point c \<noteq> []"
  by (simp add: utf8_point_def)

lemma encode_less_iff:
  assumes "\<forall>c\<in>set cs \<union> set ds. c < 0x110000"
  shows "concat (map utf8_point cs) < concat (map utf8_point ds) \<longleftrightarrow> cs < ds"
  using assms
proof (induction cs arbitrary: ds)
  case Nil
  then show ?case by (cases ds) (auto simp: utf8_point_def)
next
  case (Cons c cs)
  show ?case
  proof (cases ds)
    case Nil
    then show ?thesis by simp
  next
    case (Cons d ds')
    have same: "utf8_point c @ x < utf8_point c @ y \<longleftrightarrow> x < y" for x y
      by (induction "utf8_point c") (auto simp: list_less_def lexord_same_pref_if_irrefl irreflI)
    have "\<not> y < x" if "x < y" for x y :: "nat list" using that by simp
    then show ?thesis
      using Cons.IH [of ds'] Cons.prems same utf8_point_less [of c d] utf8_point_less [of d c]
      by (cases c d rule: linorder_cases) (auto simp: Cons)
  qed
qed

lemma scalar_points_range: "c \<in> set (map scalar (code_points s)) \<Longrightarrow> c < 0x110000"
  by (auto dest: code_points_range intro: scalar_range)

lemma utf8_nats_less_iff:
  "utf8_nats s < utf8_nats t \<longleftrightarrow> map scalar (code_points s) < map scalar (code_points t)"
  using encode_less_iff [of "map scalar (code_points s)" "map scalar (code_points t)"]
    scalar_points_range by (auto simp: utf8_nats_def comp_def)

lemma utf8_nats_eq_iff:
  "utf8_nats s = utf8_nats t \<longleftrightarrow> map scalar (code_points s) = map scalar (code_points t)"
  using utf8_nats_less_iff [of s t] utf8_nats_less_iff [of t s] by (metis linorder_neq_iff)

lemma well_formed_scalar: "isWellFormed s \<Longrightarrow> map scalar (code_points s) = code_points s"
  by (simp add: isWellFormed_def list_all_iff scalar_def map_idI)

lemma utf8Encode_inject:
  "isWellFormed s \<Longrightarrow> isWellFormed t \<Longrightarrow> utf8Encode s = utf8Encode t \<longleftrightarrow> s = t"
  by (simp add: utf8Encode_eq_iff utf8_nats_eq_iff well_formed_scalar)

lemma utf8ByteLength_le: "utf8ByteLength s \<le> 3 * length s"
proof (induction s rule: code_points.induct)
  case (2 u)
  then show ?case using width_unit_le [of u] by (simp add: utf8ByteLength_single)
next
  case (3 u v us)
  then show ?case using width_unit_le [of u] by (auto simp: utf8ByteLength_Cons)
qed simp

subsection \<open>Well-formed strings\<close>

lemma code_points_append: "isWellFormed s \<Longrightarrow> code_points (s @ t) = code_points s @ code_points t"
proof (induction s rule: code_points.induct)
  case (2 u)
  then have "\<not> is_high u" by (auto simp: isWellFormed_def is_surrogate_def is_high_nat)
  then show ?case by (cases t) simp_all
next
  case (3 u v us)
  then show ?case by (auto simp: isWellFormed_def)
qed simp

lemma isWellFormed_append: "isWellFormed s \<Longrightarrow> isWellFormed t \<Longrightarrow> isWellFormed (s @ t)"
  using code_points_append [of s t] by (simp add: isWellFormed_def)

lemma isWellFormed_plain: "\<forall>u\<in>set s. unat u < 0xD800 \<Longrightarrow> isWellFormed s"
proof (induction s rule: code_points.induct)
  case (3 u v us)
  have "\<not> is_high u" using 3(3) by (auto simp: is_high_nat)
  with 3 show ?case by (auto simp: isWellFormed_def is_surrogate_def)
qed (auto simp: isWellFormed_def is_surrogate_def)

lemma isWellFormed_js [simp]: "isWellFormed (js s)"
proof (rule isWellFormed_plain)
  have "unat (unit_of (of_char c)) < 0xD800" for c
    using nat_of_char_less_256 [of c] by (subst unat_unit_of) linarith+
  then show "\<forall>u\<in>set (js s). unat u < 0xD800" by (auto simp: js_def)
qed

end
