(* ===== verification/PolicyEpoch.thy ===== *)
theory PolicyEpoch
  imports Utf8
begin

text \<open>
  The authorization store with project epochs (\<open>tools/policy-epoch/model.ts\<close>): bindings of
  principals to permissions, an epoch per project that grows with every change of its bindings,
  the bus that announces new epochs, compiled policy artifacts, and the keys and fingerprints.

  A clock is outside code: what \<open>now()\<close> did is an argument of the operation that reads it. The
  hash of \<open>node:crypto\<close> is the parameter \<open>sha256\<close>, from bytes to the hexadecimal digest. The
  callback of an authorization transaction is an argument that works on the draft and may throw.
  The error message is not modelled, only the code. Checks of \<open>typeof\<close> hold by the types here.
\<close>

definition MAX_POLICY_CACHE_TTL_MS :: int where
  "MAX_POLICY_CACHE_TTL_MS = 5000"

definition MAX_POSTGRES_EPOCH :: int where
  "MAX_POSTGRES_EPOCH = 9223372036854775807"

datatype PolicyFailureCode =
    POLICY_ARTIFACT_NOT_FOUND
  | POLICY_ARTIFACT_UNAVAILABLE
  | POLICY_EPOCH_UNAVAILABLE
  | POLICY_EPOCH_UNCONFIRMED
  | POLICY_INPUT_INVALID
  | POLICY_INTERNAL_FAILURE
  | POLICY_MONOTONIC_CLOCK_UNSAFE

text \<open>What is thrown: an error of the harness, or one of the outside code it calls.\<close>

datatype ThrownError = PolicyHarnessError PolicyFailureCode | OtherError

type_synonym 'a policy_result = "(ThrownError, 'a) result"

abbreviation inputInvalid :: ThrownError where
  "inputInvalid \<equiv> PolicyHarnessError POLICY_INPUT_INVALID"

subsection \<open>Clocks\<close>

datatype ClockReading = ClockNumber int | ClockNotInteger | ClockThrows

definition assertClockValue :: "int \<Rightarrow> unit policy_result" where
  "assertClockValue v = guard (isSafeInteger v \<and> 0 \<le> v) inputInvalid"

definition assertDuration :: "int \<Rightarrow> bool \<Rightarrow> unit policy_result" where
  "assertDuration v allowZero =
     guard (isSafeInteger v \<and> (if allowZero then 0 \<le> v else 0 < v)) inputInvalid"

definition readDatabaseClock :: "ClockReading \<Rightarrow> int policy_result" where
  "readDatabaseClock r = (case r of
       ClockNumber v \<Rightarrow> rbind (assertClockValue v) (\<lambda>_. Inr v)
     | ClockNotInteger \<Rightarrow> Inl inputInvalid
     | ClockThrows \<Rightarrow> Inl OtherError)"

record ManualClock =
  mc_now :: int

definition new_ManualClock :: "int \<Rightarrow> ManualClock policy_result" where
  "new_ManualClock initialNow = rbind (assertClockValue initialNow) (\<lambda>_. Inr \<lparr>mc_now = initialNow\<rparr>)"

definition clock_set :: "int \<Rightarrow> ManualClock \<Rightarrow> (ThrownError, unit, ManualClock) outcome" where
  "clock_set v c = attempt c (assertClockValue v) (\<lambda>_. (Inr (), c\<lparr>mc_now := v\<rparr>))"

definition clock_advance :: "int \<Rightarrow> ManualClock \<Rightarrow> (ThrownError, unit, ManualClock) outcome" where
  "clock_advance durationMs c =
     attempt c (assertDuration durationMs True) (\<lambda>_.
     let upcoming = mc_now c + durationMs in
     attempt c (assertClockValue upcoming) (\<lambda>_. (Inr (), c\<lparr>mc_now := upcoming\<rparr>)))"

subsection \<open>Identifiers\<close>

definition is_control :: "nat \<Rightarrow> bool" where
  "is_control codePoint \<longleftrightarrow> codePoint \<le> 31 \<or> codePoint = 127"

definition valid_identifier :: "jsstring \<Rightarrow> bool" where
  "valid_identifier v \<longleftrightarrow> \<not> (length v = 0 \<or> length v > 256 \<or> js_trim v \<noteq> v
     \<or> list_ex is_control (code_points v))"

definition assertIdentifier :: "jsstring \<Rightarrow> unit policy_result" where
  "assertIdentifier v = guard (valid_identifier v) inputInvalid"

definition copyIdentifierList :: "jsstring list \<Rightarrow> nat \<Rightarrow> bool \<Rightarrow> jsstring list policy_result" where
  "copyIdentifierList vs maximumLength requireOne =
     rbind (guard (\<not> ((requireOne \<and> length vs = 0) \<or> length vs > maximumLength)) inputInvalid) (\<lambda>_.
     rbind (mapM (\<lambda>item. rbind (assertIdentifier item) (\<lambda>_. Inr item)) vs) (\<lambda>identifiers.
     rbind (guard (length (remdups identifiers) = length identifiers) inputInvalid) (\<lambda>_.
     Inr identifiers)))"

subsection \<open>Tuples, digests and keys\<close>

definition encodePart :: "jsstring \<Rightarrow> jsstring" where
  "encodePart part = js_of_int (int (utf8ByteLength part)) @ 58 # part"

definition encodeTuple :: "jsstring list \<Rightarrow> jsstring" where
  "encodeTuple parts = concat (map encodePart parts)"

definition digestTuple :: "(byte list \<Rightarrow> jsstring) \<Rightarrow> jsstring list \<Rightarrow> jsstring" where
  "digestTuple sha256 parts = sha256 (utf8Encode (encodeTuple parts))"

record AuthorizationBinding =
  ab_principalId :: jsstring
  ab_resourceId :: jsstring
  ab_permission :: jsstring

definition authorizationBindingKey :: "AuthorizationBinding \<Rightarrow> jsstring policy_result" where
  "authorizationBindingKey b =
     rbind (assertIdentifier (ab_principalId b)) (\<lambda>_.
     rbind (assertIdentifier (ab_resourceId b)) (\<lambda>_.
     rbind (assertIdentifier (ab_permission b)) (\<lambda>_.
     Inr (encodeTuple [ab_principalId b, ab_resourceId b, ab_permission b]))))"

record PolicyIdentityContext =
  ic_subjectId :: jsstring
  ic_identityType :: jsstring
  ic_groupPrincipalIds :: "jsstring list"

definition valid_identityType :: "jsstring \<Rightarrow> bool" where
  "valid_identityType t \<longleftrightarrow> t = js ''human'' \<or> t = js ''service''"

definition actorParts :: "PolicyIdentityContext \<Rightarrow> jsstring list \<Rightarrow> jsstring list" where
  "actorParts i canonicalGroups =
     [js ''actor-v1'', ic_identityType i, ic_subjectId i] @ canonicalGroups"

definition actorFingerprint ::
    "(byte list \<Rightarrow> jsstring) \<Rightarrow> PolicyIdentityContext \<Rightarrow> jsstring policy_result" where
  "actorFingerprint sha256 i =
     rbind (assertIdentifier (ic_subjectId i)) (\<lambda>_.
     rbind (guard (valid_identityType (ic_identityType i)) inputInvalid) (\<lambda>_.
     rbind (copyIdentifierList (ic_groupPrincipalIds i) 128 False) (\<lambda>groups.
     Inr (digestTuple sha256 (actorParts i (js_sort compareText groups))))))"

definition delegationFingerprint :: "(byte list \<Rightarrow> jsstring) \<Rightarrow> jsstring list \<Rightarrow> jsstring policy_result" where
  "delegationFingerprint sha256 delegationChain =
     rbind (copyIdentifierList delegationChain 16 False) (\<lambda>identifiers.
     Inr (digestTuple sha256 (js ''delegation-v1'' # identifiers)))"

definition opaqueProjectRef :: "(byte list \<Rightarrow> jsstring) \<Rightarrow> jsstring \<Rightarrow> jsstring policy_result" where
  "opaqueProjectRef sha256 pid =
     rbind (assertIdentifier pid) (\<lambda>_. Inr (take 20 (digestTuple sha256 [js ''project-ref-v1'', pid])))"

definition opaqueCorrelationRef :: "(byte list \<Rightarrow> jsstring) \<Rightarrow> jsstring \<Rightarrow> jsstring policy_result" where
  "opaqueCorrelationRef sha256 cid =
     rbind (assertIdentifier cid) (\<lambda>_. Inr (take 20 (digestTuple sha256 [js ''correlation-ref-v1'', cid])))"

subsection \<open>The notification bus\<close>

text \<open>
  A subscription is a flag and a listener. The listener of a process id is the callback that its
  subscriber passed; \<open>bus_publish\<close> gives the ids whose listeners are called, in order. What a
  listener throws is dropped by the loop.
\<close>

record EpochNotification =
  en_protocolVersion :: int
  en_projectId :: jsstring
  en_epoch :: int

type_synonym EpochNotificationBus = "(jsstring, bool) jsmap"

definition assertNotification :: "EpochNotification \<Rightarrow> unit policy_result" where
  "assertNotification n =
     rbind (guard (en_protocolVersion n = 1) inputInvalid) (\<lambda>_.
     rbind (assertIdentifier (en_projectId n)) (\<lambda>_.
     guard (\<not> (en_epoch n < 1 \<or> en_epoch n > MAX_POSTGRES_EPOCH)) inputInvalid))"

definition bus_subscribe :: "jsstring \<Rightarrow> EpochNotificationBus \<Rightarrow> (ThrownError, unit, EpochNotificationBus) outcome" where
  "bus_subscribe pid b =
     attempt b (assertIdentifier pid) (\<lambda>_.
     attempt b (guard (map_of b pid = None) inputInvalid) (\<lambda>_.
     (Inr (), AList.update pid True b)))"

definition bus_unsubscribe :: "jsstring \<Rightarrow> EpochNotificationBus \<Rightarrow> EpochNotificationBus" where
  "bus_unsubscribe pid b = AList.delete pid b"

definition bus_setDelivery :: "jsstring \<Rightarrow> bool \<Rightarrow> EpochNotificationBus \<Rightarrow> (ThrownError, unit, EpochNotificationBus) outcome" where
  "bus_setDelivery pid enabled b =
     attempt b (guard (map_of b pid \<noteq> None) inputInvalid) (\<lambda>_. (Inr (), AList.update pid enabled b))"

definition bus_publish :: "EpochNotification \<Rightarrow> EpochNotificationBus \<Rightarrow> jsstring list policy_result" where
  "bus_publish n b = rbind (assertNotification n) (\<lambda>_. Inr (map fst (filter snd b)))"

subsection \<open>Authorization drafts\<close>

text \<open>A JavaScript set of strings is a list without repetitions, in order of insertion.\<close>

type_synonym jsset = "jsstring list"

definition set_add :: "jsstring \<Rightarrow> jsset \<Rightarrow> jsset" where
  "set_add x s = (if x \<in> set s then s else s @ [x])"

definition set_delete :: "jsstring \<Rightarrow> jsset \<Rightarrow> jsset" where
  "set_delete x s = removeAll x s"

definition setEquals :: "jsset \<Rightarrow> jsset \<Rightarrow> bool" where
  "setEquals left right \<longleftrightarrow> length left = length right \<and> list_all (\<lambda>v. v \<in> set right) left"

record AuthorizationDraft =
  ad_bindings :: jsset
  ad_active :: bool

type_synonym draft_outcome = "(ThrownError, unit, AuthorizationDraft) outcome"

definition new_AuthorizationDraft :: "jsset \<Rightarrow> AuthorizationDraft" where
  "new_AuthorizationDraft bindings = \<lparr>ad_bindings = bindings, ad_active = True\<rparr>"

definition draft_assertActive :: "AuthorizationDraft \<Rightarrow> unit policy_result" where
  "draft_assertActive d = guard (ad_active d) (PolicyHarnessError POLICY_INTERNAL_FAILURE)"

definition draft_grant :: "AuthorizationBinding \<Rightarrow> AuthorizationDraft \<Rightarrow> draft_outcome" where
  "draft_grant b d =
     attempt d (draft_assertActive d) (\<lambda>_.
     attempt d (authorizationBindingKey b) (\<lambda>key.
     (Inr (), d\<lparr>ad_bindings := set_add key (ad_bindings d)\<rparr>)))"

definition draft_revoke :: "AuthorizationBinding \<Rightarrow> AuthorizationDraft \<Rightarrow> draft_outcome" where
  "draft_revoke b d =
     attempt d (draft_assertActive d) (\<lambda>_.
     attempt d (authorizationBindingKey b) (\<lambda>key.
     (Inr (), d\<lparr>ad_bindings := set_delete key (ad_bindings d)\<rparr>)))"

definition draft_close :: "AuthorizationDraft \<Rightarrow> (ThrownError, jsset, AuthorizationDraft) outcome" where
  "draft_close d =
     attempt d (draft_assertActive d) (\<lambda>_. (Inr (ad_bindings d), d\<lparr>ad_active := False\<rparr>))"

definition draft_abort :: "AuthorizationDraft \<Rightarrow> AuthorizationDraft" where
  "draft_abort d = d\<lparr>ad_active := False\<rparr>"

text \<open>
  The callback of a transaction: it grants and revokes, may close or abort the draft itself, and may
  throw at any point. A callback that catches an error of \<open>grant\<close> is a shorter list of calls.
\<close>

datatype DraftCall = CallGrant AuthorizationBinding | CallRevoke AuthorizationBinding
  | CallClose | CallAbort | CallThrow ThrownError

definition draft_call :: "DraftCall \<Rightarrow> AuthorizationDraft \<Rightarrow> draft_outcome" where
  "draft_call c d = (case c of
       CallGrant b \<Rightarrow> draft_grant b d
     | CallRevoke b \<Rightarrow> draft_revoke b d
     | CallClose \<Rightarrow> (case draft_close d of (Inl e, d') \<Rightarrow> (Inl e, d') | (Inr _, d') \<Rightarrow> (Inr (), d'))
     | CallAbort \<Rightarrow> (Inr (), draft_abort d)
     | CallThrow e \<Rightarrow> (Inl e, d))"

primrec draft_calls :: "DraftCall list \<Rightarrow> AuthorizationDraft \<Rightarrow> draft_outcome" where
  "draft_calls [] d = (Inr (), d)"
| "draft_calls (c # cs) d = (case draft_call c d of
       (Inl e, d') \<Rightarrow> (Inl e, d')
     | (Inr _, d') \<Rightarrow> draft_calls cs d')"

subsection \<open>The authorization store\<close>

record ProjectAuthorizationState =
  ps_projectId :: jsstring
  ps_epoch :: int
  ps_bindings :: jsset
  ps_changedAt :: int

record AuthorizationCommit =
  ac_projectId :: jsstring
  ac_epoch :: int
  ac_changed :: bool
  ac_committedAt :: int

record AuthorizationSnapshotRequest =
  sr_projectId :: jsstring
  sr_actorPrincipalIds :: "jsstring list"
  sr_delegationChain :: "jsstring list"
  sr_resourceId :: jsstring
  sr_permission :: jsstring

record AuthorizationSnapshot =
  sn_projectId :: jsstring
  sn_epoch :: int
  sn_observedDatabaseAt :: int
  sn_actorAllowed :: bool
  sn_delegationAllowed :: "bool list"

record InMemoryAuthorizationStore =
  as_projects :: "(jsstring, ProjectAuthorizationState) jsmap"
  as_readFailure :: "ThrownError option"
  as_readCount :: int

definition new_AuthorizationStore :: InMemoryAuthorizationStore where
  "new_AuthorizationStore = \<lparr>as_projects = [], as_readFailure = None, as_readCount = 0\<rparr>"

definition store_requireProject :: "InMemoryAuthorizationStore \<Rightarrow> jsstring \<Rightarrow> ProjectAuthorizationState policy_result" where
  "store_requireProject s pid = (case map_of (as_projects s) pid of
       None \<Rightarrow> Inl (PolicyHarnessError POLICY_EPOCH_UNAVAILABLE)
     | Some p \<Rightarrow> Inr p)"

definition put_project :: "ProjectAuthorizationState \<Rightarrow> InMemoryAuthorizationStore \<Rightarrow> InMemoryAuthorizationStore" where
  "put_project p s = s\<lparr>as_projects := AList.update (ps_projectId p) p (as_projects s)\<rparr>"

definition store_createProject ::
    "ClockReading \<Rightarrow> jsstring \<Rightarrow> InMemoryAuthorizationStore \<Rightarrow> (ThrownError, unit, InMemoryAuthorizationStore) outcome" where
  "store_createProject clock pid s =
     attempt s (assertIdentifier pid) (\<lambda>_.
     attempt s (guard (map_of (as_projects s) pid = None) inputInvalid) (\<lambda>_.
     attempt s (readDatabaseClock clock) (\<lambda>databaseNow.
     (Inr (), put_project \<lparr>ps_projectId = pid, ps_epoch = 1, ps_bindings = [], ps_changedAt = databaseNow\<rparr> s))))"

text \<open>
  A transaction: the callback works on a draft; unchanged bindings return the current epoch; a
  change writes bindings and epoch together and is announced. The outcome carries the notification
  that the store hands to the bus.
\<close>

definition store_commitChange ::
    "ClockReading \<Rightarrow> ProjectAuthorizationState \<Rightarrow> jsset \<Rightarrow> InMemoryAuthorizationStore
     \<Rightarrow> (ThrownError, AuthorizationCommit \<times> EpochNotification option, InMemoryAuthorizationStore) outcome" where
  "store_commitChange clock current nextBindings s =
     (if setEquals (ps_bindings current) nextBindings
      then (Inr (\<lparr>ac_projectId = ps_projectId current, ac_epoch = ps_epoch current, ac_changed = False,
                   ac_committedAt = ps_changedAt current\<rparr>, None), s)
      else attempt s (guard (\<not> ps_epoch current \<ge> MAX_POSTGRES_EPOCH) (PolicyHarnessError POLICY_INTERNAL_FAILURE)) (\<lambda>_.
        attempt s (readDatabaseClock clock) (\<lambda>databaseNow.
        attempt s (guard (\<not> databaseNow < ps_changedAt current) (PolicyHarnessError POLICY_INTERNAL_FAILURE)) (\<lambda>_.
        let epoch = ps_epoch current + 1 in
        (Inr (\<lparr>ac_projectId = ps_projectId current, ac_epoch = epoch, ac_changed = True, ac_committedAt = databaseNow\<rparr>,
              Some \<lparr>en_protocolVersion = 1, en_projectId = ps_projectId current, en_epoch = epoch\<rparr>),
         put_project \<lparr>ps_projectId = ps_projectId current, ps_epoch = epoch, ps_bindings = nextBindings,
                       ps_changedAt = databaseNow\<rparr> s)))))"

definition store_transact ::
    "ClockReading \<Rightarrow> jsstring \<Rightarrow> DraftCall list \<Rightarrow> InMemoryAuthorizationStore
     \<Rightarrow> (ThrownError, AuthorizationCommit \<times> EpochNotification option, InMemoryAuthorizationStore) outcome" where
  "store_transact clock pid mutate s =
     attempt s (assertIdentifier pid) (\<lambda>_.
     attempt s (store_requireProject s pid) (\<lambda>current.
     case draft_calls mutate (new_AuthorizationDraft (ps_bindings current)) of
       (Inl e, draft) \<Rightarrow> (Inl e, s)
     | (Inr _, draft) \<Rightarrow>
         attempt s (fst (draft_close draft)) (\<lambda>nextBindings. store_commitChange clock current nextBindings s)))"

definition store_setReadFailure :: "ThrownError option \<Rightarrow> InMemoryAuthorizationStore \<Rightarrow> InMemoryAuthorizationStore" where
  "store_setReadFailure e s = s\<lparr>as_readFailure := e\<rparr>"

definition assertSnapshotRequest :: "AuthorizationSnapshotRequest \<Rightarrow> unit policy_result" where
  "assertSnapshotRequest r =
     rbind (assertIdentifier (sr_projectId r)) (\<lambda>_.
     rbind (copyIdentifierList (sr_actorPrincipalIds r) 129 True) (\<lambda>_.
     rbind (copyIdentifierList (sr_delegationChain r) 16 False) (\<lambda>_.
     rbind (assertIdentifier (sr_resourceId r)) (\<lambda>_.
     assertIdentifier (sr_permission r)))))"

definition has_binding :: "jsset \<Rightarrow> AuthorizationSnapshotRequest \<Rightarrow> jsstring \<Rightarrow> bool policy_result" where
  "has_binding bindings r principalId =
     rbind (authorizationBindingKey \<lparr>ab_principalId = principalId, ab_resourceId = sr_resourceId r,
              ab_permission = sr_permission r\<rparr>) (\<lambda>key. Inr (key \<in> set bindings))"

text \<open>\<open>Array.prototype.some\<close> stops at the first element that passes.\<close>

primrec someM :: "('a \<Rightarrow> ('e, bool) result) \<Rightarrow> 'a list \<Rightarrow> ('e, bool) result" where
  "someM f [] = Inr False"
| "someM f (x # xs) = rbind (f x) (\<lambda>b. if b then Inr True else someM f xs)"

definition store_readSnapshot ::
    "ClockReading \<Rightarrow> AuthorizationSnapshotRequest \<Rightarrow> InMemoryAuthorizationStore
     \<Rightarrow> (ThrownError, AuthorizationSnapshot, InMemoryAuthorizationStore) outcome" where
  "store_readSnapshot clock r s =
     attempt s (case as_readFailure s of None \<Rightarrow> Inr () | Some e \<Rightarrow> Inl e) (\<lambda>_.
     attempt s (assertSnapshotRequest r) (\<lambda>_.
     let s = s\<lparr>as_readCount := as_readCount s + 1\<rparr> in
     attempt s (store_requireProject s (sr_projectId r)) (\<lambda>state.
     attempt s (readDatabaseClock clock) (\<lambda>observedDatabaseAt.
     attempt s (someM (has_binding (ps_bindings state) r) (sr_actorPrincipalIds r)) (\<lambda>actorAllowed.
     attempt s (mapM (has_binding (ps_bindings state) r) (sr_delegationChain r)) (\<lambda>delegationAllowed.
     (Inr \<lparr>sn_projectId = ps_projectId state, sn_epoch = ps_epoch state,
            sn_observedDatabaseAt = observedDatabaseAt, sn_actorAllowed = actorAllowed,
            sn_delegationAllowed = delegationAllowed\<rparr>, s)))))))"

record ProjectInspection =
  pi_projectId :: jsstring
  pi_epoch :: int
  pi_bindingCount :: int
  pi_changedAt :: int

definition store_inspectProject :: "InMemoryAuthorizationStore \<Rightarrow> jsstring \<Rightarrow> ProjectInspection policy_result" where
  "store_inspectProject s pid =
     rbind (store_requireProject s pid) (\<lambda>state.
     Inr \<lparr>pi_projectId = ps_projectId state, pi_epoch = ps_epoch state,
          pi_bindingCount = int (length (ps_bindings state)), pi_changedAt = ps_changedAt state\<rparr>)"

subsection \<open>Compiled policies\<close>

record CompiledPolicyKey =
  ck_projectId :: jsstring
  ck_releaseId :: jsstring
  ck_policyRevision :: jsstring
  ck_compilerVersion :: jsstring

record CompiledPolicyArtifact = CompiledPolicyKey +
  ca_artifactDigest :: jsstring
  ca_evaluationContract :: jsstring

definition RESOURCE_PERMISSION_INTERSECTION_V1 :: jsstring where
  "RESOURCE_PERMISSION_INTERSECTION_V1 = js ''RESOURCE_PERMISSION_INTERSECTION_V1''"

record InMemoryCompiledPolicyStore =
  cs_artifacts :: "(jsstring, CompiledPolicyArtifact) jsmap"
  cs_readFailure :: "ThrownError option"
  cs_readCount :: int

definition new_CompiledPolicyStore :: InMemoryCompiledPolicyStore where
  "new_CompiledPolicyStore = \<lparr>cs_artifacts = [], cs_readFailure = None, cs_readCount = 0\<rparr>"

definition assertCompiledPolicyKey :: "'a CompiledPolicyKey_scheme \<Rightarrow> unit policy_result" where
  "assertCompiledPolicyKey k =
     rbind (assertIdentifier (ck_projectId k)) (\<lambda>_.
     rbind (assertIdentifier (ck_releaseId k)) (\<lambda>_.
     rbind (assertIdentifier (ck_policyRevision k)) (\<lambda>_.
     assertIdentifier (ck_compilerVersion k))))"

definition assertCompiledPolicyArtifact :: "CompiledPolicyArtifact \<Rightarrow> unit policy_result" where
  "assertCompiledPolicyArtifact a =
     rbind (assertCompiledPolicyKey a) (\<lambda>_.
     rbind (assertIdentifier (ca_artifactDigest a)) (\<lambda>_.
     guard (ca_evaluationContract a = RESOURCE_PERMISSION_INTERSECTION_V1) inputInvalid))"

definition compiledPolicyKey :: "'a CompiledPolicyKey_scheme \<Rightarrow> jsstring policy_result" where
  "compiledPolicyKey k =
     rbind (assertCompiledPolicyKey k) (\<lambda>_.
     Inr (encodeTuple [js ''compiled-policy-v1'', ck_projectId k, ck_releaseId k, ck_policyRevision k,
       ck_compilerVersion k]))"

definition policies_publish ::
    "CompiledPolicyArtifact \<Rightarrow> InMemoryCompiledPolicyStore \<Rightarrow> (ThrownError, unit, InMemoryCompiledPolicyStore) outcome" where
  "policies_publish a s =
     attempt s (assertCompiledPolicyArtifact a) (\<lambda>_.
     attempt s (compiledPolicyKey a) (\<lambda>key.
     case map_of (cs_artifacts s) key of
       None \<Rightarrow> (Inr (), s\<lparr>cs_artifacts := AList.update key a (cs_artifacts s)\<rparr>)
     | Some existing \<Rightarrow>
         attempt s (guard (\<not> ca_artifactDigest existing \<noteq> ca_artifactDigest a) inputInvalid) (\<lambda>_. (Inr (), s))))"

definition policies_get ::
    "CompiledPolicyKey \<Rightarrow> InMemoryCompiledPolicyStore \<Rightarrow> (ThrownError, CompiledPolicyArtifact, InMemoryCompiledPolicyStore) outcome" where
  "policies_get k s =
     attempt s (case cs_readFailure s of None \<Rightarrow> Inr () | Some e \<Rightarrow> Inl e) (\<lambda>_.
     attempt s (assertCompiledPolicyKey k) (\<lambda>_.
     let s = s\<lparr>cs_readCount := cs_readCount s + 1\<rparr> in
     attempt s (compiledPolicyKey k) (\<lambda>key.
     case map_of (cs_artifacts s) key of
       None \<Rightarrow> (Inl (PolicyHarnessError POLICY_ARTIFACT_NOT_FOUND), s)
     | Some a \<Rightarrow> (Inr a, s))))"

definition policies_setReadFailure :: "ThrownError option \<Rightarrow> InMemoryCompiledPolicyStore \<Rightarrow> InMemoryCompiledPolicyStore" where
  "policies_setReadFailure e s = s\<lparr>cs_readFailure := e\<rparr>"

end
