(* ===== verification/PolicyProcess.thy ===== *)
theory PolicyProcess
  imports PolicyEpoch
begin

text \<open>
  A process that answers authorization requests from a short-lived cache
  (\<open>tools/policy-epoch/process.ts\<close>). \<open>PolicyDecisionProcess\<close> is the class. What the clock, the
  authorization store and the policy store did during one call of \<open>decide\<close>, with the notifications
  that were observed while each dependency was read, is the argument \<open>DecideEnvironment\<close>. The
  callback \<open>observeFailure\<close> gets the observation that \<open>decide\<close> returns beside the result; what it
  throws is dropped by the code.
\<close>

datatype Decision = ALLOW | DENY

datatype Served = SOURCE_CACHE | SOURCE_FRESH

datatype PolicyDecisionResult =
    Decided Decision Served jsstring
  | FailedClosed PolicyFailureCode

record PolicyDecisionRequest =
  pr_projectId :: jsstring
  pr_identity :: PolicyIdentityContext
  pr_delegationChain :: "jsstring list"
  pr_resourceId :: jsstring
  pr_permission :: jsstring
  pr_releaseId :: jsstring
  pr_policyRevision :: jsstring
  pr_compilerVersion :: jsstring
  pr_correlationId :: jsstring

record PolicyDecisionCacheKey =
  pk_projectId :: jsstring
  pk_actorFingerprint :: jsstring
  pk_delegationFingerprint :: jsstring
  pk_resourceId :: jsstring
  pk_permission :: jsstring
  pk_releaseId :: jsstring
  pk_policyRevision :: jsstring
  pk_compilerVersion :: jsstring
  pk_epoch :: jsstring

record PolicyFailureObservation =
  fo_code :: PolicyFailureCode
  fo_processId :: jsstring
  fo_projectRef :: jsstring
  fo_correlationRef :: jsstring

record CachedDecision =
  cd_key :: PolicyDecisionCacheKey
  cd_fullKey :: jsstring
  cd_result :: Decision
  cd_confirmedAtMonotonic :: int
  cd_expiresAtMonotonic :: int
  cd_observedDatabaseAt :: int
  cd_artifactDigest :: jsstring

record PolicyDecisionProcess =
  pp_processId :: jsstring
  pp_cacheTtlMs :: int
  pp_cache :: "(jsstring, CachedDecision) jsmap"
  pp_epochFloor :: "(jsstring, int) jsmap"
  pp_lastMonotonic :: "int option"
  pp_clockUnsafe :: bool

record DecideEnvironment =
  de_lookupClock :: ClockReading
  de_snapshot :: "AuthorizationSnapshot policy_result"
  de_duringSnapshot :: "EpochNotification list"
  de_artifact :: "CompiledPolicyArtifact policy_result"
  de_duringArtifact :: "EpochNotification list"
  de_confirmClock :: ClockReading

subsection \<open>Requests and keys\<close>

definition normalizedIdentity :: "PolicyIdentityContext \<Rightarrow> jsstring list \<Rightarrow> PolicyIdentityContext" where
  "normalizedIdentity i groups = \<lparr>ic_subjectId = ic_subjectId i, ic_identityType = ic_identityType i,
     ic_groupPrincipalIds = groups\<rparr>"

definition normalizeDecisionRequest ::
    "(byte list \<Rightarrow> jsstring) \<Rightarrow> PolicyDecisionRequest \<Rightarrow> PolicyDecisionRequest policy_result" where
  "normalizeDecisionRequest sha256 input =
     rbind (assertIdentifier (pr_projectId input)) (\<lambda>_.
     rbind (assertIdentifier (ic_subjectId (pr_identity input))) (\<lambda>_.
     rbind (guard (valid_identityType (ic_identityType (pr_identity input))) inputInvalid) (\<lambda>_.
     rbind (copyIdentifierList (ic_groupPrincipalIds (pr_identity input)) 128 False) (\<lambda>groupPrincipalIds.
     rbind (actorFingerprint sha256 (normalizedIdentity (pr_identity input) groupPrincipalIds)) (\<lambda>_.
     rbind (guard (ic_subjectId (pr_identity input) \<notin> set groupPrincipalIds) inputInvalid) (\<lambda>_.
     rbind (copyIdentifierList (pr_delegationChain input) 16 False) (\<lambda>delegationChain.
     rbind (delegationFingerprint sha256 delegationChain) (\<lambda>_.
     rbind (assertIdentifier (pr_resourceId input)) (\<lambda>_.
     rbind (assertIdentifier (pr_permission input)) (\<lambda>_.
     rbind (assertIdentifier (pr_releaseId input)) (\<lambda>_.
     rbind (assertIdentifier (pr_policyRevision input)) (\<lambda>_.
     rbind (assertIdentifier (pr_compilerVersion input)) (\<lambda>_.
     rbind (assertIdentifier (pr_correlationId input)) (\<lambda>_.
     Inr \<lparr>pr_projectId = pr_projectId input,
          pr_identity = normalizedIdentity (pr_identity input) (js_sort compareText groupPrincipalIds),
          pr_delegationChain = delegationChain,
          pr_resourceId = pr_resourceId input,
          pr_permission = pr_permission input,
          pr_releaseId = pr_releaseId input,
          pr_policyRevision = pr_policyRevision input,
          pr_compilerVersion = pr_compilerVersion input,
          pr_correlationId = pr_correlationId input\<rparr>))))))))))))))"

definition createPolicyDecisionCacheKey ::
    "(byte list \<Rightarrow> jsstring) \<Rightarrow> PolicyDecisionRequest \<Rightarrow> int \<Rightarrow> PolicyDecisionCacheKey policy_result" where
  "createPolicyDecisionCacheKey sha256 input epoch =
     rbind (normalizeDecisionRequest sha256 input) (\<lambda>request.
     rbind (guard (\<not> (epoch < 1 \<or> epoch > MAX_POSTGRES_EPOCH)) inputInvalid) (\<lambda>_.
     rbind (actorFingerprint sha256 (pr_identity request)) (\<lambda>actor.
     rbind (delegationFingerprint sha256 (pr_delegationChain request)) (\<lambda>delegation.
     Inr \<lparr>pk_projectId = pr_projectId request,
          pk_actorFingerprint = actor,
          pk_delegationFingerprint = delegation,
          pk_resourceId = pr_resourceId request,
          pk_permission = pr_permission request,
          pk_releaseId = pr_releaseId request,
          pk_policyRevision = pr_policyRevision request,
          pk_compilerVersion = pr_compilerVersion request,
          pk_epoch = js_of_int epoch\<rparr>))))"

definition serializePolicyDecisionCacheKey :: "PolicyDecisionCacheKey \<Rightarrow> jsstring" where
  "serializePolicyDecisionCacheKey key = encodeTuple [js ''policy-decision-v1'', pk_projectId key,
     pk_actorFingerprint key, pk_delegationFingerprint key, pk_resourceId key, pk_permission key,
     pk_releaseId key, pk_policyRevision key, pk_compilerVersion key, pk_epoch key]"

definition createPolicyCacheBaseKey ::
    "(byte list \<Rightarrow> jsstring) \<Rightarrow> PolicyDecisionRequest \<Rightarrow> jsstring policy_result" where
  "createPolicyCacheBaseKey sha256 request =
     rbind (actorFingerprint sha256 (pr_identity request)) (\<lambda>actor.
     rbind (delegationFingerprint sha256 (pr_delegationChain request)) (\<lambda>delegation.
     Inr (encodeTuple [js ''policy-decision-base-v1'', pr_projectId request, actor, delegation,
       pr_resourceId request, pr_permission request, pr_releaseId request, pr_policyRevision request,
       pr_compilerVersion request])))"

definition isConfirmedSnapshot :: "AuthorizationSnapshot \<Rightarrow> PolicyDecisionRequest \<Rightarrow> bool" where
  "isConfirmedSnapshot snapshot request \<longleftrightarrow>
     sn_projectId snapshot = pr_projectId request \<and>
     sn_epoch snapshot \<ge> 1 \<and>
     sn_epoch snapshot \<le> MAX_POSTGRES_EPOCH \<and>
     isSafeInteger (sn_observedDatabaseAt snapshot) \<and>
     sn_observedDatabaseAt snapshot \<ge> 0 \<and>
     length (sn_delegationAllowed snapshot) = length (pr_delegationChain request)"

definition isExactCompiledArtifact :: "CompiledPolicyArtifact \<Rightarrow> PolicyDecisionRequest \<Rightarrow> bool" where
  "isExactCompiledArtifact artifact request \<longleftrightarrow>
     ck_projectId artifact = pr_projectId request \<and>
     ck_releaseId artifact = pr_releaseId request \<and>
     ck_policyRevision artifact = pr_policyRevision request \<and>
     ck_compilerVersion artifact = pr_compilerVersion request \<and>
     length (ca_artifactDigest artifact) > 0 \<and>
     ca_evaluationContract artifact = RESOURCE_PERMISSION_INTERSECTION_V1"

definition snapshotRequest :: "PolicyDecisionRequest \<Rightarrow> AuthorizationSnapshotRequest" where
  "snapshotRequest request = \<lparr>sr_projectId = pr_projectId request,
     sr_actorPrincipalIds = ic_subjectId (pr_identity request) # ic_groupPrincipalIds (pr_identity request),
     sr_delegationChain = pr_delegationChain request,
     sr_resourceId = pr_resourceId request,
     sr_permission = pr_permission request\<rparr>"

definition artifactKey :: "PolicyDecisionRequest \<Rightarrow> CompiledPolicyKey" where
  "artifactKey request = \<lparr>ck_projectId = pr_projectId request, ck_releaseId = pr_releaseId request,
     ck_policyRevision = pr_policyRevision request, ck_compilerVersion = pr_compilerVersion request\<rparr>"

subsection \<open>State\<close>

definition new_PolicyDecisionProcess ::
    "jsstring \<Rightarrow> int option \<Rightarrow> EpochNotificationBus \<Rightarrow> (ThrownError, PolicyDecisionProcess, EpochNotificationBus) outcome" where
  "new_PolicyDecisionProcess processId ttl bus =
     attempt bus (assertIdentifier processId) (\<lambda>_.
     let cacheTtlMs = (case ttl of None \<Rightarrow> MAX_POLICY_CACHE_TTL_MS | Some t \<Rightarrow> t) in
     attempt bus (assertDuration cacheTtlMs False) (\<lambda>_.
     attempt bus (guard (\<not> cacheTtlMs > MAX_POLICY_CACHE_TTL_MS) inputInvalid) (\<lambda>_.
     case bus_subscribe processId bus of
       (Inl e, bus') \<Rightarrow> (Inl e, bus')
     | (Inr _, bus') \<Rightarrow>
         (Inr \<lparr>pp_processId = processId, pp_cacheTtlMs = cacheTtlMs, pp_cache = [], pp_epochFloor = [],
               pp_lastMonotonic = None, pp_clockUnsafe = False\<rparr>, bus'))))"

definition floor_of :: "PolicyDecisionProcess \<Rightarrow> jsstring \<Rightarrow> int" where
  "floor_of p pid = (case map_of (pp_epochFloor p) pid of None \<Rightarrow> 1 | Some e \<Rightarrow> e)"

definition process_epochFloor :: "PolicyDecisionProcess \<Rightarrow> jsstring \<Rightarrow> int policy_result" where
  "process_epochFloor p pid = rbind (assertIdentifier pid) (\<lambda>_. Inr (floor_of p pid))"

definition set_floor :: "jsstring \<Rightarrow> int \<Rightarrow> PolicyDecisionProcess \<Rightarrow> PolicyDecisionProcess" where
  "set_floor pid e p = p\<lparr>pp_epochFloor := AList.update pid e (pp_epochFloor p)\<rparr>"

text \<open>Deleting during the iteration over the map removes every entry of the project.\<close>

definition drop_project :: "jsstring \<Rightarrow> PolicyDecisionProcess \<Rightarrow> PolicyDecisionProcess" where
  "drop_project pid p = p\<lparr>pp_cache := filter (\<lambda>(baseKey, cached). pk_projectId (cd_key cached) \<noteq> pid) (pp_cache p)\<rparr>"

definition observeNotification :: "EpochNotification \<Rightarrow> PolicyDecisionProcess \<Rightarrow> PolicyDecisionProcess" where
  "observeNotification n p =
     (if en_protocolVersion n \<noteq> 1 \<or> length (en_projectId n) = 0 \<or> en_epoch n < 1 \<or> en_epoch n > MAX_POSTGRES_EPOCH
      then p
      else if en_epoch n \<le> floor_of p (en_projectId n) then p
      else drop_project (en_projectId n) (set_floor (en_projectId n) (en_epoch n) p))"

definition markClockUnsafe :: "PolicyDecisionProcess \<Rightarrow> PolicyDecisionProcess" where
  "markClockUnsafe p = p\<lparr>pp_clockUnsafe := True, pp_cache := []\<rparr>"

definition clock_acceptable :: "PolicyDecisionProcess \<Rightarrow> int \<Rightarrow> bool" where
  "clock_acceptable p now \<longleftrightarrow> \<not> (\<not> isSafeInteger now \<or> now < 0
     \<or> (case pp_lastMonotonic p of None \<Rightarrow> False | Some l \<Rightarrow> now < l))"

definition observeMonotonicClock ::
    "ClockReading \<Rightarrow> PolicyDecisionProcess \<Rightarrow> (ThrownError, int, PolicyDecisionProcess) outcome" where
  "observeMonotonicClock r p =
     (let unsafe = (Inl (PolicyHarnessError POLICY_MONOTONIC_CLOCK_UNSAFE), markClockUnsafe p) in
      if pp_clockUnsafe p then (Inl (PolicyHarnessError POLICY_MONOTONIC_CLOCK_UNSAFE), p)
      else case r of
        ClockThrows \<Rightarrow> unsafe
      | ClockNotInteger \<Rightarrow> unsafe
      | ClockNumber now \<Rightarrow>
          if clock_acceptable p now then (Inr now, p\<lparr>pp_lastMonotonic := Some now\<rparr>) else unsafe)"

definition raiseEpochFloor :: "jsstring \<Rightarrow> int \<Rightarrow> PolicyDecisionProcess \<Rightarrow> PolicyDecisionProcess" where
  "raiseEpochFloor pid epoch p = (if epoch > floor_of p pid then set_floor pid epoch p else p)"

definition process_dispose :: "PolicyDecisionProcess \<Rightarrow> EpochNotificationBus \<Rightarrow> PolicyDecisionProcess \<times> EpochNotificationBus" where
  "process_dispose p bus = (p\<lparr>pp_cache := []\<rparr>, bus_unsubscribe (pp_processId p) bus)"

definition process_cacheSize :: "PolicyDecisionProcess \<Rightarrow> int" where
  "process_cacheSize p = int (length (pp_cache p))"

definition inspectCacheForTest :: "PolicyDecisionProcess \<Rightarrow> CachedDecision list" where
  "inspectCacheForTest p = map_values (pp_cache p)"

subsection \<open>Decisions\<close>

type_synonym decide_outcome =
  "(ThrownError, PolicyDecisionResult \<times> PolicyFailureObservation option, PolicyDecisionProcess) outcome"

definition failClosed ::
    "(byte list \<Rightarrow> jsstring) \<Rightarrow> PolicyFailureCode \<Rightarrow> PolicyDecisionRequest option \<Rightarrow> PolicyDecisionProcess \<Rightarrow> decide_outcome" where
  "failClosed sha256 code request p =
     attempt p (case request of None \<Rightarrow> Inr (js ''invalid'') | Some r \<Rightarrow> opaqueProjectRef sha256 (pr_projectId r)) (\<lambda>projectRef.
     attempt p (case request of None \<Rightarrow> Inr (js ''invalid'') | Some r \<Rightarrow> opaqueCorrelationRef sha256 (pr_correlationId r)) (\<lambda>correlationRef.
     (Inr (FailedClosed code, Some \<lparr>fo_code = code, fo_processId = pp_processId p,
        fo_projectRef = projectRef, fo_correlationRef = correlationRef\<rparr>), p)))"

definition cache_hit :: "PolicyDecisionProcess \<Rightarrow> int \<Rightarrow> int \<Rightarrow> jsstring \<Rightarrow> CachedDecision option" where
  "cache_hit p lookupAt floor baseKey = (case map_of (pp_cache p) baseKey of
       None \<Rightarrow> None
     | Some cached \<Rightarrow>
         if lookupAt < cd_expiresAtMonotonic cached \<and> bigint_of_js (pk_epoch (cd_key cached)) \<ge> floor
         then Some cached else None)"

definition artifactFailure :: "ThrownError \<Rightarrow> PolicyFailureCode" where
  "artifactFailure e = (if e = PolicyHarnessError POLICY_ARTIFACT_NOT_FOUND
     then POLICY_ARTIFACT_NOT_FOUND else POLICY_ARTIFACT_UNAVAILABLE)"

definition snapshotDecision :: "AuthorizationSnapshot \<Rightarrow> Decision" where
  "snapshotDecision snapshot =
     (if sn_actorAllowed snapshot \<and> list_all (\<lambda>b. b) (sn_delegationAllowed snapshot) then ALLOW else DENY)"

text \<open>The last part of \<open>decide\<close>: the snapshot and the artifact are confirmed.\<close>

definition decide_confirmed ::
    "(byte list \<Rightarrow> jsstring) \<Rightarrow> PolicyDecisionRequest \<Rightarrow> jsstring \<Rightarrow> AuthorizationSnapshot \<Rightarrow> CompiledPolicyArtifact
     \<Rightarrow> ClockReading \<Rightarrow> PolicyDecisionProcess \<Rightarrow> decide_outcome" where
  "decide_confirmed sha256 request baseKey snapshot artifact clock p =
     (case observeMonotonicClock clock p of
        (Inl _, p) \<Rightarrow> failClosed sha256 POLICY_MONOTONIC_CLOCK_UNSAFE (Some request) p
      | (Inr confirmedAt, p) \<Rightarrow>
          let expiresAt = confirmedAt + pp_cacheTtlMs p in
          if \<not> isSafeInteger expiresAt
          then failClosed sha256 POLICY_MONOTONIC_CLOCK_UNSAFE (Some request) (markClockUnsafe p)
          else let decision = snapshotDecision snapshot in
            attempt p (createPolicyDecisionCacheKey sha256 request (sn_epoch snapshot)) (\<lambda>key.
            let p = raiseEpochFloor (pr_projectId request) (sn_epoch snapshot) p;
                entry = \<lparr>cd_key = key, cd_fullKey = serializePolicyDecisionCacheKey key, cd_result = decision,
                  cd_confirmedAtMonotonic = confirmedAt, cd_expiresAtMonotonic = expiresAt,
                  cd_observedDatabaseAt = sn_observedDatabaseAt snapshot,
                  cd_artifactDigest = ca_artifactDigest artifact\<rparr> in
            (Inr (Decided decision SOURCE_FRESH (js_of_int (sn_epoch snapshot)), None),
             p\<lparr>pp_cache := AList.update baseKey entry (pp_cache p)\<rparr>)))"

text \<open>The middle part: nothing usable is cached, and the dependencies are read.\<close>

definition decide_fresh ::
    "(byte list \<Rightarrow> jsstring) \<Rightarrow> PolicyDecisionRequest \<Rightarrow> jsstring \<Rightarrow> int \<Rightarrow> DecideEnvironment \<Rightarrow> PolicyDecisionProcess \<Rightarrow> decide_outcome" where
  "decide_fresh sha256 request baseKey floor env p =
     (let p = fold observeNotification (de_duringSnapshot env) p in
      case de_snapshot env of
        Inl _ \<Rightarrow> failClosed sha256 POLICY_EPOCH_UNAVAILABLE (Some request) p
      | Inr snapshot \<Rightarrow>
          if \<not> isConfirmedSnapshot snapshot request
          then failClosed sha256 POLICY_EPOCH_UNAVAILABLE (Some request) p
          else if sn_epoch snapshot < floor
          then failClosed sha256 POLICY_EPOCH_UNCONFIRMED (Some request) p
          else let p = fold observeNotification (de_duringArtifact env) p in
            case de_artifact env of
              Inl e \<Rightarrow> failClosed sha256 (artifactFailure e) (Some request) p
            | Inr artifact \<Rightarrow>
                if \<not> isExactCompiledArtifact artifact request
                then failClosed sha256 POLICY_ARTIFACT_UNAVAILABLE (Some request) p
                else if sn_epoch snapshot < floor_of p (pr_projectId request)
                then failClosed sha256 POLICY_EPOCH_UNCONFIRMED (Some request) p
                else if ca_evaluationContract artifact \<noteq> RESOURCE_PERMISSION_INTERSECTION_V1
                then failClosed sha256 POLICY_ARTIFACT_UNAVAILABLE (Some request) p
                else decide_confirmed sha256 request baseKey snapshot artifact (de_confirmClock env) p)"

definition decide ::
    "(byte list \<Rightarrow> jsstring) \<Rightarrow> PolicyDecisionRequest \<Rightarrow> DecideEnvironment \<Rightarrow> PolicyDecisionProcess \<Rightarrow> decide_outcome" where
  "decide sha256 input env p =
     (case normalizeDecisionRequest sha256 input of
        Inl _ \<Rightarrow> failClosed sha256 POLICY_INPUT_INVALID None p
      | Inr request \<Rightarrow>
          (case observeMonotonicClock (de_lookupClock env) p of
             (Inl _, p) \<Rightarrow> failClosed sha256 POLICY_MONOTONIC_CLOCK_UNSAFE (Some request) p
           | (Inr lookupAt, p) \<Rightarrow>
               attempt p (createPolicyCacheBaseKey sha256 request) (\<lambda>baseKey.
               let floor = floor_of p (pr_projectId request) in
               case cache_hit p lookupAt floor baseKey of
                 Some cached \<Rightarrow>
                   (Inr (Decided (cd_result cached) SOURCE_CACHE (pk_epoch (cd_key cached)), None), p)
               | None \<Rightarrow>
                   decide_fresh sha256 request baseKey floor env
                     (p\<lparr>pp_cache := AList.delete baseKey (pp_cache p)\<rparr>))))"

end
