(* ===== verification/PolicyKeys.thy ===== *)
theory PolicyKeys
  imports PolicyProcess
begin

text \<open>
  The keys of the policy cache. \<open>encodeTuple\<close> is injective on all strings; the digests of tuples
  separate what they digest as long as the strings are well-formed and the hash does not collide on
  the tuples at hand. Normal forms of requests, so that every check of \<open>decide\<close> is evaluated once.
\<close>

subsection \<open>Tuples\<close>

lemma js_of_int_digits: "0 \<le> i \<Longrightarrow> \<forall>u\<in>set (js_of_int i). is_digit u"
  using js_of_nat_digits by (auto simp: js_of_int_def)

lemma encodePart_append_inject:
  assumes "encodePart p @ r = encodePart p' @ r'"
  shows "p = p' \<and> r = r'"
proof -
  define ds where "ds q = js_of_int (int (utf8ByteLength q))" for q
  have digits: "takeWhile is_digit (ds q @ 58 # x) = ds q" for q x
  proof -
    have "\<not> is_digit 58" by (simp add: is_digit_def)
    then show ?thesis using js_of_int_digits [of "int (utf8ByteLength q)"] by (simp add: ds_def takeWhile_append2)
  qed
  have eq: "ds p @ 58 # p @ r = ds p' @ 58 # p' @ r'" using assms by (simp add: encodePart_def ds_def)
  then have "ds p = ds p'" using digits [of p "p @ r"] digits [of p' "p' @ r'"] by simp
  then have "utf8ByteLength p = utf8ByteLength p'" and "p @ r = p' @ r'" using eq by (simp_all add: ds_def)
  then show ?thesis using utf8_prefix_inject by blast
qed

lemma encodePart_neq_Nil [simp]: "encodePart p \<noteq> []"
  by (simp add: encodePart_def)

lemma encodeTuple_Nil [simp]: "encodeTuple [] = []"
  by (simp add: encodeTuple_def)

lemma encodeTuple_Cons: "encodeTuple (p # ps) = encodePart p @ encodeTuple ps"
  by (simp add: encodeTuple_def)

lemma encodeTuple_eq_iff [simp]: "encodeTuple ps = encodeTuple qs \<longleftrightarrow> ps = qs"
proof
  show "encodeTuple ps = encodeTuple qs \<Longrightarrow> ps = qs"
  proof (induction ps arbitrary: qs)
    case Nil
    then show ?case by (cases qs) (simp_all add: encodeTuple_Cons)
  next
    case (Cons p ps)
    then show ?case
      by (cases qs) (auto simp: encodeTuple_Cons dest!: encodePart_append_inject)
  qed
qed simp

subsection \<open>Well-formed tuples\<close>

lemma isWellFormed_encodePart: "isWellFormed p \<Longrightarrow> isWellFormed (encodePart p)"
proof -
  have "isWellFormed (js_of_int (int (utf8ByteLength p)) @ [58])"
    using js_of_int_digits [of "int (utf8ByteLength p)"]
    by (intro isWellFormed_plain) (auto simp: is_digit_nat)
  then show "isWellFormed p \<Longrightarrow> isWellFormed (encodePart p)"
    using isWellFormed_append [of "js_of_int (int (utf8ByteLength p)) @ [58]" p] by (simp add: encodePart_def)
qed

lemma isWellFormed_encodeTuple: "\<forall>p\<in>set ps. isWellFormed p \<Longrightarrow> isWellFormed (encodeTuple ps)"
proof (induction ps)
  case Nil
  then show ?case by (simp add: isWellFormed_def)
next
  case (Cons p ps)
  then show ?case by (simp add: encodeTuple_Cons isWellFormed_append isWellFormed_encodePart)
qed

text \<open>The bytes that are hashed determine the tuple.\<close>

definition tupleBytes :: "jsstring list \<Rightarrow> byte list" where
  "tupleBytes parts = utf8Encode (encodeTuple parts)"

lemma tupleBytes_eq_iff:
  "\<forall>p\<in>set ps \<union> set qs. isWellFormed p \<Longrightarrow> tupleBytes ps = tupleBytes qs \<longleftrightarrow> ps = qs"
  unfolding tupleBytes_def by (subst utf8Encode_inject) (auto intro: isWellFormed_encodeTuple)

lemma digestTuple_bytes: "digestTuple sha256 ps = sha256 (tupleBytes ps)"
  by (simp add: digestTuple_def tupleBytes_def)

subsection \<open>Checks as predicates\<close>

definition ident_list :: "nat \<Rightarrow> jsstring list \<Rightarrow> bool" where
  "ident_list n vs \<longleftrightarrow> length vs \<le> n \<and> (\<forall>v\<in>set vs. valid_identifier v) \<and> distinct vs"

lemma assertIdentifier_eq [simp]: "assertIdentifier v = Inr () \<longleftrightarrow> valid_identifier v"
  by (simp add: assertIdentifier_def)

lemma assertIdentifier_if: "assertIdentifier v = (if valid_identifier v then Inr () else Inl inputInvalid)"
  by (simp add: assertIdentifier_def guard_def)

lemma remdups_length: "length (remdups vs) = length vs \<longleftrightarrow> distinct vs"
  by (metis length_remdups_card_conv distinct_card card_distinct)

lemma mapM_identifiers:
  "mapM (\<lambda>item. rbind (assertIdentifier item) (\<lambda>_. Inr item)) vs =
     (if \<forall>v\<in>set vs. valid_identifier v then Inr vs else Inl inputInvalid)"
  by (induction vs) (auto simp: assertIdentifier_if)

lemma copyIdentifierList_if:
  "copyIdentifierList vs n False = (if ident_list n vs then Inr vs else Inl inputInvalid)"
  by (auto simp: copyIdentifierList_def ident_list_def mapM_identifiers remdups_length guard_def)

lemma copyIdentifierList_one:
  "copyIdentifierList vs n True = (if ident_list n vs \<and> vs \<noteq> [] then Inr vs else Inl inputInvalid)"
  by (auto simp: copyIdentifierList_def ident_list_def mapM_identifiers remdups_length guard_def)

definition valid_identity :: "PolicyIdentityContext \<Rightarrow> bool" where
  "valid_identity i \<longleftrightarrow> valid_identifier (ic_subjectId i) \<and> valid_identityType (ic_identityType i)
     \<and> ident_list 128 (ic_groupPrincipalIds i)"

definition valid_request :: "PolicyDecisionRequest \<Rightarrow> bool" where
  "valid_request r \<longleftrightarrow> valid_identifier (pr_projectId r) \<and> valid_identity (pr_identity r)
     \<and> ic_subjectId (pr_identity r) \<notin> set (ic_groupPrincipalIds (pr_identity r))
     \<and> ident_list 16 (pr_delegationChain r) \<and> valid_identifier (pr_resourceId r)
     \<and> valid_identifier (pr_permission r) \<and> valid_identifier (pr_releaseId r)
     \<and> valid_identifier (pr_policyRevision r) \<and> valid_identifier (pr_compilerVersion r)
     \<and> valid_identifier (pr_correlationId r)"

definition actor_print :: "(byte list \<Rightarrow> jsstring) \<Rightarrow> PolicyIdentityContext \<Rightarrow> jsstring" where
  "actor_print sha256 i = digestTuple sha256 (actorParts i (sort (ic_groupPrincipalIds i)))"

definition delegation_print :: "(byte list \<Rightarrow> jsstring) \<Rightarrow> jsstring list \<Rightarrow> jsstring" where
  "delegation_print sha256 c = digestTuple sha256 (js ''delegation-v1'' # c)"

definition normal_request :: "PolicyDecisionRequest \<Rightarrow> PolicyDecisionRequest" where
  "normal_request r = r\<lparr>pr_identity := (pr_identity r)
     \<lparr>ic_groupPrincipalIds := sort (ic_groupPrincipalIds (pr_identity r))\<rparr>\<rparr>"

definition base_key :: "(byte list \<Rightarrow> jsstring) \<Rightarrow> PolicyDecisionRequest \<Rightarrow> jsstring" where
  "base_key sha256 r = encodeTuple [js ''policy-decision-base-v1'', pr_projectId r,
     actor_print sha256 (pr_identity r), delegation_print sha256 (pr_delegationChain r),
     pr_resourceId r, pr_permission r, pr_releaseId r, pr_policyRevision r, pr_compilerVersion r]"

definition decision_key :: "(byte list \<Rightarrow> jsstring) \<Rightarrow> PolicyDecisionRequest \<Rightarrow> int \<Rightarrow> PolicyDecisionCacheKey" where
  "decision_key sha256 r epoch = \<lparr>pk_projectId = pr_projectId r,
     pk_actorFingerprint = actor_print sha256 (pr_identity r),
     pk_delegationFingerprint = delegation_print sha256 (pr_delegationChain r),
     pk_resourceId = pr_resourceId r, pk_permission = pr_permission r, pk_releaseId = pr_releaseId r,
     pk_policyRevision = pr_policyRevision r, pk_compilerVersion = pr_compilerVersion r,
     pk_epoch = js_of_int epoch\<rparr>"

lemma actorFingerprint_if:
  "actorFingerprint sha256 i = (if valid_identity i then Inr (actor_print sha256 i) else Inl inputInvalid)"
  by (simp add: actorFingerprint_def valid_identity_def assertIdentifier_if copyIdentifierList_if
      guard_def actor_print_def js_sort_compareBy)

lemma delegationFingerprint_if:
  "delegationFingerprint sha256 c = (if ident_list 16 c then Inr (delegation_print sha256 c) else Inl inputInvalid)"
  by (simp add: delegationFingerprint_def copyIdentifierList_if delegation_print_def)

lemma normalizedIdentity_same [simp]: "normalizedIdentity i (ic_groupPrincipalIds i) = i"
  by (simp add: normalizedIdentity_def)

lemma normalizedIdentity_update: "normalizedIdentity i gs = i\<lparr>ic_groupPrincipalIds := gs\<rparr>"
  by (simp add: normalizedIdentity_def)

lemma normalizeDecisionRequest_if:
  "normalizeDecisionRequest sha256 r = (if valid_request r then Inr (normal_request r) else Inl inputInvalid)"
proof (cases "valid_request r")
  case True
  then show ?thesis
    by (simp add: normalizeDecisionRequest_def valid_request_def valid_identity_def assertIdentifier_if
        copyIdentifierList_if guard_def actorFingerprint_if delegationFingerprint_if js_sort_compareBy
        normal_request_def normalizedIdentity_update)
next
  case False
  then show ?thesis
    unfolding normalizeDecisionRequest_def valid_request_def valid_identity_def
    by (auto simp add: assertIdentifier_if copyIdentifierList_if guard_def actorFingerprint_if
        delegationFingerprint_if valid_identity_def)
qed

lemma sort_sort [simp]: "sort (sort xs) = sort xs"
  by (simp add: sorted_sort_id)

lemma ident_list_sort [simp]: "ident_list n (sort vs) = ident_list n vs"
  by (simp add: ident_list_def)

lemma normal_request_simps [simp]:
  "pr_projectId (normal_request r) = pr_projectId r"
  "pr_delegationChain (normal_request r) = pr_delegationChain r"
  "pr_resourceId (normal_request r) = pr_resourceId r"
  "pr_permission (normal_request r) = pr_permission r"
  "pr_releaseId (normal_request r) = pr_releaseId r"
  "pr_policyRevision (normal_request r) = pr_policyRevision r"
  "pr_compilerVersion (normal_request r) = pr_compilerVersion r"
  "pr_correlationId (normal_request r) = pr_correlationId r"
  "ic_subjectId (pr_identity (normal_request r)) = ic_subjectId (pr_identity r)"
  "ic_identityType (pr_identity (normal_request r)) = ic_identityType (pr_identity r)"
  "ic_groupPrincipalIds (pr_identity (normal_request r)) = sort (ic_groupPrincipalIds (pr_identity r))"
  by (simp_all add: normal_request_def)

text \<open>A normal form is valid and its own normal form, and has the keys of the request.\<close>

lemma normal_request_valid [simp]: "valid_request (normal_request r) = valid_request r"
  by (simp add: valid_request_def valid_identity_def)

lemma normal_request_idem [simp]: "normal_request (normal_request r) = normal_request r"
  by (simp add: normal_request_def)

lemma actor_print_normal [simp]: "actor_print sha256 (pr_identity (normal_request r)) = actor_print sha256 (pr_identity r)"
  by (simp add: actor_print_def actorParts_def)

lemma base_key_normal [simp]: "base_key sha256 (normal_request r) = base_key sha256 r"
  by (simp add: base_key_def)

lemma decision_key_normal [simp]: "decision_key sha256 (normal_request r) e = decision_key sha256 r e"
  by (simp add: decision_key_def)

lemma createPolicyCacheBaseKey_valid:
  "valid_request r \<Longrightarrow> createPolicyCacheBaseKey sha256 r = Inr (base_key sha256 r)"
  by (simp add: createPolicyCacheBaseKey_def actorFingerprint_if delegationFingerprint_if valid_request_def base_key_def)

lemma createPolicyDecisionCacheKey_valid:
  assumes "valid_request r" and "1 \<le> e" and "e \<le> MAX_POSTGRES_EPOCH"
  shows "createPolicyDecisionCacheKey sha256 r e = Inr (decision_key sha256 r e)"
proof -
  have "valid_identity (pr_identity (normal_request r))" "ident_list 16 (pr_delegationChain r)"
    using assms(1) normal_request_valid [of r] unfolding valid_request_def by blast+
  then show ?thesis
    using assms by (simp add: createPolicyDecisionCacheKey_def normalizeDecisionRequest_if
        actorFingerprint_if delegationFingerprint_if decision_key_def)
qed

subsection \<open>Requests with the same base key\<close>

definition wf_request :: "PolicyDecisionRequest \<Rightarrow> bool" where
  "wf_request r \<longleftrightarrow> isWellFormed (ic_subjectId (pr_identity r))
     \<and> list_all isWellFormed (ic_groupPrincipalIds (pr_identity r)) \<and> list_all isWellFormed (pr_delegationChain r)"

definition same_request :: "PolicyDecisionRequest \<Rightarrow> PolicyDecisionRequest \<Rightarrow> bool" where
  "same_request r s \<longleftrightarrow> pr_projectId r = pr_projectId s
     \<and> ic_identityType (pr_identity r) = ic_identityType (pr_identity s)
     \<and> ic_subjectId (pr_identity r) = ic_subjectId (pr_identity s)
     \<and> set (ic_groupPrincipalIds (pr_identity r)) = set (ic_groupPrincipalIds (pr_identity s))
     \<and> pr_delegationChain r = pr_delegationChain s
     \<and> pr_resourceId r = pr_resourceId s \<and> pr_permission r = pr_permission s
     \<and> pr_releaseId r = pr_releaseId s \<and> pr_policyRevision r = pr_policyRevision s
     \<and> pr_compilerVersion r = pr_compilerVersion s"

lemma same_request_normal [simp]:
  "same_request (normal_request r) s = same_request r s" "same_request r (normal_request s) = same_request r s"
  by (simp_all add: same_request_def)

lemma sort_eq_iff_set: "distinct xs \<Longrightarrow> distinct ys \<Longrightarrow> sort xs = sort ys \<longleftrightarrow> set xs = set ys"
  by (metis set_sort sorted_distinct_set_unique sorted_sort distinct_sort)

definition hashedBytes :: "PolicyDecisionRequest \<Rightarrow> byte list list" where
  "hashedBytes r = [tupleBytes (actorParts (pr_identity r) (sort (ic_groupPrincipalIds (pr_identity r)))),
     tupleBytes (js ''delegation-v1'' # pr_delegationChain r)]"

lemma actorParts_eq_iff:
  "actorParts i gs = actorParts j hs \<longleftrightarrow>
     ic_identityType i = ic_identityType j \<and> ic_subjectId i = ic_subjectId j \<and> gs = hs"
  by (auto simp: actorParts_def)

lemma valid_identityType_wf: "valid_identityType t \<Longrightarrow> isWellFormed t"
  by (auto simp: valid_identityType_def)

lemma base_key_eq_iff:
  assumes v: "valid_request r" "valid_request s" and w: "wf_request r" "wf_request s"
    and free: "inj_on sha256 (set (hashedBytes r) \<union> set (hashedBytes s))"
  shows "base_key sha256 r = base_key sha256 s \<longleftrightarrow> same_request r s"
proof -
  let ?ga = "\<lambda>r. actorParts (pr_identity r) (sort (ic_groupPrincipalIds (pr_identity r)))"
  have types: "isWellFormed (ic_identityType (pr_identity r))" "isWellFormed (ic_identityType (pr_identity s))"
    using v by (auto simp: valid_request_def valid_identity_def valid_identityType_wf)
  have "tupleBytes (?ga r) = tupleBytes (?ga s) \<longleftrightarrow> ?ga r = ?ga s"
    by (rule tupleBytes_eq_iff) (use w types in \<open>auto simp: actorParts_def wf_request_def list_all_iff\<close>)
  then have actor: "actor_print sha256 (pr_identity r) = actor_print sha256 (pr_identity s) \<longleftrightarrow> ?ga r = ?ga s"
    using inj_onD [OF free, of "tupleBytes (?ga r)" "tupleBytes (?ga s)"]
    by (auto simp: actor_print_def digestTuple_bytes hashedBytes_def)
  have "tupleBytes (js ''delegation-v1'' # pr_delegationChain r) = tupleBytes (js ''delegation-v1'' # pr_delegationChain s)
      \<longleftrightarrow> js ''delegation-v1'' # pr_delegationChain r = js ''delegation-v1'' # pr_delegationChain s"
    by (rule tupleBytes_eq_iff) (use w in \<open>auto simp: wf_request_def list_all_iff\<close>)
  then have chain: "delegation_print sha256 (pr_delegationChain r) = delegation_print sha256 (pr_delegationChain s)
      \<longleftrightarrow> pr_delegationChain r = pr_delegationChain s"
    using inj_onD [OF free, of "tupleBytes (js ''delegation-v1'' # pr_delegationChain r)"
        "tupleBytes (js ''delegation-v1'' # pr_delegationChain s)"]
    by (auto simp: delegation_print_def digestTuple_bytes hashedBytes_def)
  show ?thesis
    unfolding base_key_def encodeTuple_eq_iff
    using v by (auto simp: actor chain actorParts_eq_iff same_request_def valid_request_def
        valid_identity_def ident_list_def sort_eq_iff_set)
qed

end
