(* ===== verification/PolicyMoves.thy ===== *)
theory PolicyMoves
  imports PolicyKeys
begin

text \<open>
  What a policy process can do to its state, as six elementary moves. Every call is a sequence of
  them, and each keeps the invariant of the cache and only raises the epoch floors.
  A move is restricted by the notifications \<open>N\<close> that may be observed and the snapshots \<open>S\<close> that may
  be stored for a request.
\<close>

definition stored_entry ::
    "(byte list \<Rightarrow> jsstring) \<Rightarrow> PolicyDecisionRequest \<Rightarrow> AuthorizationSnapshot \<Rightarrow> jsstring \<Rightarrow> int \<Rightarrow> int \<Rightarrow> CachedDecision" where
  "stored_entry sha256 r sn digest now ttl = \<lparr>cd_key = decision_key sha256 r (sn_epoch sn),
     cd_fullKey = serializePolicyDecisionCacheKey (decision_key sha256 r (sn_epoch sn)),
     cd_result = snapshotDecision sn, cd_confirmedAtMonotonic = now, cd_expiresAtMonotonic = now + ttl,
     cd_observedDatabaseAt = sn_observedDatabaseAt sn, cd_artifactDigest = digest\<rparr>"

definition store_decision ::
    "(byte list \<Rightarrow> jsstring) \<Rightarrow> PolicyDecisionRequest \<Rightarrow> AuthorizationSnapshot \<Rightarrow> CachedDecision \<Rightarrow> PolicyDecisionProcess \<Rightarrow> PolicyDecisionProcess" where
  "store_decision sha256 r sn entry p = (let p = raiseEpochFloor (pr_projectId r) (sn_epoch sn) p in
     p\<lparr>pp_cache := AList.update (base_key sha256 r) entry (pp_cache p)\<rparr>)"

inductive proc_move for sha256 N S where
  mv_notify: "N n \<Longrightarrow> proc_move sha256 N S p (observeNotification n p)"
| mv_clock: "\<not> pp_clockUnsafe p \<Longrightarrow> clock_acceptable p now
    \<Longrightarrow> proc_move sha256 N S p (p\<lparr>pp_lastMonotonic := Some now\<rparr>)"
| mv_unsafe: "proc_move sha256 N S p (markClockUnsafe p)"
| mv_delete: "proc_move sha256 N S p (p\<lparr>pp_cache := AList.delete k (pp_cache p)\<rparr>)"
| mv_clear: "proc_move sha256 N S p (p\<lparr>pp_cache := []\<rparr>)"
| mv_store: "S r sn \<Longrightarrow> valid_request r \<Longrightarrow> isConfirmedSnapshot sn r \<Longrightarrow> \<not> pp_clockUnsafe p
    \<Longrightarrow> pp_lastMonotonic p = Some now \<Longrightarrow> isSafeInteger (now + pp_cacheTtlMs p)
    \<Longrightarrow> floor_of p (pr_projectId r) \<le> sn_epoch sn
    \<Longrightarrow> proc_move sha256 N S p (store_decision sha256 r sn (stored_entry sha256 r sn digest now (pp_cacheTtlMs p)) p)"

abbreviation proc_moves where
  "proc_moves sha256 N S \<equiv> (proc_move sha256 N S)\<^sup>*\<^sup>*"

subsection \<open>Selectors after a move\<close>

lemma set_floor_simps [simp]:
  "pp_cache (set_floor pid e p) = pp_cache p" "pp_clockUnsafe (set_floor pid e p) = pp_clockUnsafe p"
  "pp_lastMonotonic (set_floor pid e p) = pp_lastMonotonic p" "pp_cacheTtlMs (set_floor pid e p) = pp_cacheTtlMs p"
  "pp_processId (set_floor pid e p) = pp_processId p"
  "pp_epochFloor (set_floor pid e p) = AList.update pid e (pp_epochFloor p)"
  by (simp_all add: set_floor_def)

lemma floor_of_set_floor [simp]: "floor_of (set_floor pid e p) q = (if q = pid then e else floor_of p q)"
  by (simp add: floor_of_def)

lemma drop_project_simps [simp]:
  "pp_clockUnsafe (drop_project pid p) = pp_clockUnsafe p" "pp_lastMonotonic (drop_project pid p) = pp_lastMonotonic p"
  "pp_cacheTtlMs (drop_project pid p) = pp_cacheTtlMs p" "pp_processId (drop_project pid p) = pp_processId p"
  "pp_epochFloor (drop_project pid p) = pp_epochFloor p" "floor_of (drop_project pid p) q = floor_of p q"
  by (simp_all add: drop_project_def floor_of_def)

lemma floor_of_cache [simp]:
  "floor_of (p\<lparr>pp_cache := c\<rparr>) q = floor_of p q"
  "floor_of (p\<lparr>pp_lastMonotonic := l\<rparr>) q = floor_of p q"
  by (simp_all add: floor_of_def)

lemma markClockUnsafe_simps [simp]:
  "pp_cache (markClockUnsafe p) = []" "pp_clockUnsafe (markClockUnsafe p)"
  "pp_lastMonotonic (markClockUnsafe p) = pp_lastMonotonic p" "pp_cacheTtlMs (markClockUnsafe p) = pp_cacheTtlMs p"
  "pp_processId (markClockUnsafe p) = pp_processId p" "pp_epochFloor (markClockUnsafe p) = pp_epochFloor p"
  "floor_of (markClockUnsafe p) q = floor_of p q"
  by (simp_all add: markClockUnsafe_def floor_of_def)

lemma observeNotification_simps [simp]:
  "pp_clockUnsafe (observeNotification n p) = pp_clockUnsafe p"
  "pp_lastMonotonic (observeNotification n p) = pp_lastMonotonic p"
  "pp_cacheTtlMs (observeNotification n p) = pp_cacheTtlMs p"
  "pp_processId (observeNotification n p) = pp_processId p"
  by (simp_all add: observeNotification_def)

lemma fold_observe_simps [simp]:
  "pp_clockUnsafe (fold observeNotification ns p) = pp_clockUnsafe p"
  "pp_lastMonotonic (fold observeNotification ns p) = pp_lastMonotonic p"
  "pp_cacheTtlMs (fold observeNotification ns p) = pp_cacheTtlMs p"
  "pp_processId (fold observeNotification ns p) = pp_processId p"
  by (induction ns arbitrary: p) simp_all

lemma raiseEpochFloor_simps [simp]:
  "pp_cache (raiseEpochFloor pid e p) = pp_cache p" "pp_clockUnsafe (raiseEpochFloor pid e p) = pp_clockUnsafe p"
  "pp_lastMonotonic (raiseEpochFloor pid e p) = pp_lastMonotonic p"
  "pp_cacheTtlMs (raiseEpochFloor pid e p) = pp_cacheTtlMs p"
  "pp_processId (raiseEpochFloor pid e p) = pp_processId p"
  by (simp_all add: raiseEpochFloor_def)

lemma floor_of_raise [simp]:
  "floor_of (raiseEpochFloor pid e p) q = (if q = pid then max (floor_of p q) e else floor_of p q)"
  by (auto simp: raiseEpochFloor_def)

lemma store_decision_simps [simp]:
  "pp_cache (store_decision sha256 r sn c p) = AList.update (base_key sha256 r) c (pp_cache p)"
  "pp_clockUnsafe (store_decision sha256 r sn c p) = pp_clockUnsafe p"
  "pp_lastMonotonic (store_decision sha256 r sn c p) = pp_lastMonotonic p"
  "pp_cacheTtlMs (store_decision sha256 r sn c p) = pp_cacheTtlMs p"
  "pp_processId (store_decision sha256 r sn c p) = pp_processId p"
  "floor_of (store_decision sha256 r sn c p) q =
     (if q = pr_projectId r then max (floor_of p q) (sn_epoch sn) else floor_of p q)"
  by (simp_all add: store_decision_def Let_def)

lemma floor_observe_mono: "floor_of p q \<le> floor_of (observeNotification n p) q"
  by (simp add: observeNotification_def)

lemma floor_observe_in:
  "floor_of (observeNotification n p) q =
     (if en_protocolVersion n = 1 \<and> en_projectId n \<noteq> [] \<and> 1 \<le> en_epoch n \<and> en_epoch n \<le> MAX_POSTGRES_EPOCH
         \<and> q = en_projectId n then max (floor_of p q) (en_epoch n) else floor_of p q)"
  by (simp add: observeNotification_def)

text \<open>A project whose floor a notification raises has no entry left.\<close>

lemma map_of_filter_Some:
  "distinct (map fst m) \<Longrightarrow> map_of (filter P m) k = Some v \<longleftrightarrow> map_of m k = Some v \<and> P (k, v)"
  by (induction m) (auto dest!: map_of_SomeD simp: image_iff Bex_def split: if_splits)

lemma observe_cache_empty: "pp_cache p = [] \<Longrightarrow> pp_cache (observeNotification n p) = []"
  by (simp add: observeNotification_def drop_project_def)

lemma observe_cache:
  assumes "wf_jsmap (pp_cache p)"
  shows "map_of (pp_cache (observeNotification n p)) k = Some c \<longleftrightarrow>
    map_of (pp_cache p) k = Some c \<and>
    \<not> (floor_of p (en_projectId n) < floor_of (observeNotification n p) (en_projectId n)
       \<and> pk_projectId (cd_key c) = en_projectId n)"
  using assms by (auto simp: observeNotification_def drop_project_def wf_jsmap_def map_of_filter_Some)

lemma wf_filter: "wf_jsmap m \<Longrightarrow> wf_jsmap (filter P m)"
  by (simp add: wf_jsmap_def distinct_map_filter)

lemma wf_delete: "wf_jsmap m \<Longrightarrow> wf_jsmap (AList.delete k m)"
  by (simp add: wf_jsmap_def distinct_delete)

subsection \<open>The invariant of a process\<close>

definition good_entry ::
    "(byte list \<Rightarrow> jsstring) \<Rightarrow> PolicyDecisionProcess \<Rightarrow> jsstring \<Rightarrow> CachedDecision \<Rightarrow> PolicyDecisionRequest \<Rightarrow> int \<Rightarrow> bool" where
  "good_entry sha256 p k c r e \<longleftrightarrow>
     valid_request r \<and> k = base_key sha256 r \<and> cd_key c = decision_key sha256 r e
     \<and> cd_fullKey c = serializePolicyDecisionCacheKey (cd_key c)
     \<and> 1 \<le> e \<and> e \<le> MAX_POSTGRES_EPOCH \<and> e \<le> floor_of p (pr_projectId r)
     \<and> cd_expiresAtMonotonic c = cd_confirmedAtMonotonic c + pp_cacheTtlMs p
     \<and> isSafeInteger (cd_expiresAtMonotonic c) \<and> 0 \<le> cd_confirmedAtMonotonic c
     \<and> (\<exists>l. pp_lastMonotonic p = Some l \<and> cd_confirmedAtMonotonic c \<le> l)"

definition proc_inv :: "(byte list \<Rightarrow> jsstring) \<Rightarrow> PolicyDecisionProcess \<Rightarrow> bool" where
  "proc_inv sha256 p \<longleftrightarrow>
     0 < pp_cacheTtlMs p \<and> pp_cacheTtlMs p \<le> MAX_POLICY_CACHE_TTL_MS
     \<and> wf_jsmap (pp_cache p) \<and> (pp_clockUnsafe p \<longrightarrow> pp_cache p = [])
     \<and> (\<forall>q. 1 \<le> floor_of p q \<and> floor_of p q \<le> MAX_POSTGRES_EPOCH)
     \<and> (\<forall>l. pp_lastMonotonic p = Some l \<longrightarrow> 0 \<le> l \<and> isSafeInteger l)
     \<and> (\<forall>k c. map_of (pp_cache p) k = Some c \<longrightarrow> (\<exists>r e. good_entry sha256 p k c r e))"

lemma good_entry_later:
  assumes "good_entry sha256 p k c r e" and "pp_cacheTtlMs p' = pp_cacheTtlMs p"
    and "floor_of p (pr_projectId r) \<le> floor_of p' (pr_projectId r)"
    and "\<And>l. pp_lastMonotonic p = Some l \<Longrightarrow> \<exists>l'. pp_lastMonotonic p' = Some l' \<and> l \<le> l'"
  shows "good_entry sha256 p' k c r e"
  using assms(1,2,3) assms(4) unfolding good_entry_def by fastforce

text \<open>A move that keeps the old entries it leaves, and adds only good ones, keeps the invariant.\<close>

lemma proc_inv_later:
  assumes inv: "proc_inv sha256 p" and ttl: "pp_cacheTtlMs p' = pp_cacheTtlMs p"
    and wf: "wf_jsmap (pp_cache p')" and unsafe: "pp_clockUnsafe p' \<Longrightarrow> pp_cache p' = []"
    and floor: "\<And>q. floor_of p q \<le> floor_of p' q" "\<And>q. floor_of p' q \<le> MAX_POSTGRES_EPOCH"
    and last: "\<And>l. pp_lastMonotonic p = Some l \<Longrightarrow> \<exists>l'. pp_lastMonotonic p' = Some l' \<and> l \<le> l'"
    and last': "\<And>l. pp_lastMonotonic p' = Some l \<Longrightarrow> 0 \<le> l \<and> isSafeInteger l"
    and entries: "\<And>k c. map_of (pp_cache p') k = Some c \<Longrightarrow>
      map_of (pp_cache p) k = Some c \<or> (\<exists>r e. good_entry sha256 p' k c r e)"
  shows "proc_inv sha256 p'"
proof -
  have "\<exists>r e. good_entry sha256 p' k c r e" if k: "map_of (pp_cache p') k = Some c" for k c
    using entries [OF k]
  proof
    assume "map_of (pp_cache p) k = Some c"
    then obtain r e where "good_entry sha256 p k c r e" using inv unfolding proc_inv_def by blast
    then have "good_entry sha256 p' k c r e" by (rule good_entry_later) (use ttl floor last in auto)
    then show ?thesis by blast
  qed
  moreover have "1 \<le> floor_of p' q" for q
    using inv floor(1) [of q] unfolding proc_inv_def by (meson order.trans)
  ultimately show ?thesis
    using inv ttl wf unsafe floor(2) last' unfolding proc_inv_def by simp
qed

lemma clock_acceptable_iff:
  "clock_acceptable p now \<longleftrightarrow> isSafeInteger now \<and> 0 \<le> now \<and> (\<forall>l. pp_lastMonotonic p = Some l \<longrightarrow> l \<le> now)"
  by (auto simp: clock_acceptable_def split: option.splits)

lemma map_of_delete: "map_of (AList.delete k m) k' = (if k' = k then None else map_of m k')"
  by (simp add: delete_conv')

lemma proc_move_inv:
  assumes "proc_move sha256 N S p p'" and inv: "proc_inv sha256 p"
  shows "proc_inv sha256 p'"
proof -
  have wf: "wf_jsmap (pp_cache p)" and last: "\<And>l. pp_lastMonotonic p = Some l \<Longrightarrow> 0 \<le> l \<and> isSafeInteger l"
    and floors: "\<And>q. floor_of p q \<le> MAX_POSTGRES_EPOCH" and unsafe: "pp_clockUnsafe p \<Longrightarrow> pp_cache p = []"
    using inv by (simp_all add: proc_inv_def)
  from assms(1) show ?thesis
  proof cases
    case (mv_notify n)
    show ?thesis
      using inv
    proof (rule proc_inv_later)
      show "wf_jsmap (pp_cache p')"
        using wf by (simp add: mv_notify observeNotification_def drop_project_def wf_filter)
      show "pp_clockUnsafe p' \<Longrightarrow> pp_cache p' = []"
        using unsafe by (simp add: mv_notify observe_cache_empty)
    qed (use floors last in \<open>auto simp: mv_notify floor_observe_in observe_cache [OF wf]\<close>)
  next
    case (mv_clock now)
    show ?thesis
      using inv by (rule proc_inv_later) (use mv_clock wf floors unsafe in \<open>auto simp: clock_acceptable_iff\<close>)
  next
    case mv_unsafe
    show ?thesis
      using inv by (rule proc_inv_later) (use floors last in \<open>auto simp: mv_unsafe\<close>)
  next
    case (mv_delete k)
    show ?thesis
      using inv by (rule proc_inv_later)
        (use floors last wf unsafe in \<open>auto simp: mv_delete wf_delete map_of_delete split: if_splits\<close>)
  next
    case mv_clear
    show ?thesis
      using inv by (rule proc_inv_later) (use floors last in \<open>auto simp: mv_clear\<close>)
  next
    case (mv_store r sn now digest)
    have "good_entry sha256 p' (base_key sha256 r) (stored_entry sha256 r sn digest now (pp_cacheTtlMs p)) r (sn_epoch sn)"
      using mv_store last by (auto simp: good_entry_def stored_entry_def isConfirmedSnapshot_def)
    then show ?thesis
      by (intro proc_inv_later [OF inv])
         (use mv_store floors last wf in \<open>auto simp: isConfirmedSnapshot_def split: if_splits\<close>)
  qed
qed

lemma proc_moves_inv: "proc_moves sha256 N S p p' \<Longrightarrow> proc_inv sha256 p \<Longrightarrow> proc_inv sha256 p'"
  by (induction rule: rtranclp_induct) (auto intro: proc_move_inv)

subsection \<open>What only grows\<close>

definition proc_later :: "PolicyDecisionProcess \<Rightarrow> PolicyDecisionProcess \<Rightarrow> bool" where
  "proc_later p p' \<longleftrightarrow> pp_processId p' = pp_processId p \<and> pp_cacheTtlMs p' = pp_cacheTtlMs p
     \<and> (\<forall>q. floor_of p q \<le> floor_of p' q) \<and> (pp_clockUnsafe p \<longrightarrow> pp_clockUnsafe p')
     \<and> (\<forall>l. pp_lastMonotonic p = Some l \<longrightarrow> (\<exists>l'. pp_lastMonotonic p' = Some l' \<and> l \<le> l'))"

lemma proc_later_refl [simp]: "proc_later p p"
  by (simp add: proc_later_def)

lemma proc_later_trans: "proc_later p q \<Longrightarrow> proc_later q r \<Longrightarrow> proc_later p r"
  unfolding proc_later_def by (elim conjE, intro conjI) (simp_all, (meson order.trans)+)

lemma proc_move_later: "proc_move sha256 N S p p' \<Longrightarrow> proc_later p p'"
  by (induction rule: proc_move.induct)
     (auto simp: proc_later_def clock_acceptable_iff floor_observe_mono)

lemma proc_moves_later: "proc_moves sha256 N S p p' \<Longrightarrow> proc_later p p'"
  by (induction rule: rtranclp_induct) (auto intro: proc_later_trans proc_move_later)

end
