(* ===== verification/PolicyDecide.thy ===== *)
theory PolicyDecide
  imports PolicyMoves
begin

text \<open>
  Every call of \<open>decide\<close> returns and is a sequence of moves; its result is inverted into the three
  ways a decision comes about: refused, from the cache, or fresh.
\<close>

definition refused_with ::
    "(byte list \<Rightarrow> jsstring) \<Rightarrow> PolicyFailureCode \<Rightarrow> PolicyDecisionRequest option \<Rightarrow> PolicyDecisionProcess
     \<Rightarrow> PolicyFailureObservation" where
  "refused_with sha256 code request p = \<lparr>fo_code = code, fo_processId = pp_processId p,
     fo_projectRef = (case request of None \<Rightarrow> js ''invalid'' | Some r \<Rightarrow> take 20 (digestTuple sha256 [js ''project-ref-v1'', pr_projectId r])),
     fo_correlationRef = (case request of None \<Rightarrow> js ''invalid''
        | Some r \<Rightarrow> take 20 (digestTuple sha256 [js ''correlation-ref-v1'', pr_correlationId r]))\<rparr>"

lemma failClosed_None: "failClosed sha256 code None p = (Inr (FailedClosed code, Some (refused_with sha256 code None p)), p)"
  by (simp add: failClosed_def refused_with_def)

lemma failClosed_valid:
  "valid_request r \<Longrightarrow> failClosed sha256 code (Some r) p =
     (Inr (FailedClosed code, Some (refused_with sha256 code (Some r) p)), p)"
  by (simp add: failClosed_def refused_with_def opaqueProjectRef_def opaqueCorrelationRef_def
      assertIdentifier_if valid_request_def)

lemma observeMonotonicClock_cases:
  obtains (ok) now where "r = ClockNumber now" "\<not> pp_clockUnsafe p" "clock_acceptable p now"
      "observeMonotonicClock r p = (Inr now, p\<lparr>pp_lastMonotonic := Some now\<rparr>)"
  | (unsafe) e p' where "observeMonotonicClock r p = (Inl e, p')" "p' = p \<or> p' = markClockUnsafe p"
      "pp_clockUnsafe p'"
proof (cases "\<exists>now. r = ClockNumber now \<and> \<not> pp_clockUnsafe p \<and> clock_acceptable p now")
  case True
  then show ?thesis using ok by (auto simp: observeMonotonicClock_def Let_def)
next
  case False
  let ?q = "if pp_clockUnsafe p then p else markClockUnsafe p"
  have "observeMonotonicClock r p = (Inl (PolicyHarnessError POLICY_MONOTONIC_CLOCK_UNSAFE), ?q)"
    using False by (cases r) (auto simp: observeMonotonicClock_def Let_def)
  then show ?thesis by (rule unsafe) auto
qed

lemma observeMonotonicClock_unsafe:
  "pp_clockUnsafe p \<Longrightarrow> observeMonotonicClock r p = (Inl (PolicyHarnessError POLICY_MONOTONIC_CLOCK_UNSAFE), p)"
  by (simp add: observeMonotonicClock_def Let_def)

subsection \<open>Fresh decisions\<close>

text \<open>How a fresh decision comes about, and the state it leaves.\<close>

definition fresh_decision ::
    "(byte list \<Rightarrow> jsstring) \<Rightarrow> PolicyDecisionRequest \<Rightarrow> int \<Rightarrow> DecideEnvironment \<Rightarrow> PolicyDecisionProcess \<Rightarrow>
     Decision \<Rightarrow> int \<Rightarrow> PolicyDecisionProcess \<Rightarrow> bool" where
  "fresh_decision sha256 r floor env p d e p' \<longleftrightarrow> (\<exists>sn art now.
     let q = fold observeNotification (de_duringArtifact env) (fold observeNotification (de_duringSnapshot env) p) in
     de_snapshot env = Inr sn \<and> isConfirmedSnapshot sn r \<and> e = sn_epoch sn \<and> floor \<le> e
     \<and> d = snapshotDecision sn \<and> de_artifact env = Inr art \<and> isExactCompiledArtifact art r
     \<and> floor_of q (pr_projectId r) \<le> e
     \<and> de_confirmClock env = ClockNumber now \<and> \<not> pp_clockUnsafe q \<and> clock_acceptable q now
     \<and> isSafeInteger (now + pp_cacheTtlMs q)
     \<and> p' = store_decision sha256 r sn (stored_entry sha256 r sn (ca_artifactDigest art) now (pp_cacheTtlMs q))
              (q\<lparr>pp_lastMonotonic := Some now\<rparr>))"

lemma decide_confirmed_cases:
  assumes v: "valid_request r" and sn: "isConfirmedSnapshot sn r"
  obtains (refused) code p' where "decide_confirmed sha256 r (base_key sha256 r) sn art clock p =
        (Inr (FailedClosed code, Some (refused_with sha256 code (Some r) p')), p')"
      "proc_moves sha256 (\<lambda>_. False) (\<lambda>_ _. False) p p'"
  | (stored) now where "decide_confirmed sha256 r (base_key sha256 r) sn art clock p =
        (Inr (Decided (snapshotDecision sn) SOURCE_FRESH (js_of_int (sn_epoch sn)), None),
         store_decision sha256 r sn (stored_entry sha256 r sn (ca_artifactDigest art) now (pp_cacheTtlMs p))
           (p\<lparr>pp_lastMonotonic := Some now\<rparr>))"
      "clock = ClockNumber now" "\<not> pp_clockUnsafe p" "clock_acceptable p now" "isSafeInteger (now + pp_cacheTtlMs p)"
proof (cases rule: observeMonotonicClock_cases [of clock p])
  case (unsafe e p')
  then have "proc_moves sha256 (\<lambda>_. False) (\<lambda>_ _. False) p p'" by (auto intro: mv_unsafe)
  with unsafe v show ?thesis
    by (intro refused [of POLICY_MONOTONIC_CLOCK_UNSAFE p']) (auto simp: decide_confirmed_def failClosed_valid)
next
  case (ok now)
  let ?q = "p\<lparr>pp_lastMonotonic := Some now\<rparr>"
  have q: "proc_move sha256 (\<lambda>_. False) (\<lambda>_ _. False) p ?q" using ok by (intro mv_clock)
  have e: "1 \<le> sn_epoch sn" "sn_epoch sn \<le> MAX_POSTGRES_EPOCH" using sn by (auto simp: isConfirmedSnapshot_def)
  show ?thesis
  proof (cases "isSafeInteger (now + pp_cacheTtlMs p)")
    case True
    with ok v e show ?thesis
      by (intro stored [of now])
         (auto simp: decide_confirmed_def Let_def createPolicyDecisionCacheKey_valid store_decision_def stored_entry_def)
  next
    case False
    have "proc_moves sha256 (\<lambda>_. False) (\<lambda>_ _. False) p (markClockUnsafe ?q)"
      using q mv_unsafe by (metis (no_types, lifting) r_into_rtranclp rtranclp.rtrancl_into_rtrancl)
    with False ok v show ?thesis
      by (intro refused [of POLICY_MONOTONIC_CLOCK_UNSAFE "markClockUnsafe ?q"])
         (auto simp: decide_confirmed_def Let_def failClosed_valid)
  qed
qed

lemma proc_move_mono:
  assumes "proc_move sha256 N S p p'" and "\<And>n. N n \<Longrightarrow> N' n" and "\<And>r s. S r s \<Longrightarrow> S' r s"
  shows "proc_move sha256 N' S' p p'"
  using assms by (cases rule: proc_move.cases) (auto intro: proc_move.intros)

lemma proc_moves_mono:
  assumes "proc_moves sha256 N S p p'" and "\<And>n. N n \<Longrightarrow> N' n" and "\<And>r s. S r s \<Longrightarrow> S' r s"
  shows "proc_moves sha256 N' S' p p'"
  using assms(1)
proof induction
  case base
  then show ?case by simp
next
  case (step q r)
  then show ?case using proc_move_mono [OF step(2), of N' S'] assms(2,3) by (meson rtranclp.rtrancl_into_rtrancl)
qed

lemma fold_observe_moves:
  assumes "\<And>n. n \<in> set ns \<Longrightarrow> N n"
  shows "proc_moves sha256 N S p (fold observeNotification ns p)"
  using assms
proof (induction ns arbitrary: p)
  case Nil
  then show ?case by simp
next
  case (Cons n ns)
  have "proc_move sha256 N S p (observeNotification n p)" by (intro mv_notify) (simp add: Cons.prems)
  with Cons show ?case by (simp add: converse_rtranclp_into_rtranclp)
qed

text \<open>The notifications and the snapshot one call may use.\<close>

abbreviation env_notifications :: "DecideEnvironment \<Rightarrow> EpochNotification \<Rightarrow> bool" where
  "env_notifications env n \<equiv> n \<in> set (de_duringSnapshot env) \<union> set (de_duringArtifact env)"

lemma decide_fresh_cases:
  assumes v: "valid_request r"
  obtains (refused) code p' where "decide_fresh sha256 r (base_key sha256 r) floor env p =
        (Inr (FailedClosed code, Some (refused_with sha256 code (Some r) p')), p')"
      "proc_moves sha256 (env_notifications env) (\<lambda>_ _. False) p p'"
  | (stored) d e p' where "decide_fresh sha256 r (base_key sha256 r) floor env p =
        (Inr (Decided d SOURCE_FRESH (js_of_int e), None), p')"
      "fresh_decision sha256 r floor env p d e p'"
proof -
  let ?N = "env_notifications env" and ?S = "\<lambda>_ _. False"
  define q1 where "q1 = fold observeNotification (de_duringSnapshot env) p"
  define q2 where "q2 = fold observeNotification (de_duringArtifact env) q1"
  have m1: "proc_moves sha256 ?N ?S p q1" unfolding q1_def by (rule fold_observe_moves) simp
  have "proc_moves sha256 ?N ?S q1 q2" unfolding q2_def by (rule fold_observe_moves) simp
  with m1 have m2: "proc_moves sha256 ?N ?S p q2" by simp
  note eqs = decide_fresh_def q1_def [symmetric] q2_def [symmetric] Let_def failClosed_valid [OF v]
  show ?thesis
  proof (cases "de_snapshot env")
    case (Inl e)
    with m1 show ?thesis by (intro refused [of POLICY_EPOCH_UNAVAILABLE q1]) (simp_all add: eqs)
  next
    case sn: (Inr sn)
    show ?thesis
    proof (cases "isConfirmedSnapshot sn r \<and> floor \<le> sn_epoch sn")
      case False
      with m1 sn show ?thesis
        by (intro refused [of "if isConfirmedSnapshot sn r then POLICY_EPOCH_UNCONFIRMED else POLICY_EPOCH_UNAVAILABLE" q1])
           (auto simp: eqs)
    next
      case ok: True
      show ?thesis
      proof (cases "de_artifact env")
        case (Inl e)
        with m2 sn ok show ?thesis by (intro refused [of "artifactFailure e" q2]) (simp_all add: eqs)
      next
        case art: (Inr art)
        show ?thesis
        proof (cases "isExactCompiledArtifact art r \<and> floor_of q2 (pr_projectId r) \<le> sn_epoch sn")
          case False
          with m2 sn ok art show ?thesis
            by (intro refused [of "if isExactCompiledArtifact art r then POLICY_EPOCH_UNCONFIRMED else POLICY_ARTIFACT_UNAVAILABLE" q2])
               (auto simp: eqs)
        next
          case ok2: True
          then have "ca_evaluationContract art = RESOURCE_PERMISSION_INTERSECTION_V1"
            by (simp add: isExactCompiledArtifact_def)
          with sn ok art ok2 have eq: "decide_fresh sha256 r (base_key sha256 r) floor env p =
              decide_confirmed sha256 r (base_key sha256 r) sn art (de_confirmClock env) q2"
            by (simp add: eqs)
          show ?thesis
          proof (cases rule: decide_confirmed_cases [OF v, of sn sha256 art "de_confirmClock env" q2])
            case 1
            then show ?case using ok by simp
          next
            case (2 code p')
            have "proc_moves sha256 ?N ?S q2 p'" using 2(2) by (rule proc_moves_mono) auto
            with m2 have "proc_moves sha256 ?N ?S p p'" by simp
            with 2 eq show ?thesis by (intro refused) simp_all
          next
            case (3 now)
            with sn ok art ok2 have "fresh_decision sha256 r floor env p (snapshotDecision sn) (sn_epoch sn)
              (store_decision sha256 r sn (stored_entry sha256 r sn (ca_artifactDigest art) now (pp_cacheTtlMs q2))
                 (q2\<lparr>pp_lastMonotonic := Some now\<rparr>))"
              unfolding fresh_decision_def q1_def [symmetric] q2_def [symmetric] Let_def by blast
            with 3(1) eq show ?thesis by (intro stored) simp_all
          qed
        qed
      qed
    qed
  qed
qed

lemma fresh_decision_moves:
  assumes "fresh_decision sha256 r floor env p d e p'" and v: "valid_request r"
    and S: "\<And>sn. de_snapshot env = Inr sn \<Longrightarrow> S r sn" and N: "\<And>n. env_notifications env n \<Longrightarrow> N n"
  shows "proc_moves sha256 N S p p'"
proof -
  define q where "q = fold observeNotification (de_duringArtifact env) (fold observeNotification (de_duringSnapshot env) p)"
  obtain sn and art :: CompiledPolicyArtifact and now where h: "de_snapshot env = Inr sn" "isConfirmedSnapshot sn r" "e = sn_epoch sn" "floor_of q (pr_projectId r) \<le> e"
      "\<not> pp_clockUnsafe q" "clock_acceptable q now" "isSafeInteger (now + pp_cacheTtlMs q)"
    and p': "p' = store_decision sha256 r sn (stored_entry sha256 r sn (ca_artifactDigest art) now (pp_cacheTtlMs q))
        (q\<lparr>pp_lastMonotonic := Some now\<rparr>)"
    using assms(1) unfolding fresh_decision_def Let_def q_def [symmetric] by blast
  have "proc_moves sha256 N S p q"
    unfolding q_def by (rule rtranclp_trans; rule fold_observe_moves) (use N in auto)
  also have "proc_move sha256 N S q (q\<lparr>pp_lastMonotonic := Some now\<rparr>)" using h by (intro mv_clock)
  also have "proc_move sha256 N S (q\<lparr>pp_lastMonotonic := Some now\<rparr>) p'"
    unfolding p' using mv_store [of S r sn "q\<lparr>pp_lastMonotonic := Some now\<rparr>" now sha256 N "ca_artifactDigest art"] h v S
    by simp
  finally show ?thesis .
qed

subsection \<open>Decisions\<close>

lemma decide_cases:
  obtains (refused) code req p' where "decide sha256 input env p =
        (Inr (FailedClosed code, Some (refused_with sha256 code req p')), p')"
      "proc_moves sha256 (env_notifications env) (\<lambda>_ _. False) p p'"
  | (hit) now c where "decide sha256 input env p =
        (Inr (Decided (cd_result c) SOURCE_CACHE (pk_epoch (cd_key c)), None), p\<lparr>pp_lastMonotonic := Some now\<rparr>)"
      "valid_request input" "de_lookupClock env = ClockNumber now" "\<not> pp_clockUnsafe p" "clock_acceptable p now"
      "map_of (pp_cache p) (base_key sha256 input) = Some c" "now < cd_expiresAtMonotonic c"
      "floor_of p (pr_projectId input) \<le> bigint_of_js (pk_epoch (cd_key c))"
  | (stored) now d e p' where "decide sha256 input env p = (Inr (Decided d SOURCE_FRESH (js_of_int e), None), p')"
      "valid_request input" "de_lookupClock env = ClockNumber now" "\<not> pp_clockUnsafe p" "clock_acceptable p now"
      "fresh_decision sha256 (normal_request input) (floor_of p (pr_projectId input)) env
         (p\<lparr>pp_lastMonotonic := Some now, pp_cache := AList.delete (base_key sha256 input) (pp_cache p)\<rparr>) d e p'"
proof (cases "valid_request input")
  case False
  then show ?thesis
    by (intro refused [of POLICY_INPUT_INVALID None p]) (simp_all add: decide_def normalizeDecisionRequest_if failClosed_None)
next
  case v: True
  let ?r = "normal_request input"
  have vr: "valid_request ?r" using v by simp
  note eqs = decide_def normalizeDecisionRequest_if v failClosed_valid [OF vr]
    createPolicyCacheBaseKey_valid [OF vr] Let_def
  show ?thesis
  proof (cases rule: observeMonotonicClock_cases [of "de_lookupClock env" p])
    case (unsafe e p')
    then have "proc_moves sha256 (env_notifications env) (\<lambda>_ _. False) p p'" by (auto intro: mv_unsafe)
    with unsafe v show ?thesis
      by (intro refused [of POLICY_MONOTONIC_CLOCK_UNSAFE "Some ?r" p']) (auto simp: eqs)
  next
    case (ok now)
    let ?p1 = "p\<lparr>pp_lastMonotonic := Some now\<rparr>"
    show ?thesis
    proof (cases "cache_hit ?p1 now (floor_of p (pr_projectId input)) (base_key sha256 input)")
      case (Some c)
      with ok v show ?thesis
        by (intro hit [of c now]) (auto simp: eqs cache_hit_def split: option.splits if_splits)
    next
      case None
      let ?p2 = "?p1\<lparr>pp_cache := AList.delete (base_key sha256 input) (pp_cache p)\<rparr>"
      have eq: "decide sha256 input env p =
          decide_fresh sha256 ?r (base_key sha256 ?r) (floor_of p (pr_projectId input)) env ?p2"
        using None ok by (simp add: eqs)
      have "proc_move sha256 (env_notifications env) (\<lambda>_ _. False) p ?p1" using ok by (intro mv_clock)
      moreover have "proc_move sha256 (env_notifications env) (\<lambda>_ _. False) ?p1 ?p2"
        using mv_delete [of sha256 "env_notifications env" "\<lambda>_ _. False" ?p1 "base_key sha256 input"] by simp
      ultimately have m: "proc_moves sha256 (env_notifications env) (\<lambda>_ _. False) p ?p2"
        by (meson r_into_rtranclp rtranclp.rtrancl_into_rtrancl)
      show ?thesis
      proof (cases rule: decide_fresh_cases [OF vr, of sha256 "floor_of p (pr_projectId input)" env ?p2])
        case (1 code p')
        with m have "proc_moves sha256 (env_notifications env) (\<lambda>_ _. False) p p'" by (meson rtranclp_trans)
        with 1 eq show ?thesis by (intro refused) simp_all
      next
        case (2 d e p')
        with eq ok v show ?thesis by (intro stored) simp_all
      qed
    qed
  qed
qed

lemma decide_moves:
  assumes "decide sha256 input env p = (out, p')"
    and N: "\<And>n. env_notifications env n \<Longrightarrow> N n"
    and S: "\<And>sn. valid_request input \<Longrightarrow> de_snapshot env = Inr sn \<Longrightarrow> S (normal_request input) sn"
  shows "proc_moves sha256 N S p p'"
proof (cases rule: decide_cases [of sha256 input env p])
  case (refused code req q)
  then show ?thesis using assms(1) proc_moves_mono [OF refused(2), of N S] N by simp
next
  case (hit now c)
  then have "p' = p\<lparr>pp_lastMonotonic := Some now\<rparr>" using assms(1) by simp
  then show ?thesis using hit mv_clock by blast
next
  case (stored now d e q)
  let ?p1 = "p\<lparr>pp_lastMonotonic := Some now\<rparr>"
  let ?p2 = "?p1\<lparr>pp_cache := AList.delete (base_key sha256 input) (pp_cache p)\<rparr>"
  have "proc_moves sha256 N S p ?p1" using stored by (intro r_into_rtranclp mv_clock)
  also have "proc_move sha256 N S ?p1 ?p2"
    using mv_delete [of sha256 N S ?p1 "base_key sha256 input"] by simp
  also have "proc_moves sha256 N S ?p2 q"
    using stored(6) by (rule fresh_decision_moves) (use stored(2) S N in auto)
  finally show ?thesis using assms(1) stored(1) by simp
qed

end
