(* ===== verification/PolicyStore.thy ===== *)
theory PolicyStore
  imports PolicyKeys
begin

text \<open>
  The authorization store implements an abstract one whose projects hold an epoch and a set of
  triples (principal, resource, permission): the string keys are an injective encoding, and the
  comparison of the two sets of keys decides whether the triples changed.
\<close>

type_synonym triple = "jsstring \<times> jsstring \<times> jsstring"

definition triple_key :: "triple \<Rightarrow> jsstring" where
  "triple_key t = (case t of (p, r, m) \<Rightarrow> encodeTuple [p, r, m])"

definition valid_triple :: "triple \<Rightarrow> bool" where
  "valid_triple t = (case t of (p, r, m) \<Rightarrow> valid_identifier p \<and> valid_identifier r \<and> valid_identifier m)"

definition triple_of :: "AuthorizationBinding \<Rightarrow> triple" where
  "triple_of b = (ab_principalId b, ab_resourceId b, ab_permission b)"

definition abs_bindings :: "jsset \<Rightarrow> triple set" where
  "abs_bindings B = {t. triple_key t \<in> set B}"

definition good_bindings :: "jsset \<Rightarrow> bool" where
  "good_bindings B \<longleftrightarrow> distinct B \<and> (\<forall>k\<in>set B. \<exists>t. valid_triple t \<and> k = triple_key t)"

lemma triple_key_inject [simp]: "triple_key t = triple_key u \<longleftrightarrow> t = u"
  by (cases t; cases u) (simp add: triple_key_def)

lemma authorizationBindingKey_if:
  "authorizationBindingKey b = (if valid_triple (triple_of b) then Inr (triple_key (triple_of b)) else Inl inputInvalid)"
  by (simp add: authorizationBindingKey_def assertIdentifier_if valid_triple_def triple_of_def triple_key_def)

lemma abs_bindings_add [simp]: "abs_bindings (set_add (triple_key t) B) = insert t (abs_bindings B)"
  by (auto simp: abs_bindings_def set_add_def)

lemma abs_bindings_delete [simp]: "abs_bindings (set_delete (triple_key t) B) = abs_bindings B - {t}"
  by (auto simp: abs_bindings_def set_delete_def)

lemma good_bindings_add: "good_bindings B \<Longrightarrow> valid_triple t \<Longrightarrow> good_bindings (set_add (triple_key t) B)"
  unfolding good_bindings_def set_add_def by (auto simp del: split_paired_Ex)

lemma good_bindings_delete: "good_bindings B \<Longrightarrow> good_bindings (set_delete k B)"
  by (auto simp: good_bindings_def set_delete_def distinct_removeAll)

lemma good_bindings_set: "good_bindings B \<Longrightarrow> set B = triple_key ` abs_bindings B"
  by (auto simp: good_bindings_def abs_bindings_def)

lemma setEquals_iff: "distinct B \<Longrightarrow> distinct C \<Longrightarrow> setEquals B C \<longleftrightarrow> set B = set C"
proof
  assume d: "distinct B" "distinct C" and "setEquals B C"
  then have "set B \<subseteq> set C" and "card (set B) = card (set C)"
    by (auto simp: setEquals_def list_all_iff distinct_card)
  then show "set B = set C" by (simp add: card_subset_eq)
next
  assume d: "distinct B" "distinct C" and eq: "set B = set C"
  have "length B = length C" using distinct_card [OF d(1)] distinct_card [OF d(2)] eq by simp
  then show "setEquals B C" by (simp add: setEquals_def list_all_iff eq)
qed

lemma setEquals_abs:
  "good_bindings B \<Longrightarrow> good_bindings C \<Longrightarrow> setEquals B C \<longleftrightarrow> abs_bindings B = abs_bindings C"
proof -
  assume g: "good_bindings B" "good_bindings C"
  then have "setEquals B C \<longleftrightarrow> set B = set C" by (simp add: setEquals_iff good_bindings_def)
  also have "\<dots> \<longleftrightarrow> abs_bindings B = abs_bindings C"
  proof
    assume "abs_bindings B = abs_bindings C"
    then show "set B = set C" using good_bindings_set [OF g(1)] good_bindings_set [OF g(2)] by simp
  qed (simp add: abs_bindings_def)
  finally show ?thesis .
qed

subsection \<open>Abstract transactions\<close>

definition spec_call :: "DraftCall \<Rightarrow> triple set \<times> bool \<Rightarrow> (triple set \<times> bool) policy_result" where
  "spec_call c s = (case s of (T, active) \<Rightarrow> (case c of
       CallGrant b \<Rightarrow> if \<not> active then Inl (PolicyHarnessError POLICY_INTERNAL_FAILURE)
         else if valid_triple (triple_of b) then Inr (insert (triple_of b) T, True) else Inl inputInvalid
     | CallRevoke b \<Rightarrow> if \<not> active then Inl (PolicyHarnessError POLICY_INTERNAL_FAILURE)
         else if valid_triple (triple_of b) then Inr (T - {triple_of b}, True) else Inl inputInvalid
     | CallClose \<Rightarrow> if \<not> active then Inl (PolicyHarnessError POLICY_INTERNAL_FAILURE) else Inr (T, False)
     | CallAbort \<Rightarrow> Inr (T, False)
     | CallThrow e \<Rightarrow> Inl e))"

primrec spec_calls :: "DraftCall list \<Rightarrow> triple set \<times> bool \<Rightarrow> (triple set \<times> bool) policy_result" where
  "spec_calls [] s = Inr s"
| "spec_calls (c # cs) s = rbind (spec_call c s) (spec_calls cs)"

text \<open>The triples a transaction leaves: the callback ran to its end and left the draft open.\<close>

definition spec_mutate :: "DraftCall list \<Rightarrow> triple set \<Rightarrow> triple set policy_result" where
  "spec_mutate cs T = rbind (spec_calls cs (T, True)) (\<lambda>(T', active).
     if active then Inr T' else Inl (PolicyHarnessError POLICY_INTERNAL_FAILURE))"

record abs_project =
  ap_epoch :: int
  ap_triples :: "triple set"
  ap_changedAt :: int

type_synonym abs_store = "jsstring \<rightharpoonup> abs_project"

definition spec_transact :: "ClockReading \<Rightarrow> jsstring \<Rightarrow> DraftCall list \<Rightarrow> abs_store \<Rightarrow> (ThrownError, int \<times> bool, abs_store) outcome" where
  "spec_transact clock pid calls m =
     attempt m (assertIdentifier pid) (\<lambda>_.
     case m pid of
       None \<Rightarrow> (Inl (PolicyHarnessError POLICY_EPOCH_UNAVAILABLE), m)
     | Some p \<Rightarrow>
         attempt m (spec_mutate calls (ap_triples p)) (\<lambda>T.
         if T = ap_triples p then (Inr (ap_epoch p, False), m)
         else attempt m (guard (ap_epoch p < MAX_POSTGRES_EPOCH) (PolicyHarnessError POLICY_INTERNAL_FAILURE)) (\<lambda>_.
           attempt m (readDatabaseClock clock) (\<lambda>now.
           attempt m (guard (ap_changedAt p \<le> now) (PolicyHarnessError POLICY_INTERNAL_FAILURE)) (\<lambda>_.
           (Inr (ap_epoch p + 1, True),
            m(pid \<mapsto> \<lparr>ap_epoch = ap_epoch p + 1, ap_triples = T, ap_changedAt = now\<rparr>)))))))"

subsection \<open>Refinement\<close>

definition abs_draft :: "AuthorizationDraft \<Rightarrow> triple set \<times> bool" where
  "abs_draft d = (abs_bindings (ad_bindings d), ad_active d)"

lemma draft_call_refines:
  assumes "good_bindings (ad_bindings d)"
  shows "case draft_call c d of
      (Inl e, d') \<Rightarrow> spec_call c (abs_draft d) = Inl e
    | (Inr _, d') \<Rightarrow> spec_call c (abs_draft d) = Inr (abs_draft d') \<and> good_bindings (ad_bindings d')"
  using assms
  by (cases c) (auto simp: draft_call_def spec_call_def abs_draft_def draft_grant_def draft_revoke_def
      draft_close_def draft_abort_def draft_assertActive_def authorizationBindingKey_if guard_def
      good_bindings_add good_bindings_delete)

lemma draft_calls_refine:
  assumes "good_bindings (ad_bindings d)"
  shows "case draft_calls cs d of
      (Inl e, d') \<Rightarrow> spec_calls cs (abs_draft d) = Inl e
    | (Inr _, d') \<Rightarrow> spec_calls cs (abs_draft d) = Inr (abs_draft d') \<and> good_bindings (ad_bindings d')"
  using assms
proof (induction cs arbitrary: d)
  case Nil
  then show ?case by simp
next
  case (Cons c cs)
  obtain out d1 where call: "draft_call c d = (out, d1)" by fastforce
  show ?case
  proof (cases out)
    case (Inl e)
    with draft_call_refines [OF Cons.prems, of c] call show ?thesis by simp
  next
    case (Inr u)
    with draft_call_refines [OF Cons.prems, of c] call
    have step: "spec_call c (abs_draft d) = Inr (abs_draft d1)" "good_bindings (ad_bindings d1)" by simp_all
    with Cons.IH [OF step(2)] call Inr show ?thesis by (simp split: prod.splits sum.splits)
  qed
qed

lemma draft_mutate_refines:
  assumes "good_bindings B"
  shows "case draft_calls cs (new_AuthorizationDraft B) of
      (Inl e, d) \<Rightarrow> spec_mutate cs (abs_bindings B) = Inl e
    | (Inr _, d) \<Rightarrow> (case fst (draft_close d) of
          Inl e \<Rightarrow> spec_mutate cs (abs_bindings B) = Inl e
        | Inr C \<Rightarrow> spec_mutate cs (abs_bindings B) = Inr (abs_bindings C) \<and> good_bindings C)"
  using draft_calls_refine [of "new_AuthorizationDraft B" cs] assms
  by (auto simp: spec_mutate_def abs_draft_def new_AuthorizationDraft_def draft_close_def
      draft_assertActive_def guard_def split: prod.splits sum.splits)

definition abs_project_of :: "ProjectAuthorizationState \<Rightarrow> abs_project" where
  "abs_project_of p = \<lparr>ap_epoch = ps_epoch p, ap_triples = abs_bindings (ps_bindings p), ap_changedAt = ps_changedAt p\<rparr>"

definition abs_store_of :: "InMemoryAuthorizationStore \<Rightarrow> abs_store" where
  "abs_store_of s = map_option abs_project_of \<circ> map_of (as_projects s)"

definition good_project :: "jsstring \<Rightarrow> ProjectAuthorizationState \<Rightarrow> bool" where
  "good_project pid p \<longleftrightarrow> ps_projectId p = pid \<and> valid_identifier pid \<and> good_bindings (ps_bindings p)
     \<and> 1 \<le> ps_epoch p \<and> ps_epoch p \<le> MAX_POSTGRES_EPOCH \<and> 0 \<le> ps_changedAt p"

definition store_inv :: "InMemoryAuthorizationStore \<Rightarrow> bool" where
  "store_inv s \<longleftrightarrow> wf_jsmap (as_projects s) \<and> (\<forall>pid p. map_of (as_projects s) pid = Some p \<longrightarrow> good_project pid p)"

lemma store_inv_project: "store_inv s \<Longrightarrow> map_of (as_projects s) pid = Some p \<Longrightarrow> good_project pid p"
  by (simp add: store_inv_def)

lemma put_project_projects [simp]: "as_projects (put_project p s) = AList.update (ps_projectId p) p (as_projects s)"
  by (simp add: put_project_def)

lemma put_project_inv: "store_inv s \<Longrightarrow> good_project (ps_projectId p) p \<Longrightarrow> store_inv (put_project p s)"
  by (simp add: store_inv_def)

lemma abs_store_put: "abs_store_of (put_project p s) = (abs_store_of s)(ps_projectId p \<mapsto> abs_project_of p)"
  by (auto simp: abs_store_of_def)

text \<open>What a transaction can do.\<close>

lemma store_transact_cases:
  assumes inv: "store_inv s"
  obtains (failed) e where "store_transact clock pid calls s = (Inl e, s)"
      "spec_transact clock pid calls (abs_store_of s) = (Inl e, abs_store_of s)"
  | (same) p c where "store_transact clock pid calls s = (Inr (c, None), s)"
      "map_of (as_projects s) pid = Some p" "ac_epoch c = ps_epoch p" "\<not> ac_changed c"
      "spec_transact clock pid calls (abs_store_of s) = (Inr (ps_epoch p, False), abs_store_of s)"
  | (changed) p B now c where
      "map_of (as_projects s) pid = Some p" "good_bindings B" "ac_epoch c = ps_epoch p + 1" "ac_changed c"
      "0 \<le> now" "ps_epoch p < MAX_POSTGRES_EPOCH" "valid_identifier pid"
      "store_transact clock pid calls s = (Inr (c, Some \<lparr>en_protocolVersion = 1, en_projectId = pid, en_epoch = ps_epoch p + 1\<rparr>),
         put_project \<lparr>ps_projectId = pid, ps_epoch = ps_epoch p + 1, ps_bindings = B, ps_changedAt = now\<rparr> s)"
      "abs_bindings B \<noteq> abs_bindings (ps_bindings p)"
      "spec_transact clock pid calls (abs_store_of s) = (Inr (ps_epoch p + 1, True),
         abs_store_of (put_project \<lparr>ps_projectId = pid, ps_epoch = ps_epoch p + 1, ps_bindings = B, ps_changedAt = now\<rparr> s))"
proof (cases "valid_identifier pid")
  case False
  then show ?thesis
    by (intro failed [of inputInvalid]) (simp_all add: store_transact_def spec_transact_def assertIdentifier_if)
next
  case pid: True
  show ?thesis
  proof (cases "map_of (as_projects s) pid")
    case None
    with pid show ?thesis
      by (intro failed [of "PolicyHarnessError POLICY_EPOCH_UNAVAILABLE"])
         (simp_all add: store_transact_def spec_transact_def assertIdentifier_if store_requireProject_def abs_store_of_def)
  next
    case p: (Some p)
    then have gp: "good_project pid p" using inv by (simp add: store_inv_project)
    then have B: "good_bindings (ps_bindings p)" and id: "ps_projectId p = pid" by (simp_all add: good_project_def)
    have ap: "abs_store_of s pid = Some (abs_project_of p)" using p by (simp add: abs_store_of_def)
    obtain out d where calls: "draft_calls calls (new_AuthorizationDraft (ps_bindings p)) = (out, d)" by fastforce
    define new where "new = (case out of Inl e \<Rightarrow> Inl e | Inr _ \<Rightarrow> fst (draft_close d))"
    have new: "case new of Inl e \<Rightarrow> spec_mutate calls (abs_bindings (ps_bindings p)) = Inl e
       | Inr C \<Rightarrow> spec_mutate calls (abs_bindings (ps_bindings p)) = Inr (abs_bindings C) \<and> good_bindings C"
      using draft_mutate_refines [OF B, of calls] calls by (auto simp: new_def split: sum.splits)
    have eq: "store_transact clock pid calls s = attempt s new (\<lambda>C. store_commitChange clock p C s)"
      using pid p calls
      by (simp add: store_transact_def assertIdentifier_if store_requireProject_def new_def split: sum.splits)
    have ab: "ap_triples (abs_project_of p) = abs_bindings (ps_bindings p)" "ap_epoch (abs_project_of p) = ps_epoch p"
        "ap_changedAt (abs_project_of p) = ps_changedAt p"
      by (simp_all add: abs_project_of_def)
    show ?thesis
    proof (cases new)
      case (Inl e)
      with new eq pid ap ab show ?thesis
        by (intro failed [of e]) (simp_all add: spec_transact_def assertIdentifier_if)
    next
      case (Inr C)
      with new have C: "spec_mutate calls (abs_bindings (ps_bindings p)) = Inr (abs_bindings C)" "good_bindings C" by simp_all
      have tx: "store_transact clock pid calls s = store_commitChange clock p C s" using eq Inr by simp
      have sp: "spec_transact clock pid calls (abs_store_of s) =
          (if abs_bindings C = abs_bindings (ps_bindings p) then (Inr (ps_epoch p, False), abs_store_of s)
           else attempt (abs_store_of s) (guard (ps_epoch p < MAX_POSTGRES_EPOCH) (PolicyHarnessError POLICY_INTERNAL_FAILURE)) (\<lambda>_.
             attempt (abs_store_of s) (readDatabaseClock clock) (\<lambda>now.
             attempt (abs_store_of s) (guard (ps_changedAt p \<le> now) (PolicyHarnessError POLICY_INTERNAL_FAILURE)) (\<lambda>_.
             (Inr (ps_epoch p + 1, True), (abs_store_of s)(pid \<mapsto>
                \<lparr>ap_epoch = ps_epoch p + 1, ap_triples = abs_bindings C, ap_changedAt = now\<rparr>))))))"
        unfolding spec_transact_def ap option.simps ab C(1) attempt_Inr using pid by (simp add: assertIdentifier_if)
      note eqs = tx sp store_commitChange_def setEquals_abs [OF B C(2)]
      show ?thesis
      proof (cases "abs_bindings C = abs_bindings (ps_bindings p)")
        case True
        then show ?thesis
          using p by (intro same [of "\<lparr>ac_projectId = pid, ac_epoch = ps_epoch p, ac_changed = False,
               ac_committedAt = ps_changedAt p\<rparr>" p]) (simp_all add: eqs id)
      next
        case ne: False
        then have ne': "abs_bindings (ps_bindings p) \<noteq> abs_bindings C" by simp
        consider (max) "\<not> ps_epoch p < MAX_POSTGRES_EPOCH"
          | (clock) e where "ps_epoch p < MAX_POSTGRES_EPOCH" "readDatabaseClock clock = Inl e"
          | (early) now where "ps_epoch p < MAX_POSTGRES_EPOCH" "readDatabaseClock clock = Inr now" "now < ps_changedAt p"
          | (ok) now where "ps_epoch p < MAX_POSTGRES_EPOCH" "readDatabaseClock clock = Inr now" "ps_changedAt p \<le> now"
          by (cases "readDatabaseClock clock") force+
        then show ?thesis
        proof cases
          case max
          then show ?thesis
            by (intro failed [of "PolicyHarnessError POLICY_INTERNAL_FAILURE"]) (simp_all add: eqs ne ne' guard_def)
        next
          case (clock e)
          then show ?thesis by (intro failed [of e]) (simp_all add: eqs ne ne' guard_def)
        next
          case (early now)
          then show ?thesis
            by (intro failed [of "PolicyHarnessError POLICY_INTERNAL_FAILURE"]) (simp_all add: eqs ne ne' guard_def)
        next
          case (ok now)
          have "0 \<le> now"
            using ok(2) by (auto simp: readDatabaseClock_def assertClockValue_def split: ClockReading.splits)
          with ok C(2) p pid show ?thesis
            by (intro changed [of p C "\<lparr>ac_projectId = pid, ac_epoch = ps_epoch p + 1, ac_changed = True, ac_committedAt = now\<rparr>" now])
               (simp_all add: eqs ne ne' id guard_def Let_def abs_store_put abs_project_of_def)
        qed
      qed
    qed
  qed
qed

lemma store_transact_inv:
  assumes "store_inv s" and call: "store_transact clock pid calls s = (out, s')"
  shows "store_inv s'"
proof (cases rule: store_transact_cases [OF assms(1), of clock pid calls])
  case (1 e)
  then show ?thesis using assms by simp
next
  case (2 p c)
  then show ?thesis using assms by simp
next
  case (3 p B now c)
  then have "good_project pid p" using assms(1) by (simp add: store_inv_project)
  with 3 assms show ?thesis by (auto simp: good_project_def intro!: put_project_inv)
qed

lemma store_create_inv:
  assumes "store_inv s" and call: "store_createProject clock pid s = (out, s')"
  shows "store_inv s'"
proof -
  have "store_inv (snd (store_createProject clock pid s))"
    unfolding store_createProject_def
    by (intro attempt_state [where P = store_inv])
       (auto simp: assms(1) good_project_def good_bindings_def MAX_POSTGRES_EPOCH_def readDatabaseClock_def
          assertClockValue_def split: ClockReading.splits intro!: put_project_inv)
  with call show ?thesis by simp
qed

end
