(* ===== verification/PolicyHarness.thy ===== *)
theory PolicyHarness
  imports PolicyDecide PolicyStore
begin

text \<open>
  The authorization store, the policy store, the bus and one process together. A transaction hands
  its notification to the bus, which calls the process when it is subscribed and delivery is on; a
  decision reads its snapshot and its artifact from the stores. The history records the bindings of
  each project at each epoch. Read counters are not advanced here.
\<close>

record Harness =
  h_store :: InMemoryAuthorizationStore
  h_policies :: InMemoryCompiledPolicyStore
  h_bus :: EpochNotificationBus
  h_process :: PolicyDecisionProcess
  h_history :: "jsstring \<times> int \<Rightarrow> jsset option"

datatype h_op =
    HCreate ClockReading jsstring
  | HTransact ClockReading jsstring "DraftCall list"
  | HPublishPolicy CompiledPolicyArtifact
  | HStoreFailure "ThrownError option"
  | HPolicyFailure "ThrownError option"
  | HDelivery bool
  | HDecide PolicyDecisionRequest ClockReading ClockReading ClockReading

definition h_record :: "jsstring \<Rightarrow> Harness \<Rightarrow> Harness" where
  "h_record pid h = (case map_of (as_projects (h_store h)) pid of
       None \<Rightarrow> h
     | Some p \<Rightarrow> h\<lparr>h_history := (h_history h)((pid, ps_epoch p) \<mapsto> ps_bindings p)\<rparr>)"

definition h_deliver :: "EpochNotification option \<Rightarrow> Harness \<Rightarrow> Harness" where
  "h_deliver n h = (case n of
       None \<Rightarrow> h
     | Some m \<Rightarrow> (case bus_publish m (h_bus h) of
           Inl _ \<Rightarrow> h
         | Inr ids \<Rightarrow> if pp_processId (h_process h) \<in> set ids
             then h\<lparr>h_process := observeNotification m (h_process h)\<rparr> else h))"

definition h_environment :: "Harness \<Rightarrow> PolicyDecisionRequest \<Rightarrow> ClockReading \<Rightarrow> ClockReading \<Rightarrow> ClockReading \<Rightarrow> DecideEnvironment" where
  "h_environment h input clock dbClock clock' =
     \<lparr>de_lookupClock = clock,
      de_snapshot = fst (store_readSnapshot dbClock (snapshotRequest (normal_request input)) (h_store h)),
      de_duringSnapshot = [],
      de_artifact = fst (policies_get (artifactKey input) (h_policies h)),
      de_duringArtifact = [],
      de_confirmClock = clock'\<rparr>"

definition h_exec :: "(byte list \<Rightarrow> jsstring) \<Rightarrow> h_op \<Rightarrow> Harness \<Rightarrow> Harness" where
  "h_exec sha256 c h = (case c of
       HCreate clock pid \<Rightarrow> h_record pid (h\<lparr>h_store := snd (store_createProject clock pid (h_store h))\<rparr>)
     | HTransact clock pid calls \<Rightarrow>
         (case store_transact clock pid calls (h_store h) of
            (Inl _, s) \<Rightarrow> h\<lparr>h_store := s\<rparr>
          | (Inr (_, n), s) \<Rightarrow> h_deliver n (h_record pid (h\<lparr>h_store := s\<rparr>)))
     | HPublishPolicy a \<Rightarrow> h\<lparr>h_policies := snd (policies_publish a (h_policies h))\<rparr>
     | HStoreFailure e \<Rightarrow> h\<lparr>h_store := store_setReadFailure e (h_store h)\<rparr>
     | HPolicyFailure e \<Rightarrow> h\<lparr>h_policies := policies_setReadFailure e (h_policies h)\<rparr>
     | HDelivery b \<Rightarrow> h\<lparr>h_bus := snd (bus_setDelivery (pp_processId (h_process h)) b (h_bus h))\<rparr>
     | HDecide input clock dbClock clock' \<Rightarrow>
         h\<lparr>h_process := snd (decide sha256 input (h_environment h input clock dbClock clock') (h_process h))\<rparr>)"

text \<open>
  Runs in which requests come from \<open>D\<close>; \<open>lossy\<close> says whether delivery may be switched.
\<close>

inductive h_step for sha256 D lossy where
  h_stepI: "(\<And>input c1 c2 c3. c = HDecide input c1 c2 c3 \<Longrightarrow> input \<in> D) \<Longrightarrow> (\<And>b. c = HDelivery b \<Longrightarrow> lossy)
    \<Longrightarrow> h_step sha256 D lossy h c (h_exec sha256 c h)"

definition h_init :: "Harness \<Rightarrow> bool" where
  "h_init h \<longleftrightarrow> h_store h = new_AuthorizationStore \<and> h_policies h = new_CompiledPolicyStore
     \<and> (\<exists>pid ttl. new_PolicyDecisionProcess pid ttl [] = (Inr (h_process h), h_bus h)) \<and> h_history h = (\<lambda>_. None)"

subsection \<open>What a request is entitled to\<close>

definition entitled :: "jsset \<Rightarrow> PolicyDecisionRequest \<Rightarrow> bool" where
  "entitled B r \<longleftrightarrow>
     (\<exists>p\<in>insert (ic_subjectId (pr_identity r)) (set (ic_groupPrincipalIds (pr_identity r))).
        (p, pr_resourceId r, pr_permission r) \<in> abs_bindings B)
     \<and> (\<forall>p\<in>set (pr_delegationChain r). (p, pr_resourceId r, pr_permission r) \<in> abs_bindings B)"

definition verdict :: "jsset \<Rightarrow> PolicyDecisionRequest \<Rightarrow> Decision" where
  "verdict B r = (if entitled B r then ALLOW else DENY)"

lemma verdict_same: "same_request r s \<Longrightarrow> verdict B r = verdict B s"
  by (simp add: verdict_def entitled_def same_request_def)

lemma verdict_normal [simp]: "verdict B (normal_request r) = verdict B r"
  by (simp add: verdict_def entitled_def)

lemma has_binding_valid:
  assumes "valid_request r" and "valid_identifier p"
  shows "has_binding B (snapshotRequest r) p = Inr ((p, pr_resourceId r, pr_permission r) \<in> abs_bindings B)"
proof -
  have "valid_identifier (pr_resourceId r)" "valid_identifier (pr_permission r)"
    using assms(1) by (simp_all add: valid_request_def)
  with assms(2) show ?thesis
    by (simp add: has_binding_def snapshotRequest_def authorizationBindingKey_if triple_of_def
        valid_triple_def abs_bindings_def)
qed

lemma someM_Inr: "(\<And>x. x \<in> set xs \<Longrightarrow> f x = Inr (g x)) \<Longrightarrow> someM f xs = Inr (\<exists>x\<in>set xs. g x)"
  by (induction xs) auto

text \<open>A snapshot of the store decides as the bindings say.\<close>

lemma store_readSnapshot_verdict:
  assumes v: "valid_request r" and inv: "store_inv s"
    and read: "fst (store_readSnapshot clock (snapshotRequest r) s) = Inr sn"
  obtains p where "map_of (as_projects s) (pr_projectId r) = Some p" "sn_epoch sn = ps_epoch p"
    "snapshotDecision sn = verdict (ps_bindings p) r"
proof -
  let ?has = "\<lambda>B q. (q, pr_resourceId r, pr_permission r) \<in> abs_bindings B"
  have ids: "valid_identifier q"
    if "q \<in> set (ic_subjectId (pr_identity r) # ic_groupPrincipalIds (pr_identity r)) \<union> set (pr_delegationChain r)" for q
    using v that by (auto simp: valid_request_def valid_identity_def ident_list_def)
  have actors: "someM (has_binding B (snapshotRequest r)) (ic_subjectId (pr_identity r) # ic_groupPrincipalIds (pr_identity r))
      = Inr (\<exists>q\<in>set (ic_subjectId (pr_identity r) # ic_groupPrincipalIds (pr_identity r)). ?has B q)" for B
    by (rule someM_Inr, rule has_binding_valid [OF v], rule ids) auto
  have chain: "mapM (has_binding B (snapshotRequest r)) (pr_delegationChain r) = Inr (map (?has B) (pr_delegationChain r))" for B
    by (rule mapM_Inr, rule has_binding_valid [OF v], rule ids) simp
  have fields: "sr_projectId (snapshotRequest r) = pr_projectId r"
      "sr_actorPrincipalIds (snapshotRequest r) = ic_subjectId (pr_identity r) # ic_groupPrincipalIds (pr_identity r)"
      "sr_delegationChain (snapshotRequest r) = pr_delegationChain r"
    by (simp_all add: snapshotRequest_def)
  obtain p where p: "map_of (as_projects s) (pr_projectId r) = Some p"
    using read by (cases "map_of (as_projects s) (pr_projectId r)")
      (auto simp: store_readSnapshot_def attempt_def Let_def fields store_requireProject_def split: sum.splits option.splits)
  have "snapshotDecision sn = verdict (ps_bindings p) r \<and> sn_epoch sn = ps_epoch p"
    using read p
    by (auto simp: store_readSnapshot_def attempt_def Let_def fields actors chain store_requireProject_def
        snapshotDecision_def verdict_def entitled_def list_all_iff simp del: someM.simps split: sum.splits option.splits)
  with p show ?thesis by (intro that) auto
qed

subsection \<open>The invariant\<close>

text \<open>An entry is right for every request of \<open>D\<close> that can hit it.\<close>

definition entry_right where
  "entry_right sha256 D hist k c \<longleftrightarrow> (\<forall>r\<in>D. valid_request r \<longrightarrow> base_key sha256 r = k \<longrightarrow>
     (\<exists>e B. pk_epoch (cd_key c) = js_of_int e \<and> 0 \<le> e \<and> hist (pr_projectId r, e) = Some B \<and> cd_result c = verdict B r))"

definition h_inv where
  "h_inv sha256 D lossy h \<longleftrightarrow>
     proc_inv sha256 (h_process h) \<and> store_inv (h_store h)
     \<and> (\<forall>pid p. map_of (as_projects (h_store h)) pid = Some p \<longrightarrow>
          h_history h (pid, ps_epoch p) = Some (ps_bindings p) \<and> floor_of (h_process h) pid \<le> ps_epoch p
          \<and> (\<not> lossy \<longrightarrow> floor_of (h_process h) pid = ps_epoch p))
     \<and> (\<forall>pid. map_of (as_projects (h_store h)) pid = None \<longrightarrow> floor_of (h_process h) pid = 1)
     \<and> (\<forall>pid e B. h_history h (pid, e) = Some B \<longrightarrow>
          (\<exists>p. map_of (as_projects (h_store h)) pid = Some p \<and> e \<le> ps_epoch p))
     \<and> (\<forall>k c. map_of (pp_cache (h_process h)) k = Some c \<longrightarrow> entry_right sha256 D (h_history h) k c)
     \<and> (\<not> lossy \<longrightarrow> map_of (h_bus h) (pp_processId (h_process h)) = Some True \<and> wf_jsmap (h_bus h))"

definition collision_free :: "(byte list \<Rightarrow> jsstring) \<Rightarrow> PolicyDecisionRequest set \<Rightarrow> bool" where
  "collision_free sha256 D \<longleftrightarrow> (\<forall>r\<in>D. wf_request r) \<and> inj_on sha256 (\<Union>r\<in>D. set (hashedBytes r))"

lemma hashedBytes_normal [simp]: "hashedBytes (normal_request r) = hashedBytes r"
  by (simp add: hashedBytes_def actorParts_def)

lemma collision_free_same:
  assumes "collision_free sha256 D" and "r \<in> D" "s \<in> D" and "valid_request r" "valid_request s"
    and "base_key sha256 r = base_key sha256 s"
  shows "same_request r s"
proof -
  have "inj_on sha256 (set (hashedBytes r) \<union> set (hashedBytes s))"
    using assms(1-3) unfolding collision_free_def by (elim conjE inj_on_subset) blast
  then show ?thesis using base_key_eq_iff [of r s sha256] assms by (simp add: collision_free_def)
qed

text \<open>What moves without notifications do to floors and entries.\<close>

definition quiet_moved where
  "quiet_moved sha256 S p p' \<longleftrightarrow>
     (\<forall>q. floor_of p' q = floor_of p q \<or> (\<exists>r sn. S r sn \<and> pr_projectId r = q \<and> floor_of p' q = max (floor_of p q) (sn_epoch sn)))
     \<and> (\<forall>k c. map_of (pp_cache p') k = Some c \<longrightarrow> map_of (pp_cache p) k = Some c
          \<or> (\<exists>r sn digest now ttl. S r sn \<and> valid_request r \<and> isConfirmedSnapshot sn r \<and> k = base_key sha256 r \<and> c = stored_entry sha256 r sn digest now ttl))
     \<and> pp_processId p' = pp_processId p"

lemma proc_move_quiet: "proc_move sha256 (\<lambda>_. False) S p p' \<Longrightarrow> quiet_moved sha256 S p p'"
proof (induction rule: proc_move.induct)
  case (mv_store r sn p now digest)
  let ?c = "stored_entry sha256 r sn digest now (pp_cacheTtlMs p)"
  let ?p = "store_decision sha256 r sn ?c p"
  have floor: "floor_of ?p q = (if q = pr_projectId r then max (floor_of p q) (sn_epoch sn) else floor_of p q)" for q
    by simp
  have cache: "map_of (pp_cache ?p) k = (if k = base_key sha256 r then Some ?c else map_of (pp_cache p) k)" for k
    by simp
  show ?case
    unfolding quiet_moved_def
  proof (intro conjI allI impI)
    fix q
    show "floor_of ?p q = floor_of p q \<or> (\<exists>r sn. S r sn \<and> pr_projectId r = q \<and> floor_of ?p q = max (floor_of p q) (sn_epoch sn))"
      unfolding floor using mv_store(1) by auto
  next
    fix k c
    assume "map_of (pp_cache ?p) k = Some c"
    then show "map_of (pp_cache p) k = Some c \<or> (\<exists>r sn digest now ttl. S r sn \<and> valid_request r
        \<and> isConfirmedSnapshot sn r \<and> k = base_key sha256 r \<and> c = stored_entry sha256 r sn digest now ttl)"
    proof (cases "k = base_key sha256 r")
      case True
      with \<open>map_of (pp_cache ?p) k = Some c\<close> have "c = ?c" by (simp only: cache) simp
      with True mv_store(1-3) show ?thesis by blast
    qed (simp add: cache)
  qed simp
qed (auto simp: quiet_moved_def map_of_delete split: if_splits)

lemma quiet_moved_trans:
  assumes "quiet_moved sha256 S p q" and "quiet_moved sha256 S q t"
    and one: "\<And>r sn r' sn'. S r sn \<Longrightarrow> S r' sn' \<Longrightarrow> sn' = sn"
  shows "quiet_moved sha256 S p t"
proof -
  have "floor_of t x = floor_of p x \<or> (\<exists>r sn. S r sn \<and> pr_projectId r = x \<and> floor_of t x = max (floor_of p x) (sn_epoch sn))" for x
  proof -
    have a: "floor_of q x = floor_of p x \<or> (\<exists>r sn. S r sn \<and> pr_projectId r = x \<and> floor_of q x = max (floor_of p x) (sn_epoch sn))"
      and b: "floor_of t x = floor_of q x \<or> (\<exists>r sn. S r sn \<and> pr_projectId r = x \<and> floor_of t x = max (floor_of q x) (sn_epoch sn))"
      using assms(1,2) by (simp_all add: quiet_moved_def)
    from b show ?thesis
    proof (elim disjE exE conjE)
      fix r sn assume r: "S r sn" "pr_projectId r = x" "floor_of t x = max (floor_of q x) (sn_epoch sn)"
      from a show ?thesis
      proof (elim disjE exE conjE)
        fix r' sn' assume "S r' sn'" "floor_of q x = max (floor_of p x) (sn_epoch sn')"
        with r one [OF r(1), of r' sn'] show ?thesis by auto
      qed (use r in auto)
    qed (use a in auto)
  qed
  then show ?thesis using assms(1,2) unfolding quiet_moved_def by fastforce
qed

lemma proc_moves_quiet:
  assumes "proc_moves sha256 (\<lambda>_. False) S p p'" and one: "\<And>r sn r' sn'. S r sn \<Longrightarrow> S r' sn' \<Longrightarrow> sn' = sn"
  shows "quiet_moved sha256 S p p'"
  using assms(1)
proof induction
  case base
  then show ?case by (simp add: quiet_moved_def)
next
  case (step q t)
  then show ?case using quiet_moved_trans [OF step(3) proc_move_quiet [OF step(2)]] one by blast
qed

subsection \<open>Steps keep the invariant\<close>

lemma h_invI:
  assumes "proc_inv sha256 (h_process h)" and "store_inv (h_store h)"
    and "\<And>pid p. map_of (as_projects (h_store h)) pid = Some p \<Longrightarrow> h_history h (pid, ps_epoch p) = Some (ps_bindings p)"
    and "\<And>pid p. map_of (as_projects (h_store h)) pid = Some p \<Longrightarrow> floor_of (h_process h) pid \<le> ps_epoch p"
    and "\<And>pid p. map_of (as_projects (h_store h)) pid = Some p \<Longrightarrow> \<not> lossy \<Longrightarrow> floor_of (h_process h) pid = ps_epoch p"
    and "\<And>pid. map_of (as_projects (h_store h)) pid = None \<Longrightarrow> floor_of (h_process h) pid = 1"
    and "\<And>pid e B. h_history h (pid, e) = Some B \<Longrightarrow>
      \<exists>p. map_of (as_projects (h_store h)) pid = Some p \<and> e \<le> ps_epoch p"
    and "\<And>k c. map_of (pp_cache (h_process h)) k = Some c \<Longrightarrow> entry_right sha256 D (h_history h) k c"
    and "\<not> lossy \<Longrightarrow> map_of (h_bus h) (pp_processId (h_process h)) = Some True \<and> wf_jsmap (h_bus h)"
  shows "h_inv sha256 D lossy h"
  unfolding h_inv_def using assms by blast

lemma h_invD:
  assumes "h_inv sha256 D lossy h"
  shows "proc_inv sha256 (h_process h)" and "store_inv (h_store h)"
    and "\<And>pid p. map_of (as_projects (h_store h)) pid = Some p \<Longrightarrow> h_history h (pid, ps_epoch p) = Some (ps_bindings p)"
    and "\<And>pid p. map_of (as_projects (h_store h)) pid = Some p \<Longrightarrow> floor_of (h_process h) pid \<le> ps_epoch p"
    and "\<And>pid p. map_of (as_projects (h_store h)) pid = Some p \<Longrightarrow> \<not> lossy \<Longrightarrow> floor_of (h_process h) pid = ps_epoch p"
    and "\<And>pid. map_of (as_projects (h_store h)) pid = None \<Longrightarrow> floor_of (h_process h) pid = 1"
    and "\<And>pid e B. h_history h (pid, e) = Some B \<Longrightarrow>
      \<exists>p. map_of (as_projects (h_store h)) pid = Some p \<and> e \<le> ps_epoch p"
    and "\<And>k c. map_of (pp_cache (h_process h)) k = Some c \<Longrightarrow> entry_right sha256 D (h_history h) k c"
    and "\<not> lossy \<Longrightarrow> map_of (h_bus h) (pp_processId (h_process h)) = Some True \<and> wf_jsmap (h_bus h)"
  using assms unfolding h_inv_def by blast+

lemma entry_right_mono:
  "entry_right sha256 D hist k c \<Longrightarrow> (\<And>x B. hist x = Some B \<Longrightarrow> hist' x = Some B) \<Longrightarrow> entry_right sha256 D hist' k c"
  unfolding entry_right_def by blast

lemma h_record_same: "h_inv sha256 D lossy h \<Longrightarrow> h_record pid h = h"
  by (auto simp: h_record_def fun_upd_idem h_invD(3) split: option.splits)

lemma h_inv_decide:
  assumes inv: "h_inv sha256 D lossy h" and free: "collision_free sha256 D" and input: "input \<in> D"
    and env: "env = h_environment h input c1 c2 c3"
  shows "h_inv sha256 D lossy (h\<lparr>h_process := snd (decide sha256 input env (h_process h))\<rparr>)"
proof -
  let ?p = "h_process h" and ?p' = "snd (decide sha256 input env (h_process h))"
  define S where "S r sn \<longleftrightarrow> r = normal_request input \<and> valid_request input \<and> de_snapshot env = Inr sn" for r sn
  have moves: "proc_moves sha256 (\<lambda>_. False) S ?p ?p'"
    by (rule decide_moves [of sha256 input env ?p "fst (decide sha256 input env ?p)"])
       (auto simp: S_def env h_environment_def)
  have quiet: "quiet_moved sha256 S ?p ?p'" using moves by (rule proc_moves_quiet) (auto simp: S_def)
  have snap: "\<exists>p. map_of (as_projects (h_store h)) (pr_projectId input) = Some p \<and> sn_epoch sn = ps_epoch p
      \<and> snapshotDecision sn = verdict (ps_bindings p) input" if "S r sn" for r sn
  proof -
    have "fst (store_readSnapshot c2 (snapshotRequest (normal_request input)) (h_store h)) = Inr sn"
      using that by (simp add: S_def env h_environment_def)
    then show ?thesis
      using that h_invD(2) [OF inv] store_readSnapshot_verdict [of "normal_request input" "h_store h" c2 sn]
      by (auto simp: S_def)
  qed
  have floor: "floor_of ?p' q = floor_of ?p q
      \<or> (\<exists>p. map_of (as_projects (h_store h)) q = Some p \<and> floor_of ?p' q = ps_epoch p)" for q
  proof -
    have "floor_of ?p' q = floor_of ?p q \<or> (\<exists>r sn. S r sn \<and> pr_projectId r = q \<and> floor_of ?p' q = max (floor_of ?p q) (sn_epoch sn))"
      using quiet by (simp add: quiet_moved_def)
    then show ?thesis
    proof (elim disjE exE conjE)
      fix r sn assume r: "S r sn" "pr_projectId r = q" "floor_of ?p' q = max (floor_of ?p q) (sn_epoch sn)"
      from snap [OF r(1)] obtain p where "map_of (as_projects (h_store h)) q = Some p" "sn_epoch sn = ps_epoch p"
        using r(1,2) by (auto simp: S_def)
      with r(3) h_invD(4) [OF inv, of q p] show ?thesis by auto
    qed simp
  qed
  have right: "entry_right sha256 D (h_history h) k c" if k: "map_of (pp_cache ?p') k = Some c" for k c
  proof -
    from quiet k have "map_of (pp_cache ?p) k = Some c \<or> (\<exists>r sn digest now ttl. S r sn \<and> valid_request r
        \<and> isConfirmedSnapshot sn r \<and> k = base_key sha256 r \<and> c = stored_entry sha256 r sn digest now ttl)"
      by (simp add: quiet_moved_def)
    then show ?thesis
    proof (elim disjE exE conjE)
      assume "map_of (pp_cache ?p) k = Some c"
      then show ?thesis by (rule h_invD(8) [OF inv])
    next
      fix r sn digest now ttl
      assume r: "S r sn" "valid_request r" "isConfirmedSnapshot sn r" "k = base_key sha256 r"
        "c = stored_entry sha256 r sn digest now ttl"
      from snap [OF r(1)] obtain p where p: "map_of (as_projects (h_store h)) (pr_projectId input) = Some p"
        "sn_epoch sn = ps_epoch p" "snapshotDecision sn = verdict (ps_bindings p) input" by blast
      show ?thesis
        unfolding entry_right_def
      proof (intro ballI impI exI conjI)
        fix s assume s: "s \<in> D" "valid_request s" "base_key sha256 s = k"
        have "same_request s input"
          using collision_free_same [OF free s(1) input s(2)] r(1,4) s(3) by (simp add: S_def)
        then have same: "verdict (ps_bindings p) s = verdict (ps_bindings p) input" "pr_projectId s = pr_projectId input"
          by (rule verdict_same, simp add: same_request_def)
        show "pk_epoch (cd_key c) = js_of_int (sn_epoch sn)" by (simp add: r(5) stored_entry_def decision_key_def)
        show "0 \<le> sn_epoch sn" using r(3) by (simp add: isConfirmedSnapshot_def)
        show "h_history h (pr_projectId s, sn_epoch sn) = Some (ps_bindings p)"
          using h_invD(3) [OF inv p(1)] p(2) same(2) by simp
        show "cd_result c = verdict (ps_bindings p) s" using p(3) same(1) by (simp add: r(5) stored_entry_def)
      qed
    qed
  qed
  show ?thesis
  proof (rule h_invI)
    show "proc_inv sha256 (h_process (h\<lparr>h_process := ?p'\<rparr>))"
      using proc_moves_inv [OF moves h_invD(1) [OF inv]] by simp
    show "floor_of (h_process (h\<lparr>h_process := ?p'\<rparr>)) pid \<le> ps_epoch p"
      if "map_of (as_projects (h_store (h\<lparr>h_process := ?p'\<rparr>))) pid = Some p" for pid p
      using floor [of pid] h_invD(4) [OF inv, of pid p] that by auto
    show "floor_of (h_process (h\<lparr>h_process := ?p'\<rparr>)) pid = ps_epoch p"
      if "map_of (as_projects (h_store (h\<lparr>h_process := ?p'\<rparr>))) pid = Some p" "\<not> lossy" for pid p
      using floor [of pid] h_invD(5) [OF inv, of pid p] that by auto
    show "floor_of (h_process (h\<lparr>h_process := ?p'\<rparr>)) pid = 1"
      if "map_of (as_projects (h_store (h\<lparr>h_process := ?p'\<rparr>))) pid = None" for pid
      using floor [of pid] h_invD(6) [OF inv, of pid] that by auto
    show "\<not> lossy \<Longrightarrow> map_of (h_bus (h\<lparr>h_process := ?p'\<rparr>)) (pp_processId (h_process (h\<lparr>h_process := ?p'\<rparr>))) = Some True
        \<and> wf_jsmap (h_bus (h\<lparr>h_process := ?p'\<rparr>))"
      using quiet h_invD(9) [OF inv] by (simp add: quiet_moved_def)
  qed (use right h_invD(2,3,7) [OF inv] in auto)
qed

text \<open>A new epoch of a project, announced or not.\<close>

definition h_advanced where
  "h_advanced pid p B now h = h\<lparr>h_store := put_project \<lparr>ps_projectId = pid, ps_epoch = ps_epoch p + 1, ps_bindings = B, ps_changedAt = now\<rparr> (h_store h),
     h_history := (h_history h)((pid, ps_epoch p + 1) \<mapsto> B)\<rparr>"

lemma bus_publish_delivers:
  assumes "map_of b pid = Some True" and "assertNotification n = Inr ()"
  shows "\<exists>ids. bus_publish n b = Inr ids \<and> pid \<in> set ids"
  using assms by (force simp: bus_publish_def dest: map_of_SomeD)

lemma h_inv_changed:
  assumes inv: "h_inv sha256 D lossy h" and p: "map_of (as_projects (h_store h)) pid = Some p"
    and B: "good_bindings B" "0 \<le> now" "ps_epoch p < MAX_POSTGRES_EPOCH" "valid_identifier pid"
    and n: "n = \<lparr>en_protocolVersion = 1, en_projectId = pid, en_epoch = ps_epoch p + 1\<rparr>"
  shows "h_inv sha256 D lossy (h_deliver (Some n) (h_advanced pid p B now h))"
proof -
  let ?h1 = "h_advanced pid p B now h" and ?h = "h_deliver (Some n) (h_advanced pid p B now h)"
  let ?P = "h_process h"
  have gp: "good_project pid p" using h_invD(2) [OF inv] p by (rule store_inv_project)
  have pid: "pid \<noteq> []" using B(4) by (auto simp: valid_identifier_def)
  have ok: "assertNotification n = Inr ()"
    using B(3,4) gp by (simp add: n assertNotification_def good_project_def)
  have fresh: "h_history h (pid, ps_epoch p + 1) = None"
    using h_invD(7) [OF inv, of pid "ps_epoch p + 1"] p by (cases "h_history h (pid, ps_epoch p + 1)") auto
  have proc: "h_process ?h = ?P \<and> lossy \<or> h_process ?h = observeNotification n ?P"
    using bus_publish_delivers [OF _ ok, of "h_bus h" "pp_processId ?P"] h_invD(9) [OF inv]
    by (cases lossy) (auto simp: h_deliver_def h_advanced_def split: sum.splits)
  have rest: "h_store ?h = h_store ?h1" "h_history ?h = h_history ?h1" "h_bus ?h = h_bus h"
    by (auto simp: h_deliver_def h_advanced_def split: sum.splits)
  have floor_p: "floor_of (observeNotification n ?P) q = (if q = pid then ps_epoch p + 1 else floor_of ?P q)" for q
    using h_invD(4) [OF inv p] gp B(3) pid by (auto simp: floor_observe_in n good_project_def)
  have projects: "map_of (as_projects (h_store ?h)) q =
      (if q = pid then Some \<lparr>ps_projectId = pid, ps_epoch = ps_epoch p + 1, ps_bindings = B, ps_changedAt = now\<rparr>
       else map_of (as_projects (h_store h)) q)" for q
    unfolding rest by (simp add: h_advanced_def)
  have hist: "h_history ?h x = (if x = (pid, ps_epoch p + 1) then Some B else h_history h x)" for x
    unfolding rest by (simp add: h_advanced_def)
  have pi: "proc_inv sha256 (h_process ?h)"
    using proc h_invD(1) [OF inv] proc_move_inv [OF mv_notify [of "\<lambda>_. True" n sha256 "\<lambda>_ _. False" ?P]] by auto
  show ?thesis
  proof (rule h_invI)
    show "proc_inv sha256 (h_process ?h)" by (rule pi)
    show "store_inv (h_store ?h)"
      using h_invD(2) [OF inv] gp B unfolding rest by (auto simp: h_advanced_def good_project_def intro!: put_project_inv)
    show "h_history ?h (q, ps_epoch x) = Some (ps_bindings x)" if "map_of (as_projects (h_store ?h)) q = Some x" for q x
      using that h_invD(3) [OF inv, of q x] unfolding projects hist by (auto split: if_splits)
    show "floor_of (h_process ?h) q \<le> ps_epoch x" if "map_of (as_projects (h_store ?h)) q = Some x" for q x
      using that proc floor_p [of q] h_invD(4) [OF inv, of q] p unfolding projects by (auto split: if_splits)
    show "floor_of (h_process ?h) q = ps_epoch x" if "map_of (as_projects (h_store ?h)) q = Some x" "\<not> lossy" for q x
      using that proc floor_p [of q] h_invD(5) [OF inv, of q x] unfolding projects by (auto split: if_splits)
    show "floor_of (h_process ?h) q = 1" if "map_of (as_projects (h_store ?h)) q = None" for q
      using that proc floor_p [of q] h_invD(6) [OF inv, of q] unfolding projects by (auto split: if_splits)
    show "\<exists>x. map_of (as_projects (h_store ?h)) q = Some x \<and> e \<le> ps_epoch x" if "h_history ?h (q, e) = Some C" for q e C
      using that h_invD(7) [OF inv, of q e] p unfolding projects hist by (auto split: if_splits)
    show "entry_right sha256 D (h_history ?h) k c" if "map_of (pp_cache (h_process ?h)) k = Some c" for k c
    proof (rule entry_right_mono [of sha256 D "h_history h"])
      have "wf_jsmap (pp_cache ?P)" using h_invD(1) [OF inv] by (simp add: proc_inv_def)
      then have "map_of (pp_cache ?P) k = Some c" using that proc by (auto simp: observe_cache)
      then show "entry_right sha256 D (h_history h) k c" by (rule h_invD(8) [OF inv])
    qed (use fresh hist in auto)
    show "map_of (h_bus ?h) (pp_processId (h_process ?h)) = Some True \<and> wf_jsmap (h_bus ?h)" if "\<not> lossy"
      using that proc h_invD(9) [OF inv] by (auto simp: rest)
  qed
qed

lemma h_inv_created:
  assumes inv: "h_inv sha256 D lossy h" and p: "map_of (as_projects (h_store h)) pid = None"
    and pid: "valid_identifier pid" "0 \<le> now"
  shows "h_inv sha256 D lossy (h\<lparr>h_store := put_project \<lparr>ps_projectId = pid, ps_epoch = 1, ps_bindings = [], ps_changedAt = now\<rparr> (h_store h),
     h_history := (h_history h)((pid, 1) \<mapsto> [])\<rparr>)" (is "h_inv _ _ _ ?h")
proof -
  have fresh: "h_history h (pid, e) = None" for e
    using h_invD(7) [OF inv, of pid e] p by (cases "h_history h (pid, e)") auto
  have proc: "h_process ?h = h_process h" "h_bus ?h = h_bus h" by simp_all
  have projects: "map_of (as_projects (h_store ?h)) q =
      (if q = pid then Some \<lparr>ps_projectId = pid, ps_epoch = 1, ps_bindings = [], ps_changedAt = now\<rparr>
       else map_of (as_projects (h_store h)) q)" for q
    by simp
  have hist: "h_history ?h x = (if x = (pid, 1) then Some [] else h_history h x)" for x
    by simp
  have floor: "floor_of (h_process h) pid = 1" using h_invD(6) [OF inv p] .
  show ?thesis
  proof (rule h_invI, unfold proc)
    show "store_inv (h_store ?h)"
      using h_invD(2) [OF inv] pid
      by (auto simp: good_project_def good_bindings_def MAX_POSTGRES_EPOCH_def intro!: put_project_inv)
    show "h_history ?h (q, ps_epoch x) = Some (ps_bindings x)" if "map_of (as_projects (h_store ?h)) q = Some x" for q x
      using that h_invD(3) [OF inv, of q x] unfolding projects hist by (auto split: if_splits)
    show "floor_of (h_process h) q \<le> ps_epoch x" if "map_of (as_projects (h_store ?h)) q = Some x" for q x
      using that floor h_invD(4) [OF inv, of q x] unfolding projects by (auto split: if_splits)
    show "floor_of (h_process h) q = ps_epoch x" if "map_of (as_projects (h_store ?h)) q = Some x" "\<not> lossy" for q x
      using that floor h_invD(5) [OF inv, of q x] unfolding projects by (auto split: if_splits)
    show "floor_of (h_process h) q = 1" if "map_of (as_projects (h_store ?h)) q = None" for q
      using that h_invD(6) [OF inv, of q] unfolding projects by (auto split: if_splits)
    show "\<exists>x. map_of (as_projects (h_store ?h)) q = Some x \<and> e \<le> ps_epoch x" if "h_history ?h (q, e) = Some C" for q e C
      using that h_invD(7) [OF inv, of q e] p unfolding projects hist by (auto split: if_splits)
    show "entry_right sha256 D (h_history ?h) k c" if "map_of (pp_cache (h_process h)) k = Some c" for k c
      using h_invD(8) [OF inv that] by (rule entry_right_mono) (use fresh hist in auto)
  qed (rule h_invD(1) [OF inv], rule h_invD(9) [OF inv])
qed

lemma store_create_cases:
  obtains (failed) e where "store_createProject clock pid s = (Inl e, s)"
  | (created) now where "map_of (as_projects s) pid = None" "valid_identifier pid" "0 \<le> now"
      "store_createProject clock pid s =
        (Inr (), put_project \<lparr>ps_projectId = pid, ps_epoch = 1, ps_bindings = [], ps_changedAt = now\<rparr> s)"
proof (cases "valid_identifier pid \<and> map_of (as_projects s) pid = None")
  case False
  then have "store_createProject clock pid s = (Inl inputInvalid, s)"
    by (auto simp: store_createProject_def assertIdentifier_if guard_def)
  then show ?thesis by (rule failed)
next
  case ok: True
  show ?thesis
  proof (cases "readDatabaseClock clock")
    case (Inl e)
    with ok show ?thesis by (intro failed [of e]) (simp add: store_createProject_def assertIdentifier_if guard_def)
  next
    case (Inr now)
    then have "0 \<le> now" by (auto simp: readDatabaseClock_def assertClockValue_def split: ClockReading.splits)
    with ok Inr show ?thesis
      by (intro created [of now]) (simp_all add: store_createProject_def assertIdentifier_if guard_def)
  qed
qed

lemma h_inv_other:
  assumes "h_inv sha256 D lossy h" and "as_projects s = as_projects (h_store h)"
  shows "h_inv sha256 D lossy (h\<lparr>h_store := s\<rparr>)" "h_inv sha256 D lossy (h\<lparr>h_policies := ps\<rparr>)"
    "lossy \<Longrightarrow> h_inv sha256 D lossy (h\<lparr>h_bus := b\<rparr>)"
  using assms by (simp_all add: h_inv_def store_inv_def)

lemma h_inv_exec:
  assumes step: "h_step sha256 D lossy h c h'" and free: "collision_free sha256 D" and inv: "h_inv sha256 D lossy h"
  shows "h_inv sha256 D lossy h'"
proof -
  from step have h': "h' = h_exec sha256 c h" and D: "\<And>input c1 c2 c3. c = HDecide input c1 c2 c3 \<Longrightarrow> input \<in> D"
    and lossy: "\<And>b. c = HDelivery b \<Longrightarrow> lossy"
    by (auto elim: h_step.cases)
  show ?thesis
  proof (cases c)
    case (HCreate clock pid)
    show ?thesis
    proof (cases rule: store_create_cases [of clock pid "h_store h"])
      case (failed e)
      then show ?thesis using inv h' HCreate by (simp add: h_exec_def h_record_same)
    next
      case (created now)
      then show ?thesis using h_inv_created [OF inv created(1-3)] h' HCreate by (simp add: h_exec_def h_record_def)
    qed
  next
    case (HTransact clock pid calls)
    show ?thesis
    proof (cases rule: store_transact_cases [OF h_invD(2) [OF inv], of clock pid calls])
      case (1 e)
      then show ?thesis using inv h' HTransact by (simp add: h_exec_def)
    next
      case (2 p c)
      then show ?thesis using inv h' HTransact by (simp add: h_exec_def h_record_same h_deliver_def)
    next
      case (3 p B now c)
      have "h_record pid (h\<lparr>h_store := put_project \<lparr>ps_projectId = pid, ps_epoch = ps_epoch p + 1, ps_bindings = B,
          ps_changedAt = now\<rparr> (h_store h)\<rparr>) = h_advanced pid p B now h"
        by (simp add: h_record_def h_advanced_def)
      then show ?thesis
        using h_inv_changed [OF inv 3(1,2,5,6,7) refl] h' HTransact 3(8) by (simp add: h_exec_def)
    qed
  next
    case (HDecide input c1 c2 c3)
    then show ?thesis using h_inv_decide [OF inv free D refl] h' by (simp add: h_exec_def)
  qed (use inv h' lossy in \<open>simp_all add: h_exec_def h_inv_other store_setReadFailure_def\<close>)
qed

lemma new_process_inv: "new_PolicyDecisionProcess pid ttl b = (Inr p, b') \<Longrightarrow> proc_inv sha256 p"
  by (auto simp: new_PolicyDecisionProcess_def outcome_simps Let_def assertDuration_def proc_inv_def floor_of_def
      MAX_POSTGRES_EPOCH_def split: prod.splits sum.splits)

lemma new_process_fields:
  assumes "new_PolicyDecisionProcess pid ttl [] = (Inr p, b)"
  shows "pp_cache p = []" "floor_of p q = 1" "map_of b (pp_processId p) = Some True" "wf_jsmap b"
  using assms by (auto simp: new_PolicyDecisionProcess_def outcome_simps Let_def floor_of_def bus_subscribe_def
      wf_jsmap_def split: prod.splits sum.splits)

lemma h_inv_init: "h_init h \<Longrightarrow> h_inv sha256 D lossy h"
  unfolding h_init_def
  by (elim conjE exE, rule h_invI)
     (auto simp: new_process_inv new_process_fields new_AuthorizationStore_def store_inv_def)

interpretation harness: inductive_invariant h_init "h_step sha256 D lossy"
    "\<lambda>h. collision_free sha256 D \<longrightarrow> h_inv sha256 D lossy h" for sha256 D lossy
  by unfold_locales (auto intro: h_inv_init h_inv_exec)

end
