(* ===== verification/PolicyProperties.thy ===== *)
theory PolicyProperties
  imports PolicyHarness
begin

text \<open>
  The properties of the policy epochs: decisions fail closed, are recent, never older than an
  announced epoch and agree with the store; keys separate requests, except where the hash is fed
  strings that are not well-formed.
\<close>

subsection \<open>The machine of a process\<close>

datatype proc_op =
    PDecide PolicyDecisionRequest DecideEnvironment
  | PNotify EpochNotification
  | PDispose

definition proc_exec :: "(byte list \<Rightarrow> jsstring) \<Rightarrow> proc_op \<Rightarrow> PolicyDecisionProcess \<Rightarrow> PolicyDecisionProcess" where
  "proc_exec sha256 c p = (case c of
       PDecide input env \<Rightarrow> snd (decide sha256 input env p)
     | PNotify n \<Rightarrow> observeNotification n p
     | PDispose \<Rightarrow> fst (process_dispose p []))"

definition proc_step :: "(byte list \<Rightarrow> jsstring) \<Rightarrow> PolicyDecisionProcess \<Rightarrow> proc_op \<Rightarrow> PolicyDecisionProcess \<Rightarrow> bool" where
  "proc_step sha256 p c p' \<longleftrightarrow> p' = proc_exec sha256 c p"

definition proc_init :: "PolicyDecisionProcess \<Rightarrow> bool" where
  "proc_init p \<longleftrightarrow> (\<exists>pid ttl b b'. new_PolicyDecisionProcess pid ttl b = (Inr p, b'))"

lemma proc_step_moves: "proc_step sha256 p c p' \<Longrightarrow> proc_moves sha256 (\<lambda>_. True) (\<lambda>_ _. True) p p'"
proof (cases c)
  case (PDecide input env)
  then show "proc_step sha256 p c p' \<Longrightarrow> ?thesis"
    using decide_moves [of sha256 input env p "fst (decide sha256 input env p)" p'] by (simp add: proc_step_def proc_exec_def)
qed (auto simp: proc_step_def proc_exec_def process_dispose_def intro: mv_notify mv_clear)

interpretation policy_run: monotone_run proc_init "proc_step sha256" "proc_inv sha256" proc_later for sha256
proof unfold_locales
  show "proc_init p \<Longrightarrow> proc_inv sha256 p" for p by (auto simp: proc_init_def new_process_inv)
  show "proc_inv sha256 p \<Longrightarrow> proc_step sha256 p c p' \<Longrightarrow> proc_inv sha256 p'" for p c p'
    by (blast dest: proc_step_moves intro: proc_moves_inv)
  show "proc_inv sha256 p \<Longrightarrow> proc_step sha256 p c p' \<Longrightarrow> proc_later p p'" for p c p'
    by (blast dest: proc_step_moves intro: proc_moves_later)
qed (auto intro: proc_later_trans)

lemma base_key_project: "base_key sha256 r = base_key sha256 s \<Longrightarrow> pr_projectId r = pr_projectId s"
  by (simp add: base_key_def)

text \<open>A hit is an entry of the current floor.\<close>

lemma hit_epoch:
  assumes inv: "proc_inv sha256 p" and c: "map_of (pp_cache p) (base_key sha256 input) = Some c"
    and floor: "floor_of p (pr_projectId input) \<le> bigint_of_js (pk_epoch (cd_key c))"
  shows "pk_epoch (cd_key c) = js_of_int (floor_of p (pr_projectId input))"
    and "\<exists>r. good_entry sha256 p (base_key sha256 input) c r (floor_of p (pr_projectId input))"
proof -
  obtain r e where good: "good_entry sha256 p (base_key sha256 input) c r e"
    using inv c unfolding proc_inv_def by blast
  then have key: "pk_epoch (cd_key c) = js_of_int e" "1 \<le> e" "e \<le> floor_of p (pr_projectId r)"
    by (auto simp: good_entry_def decision_key_def)
  have "pr_projectId r = pr_projectId input"
    using good by (intro base_key_project [of sha256]) (simp add: good_entry_def)
  with key floor have "e = floor_of p (pr_projectId input)" by simp
  with key good show "pk_epoch (cd_key c) = js_of_int (floor_of p (pr_projectId input))"
    "\<exists>r. good_entry sha256 p (base_key sha256 input) c r (floor_of p (pr_projectId input))" by auto
qed

lemma decided_epoch:
  assumes inv: "proc_inv sha256 p" and call: "decide sha256 input env p = (Inr (Decided d src e, obs), p')"
  shows "\<exists>n. e = js_of_int n \<and> floor_of p (pr_projectId input) \<le> n"
proof (cases rule: decide_cases [of sha256 input env p])
  case (refused code req p')
  then show ?thesis using call by simp
next
  case (hit now c)
  then show ?thesis using call hit_epoch(1) [OF inv hit(6) hit(8)] by auto
next
  case (stored now d' e' p'')
  then have "floor_of p (pr_projectId input) \<le> e'" by (auto simp: fresh_decision_def Let_def)
  then show ?thesis using call stored(1) by auto
qed

lemma decided_valid: "fst (decide sha256 input env p) = Inr (Decided d src e, obs) \<Longrightarrow> valid_request input"
  by (cases rule: decide_cases [of sha256 input env p]) auto

subsection \<open>Requests for the examples\<close>

definition demoRequest :: "jsstring \<Rightarrow> PolicyDecisionRequest" where
  "demoRequest subject = \<lparr>pr_projectId = js ''p'', pr_identity = \<lparr>ic_subjectId = subject, ic_identityType = js ''human'', ic_groupPrincipalIds = []\<rparr>,
     pr_delegationChain = [], pr_resourceId = js ''doc'', pr_permission = js ''read'', pr_releaseId = js ''r1'',
     pr_policyRevision = js ''1'', pr_compilerVersion = js ''c1'', pr_correlationId = js ''x''\<rparr>"

definition demoArtifact :: CompiledPolicyArtifact where
  "demoArtifact = \<lparr>ck_projectId = js ''p'', ck_releaseId = js ''r1'', ck_policyRevision = js ''1'', ck_compilerVersion = js ''c1'',
     ca_artifactDigest = js ''d'', ca_evaluationContract = RESOURCE_PERMISSION_INTERSECTION_V1\<rparr>"

definition demoEnvironment :: "bool \<Rightarrow> int \<Rightarrow> DecideEnvironment" where
  "demoEnvironment allowed now = \<lparr>de_lookupClock = ClockNumber now,
     de_snapshot = Inr \<lparr>sn_projectId = js ''p'', sn_epoch = 1, sn_observedDatabaseAt = 0, sn_actorAllowed = allowed, sn_delegationAllowed = []\<rparr>,
     de_duringSnapshot = [], de_artifact = Inr demoArtifact, de_duringArtifact = [], de_confirmClock = ClockNumber now\<rparr>"

definition demoProcess :: PolicyDecisionProcess where
  "demoProcess = \<lparr>pp_processId = js ''w1'', pp_cacheTtlMs = 5000, pp_cache = [], pp_epochFloor = [], pp_lastMonotonic = None, pp_clockUnsafe = False\<rparr>"

definition demoHash :: "byte list \<Rightarrow> jsstring" where
  "demoHash bytes = map (\<lambda>b. unit_of (unat b)) bytes"

lemma demoHash_inj: "inj demoHash"
proof -
  have small: "unat (b :: byte) < 65536" for b using unsigned_less [of b, where ?'a = nat] by simp
  have "inj (\<lambda>b :: byte. unit_of (unat b))"
  proof (rule injI)
    fix b c :: byte
    assume "unit_of (unat b) = unit_of (unat c)"
    then have "unat b = unat c" by (simp only: unit_of_inject [OF small small])
    then show "b = c" by (simp only: word_unat_eq_iff)
  qed
  then show ?thesis by (simp add: inj_def demoHash_def inj_map_eq_map)
qed

lemma demoRequest_valid: "valid_request (demoRequest (js ''alice''))"
  by code_simp

lemma demoProcess_init: "proc_init demoProcess"
proof -
  have "new_PolicyDecisionProcess (js ''w1'') None [] = (Inr demoProcess, [(js ''w1'', True)])" by code_simp
  then show ?thesis unfolding proc_init_def by blast
qed

text \<open>The state after a first decision, with the digest left symbolic.\<close>

definition demoAfter :: "(byte list \<Rightarrow> jsstring) \<Rightarrow> jsstring \<Rightarrow> bool \<Rightarrow> int \<Rightarrow> PolicyDecisionProcess" where
  "demoAfter sha256 s allowed now = demoProcess\<lparr>pp_lastMonotonic := Some now, pp_cache := [(base_key sha256 (demoRequest s),
     \<lparr>cd_key = decision_key sha256 (demoRequest s) 1, cd_fullKey = serializePolicyDecisionCacheKey (decision_key sha256 (demoRequest s) 1),
      cd_result = (if allowed then ALLOW else DENY), cd_confirmedAtMonotonic = now, cd_expiresAtMonotonic = now + 5000,
      cd_observedDatabaseAt = 0, cd_artifactDigest = js ''d''\<rparr>)]\<rparr>"

lemma js_1: "js ''1'' = js_of_int 1"
  by code_simp

lemma demo_first:
  assumes v: "valid_request (demoRequest s)" and now: "0 \<le> now" "now \<le> 10000"
  shows "decide sha256 (demoRequest s) (demoEnvironment allowed now) demoProcess =
    (Inr (Decided (if allowed then ALLOW else DENY) SOURCE_FRESH (js ''1''), None), demoAfter sha256 s allowed now)"
proof -
  have normal: "normal_request (demoRequest s) = demoRequest s" by (simp add: normal_request_def demoRequest_def)
  have safe: "isSafeInteger now" "isSafeInteger (now + 5000)" using now by (simp_all add: isSafeInteger_def MAX_SAFE_INTEGER_def)
  have key: "createPolicyDecisionCacheKey sha256 (demoRequest s) 1 = Inr (decision_key sha256 (demoRequest s) 1)"
    using v by (intro createPolicyDecisionCacheKey_valid) (simp_all add: MAX_POSTGRES_EPOCH_def)
  have clock: "observeMonotonicClock (ClockNumber now) p = (Inr now, p\<lparr>pp_lastMonotonic := Some now\<rparr>)"
    if "\<not> pp_clockUnsafe p" "pp_lastMonotonic p = None \<or> pp_lastMonotonic p = Some now" for p
    using that safe now by (auto simp: observeMonotonicClock_def Let_def clock_acceptable_def split: option.splits)
  have checks: "isExactCompiledArtifact demoArtifact (demoRequest s)"
      "isConfirmedSnapshot \<lparr>sn_projectId = js ''p'', sn_epoch = 1, sn_observedDatabaseAt = 0, sn_actorAllowed = allowed, sn_delegationAllowed = []\<rparr> (demoRequest s)"
    by (simp_all add: isExactCompiledArtifact_def demoArtifact_def demoRequest_def isConfirmedSnapshot_def
        MAX_POSTGRES_EPOCH_def isSafeInteger_def MAX_SAFE_INTEGER_def)
  have floor: "floor_of (p\<lparr>pp_cache := c, pp_lastMonotonic := l\<rparr>) q = floor_of p q" "floor_of demoProcess q = 1" for p c l q
    by (simp_all add: floor_of_def demoProcess_def)
  show ?thesis
    using v safe checks
    by (simp add: decide_def normalizeDecisionRequest_if normal demoEnvironment_def clock createPolicyCacheBaseKey_valid
        demoProcess_def [THEN arg_cong, of pp_clockUnsafe] demoProcess_def [THEN arg_cong, of pp_lastMonotonic]
        demoProcess_def [THEN arg_cong, of pp_cache] demoProcess_def [THEN arg_cong, of pp_cacheTtlMs]
        cache_hit_def floor decide_fresh_def Let_def decide_confirmed_def key raiseEpochFloor_def snapshotDecision_def
        demoAfter_def js_1 isExactCompiledArtifact_def demoArtifact_def [THEN arg_cong, of ca_artifactDigest])
qed

lemma demo_second:
  assumes v: "valid_request (demoRequest t)" and key: "base_key sha256 (demoRequest t) = base_key sha256 (demoRequest s)"
    and now: "0 \<le> now" "now \<le> later" "later < now + 5000" "later \<le> 10000"
  shows "decide sha256 (demoRequest t) (demoEnvironment b later) (demoAfter sha256 s allowed now) =
    (Inr (Decided (if allowed then ALLOW else DENY) SOURCE_CACHE (js ''1''), None),
     (demoAfter sha256 s allowed now)\<lparr>pp_lastMonotonic := Some later\<rparr>)"
proof -
  have normal: "normal_request (demoRequest t) = demoRequest t" by (simp add: normal_request_def demoRequest_def)
  have safe: "isSafeInteger later" using now by (simp add: isSafeInteger_def MAX_SAFE_INTEGER_def)
  show ?thesis
    using v safe now
    by (simp add: decide_def normalizeDecisionRequest_if normal demoEnvironment_def createPolicyCacheBaseKey_valid key
        observeMonotonicClock_def Let_def clock_acceptable_def demoAfter_def demoProcess_def cache_hit_def floor_of_def
        decision_key_def js_1)
qed

subsection \<open>Decisions\<close>

text \<open>
  Claim C30. A decision fails closed. Every call of \<open>decide\<close> returns; what it returns is a refusal
  that was reported with its code, or a decision from the cache entry of the request that has not
  expired and whose epoch is not below the floor, or the verdict of a confirmed snapshot that is not
  below the floor, beside an artifact that matches the request exactly.
\<close>

theorem decide_fails_closed:
  "\<exists>res obs p'. decide sha256 input env p = (Inr (res, obs), p') \<and> (case res of
       FailedClosed code \<Rightarrow> map_option fo_code obs = Some code
     | Decided d src e \<Rightarrow> obs = None \<and> valid_request input \<and> (case src of
           SOURCE_CACHE \<Rightarrow> \<exists>c now. map_of (pp_cache p) (base_key sha256 input) = Some c
               \<and> de_lookupClock env = ClockNumber now \<and> now < cd_expiresAtMonotonic c
               \<and> floor_of p (pr_projectId input) \<le> bigint_of_js (pk_epoch (cd_key c))
               \<and> d = cd_result c \<and> e = pk_epoch (cd_key c)
         | SOURCE_FRESH \<Rightarrow> \<exists>sn art. de_snapshot env = Inr sn \<and> isConfirmedSnapshot sn (normal_request input)
               \<and> de_artifact env = Inr art \<and> isExactCompiledArtifact art (normal_request input)
               \<and> floor_of p (pr_projectId input) \<le> sn_epoch sn \<and> e = js_of_int (sn_epoch sn)
               \<and> d = (if sn_actorAllowed sn \<and> False \<notin> set (sn_delegationAllowed sn) then ALLOW else DENY)))"
proof (cases rule: decide_cases [of sha256 input env p])
  case (refused code req p')
  then show ?thesis by (simp add: refused_with_def)
next
  case (hit now c)
  then show ?thesis by simp
next
  case (stored now d e p')
  have every: "list_all (\<lambda>b. b) bs \<longleftrightarrow> False \<notin> set bs" for bs by (induction bs) auto
  from stored(6) obtain sn art where "de_snapshot env = Inr sn" "isConfirmedSnapshot sn (normal_request input)"
      "e = sn_epoch sn" "floor_of p (pr_projectId input) \<le> e" "d = snapshotDecision sn"
      "de_artifact env = Inr art" "isExactCompiledArtifact art (normal_request input)"
    unfolding fresh_decision_def Let_def by blast
  with stored(1,2) show ?thesis by (auto simp: snapshotDecision_def every)
qed

text \<open>
  A cached decision is recent. In every state of a process that any sequence of calls reaches, a
  decision served from the cache was confirmed less than five seconds before, by the monotonic
  clock, and its epoch is exactly the floor the process knows for the project.
\<close>

theorem cached_decision_recent:
  assumes "proc_init p0" and "reaches (proc_step sha256) p0 p"
    and call: "decide sha256 input env p = (Inr (Decided d SOURCE_CACHE e, obs), p')"
  shows "\<exists>c now. map_of (pp_cache p) (base_key sha256 input) = Some c \<and> de_lookupClock env = ClockNumber now
    \<and> cd_confirmedAtMonotonic c \<le> now \<and> now < cd_confirmedAtMonotonic c + MAX_POLICY_CACHE_TTL_MS
    \<and> e = js_of_int (floor_of p (pr_projectId input)) \<and> d = cd_result c"
proof -
  have inv: "proc_inv sha256 p" using assms(1,2) by (rule policy_run.inv_reachable)
  show ?thesis
  proof (cases rule: decide_cases [of sha256 input env p])
    case (refused code req p')
    then show ?thesis using call by simp
  next
    case (hit now c)
    obtain r where good: "good_entry sha256 p (base_key sha256 input) c r (floor_of p (pr_projectId input))"
      using hit_epoch(2) [OF inv hit(6) hit(8)] by blast
    have "cd_confirmedAtMonotonic c \<le> now"
      using good hit(5) by (auto simp: good_entry_def clock_acceptable_iff)
    moreover have "now < cd_confirmedAtMonotonic c + MAX_POLICY_CACHE_TTL_MS"
      using good hit(7) inv by (auto simp: good_entry_def proc_inv_def)
    ultimately show ?thesis
      using hit call hit_epoch(1) [OF inv hit(6) hit(8)] by auto
  next
    case (stored now d' e' p'')
    then show ?thesis using call by simp
  qed
qed

theorem cached_decision_recent_witness:
  "\<exists>c now. map_of (pp_cache (demoAfter demoHash (js ''alice'') True 7)) (base_key demoHash (demoRequest (js ''alice''))) = Some c
    \<and> de_lookupClock (demoEnvironment False 4000) = ClockNumber now
    \<and> cd_confirmedAtMonotonic c \<le> now \<and> now < cd_confirmedAtMonotonic c + MAX_POLICY_CACHE_TTL_MS
    \<and> js ''1'' = js_of_int (floor_of (demoAfter demoHash (js ''alice'') True 7) (pr_projectId (demoRequest (js ''alice''))))
    \<and> ALLOW = cd_result c"
proof -
  let ?r = "demoRequest (js ''alice'')" and ?p = "demoAfter demoHash (js ''alice'') True 7"
  have run: "reaches (proc_step demoHash) demoProcess ?p"
    by (rule reaches_step [OF reaches_refl, where l = "PDecide ?r (demoEnvironment True 7)"])
       (simp add: proc_step_def proc_exec_def demo_first demoRequest_valid)
  have call: "decide demoHash ?r (demoEnvironment False 4000) ?p =
      (Inr (Decided ALLOW SOURCE_CACHE (js ''1''), None), ?p\<lparr>pp_lastMonotonic := Some 4000\<rparr>)"
    by (simp add: demo_second demoRequest_valid)
  show ?thesis by (rule cached_decision_recent [OF demoProcess_init run call])
qed

text \<open>
  Claim C32. An announced epoch is respected. Once a process has observed a valid notification of an
  epoch, every decision it serves for that project in any later state, from the cache or fresh,
  carries that epoch or a later one.
\<close>

theorem announced_epoch_respected:
  assumes "proc_init p0" and "reaches (proc_step sha256) p0 p"
    and n: "en_protocolVersion n = 1" "en_projectId n = pr_projectId input" "1 \<le> en_epoch n" "en_epoch n \<le> MAX_POSTGRES_EPOCH"
    and run: "reaches (proc_step sha256) (observeNotification n p) q"
    and call: "decide sha256 input env q = (Inr (Decided d src e, obs), q')"
  shows "\<exists>m. e = js_of_int m \<and> en_epoch n \<le> m"
proof -
  have inv: "proc_inv sha256 p" using assms(1,2) by (rule policy_run.inv_reachable)
  then have inv': "proc_inv sha256 (observeNotification n p)"
    using policy_run.inv_step [of sha256 p "PNotify n"] by (simp add: proc_step_def proc_exec_def)
  then have invq: "proc_inv sha256 q" using policy_run.inv_from [OF run] by blast
  have later: "proc_later (observeNotification n p) q" using run inv' by (rule policy_run.rel_run)
  have "valid_request input" using call decided_valid [of sha256 input env q] by auto
  then have "en_projectId n \<noteq> []" using n(2) by (auto simp: valid_request_def valid_identifier_def)
  then have "en_epoch n \<le> floor_of (observeNotification n p) (pr_projectId input)"
    using n by (simp add: floor_observe_in)
  also have "\<dots> \<le> floor_of q (pr_projectId input)" using later by (simp add: proc_later_def)
  finally show ?thesis using decided_epoch [OF invq call] by fastforce
qed

definition demoNotification :: EpochNotification where
  "demoNotification = \<lparr>en_protocolVersion = 1, en_projectId = js ''p'', en_epoch = 1\<rparr>"

theorem announced_epoch_respected_witness: "\<exists>m. js ''1'' = js_of_int m \<and> en_epoch demoNotification \<le> m"
proof -
  let ?r = "demoRequest (js ''alice'')" and ?p = "demoAfter demoHash (js ''alice'') True 7"
  have seen: "observeNotification demoNotification demoProcess = demoProcess"
    by (simp add: observeNotification_def demoNotification_def floor_of_def demoProcess_def)
  have call: "decide demoHash ?r (demoEnvironment True 7) (observeNotification demoNotification demoProcess) =
      (Inr (Decided ALLOW SOURCE_FRESH (js ''1''), None), ?p)"
    by (simp add: seen demo_first demoRequest_valid)
  show ?thesis
    by (rule announced_epoch_respected [OF demoProcess_init reaches_refl _ _ _ _ reaches_refl call])
       (simp_all add: demoNotification_def demoRequest_def MAX_POSTGRES_EPOCH_def)
qed

text \<open>
  An unsafe clock denies for good. Once the monotonic clock was unsafe, in every later state
  the cache is empty, and every valid request is refused with \<open>POLICY_MONOTONIC_CLOCK_UNSAFE\<close> and
  changes nothing.
\<close>

theorem unsafe_clock_denies:
  assumes "proc_init p0" and "reaches (proc_step sha256) p0 p" and "pp_clockUnsafe p"
    and run: "reaches (proc_step sha256) p q" and valid: "valid_request input"
  shows "pp_cache q = [] \<and> (\<exists>obs. decide sha256 input env q = (Inr (FailedClosed POLICY_MONOTONIC_CLOCK_UNSAFE, Some obs), q))"
proof -
  have inv: "proc_inv sha256 p" using assms(1,2) by (rule policy_run.inv_reachable)
  then have "proc_inv sha256 q" using policy_run.inv_from [OF run] by blast
  moreover have "pp_clockUnsafe q"
    using policy_run.rel_run [OF run inv] assms(3) by (simp add: proc_later_def)
  ultimately show ?thesis
    using valid by (simp add: proc_inv_def decide_def normalizeDecisionRequest_if observeMonotonicClock_unsafe failClosed_valid)
qed

theorem unsafe_clock_denies_witness:
  "pp_cache (markClockUnsafe demoProcess) = [] \<and>
   (\<exists>obs. decide demoHash (demoRequest (js ''alice'')) (demoEnvironment True 8) (markClockUnsafe demoProcess) =
     (Inr (FailedClosed POLICY_MONOTONIC_CLOCK_UNSAFE, Some obs), markClockUnsafe demoProcess))"
proof -
  let ?r = "demoRequest (js ''alice'')" and ?p = "markClockUnsafe demoProcess"
  have "snd (decide demoHash ?r (demoEnvironment True (-1)) demoProcess) = ?p"
    using demoRequest_valid
    by (simp add: decide_def normalizeDecisionRequest_if observeMonotonicClock_def Let_def demoEnvironment_def
        clock_acceptable_def failClosed_valid demoProcess_def)
  then have "reaches (proc_step demoHash) demoProcess ?p"
    by (intro reaches_step [OF reaches_refl, where l = "PDecide ?r (demoEnvironment True (-1))"])
       (simp add: proc_step_def proc_exec_def)
  from unsafe_clock_denies [OF demoProcess_init this _ reaches_refl demoRequest_valid, of "demoEnvironment True 8"]
  show ?thesis by simp
qed

subsection \<open>Keys\<close>

text \<open>
  Tuples encode without ambiguity: two lists of strings, whatever the strings, have the same
  encoding exactly when they are the same list.
\<close>

theorem encodeTuple_injective: "encodeTuple ps = encodeTuple qs \<longleftrightarrow> ps = qs"
  by (rule encodeTuple_eq_iff)

text \<open>
  Claim C33. The cache separates requests. For valid requests made of well-formed strings, as long as the
  hash does not collide on what these two requests hash, the base keys of their normal forms are
  equal exactly when they ask the same question: same project, identity type, subject, set of
  groups, delegation chain, resource, permission, release, revision and compiler version.
\<close>

theorem cache_key_separates:
  assumes v: "valid_request r" "valid_request s" and w: "wf_request r" "wf_request s"
    and free: "inj_on sha256 (set (hashedBytes r) \<union> set (hashedBytes s))"
  shows "\<exists>a b ka kb. normalizeDecisionRequest sha256 r = Inr a \<and> normalizeDecisionRequest sha256 s = Inr b
    \<and> createPolicyCacheBaseKey sha256 a = Inr ka \<and> createPolicyCacheBaseKey sha256 b = Inr kb
    \<and> (ka = kb \<longleftrightarrow> same_request r s)"
  using v base_key_eq_iff [OF v w free]
  by (simp add: normalizeDecisionRequest_if createPolicyCacheBaseKey_valid)

lemma demoRequest_wf: "wf_request (demoRequest (js s))"
  by (simp add: wf_request_def demoRequest_def)

lemma demoRequest_valid_bob: "valid_request (demoRequest (js ''bob''))"
  by code_simp

theorem cache_key_separates_witness:
  "\<exists>a b ka kb. normalizeDecisionRequest demoHash (demoRequest (js ''alice'')) = Inr a
    \<and> normalizeDecisionRequest demoHash (demoRequest (js ''bob'')) = Inr b
    \<and> createPolicyCacheBaseKey demoHash a = Inr ka \<and> createPolicyCacheBaseKey demoHash b = Inr kb
    \<and> (ka = kb \<longleftrightarrow> same_request (demoRequest (js ''alice'')) (demoRequest (js ''bob'')))"
  using demoHash_inj
  by (intro cache_key_separates demoRequest_valid demoRequest_valid_bob demoRequest_wf) (auto intro: inj_on_subset)

lemma surrogate_valid: "valid_request (demoRequest [0xD800])" "valid_request (demoRequest [0xD801])"
proof -
  have "valid_identifier [u]" if "u = 0xD800 \<or> u = 0xD801" for u
    using that by (auto simp: valid_identifier_def is_control_def js_trim_def is_js_space_def)
  moreover have "valid_request (demoRequest (js ''alice''))" by (rule demoRequest_valid)
  ultimately show "valid_request (demoRequest [0xD800])" "valid_request (demoRequest [0xD801])"
    by (simp_all add: valid_request_def demoRequest_def valid_identity_def)
qed

text \<open>A part of a tuple counts by its bytes: what comes before it is well-formed, and what follows starts with a digit.\<close>

lemma code_points_before_digit:
  "t = [] \<or> \<not> is_low (hd t) \<Longrightarrow> code_points (s @ t) = code_points s @ code_points t"
proof (induction s rule: code_points.induct)
  case (2 u)
  then show ?case by (cases t) auto
qed auto

lemma encodeTuple_hd: "encodeTuple ps = [] \<or> \<not> is_low (hd (encodeTuple ps))"
proof (cases ps)
  case (Cons p qs)
  let ?n = "js_of_int (int (utf8ByteLength p))"
  have "\<forall>u\<in>set ?n. is_digit u" using js_of_nat_digits by (auto simp: js_of_int_def)
  moreover have "?n \<noteq> []" by (simp add: js_of_int_def)
  ultimately have "is_digit (hd ?n)" by simp
  then have "\<not> is_low (hd ?n)" by (auto simp: is_digit_nat is_low_nat)
  then show ?thesis using \<open>?n \<noteq> []\<close> by (simp add: Cons encodeTuple_Cons encodePart_def)
qed (simp add: encodeTuple_def)

lemma tupleBytes_lossy:
  assumes same: "map scalar (code_points a) = map scalar (code_points b)" and before: "\<forall>p\<in>set ps. isWellFormed p"
  shows "tupleBytes (ps @ a # qs) = tupleBytes (ps @ b # qs)"
proof -
  have length: "utf8ByteLength a = utf8ByteLength b"
    using arg_cong [OF same, of "\<lambda>cs. sum_list (map utf8_width cs)"] by (simp add: utf8ByteLength_sum)
  let ?pre = "encodeTuple ps @ js_of_int (int (utf8ByteLength b)) @ [58]"
  have "isWellFormed (js_of_int (int (utf8ByteLength b)) @ [58])"
    by (intro isWellFormed_append isWellFormed_plain)
       (use js_of_nat_digits in \<open>fastforce simp: js_of_int_def is_digit_nat\<close>)
  with isWellFormed_encodeTuple [OF before] have wf: "isWellFormed ?pre" by (rule isWellFormed_append)
  have points: "code_points (?pre @ c @ encodeTuple qs) = code_points ?pre @ code_points c @ code_points (encodeTuple qs)" for c
    unfolding code_points_append [OF wf] code_points_before_digit [OF encodeTuple_hd] by (rule refl)
  have bytes: "tupleBytes (ps @ c # qs) = utf8Encode (?pre @ c @ encodeTuple qs)" if "utf8ByteLength c = utf8ByteLength b" for c
    by (simp add: tupleBytes_def encodeTuple_def encodePart_def that)
  show ?thesis
    unfolding bytes [OF length] bytes [OF refl] utf8Encode_eq_iff utf8_nats_eq_iff points map_append same by (rule refl)
qed

definition with_subject :: "jsstring \<Rightarrow> PolicyDecisionRequest \<Rightarrow> PolicyDecisionRequest" where
  "with_subject subject r = r\<lparr>pr_identity := (pr_identity r)\<lparr>ic_subjectId := subject\<rparr>\<rparr>"

lemma lossy_subject_key:
  assumes v: "valid_request r"
    and same: "map scalar (code_points subject) = map scalar (code_points (ic_subjectId (pr_identity r)))"
  shows "base_key sha256 (with_subject subject r) = base_key sha256 r"
proof -
  have "isWellFormed (ic_identityType (pr_identity r))"
    using v by (auto simp: valid_request_def valid_identity_def valid_identityType_wf)
  with tupleBytes_lossy [OF same, of "[js ''actor-v1'', ic_identityType (pr_identity r)]"]
  have "tupleBytes (actorParts (pr_identity (with_subject subject r)) gs) = tupleBytes (actorParts (pr_identity r) gs)" for gs
    by (simp add: actorParts_def with_subject_def)
  then show ?thesis
    by (simp add: base_key_def actor_print_def digestTuple_bytes) (simp add: with_subject_def)
qed

lemma decide_hit:
  assumes "valid_request r" "de_lookupClock env = ClockNumber now" "\<not> pp_clockUnsafe p" "clock_acceptable p now"
    "map_of (pp_cache p) (base_key sha256 r) = Some c" "now < cd_expiresAtMonotonic c"
    "floor_of p (pr_projectId r) \<le> bigint_of_js (pk_epoch (cd_key c))"
  shows "decide sha256 r env p = (Inr (Decided (cd_result c) SOURCE_CACHE (pk_epoch (cd_key c)), None), p\<lparr>pp_lastMonotonic := Some now\<rparr>)"
proof -
  have "observeMonotonicClock (ClockNumber now) p = (Inr now, p\<lparr>pp_lastMonotonic := Some now\<rparr>)"
    using assms(3,4) by (simp add: observeMonotonicClock_def Let_def)
  moreover have "valid_request (normal_request r)" using assms(1) by simp
  ultimately show ?thesis
    using assms by (simp add: decide_def normalizeDecisionRequest_if createPolicyCacheBaseKey_valid cache_hit_def Let_def)
qed

text \<open>
  Claim C34. Subjects are not separated beyond their UTF-8 encoding, in which every lone surrogate is
  U+FFFD. Whatever the hash, in every state of a process in which a valid request is answered from the
  cache, the same request for any other valid subject with the same encoding is answered with the decision
  of the first subject.
\<close>

theorem lone_surrogates_share_decisions:
  assumes "valid_request r" and v: "valid_request (with_subject subject r)"
    and same: "map scalar (code_points subject) = map scalar (code_points (ic_subjectId (pr_identity r)))"
    and call: "decide sha256 r env p = (Inr (Decided d SOURCE_CACHE e, None), p')"
  shows "decide sha256 (with_subject subject r) env p = (Inr (Decided d SOURCE_CACHE e, None), p')"
proof (cases rule: decide_cases [of sha256 r env p])
  case (hit now c)
  have "pr_projectId (with_subject subject r) = pr_projectId r" by (simp add: with_subject_def)
  with hit(3-8) lossy_subject_key [OF assms(1) same] v
  have "decide sha256 (with_subject subject r) env p =
      (Inr (Decided (cd_result c) SOURCE_CACHE (pk_epoch (cd_key c)), None), p\<lparr>pp_lastMonotonic := Some now\<rparr>)"
    by (intro decide_hit) simp_all
  with hit(1) call show ?thesis by simp
qed (use call in simp_all)

text \<open>An \<open>ALLOW\<close> for one lone surrogate is served for another, which a fresh snapshot denies.\<close>

theorem lone_surrogates_share_decisions_witness:
  "let p = demoAfter demoHash [0xD800] True 7 in
     fst (decide demoHash (demoRequest [0xD801]) (demoEnvironment False 8) p) = Inr (Decided ALLOW SOURCE_CACHE (js ''1''), None)
     \<and> fst (decide demoHash (demoRequest [0xD801]) (demoEnvironment False 8) demoProcess) = Inr (Decided DENY SOURCE_FRESH (js ''1''), None)"
proof -
  have other: "with_subject [0xD801] (demoRequest [0xD800]) = demoRequest [0xD801]" by (simp add: with_subject_def demoRequest_def)
  have same: "map scalar (code_points [0xD801]) = map scalar (code_points (ic_subjectId (pr_identity (demoRequest [0xD800]))))"
    by (simp add: demoRequest_def scalar_def is_surrogate_def)
  have first: "decide demoHash (demoRequest [0xD800]) (demoEnvironment False 8) (demoAfter demoHash [0xD800] True 7) =
      (Inr (Decided ALLOW SOURCE_CACHE (js ''1''), None), (demoAfter demoHash [0xD800] True 7)\<lparr>pp_lastMonotonic := Some 8\<rparr>)"
    by (simp add: demo_second surrogate_valid)
  from lone_surrogates_share_decisions [OF surrogate_valid(1) _ same first] show ?thesis
    by (simp add: other surrogate_valid demo_first)
qed

subsection \<open>The store\<close>

datatype store_op = SCreate ClockReading jsstring | STransact ClockReading jsstring "DraftCall list"
  | SRead ClockReading AuthorizationSnapshotRequest | SFail "ThrownError option"

definition store_exec :: "store_op \<Rightarrow> InMemoryAuthorizationStore \<Rightarrow> InMemoryAuthorizationStore" where
  "store_exec c s = (case c of
       SCreate clock pid \<Rightarrow> snd (store_createProject clock pid s)
     | STransact clock pid calls \<Rightarrow> snd (store_transact clock pid calls s)
     | SRead clock r \<Rightarrow> snd (store_readSnapshot clock r s)
     | SFail e \<Rightarrow> store_setReadFailure e s)"

definition store_step :: "InMemoryAuthorizationStore \<Rightarrow> store_op \<Rightarrow> InMemoryAuthorizationStore \<Rightarrow> bool" where
  "store_step s c s' \<longleftrightarrow> s' = store_exec c s"

lemma store_read_inv: "store_inv s \<Longrightarrow> store_inv (snd (store_readSnapshot clock r s))"
  unfolding store_readSnapshot_def Let_def
  by (intro attempt_state [where P = store_inv]) (simp_all add: store_inv_def)

interpretation store_machine: inductive_invariant "\<lambda>s. s = new_AuthorizationStore" store_step store_inv
proof unfold_locales
  show "store_inv s'" if "store_inv s" "store_step s c s'" for s c s'
    using that
    by (cases c) (auto simp: store_step_def store_exec_def store_read_inv store_setReadFailure_def store_inv_def [of "_\<lparr>as_readFailure := _\<rparr>"]
        intro: store_create_inv [OF _ prod.collapse [symmetric]] store_transact_inv [OF _ prod.collapse [symmetric]]
        dest: store_inv_project simp: store_inv_def [of s])
qed (simp add: new_AuthorizationStore_def store_inv_def)

text \<open>
  Claim C31. The authorization store implements the abstract one. In every state the store reaches, a
  transaction has the outcome, the epoch and the effect that the abstract transaction has on the set
  of granted triples: it fails and changes nothing, or leaves epoch and triples alone when the
  triples do not change, or replaces them and raises the epoch by one; exactly then one notification
  of the new epoch is published.
\<close>

theorem store_transact_refines:
  assumes "reaches store_step new_AuthorizationStore s"
  shows "case store_transact clock pid calls s of (out, s') \<Rightarrow>
      spec_transact clock pid calls (abs_store_of s) = (map_sum id (\<lambda>(c, n). (ac_epoch c, ac_changed c)) out, abs_store_of s')
      \<and> (case out of Inl e \<Rightarrow> s' = s
           | Inr (c, n) \<Rightarrow> n = (if ac_changed c
               then Some \<lparr>en_protocolVersion = 1, en_projectId = pid, en_epoch = ac_epoch c\<rparr> else None))"
proof -
  have inv: "store_inv s" using store_machine.inv_reachable [OF refl assms] .
  show ?thesis
    by (cases rule: store_transact_cases [OF inv, of clock pid calls]) auto
qed

definition demoGrant :: AuthorizationBinding where
  "demoGrant = \<lparr>ab_principalId = js ''alice'', ab_resourceId = js ''doc'', ab_permission = js ''read''\<rparr>"

definition demoStore :: InMemoryAuthorizationStore where
  "demoStore = \<lparr>as_projects = [(js ''p'', \<lparr>ps_projectId = js ''p'', ps_epoch = 1, ps_bindings = [], ps_changedAt = 5\<rparr>)],
     as_readFailure = None, as_readCount = 0\<rparr>"

lemma demoStore_reached: "reaches store_step new_AuthorizationStore demoStore"
proof (rule reaches_step [OF reaches_refl, where l = "SCreate (ClockNumber 5) (js ''p'')"])
  have "store_exec (SCreate (ClockNumber 5) (js ''p'')) new_AuthorizationStore = demoStore" by code_simp
  then show "store_step new_AuthorizationStore (SCreate (ClockNumber 5) (js ''p'')) demoStore"
    by (simp add: store_step_def)
qed

lemma demoStore_grant:
  "store_transact (ClockNumber 6) (js ''p'') [CallGrant demoGrant] demoStore =
     (Inr (\<lparr>ac_projectId = js ''p'', ac_epoch = 2, ac_changed = True, ac_committedAt = 6\<rparr>,
           Some \<lparr>en_protocolVersion = 1, en_projectId = js ''p'', en_epoch = 2\<rparr>),
      snd (store_transact (ClockNumber 6) (js ''p'') [CallGrant demoGrant] demoStore))"
  by code_simp

theorem store_transact_refines_witness:
  "fst (spec_transact (ClockNumber 6) (js ''p'') [CallGrant demoGrant] (abs_store_of demoStore)) = Inr (2, True)"
  using store_transact_refines [OF demoStore_reached, of "ClockNumber 6" "js ''p''" "[CallGrant demoGrant]"]
  by (subst (asm) demoStore_grant) simp

subsection \<open>Decisions and the store\<close>

text \<open>
  Claim C29. Decisions agree with the store. Take the store, the bus, the policy store and a process
  together, requests of well-formed strings on which the hash does not collide, and any sequence of
  their calls. A decision that is not a refusal carries an epoch that is not below the floor of the
  process nor above the epoch of the project, and it is exactly the verdict of the bindings the
  project had at that epoch. When no notification was lost, that is the current epoch and the
  verdict of the current bindings, also when the decision came from the cache.
\<close>

theorem decisions_agree_with_store:
  assumes free: "collision_free sha256 D" and "h_init h0" and "reaches (h_step sha256 D lossy) h0 h" and D: "input \<in> D"
    and call: "decide sha256 input (h_environment h input c1 c2 c3) (h_process h) = (Inr (Decided d src e, obs), p')"
  shows "\<exists>n p B. e = js_of_int n \<and> map_of (as_projects (h_store h)) (pr_projectId input) = Some p
    \<and> floor_of (h_process h) (pr_projectId input) \<le> n \<and> n \<le> ps_epoch p
    \<and> h_history h (pr_projectId input, n) = Some B \<and> d = verdict B input
    \<and> (lossy \<or> n = ps_epoch p \<and> B = ps_bindings p)"
proof -
  have inv: "h_inv sha256 D lossy h" using harness.inv_reachable [OF assms(2,3)] free by blast
  note pinv = h_invD(1) [OF inv]
  show ?thesis
  proof (cases rule: decide_cases [of sha256 input "h_environment h input c1 c2 c3" "h_process h"])
    case (refused code req q)
    then show ?thesis using call by simp
  next
    case (hit now c)
    let ?n = "floor_of (h_process h) (pr_projectId input)"
    have e: "pk_epoch (cd_key c) = js_of_int ?n" by (rule hit_epoch(1) [OF pinv hit(6) hit(8)])
    obtain B where B: "h_history h (pr_projectId input, ?n) = Some B" "cd_result c = verdict B input"
      using h_invD(8) [OF inv hit(6)] D hit(2) e unfolding entry_right_def by auto
    obtain p where p: "map_of (as_projects (h_store h)) (pr_projectId input) = Some p" "?n \<le> ps_epoch p"
      using h_invD(7) [OF inv B(1)] by blast
    have "lossy \<or> ?n = ps_epoch p \<and> B = ps_bindings p"
      using h_invD(5) [OF inv p(1)] h_invD(3) [OF inv p(1)] B(1) by auto
    with call hit(1) e p B show ?thesis
      by (intro exI [of _ ?n] exI [of _ p] exI [of _ B]) simp
  next
    case (stored now d' e' q)
    then obtain sn where sn: "fst (store_readSnapshot c2 (snapshotRequest (normal_request input)) (h_store h)) = Inr sn"
        "e' = sn_epoch sn" "floor_of (h_process h) (pr_projectId input) \<le> e'" "d' = snapshotDecision sn"
      unfolding fresh_decision_def Let_def h_environment_def by auto
    obtain p where p: "map_of (as_projects (h_store h)) (pr_projectId input) = Some p" "sn_epoch sn = ps_epoch p"
        "snapshotDecision sn = verdict (ps_bindings p) input"
      using store_readSnapshot_verdict [of "normal_request input" "h_store h" c2 sn] stored(2) h_invD(2) [OF inv] sn(1) by auto
    then show ?thesis
      using sn call stored(1) h_invD(3) [OF inv p(1)]
      by (intro exI [of _ "ps_epoch p"] exI [of _ p] exI [of _ "ps_bindings p"]) auto
  qed
qed

definition demoHarness :: Harness where
  "demoHarness = \<lparr>h_store = new_AuthorizationStore, h_policies = new_CompiledPolicyStore, h_bus = [(js ''w1'', True)],
     h_process = demoProcess, h_history = (\<lambda>_. None)\<rparr>"

definition demoOps :: "h_op list" where
  "demoOps = [HCreate (ClockNumber 5) (js ''p''), HPublishPolicy demoArtifact,
     HTransact (ClockNumber 6) (js ''p'') [CallGrant demoGrant],
     HDecide (demoRequest (js ''alice'')) (ClockNumber 7) (ClockNumber 7) (ClockNumber 7),
     HTransact (ClockNumber 8) (js ''p'') [CallRevoke demoGrant]]"

lemma h_run:
  assumes "\<And>c h. c \<in> set cs \<Longrightarrow> h_step sha256 D lossy h c (h_exec sha256 c h)"
  shows "reaches (h_step sha256 D lossy) h (fold (h_exec sha256) cs h)"
  using assms
proof (induction cs rule: rev_induct)
  case Nil
  then show ?case by (simp add: reaches_refl)
next
  case (snoc c cs)
  then have "reaches (h_step sha256 D lossy) h (fold (h_exec sha256) cs h)" by simp
  moreover have "h_step sha256 D lossy (fold (h_exec sha256) cs h) c (h_exec sha256 c (fold (h_exec sha256) cs h))"
    by (rule snoc.prems) simp
  ultimately show ?case by (simp add: reaches_step)
qed

lemma demoOps_run: "reaches (h_step demoHash {demoRequest (js ''alice'')} False) demoHarness (fold (h_exec demoHash) demoOps demoHarness)"
  by (rule h_run) (auto simp: demoOps_def intro!: h_stepI)

lemma demoHarness_init: "h_init demoHarness"
proof -
  have "new_PolicyDecisionProcess (js ''w1'') None [] = (Inr demoProcess, [(js ''w1'', True)])" by code_simp
  then show ?thesis unfolding h_init_def by (auto simp: demoHarness_def)
qed

lemma demo_free: "collision_free demoHash {demoRequest (js ''alice'')}"
  using demoHash_inj by (auto simp: collision_free_def demoRequest_wf intro: inj_on_subset)

lemma demo_decision:
  "let h = fold (h_exec demoHash) demoOps demoHarness in
   fst (decide demoHash (demoRequest (js ''alice'')) (h_environment h (demoRequest (js ''alice'')) (ClockNumber 9) (ClockNumber 9) (ClockNumber 9)) (h_process h))
     = Inr (Decided DENY SOURCE_FRESH (js ''3''), None)"
  by code_simp

theorem decisions_agree_with_store_witness:
  "\<exists>n p B. js ''3'' = js_of_int n
    \<and> map_of (as_projects (h_store (fold (h_exec demoHash) demoOps demoHarness))) (pr_projectId (demoRequest (js ''alice''))) = Some p
    \<and> floor_of (h_process (fold (h_exec demoHash) demoOps demoHarness)) (pr_projectId (demoRequest (js ''alice''))) \<le> n \<and> n \<le> ps_epoch p
    \<and> h_history (fold (h_exec demoHash) demoOps demoHarness) (pr_projectId (demoRequest (js ''alice'')), n) = Some B
    \<and> DENY = verdict B (demoRequest (js ''alice'')) \<and> (False \<or> n = ps_epoch p \<and> B = ps_bindings p)"
  using decisions_agree_with_store [OF demo_free demoHarness_init demoOps_run _
      prod.collapse [symmetric, THEN trans, OF arg_cong2 [where f = Pair, OF demo_decision [unfolded Let_def] refl]]]
  by simp

end
