(* ===== verification/ValueText.thy ===== *)
theory ValueText
  imports Utf8
begin

text \<open>
  The values that reach the value codec, its errors, and its text functions
  (\<open>packages/value-codec/src/error.ts\<close>, \<open>text.ts\<close>).

  \<open>JsValue\<close> is the \<open>unknown\<close> of the sources. A number is an integer, the negative zero, a finite
  number that is not an integer, or not finite. A number that is not an integer is given by the text
  ECMAScript prints for it: sign, integer part and the digits of the fraction, of which there is at
  least one, or a text with an exponent. An object is its own enumerable string keys with their values. \<open>JsEnclosing\<close> is a reference to an
  array or object that encloses it, that is a cycle; \<open>JsOther\<close> is a value of any other kind, such as
  a function, a \<open>bigint\<close> or an object with a prototype of its own. Error messages are not modelled.
\<close>

datatype JsNumber = IntegerNumber int | NegativeZero | FractionNumber bool nat nat "nat list" | ExponentNumber | NotFinite

datatype JsValue =
    JsNull
  | JsUndefined
  | JsBoolean bool
  | JsNumber JsNumber
  | JsString jsstring
  | JsArray "JsValue list"
  | JsPlainObject "(jsstring \<times> JsValue) list"
  | JsEnclosing
  | JsOther

datatype ValueCodecErrorCode =
    DATE_INVALID
  | DECIMAL_FORMAT_INVALID
  | DECIMAL_SCHEMA_INVALID
  | DECIMAL_VALUE_OUT_OF_RANGE
  | ENUM_SCHEMA_INVALID
  | ENUM_VALUE_INVALID
  | INTEGER_FORMAT_INVALID
  | INTEGER_VALUE_OUT_OF_RANGE
  | JSON_VALUE_INVALID
  | PRIMARY_KEY_COLLISION
  | PRIMARY_KEY_INVALID
  | PRIMARY_KEY_TOO_LARGE
  | STRING_ARRAY_TOO_LARGE
  | STRING_INVALID
  | STRING_TOO_LARGE
  | TIMESTAMP_INVALID
  | UUID_INVALID
  | VALUE_TYPE_MISMATCH

datatype ValueCodecError = ValueCodecError (vc_code: ValueCodecErrorCode) (vc_path: jsstring)

type_synonym 'a codec = "(ValueCodecError, 'a) result"

definition value_path :: jsstring where
  "value_path = js ''$value''"

abbreviation vfail :: "ValueCodecErrorCode \<Rightarrow> ValueCodecError" where
  "vfail code \<equiv> ValueCodecError code value_path"

definition DEFAULT_STRING_MAX_BYTES :: int where
  "DEFAULT_STRING_MAX_BYTES = 64 * 1024"

definition requireString :: "JsValue \<Rightarrow> jsstring \<Rightarrow> jsstring codec" where
  "requireString input path = (case input of
       JsString s \<Rightarrow>
         if \<not> isWellFormed s \<or> 0 \<in> set s then Inl (ValueCodecError STRING_INVALID path) else Inr s
     | _ \<Rightarrow> Inl (ValueCodecError VALUE_TYPE_MISMATCH path))"

definition assertUtf8ByteLimit :: "jsstring \<Rightarrow> int \<Rightarrow> jsstring \<Rightarrow> unit codec" where
  "assertUtf8ByteLimit s maximumBytes path =
     rbind (guard (isSafeInteger maximumBytes \<and> \<not> maximumBytes < 0) (ValueCodecError STRING_INVALID path)) (\<lambda>_.
     guard (\<not> int (utf8ByteLength s) > maximumBytes) (ValueCodecError STRING_TOO_LARGE path))"

fun compareBytes :: "byte list \<Rightarrow> byte list \<Rightarrow> int" where
  "compareBytes (a # as) (b # bs) =
     (let difference = uint a - uint b in if difference \<noteq> 0 then sgn difference else compareBytes as bs)"
| "compareBytes as bs = sgn (int (length as) - int (length bs))"

definition compareUtf8 :: "jsstring \<Rightarrow> jsstring \<Rightarrow> int" where
  "compareUtf8 left right = compareBytes (utf8Encode left) (utf8Encode right)"

subsection \<open>The order of UTF-8 is the order of the code points\<close>

lemma requireString_Inr:
  "requireString input path = Inr s \<longleftrightarrow> input = JsString s \<and> isWellFormed s \<and> 0 \<notin> set s"
  by (auto simp: requireString_def split: JsValue.splits if_splits)

lemma nil_less_iff: "[] < xs \<longleftrightarrow> xs \<noteq> ([] :: nat list)"
  by (cases xs) auto

lemma compareBytes_eq: "compareBytes as bs = compareBy (map unat as) (map unat bs)"
proof (induction as bs rule: compareBytes.induct)
  case (1 a as b bs)
  have "uint a - uint b = int (unat a) - int (unat b)" by simp
  with 1 show ?case
    by (cases "unat a" "unat b" rule: linorder_cases)
       (auto simp: Let_def compareBy_def word_unat_eq_iff sgn_if simp del: of_nat_unat)
qed (auto simp: compareBy_def nil_less_iff)

lemma compareUtf8_eq:
  "compareUtf8 left right = compareBy (map scalar (code_points left)) (map scalar (code_points right))"
  by (simp add: compareUtf8_def compareBytes_eq unat_utf8Encode compareBy_def utf8_nats_less_iff)

interpretation utf8_order: js_comparator compareUtf8
proof unfold_locales
  show "sgn (compareUtf8 x y) = - sgn (compareUtf8 y x)" for x y
    by (simp add: compareUtf8_eq compareBy_swap [of "map scalar (code_points y)"] sgn_minus)
  show "compareUtf8 x y \<le> 0 \<Longrightarrow> compareUtf8 y z \<le> 0 \<Longrightarrow> compareUtf8 x z \<le> 0" for x y z
    by (simp add: compareUtf8_eq)
qed

lemma compareUtf8_eq0: "isWellFormed s \<Longrightarrow> isWellFormed t \<Longrightarrow> compareUtf8 s t = 0 \<longleftrightarrow> s = t"
  by (simp add: compareUtf8_eq well_formed_scalar)

end
