(* ===== verification/ValueScalars.thy ===== *)
theory ValueScalars
  imports ValueText
begin

text \<open>
  Canonical scalars (\<open>packages/value-codec/src/scalars.ts\<close>): integers, decimals, dates, timestamps
  and UUIDs as text. A regular expression of the sources is a predicate, or a function to its groups;
  \<open>\d\<close> is an ASCII digit. Calendar numbers are \<open>int\<close>: they stay far below the safe limit, where
  \<open>Math.floor(a / b)\<close> is the integer division.
\<close>

record DecimalFormat =
  precision :: int
  scale :: int

definition INTEGER_MINIMUM :: int where
  "INTEGER_MINIMUM = - (2 ^ 63)"

definition INTEGER_MAXIMUM :: int where
  "INTEGER_MAXIMUM = 2 ^ 63 - 1"

definition DECIMAL_MAXIMUM_PRECISION :: int where
  "DECIMAL_MAXIMUM_PRECISION = 38"

definition DECIMAL_MAXIMUM_SCALE :: int where
  "DECIMAL_MAXIMUM_SCALE = 18"

definition starts_minus :: "jsstring \<Rightarrow> bool" where
  "starts_minus s \<longleftrightarrow> s \<noteq> [] \<and> hd s = 45"

definition strip_minus :: "jsstring \<Rightarrow> jsstring" where
  "strip_minus s = (if starts_minus s then tl s else s)"

text \<open>\<open>0|[1-9][0-9]*\<close>\<close>

definition natural_text :: "jsstring \<Rightarrow> bool" where
  "natural_text s \<longleftrightarrow> s \<noteq> [] \<and> list_all is_digit s \<and> (hd s \<noteq> 48 \<or> s = [48])"

definition integerPattern :: "jsstring \<Rightarrow> bool" where
  "integerPattern s \<longleftrightarrow> natural_text (strip_minus s)"

text \<open>\<open>BigInt\<close> of a text that the patterns accept.\<close>

definition big_int :: "jsstring \<Rightarrow> int" where
  "big_int s = (if starts_minus s then - bigint_of_js (tl s) else bigint_of_js s)"

subsection \<open>Integers\<close>

definition canonicalizeInteger :: "JsValue \<Rightarrow> jsstring codec" where
  "canonicalizeInteger input =
     rbind (requireString input value_path) (\<lambda>v.
     rbind (guard (integerPattern v) (vfail INTEGER_FORMAT_INVALID)) (\<lambda>_.
     let parsed = big_int v in
     rbind (guard (\<not> (parsed < INTEGER_MINIMUM \<or> parsed > INTEGER_MAXIMUM)) (vfail INTEGER_VALUE_OUT_OF_RANGE)) (\<lambda>_.
     Inr (js_of_int parsed))))"

definition compareCanonicalIntegers :: "jsstring \<Rightarrow> jsstring \<Rightarrow> int" where
  "compareCanonicalIntegers left right =
     (let leftValue = big_int left; rightValue = big_int right in
      if leftValue < rightValue then -1 else if leftValue > rightValue then 1 else 0)"

subsection \<open>Decimals\<close>

definition validateDecimalFormat :: "'a DecimalFormat_scheme \<Rightarrow> unit codec" where
  "validateDecimalFormat f =
     guard (\<not> (\<not> isSafeInteger (precision f) \<or> \<not> isSafeInteger (scale f) \<or> precision f < 1
         \<or> precision f > DECIMAL_MAXIMUM_PRECISION \<or> scale f < 0 \<or> scale f > DECIMAL_MAXIMUM_SCALE
         \<or> scale f > precision f)) (vfail DECIMAL_SCHEMA_INVALID)"

definition before_dot :: "jsstring \<Rightarrow> jsstring" where
  "before_dot s = takeWhile (\<lambda>u. u \<noteq> 46) s"

definition after_dot :: "jsstring \<Rightarrow> jsstring" where
  "after_dot s = tl (dropWhile (\<lambda>u. u \<noteq> 46) s)"

text \<open>\<open>-?(0|[1-9][0-9]*)(\.[0-9]+)?\<close>\<close>

definition decimalPattern :: "jsstring \<Rightarrow> bool" where
  "decimalPattern s \<longleftrightarrow> (let u = strip_minus s in natural_text (before_dot u)
     \<and> (46 \<in> set u \<longrightarrow> after_dot u \<noteq> [] \<and> list_all is_digit (after_dot u)))"

definition padEnd :: "jsstring \<Rightarrow> nat \<Rightarrow> jsstring" where
  "padEnd s n = s @ replicate (n - length s) 48"

definition canonicalizeDecimal :: "JsValue \<Rightarrow> 'a DecimalFormat_scheme \<Rightarrow> jsstring codec" where
  "canonicalizeDecimal input f =
     rbind (validateDecimalFormat f) (\<lambda>_.
     rbind (requireString input value_path) (\<lambda>v.
     rbind (guard (decimalPattern v) (vfail DECIMAL_FORMAT_INVALID)) (\<lambda>_.
     let negative = starts_minus v;
         unsigned = strip_minus v;
         integerPart = before_dot unsigned;
         fractionalPart = after_dot unsigned;
         integerDigits = (if integerPart = [48] then 0 else int (length integerPart)) in
     rbind (guard (\<not> (int (length fractionalPart) > scale f \<or> integerDigits > precision f - scale f))
       (vfail DECIMAL_VALUE_OUT_OF_RANGE)) (\<lambda>_.
     let paddedFraction = padEnd fractionalPart (nat (scale f));
         isZero = integerPart = [48] \<and> \<not> list_ex (\<lambda>u. 49 \<le> u \<and> u \<le> 57) paddedFraction;
         sign = (if negative \<and> \<not> isZero then [45] else []);
         fraction = (if scale f = 0 then [] else 46 # paddedFraction) in
     Inr (sign @ integerPart @ fraction)))))"

definition decimalToUnscaled :: "jsstring \<Rightarrow> int" where
  "decimalToUnscaled s = big_int (remove1 46 s)"

definition fractionalDigits :: "jsstring \<Rightarrow> nat" where
  "fractionalDigits s = (if 46 \<notin> set s then 0 else length s - length (before_dot s) - 1)"

definition compareCanonicalDecimals :: "jsstring \<Rightarrow> jsstring \<Rightarrow> int" where
  "compareCanonicalDecimals left right =
     (let leftScale = fractionalDigits left; rightScale = fractionalDigits right;
          commonScale = max leftScale rightScale;
          leftValue = decimalToUnscaled left * 10 ^ (commonScale - leftScale);
          rightValue = decimalToUnscaled right * 10 ^ (commonScale - rightScale) in
      if leftValue < rightValue then -1 else if leftValue > rightValue then 1 else 0)"

subsection \<open>The calendar\<close>

definition isLeapYear :: "int \<Rightarrow> bool" where
  "isLeapYear year \<longleftrightarrow> year mod 4 = 0 \<and> (year mod 100 \<noteq> 0 \<or> year mod 400 = 0)"

definition daysInMonth :: "int \<Rightarrow> int \<Rightarrow> int" where
  "daysInMonth year month =
     (if month = 2 then if isLeapYear year then 29 else 28
      else if month = 4 \<or> month = 6 \<or> month = 9 \<or> month = 11 then 30 else 31)"

definition daysFromCivil :: "int \<Rightarrow> int \<Rightarrow> int \<Rightarrow> int" where
  "daysFromCivil yearInput month day =
     (let year = yearInput - (if month \<le> 2 then 1 else 0);
          era = year div 400;
          yearOfEra = year - era * 400;
          adjustedMonth = month + (if month > 2 then -3 else 9);
          dayOfYear = (153 * adjustedMonth + 2) div 5 + day - 1;
          dayOfEra = yearOfEra * 365 + yearOfEra div 4 - yearOfEra div 100 + dayOfYear in
      era * 146097 + dayOfEra - 719468)"

definition civilFromDays :: "int \<Rightarrow> int \<times> int \<times> int" where
  "civilFromDays daysInput =
     (let days = daysInput + 719468;
          era = days div 146097;
          dayOfEra = days - era * 146097;
          yearOfEra = (dayOfEra - dayOfEra div 1460 + dayOfEra div 36524 - dayOfEra div 146096) div 365;
          year = yearOfEra + era * 400;
          dayOfYear = dayOfEra - (365 * yearOfEra + yearOfEra div 4 - yearOfEra div 100);
          monthPrime = (5 * dayOfYear + 2) div 153;
          day = dayOfYear - (153 * monthPrime + 2) div 5 + 1;
          month = monthPrime + (if monthPrime < 10 then 3 else -9) in
      (year + (if month \<le> 2 then 1 else 0), month, day))"

text \<open>\<open>bigint\<close> division and remainder truncate towards zero.\<close>

definition big_div :: "int \<Rightarrow> int \<Rightarrow> int" where
  "big_div a b = sgn a * sgn b * (\<bar>a\<bar> div \<bar>b\<bar>)"

definition big_rem :: "int \<Rightarrow> int \<Rightarrow> int" where
  "big_rem a b = a - big_div a b * b"

definition floorDivide :: "int \<Rightarrow> int \<Rightarrow> int" where
  "floorDivide dividend divisor =
     (let quotient = big_div dividend divisor; remainder = big_rem dividend divisor in
      if remainder < 0 then quotient - 1 else quotient)"

definition pad :: "int \<Rightarrow> nat \<Rightarrow> jsstring" where
  "pad v width = (let s = js_of_int v in replicate (width - length s) 48 @ s)"

subsection \<open>Dates\<close>

definition digits_at :: "jsstring \<Rightarrow> nat \<Rightarrow> nat \<Rightarrow> bool" where
  "digits_at s i n \<longleftrightarrow> length (take n (drop i s)) = n \<and> list_all is_digit (take n (drop i s))"

definition unit_at :: "jsstring \<Rightarrow> nat \<Rightarrow> code_unit \<Rightarrow> bool" where
  "unit_at s i u \<longleftrightarrow> take 1 (drop i s) = [u]"

text \<open>\<open>Number\<close> of a group of digits.\<close>

definition number_at :: "jsstring \<Rightarrow> nat \<Rightarrow> nat \<Rightarrow> int" where
  "number_at s i n = bigint_of_js (take n (drop i s))"

definition date_prefix :: "jsstring \<Rightarrow> bool" where
  "date_prefix s \<longleftrightarrow> digits_at s 0 4 \<and> unit_at s 4 45 \<and> digits_at s 5 2 \<and> unit_at s 7 45 \<and> digits_at s 8 2"

definition datePattern :: "jsstring \<Rightarrow> bool" where
  "datePattern s \<longleftrightarrow> date_prefix s \<and> length s = 10"

definition canonicalizeDate :: "JsValue \<Rightarrow> jsstring codec" where
  "canonicalizeDate input =
     rbind (requireString input value_path) (\<lambda>v.
     rbind (guard (datePattern v) (vfail DATE_INVALID)) (\<lambda>_.
     let year = number_at v 0 4; month = number_at v 5 2; day = number_at v 8 2 in
     rbind (guard (\<not> (year < 1 \<or> month < 1 \<or> month > 12 \<or> day < 1 \<or> day > daysInMonth year month)) (vfail DATE_INVALID)) (\<lambda>_.
     Inr v)))"

subsection \<open>Timestamps\<close>

definition microsecondsPerSecond :: int where
  "microsecondsPerSecond = 1000000"

definition microsecondsPerMinute :: int where
  "microsecondsPerMinute = 60 * microsecondsPerSecond"

definition microsecondsPerHour :: int where
  "microsecondsPerHour = 60 * microsecondsPerMinute"

definition microsecondsPerDay :: int where
  "microsecondsPerDay = 24 * microsecondsPerHour"

datatype Zone = ZoneZ | ZoneOffset code_unit int int

record TimestampMatch =
  tm_year :: int
  tm_month :: int
  tm_day :: int
  tm_hour :: int
  tm_minute :: int
  tm_second :: int
  tm_fraction :: "jsstring option"
  tm_zone :: Zone

text \<open>\<open>(Z|([+-])(\d{2}):(\d{2}))$\<close>\<close>

definition zone_match :: "jsstring \<Rightarrow> Zone option" where
  "zone_match z =
     (if z = [90] then Some ZoneZ
      else if length z = 6 \<and> (unit_at z 0 43 \<or> unit_at z 0 45) \<and> digits_at z 1 2 \<and> unit_at z 3 58 \<and> digits_at z 4 2
      then Some (ZoneOffset (hd z) (number_at z 1 2) (number_at z 4 2))
      else None)"

text \<open>
  The groups of \<open>timestampPattern\<close>. The fraction takes all the digits after the dot, since no zone
  starts with a digit.
\<close>

definition timestamp_match :: "jsstring \<Rightarrow> TimestampMatch option" where
  "timestamp_match s =
     (if date_prefix s \<and> unit_at s 10 84 \<and> digits_at s 11 2 \<and> unit_at s 13 58 \<and> digits_at s 14 2 \<and> unit_at s 16 58 \<and> digits_at s 17 2
      then let rest = drop 19 s;
               dotted = (rest \<noteq> [] \<and> hd rest = 46);
               fraction = takeWhile is_digit (tl rest);
               zone = (if dotted then dropWhile is_digit (tl rest) else rest) in
        if dotted \<and> \<not> (1 \<le> length fraction \<and> length fraction \<le> 6) then None
        else case zone_match zone of
            None \<Rightarrow> None
          | Some z \<Rightarrow> Some \<lparr>tm_year = number_at s 0 4, tm_month = number_at s 5 2, tm_day = number_at s 8 2,
              tm_hour = number_at s 11 2, tm_minute = number_at s 14 2, tm_second = number_at s 17 2,
              tm_fraction = (if dotted then Some fraction else None), tm_zone = z\<rparr>
      else None)"

definition formatUtcTimestamp :: "int \<Rightarrow> jsstring codec" where
  "formatUtcTimestamp epochMicroseconds =
     (let days = floorDivide epochMicroseconds microsecondsPerDay;
          dayMicroseconds = epochMicroseconds - days * microsecondsPerDay in
      case civilFromDays days of (year, month, day) \<Rightarrow>
      rbind (guard (\<not> (year < 1 \<or> year > 9999)) (vfail TIMESTAMP_INVALID)) (\<lambda>_.
      let hour = big_div dayMicroseconds microsecondsPerHour;
          afterHour = big_rem dayMicroseconds microsecondsPerHour;
          minute = big_div afterHour microsecondsPerMinute;
          afterMinute = big_rem afterHour microsecondsPerMinute;
          second = big_div afterMinute microsecondsPerSecond;
          fraction = big_rem afterMinute microsecondsPerSecond in
      Inr (pad year 4 @ [45] @ pad month 2 @ [45] @ pad day 2 @ [84] @ pad hour 2 @ [58] @ pad minute 2 @ [58]
        @ pad second 2 @ [46] @ pad fraction 6 @ [90])))"

definition offset_minutes :: "Zone \<Rightarrow> int codec" where
  "offset_minutes z = (case z of
       ZoneZ \<Rightarrow> Inr 0
     | ZoneOffset sign offsetHour offsetMinute \<Rightarrow>
         rbind (guard (\<not> (offsetHour > 14 \<or> offsetMinute > 59 \<or> (offsetHour = 14 \<and> offsetMinute \<noteq> 0)
             \<or> (sign = 45 \<and> offsetHour = 0 \<and> offsetMinute = 0))) (vfail TIMESTAMP_INVALID)) (\<lambda>_.
         Inr ((if sign = 45 then -1 else 1) * (offsetHour * 60 + offsetMinute))))"

definition canonicalizeTimestamp :: "JsValue \<Rightarrow> jsstring codec" where
  "canonicalizeTimestamp input =
     rbind (requireString input value_path) (\<lambda>v.
     case timestamp_match v of
       None \<Rightarrow> Inl (vfail TIMESTAMP_INVALID)
     | Some m \<Rightarrow>
         rbind (guard (\<not> (tm_year m < 1 \<or> tm_month m < 1 \<or> tm_month m > 12 \<or> tm_day m < 1
             \<or> tm_day m > daysInMonth (tm_year m) (tm_month m) \<or> tm_hour m > 23 \<or> tm_minute m > 59 \<or> tm_second m > 59))
           (vfail TIMESTAMP_INVALID)) (\<lambda>_.
         rbind (offset_minutes (tm_zone m)) (\<lambda>offsetMinutes.
         let fraction = (case tm_fraction m of None \<Rightarrow> [] | Some f \<Rightarrow> f);
             microseconds = bigint_of_js (padEnd fraction 6);
             localDays = daysFromCivil (tm_year m) (tm_month m) (tm_day m);
             utcMicroseconds = localDays * microsecondsPerDay + tm_hour m * microsecondsPerHour
               + tm_minute m * microsecondsPerMinute + tm_second m * microsecondsPerSecond
               + microseconds - offsetMinutes * microsecondsPerMinute in
         formatUtcTimestamp utcMicroseconds)))"

definition timestampToEpochMicroseconds :: "jsstring \<Rightarrow> int codec" where
  "timestampToEpochMicroseconds v =
     (case timestamp_match v of
        None \<Rightarrow> Inl (vfail TIMESTAMP_INVALID)
      | Some m \<Rightarrow>
          rbind (guard (tm_zone m = ZoneZ) (vfail TIMESTAMP_INVALID)) (\<lambda>_.
          case tm_fraction m of
            None \<Rightarrow> Inl (vfail TIMESTAMP_INVALID)
          | Some fraction \<Rightarrow>
              Inr (daysFromCivil (tm_year m) (tm_month m) (tm_day m) * microsecondsPerDay
                + tm_hour m * microsecondsPerHour + tm_minute m * microsecondsPerMinute
                + tm_second m * microsecondsPerSecond + bigint_of_js fraction)))"

definition compareCanonicalTimestamps :: "jsstring \<Rightarrow> jsstring \<Rightarrow> int" where
  "compareCanonicalTimestamps left right = (if left < right then -1 else if left > right then 1 else 0)"

subsection \<open>UUIDs\<close>

definition is_hex :: "code_unit \<Rightarrow> bool" where
  "is_hex u \<longleftrightarrow> is_digit u \<or> 97 \<le> u \<and> u \<le> 102 \<or> 65 \<le> u \<and> u \<le> 70"

definition hexes_at :: "jsstring \<Rightarrow> nat \<Rightarrow> nat \<Rightarrow> bool" where
  "hexes_at s i n \<longleftrightarrow> length (take n (drop i s)) = n \<and> list_all is_hex (take n (drop i s))"

definition uuidPattern :: "jsstring \<Rightarrow> bool" where
  "uuidPattern s \<longleftrightarrow> length s = 36 \<and> hexes_at s 0 8 \<and> unit_at s 8 45 \<and> hexes_at s 9 4 \<and> unit_at s 13 45
     \<and> hexes_at s 14 4 \<and> unit_at s 18 45 \<and> hexes_at s 19 4 \<and> unit_at s 23 45 \<and> hexes_at s 24 12"

text \<open>\<open>toLowerCase\<close> on ASCII text.\<close>

definition ascii_lower :: "code_unit \<Rightarrow> code_unit" where
  "ascii_lower u = (if 65 \<le> u \<and> u \<le> 90 then u + 32 else u)"

definition canonicalizeUuid :: "JsValue \<Rightarrow> jsstring codec" where
  "canonicalizeUuid input =
     rbind (requireString input value_path) (\<lambda>v.
     rbind (guard (uuidPattern v) (vfail UUID_INVALID)) (\<lambda>_.
     Inr (map ascii_lower v)))"

end
