(* ===== verification/ValueCalendar.thy ===== *)
theory ValueCalendar
  imports ValueScalars
begin

text \<open>
  The calendar functions. A date is split into years that start in March (\<open>march\<close>), which puts the
  leap day last; \<open>daysFromCivil\<close> and \<open>civilFromDays\<close> are inverse to each other between real Gregorian
  dates and day numbers, and consecutive dates have consecutive numbers.
\<close>

definition real_date :: "int \<Rightarrow> int \<Rightarrow> int \<Rightarrow> bool" where
  "real_date y m d \<longleftrightarrow> 1 \<le> m \<and> m \<le> 12 \<and> 1 \<le> d \<and> d \<le> daysInMonth y m"

lemma div_eqI: "0 < (k :: int) \<Longrightarrow> k * v \<le> x \<Longrightarrow> x < k * v + k \<Longrightarrow> x div k = v"
  by (rule int_div_pos_eq [where r = "x - k * v"]) simp_all

lemma mod_full: "0 < x \<Longrightarrow> x \<le> (k :: int) \<Longrightarrow> x mod k = 0 \<longleftrightarrow> x = k"
  by (cases "x = k") (auto simp: mod_pos_pos_trivial simp del: mod_eq_0_iff_dvd)

subsection \<open>Years of an era\<close>

text \<open>The year of an era by centuries, leap cycles and years of a cycle.\<close>

definition long_year :: "int \<Rightarrow> bool" where
  "long_year yoe \<longleftrightarrow> isLeapYear (yoe + 1)"

definition day_of_era :: "int \<Rightarrow> int \<Rightarrow> int" where
  "day_of_era yoe doy = yoe * 365 + yoe div 4 - yoe div 100 + doy"

definition year_of_era :: "int \<Rightarrow> int" where
  "year_of_era doe = (doe - doe div 1460 + doe div 36524 - doe div 146096) div 365"

lemma split_year:
  fixes c q r :: int
  assumes "0 \<le> c" "c < 4" "0 \<le> q" "q < 25" "0 \<le> r" "r < 4"
  shows "day_of_era (100 * c + 4 * q + r) doy = 36524 * c + 1461 * q + 365 * r + doy"
    and "long_year (100 * c + 4 * q + r) \<longleftrightarrow> r = 3 \<and> (q < 24 \<or> c = 3)"
proof -
  let ?y = "100 * c + 4 * q + r"
  have "?y div 4 = 25 * c + q" by (rule div_eqI) (use assms in auto)
  moreover have "?y div 100 = c" by (rule div_eqI) (use assms in auto)
  ultimately show "day_of_era ?y doy = 36524 * c + 1461 * q + 365 * r + doy" by (simp add: day_of_era_def)
  have m4: "(?y + 1) mod 4 = (r + 1) mod 4"
  proof -
    have "?y + 1 = (r + 1) + (25 * c + q) * 4" by simp
    then show ?thesis by (simp only: mod_mult_self1)
  qed
  have m100: "(?y + 1) mod 100 = 0 \<longleftrightarrow> q = 24 \<and> r = 3"
  proof -
    have "?y + 1 = (4 * q + r + 1) + c * 100" by simp
    then have "(?y + 1) mod 100 = (4 * q + r + 1) mod 100" by (simp only: mod_mult_self1)
    moreover have "(4 * q + r + 1) mod 100 = 0 \<longleftrightarrow> 4 * q + r + 1 = 100" by (rule mod_full) (use assms in auto)
    moreover have "4 * q + r + 1 = 100 \<longleftrightarrow> q = 24 \<and> r = 3" using assms by presburger
    ultimately show ?thesis by simp
  qed
  have m400: "(?y + 1) mod 400 = 0 \<longleftrightarrow> c = 3 \<and> q = 24 \<and> r = 3"
  proof -
    have "(?y + 1) mod 400 = 0 \<longleftrightarrow> ?y + 1 = 400" by (rule mod_full) (use assms in auto)
    moreover have "?y + 1 = 400 \<longleftrightarrow> c = 3 \<and> q = 24 \<and> r = 3" using assms by presburger
    ultimately show ?thesis by simp
  qed
  have "(r + 1) mod 4 = 0 \<longleftrightarrow> r + 1 = 4" by (rule mod_full) (use assms in auto)
  then show "long_year ?y \<longleftrightarrow> r = 3 \<and> (q < 24 \<or> c = 3)"
    using assms m4 m100 m400 unfolding long_year_def isLeapYear_def by auto
qed

lemma split_era_year:
  assumes "0 \<le> yoe" "yoe < 400"
  obtains c q r where "0 \<le> c" "c < 4" "0 \<le> q" "q < 25" "0 \<le> r" "r < 4" "yoe = 100 * c + 4 * q + (r :: int)"
proof
  show "yoe = 100 * (yoe div 100) + 4 * (yoe mod 100 div 4) + yoe mod 100 mod 4" by simp
qed (use assms in \<open>auto simp: div_less_iff_less_mult pos_imp_zdiv_nonneg_iff\<close>)

lemma year_of_era_split:
  assumes c: "0 \<le> c" "c < 4" and q: "0 \<le> q" "q < 25" and r: "0 \<le> r" "r < (4 :: int)"
    and doy: "0 \<le> doy" "doy \<le> 365" and long: "doy = 365 \<Longrightarrow> r = 3 \<and> (q < 24 \<or> c = 3)"
  shows "year_of_era (36524 * c + 1461 * q + 365 * r + doy) = 100 * c + 4 * q + r"
proof -
  define doe where "doe = 36524 * c + 1461 * q + 365 * r + doy"
  define last :: int where "last = (if c = 3 \<and> q = 24 \<and> r = 3 \<and> doy = 365 then 1 else 0)"
  define late :: int where "late = (if 24 * c + q + 365 * r + doy \<ge> 1460 then 1 else 0)"
  consider "doy \<le> 364" | "doy = 365" "r = 3" "q < 24" | "doy = 365" "r = 3" "c = 3" "q = 24"
    using doy long q by linarith
  then have "146096 * last \<le> doe \<and> doe < 146096 * last + 146096 \<and> 36524 * (c + last) \<le> doe \<and> doe < 36524 * (c + last) + 36524"
    by cases (use c q r doy in \<open>auto simp: doe_def last_def split: if_splits\<close>)
  then have d3: "doe div 146096 = last" and d2: "doe div 36524 = c + last"
    by (auto intro!: div_eqI)
  have d1: "doe div 1460 = 25 * c + q + late"
    by (rule div_eqI) (use c q r doy in \<open>auto simp: doe_def late_def split: if_splits\<close>)
  have "0 \<le> doy - late" using r doy q c by (auto simp: late_def split: if_splits)
  moreover have "doy - late < 365"
    using long doy r q c by (cases "doy = 365") (auto simp: late_def)
  ultimately have "(doe - doe div 1460 + doe div 36524 - doe div 146096) div 365 = 100 * c + 4 * q + r"
    unfolding d1 d2 d3 by (intro div_eqI) (auto simp: doe_def)
  then show ?thesis by (simp add: year_of_era_def doe_def)
qed

lemma year_of_era_day:
  assumes "0 \<le> yoe" "yoe < 400" "0 \<le> doy" "doy \<le> (if long_year yoe then 365 else 364)"
  shows "year_of_era (day_of_era yoe doy) = yoe" and "0 \<le> day_of_era yoe doy" and "day_of_era yoe doy < 146097"
proof -
  obtain c q r where s: "0 \<le> c" "c < 4" "0 \<le> q" "q < 25" "0 \<le> r" "r < 4" "yoe = 100 * c + 4 * q + (r :: int)"
    using split_era_year [OF assms(1,2)] .
  note e = split_year [OF s(1-6)]
  have long: "doy = 365 \<Longrightarrow> r = 3 \<and> (q < 24 \<or> c = 3)" and doy: "doy \<le> 365"
    using assms(4) e(2) s(7) by (auto split: if_splits)
  show "year_of_era (day_of_era yoe doy) = yoe"
    unfolding s(7) e(1) by (rule year_of_era_split) (use s assms(3) doy long in auto)
  show "0 \<le> day_of_era yoe doy" "day_of_era yoe doy < 146097"
    unfolding s(7) e(1) using s assms(3) doy long by auto
qed

lemma day_of_era_surj:
  assumes "0 \<le> doe" "doe < (146097 :: int)"
  obtains yoe doy where "0 \<le> yoe" "yoe < 400" "0 \<le> doy" "doy \<le> (if long_year yoe then 365 else 364)" "doe = day_of_era yoe doy"
proof -
  define c where "c = (if doe = 146096 then 3 else doe div 36524)"
  define rest where "rest = doe - 36524 * c"
  define q where "q = rest div 1461"
  define tail where "tail = rest - 1461 * q"
  define r where "r = (if tail = 1460 then 3 else tail div 365)"
  have c: "0 \<le> c" "c < 4" "0 \<le> rest" "rest \<le> 36524" "rest = 36524 \<Longrightarrow> c = 3"
    using assms by (auto simp: c_def rest_def div_less_iff_less_mult pos_imp_zdiv_nonneg_iff
        intro: order.strict_implies_order [OF pos_mod_bound] simp flip: minus_mult_div_eq_mod)
  have q: "0 \<le> q" "q < 25" "0 \<le> tail" "tail \<le> 1460"
    using c(3,4) pos_mod_bound [of 1461 rest]
    by (auto simp: q_def tail_def div_less_iff_less_mult pos_imp_zdiv_nonneg_iff minus_mult_div_eq_mod)
  have r: "0 \<le> r" "r < 4" "0 \<le> tail - 365 * r" "tail - 365 * r \<le> 365" "tail - 365 * r = 365 \<Longrightarrow> tail = 1460"
    using q(3,4) pos_mod_bound [of 365 tail] pos_mod_sign [of 365 tail] minus_mult_div_eq_mod [of tail 365]
    by (auto simp: r_def div_less_iff_less_mult pos_imp_zdiv_nonneg_iff split: if_splits)
  note e = split_year [OF c(1,2) q(1,2) r(1,2)]
  show ?thesis
  proof (rule that)
    show "doe = day_of_era (100 * c + 4 * q + r) (tail - 365 * r)"
      unfolding e(1) by (simp add: tail_def rest_def)
    show "tail - 365 * r \<le> (if long_year (100 * c + 4 * q + r) then 365 else 364)"
    proof (cases "tail - 365 * r = 365")
      case True
      then have "tail = 1460" using r(5) by simp
      then have "r = 3" "rest = 1461 * q + 1460" by (simp_all add: r_def tail_def)
      then have "q < 24 \<or> c = 3" using c(4,5) q(2) by linarith
      with \<open>r = 3\<close> True show ?thesis unfolding e(2) by simp
    next
      case False
      then show ?thesis using r(4) by auto
    qed
  qed (use c q r in auto)
qed

subsection \<open>Months\<close>

definition march_month :: "int \<Rightarrow> int" where
  "march_month m = m + (if m > 2 then -3 else 9)"

definition month_start :: "int \<Rightarrow> int" where
  "month_start mp = (153 * mp + 2) div 5"

lemma twelve: "0 \<le> mp \<Longrightarrow> mp \<le> (11 :: int) \<Longrightarrow> mp \<in> {0, 1, 2, 3, 4, 5, 6, 7, 8, 9, 10, 11}"
  unfolding insert_iff empty_iff by presburger

lemma month_start_values:
  "month_start 0 = 0" "month_start 1 = 31" "month_start 2 = 61" "month_start 3 = 92" "month_start 4 = 122"
  "month_start 5 = 153" "month_start 6 = 184" "month_start 7 = 214" "month_start 8 = 245" "month_start 9 = 275"
  "month_start 10 = 306" "month_start 11 = 337"
  by (simp_all add: month_start_def)

text \<open>Days of the year that starts in March: the month and the day are recovered, and all are reached.\<close>

definition march_length :: "bool \<Rightarrow> int \<Rightarrow> int" where
  "march_length long mp = (if mp = 11 then if long then 29 else 28 else if mp \<in> {1, 3, 6, 8} then 30 else 31)"

lemma month_recovered:
  assumes "0 \<le> mp" "mp \<le> 11" "1 \<le> d" "d \<le> march_length long mp"
  shows "(5 * (month_start mp + d - 1) + 2) div 153 = mp" and "0 \<le> month_start mp + d - 1"
    and "month_start mp + d - 1 \<le> (if long then 365 else 364)"
proof -
  have mp: "mp \<in> {0, 1, 2, 3, 4, 5, 6, 7, 8, 9, 10, 11}" using assms by (intro twelve)
  then show "(5 * (month_start mp + d - 1) + 2) div 153 = mp"
    using assms(3,4) by (intro div_eqI) (auto simp: month_start_values march_length_def split: if_splits)
  show "0 \<le> month_start mp + d - 1" "month_start mp + d - 1 \<le> (if long then 365 else 364)"
    using mp assms(3,4) by (auto simp: month_start_values march_length_def split: if_splits)
qed

lemma month_reached:
  assumes "0 \<le> doy" "doy \<le> (if long then 365 else 364)"
  obtains mp d where "0 \<le> mp" "mp \<le> 11" "1 \<le> d" "d \<le> march_length long mp" "doy = month_start mp + d - 1"
proof -
  consider "doy < 31" | "31 \<le> doy" "doy < 61" | "61 \<le> doy" "doy < 92" | "92 \<le> doy" "doy < 122"
    | "122 \<le> doy" "doy < 153" | "153 \<le> doy" "doy < 184" | "184 \<le> doy" "doy < 214" | "214 \<le> doy" "doy < 245"
    | "245 \<le> doy" "doy < 275" | "275 \<le> doy" "doy < 306" | "306 \<le> doy" "doy < 337" | "337 \<le> doy"
    by linarith
  then have "\<exists>mp. 0 \<le> mp \<and> mp \<le> 11 \<and> month_start mp \<le> doy \<and> doy < month_start mp + march_length long mp"
  proof cases
    case 1
    then show ?thesis using assms by (intro exI [of _ 0]) (simp add: month_start_values march_length_def)
  next
    case 2
    then show ?thesis using assms by (intro exI [of _ 1]) (simp add: month_start_values march_length_def)
  next
    case 3
    then show ?thesis using assms by (intro exI [of _ 2]) (simp add: month_start_values march_length_def)
  next
    case 4
    then show ?thesis using assms by (intro exI [of _ 3]) (simp add: month_start_values march_length_def)
  next
    case 5
    then show ?thesis using assms by (intro exI [of _ 4]) (simp add: month_start_values march_length_def)
  next
    case 6
    then show ?thesis using assms by (intro exI [of _ 5]) (simp add: month_start_values march_length_def)
  next
    case 7
    then show ?thesis using assms by (intro exI [of _ 6]) (simp add: month_start_values march_length_def)
  next
    case 8
    then show ?thesis using assms by (intro exI [of _ 7]) (simp add: month_start_values march_length_def)
  next
    case 9
    then show ?thesis using assms by (intro exI [of _ 8]) (simp add: month_start_values march_length_def)
  next
    case 10
    then show ?thesis using assms by (intro exI [of _ 9]) (simp add: month_start_values march_length_def)
  next
    case 11
    then show ?thesis using assms by (intro exI [of _ 10]) (simp add: month_start_values march_length_def)
  next
    case 12
    then show ?thesis using assms by (intro exI [of _ 11]) (auto simp: month_start_values march_length_def split: if_splits)
  qed
  then obtain mp where "0 \<le> mp" "mp \<le> 11" "month_start mp \<le> doy" "doy < month_start mp + march_length long mp" by blast
  then show ?thesis by (intro that [of mp "doy - month_start mp + 1"]) auto
qed

lemma march_month_range: "1 \<le> m \<Longrightarrow> m \<le> 12 \<Longrightarrow> 0 \<le> march_month m \<and> march_month m \<le> 11"
  by (auto simp: march_month_def)

lemma march_month_back:
  "1 \<le> m \<Longrightarrow> m \<le> 12 \<Longrightarrow> march_month m + (if march_month m < 10 then 3 else -9) = m"
  by (auto simp: march_month_def)

lemma isLeapYear_era: "isLeapYear (y + 400 * era) = isLeapYear y"
proof -
  have "(y + 400 * era) mod 4 = y mod 4" "(y + 400 * era) mod 100 = y mod 100" "(y + 400 * era) mod 400 = y mod 400"
    using mod_mult_self2 [of y 4 "100 * era"] mod_mult_self2 [of y 100 "4 * era"] by (simp_all add: mult.assoc [symmetric])
  then show ?thesis by (simp add: isLeapYear_def)
qed

subsection \<open>Day numbers\<close>

lemma daysFromCivil_march:
  "daysFromCivil y m d = (let Y = y - (if m \<le> 2 then 1 else 0) in
     Y div 400 * 146097 + day_of_era (Y mod 400) (month_start (march_month m) + d - 1) - 719468)"
proof -
  have mod: "Y - Y div 400 * 400 = Y mod 400" for Y :: int by (simp add: minus_div_mult_eq_mod)
  show ?thesis unfolding daysFromCivil_def Let_def day_of_era_def month_start_def march_month_def mod ..
qed

lemma civilFromDays_march:
  assumes "n + 719468 = era * 146097 + day_of_era yoe doy" and "0 \<le> yoe" "yoe < 400"
    and "0 \<le> doy" "doy \<le> (if long_year yoe then 365 else 364)"
  shows "civilFromDays n = (let mp = (5 * doy + 2) div 153; m = mp + (if mp < 10 then 3 else -9) in
    (yoe + era * 400 + (if m \<le> 2 then 1 else 0), m, doy - month_start mp + 1))"
proof -
  note y = year_of_era_day [OF assms(2-5)]
  have era: "(n + 719468) div 146097 = era"
    unfolding assms(1) by (rule div_eqI) (use y in auto)
  have doe: "n + 719468 - era * 146097 = day_of_era yoe doy" using assms(1) by simp
  have civ: "civilFromDays n = (let dayOfEra = day_of_era yoe doy; yearOfEra = year_of_era dayOfEra;
      dayOfYear = dayOfEra - (365 * yearOfEra + yearOfEra div 4 - yearOfEra div 100);
      monthPrime = (5 * dayOfYear + 2) div 153; month = monthPrime + (if monthPrime < 10 then 3 else -9) in
      (yearOfEra + era * 400 + (if month \<le> 2 then 1 else 0), month, dayOfYear - (153 * monthPrime + 2) div 5 + 1))"
    unfolding civilFromDays_def year_of_era_def Let_def era doe ..
  have dy: "day_of_era yoe doy - (365 * yoe + yoe div 4 - yoe div 100) = doy" by (simp add: day_of_era_def)
  show ?thesis unfolding civ Let_def y(1) dy month_start_def ..
qed

lemma daysInMonth_march:
  assumes "1 \<le> m" "m \<le> 12"
  shows "daysInMonth y m = march_length (long_year ((y - (if m \<le> 2 then 1 else 0)) mod 400)) (march_month m)"
proof -
  have "long_year (Y mod 400) = isLeapYear (Y + 1)" for Y
    using isLeapYear_era [of "Y mod 400 + 1" "Y div 400"] by (simp add: long_year_def algebra_simps)
  moreover have "m - 1 \<in> {0, 1, 2, 3, 4, 5, 6, 7, 8, 9, 10, 11}" using assms by (intro twelve) auto
  then have "m = 1 \<or> m = 2 \<or> m = 3 \<or> m = 4 \<or> m = 5 \<or> m = 6 \<or> m = 7 \<or> m = 8 \<or> m = 9 \<or> m = 10 \<or> m = 11 \<or> m = 12" by auto
  ultimately show ?thesis by (elim disjE) (simp_all add: daysInMonth_def march_length_def march_month_def)
qed

lemma civil_days_civil:
  assumes "real_date y m d"
  shows "civilFromDays (daysFromCivil y m d) = (y, m, d)"
proof -
  define Y where "Y = y - (if m \<le> 2 then 1 else 0)"
  define mp where "mp = march_month m"
  have m: "1 \<le> m" "m \<le> 12" and d: "1 \<le> d" "d \<le> march_length (long_year (Y mod 400)) mp"
    using assms by (auto simp: real_date_def daysInMonth_march Y_def mp_def)
  have mp: "0 \<le> mp" "mp \<le> 11" using march_month_range [OF m] by (auto simp: mp_def)
  note rec = month_recovered [OF mp d]
  have n: "daysFromCivil y m d + 719468 = Y div 400 * 146097 + day_of_era (Y mod 400) (month_start mp + d - 1)"
    by (simp add: daysFromCivil_march Let_def Y_def mp_def)
  have "Y mod 400 + Y div 400 * 400 = Y" by simp
  then show ?thesis
    using civilFromDays_march [OF n _ _ rec(2,3)] rec(1) march_month_back [OF m]
    by (simp add: Let_def mp_def Y_def)
qed

text \<open>Every day number is that of a real date.\<close>

lemma civil_surj: "\<exists>y m d. real_date y m d \<and> daysFromCivil y m d = n"
proof -
  let ?era = "(n + 719468) div 146097" and ?doe = "(n + 719468) mod 146097"
  have "0 \<le> ?doe" "?doe < 146097" by simp_all
  then obtain yoe doy where y: "0 \<le> yoe" "yoe < 400" "0 \<le> doy" "doy \<le> (if long_year yoe then 365 else 364)"
      "?doe = day_of_era yoe doy"
    by (rule day_of_era_surj)
  obtain mp d where mp: "0 \<le> mp" "mp \<le> 11" "1 \<le> d" "d \<le> march_length (long_year yoe) mp" "doy = month_start mp + d - 1"
    using month_reached [OF y(3,4)] .
  define m where "m = mp + (if mp < 10 then 3 else -9)"
  define Y where "Y = yoe + ?era * 400"
  have m: "1 \<le> m" "m \<le> 12" "march_month m = mp" using mp(1,2) by (auto simp: m_def march_month_def)
  have Y: "Y mod 400 = yoe" "Y div 400 = ?era"
    using y(1,2) div_eqI [of 400 ?era "yoe + ?era * 400"] by (auto simp: Y_def mod_pos_pos_trivial)
  have "real_date (Y + (if m \<le> 2 then 1 else 0)) m d"
    using m mp Y by (simp add: real_date_def daysInMonth_march)
  moreover have "n + 719468 = ?era * 146097 + ?doe" by (rule div_mult_mod_eq [symmetric])
  then have "daysFromCivil (Y + (if m \<le> 2 then 1 else 0)) m d = n"
    using m(3) mp(5) y(5) Y by (simp add: daysFromCivil_march Let_def)
  ultimately show ?thesis by blast
qed

lemma days_civil_days:
  assumes "civilFromDays n = (y, m, d)"
  shows "real_date y m d" and "daysFromCivil y m d = n"
proof -
  obtain y' m' d' where c: "real_date y' m' d'" "daysFromCivil y' m' d' = n" using civil_surj by blast
  then have "(y', m', d') = (y, m, d)" using civil_days_civil [OF c(1)] assms by simp
  with c show "real_date y m d" "daysFromCivil y m d = n" by simp_all
qed

subsection \<open>Consecutive days\<close>

definition next_date :: "int \<times> int \<times> int \<Rightarrow> int \<times> int \<times> int" where
  "next_date = (\<lambda>(y, m, d). if d < daysInMonth y m then (y, m, d + 1) else if m < 12 then (y, m + 1, 1) else (y + 1, 1, 1))"

lemma year_days:
  fixes Y :: int
  shows "(Y + 1) div 400 * 146097 + day_of_era ((Y + 1) mod 400) 0
    = Y div 400 * 146097 + day_of_era (Y mod 400) (if long_year (Y mod 400) then 366 else 365)"
proof -
  let ?y = "Y mod 400"
  have "0 \<le> ?y" "?y < 400" by simp_all
  then obtain c q r where s: "0 \<le> c" "c < 4" "0 \<le> q" "q < 25" "0 \<le> r" "r < 4" "?y = 100 * c + 4 * q + (r :: int)"
    by (rule split_era_year)
  note e = split_year [OF s(1-6)]
  have Y: "Y = Y div 400 * 400 + ?y" by simp
  have d: "day_of_era ?y x = 36524 * c + 1461 * q + 365 * r + x" for x unfolding s(7) by (rule e(1))
  have long: "long_year ?y \<longleftrightarrow> r = 3 \<and> (q < 24 \<or> c = 3)" unfolding s(7) by (rule e(2))
  consider "r < 3" | "r = 3" "q < 24" | "r = 3" "q = 24" "c < 3" | "r = 3" "q = 24" "c = 3" using s by linarith
  then show ?thesis
  proof cases
    case 1
    have "(Y + 1) div 400 = Y div 400" "(Y + 1) mod 400 = 100 * c + 4 * q + (r + 1)"
      using Y s 1 div_eqI [of 400 "Y div 400" "Y + 1"] by (auto simp: minus_mult_div_eq_mod [symmetric])
    then show ?thesis unfolding d long using s 1 split_year(1) [of c q "r + 1"] by simp
  next
    case 2
    have "(Y + 1) div 400 = Y div 400" "(Y + 1) mod 400 = 100 * c + 4 * (q + 1) + 0"
      using Y s 2 div_eqI [of 400 "Y div 400" "Y + 1"] by (auto simp: minus_mult_div_eq_mod [symmetric])
    then show ?thesis unfolding d long using s 2 split_year(1) [of c "q + 1" 0] by simp
  next
    case 3
    have "(Y + 1) div 400 = Y div 400" "(Y + 1) mod 400 = 100 * (c + 1) + 4 * 0 + 0"
      using Y s 3 div_eqI [of 400 "Y div 400" "Y + 1"] by (auto simp: minus_mult_div_eq_mod [symmetric])
    then show ?thesis unfolding d long using s 3 split_year(1) [of "c + 1" 0 0] by simp
  next
    case 4
    have "(Y + 1) div 400 = Y div 400 + 1" "(Y + 1) mod 400 = 100 * 0 + 4 * 0 + 0"
      using Y s 4 div_eqI [of 400 "Y div 400 + 1" "Y + 1"] by (auto simp: minus_mult_div_eq_mod [symmetric])
    then show ?thesis unfolding d long using s 4 split_year(1) [of 0 0 0] by simp
  qed
qed

text \<open>The number of the first day of a year that starts in March, up to a constant.\<close>

definition march_year :: "int \<Rightarrow> int" where
  "march_year Y = Y div 400 * 146097 + day_of_era (Y mod 400) 0"

lemma day_of_era_base: "day_of_era yoe doy = day_of_era yoe 0 + doy"
  by (simp add: day_of_era_def)

lemma daysFromCivil_year:
  "daysFromCivil y m d = march_year (y - (if m \<le> 2 then 1 else 0)) + (month_start (march_month m) + d - 1) - 719468"
  unfolding daysFromCivil_march march_year_def Let_def
  by (subst day_of_era_base) (simp only: add.assoc add_diff_eq [symmetric])

lemma march_year_Suc: "march_year (Y + 1) = march_year Y + (if long_year (Y mod 400) then 366 else 365)"
  using year_days [of Y] unfolding march_year_def
  by (subst (asm) (2) day_of_era_base) linarith

lemma march_year_mono: "Y \<le> Z \<Longrightarrow> march_year Y \<le> march_year Z"
proof (induction Z rule: int_ge_induct)
  case (step Z)
  then show ?case using march_year_Suc [of Z] by (auto split: if_splits)
qed simp

lemma day_of_year_range:
  assumes "real_date y m d"
  defines "Y \<equiv> y - (if m \<le> 2 then 1 else 0)"
  shows "0 \<le> month_start (march_month m) + d - 1"
    and "month_start (march_month m) + d - 1 \<le> (if long_year (Y mod 400) then 365 else 364)"
    and "d \<le> march_length (long_year (Y mod 400)) (march_month m)"
proof -
  have m: "1 \<le> m" "m \<le> 12" and d: "1 \<le> d" "d \<le> march_length (long_year (Y mod 400)) (march_month m)"
    using assms by (auto simp: real_date_def daysInMonth_march)
  have mp: "0 \<le> march_month m" "march_month m \<le> 11" using march_month_range [OF m] by auto
  show "0 \<le> month_start (march_month m) + d - 1"
    "month_start (march_month m) + d - 1 \<le> (if long_year (Y mod 400) then 365 else 364)"
    using month_recovered(2,3) [OF mp d] by simp_all
  show "d \<le> march_length (long_year (Y mod 400)) (march_month m)" by (rule d(2))
qed

lemma month_start_next: "0 \<le> mp \<Longrightarrow> mp < 11 \<Longrightarrow> month_start (mp + 1) = month_start mp + march_length long mp"
  using twelve [of mp] by (auto simp: month_start_values march_length_def)

lemma month_start_mono: "mp \<le> mp' \<Longrightarrow> month_start mp \<le> month_start mp'"
  unfolding month_start_def by (rule zdiv_mono1) simp_all

text \<open>The day after a real date is a real date with the next number.\<close>

lemma next_date_days:
  assumes real: "real_date y m d" and "next_date (y, m, d) = (y', m', d')"
  shows "real_date y' m' d' \<and> daysFromCivil y' m' d' = daysFromCivil y m d + 1"
proof -
  have m: "1 \<le> m" "m \<le> 12" and d: "1 \<le> d" "d \<le> daysInMonth y m" using real by (auto simp: real_date_def)
  have one: "1 \<le> daysInMonth x k" for x k by (simp add: daysInMonth_def)
  define Y where "Y = y - (if m \<le> 2 then 1 else 0)"
  show ?thesis
  proof (cases "d < daysInMonth y m")
    case True
    then show ?thesis using assms(2) m d by (auto simp: next_date_def real_date_def daysFromCivil_year)
  next
    case False
    then have end_of: "d = march_length (long_year (Y mod 400)) (march_month m)"
      using d(2) daysInMonth_march [OF m, of y] by (simp add: Y_def)
    consider "m = 12" | "m = 2" | "m < 12" "m \<noteq> 2" using m by linarith
    then show ?thesis
    proof cases
      case 1
      then have "(y', m', d') = (y + 1, 1, 1)" using assms(2) False by (simp add: next_date_def)
      moreover have "month_start 10 = month_start 9 + d" using end_of 1 by (simp add: month_start_values march_length_def march_month_def)
      ultimately show ?thesis using 1 one by (simp add: real_date_def daysFromCivil_year march_month_def)
    next
      case 2
      then have n: "(y', m', d') = (y, 3, 1)" using assms(2) False by (simp add: next_date_def)
      have "march_year y = march_year (y - 1) + (if long_year ((y - 1) mod 400) then 366 else 365)"
        using march_year_Suc [of "y - 1"] by simp
      then show ?thesis
        using n 2 one end_of by (simp add: real_date_def daysFromCivil_year march_month_def march_length_def Y_def month_start_values)
    next
      case 3
      then have n: "(y', m', d') = (y, m + 1, 1)" using assms(2) False by (simp add: next_date_def)
      have "march_month (m + 1) = march_month m + 1" "0 \<le> march_month m" "march_month m < 11"
        "(m + 1 \<le> 2) = (m \<le> 2)" using 3 m by (auto simp: march_month_def)
      then show ?thesis
        using n 3 m one end_of month_start_next [of "march_month m" "long_year (Y mod 400)"]
        by (simp add: real_date_def daysFromCivil_year)
    qed
  qed
qed

text \<open>Later dates have larger numbers.\<close>

lemma daysFromCivil_less:
  assumes r: "real_date y m d" "real_date y' m' d'"
    and less: "y < y' \<or> y = y' \<and> (m < m' \<or> m = m' \<and> d < d')"
  shows "daysFromCivil y m d < daysFromCivil y' m' d'"
proof -
  define Y Y' where "Y = y - (if m \<le> 2 then 1 else 0)" and "Y' = y' - (if m' \<le> 2 then 1 else 0)"
  have m: "1 \<le> m" "m \<le> 12" "1 \<le> m'" "m' \<le> 12" using r by (auto simp: real_date_def)
  note a = day_of_year_range [OF r(1), folded Y_def] and b = day_of_year_range [OF r(2), folded Y'_def]
  have d: "1 \<le> d" "1 \<le> d'" using r by (auto simp: real_date_def)
  have n: "daysFromCivil y m d = march_year Y + (month_start (march_month m) + d - 1) - 719468"
    "daysFromCivil y' m' d' = march_year Y' + (month_start (march_month m') + d' - 1) - 719468"
    by (simp_all add: daysFromCivil_year Y_def Y'_def)
  have "Y < Y' \<or> Y = Y' \<and> (march_month m < march_month m' \<or> march_month m = march_month m' \<and> d < d')"
    using less m by (auto simp: Y_def Y'_def march_month_def split: if_splits)
  then show ?thesis
  proof (elim disjE conjE)
    assume "Y < Y'"
    then have "march_year (Y + 1) \<le> march_year Y'" by (intro march_year_mono) simp
    then show ?thesis using a(2) b(1) march_year_Suc [of Y] unfolding n by (auto split: if_splits)
  next
    assume Y: "Y = Y'" and mm: "march_month m < march_month m'"
    have "0 \<le> march_month m" "march_month m < 11" using mm march_month_range [OF m(3,4)] march_month_range [OF m(1,2)] by auto
    then have "month_start (march_month m) + d \<le> month_start (march_month m + 1)"
      using a(3) month_start_next [of "march_month m" "long_year (Y mod 400)"] by simp
    also have "\<dots> \<le> month_start (march_month m')" using mm by (intro month_start_mono) simp
    finally show ?thesis using d unfolding n Y by simp
  next
    assume "Y = Y'" "march_month m = march_month m'" "d < d'"
    then show ?thesis unfolding n by simp
  qed
qed

end
