(* ===== verification/ValueTime.thy ===== *)
theory ValueTime
  imports ValueCalendar
begin

text \<open>
  Fixed-width numbers, and timestamps as text: formatting an instant and reading it back, and the
  order of canonical texts.
\<close>

subsection \<open>Fixed-width numbers\<close>

lemma bigint_of_js_Nil [simp]: "bigint_of_js [] = 0"
  by (simp add: bigint_of_js_def)

lemma bigint_of_js_snoc: "bigint_of_js (s @ [u]) = 10 * bigint_of_js s + (uint u - 48)"
  by (simp add: bigint_of_js_def)

lemma bigint_of_js_append: "bigint_of_js (s @ t) = bigint_of_js s * 10 ^ length t + bigint_of_js t"
proof (induction t rule: rev_induct)
  case (snoc u t)
  have "bigint_of_js (s @ t @ [u]) = 10 * bigint_of_js (s @ t) + (uint u - 48)"
    using bigint_of_js_snoc [of "s @ t" u] by simp
  with snoc show ?case by (simp add: bigint_of_js_snoc algebra_simps)
qed simp

lemma bigint_of_js_Cons: "bigint_of_js (u # t) = (uint u - 48) * 10 ^ length t + bigint_of_js t"
  using bigint_of_js_append [of "[u]" t] bigint_of_js_snoc [of "[]" u] by simp

lemma is_digit_uint: "is_digit u \<longleftrightarrow> 48 \<le> uint u \<and> uint u \<le> 57"
  by (simp add: is_digit_def word_le_def)

lemma bigint_of_js_range:
  assumes "list_all is_digit s"
  shows "0 \<le> bigint_of_js s" and "bigint_of_js s < 10 ^ length s"
proof -
  have "0 \<le> bigint_of_js s \<and> bigint_of_js s < 10 ^ length s"
    using assms
  proof (induction s)
    case (Cons u s)
    then have "0 \<le> uint u - 48" "uint u - 48 \<le> 9" by (auto simp: is_digit_uint)
    then have "(uint u - 48) * 10 ^ length s \<le> 9 * 10 ^ length s" "0 \<le> (uint u - 48) * 10 ^ length s"
      by (auto intro: mult_right_mono simp del: mult_le_cancel_right)
    moreover have "0 \<le> bigint_of_js s" "bigint_of_js s < 10 ^ length s" using Cons by auto
    ultimately have "0 \<le> (uint u - 48) * 10 ^ length s + bigint_of_js s
        \<and> (uint u - 48) * 10 ^ length s + bigint_of_js s < 10 * 10 ^ length s" by linarith
    then show ?case unfolding bigint_of_js_Cons by simp
  qed simp
  then show "0 \<le> bigint_of_js s" "bigint_of_js s < 10 ^ length s" by simp_all
qed

text \<open>Among digit strings of one length the order of the strings is the order of the numbers.\<close>

lemma digits_less_iff:
  assumes "list_all is_digit s" "list_all is_digit t" "length s = length t"
  shows "s < t \<longleftrightarrow> bigint_of_js s < bigint_of_js t" and "s = t \<longleftrightarrow> bigint_of_js s = bigint_of_js t"
proof -
  have "(s < t \<longleftrightarrow> bigint_of_js s < bigint_of_js t) \<and> (s = t \<longleftrightarrow> bigint_of_js s = bigint_of_js t)"
    using assms(3,1,2)
  proof (induction s t rule: list_induct2)
    case (Cons u s v t)
    have r: "0 \<le> bigint_of_js s" "bigint_of_js s < 10 ^ length t" "0 \<le> bigint_of_js t" "bigint_of_js t < 10 ^ length t"
      using bigint_of_js_range [of s] bigint_of_js_range [of t] Cons by auto
    have less: "a * 10 ^ length t + x < b * 10 ^ length t + y"
      if "a < b" "x < 10 ^ length t" "0 \<le> y" for a b x y :: int
    proof -
      have "(a + 1) * 10 ^ length t \<le> b * 10 ^ length t" using that(1) by (intro mult_right_mono) auto
      with that(2,3) show ?thesis by (simp add: algebra_simps)
    qed
    have uv: "u < v \<longleftrightarrow> uint u < uint v" "u = v \<longleftrightarrow> uint u = uint v" by (simp_all add: word_less_def word_uint_eq_iff)
    show ?case
    proof (cases "uint u" "uint v" rule: linorder_cases)
      case less': less
      then have "bigint_of_js (u # s) < bigint_of_js (v # t)"
        using less [of "uint u - 48" "uint v - 48" "bigint_of_js s" "bigint_of_js t"] r Cons(1) by (simp add: bigint_of_js_Cons)
      with less' show ?thesis by (auto simp: uv)
    next
      case equal
      then show ?thesis using Cons by (auto simp: bigint_of_js_Cons uv)
    next
      case greater
      then have "bigint_of_js (v # t) < bigint_of_js (u # s)"
        using less [of "uint v - 48" "uint u - 48" "bigint_of_js t" "bigint_of_js s"] r Cons(1) by (simp add: bigint_of_js_Cons)
      with greater show ?thesis by (auto simp: uv)
    qed
  qed simp
  then show "s < t \<longleftrightarrow> bigint_of_js s < bigint_of_js t" "s = t \<longleftrightarrow> bigint_of_js s = bigint_of_js t" by simp_all
qed

lemma append_less_iff:
  fixes s t x y :: jsstring
  assumes "length s = length t"
  shows "s @ x < t @ y \<longleftrightarrow> s < t \<or> s = t \<and> x < y"
  using assms by (induction s t rule: list_induct2) auto

lemma length_js_of_nat: "n < 10 ^ k \<Longrightarrow> 0 < k \<Longrightarrow> length (js_of_nat n) \<le> k"
proof (induction k arbitrary: n)
  case (Suc k)
  show ?case
  proof (cases "n < 10")
    case True
    then show ?thesis by (simp add: js_of_nat_rec [of n])
  next
    case False
    with Suc.prems have "n div 10 < 10 ^ k" "0 < k" by (auto intro: Nat.gr0I)
    then have "length (js_of_nat (n div 10)) \<le> k" by (rule Suc.IH)
    with False show ?thesis by (simp add: js_of_nat_rec [of n])
  qed
qed simp

lemma bigint_zeros: "bigint_of_js (replicate k 48 @ s) = bigint_of_js s"
  by (induction k) (auto simp: bigint_of_js_Cons)

lemma pad_props:
  assumes "0 \<le> v" "v < 10 ^ w" "0 < w"
  shows "length (pad v w) = w" "list_all is_digit (pad v w)" "bigint_of_js (pad v w) = v"
proof -
  have "length (js_of_int v) \<le> w"
    using assms length_js_of_nat [of "nat v" w] by (simp add: js_of_int_def nat_less_iff)
  then show "length (pad v w) = w" by (simp add: pad_def Let_def)
  have "is_digit 48" by (simp add: is_digit_def)
  then show "list_all is_digit (pad v w)"
    using assms js_of_nat_digits by (auto simp: pad_def Let_def list_all_iff js_of_int_def)
  show "bigint_of_js (pad v w) = v" using assms by (simp add: pad_def Let_def bigint_zeros)
qed

lemma pad_inverse: "list_all is_digit s \<Longrightarrow> s \<noteq> [] \<Longrightarrow> pad (bigint_of_js s) (length s) = s"
  using pad_props [of "bigint_of_js s" "length s"] bigint_of_js_range [of s]
    digits_less_iff(2) [of "pad (bigint_of_js s) (length s)" s] by simp

subsection \<open>Division\<close>

lemma big_div_nonneg: "0 \<le> a \<Longrightarrow> 0 < b \<Longrightarrow> big_div a b = a div b"
  by (auto simp: big_div_def sgn_if)

lemma big_rem_nonneg: "0 \<le> a \<Longrightarrow> 0 < b \<Longrightarrow> big_rem a b = a mod b"
  by (simp add: big_rem_def big_div_nonneg minus_div_mult_eq_mod)

lemma floorDivide_eq: "0 < b \<Longrightarrow> floorDivide a b = a div b"
proof (cases "0 \<le> a")
  case True
  then show "0 < b \<Longrightarrow> ?thesis" by (simp add: floorDivide_def big_div_nonneg big_rem_nonneg Let_def not_less)
next
  case False
  assume b: "0 < b"
  define n where "n = - a"
  have n: "0 < n" "a = - n" using False by (auto simp: n_def)
  have q: "big_div a b = - (n div b)" using b n by (simp add: big_div_def)
  have r: "big_rem a b = - (n mod b)" using q n by (simp add: big_rem_def minus_mult_div_eq_mod [symmetric] mult.commute)
  have "0 \<le> n mod b" using b by simp
  moreover have "a div b = (if n mod b = 0 then - (n div b) else - (n div b) - 1)"
    using zdiv_zminus1_eq_if [of b n] b by (simp add: n(2))
  ultimately show ?thesis unfolding floorDivide_def Let_def q r by auto
qed

subsection \<open>Formatting\<close>

definition clock_micros :: "int \<Rightarrow> int \<Rightarrow> int \<Rightarrow> int \<Rightarrow> int" where
  "clock_micros h mi s f = h * microsecondsPerHour + mi * microsecondsPerMinute + s * microsecondsPerSecond + f"

definition utc_text :: "int \<Rightarrow> int \<Rightarrow> int \<Rightarrow> int \<Rightarrow> int \<Rightarrow> int \<Rightarrow> int \<Rightarrow> jsstring" where
  "utc_text y m d h mi s f = pad y 4 @ [45] @ pad m 2 @ [45] @ pad d 2 @ [84] @ pad h 2 @ [58] @ pad mi 2 @ [58]
     @ pad s 2 @ [46] @ pad f 6 @ [90]"

definition utc_fields :: "int \<Rightarrow> int \<Rightarrow> int \<Rightarrow> int \<Rightarrow> int \<Rightarrow> int \<Rightarrow> int \<Rightarrow> bool" where
  "utc_fields y m d h mi s f \<longleftrightarrow> 1 \<le> y \<and> y \<le> 9999 \<and> real_date y m d \<and> 0 \<le> h \<and> h \<le> 23 \<and> 0 \<le> mi \<and> mi \<le> 59
     \<and> 0 \<le> s \<and> s \<le> 59 \<and> 0 \<le> f \<and> f < 1000000"

lemmas micros_defs = microsecondsPerDay_def microsecondsPerHour_def microsecondsPerMinute_def microsecondsPerSecond_def

lemma clock_micros_range:
  "utc_fields y m d h mi s f \<Longrightarrow> 0 \<le> clock_micros h mi s f \<and> clock_micros h mi s f < microsecondsPerDay"
  by (auto simp: utc_fields_def clock_micros_def micros_defs)

text \<open>Formatting splits an instant into fields that determine it.\<close>

lemma formatUtcTimestamp_fields:
  assumes "formatUtcTimestamp e = Inr t"
  obtains y m d h mi s f where "t = utc_text y m d h mi s f" "utc_fields y m d h mi s f"
    "e = daysFromCivil y m d * microsecondsPerDay + clock_micros h mi s f"
proof -
  obtain y m d where c: "civilFromDays (e div microsecondsPerDay) = (y, m, d)" by (cases "civilFromDays (e div microsecondsPerDay)")
  define r where "r = e mod microsecondsPerDay"
  have day: "floorDivide e microsecondsPerDay = e div microsecondsPerDay" by (rule floorDivide_eq) (simp add: micros_defs)
  have rest: "e - e div microsecondsPerDay * microsecondsPerDay = r" by (simp add: r_def minus_div_mult_eq_mod)
  have r: "0 \<le> r" "r < microsecondsPerDay" by (simp_all add: r_def micros_defs)
  define h a where "h = r div microsecondsPerHour" and "a = r mod microsecondsPerHour"
  define mi b where "mi = a div microsecondsPerMinute" and "b = a mod microsecondsPerMinute"
  define s f where "s = b div microsecondsPerSecond" and "f = b mod microsecondsPerSecond"
  have nonneg: "0 \<le> a" "0 \<le> b" "0 \<le> f" by (simp_all add: a_def b_def f_def micros_defs)
  have divs: "big_div r microsecondsPerHour = h" "big_rem r microsecondsPerHour = a" "big_div a microsecondsPerMinute = mi"
      "big_rem a microsecondsPerMinute = b" "big_div b microsecondsPerSecond = s" "big_rem b microsecondsPerSecond = f"
    using r nonneg by (simp_all add: big_div_nonneg big_rem_nonneg h_def a_def mi_def b_def s_def f_def micros_defs)
  from assms have y: "1 \<le> y" "y \<le> 9999" and t: "t = utc_text y m d h mi s f"
    unfolding formatUtcTimestamp_def Let_def day c rest divs by (auto simp: utc_text_def)
  have upper: "h < 24" "a < 3600000000" "mi < 60" "b < 60000000" "s < 60" "f < 1000000"
    using r(2) by (auto simp: h_def a_def mi_def b_def s_def f_def micros_defs div_less_iff_less_mult pos_mod_bound)
  have lower: "0 \<le> h" "0 \<le> mi" "0 \<le> s"
    using r(1) nonneg by (auto simp: h_def mi_def s_def micros_defs pos_imp_zdiv_nonneg_iff)
  have "clock_micros h mi s f = r"
    by (simp add: clock_micros_def h_def mi_def s_def f_def b_def a_def)
  then have "e = daysFromCivil y m d * microsecondsPerDay + clock_micros h mi s f"
    using days_civil_days(2) [OF c] by (simp add: r_def)
  then show ?thesis
    using t y upper lower nonneg days_civil_days(1) [OF c] by (intro that) (auto simp: utc_fields_def)
qed

lemma formatUtcTimestamp_of_fields:
  assumes "utc_fields y m d h mi s f"
  shows "formatUtcTimestamp (daysFromCivil y m d * microsecondsPerDay + clock_micros h mi s f) = Inr (utc_text y m d h mi s f)"
proof -
  let ?c = "clock_micros h mi s f" and ?e = "daysFromCivil y m d * microsecondsPerDay + clock_micros h mi s f"
  have c: "0 \<le> ?c" "?c < microsecondsPerDay" using clock_micros_range [OF assms] by auto
  have day: "floorDivide ?e microsecondsPerDay = daysFromCivil y m d"
    using c by (subst floorDivide_eq) (auto simp: micros_defs intro!: div_eqI)
  have civ: "civilFromDays (daysFromCivil y m d) = (y, m, d)"
    using assms by (intro civil_days_civil) (simp add: utc_fields_def)
  have rest: "?e - daysFromCivil y m d * microsecondsPerDay = ?c" by simp
  define a b where "a = mi * microsecondsPerMinute + s * microsecondsPerSecond + f" and "b = s * microsecondsPerSecond + f"
  have ab: "0 \<le> a" "a < microsecondsPerHour" "0 \<le> b" "b < microsecondsPerMinute" "0 \<le> f" "f < microsecondsPerSecond"
    using assms by (auto simp: a_def b_def utc_fields_def micros_defs)
  have "?c div microsecondsPerHour = h" "a div microsecondsPerMinute = mi" "b div microsecondsPerSecond = s"
    using ab by (auto intro!: div_eqI simp: clock_micros_def a_def b_def micros_defs)
  moreover have "?c - h * microsecondsPerHour = a" "a - mi * microsecondsPerMinute = b" "b - s * microsecondsPerSecond = f"
    by (simp_all add: clock_micros_def a_def b_def)
  ultimately have divs: "big_div ?c microsecondsPerHour = h" "big_rem ?c microsecondsPerHour = a" "big_div a microsecondsPerMinute = mi"
      "big_rem a microsecondsPerMinute = b" "big_div b microsecondsPerSecond = s" "big_rem b microsecondsPerSecond = f"
    using c ab by (simp_all add: big_rem_def big_div_nonneg micros_defs)
  show ?thesis
    unfolding formatUtcTimestamp_def Let_def day civ rest divs using assms by (simp add: utc_text_def utc_fields_def)
qed

subsection \<open>Reading back\<close>

lemma length2E:
  assumes "length s = 2" obtains a b where "s = [a, b]"
  using assms by (auto simp: numeral_2_eq_2 length_Suc_conv)

lemma length4E:
  assumes "length s = 4" obtains a b c d where "s = [a, b, c, d]"
proof -
  have "length s = Suc (Suc (Suc (Suc 0)))" using assms by simp
  then show ?thesis using that by (auto simp: length_Suc_conv)
qed

text \<open>The groups of a text of the canonical shape.\<close>

lemma timestamp_match_shape:
  assumes "length y = 4" "length m = 2" "length d = 2" "length h = 2" "length mi = 2" "length s = 2" "length f = 6"
    and dig: "list_all is_digit y" "list_all is_digit m" "list_all is_digit d" "list_all is_digit h" "list_all is_digit mi"
      "list_all is_digit s" "list_all is_digit f"
  shows "timestamp_match (y @ [45] @ m @ [45] @ d @ [84] @ h @ [58] @ mi @ [58] @ s @ [46] @ f @ [90]) =
    Some \<lparr>tm_year = bigint_of_js y, tm_month = bigint_of_js m, tm_day = bigint_of_js d, tm_hour = bigint_of_js h,
      tm_minute = bigint_of_js mi, tm_second = bigint_of_js s, tm_fraction = Some f, tm_zone = ZoneZ\<rparr>"
proof -
  obtain y1 y2 y3 y4 where y: "y = [y1, y2, y3, y4]" using assms(1) by (rule length4E)
  obtain m1 m2 where m: "m = [m1, m2]" using assms(2) by (rule length2E)
  obtain d1 d2 where d: "d = [d1, d2]" using assms(3) by (rule length2E)
  obtain h1 h2 where h: "h = [h1, h2]" using assms(4) by (rule length2E)
  obtain i1 i2 where i: "mi = [i1, i2]" using assms(5) by (rule length2E)
  obtain s1 s2 where s: "s = [s1, s2]" using assms(6) by (rule length2E)
  have z: "\<not> is_digit 90" by (simp add: is_digit_def)
  have fr: "takeWhile is_digit (f @ [90]) = f" "dropWhile is_digit (f @ [90]) = [90]"
    using dig(7) z by (auto simp: takeWhile_append2 dropWhile_append2 list_all_iff)
  show ?thesis
    using dig assms(7)
    by (simp add: timestamp_match_def date_prefix_def digits_at_def unit_at_def number_at_def y m d h i s fr zone_match_def Let_def)
qed

lemma utc_pads:
  assumes "utc_fields y m d h mi s f"
  shows "length (pad y 4) = 4" "length (pad m 2) = 2" "length (pad d 2) = 2" "length (pad h 2) = 2"
    "length (pad mi 2) = 2" "length (pad s 2) = 2" "length (pad f 6) = 6"
    "list_all is_digit (pad y 4)" "list_all is_digit (pad m 2)" "list_all is_digit (pad d 2)" "list_all is_digit (pad h 2)"
    "list_all is_digit (pad mi 2)" "list_all is_digit (pad s 2)" "list_all is_digit (pad f 6)"
    "bigint_of_js (pad y 4) = y" "bigint_of_js (pad m 2) = m" "bigint_of_js (pad d 2) = d" "bigint_of_js (pad h 2) = h"
    "bigint_of_js (pad mi 2) = mi" "bigint_of_js (pad s 2) = s" "bigint_of_js (pad f 6) = f"
proof -
  have "d \<le> 31" using assms by (auto simp: utc_fields_def real_date_def daysInMonth_def split: if_splits)
  then have r: "0 \<le> y" "y < 10 ^ 4" "0 \<le> m" "m < 10 ^ 2" "0 \<le> d" "d < 10 ^ 2" "0 \<le> h" "h < 10 ^ 2" "0 \<le> mi" "mi < 10 ^ 2"
      "0 \<le> s" "s < 10 ^ 2" "0 \<le> f" "f < 10 ^ 6"
    using assms by (auto simp: utc_fields_def real_date_def)
  note p = pad_props [OF r(1,2), simplified] pad_props [OF r(3,4), simplified] pad_props [OF r(5,6), simplified]
    pad_props [OF r(7,8), simplified] pad_props [OF r(9,10), simplified] pad_props [OF r(11,12), simplified]
    pad_props [OF r(13,14), simplified]
  show "length (pad y 4) = 4" "length (pad m 2) = 2" "length (pad d 2) = 2" "length (pad h 2) = 2"
    "length (pad mi 2) = 2" "length (pad s 2) = 2" "length (pad f 6) = 6"
    "list_all is_digit (pad y 4)" "list_all is_digit (pad m 2)" "list_all is_digit (pad d 2)" "list_all is_digit (pad h 2)"
    "list_all is_digit (pad mi 2)" "list_all is_digit (pad s 2)" "list_all is_digit (pad f 6)"
    "bigint_of_js (pad y 4) = y" "bigint_of_js (pad m 2) = m" "bigint_of_js (pad d 2) = d" "bigint_of_js (pad h 2) = h"
    "bigint_of_js (pad mi 2) = mi" "bigint_of_js (pad s 2) = s" "bigint_of_js (pad f 6) = f"
    using p by simp_all
qed

lemma timestamp_match_utc:
  assumes "utc_fields y m d h mi s f"
  shows "timestamp_match (utc_text y m d h mi s f) = Some \<lparr>tm_year = y, tm_month = m, tm_day = d, tm_hour = h,
      tm_minute = mi, tm_second = s, tm_fraction = Some (pad f 6), tm_zone = ZoneZ\<rparr>"
  unfolding utc_text_def
  using timestamp_match_shape [OF utc_pads(1-14) [OF assms]] unfolding utc_pads(15-20) [OF assms] .

lemma timestampToEpoch_utc:
  assumes "utc_fields y m d h mi s f"
  shows "timestampToEpochMicroseconds (utc_text y m d h mi s f) =
    Inr (daysFromCivil y m d * microsecondsPerDay + clock_micros h mi s f)"
  using utc_pads(21) [OF assms]
  by (simp add: timestampToEpochMicroseconds_def timestamp_match_utc [OF assms] clock_micros_def)

subsection \<open>Plain texts\<close>

lemma plain_wf: "\<forall>u\<in>set s. 0 < uint u \<and> uint u < 0xD800 \<Longrightarrow> isWellFormed s \<and> 0 \<notin> set s"
proof -
  assume plain: "\<forall>u\<in>set s. 0 < uint u \<and> uint u < 0xD800"
  then have "0 \<notin> set s" by force
  moreover have "isWellFormed s"
  proof (rule isWellFormed_plain, rule ballI)
    fix u assume "u \<in> set s"
    then have "int (unat u) < 0xD800" using plain by simp
    then show "unat u < 0xD800" by linarith
  qed
  ultimately show ?thesis by simp
qed

lemma digits_plain: "list_all is_digit s \<Longrightarrow> u \<in> set s \<Longrightarrow> 0 < uint u \<and> uint u < 0xD800"
  by (auto simp: list_all_iff is_digit_uint)

lemma requireString_utc:
  assumes "utc_fields y m d h mi s f"
  shows "requireString (JsString (utc_text y m d h mi s f)) p = Inr (utc_text y m d h mi s f)"
proof -
  have "\<forall>u\<in>set (utc_text y m d h mi s f). 0 < uint u \<and> uint u < 0xD800"
    using utc_pads(8-14) [OF assms, THEN digits_plain] by (auto simp: utc_text_def)
  then show ?thesis by (simp add: requireString_Inr plain_wf)
qed

text \<open>Canonical texts are kept.\<close>

lemma canonicalizeTimestamp_utc:
  assumes "utc_fields y m d h mi s f"
  shows "canonicalizeTimestamp (JsString (utc_text y m d h mi s f)) = Inr (utc_text y m d h mi s f)"
proof -
  have "padEnd (pad f 6) 6 = pad f 6" using utc_pads(7) [OF assms] by (simp add: padEnd_def)
  then have "canonicalizeTimestamp (JsString (utc_text y m d h mi s f)) =
      formatUtcTimestamp (daysFromCivil y m d * microsecondsPerDay + clock_micros h mi s f)"
    using assms utc_pads(21) [OF assms]
    by (auto simp: canonicalizeTimestamp_def requireString_utc timestamp_match_utc offset_minutes_def Let_def
        clock_micros_def utc_fields_def real_date_def guard_def algebra_simps)
  then show ?thesis by (simp add: formatUtcTimestamp_of_fields [OF assms])
qed

text \<open>The instant that the groups of a timestamp stand for.\<close>

definition match_instant :: "TimestampMatch \<Rightarrow> int \<Rightarrow> int" where
  "match_instant m offsetMinutes = daysFromCivil (tm_year m) (tm_month m) (tm_day m) * microsecondsPerDay
     + tm_hour m * microsecondsPerHour + tm_minute m * microsecondsPerMinute + tm_second m * microsecondsPerSecond
     + bigint_of_js (padEnd (case tm_fraction m of None \<Rightarrow> [] | Some f \<Rightarrow> f) 6) - offsetMinutes * microsecondsPerMinute"

definition match_valid :: "TimestampMatch \<Rightarrow> bool" where
  "match_valid m \<longleftrightarrow> 1 \<le> tm_year m \<and> real_date (tm_year m) (tm_month m) (tm_day m)
     \<and> tm_hour m \<le> 23 \<and> tm_minute m \<le> 59 \<and> tm_second m \<le> 59"

lemma canonicalizeTimestamp_Inr:
  "canonicalizeTimestamp input = Inr t \<longleftrightarrow>
     (\<exists>v m off. requireString input value_path = Inr v \<and> timestamp_match v = Some m \<and> match_valid m
        \<and> offset_minutes (tm_zone m) = Inr off \<and> formatUtcTimestamp (match_instant m off) = Inr t)"
proof (cases "requireString input value_path")
  case (Inl e)
  then show ?thesis by (simp add: canonicalizeTimestamp_def)
next
  case (Inr v)
  have valid: "(\<not> (tm_year m < 1 \<or> tm_month m < 1 \<or> tm_month m > 12 \<or> tm_day m < 1
      \<or> tm_day m > daysInMonth (tm_year m) (tm_month m) \<or> tm_hour m > 23 \<or> tm_minute m > 59 \<or> tm_second m > 59))
      \<longleftrightarrow> match_valid m" for m :: TimestampMatch
    by (auto simp: match_valid_def real_date_def)
  show ?thesis
    unfolding canonicalizeTimestamp_def Inr rbind_Inr Let_def valid match_instant_def [symmetric]
    by (cases "timestamp_match v") auto
qed

lemma canonicalizeTimestamp_cases:
  assumes "canonicalizeTimestamp input = Inr t"
  obtains y m d h mi s f where "t = utc_text y m d h mi s f" "utc_fields y m d h mi s f"
proof -
  obtain e where "formatUtcTimestamp e = Inr t" using assms unfolding canonicalizeTimestamp_Inr by blast
  then show ?thesis by (rule formatUtcTimestamp_fields) (rule that)
qed

subsection \<open>Order\<close>

lemma pad_compare:
  assumes "length (pad a w) = length (pad b w)" "list_all is_digit (pad a w)" "list_all is_digit (pad b w)"
    and "bigint_of_js (pad a w) = a" "bigint_of_js (pad b w) = b"
  shows "pad a w @ x < pad b w @ y \<longleftrightarrow> a < b \<or> a = b \<and> x < y"
  using append_less_iff [OF assms(1)] digits_less_iff [OF assms(2,3,1)] assms(4,5) by auto

lemma utc_text_less:
  assumes a: "utc_fields y m d h mi s f" and b: "utc_fields y' m' d' h' mi' s' f'"
  shows "utc_text y m d h mi s f < utc_text y' m' d' h' mi' s' f' \<longleftrightarrow>
    y < y' \<or> y = y' \<and> (m < m' \<or> m = m' \<and> (d < d' \<or> d = d' \<and> (h < h' \<or> h = h' \<and>
      (mi < mi' \<or> mi = mi' \<and> (s < s' \<or> s = s' \<and> f < f')))))"
proof -
  note pa = utc_pads [OF a] and pb = utc_pads [OF b]
  have cmp: "pad y 4 @ x < pad y' 4 @ z \<longleftrightarrow> y < y' \<or> y = y' \<and> x < z"
    "pad m 2 @ x < pad m' 2 @ z \<longleftrightarrow> m < m' \<or> m = m' \<and> x < z"
    "pad d 2 @ x < pad d' 2 @ z \<longleftrightarrow> d < d' \<or> d = d' \<and> x < z"
    "pad h 2 @ x < pad h' 2 @ z \<longleftrightarrow> h < h' \<or> h = h' \<and> x < z"
    "pad mi 2 @ x < pad mi' 2 @ z \<longleftrightarrow> mi < mi' \<or> mi = mi' \<and> x < z"
    "pad s 2 @ x < pad s' 2 @ z \<longleftrightarrow> s < s' \<or> s = s' \<and> x < z"
    "pad f 6 @ x < pad f' 6 @ z \<longleftrightarrow> f < f' \<or> f = f' \<and> x < z" for x z
    by (rule pad_compare; simp only: pa pb)+
  show ?thesis unfolding utc_text_def cmp by (simp add: cmp)
qed

lemma clock_micros_less:
  assumes a: "utc_fields y m d h mi s f" and b: "utc_fields y' m' d' h' mi' s' f'"
  shows "clock_micros h mi s f < clock_micros h' mi' s' f' \<longleftrightarrow>
    h < h' \<or> h = h' \<and> (mi < mi' \<or> mi = mi' \<and> (s < s' \<or> s = s' \<and> f < f'))"
  using assms by (cases h h' rule: linorder_cases; cases mi mi' rule: linorder_cases; cases s s' rule: linorder_cases)
     (auto simp: clock_micros_def micros_defs utc_fields_def)

text \<open>The order of canonical texts is the order of the instants.\<close>

lemma utc_text_less_instant:
  assumes a: "utc_fields y m d h mi s f" and b: "utc_fields y' m' d' h' mi' s' f'"
  shows "utc_text y m d h mi s f < utc_text y' m' d' h' mi' s' f' \<longleftrightarrow>
    daysFromCivil y m d * microsecondsPerDay + clock_micros h mi s f
      < daysFromCivil y' m' d' * microsecondsPerDay + clock_micros h' mi' s' f'"
proof -
  let ?n = "daysFromCivil y m d" and ?n' = "daysFromCivil y' m' d'"
  let ?less = "y < y' \<or> y = y' \<and> (m < m' \<or> m = m' \<and> d < d')"
    and ?more = "y' < y \<or> y' = y \<and> (m' < m \<or> m' = m \<and> d' < d)"
  have r: "real_date y m d" "real_date y' m' d'" using a b by (auto simp: utc_fields_def)
  have c: "0 \<le> clock_micros h mi s f" "clock_micros h mi s f < microsecondsPerDay"
      "0 \<le> clock_micros h' mi' s' f'" "clock_micros h' mi' s' f' < microsecondsPerDay"
    using clock_micros_range [OF a] clock_micros_range [OF b] by auto
  have step: "p < q \<Longrightarrow> p * microsecondsPerDay + microsecondsPerDay \<le> q * microsecondsPerDay" for p q
    by (simp add: micros_defs)
  consider (less) ?less | (more) ?more | (same) "y = y'" "m = m'" "d = d'" by fastforce
  then show ?thesis
  proof cases
    case less
    then have "?n < ?n'" by (rule daysFromCivil_less [OF r])
    then show ?thesis using less c step [of ?n ?n'] unfolding utc_text_less [OF a b] by auto
  next
    case more
    then have "?n' < ?n" by (rule daysFromCivil_less [OF r(2,1)])
    then show ?thesis using more c step [of ?n' ?n] unfolding utc_text_less [OF a b] by auto
  next
    case same
    then show ?thesis unfolding utc_text_less [OF a b] by (simp add: clock_micros_less [OF a b])
  qed
qed

end
