(* ===== verification/ValueNumbers.thy ===== *)
theory ValueNumbers
  imports ValueTime
begin

text \<open>
  Integers and decimals as text: the canonical text of a number is the one a reference printer gives,
  so it determines the number, fits the format, and is a fixed point.
\<close>

subsection \<open>Naturals as text\<close>

lemma natural_text_digits: "natural_text s \<Longrightarrow> list_all is_digit s"
  by (simp add: natural_text_def)

lemma natural_text_print: "natural_text s \<Longrightarrow> js_of_int (bigint_of_js s) = s"
proof -
  assume s: "natural_text s"
  then have d: "\<forall>u\<in>set s. is_digit u" by (simp add: natural_text_def list_all_iff)
  then have "js_of_int (bigint_of_js s) = js_of_nat (nat_of_js s)" by (simp add: bigint_of_js_nat js_of_int_def)
  also have "\<dots> = s" using s d by (intro js_of_nat_of_js) (auto simp: natural_text_def)
  finally show ?thesis .
qed

lemma print_natural_text: "0 \<le> i \<Longrightarrow> natural_text (js_of_int i)"
proof -
  assume i: "0 \<le> i"
  have "hd (js_of_nat n) \<noteq> 48 \<or> js_of_nat n = [48]" for n
    using js_of_nat_hd [of n] by (cases "n = 0") (auto simp: js_of_nat_rec digit_unit_def)
  then show ?thesis
    using i js_of_nat_digits [of _ "nat i"] by (auto simp: natural_text_def js_of_int_def list_all_iff)
qed

lemma natural_text_zero: "natural_text s \<Longrightarrow> bigint_of_js s = 0 \<longleftrightarrow> s = [48]"
  using natural_text_print [of s] by (auto simp: bigint_of_js_Cons js_of_int_def js_of_nat_rec digit_unit_def)

lemma digits_not_minus: "list_all is_digit s \<Longrightarrow> s \<noteq> [] \<Longrightarrow> hd s \<noteq> 45"
  by (cases s) (auto simp: is_digit_def)

lemma natural_not_minus: "natural_text s \<Longrightarrow> \<not> starts_minus (s @ t)"
  using digits_not_minus [of s] by (auto simp: natural_text_def starts_minus_def)

lemma big_int_sign:
  "natural_text s \<Longrightarrow> big_int (45 # s) = - bigint_of_js s" "natural_text s \<Longrightarrow> big_int s = bigint_of_js s"
  using natural_not_minus [of s "[]"] by (auto simp: big_int_def starts_minus_def natural_text_def)

subsection \<open>Integers\<close>

lemma js_of_int_minus: "i < 0 \<Longrightarrow> js_of_int i = 45 # js_of_int (- i)"
  by (simp add: js_of_int_def)

lemma big_int_print: "integerPattern (js_of_int i) \<and> big_int (js_of_int i) = i"
proof (cases "i < 0")
  case True
  then have "natural_text (js_of_int (- i))" by (intro print_natural_text) simp
  with True show ?thesis
    unfolding js_of_int_minus [OF True]
    by (simp add: integerPattern_def strip_minus_def starts_minus_def big_int_sign)
next
  case False
  then have n: "natural_text (js_of_int i)" by (intro print_natural_text) simp
  with natural_not_minus [OF n, of "[]"] False show ?thesis
    by (simp add: integerPattern_def strip_minus_def big_int_sign)
qed

lemma print_plain: "isWellFormed (js_of_int i) \<and> 0 \<notin> set (js_of_int i)"
proof (rule plain_wf)
  have nonneg: "\<forall>u\<in>set (js_of_int k). 0 < uint u \<and> uint u < 0xD800" if "0 \<le> k" for k
    using digits_plain [OF natural_text_digits [OF print_natural_text [OF that]]] by blast
  show "\<forall>u\<in>set (js_of_int i). 0 < uint u \<and> uint u < 0xD800"
  proof (cases "i < 0")
    case True
    then show ?thesis using nonneg [of "- i"] unfolding js_of_int_minus [OF True] by simp
  next
    case False
    then show ?thesis by (intro nonneg) simp
  qed
qed

lemma canonicalizeInteger_Inr:
  "canonicalizeInteger input = Inr t \<longleftrightarrow>
     (\<exists>v. requireString input value_path = Inr v \<and> integerPattern v
        \<and> INTEGER_MINIMUM \<le> big_int v \<and> big_int v \<le> INTEGER_MAXIMUM \<and> t = js_of_int (big_int v))"
  by (auto simp: canonicalizeInteger_def Let_def)

subsection \<open>Decimals\<close>

text \<open>The text of \<open>u\<close> units of \<open>10\<^sup>-\<^sup>s\<close>.\<close>

definition decimal_text :: "nat \<Rightarrow> int \<Rightarrow> jsstring" where
  "decimal_text s u = (if u < 0 then [45] else []) @ js_of_int (\<bar>u\<bar> div 10 ^ s)
     @ (if s = 0 then [] else 46 # pad (\<bar>u\<bar> mod 10 ^ s) s)"

text \<open>The parts of a text that the pattern accepts.\<close>

lemma digits_no_dot: "list_all is_digit s \<Longrightarrow> 46 \<notin> set s"
  by (auto simp: list_all_iff is_digit_def)

lemma decimal_parts:
  assumes "decimalPattern v"
  obtains ip fp where "natural_text ip" "list_all is_digit fp"
    "v = (if starts_minus v then [45] else []) @ ip @ (if 46 \<in> set v then 46 # fp else [])"
    "before_dot (strip_minus v) = ip" "after_dot (strip_minus v) = fp" "46 \<in> set v \<or> fp = []"
proof -
  let ?u = "strip_minus v"
  have v: "v = (if starts_minus v then [45] else []) @ ?u"
    by (cases v) (auto simp: strip_minus_def starts_minus_def)
  have dot: "46 \<in> set v \<longleftrightarrow> 46 \<in> set ?u" by (cases v) (auto simp: strip_minus_def starts_minus_def)
  have ip: "natural_text (before_dot ?u)"
    and fp: "46 \<in> set ?u \<Longrightarrow> list_all is_digit (after_dot ?u)"
    using assms by (auto simp: decimalPattern_def Let_def)
  have none: "46 \<notin> set ?u \<Longrightarrow> before_dot ?u = ?u \<and> after_dot ?u = []"
  proof -
    assume "46 \<notin> set ?u"
    then have d: "dropWhile (\<lambda>x. x \<noteq> 46) ?u = []" "takeWhile (\<lambda>x. x \<noteq> 46) ?u = ?u"
      by (auto simp: dropWhile_eq_Nil_conv takeWhile_eq_all_conv)
    show ?thesis unfolding before_dot_def after_dot_def d by simp
  qed
  have some: "46 \<in> set ?u \<Longrightarrow> ?u = before_dot ?u @ 46 # after_dot ?u"
  proof -
    assume m: "46 \<in> set ?u"
    then have ne: "dropWhile (\<lambda>x. x \<noteq> 46) ?u \<noteq> []" by (auto simp: dropWhile_eq_Nil_conv)
    then have "hd (dropWhile (\<lambda>x. x \<noteq> 46) ?u) = 46" using hd_dropWhile [OF ne] by simp
    with ne have "dropWhile (\<lambda>x. x \<noteq> 46) ?u = 46 # after_dot ?u"
      by (cases "dropWhile (\<lambda>x. x \<noteq> 46) ?u") (simp_all add: after_dot_def)
    then show ?thesis using takeWhile_dropWhile_id [of "\<lambda>x. x \<noteq> 46" ?u] by (simp add: before_dot_def)
  qed
  show ?thesis
  proof (rule that [OF ip])
    show "list_all is_digit (after_dot ?u)" using fp none by (cases "46 \<in> set ?u") auto
    show "v = (if starts_minus v then [45] else []) @ before_dot ?u @ (if 46 \<in> set v then 46 # after_dot ?u else [])"
    proof (cases "46 \<in> set ?u")
      case True
      show ?thesis by (rule trans [OF v]) (use dot True some [OF True] in simp)
    next
      case False
      show ?thesis by (rule trans [OF v]) (use dot False none [OF False] in simp)
    qed
  qed (use none dot in auto)
qed

text \<open>The number that sign, integer part and fraction stand for.\<close>

lemma unscaled_parts:
  assumes ip: "natural_text ip" and fp: "list_all is_digit fp"
    and t: "t = (if neg then [45] else []) @ ip @ (if dot then 46 # fp else [])" and "dot \<or> fp = []"
  shows "decimalToUnscaled t = (if neg then -1 else 1) * (bigint_of_js ip * 10 ^ length fp + bigint_of_js fp)"
    and "fractionalDigits t = length fp"
proof -
  have no: "46 \<notin> set ip" "46 \<notin> set fp" using ip fp by (auto dest: natural_text_digits digits_no_dot)
  have "remove1 46 t = (if neg then [45] else []) @ ip @ fp"
    using no assms(4) by (cases dot; cases neg) (auto simp: t remove1_append remove1_idem)
  moreover have "\<not> starts_minus (ip @ fp)" using ip by (rule natural_not_minus)
  ultimately show "decimalToUnscaled t = (if neg then -1 else 1) * (bigint_of_js ip * 10 ^ length fp + bigint_of_js fp)"
    by (auto simp: decimalToUnscaled_def big_int_def starts_minus_def bigint_of_js_append)
  have "before_dot ((if neg then [45] else []) @ ip @ 46 # fp) = (if neg then [45] else []) @ ip"
  proof -
    have "takeWhile (\<lambda>u. u \<noteq> 46) (x @ 46 # fp) = x" if "46 \<notin> set x" for x using that by (induction x) auto
    from this [of ip] this [of "45 # ip"] show ?thesis using no by (simp add: before_dot_def)
  qed
  then show "fractionalDigits t = length fp"
    using no assms(4) by (cases dot; cases neg) (auto simp: t fractionalDigits_def)
qed

lemma padEnd_value: "length s \<le> n \<Longrightarrow> bigint_of_js (padEnd s n) = bigint_of_js s * 10 ^ (n - length s)"
proof -
  have "bigint_of_js (replicate k 48) = 0" for k by (induction k) (auto simp: bigint_of_js_Cons)
  then show "length s \<le> n \<Longrightarrow> ?thesis" by (simp add: padEnd_def bigint_of_js_append)
qed

lemma padEnd_digits: "list_all is_digit s \<Longrightarrow> list_all is_digit (padEnd s n)"
  by (auto simp: padEnd_def list_all_iff is_digit_def)

lemma length_padEnd: "length s \<le> n \<Longrightarrow> length (padEnd s n) = n"
  by (simp add: padEnd_def)

lemma digits_zero: "list_all is_digit s \<Longrightarrow> bigint_of_js s = 0 \<longleftrightarrow> \<not> list_ex (\<lambda>u. 49 \<le> u \<and> u \<le> 57) s"
proof (induction s)
  case (Cons u s)
  have d: "is_digit u" "list_all is_digit s" using Cons.prems by simp_all
  have r: "0 \<le> bigint_of_js s" "48 \<le> uint u" "uint u \<le> 57"
    using bigint_of_js_range [OF d(2)] d(1) by (simp_all add: is_digit_uint)
  have "(49 \<le> u \<and> u \<le> 57) \<longleftrightarrow> uint u \<noteq> 48" using r by (auto simp: word_le_def)
  moreover have "(uint u - 48) * 10 ^ length s + bigint_of_js s = 0 \<longleftrightarrow> uint u = 48 \<and> bigint_of_js s = 0"
    using r by (smt (verit) mult_eq_0_iff mult_nonneg_nonneg power_not_zero zero_le_power)
  ultimately show ?case using Cons.IH [OF d(2)] by (auto simp: bigint_of_js_Cons)
qed simp

text \<open>What the canonical text is.\<close>

lemma canonical_decimal_print:
  assumes ip: "natural_text ip" and pf: "list_all is_digit pf" "length pf = s"
    and zero: "isZero \<longleftrightarrow> ip = [48] \<and> \<not> list_ex (\<lambda>u. 49 \<le> u \<and> u \<le> 57) pf"
    and u_def: "u = (if neg then -1 else 1) * (bigint_of_js ip * 10 ^ s + bigint_of_js pf)"
  shows "(if neg \<and> \<not> isZero then [45] else []) @ ip @ (if s = 0 then [] else 46 # pf) = decimal_text s u"
proof -
  have r: "0 \<le> bigint_of_js ip" "0 \<le> bigint_of_js pf" "bigint_of_js pf < 10 ^ s"
    using bigint_of_js_range [OF natural_text_digits [OF ip]] bigint_of_js_range [OF pf(1)] pf(2) by auto
  let ?a = "bigint_of_js ip * 10 ^ s + bigint_of_js pf"
  have a: "0 \<le> ?a" using r by simp
  then have abs: "\<bar>u\<bar> = ?a" by (simp add: u_def)
  have "?a = 0 \<longleftrightarrow> bigint_of_js ip = 0 \<and> bigint_of_js pf = 0"
    using r by (smt (verit) mult_eq_0_iff mult_nonneg_nonneg power_not_zero zero_le_power)
  then have "?a = 0 \<longleftrightarrow> isZero" using zero natural_text_zero [OF ip] digits_zero [OF pf(1)] by simp
  then have sign: "u < 0 \<longleftrightarrow> neg \<and> \<not> isZero" using a by (auto simp: u_def)
  have "?a div 10 ^ s = bigint_of_js ip" "?a mod 10 ^ s = bigint_of_js pf" using r by simp_all
  then show ?thesis
    using natural_text_print [OF ip] pad_inverse [OF pf(1)] pf(2)
    by (cases "s = 0") (auto simp: decimal_text_def sign abs)
qed

lemma canonicalizeDecimal_Inr:
  assumes "canonicalizeDecimal input f = Inr t"
  obtains v where "requireString input value_path = Inr v" "decimalPattern v" "validateDecimalFormat f = Inr ()"
    "fractionalDigits v \<le> nat (scale f)"
    "t = decimal_text (nat (scale f)) (decimalToUnscaled v * 10 ^ (nat (scale f) - fractionalDigits v))"
    "\<bar>decimalToUnscaled v * 10 ^ (nat (scale f) - fractionalDigits v)\<bar> < 10 ^ nat (precision f)"
proof -
  from assms obtain v where v: "requireString input value_path = Inr v" "decimalPattern v" "validateDecimalFormat f = Inr ()"
    by (auto simp: canonicalizeDecimal_def)
  have fmt: "0 \<le> scale f" "scale f \<le> precision f" using v(3) by (auto simp: validateDecimalFormat_def)
  obtain ip fp where p: "natural_text ip" "list_all is_digit fp"
      "v = (if starts_minus v then [45] else []) @ ip @ (if 46 \<in> set v then 46 # fp else [])"
      "before_dot (strip_minus v) = ip" "after_dot (strip_minus v) = fp" "46 \<in> set v \<or> fp = []"
    using v(2) by (rule decimal_parts)
  define s where "s = nat (scale f)"
  have s: "scale f = int s" using fmt(1) by (simp add: s_def)
  let ?pad = "padEnd (after_dot (strip_minus v)) (nat (scale f))"
  from assms v have h: "\<not> (int (length (after_dot (strip_minus v))) > scale f \<or>
        (if before_dot (strip_minus v) = [48] then 0 else int (length (before_dot (strip_minus v)))) > precision f - scale f)"
      and t0: "t = (if starts_minus v \<and> \<not> (before_dot (strip_minus v) = [48] \<and> \<not> list_ex (\<lambda>u. 49 \<le> u \<and> u \<le> 57) ?pad) then [45] else [])
        @ before_dot (strip_minus v) @ (if scale f = 0 then [] else 46 # ?pad)"
    unfolding canonicalizeDecimal_def Let_def by (simp_all only: rbind_Inr rbind_eq_Inr_iff guard_eq_Inr_iff Inr_inject, auto)
  have lens: "length fp \<le> s" "(if ip = [48] then 0 else int (length ip)) \<le> precision f - scale f"
    and t: "t = (if starts_minus v \<and> \<not> (ip = [48] \<and> \<not> list_ex (\<lambda>u. 49 \<le> u \<and> u \<le> 57) (padEnd fp s)) then [45] else [])
        @ ip @ (if s = 0 then [] else 46 # padEnd fp s)"
    using h t0 unfolding p(4,5) s_def [symmetric] by (auto simp: s)
  note u = unscaled_parts [OF p(1,2,3,6)]
  let ?n = "decimalToUnscaled v * 10 ^ (s - fractionalDigits v)"
  have pow: "10 ^ length fp * 10 ^ (s - length fp) = (10 :: int) ^ s"
    using lens(1) by (simp add: power_add [symmetric])
  have n: "?n = (if starts_minus v then -1 else 1) * (bigint_of_js ip * 10 ^ s + bigint_of_js (padEnd fp s))"
    using pow by (simp add: u padEnd_value [OF lens(1)] algebra_simps)
  have pf: "list_all is_digit (padEnd fp s)" "length (padEnd fp s) = s"
    using padEnd_digits [OF p(2)] length_padEnd [OF lens(1)] by simp_all
  have "t = decimal_text s ?n"
    unfolding t n by (rule canonical_decimal_print [OF p(1) pf refl refl])
  moreover have "\<bar>?n\<bar> < 10 ^ nat (precision f)"
  proof -
    let ?k = "if ip = [48] then 0 else length ip"
    have "bigint_of_js ip < 10 ^ ?k"
      using bigint_of_js_range [OF natural_text_digits [OF p(1)]] by (auto simp: bigint_of_js_Cons)
    moreover have "0 \<le> bigint_of_js ip" using bigint_of_js_range [OF natural_text_digits [OF p(1)]] by simp
    moreover note bigint_of_js_range [OF pf(1), unfolded pf(2)]
    ultimately have "bigint_of_js ip * 10 ^ s + bigint_of_js (padEnd fp s) < 10 ^ ?k * 10 ^ s"
      and nonneg: "0 \<le> bigint_of_js ip * 10 ^ s + bigint_of_js (padEnd fp s)"
      using mult_right_mono [of "bigint_of_js ip + 1" "10 ^ ?k" "10 ^ s"] by (auto simp: algebra_simps)
    note this(1)
    also have "(10 :: int) ^ ?k * 10 ^ s = 10 ^ (?k + s)" by (simp add: power_add)
    also have "\<dots> \<le> 10 ^ nat (precision f)"
      using lens(2) s by (intro power_increasing) (auto split: if_splits)
    finally show ?thesis using nonneg by (simp add: n abs_mult)
  qed
  ultimately show ?thesis using v lens(1) u(2) by (intro that) (auto simp: s_def)
qed

end
