(* ===== verification/ValueJson.thy ===== *)
theory ValueJson
  imports ValueNumbers
begin

text \<open>
  Restricted JSON (\<open>packages/value-codec/src/json.ts\<close>): one canonical text per value, written under
  limits on bytes, depth and nodes that are checked as the text grows. Arrays have no holes here.
  \<open>parseCanonicalJson\<close> is \<open>JSON.parse\<close> on canonical texts, which have no white space.
\<close>

record RestrictedJsonOptions =
  jo_maximumBytes :: "int option"
  jo_maximumDepth :: "int option"
  jo_maximumNodes :: "int option"

record TraversalState =
  ts_bytes :: int
  ts_nodes :: int
  ts_maximumBytes :: int
  ts_maximumDepth :: int
  ts_maximumNodes :: int

definition DEFAULT_JSON_MAX_BYTES :: int where
  "DEFAULT_JSON_MAX_BYTES = 1024 * 1024"

definition DEFAULT_JSON_MAXIMUM_DEPTH :: int where
  "DEFAULT_JSON_MAXIMUM_DEPTH = 64"

definition DEFAULT_JSON_MAXIMUM_NODES :: int where
  "DEFAULT_JSON_MAXIMUM_NODES = 100000"

definition validateLimit :: "int \<Rightarrow> unit codec" where
  "validateLimit v = guard (isSafeInteger v \<and> \<not> v < 1) (vfail JSON_VALUE_INVALID)"

abbreviation json_fail :: "jsstring \<Rightarrow> ValueCodecError" where
  "json_fail path \<equiv> ValueCodecError JSON_VALUE_INVALID path"

definition emit :: "jsstring \<Rightarrow> jsstring \<Rightarrow> TraversalState \<Rightarrow> TraversalState codec" where
  "emit fragment path st =
     (let st = st\<lparr>ts_bytes := ts_bytes st + int (utf8ByteLength fragment)\<rparr> in
      rbind (guard (\<not> ts_bytes st > ts_maximumBytes st) (json_fail path)) (\<lambda>_. Inr st))"

text \<open>The text ECMAScript prints for a number that has one without an exponent.\<close>

definition fraction_text :: "bool \<Rightarrow> nat \<Rightarrow> nat \<Rightarrow> nat list \<Rightarrow> jsstring" where
  "fraction_text negative n d ds =
     (if negative then [45] else []) @ js_of_nat n @ 46 # map (\<lambda>d. digit_unit (d mod 10)) (d # ds)"

definition canonicalizeJsonNumber :: "JsNumber \<Rightarrow> jsstring \<Rightarrow> jsstring codec" where
  "canonicalizeJsonNumber input path = (case input of
       NotFinite \<Rightarrow> Inl (json_fail path)
     | IntegerNumber n \<Rightarrow> if \<not> isSafeInteger n then Inl (json_fail path) else Inr (js_of_int n)
     | NegativeZero \<Rightarrow> Inr (js ''0'')
     | FractionNumber negative n d ds \<Rightarrow> Inr (fraction_text negative n d ds)
     | ExponentNumber \<Rightarrow> Inl (json_fail path))"

definition member_order :: "(jsstring \<times> JsValue) \<Rightarrow> (jsstring \<times> JsValue) \<Rightarrow> int" where
  "member_order a b = compareUtf8 (fst a) (fst b)"

definition sorted_members :: "(jsstring \<times> JsValue) list \<Rightarrow> (jsstring \<times> JsValue) list" where
  "sorted_members ms = js_sort member_order ms"

definition index_path :: "jsstring \<Rightarrow> nat \<Rightarrow> jsstring" where
  "index_path path i = path @ [91] @ js_of_int (int i) @ [93]"

definition member_path :: "jsstring \<Rightarrow> jsstring \<Rightarrow> jsstring" where
  "member_path path key = path @ [46] @ key"

definition key_path :: "jsstring \<Rightarrow> jsstring" where
  "key_path path = path @ js ''.[key]''"

text \<open>The two checks at the start of every node.\<close>

definition enter_node :: "jsstring \<Rightarrow> int \<Rightarrow> TraversalState \<Rightarrow> TraversalState codec" where
  "enter_node path depth st =
     (let st = st\<lparr>ts_nodes := ts_nodes st + 1\<rparr> in
      rbind (guard (\<not> ts_nodes st > ts_maximumNodes st) (json_fail path)) (\<lambda>_.
      rbind (guard (\<not> depth > ts_maximumDepth st) (json_fail path)) (\<lambda>_. Inr st)))"

definition emit_text :: "jsstring \<Rightarrow> jsstring \<Rightarrow> TraversalState \<Rightarrow> (jsstring \<times> TraversalState) codec" where
  "emit_text t path st = rbind (emit t path st) (\<lambda>st. Inr (t, st))"

lemma size_list_insort: "size_list f (js_insort c x xs) = Suc (f x + size_list f xs)"
  by (induction xs) auto

lemma size_list_js_sort: "size_list f (js_sort c xs) = size_list f xs"
  by (induction xs) (auto simp: js_sort_Cons size_list_insort)

function (sequential) canonicalJsonFragment :: "JsValue \<Rightarrow> jsstring \<Rightarrow> int \<Rightarrow> TraversalState \<Rightarrow> (jsstring \<times> TraversalState) codec"
  and json_items :: "JsValue list \<Rightarrow> nat \<Rightarrow> jsstring \<Rightarrow> int \<Rightarrow> TraversalState \<Rightarrow> (jsstring list \<times> TraversalState) codec"
  and json_members :: "(jsstring \<times> JsValue) list \<Rightarrow> nat \<Rightarrow> jsstring \<Rightarrow> int \<Rightarrow> TraversalState \<Rightarrow> (jsstring list \<times> TraversalState) codec" where
  "canonicalJsonFragment input path depth st =
     rbind (enter_node path depth st) (\<lambda>st.
     case input of
       JsNull \<Rightarrow> emit_text (js ''null'') path st
     | JsBoolean b \<Rightarrow> emit_text (if b then js ''true'' else js ''false'') path st
     | JsString s \<Rightarrow> rbind (requireString input path) (\<lambda>s. emit_text (js_quote s) path st)
     | JsNumber n \<Rightarrow> rbind (canonicalizeJsonNumber n path) (\<lambda>t. emit_text t path st)
     | JsArray xs \<Rightarrow>
         rbind (emit [91] path st) (\<lambda>st.
         rbind (json_items xs 0 path depth st) (\<lambda>(items, st).
         rbind (emit [93] path st) (\<lambda>st.
         Inr (91 # js_join [44] items @ [93], st))))
     | JsPlainObject ms \<Rightarrow>
         rbind (emit [123] path st) (\<lambda>st.
         rbind (json_members (sorted_members ms) 0 path depth st) (\<lambda>(members, st).
         rbind (emit [125] path st) (\<lambda>st.
         Inr (123 # js_join [44] members @ [125], st))))
     | JsUndefined \<Rightarrow> Inl (json_fail path)
     | JsEnclosing \<Rightarrow> Inl (json_fail path)
     | JsOther \<Rightarrow> Inl (json_fail path))"
| "json_items [] index path depth st = Inr ([], st)"
| "json_items (x # xs) index path depth st =
     rbind (if index > 0 then emit [44] path st else Inr st) (\<lambda>st.
     rbind (canonicalJsonFragment x (index_path path index) (depth + 1) st) (\<lambda>(t, st).
     rbind (json_items xs (Suc index) path depth st) (\<lambda>(ts, st).
     Inr (t # ts, st))))"
| "json_members [] index path depth st = Inr ([], st)"
| "json_members ((key, x) # ms) index path depth st =
     rbind (if index > 0 then emit [44] path st else Inr st) (\<lambda>st.
     rbind (requireString (JsString key) (key_path path)) (\<lambda>validKey.
     rbind (emit (js_quote validKey) (key_path path) st) (\<lambda>st.
     rbind (emit [58] path st) (\<lambda>st.
     rbind (canonicalJsonFragment x (member_path path key) (depth + 1) st) (\<lambda>(t, st).
     rbind (json_members ms (Suc index) path depth st) (\<lambda>(ts, st).
     Inr ((js_quote validKey @ [58] @ t) # ts, st)))))))"
  by pat_completeness auto
termination
proof (relation "measure (\<lambda>x. case x of
     Inl (v, _) \<Rightarrow> 2 * size v
   | Inr (Inl (xs, _)) \<Rightarrow> Suc (2 * size_list size xs)
   | Inr (Inr (ms, _)) \<Rightarrow> Suc (2 * size_list (size_prod (\<lambda>_. 0) size) ms))")
qed (auto simp: sorted_members_def size_list_js_sort)

definition canonicalizeRestrictedJson :: "JsValue \<Rightarrow> RestrictedJsonOptions \<Rightarrow> jsstring codec" where
  "canonicalizeRestrictedJson input options =
     (let maximumBytes = (case jo_maximumBytes options of None \<Rightarrow> DEFAULT_JSON_MAX_BYTES | Some n \<Rightarrow> n);
          maximumDepth = (case jo_maximumDepth options of None \<Rightarrow> DEFAULT_JSON_MAXIMUM_DEPTH | Some n \<Rightarrow> n);
          maximumNodes = (case jo_maximumNodes options of None \<Rightarrow> DEFAULT_JSON_MAXIMUM_NODES | Some n \<Rightarrow> n) in
      rbind (validateLimit maximumBytes) (\<lambda>_.
      rbind (validateLimit maximumDepth) (\<lambda>_.
      rbind (validateLimit maximumNodes) (\<lambda>_.
      rbind (canonicalJsonFragment input value_path 0
        \<lparr>ts_bytes = 0, ts_nodes = 0, ts_maximumBytes = maximumBytes, ts_maximumDepth = maximumDepth,
         ts_maximumNodes = maximumNodes\<rparr>) (\<lambda>(canonical, st).
      Inr canonical)))))"

subsection \<open>A reference printer\<close>

text \<open>
  The canonical text, the values that have one, and their size, as plain recursive functions.
\<close>

definition number_ok :: "JsNumber \<Rightarrow> bool" where
  "number_ok n = (case n of IntegerNumber i \<Rightarrow> isSafeInteger i | NegativeZero \<Rightarrow> True | FractionNumber _ _ _ _ \<Rightarrow> True | _ \<Rightarrow> False)"

definition number_text :: "JsNumber \<Rightarrow> jsstring" where
  "number_text n = (case n of IntegerNumber i \<Rightarrow> js_of_int i | FractionNumber negative i d ds \<Rightarrow> fraction_text negative i d ds | _ \<Rightarrow> js ''0'')"

definition key_ok :: "jsstring \<Rightarrow> bool" where
  "key_ok s \<longleftrightarrow> isWellFormed s \<and> 0 \<notin> set s"

lemma size_member [termination_simp]:
  "(a, b) \<in> set (sorted_members ms) \<Longrightarrow> size b < Suc (size_list (\<lambda>x. Suc (size (snd x))) ms)"
proof -
  assume "(a, b) \<in> set (sorted_members ms)"
  then have "(a, b) \<in> set ms" by (simp add: sorted_members_def)
  then have "Suc (size b) \<le> size_list (\<lambda>x. Suc (size (snd x))) ms"
    by (rule size_list_estimation') simp
  then show ?thesis by simp
qed

fun json_ok :: "JsValue \<Rightarrow> bool" where
  "json_ok JsNull = True"
| "json_ok (JsBoolean b) = True"
| "json_ok (JsString s) = key_ok s"
| "json_ok (JsNumber n) = number_ok n"
| "json_ok (JsArray xs) = (\<forall>x\<in>set xs. json_ok x)"
| "json_ok (JsPlainObject ms) = (\<forall>m\<in>set (sorted_members ms). key_ok (fst m) \<and> json_ok (snd m))"
| "json_ok _ = False"

fun json_text :: "JsValue \<Rightarrow> jsstring" where
  "json_text JsNull = js ''null''"
| "json_text (JsBoolean b) = (if b then js ''true'' else js ''false'')"
| "json_text (JsString s) = js_quote s"
| "json_text (JsNumber n) = number_text n"
| "json_text (JsArray xs) = 91 # js_join [44] (map json_text xs) @ [93]"
| "json_text (JsPlainObject ms) =
     123 # js_join [44] (map (\<lambda>m. js_quote (fst m) @ [58] @ json_text (snd m)) (sorted_members ms)) @ [125]"
| "json_text _ = []"

fun json_nodes :: "JsValue \<Rightarrow> int" where
  "json_nodes (JsArray xs) = 1 + sum_list (map json_nodes xs)"
| "json_nodes (JsPlainObject ms) = 1 + sum_list (map (\<lambda>m. json_nodes (snd m)) (sorted_members ms))"
| "json_nodes _ = 1"

text \<open>The number of levels of arrays and objects below a value.\<close>

fun json_height :: "JsValue \<Rightarrow> int" where
  "json_height (JsArray xs) = foldr (\<lambda>x h. max (1 + json_height x) h) xs 0"
| "json_height (JsPlainObject ms) = foldr (\<lambda>m h. max (1 + json_height (snd m)) h) (sorted_members ms) 0"
| "json_height _ = 0"

lemma json_nodes_pos: "1 \<le> json_nodes v"
proof (induction v rule: json_nodes.induct)
  case (1 xs)
  then have "0 \<le> sum_list (map json_nodes xs)" by (intro sum_list_nonneg) force
  then show ?case by simp
next
  case (2 ms)
  then have "0 \<le> sum_list (map (\<lambda>m. json_nodes (snd m)) (sorted_members ms))" by (intro sum_list_nonneg) force
  then show ?case by simp
qed simp_all

lemma foldr_max: "foldr (\<lambda>x h. max (f x) h) xs 0 \<le> (d :: int) \<longleftrightarrow> 0 \<le> d \<and> (\<forall>x\<in>set xs. f x \<le> d)"
  by (induction xs) auto

lemma json_height_nonneg: "0 \<le> json_height v"
proof -
  have "0 \<le> foldr (\<lambda>x h. max (f x) h) xs (0 :: int)" for f and xs :: "'a list" by (induction xs) auto
  moreover have "0 \<le> foldr (\<lambda>x h. max (f x) h) xs (0 :: int)" for f and xs :: "'b list" by (induction xs) auto
  ultimately show ?thesis by (cases v) auto
qed

subsection \<open>Bytes\<close>

lemma utf8ByteLength_append: "isWellFormed s \<Longrightarrow> utf8ByteLength (s @ t) = utf8ByteLength s + utf8ByteLength t"
  by (simp add: utf8ByteLength_sum code_points_append)

lemma utf8ByteLength_ascii [simp]: "unat u < 128 \<Longrightarrow> utf8ByteLength [u] = 1"
  by (simp add: utf8ByteLength_single scalar_def is_surrogate_def utf8_width_def)

lemma isWellFormed_Nil [simp]: "isWellFormed []"
  by (simp add: isWellFormed_def)

lemma isWellFormed_unit [simp]: "unat u < 0xD800 \<Longrightarrow> isWellFormed [u]"
  by (simp add: isWellFormed_def is_surrogate_def)

lemma isWellFormed_Cons: "unat u < 0xD800 \<Longrightarrow> isWellFormed s \<Longrightarrow> isWellFormed (u # s)"
  using isWellFormed_append [of "[u]" s] by simp

lemma isWellFormed_join:
  "(\<And>x. x \<in> set xs \<Longrightarrow> isWellFormed x) \<Longrightarrow> isWellFormed (js_join [44] xs)"
  by (induction "[44 :: code_unit]" xs rule: js_join.induct) (auto intro!: isWellFormed_append isWellFormed_Cons)

definition join_bytes :: "jsstring list \<Rightarrow> int" where
  "join_bytes ts = sum_list (map (\<lambda>t. int (utf8ByteLength t)) ts) + int (length ts - 1)"

lemma join_bytes_eq:
  "(\<And>x. x \<in> set xs \<Longrightarrow> isWellFormed x) \<Longrightarrow> int (utf8ByteLength (js_join [44] xs)) = join_bytes xs"
proof (induction "[44 :: code_unit]" xs rule: js_join.induct)
  case (3 x y xs)
  have "utf8ByteLength (44 # js_join [44] (y # xs)) = 1 + utf8ByteLength (js_join [44] (y # xs))"
    using utf8ByteLength_append [of "[44]" "js_join [44] (y # xs)"] by simp
  with 3 show ?case by (simp add: join_bytes_def utf8ByteLength_append)
qed (simp_all add: join_bytes_def)

lemma isWellFormed_hex: "d < 16 \<Longrightarrow> unat (hex_digit d) < 0xD800"
  unfolding hex_digit_def by (subst unat_unit_of) auto

lemma quote_unit_wf: "\<not> is_high u \<Longrightarrow> \<not> is_low u \<Longrightarrow> isWellFormed (quote_unit u)"
proof -
  assume "\<not> is_high u" "\<not> is_low u"
  then have "isWellFormed [u]" by (auto simp: isWellFormed_def is_surrogate_def is_high_nat is_low_nat)
  moreover have "isWellFormed (unicode_escape u)" if "unat u < 32"
    using that unfolding unicode_escape_def
    by (intro isWellFormed_Cons isWellFormed_Nil isWellFormed_hex) auto
  moreover have "unat u < 32" if "u < 32" using that by (simp add: word_less_nat_alt)
  ultimately show ?thesis by (auto simp: quote_unit_def intro!: isWellFormed_Cons)
qed

lemma quote_body_wf: "isWellFormed s \<Longrightarrow> isWellFormed (quote_body s)"
proof (induction s rule: quote_body.induct)
  case (2 u)
  then have "\<not> is_high u" "\<not> is_low u" by (auto simp: isWellFormed_def is_surrogate_def is_high_nat is_low_nat)
  then show ?case by (simp add: quote_unit_wf)
next
  case (3 u v us)
  show ?case
  proof (cases "is_high u \<and> is_low v")
    case True
    then show ?thesis using 3 by (auto simp: isWellFormed_def)
  next
    case False
    then have cp: "code_points (u # v # us) = unat u # code_points (v # us)"
      unfolding code_points.simps(3) by (rule if_not_P)
    have rest: "isWellFormed (v # us)" and u: "\<not> is_high u" "\<not> is_low u"
      using 3(3) unfolding isWellFormed_def cp by (auto simp: is_surrogate_def is_high_nat is_low_nat)
    then have "quote_body (u # v # us) = quote_unit u @ quote_body (v # us)" by simp
    then show ?thesis using 3(2) [OF False rest] u by (simp add: isWellFormed_append quote_unit_wf)
  qed
qed simp

lemma js_quote_wf: "isWellFormed s \<Longrightarrow> isWellFormed (js_quote s)"
  by (simp add: js_quote_def isWellFormed_Cons isWellFormed_append quote_body_wf)

lemma number_text_wf: "isWellFormed (number_text n)"
proof -
  have "isWellFormed (fraction_text b i d ds)" for b i d ds
  proof (rule isWellFormed_plain)
    have "unat u < 0xD800" if "is_digit u" for u using that by (simp add: is_digit_nat)
    then show "\<forall>u\<in>set (fraction_text b i d ds). unat u < 0xD800"
      using js_of_nat_digits [of _ i] by (auto simp: fraction_text_def)
  qed
  then show ?thesis using print_plain by (auto simp: number_text_def split: JsNumber.splits)
qed

lemma json_text_wf: "json_ok v \<Longrightarrow> isWellFormed (json_text v)"
proof (induction v rule: json_text.induct)
  case (5 xs)
  then have "isWellFormed (js_join [44] (map json_text xs))" by (intro isWellFormed_join) auto
  then show ?case by (simp add: isWellFormed_Cons isWellFormed_append)
next
  case (6 ms)
  then have "isWellFormed (js_join [44] (map (\<lambda>m. js_quote (fst m) @ [58] @ json_text (snd m)) (sorted_members ms)))"
    by (intro isWellFormed_join) (auto simp: key_ok_def intro!: isWellFormed_append js_quote_wf isWellFormed_Cons)
  then show ?case by (simp add: isWellFormed_Cons isWellFormed_append)
qed (simp_all add: number_text_wf js_quote_wf key_ok_def)

subsection \<open>The limits are limits on the whole text\<close>

declare canonicalJsonFragment.simps [simp del]

definition grow :: "TraversalState \<Rightarrow> int \<Rightarrow> int \<Rightarrow> TraversalState" where
  "grow st b n = st\<lparr>ts_bytes := ts_bytes st + b, ts_nodes := ts_nodes st + n\<rparr>"

definition within :: "TraversalState \<Rightarrow> bool" where
  "within st \<longleftrightarrow> ts_bytes st \<le> ts_maximumBytes st \<and> ts_nodes st \<le> ts_maximumNodes st"

lemma grow_simps [simp]:
  "ts_bytes (grow st b n) = ts_bytes st + b" "ts_nodes (grow st b n) = ts_nodes st + n"
  "ts_maximumBytes (grow st b n) = ts_maximumBytes st" "ts_maximumDepth (grow st b n) = ts_maximumDepth st"
  "ts_maximumNodes (grow st b n) = ts_maximumNodes st" "grow (grow st b n) b' n' = grow st (b + b') (n + n')"
  "grow st 0 0 = st"
  by (simp_all add: grow_def)

lemma grow_eq: "grow st b n = grow st b' n' \<longleftrightarrow> b = b' \<and> n = n'"
proof
  assume "grow st b n = grow st b' n'"
  then have "ts_bytes (grow st b n) = ts_bytes (grow st b' n')" "ts_nodes (grow st b n) = ts_nodes (grow st b' n')" by simp_all
  then show "b = b' \<and> n = n'" by simp
qed simp

definition bytes_of :: "jsstring \<Rightarrow> int" where
  "bytes_of t = int (utf8ByteLength t)"

lemma bytes_of_nonneg: "0 \<le> bytes_of t"
  by (simp add: bytes_of_def)

lemma bytes_of_Nil [simp]: "bytes_of [] = 0"
  by (simp add: bytes_of_def utf8ByteLength_sum)

lemma bytes_of_append: "isWellFormed s \<Longrightarrow> bytes_of (s @ t) = bytes_of s + bytes_of t"
  by (simp add: bytes_of_def utf8ByteLength_append)

lemma bytes_of_ascii [simp]: "unat u < 128 \<Longrightarrow> bytes_of [u] = 1"
  by (simp add: bytes_of_def)

lemma bytes_of_Cons: "unat u < 128 \<Longrightarrow> bytes_of (u # s) = 1 + bytes_of s"
  using bytes_of_append [of "[u]" s] by simp

lemma emit_Inr: "emit t path st = Inr st' \<longleftrightarrow> ts_bytes st + bytes_of t \<le> ts_maximumBytes st \<and> st' = grow st (bytes_of t) 0"
  by (auto simp: emit_def Let_def guard_def grow_def bytes_of_def)

lemma emit_text_Inr:
  "emit_text t path st = Inr (t', st') \<longleftrightarrow>
     t' = t \<and> ts_bytes st + bytes_of t \<le> ts_maximumBytes st \<and> st' = grow st (bytes_of t) 0"
  by (auto simp: emit_text_def emit_Inr)

lemma enter_node_Inr:
  "enter_node path depth st = Inr st' \<longleftrightarrow>
     ts_nodes st + 1 \<le> ts_maximumNodes st \<and> depth \<le> ts_maximumDepth st \<and> st' = grow st 0 1"
  by (auto simp: enter_node_def Let_def guard_def grow_def)

lemma number_Inr: "canonicalizeJsonNumber n path = Inr t \<longleftrightarrow> number_ok n \<and> t = number_text n"
  by (auto simp: canonicalizeJsonNumber_def number_ok_def number_text_def split: JsNumber.splits)

text \<open>What writing a value does, in terms of the reference functions.\<close>

definition written :: "JsValue \<Rightarrow> bool" where
  "written v \<longleftrightarrow> (\<forall>path depth st t st'. within st \<longrightarrow>
     (canonicalJsonFragment v path depth st = Inr (t, st') \<longleftrightarrow>
       json_ok v \<and> t = json_text v \<and> depth + json_height v \<le> ts_maximumDepth st
       \<and> ts_nodes st + json_nodes v \<le> ts_maximumNodes st \<and> ts_bytes st + bytes_of (json_text v) \<le> ts_maximumBytes st
       \<and> st' = grow st (bytes_of (json_text v)) (json_nodes v)))"

lemma writtenD:
  "written v \<Longrightarrow> within st \<Longrightarrow> canonicalJsonFragment v path depth st = Inr (t, st') \<longleftrightarrow>
       json_ok v \<and> t = json_text v \<and> depth + json_height v \<le> ts_maximumDepth st
       \<and> ts_nodes st + json_nodes v \<le> ts_maximumNodes st \<and> ts_bytes st + bytes_of (json_text v) \<le> ts_maximumBytes st
       \<and> st' = grow st (bytes_of (json_text v)) (json_nodes v)"
  by (simp add: written_def)

text \<open>The bytes of a list of texts, a comma before each but the first of the array.\<close>

definition list_bytes :: "nat \<Rightarrow> jsstring list \<Rightarrow> int" where
  "list_bytes i ts = sum_list (map bytes_of ts) + int (if i = 0 then length ts - 1 else length ts)"

lemma list_bytes_simps [simp]:
  "list_bytes i [] = 0"
  "list_bytes i (t # ts) = (if i = 0 then 0 else 1) + bytes_of t + list_bytes (Suc i) ts"
  by (auto simp: list_bytes_def)

lemma list_bytes_nonneg: "0 \<le> list_bytes i ts"
  by (auto simp: list_bytes_def intro!: add_nonneg_nonneg sum_list_nonneg bytes_of_nonneg)

lemma sum_nodes_nonneg: "0 \<le> sum_list (map (\<lambda>x. json_nodes (f x)) xs)"
  using json_nodes_pos by (intro sum_list_nonneg) (auto intro: order_trans [of 0 1])

lemma comma_Inr:
  "(if 0 < (i :: nat) then emit [44] path st else Inr st) = Inr st' \<longleftrightarrow>
     (i = 0 \<or> ts_bytes st + 1 \<le> ts_maximumBytes st) \<and> st' = grow st (if i = 0 then 0 else 1) 0"
  by (auto simp: emit_Inr)

text \<open>
  Items and members are written by one loop: a comma before all but the first, then the element.
  Writing the elements succeeds when every element can be written and all of them fit together.
\<close>

fun write_list :: "('a \<Rightarrow> nat \<Rightarrow> TraversalState \<Rightarrow> (jsstring \<times> TraversalState) codec) \<Rightarrow> jsstring \<Rightarrow> 'a list \<Rightarrow> nat \<Rightarrow> TraversalState
    \<Rightarrow> (jsstring list \<times> TraversalState) codec" where
  "write_list w path [] i st = Inr ([], st)"
| "write_list w path (x # xs) i st =
     rbind (if i > 0 then emit [44] path st else Inr st) (\<lambda>st.
     rbind (w x i st) (\<lambda>(t, st).
     rbind (write_list w path xs (Suc i) st) (\<lambda>(ts, st).
     Inr (t # ts, st))))"

definition writes :: "(nat \<Rightarrow> TraversalState \<Rightarrow> (jsstring \<times> TraversalState) codec) \<Rightarrow> (int \<Rightarrow> bool) \<Rightarrow> jsstring \<Rightarrow> int \<Rightarrow> bool" where
  "writes w ok text n \<longleftrightarrow> (\<forall>i st t st'. within st \<longrightarrow>
     (w i st = Inr (t, st') \<longleftrightarrow> ok (ts_maximumDepth st) \<and> t = text \<and> ts_nodes st + n \<le> ts_maximumNodes st
       \<and> ts_bytes st + bytes_of text \<le> ts_maximumBytes st \<and> st' = grow st (bytes_of text) n))"

lemma writesD:
  "writes w ok text n \<Longrightarrow> within st \<Longrightarrow> w i st = Inr (t, st') \<longleftrightarrow>
     ok (ts_maximumDepth st) \<and> t = text \<and> ts_nodes st + n \<le> ts_maximumNodes st
     \<and> ts_bytes st + bytes_of text \<le> ts_maximumBytes st \<and> st' = grow st (bytes_of text) n"
  by (simp add: writes_def)

lemma write_list_Inr:
  assumes nodes: "\<And>x. 0 \<le> nodes x"
  shows "(\<And>x. x \<in> set xs \<Longrightarrow> writes (w x) (ok x) (tx x) (nodes x)) \<Longrightarrow> within st \<Longrightarrow>
   write_list w path xs i st = Inr (ts, st') \<longleftrightarrow>
     (\<forall>x\<in>set xs. ok x (ts_maximumDepth st)) \<and> ts = map tx xs
     \<and> ts_nodes st + sum_list (map nodes xs) \<le> ts_maximumNodes st
     \<and> ts_bytes st + list_bytes i (map tx xs) \<le> ts_maximumBytes st
     \<and> st' = grow st (list_bytes i (map tx xs)) (sum_list (map nodes xs))"
proof (induction xs arbitrary: i st ts st')
  case Nil
  then show ?case by (auto simp: within_def)
next
  case (Cons x xs)
  let ?c = "if i = 0 then 0 else 1 :: int"
  let ?b = "bytes_of (tx x)" and ?B = "list_bytes (Suc i) (map tx xs)"
  let ?n = "nodes x" and ?N = "sum_list (map nodes xs)"
  have pos: "0 \<le> ?b" "0 \<le> ?B" "0 \<le> ?n" "0 \<le> ?N"
    using list_bytes_nonneg bytes_of_nonneg nodes by (auto intro!: sum_list_nonneg)
  define one where "one = grow st ?c 0"
  define two where "two = grow one ?b ?n"
  have step: "write_list w path (x # xs) i st = Inr (ts, st') \<longleftrightarrow>
     (i = 0 \<or> ts_bytes st + 1 \<le> ts_maximumBytes st) \<and>
     (\<exists>t st2 rest. w x i one = Inr (t, st2) \<and> write_list w path xs (Suc i) st2 = Inr (rest, st') \<and> ts = t # rest)"
    unfolding write_list.simps(2) rbind_eq_Inr_iff comma_Inr one_def by auto
  have one: "within one" if "i = 0 \<or> ts_bytes st + 1 \<le> ts_maximumBytes st"
    using that Cons.prems(2) by (auto simp: within_def one_def)
  have two: "within two" if "ts_nodes one + ?n \<le> ts_maximumNodes one" "ts_bytes one + ?b \<le> ts_maximumBytes one"
    using that by (simp add: within_def two_def)
  note frag = writesD [OF Cons.prems(1) one] and rest = Cons.IH [OF Cons.prems(1) two]
  show ?case (is "?L \<longleftrightarrow> ?R")
  proof
    assume ?L
    then obtain t st2 rs where c: "i = 0 \<or> ts_bytes st + 1 \<le> ts_maximumBytes st"
      and f: "w x i one = Inr (t, st2)" and r: "write_list w path xs (Suc i) st2 = Inr (rs, st')" and ts: "ts = t # rs"
      unfolding step by blast
    have f': "ok x (ts_maximumDepth one)" "t = tx x"
      "ts_nodes one + ?n \<le> ts_maximumNodes one" "ts_bytes one + ?b \<le> ts_maximumBytes one" "st2 = two"
      using f unfolding frag [OF list.set_intros(1) c] two_def by auto
    have r': "(\<forall>y\<in>set xs. ok y (ts_maximumDepth two)) \<and> rs = map tx xs \<and> ts_nodes two + ?N \<le> ts_maximumNodes two
      \<and> ts_bytes two + ?B \<le> ts_maximumBytes two \<and> st' = grow two ?B ?N"
      using r unfolding f'(5) by (subst (asm) rest [OF list.set_intros(2) f'(3,4)])
    show ?R using f' r' ts by (simp add: one_def two_def algebra_simps)
  next
    assume R: ?R
    have B: "ts_bytes st + ?c + ?b + ?B \<le> ts_maximumBytes st" and N: "ts_nodes st + ?n + ?N \<le> ts_maximumNodes st"
      using R by (auto split: if_splits)
    have c: "i = 0 \<or> ts_bytes st + 1 \<le> ts_maximumBytes st" using B pos by (auto split: if_splits)
    have lim: "ts_nodes one + ?n \<le> ts_maximumNodes one" "ts_bytes one + ?b \<le> ts_maximumBytes one"
      using B N pos by (simp_all add: one_def)
    have "w x i one = Inr (tx x, two)"
      unfolding frag [OF list.set_intros(1) c] two_def using R lim by (simp add: one_def)
    moreover have "write_list w path xs (Suc i) two = Inr (map tx xs, st')"
      by (subst rest [OF list.set_intros(2) lim]) (use R B N in \<open>simp_all add: one_def two_def algebra_simps\<close>)
    ultimately show ?L unfolding step using c R by auto
  qed
qed

definition item_writer :: "jsstring \<Rightarrow> int \<Rightarrow> JsValue \<Rightarrow> nat \<Rightarrow> TraversalState \<Rightarrow> (jsstring \<times> TraversalState) codec" where
  "item_writer path depth x i st = canonicalJsonFragment x (index_path path i) (depth + 1) st"

definition member_writer :: "jsstring \<Rightarrow> int \<Rightarrow> (jsstring \<times> JsValue) \<Rightarrow> nat \<Rightarrow> TraversalState \<Rightarrow> (jsstring \<times> TraversalState) codec" where
  "member_writer path depth m i st =
     rbind (requireString (JsString (fst m)) (key_path path)) (\<lambda>validKey.
     rbind (emit (js_quote validKey) (key_path path) st) (\<lambda>st.
     rbind (emit [58] path st) (\<lambda>st.
     rbind (canonicalJsonFragment (snd m) (member_path path (fst m)) (depth + 1) st) (\<lambda>(t, st).
     Inr (js_quote validKey @ [58] @ t, st)))))"

lemma json_items_write: "json_items xs i path depth st = write_list (item_writer path depth) path xs i st"
  by (induction xs arbitrary: i st) (auto simp: item_writer_def)

lemma rbind_assoc: "rbind (rbind r f) g = rbind r (\<lambda>x. rbind (f x) g)"
  by (cases r) auto

lemma json_members_write: "json_members ms i path depth st = write_list (member_writer path depth) path ms i st"
  by (induction ms arbitrary: i st) (auto simp: member_writer_def rbind_assoc case_prod_unfold)

definition member_text :: "(jsstring \<times> JsValue) \<Rightarrow> jsstring" where
  "member_text m = js_quote (fst m) @ [58] @ json_text (snd m)"

lemma item_writes:
  "written x \<Longrightarrow> writes (item_writer path depth x) (\<lambda>d. json_ok x \<and> depth + 1 + json_height x \<le> d) (json_text x) (json_nodes x)"
  unfolding writes_def item_writer_def by (auto simp: writtenD)

lemma member_text_bytes: "key_ok (fst m) \<Longrightarrow> bytes_of (member_text m) = bytes_of (js_quote (fst m)) + 1 + bytes_of (json_text (snd m))"
  using js_quote_wf [of "fst m"] by (simp add: member_text_def key_ok_def bytes_of_append bytes_of_Cons)

lemma member_writes:
  assumes "written (snd m)"
  shows "writes (member_writer path depth m) (\<lambda>d. (key_ok (fst m) \<and> json_ok (snd m)) \<and> depth + 1 + json_height (snd m) \<le> d)
    (member_text m) (json_nodes (snd m))"
  unfolding writes_def
proof (intro allI impI)
  fix i st t st'
  assume st: "within st"
  let ?q = "bytes_of (js_quote (fst m))" and ?b = "bytes_of (json_text (snd m))"
  let ?k = "ts_bytes st + ?q + 1 \<le> ts_maximumBytes st"
  have step: "member_writer path depth m i st = Inr (t, st') \<longleftrightarrow> key_ok (fst m) \<and> ?k
     \<and> (\<exists>u. canonicalJsonFragment (snd m) (member_path path (fst m)) (depth + 1) (grow st (?q + 1) 0) = Inr (u, st')
          \<and> t = js_quote (fst m) @ [58] @ u)"
    by (auto simp: member_writer_def requireString_Inr emit_Inr key_ok_def split_beta)
  have "?k \<Longrightarrow> within (grow st (?q + 1) 0)" using st by (simp add: within_def)
  note frag = writtenD [OF assms this]
  show "member_writer path depth m i st = Inr (t, st') \<longleftrightarrow>
       ((key_ok (fst m) \<and> json_ok (snd m)) \<and> depth + 1 + json_height (snd m) \<le> ts_maximumDepth st) \<and> t = member_text m
       \<and> ts_nodes st + json_nodes (snd m) \<le> ts_maximumNodes st
       \<and> ts_bytes st + bytes_of (member_text m) \<le> ts_maximumBytes st \<and> st' = grow st (bytes_of (member_text m)) (json_nodes (snd m))"
  proof (cases "key_ok (fst m) \<and> ?k")
    case True
    then show ?thesis
      unfolding step frag [OF conjunct2 [OF True]] by (auto simp: member_text_bytes) (auto simp: member_text_def algebra_simps)
  next
    case False
    then have "\<not> (key_ok (fst m) \<and> ts_bytes st + bytes_of (member_text m) \<le> ts_maximumBytes st)"
      using bytes_of_nonneg [of "json_text (snd m)"] by (auto simp: member_text_bytes)
    then show ?thesis unfolding step using False by blast
  qed
qed

lemma container_text_bytes:
  assumes "unat a < 128" "unat b < 128" "\<And>t. t \<in> set ts \<Longrightarrow> isWellFormed t"
  shows "bytes_of (a # js_join [44] ts @ [b]) = 1 + list_bytes 0 ts + 1"
proof -
  have wf: "isWellFormed (js_join [44] ts)" by (rule isWellFormed_join) (rule assms(3))
  have "bytes_of (js_join [44] ts) = list_bytes 0 ts"
    using join_bytes_eq [OF assms(3)] by (simp add: bytes_of_def list_bytes_def join_bytes_def cong: map_cong)
  then show ?thesis using assms wf by (simp add: bytes_of_Cons bytes_of_append)
qed

text \<open>An array or object: an opening unit, the elements, a closing unit.\<close>

lemma container_Inr:
  assumes ab: "unat a < 128" "unat b < 128" and nodes: "\<And>x. 0 \<le> nodes x"
    and w: "\<And>x. x \<in> set xs \<Longrightarrow> writes (w x) (\<lambda>d. ok x \<and> depth + 1 + height x \<le> d) (tx x) (nodes x)"
    and wf: "\<And>x. x \<in> set xs \<Longrightarrow> ok x \<Longrightarrow> isWellFormed (tx x)"
    and st: "within st"
  shows "rbind (enter_node path depth st) (\<lambda>st. rbind (emit [a] path st) (\<lambda>st. rbind (write_list w path xs 0 st) (\<lambda>(ts, st).
      rbind (emit [b] path st) (\<lambda>st. Inr (a # js_join [44] ts @ [b], st))))) = Inr (t, st') \<longleftrightarrow>
    (\<forall>x\<in>set xs. ok x) \<and> t = a # js_join [44] (map tx xs) @ [b]
    \<and> depth + foldr (\<lambda>x h. max (1 + height x) h) xs 0 \<le> ts_maximumDepth st
    \<and> ts_nodes st + (1 + sum_list (map nodes xs)) \<le> ts_maximumNodes st
    \<and> ts_bytes st + bytes_of (a # js_join [44] (map tx xs) @ [b]) \<le> ts_maximumBytes st
    \<and> st' = grow st (bytes_of (a # js_join [44] (map tx xs) @ [b])) (1 + sum_list (map nodes xs))"
    (is "?L \<longleftrightarrow> ?R")
proof -
  let ?N = "sum_list (map nodes xs)" and ?B = "list_bytes 0 (map tx xs)"
  have pos: "0 \<le> ?N" "0 \<le> ?B" using nodes list_bytes_nonneg by (auto intro!: sum_list_nonneg)
  have bytes: "bytes_of (a # js_join [44] (map tx xs) @ [b]) = 1 + ?B + 1" if "\<forall>x\<in>set xs. ok x"
    by (rule container_text_bytes) (use ab wf that in auto)
  have depth: "depth + foldr (\<lambda>x h. max (1 + height x) h) xs 0 \<le> ts_maximumDepth st \<longleftrightarrow>
      depth \<le> ts_maximumDepth st \<and> (\<forall>x\<in>set xs. depth + 1 + height x \<le> ts_maximumDepth st)"
    using foldr_max [of "\<lambda>x. 1 + height x" xs "ts_maximumDepth st - depth"] by (auto simp: algebra_simps)
  let ?start = "ts_nodes st + 1 \<le> ts_maximumNodes st \<and> depth \<le> ts_maximumDepth st \<and> ts_bytes st + 1 \<le> ts_maximumBytes st"
  have step: "?L \<longleftrightarrow> ?start \<and> (\<exists>ts st2. write_list w path xs 0 (grow st 1 1) = Inr (ts, st2)
      \<and> ts_bytes st2 + 1 \<le> ts_maximumBytes st2 \<and> st' = grow st2 1 0 \<and> t = a # js_join [44] ts @ [b])"
    using ab by (auto simp: enter_node_Inr emit_Inr)
  show ?thesis
  proof (cases ?start)
    case True
    then have "within (grow st 1 1)" by (simp add: within_def)
    note items = write_list_Inr [where nodes = nodes and tx = tx and w = w and ok = "\<lambda>x d. ok x \<and> depth + 1 + height x \<le> d",
        OF nodes w this]
    have "?L \<longleftrightarrow> (\<forall>x\<in>set xs. ok x \<and> depth + 1 + height x \<le> ts_maximumDepth st) \<and> ts_nodes st + 1 + ?N \<le> ts_maximumNodes st
        \<and> ts_bytes st + 1 + ?B + 1 \<le> ts_maximumBytes st \<and> st' = grow st (1 + ?B + 1) (1 + ?N)
        \<and> t = a # js_join [44] (map tx xs) @ [b]"
      unfolding step using True by (auto simp: items)
    also have "\<dots> \<longleftrightarrow> ?R" unfolding depth using bytes True by auto
    finally show ?thesis .
  next
    case False
    have "\<not> ?R" using False pos bytes depth by auto
    then show ?thesis using step False by blast
  qed
qed

lemma json_written: "written v"
proof (induction v)
  case (JsArray xs)
  have "canonicalJsonFragment (JsArray xs) path depth st = Inr (t, st') \<longleftrightarrow> json_ok (JsArray xs)
      \<and> t = json_text (JsArray xs) \<and> depth + json_height (JsArray xs) \<le> ts_maximumDepth st
      \<and> ts_nodes st + json_nodes (JsArray xs) \<le> ts_maximumNodes st
      \<and> ts_bytes st + bytes_of (json_text (JsArray xs)) \<le> ts_maximumBytes st
      \<and> st' = grow st (bytes_of (json_text (JsArray xs))) (json_nodes (JsArray xs))" if "within st" for path depth st t st'
    unfolding canonicalJsonFragment.simps JsValue.case json_items_write json_ok.simps json_text.simps json_height.simps json_nodes.simps
    by (rule container_Inr [OF _ _ _ item_writes [OF JsArray]]) (use that json_nodes_pos json_text_wf in \<open>auto intro: order_trans [of 0 1]\<close>)
  then show ?case by (simp only: written_def) blast
next
  case (JsPlainObject ms)
  have IH: "written (snd m)" if "m \<in> set (sorted_members ms)" for m
    using JsPlainObject [of m "snd m"] that by (auto simp: sorted_members_def snds.simps)
  have wf: "isWellFormed (member_text m)" if "key_ok (fst m) \<and> json_ok (snd m)" for m
    using that by (simp add: member_text_def key_ok_def isWellFormed_append isWellFormed_Cons js_quote_wf json_text_wf)
  have "canonicalJsonFragment (JsPlainObject ms) path depth st = Inr (t, st') \<longleftrightarrow> json_ok (JsPlainObject ms)
      \<and> t = json_text (JsPlainObject ms) \<and> depth + json_height (JsPlainObject ms) \<le> ts_maximumDepth st
      \<and> ts_nodes st + json_nodes (JsPlainObject ms) \<le> ts_maximumNodes st
      \<and> ts_bytes st + bytes_of (json_text (JsPlainObject ms)) \<le> ts_maximumBytes st
      \<and> st' = grow st (bytes_of (json_text (JsPlainObject ms))) (json_nodes (JsPlainObject ms))" if "within st" for path depth st t st'
    unfolding canonicalJsonFragment.simps JsValue.case json_members_write json_ok.simps json_text.simps json_height.simps json_nodes.simps
      member_text_def [symmetric]
    by (rule container_Inr [OF _ _ _ member_writes [OF IH]]) (use that json_nodes_pos wf in \<open>auto intro: order_trans [of 0 1]\<close>)
  then show ?case by (simp only: written_def) blast
qed (auto simp: written_def canonicalJsonFragment.simps enter_node_Inr emit_text_Inr requireString_Inr key_ok_def number_Inr)

text \<open>
  The canonical text exists exactly for the representable values whose text, depth and number of
  nodes fit, and it is the reference text.
\<close>

definition json_limits :: "RestrictedJsonOptions \<Rightarrow> int \<times> int \<times> int" where
  "json_limits options = (case jo_maximumBytes options of None \<Rightarrow> DEFAULT_JSON_MAX_BYTES | Some n \<Rightarrow> n,
     case jo_maximumDepth options of None \<Rightarrow> DEFAULT_JSON_MAXIMUM_DEPTH | Some n \<Rightarrow> n,
     case jo_maximumNodes options of None \<Rightarrow> DEFAULT_JSON_MAXIMUM_NODES | Some n \<Rightarrow> n)"

definition limit_ok :: "int \<Rightarrow> bool" where
  "limit_ok n \<longleftrightarrow> isSafeInteger n \<and> 1 \<le> n"

lemma validateLimit_Inr: "validateLimit n = Inr u \<longleftrightarrow> limit_ok n"
  by (auto simp: validateLimit_def limit_ok_def guard_def)

lemma canonicalizeRestrictedJson_Inr:
  "canonicalizeRestrictedJson v options = Inr t \<longleftrightarrow>
     (case json_limits options of (maxBytes, maxDepth, maxNodes) \<Rightarrow>
       limit_ok maxBytes \<and> limit_ok maxDepth \<and> limit_ok maxNodes \<and> json_ok v \<and> t = json_text v
       \<and> int (utf8ByteLength (json_text v)) \<le> maxBytes \<and> json_height v \<le> maxDepth \<and> json_nodes v \<le> maxNodes)"
proof -
  obtain b d n where lim: "json_limits options = (b, d, n)" by (cases "json_limits options")
  define st where "st = \<lparr>ts_bytes = 0, ts_nodes = 0, ts_maximumBytes = b, ts_maximumDepth = d, ts_maximumNodes = n\<rparr>"
  have w: "within st" if "limit_ok b" "limit_ok n" using that by (simp add: st_def within_def limit_ok_def)
  have "canonicalizeRestrictedJson v options = Inr t \<longleftrightarrow> limit_ok b \<and> limit_ok d \<and> limit_ok n
      \<and> (\<exists>st'. canonicalJsonFragment v value_path 0 st = Inr (t, st'))"
    using lim by (auto simp: canonicalizeRestrictedJson_def json_limits_def Let_def validateLimit_Inr st_def)
  also have "\<dots> \<longleftrightarrow> limit_ok b \<and> limit_ok d \<and> limit_ok n \<and> json_ok v \<and> t = json_text v
       \<and> int (utf8ByteLength (json_text v)) \<le> b \<and> json_height v \<le> d \<and> json_nodes v \<le> n"
    using writtenD [OF json_written w, of v value_path 0 t] by (auto simp: st_def bytes_of_def)
  finally show ?thesis by (simp add: lim)
qed

end
