(* ===== verification/ValueJsonParse.thy ===== *)
theory ValueJsonParse
  imports ValueJson
begin

text \<open>
  \<open>parseCanonicalJson\<close> (\<open>packages/value-codec/src/json.ts\<close>) is \<open>JSON.parse\<close> on the texts that
  \<open>canonicalizeRestrictedJson\<close> returns: no white space, no exponents, members with distinct keys.
  \<open>None\<close> is the \<open>SyntaxError\<close>. The fuel is the length of the text, since every call has a shorter
  text than its caller. Parsing a canonical text gives the value in normal form back.
\<close>

definition json_number :: "jsstring \<Rightarrow> (JsValue \<times> jsstring) option" where
  "json_number s =
     (let negative = starts_minus s;
          integerPart = takeWhile is_digit (strip_minus s);
          rest = dropWhile is_digit (strip_minus s) in
      if \<not> natural_text integerPart then None
      else if take 1 rest = [46] then
        (case takeWhile is_digit (drop 1 rest) of
           [] \<Rightarrow> None
         | d # ds \<Rightarrow> Some (JsNumber (FractionNumber negative (nat (bigint_of_js integerPart)) (digit_val d) (map digit_val ds)),
             dropWhile is_digit (drop 1 rest)))
      else Some (JsNumber (if negative \<and> integerPart = [48] then NegativeZero
               else IntegerNumber ((if negative then -1 else 1) * bigint_of_js integerPart)), rest))"

definition json_word :: "jsstring \<Rightarrow> JsValue \<Rightarrow> jsstring \<Rightarrow> (JsValue \<times> jsstring) option" where
  "json_word w v s = (if take (length w) s = w then Some (v, drop (length w) s) else None)"

fun json_value :: "nat \<Rightarrow> jsstring \<Rightarrow> (JsValue \<times> jsstring) option"
  and json_array_rest :: "nat \<Rightarrow> jsstring \<Rightarrow> (JsValue list \<times> jsstring) option"
  and json_object_rest :: "nat \<Rightarrow> jsstring \<Rightarrow> ((jsstring \<times> JsValue) list \<times> jsstring) option" where
  "json_value 0 s = None"
| "json_value (Suc k) s = (case s of
       [] \<Rightarrow> None
     | u # r \<Rightarrow>
         if u = 110 then json_word (js ''null'') JsNull s
         else if u = 116 then json_word (js ''true'') (JsBoolean True) s
         else if u = 102 then json_word (js ''false'') (JsBoolean False) s
         else if u = 34 then map_option (map_prod JsString id) (unquote r)
         else if u = 91 then
           if take 1 r = [93] then Some (JsArray [], drop 1 r)
           else map_option (map_prod JsArray id) (json_array_rest k r)
         else if u = 123 then
           if take 1 r = [125] then Some (JsPlainObject [], drop 1 r)
           else map_option (map_prod JsPlainObject id) (json_object_rest k r)
         else json_number s)"
| "json_array_rest 0 s = None"
| "json_array_rest (Suc k) s = (case json_value k s of
       Some (x, u # r) \<Rightarrow>
         if u = 44 then map_option (map_prod ((#) x) id) (json_array_rest k r)
         else if u = 93 then Some ([x], r) else None
     | _ \<Rightarrow> None)"
| "json_object_rest 0 s = None"
| "json_object_rest (Suc k) s = (case s of
       [] \<Rightarrow> None
     | q # s' \<Rightarrow>
       if q \<noteq> 34 then None
       else case unquote s' of
         Some (key, c # r) \<Rightarrow>
           if c \<noteq> 58 then None
           else (case json_value k r of
             Some (x, u # r') \<Rightarrow>
               if u = 44 then map_option (map_prod ((#) (key, x)) id) (json_object_rest k r')
               else if u = 125 then Some ([(key, x)], r') else None
           | _ \<Rightarrow> None)
       | _ \<Rightarrow> None)"

definition parseCanonicalJson :: "jsstring \<Rightarrow> JsValue option" where
  "parseCanonicalJson t = (case json_value (length t) t of Some (v, []) \<Rightarrow> Some v | _ \<Rightarrow> None)"

subsection \<open>Normal forms\<close>

definition number_normal :: "JsNumber \<Rightarrow> JsNumber" where
  "number_normal n = (case n of
       NegativeZero \<Rightarrow> IntegerNumber 0
     | FractionNumber negative i d ds \<Rightarrow> FractionNumber negative i (d mod 10) (map (\<lambda>d. d mod 10) ds)
     | _ \<Rightarrow> n)"

fun json_normal :: "JsValue \<Rightarrow> JsValue" where
  "json_normal (JsNumber n) = JsNumber (number_normal n)"
| "json_normal (JsArray xs) = JsArray (map json_normal xs)"
| "json_normal (JsPlainObject ms) = JsPlainObject (map (\<lambda>m. (fst m, json_normal (snd m))) (sorted_members ms))"
| "json_normal v = v"

text \<open>What may follow a value inside a text.\<close>

definition json_stop :: "jsstring \<Rightarrow> bool" where
  "json_stop r \<longleftrightarrow> r = [] \<or> hd r \<in> {44, 93, 125}"

lemma json_stop_simps [simp]: "json_stop []" "json_stop (44 # r)" "json_stop (93 # r)" "json_stop (125 # r)"
  by (simp_all add: json_stop_def)

lemma stop_takeWhile:
  assumes "list_all is_digit ds" "r = [] \<or> \<not> is_digit (hd r)"
  shows "takeWhile is_digit (ds @ r) = ds \<and> dropWhile is_digit (ds @ r) = r"
proof -
  have "takeWhile is_digit r = []" "dropWhile is_digit r = r" using assms(2) by (cases r; simp)+
  then show ?thesis using assms(1) by (simp add: takeWhile_append dropWhile_append list_all_iff)
qed

lemma stop_not_digit: "json_stop r \<Longrightarrow> r = [] \<or> \<not> is_digit (hd r)"
  by (auto simp: json_stop_def is_digit_def)

lemma stop_not_dot: "json_stop r \<Longrightarrow> take 1 r \<noteq> [46]"
  by (cases r) (auto simp: json_stop_def)

lemma bigint_js_of_nat: "bigint_of_js (js_of_nat n) = int n"
  using bigint_of_js_of_int [of "int n"] by (simp add: js_of_int_def)

lemma natural_js_of_nat: "natural_text (js_of_nat n)"
  using print_natural_text [of "int n"] by (simp add: js_of_int_def)

lemma js_of_nat_zero: "js_of_nat n = [48] \<longleftrightarrow> n = 0"
  using natural_text_zero [OF natural_js_of_nat, of n] by (simp add: bigint_js_of_nat)

lemma json_number_integer:
  assumes "json_stop r"
  shows "json_number (js_of_int i @ r) = Some (JsNumber (IntegerNumber i), r)"
proof -
  let ?n = "nat \<bar>i\<bar>"
  have t: "js_of_int i @ r = (if i < 0 then [45] else []) @ js_of_nat ?n @ r" by (simp add: js_of_int_def)
  have m: "\<not> starts_minus (js_of_nat ?n @ r)" by (rule natural_not_minus [OF natural_js_of_nat])
  have s: "starts_minus (js_of_int i @ r) \<longleftrightarrow> i < 0" "strip_minus (js_of_int i @ r) = js_of_nat ?n @ r"
    using m by (auto simp: t strip_minus_def) (auto simp: starts_minus_def)
  have tk: "takeWhile is_digit (js_of_nat ?n @ r) = js_of_nat ?n \<and> dropWhile is_digit (js_of_nat ?n @ r) = r"
    by (rule stop_takeWhile) (use natural_text_digits [OF natural_js_of_nat] stop_not_digit [OF assms] in auto)
  show ?thesis
    unfolding json_number_def Let_def s conjunct1 [OF tk] conjunct2 [OF tk]
    using stop_not_dot [OF assms] by (auto simp: natural_js_of_nat js_of_nat_zero bigint_js_of_nat)
qed

lemma json_number_fraction:
  assumes "json_stop r"
  shows "json_number (fraction_text b i d ds @ r) = Some (JsNumber (FractionNumber b i (d mod 10) (map (\<lambda>d. d mod 10) ds)), r)"
proof -
  let ?f = "map (\<lambda>d. digit_unit (d mod 10)) (d # ds)"
  have t: "fraction_text b i d ds @ r = (if b then [45] else []) @ js_of_nat i @ 46 # ?f @ r" by (simp add: fraction_text_def)
  have m: "\<not> starts_minus (js_of_nat i @ x)" for x by (rule natural_not_minus [OF natural_js_of_nat])
  have s: "starts_minus (fraction_text b i d ds @ r) \<longleftrightarrow> b" "strip_minus (fraction_text b i d ds @ r) = js_of_nat i @ 46 # ?f @ r"
    unfolding t using m by (auto simp: strip_minus_def) (auto simp: starts_minus_def)
  have tk: "takeWhile is_digit (js_of_nat i @ 46 # ?f @ r) = js_of_nat i \<and> dropWhile is_digit (js_of_nat i @ 46 # ?f @ r) = 46 # ?f @ r"
    by (rule stop_takeWhile) (use natural_text_digits [OF natural_js_of_nat] in \<open>auto simp: is_digit_def\<close>)
  have fr: "takeWhile is_digit (?f @ r) = ?f \<and> dropWhile is_digit (?f @ r) = r"
    by (rule stop_takeWhile) (use stop_not_digit [OF assms] in \<open>auto simp: list_all_iff\<close>)
  show ?thesis
    unfolding json_number_def Let_def s conjunct1 [OF tk] conjunct2 [OF tk]
    using fr by (simp add: natural_js_of_nat bigint_js_of_nat comp_def)
qed

subsection \<open>Parsing a canonical text\<close>

lemma number_text_hd:
  obtains u t where "number_text n = u # t" "is_digit u \<or> u = 45"
proof -
  have nat: "\<exists>u t. js_of_nat i = u # t \<and> is_digit u" for i
    using js_of_nat_digits [of _ i] js_of_nat_neq_Nil [of i] by (cases "js_of_nat i") auto
  have "\<exists>u t. number_text n = u # t \<and> (is_digit u \<or> u = 45)"
  proof (cases n)
    case (IntegerNumber i)
    with nat [of "nat i"] show ?thesis by (auto simp: number_text_def js_of_int_def)
  next
    case (FractionNumber b i d ds)
    with nat [of i] show ?thesis by (auto simp: number_text_def fraction_text_def)
  qed (simp_all add: number_text_def js_def is_digit_def)
  then show thesis using that by blast
qed

lemma json_number_text:
  "number_ok n \<Longrightarrow> json_stop r \<Longrightarrow> json_number (number_text n @ r) = Some (JsNumber (number_normal n), r)"
proof (cases n)
  case NegativeZero
  assume "json_stop r"
  then have "json_number (js_of_int 0 @ r) = Some (JsNumber (IntegerNumber 0), r)" by (rule json_number_integer)
  then show ?thesis using NegativeZero
    by (simp add: number_text_def number_normal_def js_of_int_def js_of_nat_rec digit_unit_def js_def)
qed (simp_all add: number_ok_def number_text_def number_normal_def json_number_integer json_number_fraction)

lemma json_value_number:
  assumes "number_ok n" "json_stop r"
  shows "json_value (Suc k) (number_text n @ r) = Some (JsNumber (number_normal n), r)"
proof -
  obtain u t where t: "number_text n = u # t" and u: "is_digit u \<or> u = 45" by (rule number_text_hd)
  have "u \<noteq> 110 \<and> u \<noteq> 116 \<and> u \<noteq> 102 \<and> u \<noteq> 34 \<and> u \<noteq> 91 \<and> u \<noteq> 123" using u by (auto simp: is_digit_def)
  then have "json_value (Suc k) (number_text n @ r) = json_number (number_text n @ r)" by (simp add: t)
  then show ?thesis using json_number_text [OF assms] by simp
qed

lemma json_text_hd:
  assumes "json_ok v"
  obtains u t where "json_text v = u # t" "u \<noteq> 93"
proof (cases v)
  case (JsNumber n)
  obtain u t where "number_text n = u # t" "is_digit u \<or> u = 45" by (rule number_text_hd)
  moreover from this(2) have "u \<noteq> 93" by (auto simp: is_digit_def)
  ultimately show ?thesis using that [of u t] JsNumber by simp
next
  case (JsBoolean b)
  then show ?thesis using that [of "if b then 116 else 102" "tl (json_text v)"] by (auto simp: js_def)
qed (use assms that in \<open>auto simp: js_def js_quote_def\<close>)

definition parses :: "JsValue \<Rightarrow> bool" where
  "parses v \<longleftrightarrow> (\<forall>k r. json_stop r \<longrightarrow> length (json_text v) \<le> k \<longrightarrow> json_value k (json_text v @ r) = Some (json_normal v, r))"

lemma parsesD: "parses v \<Longrightarrow> json_stop r \<Longrightarrow> length (json_text v) \<le> k \<Longrightarrow> json_value k (json_text v @ r) = Some (json_normal v, r)"
  by (simp add: parses_def)

lemma json_array_rest_text:
  "xs \<noteq> [] \<Longrightarrow> (\<And>x. x \<in> set xs \<Longrightarrow> parses x) \<Longrightarrow> length (js_join [44] (map json_text xs)) < k \<Longrightarrow>
   json_array_rest k (js_join [44] (map json_text xs) @ 93 # r) = Some (map json_normal xs, r)"
proof (induction xs arbitrary: k)
  case Nil
  then show ?case by simp
next
  case (Cons x xs)
  then obtain j where k: "k = Suc j" by (cases k) auto
  define rest where "rest = (if xs = [] then 93 # r else 44 # js_join [44] (map json_text xs) @ 93 # r)"
  have "js_join [44] (map json_text (x # xs)) @ 93 # r = json_text x @ rest" by (simp add: js_join_Cons rest_def)
  moreover have "json_value j (json_text x @ rest) = Some (json_normal x, rest)"
    by (rule parsesD) (use Cons.prems k in \<open>auto simp: rest_def js_join_Cons\<close>)
  moreover have "xs \<noteq> [] \<Longrightarrow> json_array_rest j (js_join [44] (map json_text xs) @ 93 # r) = Some (map json_normal xs, r)"
    by (rule Cons.IH) (use Cons.prems k in \<open>auto simp: js_join_Cons\<close>)
  ultimately show ?case by (simp add: k rest_def)
qed

definition member_normal :: "jsstring \<times> JsValue \<Rightarrow> jsstring \<times> JsValue" where
  "member_normal m = (fst m, json_normal (snd m))"

lemma json_object_rest_text:
  "ms \<noteq> [] \<Longrightarrow> (\<And>m. m \<in> set ms \<Longrightarrow> parses (snd m)) \<Longrightarrow> length (js_join [44] (map member_text ms)) < k \<Longrightarrow>
   json_object_rest k (js_join [44] (map member_text ms) @ 125 # r) = Some (map member_normal ms, r)"
proof (induction ms arbitrary: k)
  case Nil
  then show ?case by simp
next
  case (Cons m ms)
  then obtain j where k: "k = Suc j" by (cases k) auto
  define rest where "rest = (if ms = [] then 125 # r else 44 # js_join [44] (map member_text ms) @ 125 # r)"
  have whole: "js_join [44] (map member_text (m # ms)) @ 125 # r = 34 # quote_body (fst m) @ 34 # 58 # json_text (snd m) @ rest"
    by (simp add: js_join_Cons rest_def member_text_def js_quote_def)
  moreover have "json_value j (json_text (snd m) @ rest) = Some (json_normal (snd m), rest)"
    by (rule parsesD) (use Cons.prems k in \<open>auto simp: rest_def js_join_Cons member_text_def\<close>)
  moreover have "ms \<noteq> [] \<Longrightarrow> json_object_rest j (js_join [44] (map member_text ms) @ 125 # r) = Some (map member_normal ms, r)"
    by (rule Cons.IH) (use Cons.prems k in \<open>auto simp: js_join_Cons\<close>)
  ultimately show ?case unfolding whole k by (simp add: unquote_body rest_def member_normal_def)
qed

lemma json_parses: "json_ok v \<Longrightarrow> parses v"
proof (induction v)
  case (JsArray xs)
  show ?case unfolding parses_def
  proof (intro allI impI)
    fix k r
    assume len: "length (json_text (JsArray xs)) \<le> k"
    then obtain j where k: "k = Suc j" by (cases k) auto
    show "json_value k (json_text (JsArray xs) @ r) = Some (json_normal (JsArray xs), r)"
    proof (cases xs)
      case Nil
      then show ?thesis by (simp add: k)
    next
      case (Cons x ys)
      have "json_array_rest j (js_join [44] (map json_text xs) @ 93 # r) = Some (map json_normal xs, r)"
        by (rule json_array_rest_text) (use JsArray len k Cons in auto)
      moreover obtain u t where "json_text x = u # t" "u \<noteq> 93" using JsArray.prems Cons by (auto elim: json_text_hd)
      then have "take 1 (js_join [44] (map json_text xs) @ 93 # r) \<noteq> [93]" using Cons by (simp add: js_join_Cons)
      ultimately show ?thesis by (simp add: k)
    qed
  qed
next
  case (JsPlainObject ms)
  let ?ms = "sorted_members ms"
  have IH: "parses (snd m)" if "m \<in> set ?ms" for m
    using JsPlainObject.IH [of m "snd m"] JsPlainObject.prems that by (auto simp: sorted_members_def snds.simps)
  show ?case unfolding parses_def
  proof (intro allI impI)
    fix k r
    assume len: "length (json_text (JsPlainObject ms)) \<le> k"
    then obtain j where k: "k = Suc j" by (cases k) auto
    have whole: "json_text (JsPlainObject ms) @ r = 123 # js_join [44] (map member_text ?ms) @ 125 # r"
      by (simp add: member_text_def [abs_def])
    show "json_value k (json_text (JsPlainObject ms) @ r) = Some (json_normal (JsPlainObject ms), r)"
    proof (cases ?ms)
      case Nil
      then show ?thesis unfolding whole by (simp add: k)
    next
      case (Cons m rest)
      have "json_object_rest j (js_join [44] (map member_text ?ms) @ 125 # r) = Some (map member_normal ?ms, r)"
        by (rule json_object_rest_text) (use IH len k Cons in \<open>auto simp: member_text_def [abs_def]\<close>)
      moreover have "take 1 (js_join [44] (map member_text ?ms) @ 125 # r) \<noteq> [125]"
        using Cons by (simp add: js_join_Cons member_text_def js_quote_def)
      ultimately show ?thesis unfolding whole by (simp add: k member_normal_def [abs_def])
    qed
  qed
next
  case (JsString s)
  have "json_value (Suc k) (34 # quote_body s @ 34 # r) = Some (JsString s, r)" for k r by (simp add: unquote_body)
  then show ?case unfolding parses_def by (auto simp: js_quote_def elim!: Suc_le_D [THEN exE])
next
  case (JsNumber n)
  then have ok: "number_ok n" by simp
  show ?case unfolding parses_def
  proof (intro allI impI)
    fix k r
    assume r: "json_stop r" and len: "length (json_text (JsNumber n)) \<le> k"
    obtain u t where "number_text n = u # t" by (rule number_text_hd)
    with len obtain j where "k = Suc j" by (cases k) auto
    then show "json_value k (json_text (JsNumber n) @ r) = Some (json_normal (JsNumber n), r)"
      using json_value_number [OF ok r, of j] by simp
  qed
next
  case JsNull
  show ?case by (auto simp: parses_def json_word_def js_def elim!: Suc_le_D [THEN exE])
next
  case (JsBoolean b)
  show ?case by (auto simp: parses_def json_word_def js_def elim!: Suc_le_D [THEN exE])
qed simp_all

lemma parseCanonicalJson_text: "json_ok v \<Longrightarrow> parseCanonicalJson (json_text v) = Some (json_normal v)"
  using parsesD [OF json_parses, of v "[]" "length (json_text v)"] by (simp add: parseCanonicalJson_def)

subsection \<open>The normal form has the same text\<close>

lemma js_sort_in_order: "sorted_wrt (\<lambda>x y. c x y \<le> 0) xs \<Longrightarrow> js_sort c xs = xs"
proof (induction xs)
  case (Cons x xs)
  then show ?case by (cases xs) (auto simp: js_sort_Cons)
qed simp

interpretation members: js_comparator member_order
  by unfold_locales (auto simp: member_order_def intro: utf8_order.cmp_anti utf8_order.cmp_trans)

lemma in_order_map: "members.in_order ms \<Longrightarrow> members.in_order (map (\<lambda>m. (fst m, f (snd m))) ms)"
  by (induction ms) (auto simp: member_order_def)

lemma sorted_members_normal [simp]:
  "sorted_members (map (\<lambda>m. (fst m, f (snd m))) (sorted_members ms)) = map (\<lambda>m. (fst m, f (snd m))) (sorted_members ms)"
  unfolding sorted_members_def
  by (rule js_sort_in_order) (rule in_order_map [OF members.in_order_sort])

lemma json_text_normal: "json_text (json_normal v) = json_text v"
proof (induction v)
  case (JsNumber n)
  have "number_text (number_normal n) = number_text n"
    by (cases n) (simp_all add: number_text_def number_normal_def fraction_text_def js_of_int_def js_of_nat_rec digit_unit_def js_def)
  then show ?case by simp
next
  case (JsPlainObject ms)
  have "json_text (json_normal (snd m)) = json_text (snd m)" if "m \<in> set (sorted_members ms)" for m
    using JsPlainObject.IH [of m "snd m"] that by (auto simp: sorted_members_def snds.simps)
  then have "map (\<lambda>m. js_quote (fst m) @ [58] @ json_text (json_normal (snd m))) (sorted_members ms) =
      map (\<lambda>m. js_quote (fst m) @ [58] @ json_text (snd m)) (sorted_members ms)" by simp
  then show ?case by (simp add: comp_def del: map_eq_conv)
qed (simp_all add: comp_def cong: map_cong)

lemma json_ok_normal: "json_ok (json_normal v) = json_ok v"
proof (induction v)
  case (JsNumber n)
  then show ?case by (cases n) (simp_all add: number_ok_def number_normal_def isSafeInteger_def MAX_SAFE_INTEGER_def)
next
  case (JsPlainObject ms)
  have "json_ok (json_normal (snd m)) = json_ok (snd m)" if "m \<in> set (sorted_members ms)" for m
    using JsPlainObject.IH [of m "snd m"] that by (auto simp: sorted_members_def snds.simps)
  then show ?case by simp
qed simp_all

lemma json_size_normal: "json_nodes (json_normal v) = json_nodes v \<and> json_height (json_normal v) = json_height v"
proof (induction v)
  case (JsArray xs)
  then have "map json_nodes (map json_normal xs) = map json_nodes xs"
    "foldr (\<lambda>x h. max (1 + json_height x) h) (map json_normal xs) 0 = foldr (\<lambda>x h. max (1 + json_height x) h) xs 0"
    by (auto simp: foldr_map intro!: foldr_cong)
  then show ?case by (simp del: map_map)
next
  case (JsPlainObject ms)
  let ?ms = "sorted_members ms" and ?f = "\<lambda>m. (fst m, json_normal (snd m))"
  have IH: "json_nodes (json_normal (snd m)) = json_nodes (snd m) \<and> json_height (json_normal (snd m)) = json_height (snd m)"
    if "m \<in> set ?ms" for m
    using JsPlainObject.IH [of m "snd m"] that by (auto simp: sorted_members_def snds.simps)
  then have "map (\<lambda>m. json_nodes (snd m)) (map ?f ?ms) = map (\<lambda>m. json_nodes (snd m)) ?ms"
    "foldr (\<lambda>m h. max (1 + json_height (snd m)) h) (map ?f ?ms) 0 = foldr (\<lambda>m h. max (1 + json_height (snd m)) h) ?ms 0"
    by (auto simp: foldr_map intro!: foldr_cong)
  then show ?case by (simp del: map_map)
qed simp_all

lemma json_text_inject:
  assumes "json_ok v" "json_ok w"
  shows "json_text v = json_text w \<longleftrightarrow> json_normal v = json_normal w"
  using parseCanonicalJson_text [OF assms(1)] parseCanonicalJson_text [OF assms(2)] json_text_normal [of v] json_text_normal [of w]
  by auto

end
