(* ===== verification/ValueProperty.thy ===== *)
theory ValueProperty
  imports ValueJsonParse
begin

text \<open>
  Property values (\<open>packages/value-codec/src/property.ts\<close>): one canonical value per descriptor, and
  the order of scalars. A failure is an error of the codec or, for the call of \<open>JSON.parse\<close> alone,
  a \<open>SyntaxError\<close>, which never happens.
\<close>

datatype ScalarValueDescriptor =
    BooleanDescriptor
  | IntegerDescriptor
  | DecimalDescriptor DecimalFormat
  | DateDescriptor
  | TimestampDescriptor
  | EnumDescriptor "jsstring list"
  | StringDescriptor "int option"

record StringArrayDescriptor =
  sa_maximumItems :: "int option"
  sa_itemMaximumBytes :: "int option"

datatype PropertyType =
    ScalarProperty ScalarValueDescriptor
  | StringArrayProperty StringArrayDescriptor
  | JsonProperty RestrictedJsonOptions

record PropertyDescriptor =
  pd_type :: PropertyType
  pd_nullable :: "bool option"

datatype CanonicalScalarValue = CanonicalBoolean bool | CanonicalText jsstring

datatype CanonicalPropertyValue =
    CanonicalNull
  | CanonicalScalar CanonicalScalarValue
  | CanonicalStrings "jsstring list"
  | CanonicalJson JsValue

datatype PropertyFailure = CodecFailure ValueCodecError | SyntaxFailure

definition DEFAULT_STRING_ARRAY_MAXIMUM_ITEMS :: int where
  "DEFAULT_STRING_ARRAY_MAXIMUM_ITEMS = 1000"

definition enum_path :: "nat \<Rightarrow> jsstring" where
  "enum_path i = js ''$enum['' @ js_of_int (int i) @ [93]"

fun validateEnumValues_from :: "nat \<Rightarrow> jsstring set \<Rightarrow> jsstring list \<Rightarrow> unit codec" where
  "validateEnumValues_from index seen [] = Inr ()"
| "validateEnumValues_from index seen (candidate # vs) =
     rbind (requireString (JsString candidate) (enum_path index)) (\<lambda>v.
     rbind (guard (v \<notin> seen) (ValueCodecError ENUM_SCHEMA_INVALID (enum_path index))) (\<lambda>_.
     validateEnumValues_from (Suc index) (insert v seen) vs))"

definition validateEnumValues :: "jsstring list \<Rightarrow> unit codec" where
  "validateEnumValues vs = validateEnumValues_from 0 {} vs"

definition canonicalizeEnum :: "JsValue \<Rightarrow> jsstring list \<Rightarrow> jsstring codec" where
  "canonicalizeEnum input vs =
     rbind (requireString input value_path) (\<lambda>v.
     rbind (validateEnumValues vs) (\<lambda>_.
     rbind (guard (v \<in> set vs) (vfail ENUM_VALUE_INVALID)) (\<lambda>_. Inr v)))"

definition text_of :: "jsstring codec \<Rightarrow> CanonicalScalarValue codec" where
  "text_of r = rbind r (\<lambda>t. Inr (CanonicalText t))"

definition canonicalizeScalarValue :: "JsValue \<Rightarrow> ScalarValueDescriptor \<Rightarrow> CanonicalScalarValue codec" where
  "canonicalizeScalarValue input descriptor = (case descriptor of
       BooleanDescriptor \<Rightarrow> (case input of JsBoolean b \<Rightarrow> Inr (CanonicalBoolean b) | _ \<Rightarrow> Inl (vfail VALUE_TYPE_MISMATCH))
     | IntegerDescriptor \<Rightarrow> text_of (canonicalizeInteger input)
     | DecimalDescriptor format \<Rightarrow> text_of (canonicalizeDecimal input format)
     | DateDescriptor \<Rightarrow> text_of (canonicalizeDate input)
     | TimestampDescriptor \<Rightarrow> text_of (canonicalizeTimestamp input)
     | EnumDescriptor vs \<Rightarrow> text_of (canonicalizeEnum input vs)
     | StringDescriptor maximumBytes \<Rightarrow> text_of (
         rbind (requireString input value_path) (\<lambda>v.
         rbind (assertUtf8ByteLimit v (case maximumBytes of None \<Rightarrow> DEFAULT_STRING_MAX_BYTES | Some n \<Rightarrow> n) value_path) (\<lambda>_.
         Inr v))))"

definition item_path :: "nat \<Rightarrow> jsstring" where
  "item_path i = index_path value_path i"

fun canonical_items :: "int \<Rightarrow> nat \<Rightarrow> JsValue list \<Rightarrow> jsstring list codec" where
  "canonical_items maximumBytes index [] = Inr []"
| "canonical_items maximumBytes index (item # items) =
     rbind (requireString item (item_path index)) (\<lambda>v.
     rbind (assertUtf8ByteLimit v maximumBytes (item_path index)) (\<lambda>_.
     rbind (canonical_items maximumBytes (Suc index) items) (\<lambda>vs. Inr (v # vs))))"

definition canonicalizeStringArray :: "JsValue \<Rightarrow> StringArrayDescriptor \<Rightarrow> jsstring list codec" where
  "canonicalizeStringArray input descriptor = (case input of
       JsArray items \<Rightarrow>
         let maximumItems = (case sa_maximumItems descriptor of None \<Rightarrow> DEFAULT_STRING_ARRAY_MAXIMUM_ITEMS | Some n \<Rightarrow> n) in
         rbind (guard (isSafeInteger maximumItems \<and> \<not> maximumItems < 0) (vfail STRING_ARRAY_TOO_LARGE)) (\<lambda>_.
         rbind (guard (\<not> int (length items) > maximumItems) (vfail STRING_ARRAY_TOO_LARGE)) (\<lambda>_.
         canonical_items (case sa_itemMaximumBytes descriptor of None \<Rightarrow> DEFAULT_STRING_MAX_BYTES | Some n \<Rightarrow> n) 0 items))
     | _ \<Rightarrow> Inl (vfail VALUE_TYPE_MISMATCH))"

definition codec_step :: "'a codec \<Rightarrow> (PropertyFailure, 'a) result" where
  "codec_step r = (case r of Inl e \<Rightarrow> Inl (CodecFailure e) | Inr x \<Rightarrow> Inr x)"

definition canonicalizePropertyValue :: "JsValue \<Rightarrow> PropertyDescriptor \<Rightarrow> (PropertyFailure, CanonicalPropertyValue) result" where
  "canonicalizePropertyValue input descriptor =
     (if input = JsNull
      then if pd_nullable descriptor = Some True then Inr CanonicalNull else Inl (CodecFailure (vfail VALUE_TYPE_MISMATCH))
      else case pd_type descriptor of
          StringArrayProperty d \<Rightarrow> rbind (codec_step (canonicalizeStringArray input d)) (\<lambda>vs. Inr (CanonicalStrings vs))
        | JsonProperty options \<Rightarrow>
            rbind (codec_step (canonicalizeRestrictedJson input options)) (\<lambda>canonical.
            case parseCanonicalJson canonical of
              None \<Rightarrow> Inl SyntaxFailure
            | Some v \<Rightarrow> Inr (CanonicalJson v))
        | ScalarProperty d \<Rightarrow> rbind (codec_step (canonicalizeScalarValue input d)) (\<lambda>v. Inr (CanonicalScalar v)))"

definition js_index_of :: "jsstring list \<Rightarrow> jsstring \<Rightarrow> int" where
  "js_index_of vs v = (if v \<in> set vs then int (length (takeWhile (\<lambda>w. w \<noteq> v) vs)) else -1)"

definition scalar_text :: "CanonicalScalarValue \<Rightarrow> jsstring" where
  "scalar_text c = (case c of CanonicalText t \<Rightarrow> t | CanonicalBoolean b \<Rightarrow> if b then js ''true'' else js ''false'')"

definition scalar_bool :: "CanonicalScalarValue \<Rightarrow> int" where
  "scalar_bool c = (case c of CanonicalBoolean True \<Rightarrow> 1 | _ \<Rightarrow> 0)"

definition compare_canonical :: "ScalarValueDescriptor \<Rightarrow> CanonicalScalarValue \<Rightarrow> CanonicalScalarValue \<Rightarrow> int" where
  "compare_canonical descriptor left right = (case descriptor of
       BooleanDescriptor \<Rightarrow> scalar_bool left - scalar_bool right
     | IntegerDescriptor \<Rightarrow> compareCanonicalIntegers (scalar_text left) (scalar_text right)
     | DecimalDescriptor format \<Rightarrow> compareCanonicalDecimals (scalar_text left) (scalar_text right)
     | DateDescriptor \<Rightarrow>
         if scalar_text left < scalar_text right then -1 else if scalar_text left > scalar_text right then 1 else 0
     | TimestampDescriptor \<Rightarrow> compareCanonicalTimestamps (scalar_text left) (scalar_text right)
     | EnumDescriptor vs \<Rightarrow> sgn (js_index_of vs (scalar_text left) - js_index_of vs (scalar_text right))
     | StringDescriptor _ \<Rightarrow> compareUtf8 (scalar_text left) (scalar_text right))"

definition compareScalarValues :: "JsValue \<Rightarrow> JsValue \<Rightarrow> ScalarValueDescriptor \<Rightarrow> int codec" where
  "compareScalarValues leftInput rightInput descriptor =
     rbind (canonicalizeScalarValue leftInput descriptor) (\<lambda>left.
     rbind (canonicalizeScalarValue rightInput descriptor) (\<lambda>right.
     Inr (compare_canonical descriptor left right)))"

subsection \<open>Canonical values are fixed points\<close>

lemma text_of_Inr: "text_of r = Inr c \<longleftrightarrow> (\<exists>t. r = Inr t \<and> c = CanonicalText t)"
  by (auto simp: text_of_def)

text \<open>The value a canonical scalar is when it comes back as an input.\<close>

definition scalar_input :: "CanonicalScalarValue \<Rightarrow> JsValue" where
  "scalar_input c = (case c of CanonicalBoolean b \<Rightarrow> JsBoolean b | CanonicalText t \<Rightarrow> JsString t)"

lemma canonicalizeInteger_again: "canonicalizeInteger input = Inr t \<Longrightarrow> canonicalizeInteger (JsString t) = Inr t"
  using big_int_print print_plain by (auto simp: canonicalizeInteger_Inr requireString_Inr)

lemma canonicalizeTimestamp_again: "canonicalizeTimestamp input = Inr t \<Longrightarrow> canonicalizeTimestamp (JsString t) = Inr t"
  by (elim canonicalizeTimestamp_cases) (simp add: canonicalizeTimestamp_utc)

lemma canonicalizeDate_again: "canonicalizeDate input = Inr t \<Longrightarrow> canonicalizeDate (JsString t) = Inr t"
  by (auto simp: canonicalizeDate_def Let_def requireString_Inr)

lemma canonicalizeEnum_again: "canonicalizeEnum input vs = Inr t \<Longrightarrow> canonicalizeEnum (JsString t) vs = Inr t"
  by (auto simp: canonicalizeEnum_def requireString_Inr)

subsection \<open>Canonical decimals\<close>

lemma natural_text_size: "natural_text s \<Longrightarrow> s \<noteq> [48] \<Longrightarrow> 10 ^ (length s - 1) \<le> bigint_of_js s"
proof -
  assume n: "natural_text s" "s \<noteq> [48]"
  then obtain u t where s: "s = u # t" and u: "is_digit u" "u \<noteq> 48" and t: "list_all is_digit t"
    by (cases s) (auto simp: natural_text_def)
  have "1 \<le> uint u - 48" using u by (auto simp: is_digit_uint word_uint_eq_iff)
  then have "1 * 10 ^ length t \<le> (uint u - 48) * 10 ^ length t" by (intro mult_right_mono) simp_all
  moreover have "0 \<le> bigint_of_js t" using bigint_of_js_range [OF t] by simp
  ultimately have "10 ^ length t \<le> (uint u - 48) * 10 ^ length t + bigint_of_js t" by linarith
  then show ?thesis unfolding s bigint_of_js_Cons by simp
qed

lemma decimal_layout:
  assumes ip: "natural_text ip" and fp: "list_all is_digit fp" "length fp = s"
    and t: "t = (if neg then [45] else []) @ ip @ (if s = 0 then [] else 46 # fp)"
  shows "starts_minus t \<longleftrightarrow> neg" "before_dot (strip_minus t) = ip" "after_dot (strip_minus t) = fp"
    "decimalPattern t" "isWellFormed t \<and> 0 \<notin> set t"
proof -
  have m: "\<not> starts_minus (ip @ x)" for x using ip by (rule natural_not_minus)
  show starts: "starts_minus t \<longleftrightarrow> neg" using m by (auto simp: t) (auto simp: starts_minus_def)
  have strip: "strip_minus t = ip @ (if s = 0 then [] else 46 # fp)"
    unfolding strip_minus_def starts by (simp add: t)
  have no: "46 \<notin> set ip" "46 \<notin> set fp" using ip fp by (auto dest: natural_text_digits digits_no_dot)
  have tw: "takeWhile (\<lambda>u. u \<noteq> 46) (x @ 46 # fp) = x" "dropWhile (\<lambda>u. u \<noteq> 46) (x @ 46 # fp) = 46 # fp"
      "takeWhile (\<lambda>u. u \<noteq> 46) x = x" "dropWhile (\<lambda>u. u \<noteq> 46) x = []" if "46 \<notin> set x" for x
    using that by (induction x) auto
  show before: "before_dot (strip_minus t) = ip" using tw [OF no(1)] by (simp add: strip before_dot_def)
  show after: "after_dot (strip_minus t) = fp" using tw [OF no(1)] fp(2) by (auto simp: strip after_dot_def)
  have "46 \<in> set (strip_minus t) \<longleftrightarrow> s \<noteq> 0" using no by (simp add: strip)
  then show "decimalPattern t" unfolding decimalPattern_def Let_def before after using ip fp by auto
  show "isWellFormed t \<and> 0 \<notin> set t"
    by (rule plain_wf) (use digits_plain [OF natural_text_digits [OF ip]] digits_plain [OF fp(1)] in \<open>auto simp: t\<close>)
qed

lemma decimal_text_layout:
  obtains ip fp where "natural_text ip" "list_all is_digit fp" "length fp = s"
    "decimal_text s u = (if u < 0 then [45] else []) @ ip @ (if s = 0 then [] else 46 # fp)"
    "bigint_of_js ip = \<bar>u\<bar> div 10 ^ s" "bigint_of_js fp = \<bar>u\<bar> mod 10 ^ s"
proof (rule that)
  let ?q = "\<bar>u\<bar> div 10 ^ s" and ?r = "\<bar>u\<bar> mod 10 ^ s" and ?fp = "if s = 0 then [] else pad (\<bar>u\<bar> mod 10 ^ s) s"
  have r: "0 \<le> ?r" "?r < 10 ^ s" by simp_all
  have q: "0 \<le> ?q" by (simp add: pos_imp_zdiv_nonneg_iff)
  show "natural_text (js_of_int ?q)" using q by (rule print_natural_text)
  show "bigint_of_js (js_of_int ?q) = ?q" using q by (rule bigint_of_js_of_int)
  show "list_all is_digit ?fp" "length ?fp = s" "bigint_of_js ?fp = ?r"
    using pad_props [OF r] r by (auto simp: bigint_of_js_def)
  show "decimal_text s u = (if u < 0 then [45] else []) @ js_of_int ?q @ (if s = 0 then [] else 46 # ?fp)"
    by (simp add: decimal_text_def)
qed

lemma canonicalizeDecimal_text:
  assumes f: "validateDecimalFormat f = Inr ()" and u: "\<bar>u\<bar> < 10 ^ nat (precision f)" and s: "s = nat (scale f)"
  shows "canonicalizeDecimal (JsString (decimal_text s u)) f = Inr (decimal_text s u)"
proof -
  have fmt: "0 \<le> scale f" "scale f \<le> precision f" using f by (auto simp: validateDecimalFormat_def)
  obtain ip fp where p: "natural_text ip" "list_all is_digit fp" "length fp = s"
    and t: "decimal_text s u = (if u < 0 then [45] else []) @ ip @ (if s = 0 then [] else 46 # fp)"
    and v: "bigint_of_js ip = \<bar>u\<bar> div 10 ^ s" "bigint_of_js fp = \<bar>u\<bar> mod 10 ^ s" by (rule decimal_text_layout)
  note lay = decimal_layout [OF p t]
  have pad: "padEnd fp s = fp" using p(3) by (simp add: padEnd_def)
  have digits: "(if ip = [48] then 0 else int (length ip)) \<le> precision f - scale f"
  proof (cases "ip = [48]")
    case False
    have "\<bar>u\<bar> < 10 ^ nat (precision f - scale f) * 10 ^ s"
      using u fmt by (simp add: s power_add [symmetric] nat_diff_distrib)
    moreover have "bigint_of_js ip * 10 ^ s \<le> \<bar>u\<bar>"
    proof -
      have "0 \<le> \<bar>u\<bar> mod 10 ^ s" by simp
      then show ?thesis unfolding v using div_mult_mod_eq [of "\<bar>u\<bar>" "10 ^ s"] by linarith
    qed
    ultimately have "bigint_of_js ip * 10 ^ s < 10 ^ nat (precision f - scale f) * 10 ^ s" by linarith
    then have "bigint_of_js ip < 10 ^ nat (precision f - scale f)" by (simp add: mult_less_cancel_right)
    with natural_text_size [OF p(1) False] have "(10 :: int) ^ (length ip - 1) < 10 ^ nat (precision f - scale f)" by linarith
    then have "length ip - 1 < nat (precision f - scale f)" by (simp add: power_strict_increasing_iff)
    then have "int (length ip) \<le> precision f - scale f" by linarith
    then show ?thesis using False by simp
  qed (use fmt in simp)
  have "u < 0 \<Longrightarrow> \<not> (ip = [48] \<and> \<not> list_ex (\<lambda>u. 49 \<le> u \<and> u \<le> 57) fp)"
  proof
    assume "u < 0" and z: "ip = [48] \<and> \<not> list_ex (\<lambda>u. 49 \<le> u \<and> u \<le> 57) fp"
    then have "\<bar>u\<bar> div 10 ^ s = 0" "\<bar>u\<bar> mod 10 ^ s = 0"
      using v digits_zero [OF p(2)] natural_text_zero [OF p(1)] by auto
    then have "\<bar>u\<bar> = 0" using div_mult_mod_eq [of "\<bar>u\<bar>" "10 ^ s"] by simp
    then show False using \<open>u < 0\<close> by simp
  qed
  then have sign: "(u < 0 \<and> \<not> (ip = [48] \<and> \<not> list_ex (\<lambda>u. 49 \<le> u \<and> u \<le> 57) fp)) = (u < 0)" by blast
  have scale: "scale f = int s" using fmt(1) by (simp add: s)
  have req: "requireString (JsString (decimal_text s u)) value_path = Inr (decimal_text s u)" using lay(5) by (simp add: requireString_Inr)
  show ?thesis
    unfolding canonicalizeDecimal_def f req Let_def rbind_Inr lay(1-3) s [symmetric] pad sign
    using lay(4) digits p(3) by (auto simp: guard_def scale t)
qed

lemma canonicalizeDecimal_again: "canonicalizeDecimal input f = Inr t \<Longrightarrow> canonicalizeDecimal (JsString t) f = Inr t"
  by (erule canonicalizeDecimal_Inr) (simp add: canonicalizeDecimal_text)

lemma canonicalizeScalarValue_again:
  "canonicalizeScalarValue input d = Inr c \<Longrightarrow> canonicalizeScalarValue (scalar_input c) d = Inr c"
  by (cases d) (auto simp: canonicalizeScalarValue_def scalar_input_def text_of_Inr requireString_Inr
    canonicalizeInteger_again canonicalizeTimestamp_again canonicalizeDate_again canonicalizeEnum_again canonicalizeDecimal_again
    split: JsValue.splits)

subsection \<open>The order of scalars\<close>

text \<open>A comparison that is the order of a key, on the values where the key tells values apart.\<close>

definition orders :: "('a \<Rightarrow> 'a \<Rightarrow> int) \<Rightarrow> ('a \<Rightarrow> bool) \<Rightarrow> bool" where
  "orders cmp A \<longleftrightarrow> (\<forall>x y z. A x \<longrightarrow> A y \<longrightarrow> A z \<longrightarrow>
     cmp x y \<in> {-1, 0, 1} \<and> cmp y x = - cmp x y \<and> (cmp x y = 0 \<longleftrightarrow> x = y)
     \<and> (cmp x y \<le> 0 \<longrightarrow> cmp y z \<le> 0 \<longrightarrow> cmp x z \<le> 0))"

lemma ordersD:
  assumes "orders cmp A" "A x" "A y"
  shows "cmp x y \<in> {-1, 0, 1}" "cmp y x = - cmp x y" "cmp x y = 0 \<longleftrightarrow> x = y"
    "A z \<Longrightarrow> cmp x y \<le> 0 \<Longrightarrow> cmp y z \<le> 0 \<Longrightarrow> cmp x z \<le> 0"
proof -
  have all: "cmp x y \<in> {-1, 0, 1} \<and> cmp y x = - cmp x y \<and> (cmp x y = 0 \<longleftrightarrow> x = y)
      \<and> (cmp x y \<le> 0 \<longrightarrow> cmp y z \<le> 0 \<longrightarrow> cmp x z \<le> 0)" if "A z" for z
    using assms(1) [unfolded orders_def, rule_format, OF assms(2,3) that] by blast
  show "cmp x y \<in> {-1, 0, 1}" "cmp y x = - cmp x y" "cmp x y = 0 \<longleftrightarrow> x = y" using all [OF assms(3)] by blast+
  show "A z \<Longrightarrow> cmp x y \<le> 0 \<Longrightarrow> cmp y z \<le> 0 \<Longrightarrow> cmp x z \<le> 0" using all by blast
qed

lemma orders_key:
  assumes key: "\<And>x y. A x \<Longrightarrow> A y \<Longrightarrow> cmp x y = compareBy (k x) (k y)"
    and inj: "\<And>x y. A x \<Longrightarrow> A y \<Longrightarrow> k x = k y \<Longrightarrow> x = y"
  shows "orders cmp A"
  unfolding orders_def
proof (intro allI impI conjI)
  fix x y z
  assume A: "A x" "A y" "A z"
  note k = key [OF A(1,2)] key [OF A(2,1)] key [OF A(2,3)] key [OF A(1,3)]
  show "cmp x y \<in> {-1, 0, 1}" "cmp y x = - cmp x y" unfolding k by (auto simp: compareBy_def)
  show "cmp x y = 0 \<longleftrightarrow> x = y" using inj [OF A(1,2)] unfolding k by (auto simp: compareBy_def)
  show "cmp x y \<le> 0 \<Longrightarrow> cmp y z \<le> 0 \<Longrightarrow> cmp x z \<le> 0" unfolding k by (auto simp: compareBy_def split: if_splits)
qed

definition canonical_scalar :: "ScalarValueDescriptor \<Rightarrow> CanonicalScalarValue \<Rightarrow> bool" where
  "canonical_scalar d c \<longleftrightarrow> canonicalizeScalarValue (scalar_input c) d = Inr c"

lemma canonicalize_canonical: "canonicalizeScalarValue input d = Inr c \<Longrightarrow> canonical_scalar d c"
  unfolding canonical_scalar_def by (rule canonicalizeScalarValue_again)

lemma unscaled_decimal_text: "decimalToUnscaled (decimal_text s u) = u \<and> fractionalDigits (decimal_text s u) = s"
proof -
  obtain ip fp where p: "natural_text ip" "list_all is_digit fp" "length fp = s"
    and t: "decimal_text s u = (if u < 0 then [45] else []) @ ip @ (if s = 0 then [] else 46 # fp)"
    and v: "bigint_of_js ip = \<bar>u\<bar> div 10 ^ s" "bigint_of_js fp = \<bar>u\<bar> mod 10 ^ s" by (rule decimal_text_layout)
  have t': "decimal_text s u = (if u < 0 then [45] else []) @ ip @ (if s \<noteq> 0 then 46 # fp else [])" using t by simp
  note u = unscaled_parts [OF p(1,2) t']
  have "s \<noteq> 0 \<or> fp = []" using p(3) by auto
  note u = u [OF this]
  have "\<bar>u\<bar> div 10 ^ s * 10 ^ s + \<bar>u\<bar> mod 10 ^ s = \<bar>u\<bar>" by (rule div_mult_mod_eq)
  then show ?thesis using u p(3) v by auto
qed

lemma compare_decimal_text:
  "compareCanonicalDecimals (decimal_text s u) (decimal_text s w) = compareBy u w"
  using unscaled_decimal_text by (simp add: compareCanonicalDecimals_def compareBy_def Let_def)

lemma js_index_of_nth: "v \<in> set vs \<Longrightarrow> vs ! nat (js_index_of vs v) = v"
proof -
  assume "v \<in> set vs"
  moreover from this have "vs ! length (takeWhile (\<lambda>w. w \<noteq> v) vs) = v" by (induction vs) auto
  ultimately show ?thesis by (simp add: js_index_of_def)
qed

lemma canonical_text:
  assumes "canonical_scalar d c" "d \<noteq> BooleanDescriptor"
  obtains t where "c = CanonicalText t"
  using assms by (cases c) (auto simp: canonical_scalar_def canonicalizeScalarValue_def text_of_Inr split: ScalarValueDescriptor.splits)

lemma canonical_text_inject:
  assumes "canonical_scalar d x" "canonical_scalar d y" "d \<noteq> BooleanDescriptor" "scalar_text x = scalar_text y"
  shows "x = y"
proof -
  obtain s where "x = CanonicalText s" using assms(1,3) by (rule canonical_text)
  moreover obtain t where "y = CanonicalText t" using assms(2,3) by (rule canonical_text)
  ultimately show ?thesis using assms(4) by (simp add: scalar_text_def)
qed

lemma canonical_decimal:
  assumes "canonical_scalar (DecimalDescriptor f) c"
  obtains u where "c = CanonicalText (decimal_text (nat (scale f)) u)"
proof -
  obtain t where c: "c = CanonicalText t" using assms by (rule canonical_text) simp
  with assms have "canonicalizeDecimal (JsString t) f = Inr t"
    by (simp add: canonical_scalar_def canonicalizeScalarValue_def scalar_input_def text_of_Inr)
  then show ?thesis by (rule canonicalizeDecimal_Inr) (use c that in blast)
qed

lemma compare_canonical_orders: "orders (compare_canonical d) (canonical_scalar d)"
proof (cases d)
  case BooleanDescriptor
  have bool: "\<exists>b. c = CanonicalBoolean b" if "canonical_scalar BooleanDescriptor c" for c
    using that by (cases c) (auto simp: canonical_scalar_def canonicalizeScalarValue_def scalar_input_def)
  show ?thesis unfolding BooleanDescriptor
    by (rule orders_key [where k = scalar_bool])
       (auto dest!: bool simp: compare_canonical_def scalar_bool_def compareBy_def split: bool.splits)
next
  case IntegerDescriptor
  have int: "\<exists>i. c = CanonicalText (js_of_int i)" if "canonical_scalar IntegerDescriptor c" for c
    using that by (cases c) (auto simp: canonical_scalar_def canonicalizeScalarValue_def text_of_Inr canonicalizeInteger_Inr)
  show ?thesis unfolding IntegerDescriptor
    by (rule orders_key [where k = "\<lambda>c. big_int (scalar_text c)"])
       (use big_int_print in \<open>auto dest!: int simp: compare_canonical_def compareCanonicalIntegers_def scalar_text_def compareBy_def\<close>)
next
  case (DecimalDescriptor f)
  show ?thesis
  proof (rule orders_key [where k = "\<lambda>c. decimalToUnscaled (scalar_text c)"])
    fix x y
    assume "canonical_scalar d x" "canonical_scalar d y"
    then obtain u w where x: "x = CanonicalText (decimal_text (nat (scale f)) u)" and y: "y = CanonicalText (decimal_text (nat (scale f)) w)"
      unfolding DecimalDescriptor by (meson canonical_decimal)
    show "compare_canonical d x y = compareBy (decimalToUnscaled (scalar_text x)) (decimalToUnscaled (scalar_text y))"
      using unscaled_decimal_text
      by (simp add: x y DecimalDescriptor compare_canonical_def scalar_text_def compare_decimal_text)
    show "decimalToUnscaled (scalar_text x) = decimalToUnscaled (scalar_text y) \<Longrightarrow> x = y"
      using unscaled_decimal_text by (simp add: x y scalar_text_def)
  qed
next
  case DateDescriptor
  show ?thesis
    by (rule orders_key [where k = scalar_text])
       (use DateDescriptor in \<open>auto simp: compare_canonical_def compareBy_def intro: canonical_text_inject\<close>)
next
  case TimestampDescriptor
  show ?thesis
    by (rule orders_key [where k = scalar_text])
       (use TimestampDescriptor in
         \<open>auto simp: compare_canonical_def compareCanonicalTimestamps_def compareBy_def intro: canonical_text_inject\<close>)
next
  case (EnumDescriptor vs)
  have enum: "\<exists>v. c = CanonicalText v \<and> v \<in> set vs" if "canonical_scalar d c" for c
    using that EnumDescriptor
    by (cases c) (auto simp: canonical_scalar_def canonicalizeScalarValue_def text_of_Inr canonicalizeEnum_def scalar_input_def requireString_Inr)
  show ?thesis
  proof (rule orders_key [where k = "\<lambda>c. js_index_of vs (scalar_text c)"])
    fix x y
    assume "canonical_scalar d x" "canonical_scalar d y"
    then obtain v w where x: "x = CanonicalText v" "v \<in> set vs" and y: "y = CanonicalText w" "w \<in> set vs" by (blast dest: enum)
    show "compare_canonical d x y = compareBy (js_index_of vs (scalar_text x)) (js_index_of vs (scalar_text y))"
      by (auto simp: EnumDescriptor compare_canonical_def compareBy_def sgn_if)
    show "x = y" if "js_index_of vs (scalar_text x) = js_index_of vs (scalar_text y)"
    proof -
      have "vs ! nat (js_index_of vs v) = vs ! nat (js_index_of vs w)" using that by (simp add: x y scalar_text_def)
      then show ?thesis unfolding js_index_of_nth [OF x(2)] js_index_of_nth [OF y(2)] by (simp add: x y)
    qed
  qed
next
  case (StringDescriptor b)
  have str: "\<exists>v. c = CanonicalText v \<and> isWellFormed v" if "canonical_scalar (StringDescriptor b) c" for c
    using that by (cases c) (auto simp: canonical_scalar_def canonicalizeScalarValue_def text_of_Inr scalar_input_def requireString_Inr)
  show ?thesis unfolding StringDescriptor
    by (rule orders_key [where k = "\<lambda>c. map scalar (code_points (scalar_text c))"])
       (auto dest!: str simp: compare_canonical_def compareUtf8_eq scalar_text_def well_formed_scalar)
qed

lemma compareScalarValues_Inr:
  "compareScalarValues a b d = Inr n \<longleftrightarrow>
     (\<exists>x y. canonicalizeScalarValue a d = Inr x \<and> canonicalizeScalarValue b d = Inr y \<and> n = compare_canonical d x y)"
  by (auto simp: compareScalarValues_def)

end
