(* ===== verification/ValuePrimaryKey.thy ===== *)
theory ValuePrimaryKey
  imports ValueProperty
begin

text \<open>
  Canonical primary keys (\<open>packages/value-codec/src/primary-key.ts\<close>): every component in canonical
  form, with a tag and its length in bytes, so that two keys of one definition are the same text
  exactly when their components are. \<open>String.prototype.normalize("NFC")\<close> and \<open>toUpperCase\<close> are
  given by the Unicode tables of the runtime: they are a parameter, \<open>UnicodeText\<close>, and the theorems
  state what they use of it, that normalizing and upper-casing keep a text well-formed.
\<close>

record UnicodeText =
  normalizeNFC :: "jsstring \<Rightarrow> jsstring"
  toUpperCase :: "jsstring \<Rightarrow> jsstring"

datatype PrimaryKeyComponentDescriptor =
    PrimaryKeyString bool
  | PrimaryKeyUuid
  | PrimaryKeyBoolean
  | PrimaryKeyInteger
  | PrimaryKeyDecimal DecimalFormat
  | PrimaryKeyDate
  | PrimaryKeyTimestamp
  | PrimaryKeyEnum "jsstring list"

record PrimaryKeyDefinition =
  pk_components :: "PrimaryKeyComponentDescriptor list"
  pk_maximumBytes :: "int option"

record PrimaryKeyCandidate =
  pk_candidateId :: jsstring
  pk_values :: "JsValue list"

record CanonicalPrimaryKeyCandidate =
  cpk_candidateId :: jsstring
  cpk_canonicalPrimaryKey :: jsstring

definition DEFAULT_PRIMARY_KEY_MAX_BYTES :: int where
  "DEFAULT_PRIMARY_KEY_MAX_BYTES = 1024"

definition PRIMARY_KEY_CODEC_VERSION :: jsstring where
  "PRIMARY_KEY_CODEC_VERSION = js ''pk1''"

definition componentTag :: "PrimaryKeyComponentDescriptor \<Rightarrow> code_unit" where
  "componentTag d = (case d of
       PrimaryKeyBoolean \<Rightarrow> 98 | PrimaryKeyDate \<Rightarrow> 100 | PrimaryKeyDecimal _ \<Rightarrow> 110 | PrimaryKeyEnum _ \<Rightarrow> 101
     | PrimaryKeyInteger \<Rightarrow> 105 | PrimaryKeyString _ \<Rightarrow> 115 | PrimaryKeyTimestamp \<Rightarrow> 116 | PrimaryKeyUuid \<Rightarrow> 117)"

definition scalar_descriptor :: "PrimaryKeyComponentDescriptor \<Rightarrow> ScalarValueDescriptor" where
  "scalar_descriptor d = (case d of
       PrimaryKeyBoolean \<Rightarrow> BooleanDescriptor | PrimaryKeyInteger \<Rightarrow> IntegerDescriptor
     | PrimaryKeyDecimal format \<Rightarrow> DecimalDescriptor format | PrimaryKeyDate \<Rightarrow> DateDescriptor
     | PrimaryKeyTimestamp \<Rightarrow> TimestampDescriptor | PrimaryKeyEnum vs \<Rightarrow> EnumDescriptor vs
     | _ \<Rightarrow> StringDescriptor None)"

definition normalizePrimaryKeyString :: "UnicodeText \<Rightarrow> JsValue \<Rightarrow> bool \<Rightarrow> jsstring codec" where
  "normalizePrimaryKeyString U input caseSensitive =
     rbind (requireString input value_path) (\<lambda>v.
     rbind (guard (v \<noteq> []) (vfail PRIMARY_KEY_INVALID)) (\<lambda>_.
     let normalized = normalizeNFC U v in
     Inr (if caseSensitive then normalized else normalizeNFC U (toUpperCase U normalized))))"

definition component_path :: "nat \<Rightarrow> jsstring" where
  "component_path i = js ''$key['' @ js_of_int (int i) @ [93]"

definition canonicalizePrimaryKeyComponent ::
  "UnicodeText \<Rightarrow> JsValue \<Rightarrow> PrimaryKeyComponentDescriptor \<Rightarrow> nat \<Rightarrow> jsstring codec" where
  "canonicalizePrimaryKeyComponent U input descriptor index =
     rbind (guard (\<not> (input = JsNull \<or> input = JsUndefined)) (ValueCodecError PRIMARY_KEY_INVALID (component_path index))) (\<lambda>_.
     case descriptor of
       PrimaryKeyString caseSensitive \<Rightarrow> normalizePrimaryKeyString U input caseSensitive
     | PrimaryKeyUuid \<Rightarrow> canonicalizeUuid input
     | _ \<Rightarrow> rbind (canonicalizeScalarValue input (scalar_descriptor descriptor)) (\<lambda>v. Inr (scalar_text v)))"

definition oversized :: "JsValue \<Rightarrow> int \<Rightarrow> bool" where
  "oversized v maximumBytes \<longleftrightarrow> (case v of JsString s \<Rightarrow> int (utf8ByteLength s) > maximumBytes | _ \<Rightarrow> False)"

definition encode_component :: "PrimaryKeyComponentDescriptor \<Rightarrow> jsstring \<Rightarrow> jsstring" where
  "encode_component descriptor v = componentTag descriptor # js_of_int (int (utf8ByteLength v)) @ 35 # v"

fun encoded_components :: "UnicodeText \<Rightarrow> int \<Rightarrow> nat \<Rightarrow> PrimaryKeyComponentDescriptor list \<Rightarrow> JsValue list \<Rightarrow> jsstring list codec" where
  "encoded_components U maximumBytes index (descriptor # ds) (v # vs) =
     rbind (guard (\<not> oversized v maximumBytes) (ValueCodecError PRIMARY_KEY_TOO_LARGE (component_path index))) (\<lambda>_.
     rbind (canonicalizePrimaryKeyComponent U v descriptor index) (\<lambda>canonical.
     rbind (encoded_components U maximumBytes (Suc index) ds vs) (\<lambda>rest.
     Inr (encode_component descriptor canonical # rest))))"
| "encoded_components U maximumBytes index ds vs = Inr []"

definition key_text :: "nat \<Rightarrow> jsstring list \<Rightarrow> jsstring" where
  "key_text n encodedComponents = PRIMARY_KEY_CODEC_VERSION @ [124] @ js_of_int (int n) @ [124] @ concat encodedComponents"

definition canonicalizePrimaryKey :: "UnicodeText \<Rightarrow> JsValue list \<Rightarrow> PrimaryKeyDefinition \<Rightarrow> jsstring codec" where
  "canonicalizePrimaryKey U vs definition =
     (let maximumBytes = (case pk_maximumBytes definition of None \<Rightarrow> DEFAULT_PRIMARY_KEY_MAX_BYTES | Some n \<Rightarrow> n) in
      rbind (guard (isSafeInteger maximumBytes \<and> \<not> maximumBytes < 1) (vfail PRIMARY_KEY_INVALID)) (\<lambda>_.
      rbind (guard (length (pk_components definition) \<noteq> 0) (vfail PRIMARY_KEY_INVALID)) (\<lambda>_.
      rbind (guard (length vs = length (pk_components definition)) (vfail PRIMARY_KEY_INVALID)) (\<lambda>_.
      rbind (encoded_components U maximumBytes 0 (pk_components definition) vs) (\<lambda>encodedComponents.
      let canonical = key_text (length (pk_components definition)) encodedComponents in
      rbind (guard (\<not> int (utf8ByteLength canonical) > maximumBytes) (vfail PRIMARY_KEY_TOO_LARGE)) (\<lambda>_.
      Inr canonical))))))"

fun distinct_keys :: "UnicodeText \<Rightarrow> PrimaryKeyDefinition \<Rightarrow> (jsstring \<rightharpoonup> jsstring) \<Rightarrow> PrimaryKeyCandidate list
    \<Rightarrow> CanonicalPrimaryKeyCandidate list codec" where
  "distinct_keys U definition seen [] = Inr []"
| "distinct_keys U definition seen (candidate # candidates) =
     rbind (canonicalizePrimaryKey U (pk_values candidate) definition) (\<lambda>canonicalPrimaryKey.
     rbind (guard (seen canonicalPrimaryKey = None) (vfail PRIMARY_KEY_COLLISION)) (\<lambda>_.
     rbind (distinct_keys U definition (seen(canonicalPrimaryKey \<mapsto> pk_candidateId candidate)) candidates) (\<lambda>rest.
     Inr (\<lparr>cpk_candidateId = pk_candidateId candidate, cpk_canonicalPrimaryKey = canonicalPrimaryKey\<rparr> # rest))))"

definition canonicalizeDistinctPrimaryKeys ::
  "UnicodeText \<Rightarrow> PrimaryKeyCandidate list \<Rightarrow> PrimaryKeyDefinition \<Rightarrow> CanonicalPrimaryKeyCandidate list codec" where
  "canonicalizeDistinctPrimaryKeys U candidates definition = distinct_keys U definition Map.empty candidates"

subsection \<open>Components are well-formed text\<close>

definition unicode_text :: "UnicodeText \<Rightarrow> bool" where
  "unicode_text U \<longleftrightarrow> (\<forall>s. isWellFormed s \<longrightarrow> isWellFormed (normalizeNFC U s) \<and> isWellFormed (toUpperCase U s))"

lemma unicode_textD:
  "unicode_text U \<Longrightarrow> isWellFormed s \<Longrightarrow> isWellFormed (normalizeNFC U s)"
  "unicode_text U \<Longrightarrow> isWellFormed s \<Longrightarrow> isWellFormed (toUpperCase U s)"
  by (simp_all add: unicode_text_def)

text \<open>A map of code units that leaves surrogates alone keeps text well-formed.\<close>

lemma isWellFormed_map:
  assumes f: "\<And>u. f u = u \<or> unat u < 0xD800 \<and> unat (f u) < 0xD800"
  shows "isWellFormed s \<Longrightarrow> isWellFormed (map f s)"
proof (induction s rule: code_points.induct)
  case (3 u v us)
  have same: "is_high (f w) = is_high w" "is_low (f w) = is_low w" "is_surrogate (unat (f w)) = is_surrogate (unat w)" for w
    using f [of w] by (auto simp: is_high_nat is_low_nat is_surrogate_def)
  show ?case
  proof (cases "is_high u \<and> is_low v")
    case True
    then have "f u = u" "f v = v" using f [of u] f [of v] by (auto simp: is_high_nat is_low_nat)
    then show ?thesis using 3 True by (simp add: isWellFormed_def)
  next
    case False
    then have cp: "code_points (u # v # us) = unat u # code_points (v # us)"
      "code_points (map f (u # v # us)) = unat (f u) # code_points (map f (v # us))"
      unfolding list.map code_points.simps(3) same by (rule if_not_P)+
    then show ?thesis using 3(2) [OF False] 3(3) unfolding isWellFormed_def cp by (simp add: same)
  qed
next
  case (2 u)
  then show ?case using f [of u] by (auto simp: isWellFormed_def is_surrogate_def)
qed simp

lemma isWellFormed_lower: "isWellFormed s \<Longrightarrow> isWellFormed (map ascii_lower s)"
proof (rule isWellFormed_map)
  fix u
  show "ascii_lower u = u \<or> unat u < 0xD800 \<and> unat (ascii_lower u) < 0xD800"
  proof (cases "65 \<le> u \<and> u \<le> 90")
    case True
    then have r: "65 \<le> unat u" "unat u \<le> 90" by (simp_all add: word_le_nat_alt)
    then have "unat (u + 32) = unat u + 32" by (subst unat_add_lem [THEN iffD1]) simp_all
    then show ?thesis using True r by (simp add: ascii_lower_def)
  qed (auto simp: ascii_lower_def)
qed

lemma canonical_text_wf: "canonical_scalar d (CanonicalText t) \<Longrightarrow> isWellFormed t"
  by (cases d) (auto simp: canonical_scalar_def canonicalizeScalarValue_def scalar_input_def text_of_Inr requireString_Inr
    canonicalizeInteger_def canonicalizeDecimal_def canonicalizeDate_def canonicalizeTimestamp_Inr canonicalizeEnum_def Let_def)

lemma scalar_text_wf: "canonicalizeScalarValue input d = Inr c \<Longrightarrow> isWellFormed (scalar_text c)"
proof (cases c)
  case (CanonicalBoolean b)
  have "isWellFormed (js ''true'')" "isWellFormed (js ''false'')" by (rule isWellFormed_js)+
  then show ?thesis using CanonicalBoolean by (simp add: scalar_text_def)
next
  case (CanonicalText t)
  assume "canonicalizeScalarValue input d = Inr c"
  then have "canonical_scalar d c" by (rule canonicalize_canonical)
  then show ?thesis using CanonicalText canonical_text_wf by (simp add: scalar_text_def)
qed

lemma component_wf:
  assumes "unicode_text U" "canonicalizePrimaryKeyComponent U v d i = Inr t"
  shows "isWellFormed t"
  using assms(2) unicode_textD [OF assms(1)] isWellFormed_lower
  by (cases d) (auto simp: canonicalizePrimaryKeyComponent_def normalizePrimaryKeyString_def canonicalizeUuid_def requireString_Inr Let_def
    dest: scalar_text_wf)

lemma component_index: "canonicalizePrimaryKeyComponent U v d i = Inr t \<longleftrightarrow> canonicalizePrimaryKeyComponent U v d j = Inr t"
  by (simp add: canonicalizePrimaryKeyComponent_def)

subsection \<open>The encoding of components is injective\<close>

lemma digits_split:
  assumes "js_of_int (int a) @ x # r = js_of_int (int b) @ y # r'" "\<not> is_digit x" "\<not> is_digit y"
  shows "a = b \<and> r = r'"
proof -
  have d: "list_all is_digit (js_of_int (int n))" for n by (rule natural_text_digits [OF print_natural_text]) simp
  have split: "takeWhile is_digit (js_of_int (int n) @ z # q) = js_of_int (int n) \<and> dropWhile is_digit (js_of_int (int n) @ z # q) = z # q"
    if "\<not> is_digit z" for n z q by (rule stop_takeWhile) (use d that in simp_all)
  have "js_of_int (int a) = js_of_int (int b) \<and> x # r = y # r'"
    using split [OF assms(2), of a r] split [OF assms(3), of b r'] unfolding assms(1) by (elim conjE) (intro conjI; elim trans [OF sym])
  then show ?thesis by simp
qed

lemma bytes_split:
  assumes "s @ r = t @ r'" "isWellFormed s" "isWellFormed t" "utf8ByteLength s = utf8ByteLength t"
  shows "s = t \<and> r = r'"
proof -
  have pos: "0 < utf8ByteLength x" if "x \<noteq> []" for x
    using that by (cases x rule: code_points.cases) (auto simp: utf8ByteLength_sum utf8_width_def)
  have eq: "p = q" if "q = p @ x" "isWellFormed p" "utf8ByteLength p = utf8ByteLength q" for p q x
    using that pos [of x] by (cases "x = []") (simp_all add: utf8ByteLength_append)
  from assms(1) obtain x where "s = t @ x \<or> t = s @ x" by (auto simp: append_eq_append_conv2)
  then have "s = t" by (metis eq assms(2-4))
  then show ?thesis using assms(1) by simp
qed

lemma encode_component_split:
  assumes "encode_component d s @ r = encode_component e t @ r'" "isWellFormed s" "isWellFormed t"
  shows "componentTag d = componentTag e \<and> s = t \<and> r = r'"
proof -
  have h: "\<not> is_digit 35" by (simp add: is_digit_def)
  have tag: "componentTag d = componentTag e"
    and rest: "js_of_int (int (utf8ByteLength s)) @ 35 # s @ r = js_of_int (int (utf8ByteLength t)) @ 35 # t @ r'"
    using assms(1) by (simp_all add: encode_component_def)
  from digits_split [OF rest h h] have "utf8ByteLength s = utf8ByteLength t" "s @ r = t @ r'" by simp_all
  then show ?thesis using tag bytes_split assms(2,3) by blast
qed

definition encode_all :: "PrimaryKeyComponentDescriptor list \<Rightarrow> jsstring list \<Rightarrow> jsstring list" where
  "encode_all ds cs = map2 encode_component ds cs"

lemma encode_all_tags:
  "encode_all ds cs = map2 (\<lambda>tag v. tag # js_of_int (int (utf8ByteLength v)) @ 35 # v) (map componentTag ds) cs"
  by (simp add: encode_all_def encode_component_def [abs_def] zip_map1 comp_def case_prod_unfold)

lemma encode_all_inject:
  assumes "length ds = length cs" "length es = length ts" "length cs = length ts" "\<forall>c\<in>set cs. isWellFormed c" "\<forall>t\<in>set ts. isWellFormed t"
    and "concat (encode_all ds cs) = concat (encode_all es ts)"
  shows "map componentTag ds = map componentTag es \<and> cs = ts"
  using assms
proof (induction ds cs arbitrary: es ts rule: list_induct2)
  case (Cons d ds c cs)
  then obtain e es' t ts' where e: "es = e # es'" and t: "ts = t # ts'" by (cases es; cases ts) auto
  have "encode_component d c @ concat (encode_all ds cs) = encode_component e t @ concat (encode_all es' ts')"
    using Cons.prems(5) by (simp add: e t encode_all_def)
  from encode_component_split [OF this] Cons.prems have
    "componentTag d = componentTag e" "c = t" "concat (encode_all ds cs) = concat (encode_all es' ts')" by (auto simp: t)
  then show ?case using Cons.IH [of es' ts'] Cons.prems by (simp add: e t)
qed simp

subsection \<open>Keys\<close>

text \<open>The canonical components of a key.\<close>

definition key_components :: "UnicodeText \<Rightarrow> PrimaryKeyComponentDescriptor list \<Rightarrow> JsValue list \<Rightarrow> jsstring list codec" where
  "key_components U ds vs = mapM (\<lambda>(d, v). canonicalizePrimaryKeyComponent U v d 0) (zip ds vs)"

lemma encoded_components_Inr:
  "length ds = length vs \<Longrightarrow> encoded_components U maximumBytes i ds vs = Inr es \<longleftrightarrow>
     (\<forall>v\<in>set vs. \<not> oversized v maximumBytes) \<and> (\<exists>cs. key_components U ds vs = Inr cs \<and> es = encode_all ds cs)"
proof (induction ds vs arbitrary: i es rule: list_induct2)
  case Nil
  then show ?case by (auto simp: key_components_def encode_all_def)
next
  case (Cons d ds v vs)
  have i: "canonicalizePrimaryKeyComponent U v d i = Inr c \<longleftrightarrow> canonicalizePrimaryKeyComponent U v d 0 = Inr c" for c
    by (rule component_index)
  have "key_components U (d # ds) (v # vs) = rbind (canonicalizePrimaryKeyComponent U v d 0) (\<lambda>c. rbind (key_components U ds vs) (\<lambda>cs. Inr (c # cs)))"
    by (simp add: key_components_def)
  moreover have "encode_all (d # ds) (c # cs) = encode_component d c # encode_all ds cs" for c cs by (simp add: encode_all_def)
  ultimately show ?case using Cons.IH [of "Suc i"] by (auto simp: i)
qed

lemma mapM_result: "mapM f xs = Inr ys \<Longrightarrow> y \<in> set ys \<Longrightarrow> \<exists>x\<in>set xs. f x = Inr y"
  by (induction xs arbitrary: ys) auto

lemma key_components_props:
  assumes "key_components U ds vs = Inr cs" "length ds = length vs"
  shows "length cs = length ds" "unicode_text U \<Longrightarrow> \<forall>c\<in>set cs. isWellFormed c"
proof -
  have m: "mapM (\<lambda>(d, v). canonicalizePrimaryKeyComponent U v d 0) (zip ds vs) = Inr cs" using assms(1) by (simp add: key_components_def)
  show "length cs = length ds" using mapM_eq_Inr_length [OF m] assms(2) by simp
  show "\<forall>c\<in>set cs. isWellFormed c" if U: "unicode_text U"
  proof
    fix c assume "c \<in> set cs"
    then obtain x where "(\<lambda>(d, v). canonicalizePrimaryKeyComponent U v d 0) x = Inr c" using mapM_result [OF m] by blast
    then show "isWellFormed c" by (cases x) (auto intro: component_wf [OF U])
  qed
qed

definition key_limit :: "PrimaryKeyDefinition \<Rightarrow> int" where
  "key_limit D = (case pk_maximumBytes D of None \<Rightarrow> DEFAULT_PRIMARY_KEY_MAX_BYTES | Some n \<Rightarrow> n)"

lemma canonicalizePrimaryKey_Inr:
  "canonicalizePrimaryKey U vs D = Inr k \<longleftrightarrow>
     isSafeInteger (key_limit D) \<and> 1 \<le> key_limit D \<and> pk_components D \<noteq> [] \<and> length vs = length (pk_components D)
     \<and> (\<forall>v\<in>set vs. \<not> oversized v (key_limit D)) \<and> int (utf8ByteLength k) \<le> key_limit D
     \<and> (\<exists>cs. key_components U (pk_components D) vs = Inr cs \<and> k = key_text (length (pk_components D)) (encode_all (pk_components D) cs))"
  by (auto simp: canonicalizePrimaryKey_def Let_def key_limit_def [symmetric] encoded_components_Inr)

lemma key_text_inject:
  assumes "key_text m es = key_text n fs"
  shows "m = n \<and> concat es = concat fs"
proof -
  have "\<not> is_digit 124" by (simp add: is_digit_def)
  with assms digits_split [of m 124 "concat es" n 124 "concat fs"] show ?thesis by (simp add: key_text_def)
qed

lemma canonicalizePrimaryKey_inject:
  assumes U: "unicode_text U" and k: "canonicalizePrimaryKey U vs D = Inr k" and l: "canonicalizePrimaryKey U ws E = Inr l"
  shows "k = l \<longleftrightarrow> map componentTag (pk_components D) = map componentTag (pk_components E)
    \<and> key_components U (pk_components D) vs = key_components U (pk_components E) ws"
proof -
  from k obtain cs where c: "key_components U (pk_components D) vs = Inr cs" "length vs = length (pk_components D)"
      "k = key_text (length (pk_components D)) (encode_all (pk_components D) cs)" unfolding canonicalizePrimaryKey_Inr by auto
  from l obtain ds where d: "key_components U (pk_components E) ws = Inr ds" "length ws = length (pk_components E)"
      "l = key_text (length (pk_components E)) (encode_all (pk_components E) ds)" unfolding canonicalizePrimaryKey_Inr by auto
  note cs = key_components_props [OF c(1) c(2) [symmetric]] and ds = key_components_props [OF d(1) d(2) [symmetric]]
  have encode: "encode_all xs zs = encode_all ys zs" if "map componentTag xs = map componentTag ys" for xs ys zs
    using that by (simp add: encode_all_tags)
  show ?thesis
  proof
    assume "k = l"
    then have "length (pk_components D) = length (pk_components E)"
      "concat (encode_all (pk_components D) cs) = concat (encode_all (pk_components E) ds)"
      using key_text_inject unfolding c(3) d(3) by blast+
    note same = this
    have "map componentTag (pk_components D) = map componentTag (pk_components E) \<and> cs = ds"
      by (rule encode_all_inject [OF cs(1) [symmetric] ds(1) [symmetric] _ cs(2) [OF U] ds(2) [OF U] same(2)])
         (use same(1) cs(1) ds(1) in simp)
    then show "map componentTag (pk_components D) = map componentTag (pk_components E)
        \<and> key_components U (pk_components D) vs = key_components U (pk_components E) ws"
      unfolding c(1) d(1) by blast
  next
    assume "map componentTag (pk_components D) = map componentTag (pk_components E)
        \<and> key_components U (pk_components D) vs = key_components U (pk_components E) ws"
    then have tags: "map componentTag (pk_components D) = map componentTag (pk_components E)" and "cs = ds"
      unfolding c(1) d(1) by simp_all
    moreover have "length (pk_components D) = length (pk_components E)" using tags by (rule map_eq_imp_length_eq)
    ultimately show "k = l" unfolding c(3) d(3) using encode [OF tags] by simp
  qed
qed

subsection \<open>Distinct keys\<close>

definition candidate_key :: "UnicodeText \<Rightarrow> PrimaryKeyDefinition \<Rightarrow> PrimaryKeyCandidate \<Rightarrow> jsstring codec" where
  "candidate_key U D c = canonicalizePrimaryKey U (pk_values c) D"

definition keyed :: "PrimaryKeyCandidate \<Rightarrow> jsstring \<Rightarrow> CanonicalPrimaryKeyCandidate" where
  "keyed c k = \<lparr>cpk_candidateId = pk_candidateId c, cpk_canonicalPrimaryKey = k\<rparr>"

lemma distinct_keys_Inr:
  "distinct_keys U D seen cs = Inr out \<longleftrightarrow>
     (\<exists>ks. mapM (candidate_key U D) cs = Inr ks \<and> distinct ks \<and> (\<forall>k\<in>set ks. seen k = None) \<and> out = map2 keyed cs ks)"
proof (induction cs arbitrary: seen out)
  case Nil
  then show ?case by auto
next
  case (Cons c cs)
  have upd: "(\<forall>k\<in>set ks. (seen(x \<mapsto> y)) k = None) \<longleftrightarrow> x \<notin> set ks \<and> (\<forall>k\<in>set ks. seen k = None)" for ks x y
    by auto
  have "distinct_keys U D seen (c # cs) = Inr out \<longleftrightarrow>
      (\<exists>k ks. candidate_key U D c = Inr k \<and> seen k = None \<and> mapM (candidate_key U D) cs = Inr ks \<and> distinct ks
        \<and> k \<notin> set ks \<and> (\<forall>k\<in>set ks. seen k = None) \<and> out = keyed c k # map2 keyed cs ks)"
    unfolding distinct_keys.simps rbind_eq_Inr_iff Cons.IH upd by (auto simp: candidate_key_def keyed_def)
  also have "\<dots> \<longleftrightarrow> (\<exists>ks. mapM (candidate_key U D) (c # cs) = Inr ks \<and> distinct ks \<and> (\<forall>k\<in>set ks. seen k = None)
      \<and> out = map2 keyed (c # cs) ks)" by auto
  finally show ?case .
qed

end
