(* ===== verification/ValueShapes.thy ===== *)
theory ValueShapes
  imports ValuePrimaryKey
begin

text \<open>
  The exact set of canonical values of every scalar descriptor: which texts
  \<open>canonicalizeScalarValue\<close> can return.
\<close>

definition date_text :: "int \<Rightarrow> int \<Rightarrow> int \<Rightarrow> jsstring" where
  "date_text y m d = pad y 4 @ [45] @ pad m 2 @ [45] @ pad d 2"

lemma date_text_pads:
  assumes "1 \<le> y" "y \<le> 9999" "real_date y m d"
  shows "length (pad y 4) = 4" "length (pad m 2) = 2" "length (pad d 2) = 2"
    "list_all is_digit (pad y 4)" "list_all is_digit (pad m 2)" "list_all is_digit (pad d 2)"
    "bigint_of_js (pad y 4) = y" "bigint_of_js (pad m 2) = m" "bigint_of_js (pad d 2) = d"
proof -
  have "utc_fields y m d 0 0 0 0" using assms by (simp add: utc_fields_def)
  note p = utc_pads [OF this]
  show "length (pad y 4) = 4" "length (pad m 2) = 2" "length (pad d 2) = 2"
    "list_all is_digit (pad y 4)" "list_all is_digit (pad m 2)" "list_all is_digit (pad d 2)"
    "bigint_of_js (pad y 4) = y" "bigint_of_js (pad m 2) = m" "bigint_of_js (pad d 2) = d"
    using p by simp_all
qed

lemma datePattern_parts:
  assumes "length y = 4" "length m = 2" "length d = 2"
  shows "datePattern (y @ [45] @ m @ [45] @ d) \<longleftrightarrow> list_all is_digit y \<and> list_all is_digit m \<and> list_all is_digit d"
    and "number_at (y @ [45] @ m @ [45] @ d) 0 4 = bigint_of_js y" "number_at (y @ [45] @ m @ [45] @ d) 5 2 = bigint_of_js m"
      "number_at (y @ [45] @ m @ [45] @ d) 8 2 = bigint_of_js d"
proof -
  obtain y1 y2 y3 y4 where y: "y = [y1, y2, y3, y4]" using assms(1) by (rule length4E)
  obtain m1 m2 where m: "m = [m1, m2]" using assms(2) by (rule length2E)
  obtain d1 d2 where d: "d = [d1, d2]" using assms(3) by (rule length2E)
  show "datePattern (y @ [45] @ m @ [45] @ d) \<longleftrightarrow> list_all is_digit y \<and> list_all is_digit m \<and> list_all is_digit d"
    "number_at (y @ [45] @ m @ [45] @ d) 0 4 = bigint_of_js y" "number_at (y @ [45] @ m @ [45] @ d) 5 2 = bigint_of_js m"
    "number_at (y @ [45] @ m @ [45] @ d) 8 2 = bigint_of_js d"
    by (auto simp: datePattern_def date_prefix_def digits_at_def unit_at_def number_at_def y m d)
qed

lemma datePattern_split:
  assumes "datePattern v"
  obtains y m d where "v = y @ [45] @ m @ [45] @ d" "length y = 4" "length m = 2" "length d = 2"
proof -
  let ?y = "take 4 v" and ?m = "take 2 (drop 5 v)" and ?d = "drop 8 v"
  have len: "length v = 10" and u: "take 1 (drop 4 v) = [45]" "take 1 (drop 7 v) = [45]"
    using assms by (auto simp: datePattern_def date_prefix_def unit_at_def)
  have "v = ?y @ take 1 (drop 4 v) @ ?m @ take 1 (drop 7 v) @ ?d"
  proof -
    have "drop 4 v = take 1 (drop 4 v) @ drop 5 v" "drop 5 v = ?m @ drop 7 v" "drop 7 v = take 1 (drop 7 v) @ drop 8 v"
      using append_take_drop_id [of 1 "drop 4 v"] append_take_drop_id [of 2 "drop 5 v"] append_take_drop_id [of 1 "drop 7 v"] by simp_all
    then show ?thesis by (metis append_take_drop_id append_assoc)
  qed
  then show ?thesis using that [of ?y ?m ?d] len unfolding u by simp
qed

lemma canonicalizeDate_shape:
  "canonicalizeDate input = Inr t \<longleftrightarrow>
     input = JsString t \<and> (\<exists>y m d. t = date_text y m d \<and> 1 \<le> y \<and> y \<le> 9999 \<and> real_date y m d)"
proof
  assume "canonicalizeDate input = Inr t"
  then have inp: "input = JsString t" and pat: "datePattern t"
    and real: "1 \<le> number_at t 0 4" "real_date (number_at t 0 4) (number_at t 5 2) (number_at t 8 2)"
    by (auto simp: canonicalizeDate_def Let_def requireString_Inr real_date_def)
  obtain y m d where t: "t = y @ [45] @ m @ [45] @ d" and len: "length y = 4" "length m = 2" "length d = 2"
    using pat by (rule datePattern_split)
  note parts = datePattern_parts [OF len, folded t]
  have dig: "list_all is_digit y" "list_all is_digit m" "list_all is_digit d" using pat parts(1) by simp_all
  have inv: "pad (bigint_of_js s) (length s) = s" if "list_all is_digit s" "0 < length s" for s
    using that by (intro pad_inverse) auto
  have "t = date_text (bigint_of_js y) (bigint_of_js m) (bigint_of_js d)"
    using inv [OF dig(1)] inv [OF dig(2)] inv [OF dig(3)] by (simp add: t date_text_def len)
  moreover have "bigint_of_js y \<le> 9999" using bigint_of_js_range [OF dig(1)] by (simp add: len)
  ultimately show "input = JsString t \<and> (\<exists>y m d. t = date_text y m d \<and> 1 \<le> y \<and> y \<le> 9999 \<and> real_date y m d)"
    using inp real unfolding parts(2-4) by blast
next
  assume "input = JsString t \<and> (\<exists>y m d. t = date_text y m d \<and> 1 \<le> y \<and> y \<le> 9999 \<and> real_date y m d)"
  then obtain y m d where inp: "input = JsString t" and t: "t = date_text y m d" and r: "1 \<le> y" "y \<le> 9999" "real_date y m d" by blast
  note p = date_text_pads [OF r]
  note parts = datePattern_parts [OF p(1-3), folded date_text_def t, unfolded p(7-9)]
  have "isWellFormed t \<and> 0 \<notin> set t"
    by (rule plain_wf) (use digits_plain [OF p(4)] digits_plain [OF p(5)] digits_plain [OF p(6)] in \<open>auto simp: t date_text_def\<close>)
  then have req: "requireString input value_path = Inr t" by (simp add: inp requireString_Inr)
  show "canonicalizeDate input = Inr t"
    unfolding canonicalizeDate_def req Let_def rbind_Inr parts(2-4) using parts(1) p(4-6) r by (auto simp: guard_def real_date_def)
qed

text \<open>An enumeration a descriptor may have, and the limit of a text.\<close>

definition enum_schema :: "jsstring list \<Rightarrow> bool" where
  "enum_schema vs \<longleftrightarrow> distinct vs \<and> (\<forall>v\<in>set vs. isWellFormed v \<and> 0 \<notin> set v)"

lemma validateEnumValues_from_Inr:
  "validateEnumValues_from i seen vs = Inr u \<longleftrightarrow>
     distinct vs \<and> (\<forall>v\<in>set vs. isWellFormed v \<and> 0 \<notin> set v \<and> v \<notin> seen)"
  by (induction vs arbitrary: i seen) (auto simp: requireString_Inr)

lemma canonicalizeEnum_shape:
  "canonicalizeEnum input vs = Inr t \<longleftrightarrow> input = JsString t \<and> enum_schema vs \<and> t \<in> set vs"
  by (auto simp: canonicalizeEnum_def validateEnumValues_def validateEnumValues_from_Inr enum_schema_def requireString_Inr)

definition string_limit :: "int option \<Rightarrow> int" where
  "string_limit b = (case b of None \<Rightarrow> DEFAULT_STRING_MAX_BYTES | Some n \<Rightarrow> n)"

fun scalar_shape :: "ScalarValueDescriptor \<Rightarrow> CanonicalScalarValue \<Rightarrow> bool" where
  "scalar_shape BooleanDescriptor c \<longleftrightarrow> (\<exists>b. c = CanonicalBoolean b)"
| "scalar_shape IntegerDescriptor c \<longleftrightarrow> (\<exists>i. c = CanonicalText (js_of_int i) \<and> INTEGER_MINIMUM \<le> i \<and> i \<le> INTEGER_MAXIMUM)"
| "scalar_shape (DecimalDescriptor f) c \<longleftrightarrow> validateDecimalFormat f = Inr () \<and>
     (\<exists>u. c = CanonicalText (decimal_text (nat (scale f)) u) \<and> \<bar>u\<bar> < 10 ^ nat (precision f))"
| "scalar_shape DateDescriptor c \<longleftrightarrow> (\<exists>y m d. c = CanonicalText (date_text y m d) \<and> 1 \<le> y \<and> y \<le> 9999 \<and> real_date y m d)"
| "scalar_shape TimestampDescriptor c \<longleftrightarrow> (\<exists>y m d h mi s f. c = CanonicalText (utc_text y m d h mi s f) \<and> utc_fields y m d h mi s f)"
| "scalar_shape (EnumDescriptor vs) c \<longleftrightarrow> enum_schema vs \<and> (\<exists>v\<in>set vs. c = CanonicalText v)"
| "scalar_shape (StringDescriptor b) c \<longleftrightarrow> isSafeInteger (string_limit b) \<and>
     (\<exists>s. c = CanonicalText s \<and> isWellFormed s \<and> 0 \<notin> set s \<and> int (utf8ByteLength s) \<le> string_limit b)"

lemma assertUtf8ByteLimit_Inr:
  "assertUtf8ByteLimit s n p = Inr u \<longleftrightarrow> isSafeInteger n \<and> int (utf8ByteLength s) \<le> n"
  by (auto simp: assertUtf8ByteLimit_def)

lemma canonical_decimal_shape:
  "(\<exists>v. canonicalizeDecimal v f = Inr t) \<longleftrightarrow>
     validateDecimalFormat f = Inr () \<and> (\<exists>u. t = decimal_text (nat (scale f)) u \<and> \<bar>u\<bar> < 10 ^ nat (precision f))"
proof
  assume "\<exists>v. canonicalizeDecimal v f = Inr t"
  then obtain v where "canonicalizeDecimal v f = Inr t" ..
  then show "validateDecimalFormat f = Inr () \<and> (\<exists>u. t = decimal_text (nat (scale f)) u \<and> \<bar>u\<bar> < 10 ^ nat (precision f))"
    by (rule canonicalizeDecimal_Inr) blast
qed (use canonicalizeDecimal_text in blast)

lemma canonical_integer_shape:
  "(\<exists>v. canonicalizeInteger v = Inr t) \<longleftrightarrow> (\<exists>i. t = js_of_int i \<and> INTEGER_MINIMUM \<le> i \<and> i \<le> INTEGER_MAXIMUM)"
proof
  assume "\<exists>i. t = js_of_int i \<and> INTEGER_MINIMUM \<le> i \<and> i \<le> INTEGER_MAXIMUM"
  then obtain i where i: "t = js_of_int i" "INTEGER_MINIMUM \<le> i" "i \<le> INTEGER_MAXIMUM" by blast
  have "canonicalizeInteger (JsString t) = Inr t"
    unfolding canonicalizeInteger_Inr requireString_Inr i(1) using big_int_print [of i] print_plain [of i] i(2,3) by auto
  then show "\<exists>v. canonicalizeInteger v = Inr t" ..
qed (auto simp: canonicalizeInteger_Inr)

lemma scalar_shape_exact: "(\<exists>input. canonicalizeScalarValue input d = Inr c) \<longleftrightarrow> scalar_shape d c"
proof (cases d)
  case BooleanDescriptor
  have "canonicalizeScalarValue (JsBoolean b) BooleanDescriptor = Inr (CanonicalBoolean b)" for b by (simp add: canonicalizeScalarValue_def)
  then have "scalar_shape d c \<Longrightarrow> \<exists>input. canonicalizeScalarValue input d = Inr c" using BooleanDescriptor by auto
  moreover have "canonicalizeScalarValue input d = Inr c \<Longrightarrow> scalar_shape d c" for input
    using BooleanDescriptor by (auto simp: canonicalizeScalarValue_def split: JsValue.split_asm)
  ultimately show ?thesis by blast
next
  case IntegerDescriptor
  have "(\<exists>input. canonicalizeScalarValue input d = Inr c) \<longleftrightarrow> (\<exists>t. (\<exists>v. canonicalizeInteger v = Inr t) \<and> c = CanonicalText t)"
    by (auto simp: IntegerDescriptor canonicalizeScalarValue_def text_of_Inr)
  then show ?thesis by (auto simp: canonical_integer_shape IntegerDescriptor)
next
  case (DecimalDescriptor f)
  have "(\<exists>input. canonicalizeScalarValue input d = Inr c) \<longleftrightarrow> (\<exists>t. (\<exists>v. canonicalizeDecimal v f = Inr t) \<and> c = CanonicalText t)"
    by (auto simp: DecimalDescriptor canonicalizeScalarValue_def text_of_Inr)
  then show ?thesis by (auto simp: canonical_decimal_shape DecimalDescriptor)
next
  case DateDescriptor
  then show ?thesis by (auto simp: canonicalizeScalarValue_def text_of_Inr canonicalizeDate_shape)
next
  case TimestampDescriptor
  show ?thesis
  proof
    assume "\<exists>input. canonicalizeScalarValue input d = Inr c"
    then obtain input t where t: "canonicalizeTimestamp input = Inr t" "c = CanonicalText t"
      by (auto simp: TimestampDescriptor canonicalizeScalarValue_def text_of_Inr)
    from t(1) show "scalar_shape d c" by (rule canonicalizeTimestamp_cases) (unfold TimestampDescriptor scalar_shape.simps, use t(2) in blast)
  next
    assume "scalar_shape d c"
    then obtain y m dd h mi s f where "c = CanonicalText (utc_text y m dd h mi s f)" "utc_fields y m dd h mi s f"
      by (auto simp: TimestampDescriptor)
    then have "canonicalizeScalarValue (JsString (utc_text y m dd h mi s f)) d = Inr c"
      by (simp add: TimestampDescriptor canonicalizeScalarValue_def text_of_Inr canonicalizeTimestamp_utc)
    then show "\<exists>input. canonicalizeScalarValue input d = Inr c" ..
  qed
next
  case (EnumDescriptor vs)
  then show ?thesis by (auto simp: canonicalizeScalarValue_def text_of_Inr canonicalizeEnum_shape)
next
  case (StringDescriptor b)
  then show ?thesis
    by (auto simp: canonicalizeScalarValue_def text_of_Inr requireString_Inr assertUtf8ByteLimit_Inr string_limit_def [symmetric])
qed

end
