(* ===== verification/ValueInstant.thy ===== *)
theory ValueInstant
  imports ValueShapes
begin

text \<open>
  What a timestamp means, without the functions of the codec: its text by fields, the calendar as a
  count of days, and the instant as local time less its offset.
\<close>

subsection \<open>The calendar\<close>

definition gregorian_length :: "int \<Rightarrow> int \<Rightarrow> int" where
  "gregorian_length y m = (if m = 2 then if 4 dvd y \<and> (100 dvd y \<longrightarrow> 400 dvd y) then 29 else 28
     else if m \<in> {4, 6, 9, 11} then 30 else 31)"

definition following_day :: "int \<times> int \<times> int \<Rightarrow> int \<times> int \<times> int" where
  "following_day = (\<lambda>(y, m, d). if d < gregorian_length y m then (y, m, d + 1) else if m < 12 then (y, m + 1, 1) else (y + 1, 1, 1))"

text \<open>The date that is \<open>n\<close> days after 1970-01-01, or \<open>- n\<close> days before.\<close>

definition is_day :: "int \<Rightarrow> int \<times> int \<times> int \<Rightarrow> bool" where
  "is_day n date \<longleftrightarrow> (if 0 \<le> n then (following_day ^^ nat n) (1970, 1, 1) = date else (following_day ^^ nat (- n)) date = (1970, 1, 1))"

lemma daysInMonth_gregorian: "daysInMonth y m = gregorian_length y m"
  by (auto simp: daysInMonth_def gregorian_length_def isLeapYear_def)

lemma next_date_civil: "next_date (civilFromDays n) = civilFromDays (n + 1)"
proof -
  obtain y m d where c: "civilFromDays n = (y, m, d)" by (cases "civilFromDays n")
  obtain y' m' d' where n: "next_date (y, m, d) = (y', m', d')" by (cases "next_date (y, m, d)")
  note next_date_days [OF days_civil_days(1) [OF c] n]
  then show ?thesis using days_civil_days(2) [OF c] civil_days_civil [of y' m' d'] by (simp add: c n)
qed

lemma following_day_civil: "(following_day ^^ k) (civilFromDays n) = civilFromDays (n + int k)"
proof -
  have "following_day = next_date" by (simp add: following_day_def next_date_def daysInMonth_gregorian)
  then show ?thesis by (induction k) (simp_all add: next_date_civil algebra_simps)
qed

lemma civilFromDays_inject: "civilFromDays n = civilFromDays k \<longleftrightarrow> n = k"
  by (cases "civilFromDays k") (metis days_civil_days(2))

lemma is_day_iff:
  assumes "real_date y m d"
  shows "is_day n (y, m, d) \<longleftrightarrow> n = daysFromCivil y m d"
proof -
  have start: "civilFromDays 0 = (1970, 1, 1)" by code_simp
  have date: "civilFromDays (daysFromCivil y m d) = (y, m, d)" by (rule civil_days_civil [OF assms])
  show ?thesis
    unfolding is_day_def start [symmetric] date [symmetric] following_day_civil civilFromDays_inject by auto
qed

subsection \<open>Texts\<close>

text \<open>A zone is \<open>None\<close> for \<open>Z\<close>, otherwise whether it is west of Greenwich, hours and minutes.\<close>

definition zone_text :: "(bool \<times> int \<times> int) option \<Rightarrow> jsstring" where
  "zone_text zone = (case zone of None \<Rightarrow> js ''Z''
     | Some (west, oh, om) \<Rightarrow> (if west then js ''-'' else js ''+'') @ pad oh 2 @ js '':'' @ pad om 2)"

definition real_zone :: "(bool \<times> int \<times> int) option \<Rightarrow> bool" where
  "real_zone zone \<longleftrightarrow> (case zone of None \<Rightarrow> True
     | Some (west, oh, om) \<Rightarrow> 0 \<le> oh \<and> 0 \<le> om \<and> om \<le> 59 \<and> oh * 60 + om \<le> 14 * 60 \<and> \<not> (west \<and> oh = 0 \<and> om = 0))"

text \<open>The fraction is a string of digits; without digits there is no dot.\<close>

definition timestamp_text :: "int \<times> int \<times> int \<Rightarrow> int \<times> int \<times> int \<Rightarrow> jsstring \<Rightarrow> (bool \<times> int \<times> int) option \<Rightarrow> jsstring" where
  "timestamp_text = (\<lambda>(y, m, d) (h, mi, s) fraction zone.
     pad y 4 @ js ''-'' @ pad m 2 @ js ''-'' @ pad d 2 @ js ''T'' @ pad h 2 @ js '':'' @ pad mi 2 @ js '':'' @ pad s 2
     @ (if fraction = [] then [] else js ''.'' @ fraction) @ zone_text zone)"

definition real_clock :: "int \<times> int \<times> int \<Rightarrow> bool" where
  "real_clock = (\<lambda>(h, mi, s). 0 \<le> h \<and> h \<le> 23 \<and> 0 \<le> mi \<and> mi \<le> 59 \<and> 0 \<le> s \<and> s \<le> 59)"

text \<open>
  The instant \<open>e\<close>, in microseconds, of a local date, time and fraction in a zone: a clock in the east is
  ahead, one in the west behind.
\<close>

definition local_micros :: "int \<Rightarrow> int \<times> int \<times> int \<Rightarrow> jsstring \<Rightarrow> int" where
  "local_micros n = (\<lambda>(h, mi, s) fraction. (((n * 24 + h) * 60 + mi) * 60 + s) * 1000000
     + bigint_of_js fraction * 10 ^ (6 - length fraction))"

definition clock_ahead :: "(bool \<times> int \<times> int) option \<Rightarrow> int" where
  "clock_ahead zone = (case zone of None \<Rightarrow> 0
     | Some (west, oh, om) \<Rightarrow> if west then - ((oh * 60 + om) * 60 * 1000000) else (oh * 60 + om) * 60 * 1000000)"

subsection \<open>Reading a text\<close>

lemma js_units: "js ''Z'' = [90]" "js ''-'' = [45]" "js ''+'' = [43]" "js '':'' = [58]" "js ''T'' = [84]" "js ''.'' = [46]"
  by code_simp+

lemma glue: "j = i + n \<Longrightarrow> take n (drop i v) @ drop j v = drop i v"
  using append_take_drop_id [of n "drop i v"] by (simp add: add.commute)

lemma pad_number: "digits_at v i n \<Longrightarrow> 0 < n \<Longrightarrow> pad (number_at v i n) n = take n (drop i v)"
  using pad_inverse [of "take n (drop i v)"] by (fastforce simp: digits_at_def number_at_def)

lemma number_range: "digits_at v i n \<Longrightarrow> 0 \<le> number_at v i n \<and> number_at v i n < 10 ^ n"
  using bigint_of_js_range [of "take n (drop i v)"] by (simp add: digits_at_def number_at_def)

text \<open>A zone of the pattern and the offset the code computes, with the zone they stand for.\<close>

lemma zone_match_text:
  assumes "zone_match z = Some zone" "offset_minutes zone = Inr off"
  obtains w where "z = zone_text w" "real_zone w" "clock_ahead w = off * microsecondsPerMinute"
proof (cases "z = [90]")
  case True
  with assms show ?thesis by (intro that [of None]) (auto simp: zone_match_def zone_text_def real_zone_def clock_ahead_def js_units offset_minutes_def)
next
  case False
  with assms(1) have len: "length z = 6" and sign: "unit_at z 0 43 \<or> unit_at z 0 45" and dig: "digits_at z 1 2" "digits_at z 4 2"
    and colon: "unit_at z 3 58" and zone: "zone = ZoneOffset (hd z) (number_at z 1 2) (number_at z 4 2)"
    by (auto simp: zone_match_def split: if_splits)
  have hd: "take 1 z = [hd z]" "hd z = 43 \<or> hd z = 45" using sign by (cases z; auto simp: unit_at_def)+
  have z: "z = take 1 (drop 0 z) @ take 2 (drop 1 z) @ take 1 (drop 3 z) @ take 2 (drop 4 z)"
    using len by (simp add: glue)
  let ?w = "Some (hd z = 45, number_at z 1 2, number_at z 4 2)"
  have "z = zone_text ?w"
    using z hd colon unfolding zone_text_def js_units unit_at_def by (auto simp: pad_number [OF dig(1), simplified] pad_number [OF dig(2)])
  moreover have "real_zone ?w" "clock_ahead ?w = off * microsecondsPerMinute"
    using assms(2) number_range [OF dig(1)] number_range [OF dig(2)]
    unfolding zone by (auto simp: real_zone_def clock_ahead_def offset_minutes_def micros_defs split: if_splits)
  ultimately show ?thesis by (rule that)
qed

text \<open>The groups of a text that matches spell the text.\<close>

lemma timestamp_match_text:
  assumes "timestamp_match v = Some m" "match_valid m" "offset_minutes (tm_zone m) = Inr off"
  obtains fraction w where
    "v = timestamp_text (tm_year m, tm_month m, tm_day m) (tm_hour m, tm_minute m, tm_second m) fraction w"
    "list_all is_digit fraction" "length fraction \<le> 6" "real_zone w" "clock_ahead w = off * microsecondsPerMinute"
    "1 \<le> tm_year m" "tm_year m \<le> 9999" "real_date (tm_year m) (tm_month m) (tm_day m)" "real_clock (tm_hour m, tm_minute m, tm_second m)"
    "match_instant m off = local_micros (daysFromCivil (tm_year m) (tm_month m) (tm_day m)) (tm_hour m, tm_minute m, tm_second m) fraction
       - clock_ahead w"
proof -
  define rest where "rest = drop 19 v"
  define dotted where "dotted = (rest \<noteq> [] \<and> hd rest = 46)"
  define fraction where "fraction = (if dotted then takeWhile is_digit (tl rest) else [])"
  define zone where "zone = (if dotted then dropWhile is_digit (tl rest) else rest)"
  from assms(1) have shape: "digits_at v 0 4" "unit_at v 4 45" "digits_at v 5 2" "unit_at v 7 45" "digits_at v 8 2"
      "unit_at v 10 84" "digits_at v 11 2" "unit_at v 13 58" "digits_at v 14 2" "unit_at v 16 58" "digits_at v 17 2"
    and len: "dotted \<Longrightarrow> 1 \<le> length fraction \<and> length fraction \<le> 6"
    and z: "zone_match zone = Some (tm_zone m)"
    and m: "tm_year m = number_at v 0 4" "tm_month m = number_at v 5 2" "tm_day m = number_at v 8 2"
      "tm_hour m = number_at v 11 2" "tm_minute m = number_at v 14 2" "tm_second m = number_at v 17 2"
      "tm_fraction m = (if dotted then Some fraction else None)"
    by (auto simp: timestamp_match_def date_prefix_def Let_def rest_def dotted_def fraction_def zone_def split: if_splits option.splits)
  obtain w where w: "zone = zone_text w" "real_zone w" "clock_ahead w = off * microsecondsPerMinute"
    using z assms(3) by (rule zone_match_text)
  have digits: "list_all is_digit fraction" "length fraction \<le> 6"
    using len by (auto simp: fraction_def list_all_iff dest: set_takeWhileD)
  have rest: "rest = (if fraction = [] then [] else js ''.'' @ fraction) @ zone_text w"
  proof (cases dotted)
    case True
    then have "rest = 46 # fraction @ zone" by (cases rest) (auto simp: dotted_def fraction_def zone_def)
    then show ?thesis using len True w(1) by (auto simp: js_units)
  qed (use w(1) in \<open>simp add: fraction_def zone_def\<close>)
  have "v = take 4 (drop 0 v) @ take 1 (drop 4 v) @ take 2 (drop 5 v) @ take 1 (drop 7 v) @ take 2 (drop 8 v) @ take 1 (drop 10 v)
      @ take 2 (drop 11 v) @ take 1 (drop 13 v) @ take 2 (drop 14 v) @ take 1 (drop 16 v) @ take 2 (drop 17 v) @ rest"
    by (simp add: glue rest_def)
  then have "v = timestamp_text (tm_year m, tm_month m, tm_day m) (tm_hour m, tm_minute m, tm_second m) fraction w"
    unfolding timestamp_text_def m js_units prod.case
    unfolding rest [unfolded js_units, symmetric]
    using shape(2,4,6,8,10) [unfolded unit_at_def]
    by (simp add: pad_number [OF shape(1)] pad_number [OF shape(3)] pad_number [OF shape(5)] pad_number [OF shape(7)]
        pad_number [OF shape(9)] pad_number [OF shape(11)])
  moreover have "real_clock (tm_hour m, tm_minute m, tm_second m)" "tm_year m \<le> 9999"
    using assms(2) number_range [OF shape(1)] number_range [OF shape(7)] number_range [OF shape(9)] number_range [OF shape(11)]
    by (auto simp: real_clock_def match_valid_def m)
  moreover have "bigint_of_js (padEnd (case tm_fraction m of None \<Rightarrow> [] | Some f \<Rightarrow> f) 6) = bigint_of_js fraction * 10 ^ (6 - length fraction)"
    using padEnd_value [OF digits(2)] by (auto simp: m(7) fraction_def)
  then have "match_instant m off = local_micros (daysFromCivil (tm_year m) (tm_month m) (tm_day m)) (tm_hour m, tm_minute m, tm_second m) fraction
      - clock_ahead w"
    unfolding match_instant_def local_micros_def w(3) by (simp add: micros_defs algebra_simps)
  ultimately show ?thesis using digits w(2,3) assms(2) by (intro that) (auto simp: match_valid_def)
qed

text \<open>A text of real fields matches, with these fields.\<close>

lemma units_not_digits: "\<not> is_digit 90" "\<not> is_digit 43" "\<not> is_digit 45" "\<not> is_digit 46"
  by (simp_all add: is_digit_def)

lemma zone_text_match:
  assumes "real_zone w"
  obtains zone off where "zone_match (zone_text w) = Some zone" "offset_minutes zone = Inr off" "clock_ahead w = off * microsecondsPerMinute"
    "zone_text w \<noteq> []" "\<not> is_digit (hd (zone_text w))" "hd (zone_text w) \<noteq> 46"
proof (cases w)
  case None
  then show ?thesis
    by (intro that [of ZoneZ 0]) (simp_all add: zone_text_def js_units zone_match_def offset_minutes_def clock_ahead_def units_not_digits)
next
  case (Some x)
  obtain west oh om where x: "x = (west, oh, om)" by (cases x)
  have r: "0 \<le> oh" "oh \<le> 14" "0 \<le> om" "om \<le> 59" "oh * 60 + om \<le> 14 * 60" "\<not> (west \<and> oh = 0 \<and> om = 0)"
    using assms by (auto simp: real_zone_def Some x)
  note p = pad_props [of oh 2] pad_props [of om 2]
  obtain h1 h2 where h: "pad oh 2 = [h1, h2]" using p(1) r by (auto elim: length2E)
  obtain i1 i2 where i: "pad om 2 = [i1, i2]" using p(4) r by (auto elim: length2E)
  have z: "zone_text w = [if west then 45 else 43, h1, h2, 58, i1, i2]" by (simp add: zone_text_def Some x js_units h i)
  have dig: "list_all is_digit [h1, h2]" "list_all is_digit [i1, i2]" "bigint_of_js [h1, h2] = oh" "bigint_of_js [i1, i2] = om"
    using p(2,3,5,6) r unfolding h i by simp_all
  show ?thesis
  proof (rule that)
    show "zone_match (zone_text w) = Some (ZoneOffset (if west then 45 else 43) oh om)"
      using dig by (auto simp: z zone_match_def unit_at_def digits_at_def number_at_def)
    show "offset_minutes (ZoneOffset (if west then 45 else 43) oh om) = Inr ((if west then -1 else 1) * (oh * 60 + om))"
      using r by (auto simp: offset_minutes_def)
    show "clock_ahead w = (if west then -1 else 1) * (oh * 60 + om) * microsecondsPerMinute"
      by (simp add: clock_ahead_def Some x micros_defs)
  qed (simp_all add: z units_not_digits)
qed

lemma date_pads:
  assumes "0 \<le> y" "y \<le> 9999" "real_date y m d" "real_clock (h, mi, s)"
  shows "length (pad y 4) = 4" "length (pad m 2) = 2" "length (pad d 2) = 2" "length (pad h 2) = 2" "length (pad mi 2) = 2" "length (pad s 2) = 2"
    "list_all is_digit (pad y 4)" "list_all is_digit (pad m 2)" "list_all is_digit (pad d 2)" "list_all is_digit (pad h 2)"
    "list_all is_digit (pad mi 2)" "list_all is_digit (pad s 2)"
    "bigint_of_js (pad y 4) = y" "bigint_of_js (pad m 2) = m" "bigint_of_js (pad d 2) = d" "bigint_of_js (pad h 2) = h"
    "bigint_of_js (pad mi 2) = mi" "bigint_of_js (pad s 2) = s"
proof -
  have "d \<le> 31" using assms(3) by (auto simp: real_date_def daysInMonth_def split: if_splits)
  then have r: "0 \<le> y" "y < 10 ^ 4" "0 \<le> m" "m < 10 ^ 2" "0 \<le> d" "d < 10 ^ 2" "0 \<le> h" "h < 10 ^ 2" "0 \<le> mi" "mi < 10 ^ 2" "0 \<le> s" "s < 10 ^ 2"
    using assms by (auto simp: real_date_def real_clock_def)
  note p = pad_props [OF r(1,2), simplified] pad_props [OF r(3,4), simplified] pad_props [OF r(5,6), simplified]
    pad_props [OF r(7,8), simplified] pad_props [OF r(9,10), simplified] pad_props [OF r(11,12), simplified]
  show "length (pad y 4) = 4" "length (pad m 2) = 2" "length (pad d 2) = 2" "length (pad h 2) = 2" "length (pad mi 2) = 2" "length (pad s 2) = 2"
    "list_all is_digit (pad y 4)" "list_all is_digit (pad m 2)" "list_all is_digit (pad d 2)" "list_all is_digit (pad h 2)"
    "list_all is_digit (pad mi 2)" "list_all is_digit (pad s 2)"
    "bigint_of_js (pad y 4) = y" "bigint_of_js (pad m 2) = m" "bigint_of_js (pad d 2) = d" "bigint_of_js (pad h 2) = h"
    "bigint_of_js (pad mi 2) = mi" "bigint_of_js (pad s 2) = s"
    using p by simp_all
qed

lemma timestamp_text_match:
  assumes fields: "0 \<le> y" "y \<le> 9999" "real_date y m d" "real_clock (h, mi, s)"
    and f: "list_all is_digit fraction" "length fraction \<le> 6"
    and zone: "zone_match (zone_text w) = Some zone" "zone_text w \<noteq> []" "\<not> is_digit (hd (zone_text w))" "hd (zone_text w) \<noteq> 46"
  shows "timestamp_match (timestamp_text (y, m, d) (h, mi, s) fraction w) = Some \<lparr>tm_year = y, tm_month = m, tm_day = d, tm_hour = h,
    tm_minute = mi, tm_second = s, tm_fraction = (if fraction = [] then None else Some fraction), tm_zone = zone\<rparr>"
proof -
  note p = date_pads [OF fields]
  obtain y1 y2 y3 y4 where y: "pad y 4 = [y1, y2, y3, y4]" using p(1) by (rule length4E)
  obtain m1 m2 where m: "pad m 2 = [m1, m2]" using p(2) by (rule length2E)
  obtain d1 d2 where d: "pad d 2 = [d1, d2]" using p(3) by (rule length2E)
  obtain h1 h2 where h: "pad h 2 = [h1, h2]" using p(4) by (rule length2E)
  obtain i1 i2 where i: "pad mi 2 = [i1, i2]" using p(5) by (rule length2E)
  obtain s1 s2 where s: "pad s 2 = [s1, s2]" using p(6) by (rule length2E)
  have dig: "list_all is_digit [y1, y2, y3, y4]" "list_all is_digit [m1, m2]" "list_all is_digit [d1, d2]" "list_all is_digit [h1, h2]"
      "list_all is_digit [i1, i2]" "list_all is_digit [s1, s2]"
    and num: "bigint_of_js [y1, y2, y3, y4] = y" "bigint_of_js [m1, m2] = m" "bigint_of_js [d1, d2] = d" "bigint_of_js [h1, h2] = h"
      "bigint_of_js [i1, i2] = mi" "bigint_of_js [s1, s2] = s"
    using p(7-18) unfolding y m d h i s by simp_all
  obtain z zs where z: "zone_text w = z # zs" "\<not> is_digit z" "z \<noteq> 46" using zone(2-4) by (cases "zone_text w") auto
  have split: "takeWhile is_digit (fraction @ z # zs) = fraction" "dropWhile is_digit (fraction @ z # zs) = z # zs"
    using f(1) z(2) by (auto simp: takeWhile_append2 dropWhile_append2 list_all_iff)
  show ?thesis
  proof (cases "fraction = []")
    case True
    then show ?thesis
      using dig num zone(1) z
      by (simp add: timestamp_text_def js_units y m d h i s timestamp_match_def date_prefix_def digits_at_def unit_at_def number_at_def Let_def)
  next
    case False
    then have "Suc 0 \<le> length fraction" by (cases fraction) auto
    with False show ?thesis
      using dig num zone(1) z f
      by (simp add: timestamp_text_def js_units y m d h i s timestamp_match_def date_prefix_def digits_at_def unit_at_def number_at_def Let_def split)
  qed
qed

lemma zone_text_plain: "real_zone w \<Longrightarrow> u \<in> set (zone_text w) \<Longrightarrow> 0 < uint u \<and> uint u < 0xD800"
proof (cases w)
  case (Some x)
  assume r: "real_zone w" and u: "u \<in> set (zone_text w)"
  obtain west oh om where x: "x = (west, oh, om)" by (cases x)
  have "list_all is_digit (pad oh 2)" "list_all is_digit (pad om 2)"
    using r by (auto simp: real_zone_def Some x intro!: pad_props)
  then show ?thesis
    using u digits_plain [of "pad oh 2" u] digits_plain [of "pad om 2" u] by (auto simp: zone_text_def Some x js_units split: if_splits)
qed (simp add: zone_text_def js_units)

lemma requireString_timestamp_text:
  assumes fields: "0 \<le> y" "y \<le> 9999" "real_date y m d" "real_clock (h, mi, s)" and "list_all is_digit fraction" "real_zone w"
  shows "requireString (JsString (timestamp_text (y, m, d) (h, mi, s) fraction w)) path = Inr (timestamp_text (y, m, d) (h, mi, s) fraction w)"
proof -
  have "\<forall>u\<in>set (timestamp_text (y, m, d) (h, mi, s) fraction w). 0 < uint u \<and> uint u < 0xD800"
    using date_pads(7-12) [OF fields, THEN digits_plain] digits_plain [OF assms(5)] zone_text_plain [OF assms(6)]
    by (auto simp: timestamp_text_def js_units split: if_splits)
  then show ?thesis by (simp add: requireString_Inr plain_wf)
qed

subsection \<open>What a text denotes\<close>

definition gregorian_date :: "int \<times> int \<times> int \<Rightarrow> bool" where
  "gregorian_date = (\<lambda>(y, m, d). 1 \<le> y \<and> y \<le> 9999 \<and> 1 \<le> m \<and> m \<le> 12 \<and> 1 \<le> d \<and> d \<le> gregorian_length y m)"

text \<open>The text \<open>v\<close> has this zone and fraction, real fields, and denotes the instant \<open>e\<close>.\<close>

definition denotes :: "jsstring \<Rightarrow> (bool \<times> int \<times> int) option \<Rightarrow> jsstring \<Rightarrow> int \<Rightarrow> bool" where
  "denotes v zone fraction e \<longleftrightarrow> real_zone zone \<and> list_all is_digit fraction \<and> length fraction \<le> 6
     \<and> (\<exists>date clock n. v = timestamp_text date clock fraction zone \<and> gregorian_date date \<and> real_clock clock \<and> is_day n date
         \<and> e = local_micros n clock fraction - clock_ahead zone)"

lemma denotes_iff:
  "denotes v zone fraction e \<longleftrightarrow> real_zone zone \<and> list_all is_digit fraction \<and> length fraction \<le> 6
     \<and> (\<exists>y m d h mi s. v = timestamp_text (y, m, d) (h, mi, s) fraction zone \<and> 1 \<le> y \<and> y \<le> 9999 \<and> real_date y m d
         \<and> real_clock (h, mi, s) \<and> e = local_micros (daysFromCivil y m d) (h, mi, s) fraction - clock_ahead zone)"
proof -
  have date: "gregorian_date (y, m, d) \<longleftrightarrow> 1 \<le> y \<and> y \<le> 9999 \<and> real_date y m d" for y m d
    by (simp add: gregorian_date_def real_date_def daysInMonth_gregorian)
  show ?thesis unfolding denotes_def split_paired_Ex date
    by (intro conj_cong refl iff_exI) (auto simp: is_day_iff)
qed

lemma canonicalizeTimestamp_denotes:
  assumes "canonicalizeTimestamp (JsString v) = Inr t"
  shows "\<exists>zone fraction e f. denotes v zone fraction e \<and> denotes t None f e \<and> length f = 6"
proof -
  obtain m off where m: "timestamp_match v = Some m" "match_valid m" "offset_minutes (tm_zone m) = Inr off"
    and t: "formatUtcTimestamp (match_instant m off) = Inr t"
    using assms unfolding canonicalizeTimestamp_Inr by (auto simp: requireString_Inr)
  obtain fraction w where v: "denotes v w fraction (match_instant m off)"
    using m by (rule timestamp_match_text) (unfold denotes_iff, blast)
  obtain y mo d h mi s f where u: "t = utc_text y mo d h mi s f" "utc_fields y mo d h mi s f"
      "match_instant m off = daysFromCivil y mo d * microsecondsPerDay + clock_micros h mi s f"
    using t by (rule formatUtcTimestamp_fields)
  have "pad f 6 \<noteq> []" using utc_pads(7) [OF u(2)] by auto
  then have "t = timestamp_text (y, mo, d) (h, mi, s) (pad f 6) None"
    by (simp add: u(1) utc_text_def timestamp_text_def zone_text_def js_units)
  moreover have "match_instant m off = local_micros (daysFromCivil y mo d) (h, mi, s) (pad f 6) - clock_ahead None"
    using utc_pads(7,21) [OF u(2)] by (simp add: u(3) clock_micros_def local_micros_def clock_ahead_def micros_defs)
  ultimately have "denotes t None (pad f 6) (match_instant m off)"
    using utc_pads(7,14) [OF u(2)] u(2) unfolding denotes_iff
    by (intro conjI exI [of _ y] exI [of _ mo] exI [of _ d] exI [of _ h] exI [of _ mi] exI [of _ s])
      (simp_all add: utc_fields_def real_zone_def real_clock_def)
  with v utc_pads(7) [OF u(2)] show ?thesis by blast
qed

lemma denotes_utc:
  assumes "denotes t None f e" "length f = 6"
  shows "formatUtcTimestamp e = Inr t"
proof -
  from assms(1) obtain y m d h mi s where t: "t = timestamp_text (y, m, d) (h, mi, s) f None"
    and r: "1 \<le> y" "y \<le> 9999" "real_date y m d" "real_clock (h, mi, s)" and e: "e = local_micros (daysFromCivil y m d) (h, mi, s) f - clock_ahead None"
    and f: "list_all is_digit f"
    unfolding denotes_iff by blast
  have "utc_fields y m d h mi s (bigint_of_js f)"
    using r bigint_of_js_range [OF f] assms(2) by (simp add: utc_fields_def real_clock_def)
  from formatUtcTimestamp_of_fields [OF this] have "formatUtcTimestamp (daysFromCivil y m d * microsecondsPerDay + clock_micros h mi s (bigint_of_js f))
      = Inr (utc_text y m d h mi s (bigint_of_js f))" .
  moreover have "pad (bigint_of_js f) 6 = f" using pad_inverse [OF f] assms(2) by (cases f) auto
  then have "utc_text y m d h mi s (bigint_of_js f) = t"
    using assms(2) by (auto simp: t utc_text_def timestamp_text_def zone_text_def js_units)
  moreover have "e = daysFromCivil y m d * microsecondsPerDay + clock_micros h mi s (bigint_of_js f)"
    using assms(2) by (simp add: e clock_micros_def local_micros_def clock_ahead_def micros_defs)
  ultimately show ?thesis by simp
qed

lemma denotes_canonicalizeTimestamp:
  assumes v: "denotes v w fraction e" and t: "denotes t None f e" "length f = 6"
  shows "canonicalizeTimestamp (JsString v) = Inr t"
proof -
  from v have w: "real_zone w" and fr: "list_all is_digit fraction" "length fraction \<le> 6" by (simp_all add: denotes_def)
  from v obtain y m d h mi s where v: "v = timestamp_text (y, m, d) (h, mi, s) fraction w"
    and r: "1 \<le> y" "y \<le> 9999" "real_date y m d" "real_clock (h, mi, s)"
    and e: "e = local_micros (daysFromCivil y m d) (h, mi, s) fraction - clock_ahead w"
    unfolding denotes_iff by blast
  have y: "0 \<le> y" using r(1) by simp
  obtain zone off where z: "zone_match (zone_text w) = Some zone" "offset_minutes zone = Inr off" "clock_ahead w = off * microsecondsPerMinute"
      "zone_text w \<noteq> []" "\<not> is_digit (hd (zone_text w))" "hd (zone_text w) \<noteq> 46"
    using w by (rule zone_text_match)
  let ?m = "\<lparr>tm_year = y, tm_month = m, tm_day = d, tm_hour = h, tm_minute = mi, tm_second = s,
    tm_fraction = (if fraction = [] then None else Some fraction), tm_zone = zone\<rparr>"
  have match: "timestamp_match v = Some ?m" unfolding v by (rule timestamp_text_match [OF y r(2-4) fr z(1,4-6)])
  have "match_instant ?m off = e"
    using padEnd_value [OF fr(2)] unfolding e z(3) by (auto simp: match_instant_def local_micros_def micros_defs algebra_simps)
  then have "formatUtcTimestamp (match_instant ?m off) = Inr t" using denotes_utc [OF t] by simp
  moreover have "match_valid ?m" using r by (simp add: match_valid_def real_clock_def)
  moreover have "requireString (JsString v) value_path = Inr v"
    unfolding v by (rule requireString_timestamp_text [OF y r(2-4) fr(1) w])
  ultimately show ?thesis unfolding canonicalizeTimestamp_Inr using match z(2) by (intro exI [of _ v] exI [of _ ?m] exI [of _ off]) simp
qed

lemma denotes_epoch: "denotes t None f e \<Longrightarrow> length f = 6 \<Longrightarrow> timestampToEpochMicroseconds t = Inr e"
  by (drule denotes_utc, assumption, erule formatUtcTimestamp_fields) (simp add: timestampToEpoch_utc)

end
