(* ===== verification/ValueProperties.thy ===== *)
theory ValueProperties
  imports ValueInstant
begin

text \<open>The properties of the value codec (\<open>packages/value-codec\<close>), with their witnesses.\<close>

subsection \<open>Shared facts\<close>

lemma timestamp_epoch:
  assumes "formatUtcTimestamp e = Inr t"
  shows "timestampToEpochMicroseconds t = Inr e"
  using assms by (rule formatUtcTimestamp_fields) (simp add: timestampToEpoch_utc)

lemma canonical_timestamp_order:
  assumes "canonicalizeTimestamp a = Inr s" "canonicalizeTimestamp b = Inr t"
    and "timestampToEpochMicroseconds s = Inr d" "timestampToEpochMicroseconds t = Inr e"
  shows "s < t \<longleftrightarrow> d < e"
proof -
  obtain y m dd h mi se f where s: "s = utc_text y m dd h mi se f" "utc_fields y m dd h mi se f"
    using assms(1) by (rule canonicalizeTimestamp_cases)
  obtain y' m' d' h' mi' s' f' where t: "t = utc_text y' m' d' h' mi' s' f'" "utc_fields y' m' d' h' mi' s' f'"
    using assms(2) by (rule canonicalizeTimestamp_cases)
  show ?thesis
    using assms(3,4) utc_text_less_instant [OF s(2) t(2)] by (simp add: s t timestampToEpoch_utc)
qed

lemma distinct_keys_collision:
  "mapM (candidate_key U D) cs = Inr ks \<Longrightarrow> \<not> (distinct ks \<and> (\<forall>k\<in>set ks. seen k = None)) \<Longrightarrow>
   distinct_keys U D seen cs = Inl (vfail PRIMARY_KEY_COLLISION)"
proof (induction cs arbitrary: ks seen)
  case (Cons c cs)
  from Cons.prems(1) obtain k rest where "candidate_key U D c = Inr k"
      and rest: "mapM (candidate_key U D) cs = Inr rest" "ks = k # rest" by auto
  then have k: "canonicalizePrimaryKey U (pk_values c) D = Inr k" by (simp add: candidate_key_def)
  show ?case
  proof (cases "seen k = None")
    case True
    define seen' where "seen' = seen(k \<mapsto> pk_candidateId c)"
    have "\<not> (distinct rest \<and> (\<forall>x\<in>set rest. seen' x = None))"
      using Cons.prems(2) True unfolding rest(2) seen'_def by auto
    from Cons.IH [OF rest(1) this] show ?thesis using True by (simp add: k seen'_def [symmetric])
  next
    case False
    then show ?thesis by (auto simp: k guard_def)
  qed
qed simp

definition demoOptions :: RestrictedJsonOptions where
  "demoOptions = \<lparr>jo_maximumBytes = None, jo_maximumDepth = None, jo_maximumNodes = None\<rparr>"

definition demoJson :: JsValue where
  "demoJson = JsPlainObject [(js ''b'', JsArray [JsNumber (IntegerNumber (-7)), JsNull]), (js ''a'', JsNumber NegativeZero)]"

definition demoJsonText :: jsstring where
  "demoJsonText = js ''{\"a\":0,\"b\":[-7,null]}''"

lemma demoJson_canonical: "canonicalizeRestrictedJson demoJson demoOptions = Inr demoJsonText"
  by code_simp

subsection \<open>Restricted JSON\<close>

text \<open>
  Claim C35. Canonical JSON is exactly the reference text under limits on the whole. The writer, which
  counts bytes and nodes as it goes and stops at the first limit it passes, succeeds for exactly the
  values JSON can represent without loss whose reference text, nesting and number of nodes fit, and
  it returns that text: limits are never hit early or missed, and no order of visits matters.
\<close>

theorem json_canonical_reference:
  "canonicalizeRestrictedJson v options = Inr t \<longleftrightarrow>
     (case json_limits options of (maxBytes, maxDepth, maxNodes) \<Rightarrow>
       limit_ok maxBytes \<and> limit_ok maxDepth \<and> limit_ok maxNodes \<and> json_ok v \<and> t = json_text v
       \<and> int (utf8ByteLength (json_text v)) \<le> maxBytes \<and> json_height v \<le> maxDepth \<and> json_nodes v \<le> maxNodes)"
  by (rule canonicalizeRestrictedJson_Inr)

text \<open>
  Claim C36. Canonical JSON round-trips. Parsing the canonical text of a value gives the value in
  normal form (members in UTF-8 order, no negative zero), and the normal form has the same
  canonical text under the same limits.
\<close>

theorem json_roundtrip:
  assumes "canonicalizeRestrictedJson v options = Inr t"
  shows "parseCanonicalJson t = Some (json_normal v) \<and> canonicalizeRestrictedJson (json_normal v) options = Inr t"
  using assms unfolding canonicalizeRestrictedJson_Inr
  by (auto simp: parseCanonicalJson_text json_ok_normal json_text_normal json_size_normal)

theorem json_roundtrip_witness:
  "parseCanonicalJson demoJsonText = Some (json_normal demoJson) \<and> canonicalizeRestrictedJson (json_normal demoJson) demoOptions = Inr demoJsonText"
  by (rule json_roundtrip [OF demoJson_canonical])

text \<open>
  Canonical JSON identifies values. Two values have the same canonical text, whatever their
  limits, exactly when they have the same normal form.
\<close>

theorem json_identity:
  assumes "canonicalizeRestrictedJson v options = Inr t" "canonicalizeRestrictedJson w options' = Inr u"
  shows "t = u \<longleftrightarrow> json_normal v = json_normal w"
  using assms json_text_inject [of v w] unfolding canonicalizeRestrictedJson_Inr by auto

theorem json_identity_witness:
  "demoJsonText \<noteq> js ''[]''"
proof -
  have "canonicalizeRestrictedJson (JsArray []) demoOptions = Inr (js ''[]'')" by code_simp
  from json_identity [OF demoJson_canonical this] show ?thesis by (simp add: demoJson_def)
qed

text \<open>
  The one call of \<open>JSON.parse\<close> in the codec never throws, for inputs whose arrays have no
  holes (the inputs of the model): the only failures of \<open>canonicalizePropertyValue\<close> are the codec's
  own errors.
\<close>

theorem property_value_no_syntax_error:
  "canonicalizePropertyValue input descriptor \<noteq> Inl SyntaxFailure"
  by (auto simp: canonicalizePropertyValue_def codec_step_def rbind_eq_Inl_iff canonicalizeRestrictedJson_Inr parseCanonicalJson_text
    split: PropertyType.splits sum.splits option.splits prod.splits)

subsection \<open>Scalars\<close>

text \<open>
  Claim C37. The canonical values of every descriptor, exactly. Some input canonicalizes to a value
  under a descriptor if and only if the value has the shape of the descriptor: a boolean; the decimal
  text of an integer of 64 bits; a decimal with all digits of its scale and a number below the
  precision; the text of a real date of the years 1 to 9999; such a date with a time in UTC and six
  digits of a second; a code of a list of distinct codes; a well-formed text within its limit.
\<close>

theorem scalar_values_exact:
  "(\<exists>input. canonicalizeScalarValue input d = Inr c) = scalar_shape d c"
  by (rule scalar_shape_exact)

text \<open>
  Canonical scalars are fixed points. What \<open>canonicalizeScalarValue\<close> returns for a
  descriptor of any type is accepted by the same descriptor and returned as it is.
\<close>

theorem scalar_fixed_point:
  assumes "canonicalizeScalarValue input d = Inr c"
  shows "canonicalizeScalarValue (scalar_input c) d = Inr c"
  using assms by (rule canonicalizeScalarValue_again)

definition demoDecimal :: DecimalFormat where
  "demoDecimal = \<lparr>precision = 5, scale = 2\<rparr>"

lemma demo_decimals:
  "canonicalizeScalarValue (JsString (js ''-0.5'')) (DecimalDescriptor demoDecimal) = Inr (CanonicalText (js ''-0.50''))"
  "canonicalizeScalarValue (JsString (js ''12'')) (DecimalDescriptor demoDecimal) = Inr (CanonicalText (js ''12.00''))"
  "canonicalizeScalarValue (JsString (js ''12.0'')) (DecimalDescriptor demoDecimal) = Inr (CanonicalText (js ''12.00''))"
  by code_simp+

theorem scalar_fixed_point_witness:
  "canonicalizeScalarValue (scalar_input (CanonicalText (js ''-0.50''))) (DecimalDescriptor demoDecimal) = Inr (CanonicalText (js ''-0.50''))"
  by (rule scalar_fixed_point [OF demo_decimals(1)])

text \<open>
  Claim C38. \<open>compareScalarValues\<close> is a total order on the canonical values of every descriptor: its
  results are -1, 0 and 1, swapping the arguments negates it, it is zero exactly for inputs with the
  same canonical value, and it is transitive.
\<close>

theorem scalars_totally_ordered:
  assumes "compareScalarValues a b d = Inr m" "compareScalarValues b c d = Inr n"
  shows "m \<in> {-1, 0, 1} \<and> compareScalarValues b a d = Inr (- m)
    \<and> (m = 0 \<longleftrightarrow> canonicalizeScalarValue a d = canonicalizeScalarValue b d)
    \<and> (m \<le> 0 \<and> n \<le> 0 \<longrightarrow> (\<exists>k. compareScalarValues a c d = Inr k \<and> k \<le> 0))"
proof -
  obtain x y z where c: "canonicalizeScalarValue a d = Inr x" "canonicalizeScalarValue b d = Inr y" "canonicalizeScalarValue c d = Inr z"
    and m: "m = compare_canonical d x y" and n: "n = compare_canonical d y z"
    using assms unfolding compareScalarValues_Inr by auto
  note can = c [THEN canonicalize_canonical]
  note o = ordersD [OF compare_canonical_orders can(1,2)]
  have "compareScalarValues b a d = Inr (- m)" using c o(2) by (simp add: compareScalarValues_def m)
  moreover have "compareScalarValues a c d = Inr (compare_canonical d x z)" using c by (simp add: compareScalarValues_def)
  moreover have "compare_canonical d x z \<le> 0" if "m \<le> 0 \<and> n \<le> 0" using that o(4) [OF can(3)] by (simp add: m n)
  ultimately show ?thesis using o(1,3) c by (auto simp: m)
qed

theorem scalars_totally_ordered_witness:
  "\<exists>k. compareScalarValues (JsString (js ''-0.5'')) (JsString (js ''12.0'')) (DecimalDescriptor demoDecimal) = Inr k \<and> k \<le> 0"
proof -
  let ?d = "DecimalDescriptor demoDecimal"
  have "compareScalarValues (JsString (js ''-0.5'')) (JsString (js ''12'')) ?d = Inr (-1)"
    "compareScalarValues (JsString (js ''12'')) (JsString (js ''12.0'')) ?d = Inr 0" by code_simp+
  from scalars_totally_ordered [OF this] show ?thesis by simp
qed

text \<open>
  Integers are the signed 64-bit integers. The decimal text of an integer is accepted, and
  returned unchanged, exactly when the integer survives being stored in 64 bits; otherwise the error
  is \<open>INTEGER_VALUE_OUT_OF_RANGE\<close>.
\<close>

theorem integers_are_64_bit:
  "canonicalizeInteger (JsString (js_of_int i)) =
     (if sint (word_of_int i :: 64 word) = i then Inr (js_of_int i) else Inl (vfail INTEGER_VALUE_OUT_OF_RANGE))"
proof -
  have fits: "sint (word_of_int i :: 64 word) = i \<longleftrightarrow> INTEGER_MINIMUM \<le> i \<and> i \<le> INTEGER_MAXIMUM"
  proof
    assume "sint (word_of_int i :: 64 word) = i"
    then show "INTEGER_MINIMUM \<le> i \<and> i \<le> INTEGER_MAXIMUM"
      using sint_greater_eq [of "word_of_int i :: 64 word"] sint_less [of "word_of_int i :: 64 word"]
      by (simp add: INTEGER_MINIMUM_def INTEGER_MAXIMUM_def)
  next
    assume "INTEGER_MINIMUM \<le> i \<and> i \<le> INTEGER_MAXIMUM"
    then show "sint (word_of_int i :: 64 word) = i"
      by (simp add: sint_sbintrunc' signed_take_bit_int_eq_self INTEGER_MINIMUM_def INTEGER_MAXIMUM_def)
  qed
  have "requireString (JsString (js_of_int i)) value_path = Inr (js_of_int i)" using print_plain by (simp add: requireString_Inr)
  then show ?thesis
    using big_int_print [of i] unfolding fits by (auto simp: canonicalizeInteger_def Let_def guard_def)
qed

text \<open>
  Canonical decimals keep the value. The canonical text has exactly the scale of the format,
  stands for the same number as the input (compared in units of both scales), and its digits fit the
  precision: the stored integer is below ten to the power of the precision.
\<close>

theorem decimal_value_kept:
  assumes "canonicalizeDecimal input f = Inr t"
  shows "fractionalDigits t = nat (scale f) \<and> \<bar>decimalToUnscaled t\<bar> < 10 ^ nat (precision f)
    \<and> (\<exists>v. input = JsString v \<and> decimalToUnscaled t * 10 ^ fractionalDigits v = decimalToUnscaled v * 10 ^ fractionalDigits t)"
  using assms
proof (rule canonicalizeDecimal_Inr)
  fix v
  let ?s = "nat (scale f)"
  assume v: "requireString input value_path = Inr v" "fractionalDigits v \<le> ?s"
    and t: "t = decimal_text ?s (decimalToUnscaled v * 10 ^ (?s - fractionalDigits v))"
    and b: "\<bar>decimalToUnscaled v * 10 ^ (?s - fractionalDigits v)\<bar> < 10 ^ nat (precision f)"
  have "input = JsString v" using v(1) by (simp add: requireString_Inr)
  moreover have "decimalToUnscaled t = decimalToUnscaled v * 10 ^ (?s - fractionalDigits v)" "fractionalDigits t = ?s"
    unfolding t using unscaled_decimal_text by blast+
  moreover have "10 ^ (?s - fractionalDigits v) * 10 ^ fractionalDigits v = (10 :: int) ^ ?s"
    using v(2) by (simp add: power_add [symmetric])
  ultimately show ?thesis using b by (auto simp: mult.assoc)
qed

theorem decimal_value_kept_witness:
  "\<bar>decimalToUnscaled (js ''-0.50'')\<bar> < 10 ^ nat (precision demoDecimal)"
proof -
  have "canonicalizeDecimal (JsString (js ''-0.5'')) demoDecimal = Inr (js ''-0.50'')" by code_simp
  from decimal_value_kept [OF this] show ?thesis by (elim conjE)
qed

subsection \<open>The calendar and timestamps\<close>

text \<open>
  The calendar counts days. The day number of a date is the number of days, one at a time
  by the Gregorian rules, from 1970-01-01 on; and for every integer, before 1970 too, \<open>civilFromDays\<close>
  gives the one real date with that day number.
\<close>

theorem calendar_counts_days:
  "(next_date ^^ n) (1970, 1, 1) = civilFromDays (int n)
   \<and> (case civilFromDays i of (y, m, d) \<Rightarrow> real_date y m d \<and> daysFromCivil y m d = i)"
proof -
  have start: "civilFromDays 0 = (1970, 1, 1)" by code_simp
  have "(next_date ^^ n) (1970, 1, 1) = civilFromDays (int n)"
    by (induction n) (simp_all add: start next_date_civil add.commute)
  moreover obtain y m d where "civilFromDays i = (y, m, d)" by (cases "civilFromDays i")
  ultimately show ?thesis using days_civil_days [of i y m d] by simp
qed

text \<open>
  Claim C39. A canonical timestamp is the instant of its input. A text is accepted exactly when it denotes
  an instant, that is, has the fields of a real Gregorian date, a clock time, up to six digits of a
  fraction and a zone up to fourteen hours east or west, and the same instant has a UTC text with six
  digits in the years 1 to 9999; that is the canonical text, and its microseconds since 1970 are
  the instant: the days counted one by one, plus the clock, less what the zone is ahead of UTC.
\<close>

theorem timestamp_instant_kept:
  "canonicalizeTimestamp (JsString v) = Inr t \<longleftrightarrow>
     (\<exists>zone fraction e f. denotes v zone fraction e \<and> denotes t None f e \<and> length f = 6
        \<and> timestampToEpochMicroseconds t = Inr e)"
  using canonicalizeTimestamp_denotes denotes_canonicalizeTimestamp denotes_epoch by meson

lemma demo_timestamps:
  "canonicalizeTimestamp (JsString (js ''2024-03-01T00:30:00+01:00'')) = Inr (js ''2024-02-29T23:30:00.000000Z'')"
  "canonicalizeTimestamp (JsString (js ''2024-02-29T23:31:00.5Z'')) = Inr (js ''2024-02-29T23:31:00.500000Z'')"
  "timestampToEpochMicroseconds (js ''2024-02-29T23:30:00.000000Z'') = Inr 1709249400000000"
  "timestampToEpochMicroseconds (js ''2024-02-29T23:31:00.500000Z'') = Inr 1709249460500000"
proof -
  let ?v = "js ''2024-03-01T00:30:00+01:00''" and ?w = "js ''2024-02-29T23:31:00.5Z''"
  define m where "m = \<lparr>tm_year = 2024, tm_month = 3, tm_day = 1, tm_hour = 0, tm_minute = 30, tm_second = 0,
    tm_fraction = None, tm_zone = ZoneOffset 43 1 0\<rparr>"
  define n where "n = \<lparr>tm_year = 2024, tm_month = 2, tm_day = 29, tm_hour = 23, tm_minute = 31, tm_second = 0,
    tm_fraction = Some (js ''5''), tm_zone = ZoneZ\<rparr>"
  have "requireString (JsString ?v) value_path = Inr ?v" "requireString (JsString ?w) value_path = Inr ?w" by code_simp+
  moreover have "timestamp_match ?v = Some m" "timestamp_match ?w = Some n" unfolding m_def n_def by code_simp+
  moreover have "match_valid m" "match_valid n"
    by (simp_all add: m_def n_def match_valid_def real_date_def daysInMonth_def isLeapYear_def)
  moreover have "offset_minutes (tm_zone m) = Inr 60" "offset_minutes (tm_zone n) = Inr 0" unfolding m_def n_def by code_simp+
  moreover have "match_instant m 60 = 1709249400000000" "match_instant n 0 = 1709249460500000" unfolding m_def n_def by code_simp+
  moreover have "formatUtcTimestamp 1709249400000000 = Inr (js ''2024-02-29T23:30:00.000000Z'')"
    "formatUtcTimestamp 1709249460500000 = Inr (js ''2024-02-29T23:31:00.500000Z'')" by code_simp+
  ultimately show "canonicalizeTimestamp (JsString ?v) = Inr (js ''2024-02-29T23:30:00.000000Z'')"
    "canonicalizeTimestamp (JsString ?w) = Inr (js ''2024-02-29T23:31:00.500000Z'')"
    unfolding canonicalizeTimestamp_Inr by auto
  show "timestampToEpochMicroseconds (js ''2024-02-29T23:30:00.000000Z'') = Inr 1709249400000000"
    "timestampToEpochMicroseconds (js ''2024-02-29T23:31:00.500000Z'') = Inr 1709249460500000" by code_simp+
qed

theorem timestamp_instant_kept_witness:
  "\<exists>zone fraction. denotes (js ''2024-03-01T00:30:00+01:00'') zone fraction 1709249400000000"
  using timestamp_instant_kept [THEN iffD1, OF demo_timestamps(1)] demo_timestamps(3) by auto

text \<open>
  The order of canonical timestamps as strings is the order of the instants:
  \<open>compareCanonicalTimestamps\<close> on two canonical texts compares their microseconds since 1970.
\<close>

theorem timestamp_order_chronological:
  assumes "canonicalizeTimestamp a = Inr s" "canonicalizeTimestamp b = Inr t"
    and "timestampToEpochMicroseconds s = Inr d" "timestampToEpochMicroseconds t = Inr e"
  shows "compareCanonicalTimestamps s t = compareBy d e"
  using canonical_timestamp_order [OF assms] canonical_timestamp_order [OF assms(2,1,4,3)]
  by (simp add: compareCanonicalTimestamps_def compareBy_def)

theorem timestamp_order_chronological_witness:
  "compareCanonicalTimestamps (js ''2024-02-29T23:30:00.000000Z'') (js ''2024-02-29T23:31:00.500000Z'') = compareBy (1709249400000000 :: int) 1709249460500000"
  by (rule timestamp_order_chronological [OF demo_timestamps])

subsection \<open>Text\<close>

text \<open>
  \<open>compareUtf8\<close>, which compares encoded bytes, is the order of the Unicode code points, where a lone
  surrogate counts as the replacement character it is encoded as.
\<close>

theorem utf8_order_is_code_point_order:
  "compareUtf8 left right = compareBy (map scalar (code_points left)) (map scalar (code_points right))"
  by (rule compareUtf8_eq)

subsection \<open>Primary keys\<close>

text \<open>
  Claim C40. Primary keys never collide by encoding. Two canonical keys, also of different definitions,
  are the same text exactly when their components have the same types and the same canonical
  components: no choice of component texts can imitate a separator or a length.
\<close>

theorem primary_key_injective:
  assumes "unicode_text U" "canonicalizePrimaryKey U vs D = Inr k" "canonicalizePrimaryKey U ws E = Inr l"
  shows "k = l \<longleftrightarrow> map componentTag (pk_components D) = map componentTag (pk_components E)
    \<and> key_components U (pk_components D) vs = key_components U (pk_components E) ws"
  using assms by (rule canonicalizePrimaryKey_inject)

text \<open>Text that is in NFC already and has no case but that of ASCII.\<close>

definition demoUnicode :: UnicodeText where
  "demoUnicode = \<lparr>normalizeNFC = (\<lambda>s. s), toUpperCase = map (\<lambda>u. if 97 \<le> u \<and> u \<le> 122 then u - 32 else u)\<rparr>"

definition demoKey :: PrimaryKeyDefinition where
  "demoKey = \<lparr>pk_components = [PrimaryKeyString True, PrimaryKeyInteger], pk_maximumBytes = None\<rparr>"

lemma demoUnicode_text: "unicode_text demoUnicode"
proof -
  define up :: "code_unit \<Rightarrow> code_unit" where "up u = (if 97 \<le> u \<and> u \<le> 122 then u - 32 else u)" for u
  have "isWellFormed (map up s)" if "isWellFormed s" for s
  proof (rule isWellFormed_map [OF _ that])
    fix u
    show "up u = u \<or> unat u < 0xD800 \<and> unat (up u) < 0xD800"
    proof (cases "97 \<le> u \<and> u \<le> 122")
      case True
      then have r: "97 \<le> unat u" "unat u \<le> 122" by (simp_all add: word_le_nat_alt)
      have "unat (u - 32) = unat u - unat (32 :: code_unit)" by (rule unat_sub) (use r in \<open>simp add: word_le_nat_alt\<close>)
      then show ?thesis using True r by (simp add: up_def)
    qed (auto simp: up_def)
  qed
  then show ?thesis by (simp add: unicode_text_def demoUnicode_def up_def [abs_def, symmetric])
qed

lemma demoKeys:
  "canonicalizePrimaryKey demoUnicode [JsString (js ''a''), JsString (js ''7'')] demoKey = Inr (js ''pk1|2|s1#ai1#7'')"
  "canonicalizePrimaryKey demoUnicode [JsString (js ''ai1#7''), JsString (js ''7'')] demoKey = Inr (js ''pk1|2|s5#ai1#7i1#7'')"
  by code_simp+

theorem primary_key_injective_witness:
  "key_components demoUnicode (pk_components demoKey) [JsString (js ''a''), JsString (js ''7'')]
     \<noteq> key_components demoUnicode (pk_components demoKey) [JsString (js ''ai1#7''), JsString (js ''7'')]"
  using primary_key_injective [OF demoUnicode_text demoKeys] by simp

text \<open>
  \<open>canonicalizeDistinctPrimaryKeys\<close> accepts a list of candidates exactly when all of them
  have a key and the keys are pairwise different, and then returns each candidate with its key, in order.
\<close>

theorem distinct_primary_keys_exact:
  "canonicalizeDistinctPrimaryKeys U candidates D = Inr out \<longleftrightarrow>
     (\<exists>ks. mapM (candidate_key U D) candidates = Inr ks \<and> distinct ks \<and> out = map2 keyed candidates ks)"
  unfolding canonicalizeDistinctPrimaryKeys_def distinct_keys_Inr by simp

text \<open>
  Candidates that all have keys, two of them the same, are refused with
  \<open>PRIMARY_KEY_COLLISION\<close> and no other error.
\<close>

theorem primary_key_collision_reported:
  assumes "mapM (candidate_key U D) candidates = Inr ks" "\<not> distinct ks"
  shows "canonicalizeDistinctPrimaryKeys U candidates D = Inl (vfail PRIMARY_KEY_COLLISION)"
  unfolding canonicalizeDistinctPrimaryKeys_def using assms by (intro distinct_keys_collision) simp_all

definition demoUpper :: PrimaryKeyDefinition where
  "demoUpper = \<lparr>pk_components = [PrimaryKeyString False], pk_maximumBytes = None\<rparr>"

definition demoCandidates :: "PrimaryKeyCandidate list" where
  "demoCandidates = [\<lparr>pk_candidateId = js ''1'', pk_values = [JsString (js ''abc'')]\<rparr>, \<lparr>pk_candidateId = js ''2'', pk_values = [JsString (js ''ABC'')]\<rparr>]"

theorem primary_key_collision_reported_witness:
  "canonicalizeDistinctPrimaryKeys demoUnicode demoCandidates demoUpper = Inl (vfail PRIMARY_KEY_COLLISION)"
proof (rule primary_key_collision_reported)
  show "mapM (candidate_key demoUnicode demoUpper) demoCandidates = Inr [js ''pk1|1|s3#ABC'', js ''pk1|1|s3#ABC'']" by code_simp
  show "\<not> distinct [js ''pk1|1|s3#ABC'', js ''pk1|1|s3#ABC'']" by simp
qed

end
