(* ===== verification/Activation.thy ===== *)
theory Activation
  imports Js
begin

text \<open>
  The runtime activation protocol (\<open>tools/runtime-activation/model.ts\<close>): releases pin the plan of
  every member, generations of data are built from snapshots and certified for pins, an activation
  binds one generation to every pin of a release, serving heads and channels point at activations,
  queries and preflight tokens hold the activation they resolved, and a garbage collection in two
  phases collects what nothing refers to.

  \<open>RuntimeState\<close> is the private state of the class \<open>RuntimeActivationModel\<close>; its read-only policy is
  an argument. Every object keyed by id is a map in insertion order; ids are not the names of members of
  \<open>Object.prototype\<close> and not array indices. Times are integers. A method that throws after a write keeps the write.
  \<open>localeCompare\<close>, given by the locale data of the runtime, is an argument of the collection.
\<close>

subsection \<open>Data\<close>

definition DAY_IN_MS :: int where
  "DAY_IN_MS = 24 * 60 * 60 * 1000"

datatype RuntimeErrorCode =
    ALREADY_EXISTS
  | CAPACITY_APPROVAL_INVALID
  | CAPACITY_HARD_LIMIT
  | CAPACITY_SOFT_LIMIT
  | CONCURRENT_MODIFICATION
  | CONTENT_COLLECTED
  | INVALID_STATE
  | NOT_FOUND
  | PIN_GENERATION_MISMATCH
  | PREFLIGHT_STALE
  | PREFLIGHT_TOKEN_EXPIRED
  | QUERY_LEASE_EXPIRED
  | RELEASE_NOT_SERVING
  | RELEASE_RETIRED
  | SNAPSHOT_GROUP_MISMATCH
  | SUPPORT_WINDOW_ACTIVE

record RuntimePolicy =
  minimumReleaseSupportMs :: int
  normalMaxServingReleases :: int
  hardMaxServingReleases :: int
  normalMaxServingGenerationsPerMember :: int
  hardMaxServingGenerationsPerMember :: int
  inactiveGenerationRetentionCount :: int
  minimumInactiveRetentionMs :: int
  maximumCapacityApprovalMs :: int
  maximumQueryLeaseMs :: int
  maximumPreflightTtlMs :: int

definition defaultRuntimePolicy :: RuntimePolicy where
  "defaultRuntimePolicy = \<lparr>minimumReleaseSupportMs = 90 * DAY_IN_MS, normalMaxServingReleases = 32, hardMaxServingReleases = 64,
     normalMaxServingGenerationsPerMember = 8, hardMaxServingGenerationsPerMember = 16,
     inactiveGenerationRetentionCount = 2, minimumInactiveRetentionMs = 7 * DAY_IN_MS,
     maximumCapacityApprovalMs = 30 * DAY_IN_MS, maximumQueryLeaseMs = 5 * 60 * 1000,
     maximumPreflightTtlMs = 15 * 60 * 1000\<rparr>"

record ReleasePin =
  pin_memberKey :: jsstring
  pin_resourceRevisionId :: jsstring
  pin_schemaHash :: jsstring
  pin_mappingHash :: jsstring
  pin_snapshotGroupKey :: jsstring

datatype ReleaseState = Release_STAGED | Release_PUBLISHED | Release_RETIRED | Release_COLLECTED

datatype ContentState = READY | COLLECTED

record ReleaseRecord =
  rl_id :: jsstring
  rl_projectId :: jsstring
  rl_manifestHash :: jsstring
  rl_pins :: "(jsstring, ReleasePin) jsmap"
  rl_state :: ReleaseState
  rl_rollbackOf :: "jsstring option"
  rl_stagedAt :: int
  rl_publishedAt :: "int option"
  rl_supportUntil :: "int option"
  rl_retiredAt :: "int option"

record SnapshotRecord =
  sn_id :: jsstring
  sn_projectId :: jsstring
  sn_groupKey :: jsstring
  sn_groupVersion :: jsstring
  sn_createdAt :: int
  sn_lastServingAt :: "int option"
  sn_state :: ContentState

record GenerationCompatibilityProof =
  gp_releaseId :: jsstring
  gp_pinFingerprint :: jsstring
  gp_schemaHash :: jsstring
  gp_mappingHash :: jsstring
  gp_certificateId :: jsstring

record GenerationRecord =
  ge_id :: jsstring
  ge_projectId :: jsstring
  ge_memberKey :: jsstring
  ge_snapshotId :: jsstring
  ge_buildReleaseId :: jsstring
  ge_buildPinFingerprint :: jsstring
  ge_compatibilityByPin :: "(jsstring, GenerationCompatibilityProof) jsmap"
  ge_createdAt :: int
  ge_lastServingAt :: "int option"
  ge_state :: ContentState

record ActivationMember =
  am_generationId :: jsstring
  am_snapshotId :: jsstring

record ActivationRecord =
  av_id :: jsstring
  av_projectId :: jsstring
  av_sourceChannel :: jsstring
  av_releaseId :: jsstring
  av_releaseManifestHash :: jsstring
  av_members :: "(jsstring, ActivationMember) jsmap"
  av_createdAt :: int
  av_lastServingAt :: "int option"
  av_state :: ContentState

record ChannelPointer =
  ch_projectId :: jsstring
  ch_channel :: jsstring
  ch_activationId :: jsstring
  ch_updatedAt :: int

record ServingHead =
  sh_releaseId :: jsstring
  sh_activationId :: jsstring
  sh_updatedAt :: int

datatype RuntimeSelector = SelectChannel jsstring jsstring | SelectRelease jsstring

record ContentReferences =
  cr_releaseIds :: "jsstring list"
  cr_activationIds :: "jsstring list"
  cr_generationIds :: "jsstring list"
  cr_snapshotIds :: "jsstring list"

record ContentReferencesInput =
  ci_releaseIds :: "jsstring list option"
  ci_activationIds :: "jsstring list option"
  ci_generationIds :: "jsstring list option"
  ci_snapshotIds :: "jsstring list option"

datatype QueryState = Query_ACTIVE | Query_ENDED

record QueryLease =
  ql_id :: jsstring
  ql_selector :: RuntimeSelector
  ql_activationId :: jsstring
  ql_resolutionCount :: int
  ql_startedAt :: int
  ql_leaseUntil :: int
  ql_state :: QueryState

datatype TokenState = Token_ACTIVE | Token_USED | Token_STALE

record PreflightToken =
  pt_id :: jsstring
  pt_selector :: RuntimeSelector
  pt_activationId :: jsstring
  pt_issuedAt :: int
  pt_expiresAt :: int
  pt_state :: TokenState

datatype JobReferenceState = JobRef_ACTIVE | JobRef_COMPLETED | JobRef_CANCELLED

record JobReference =
  jr_id :: jsstring
  jr_references :: ContentReferences
  jr_state :: JobReferenceState

datatype HoldState = Hold_ACTIVE | Hold_RELEASED

record HoldReference =
  ho_id :: jsstring
  ho_references :: ContentReferences
  ho_reason :: jsstring
  ho_state :: HoldState

record HistoricalReference =
  hi_id :: jsstring
  hi_references :: ContentReferences

record CapacityApproval =
  ca_id :: jsstring
  ca_projectId :: jsstring
  ca_approvedAt :: int
  ca_expiresAt :: int
  ca_maximumServingReleases :: int
  ca_maximumServingGenerationsPerMember :: int
  ca_retirementReleaseIds :: "jsstring list"

record RuntimeState =
  controlRevision :: int
  stateRevision :: int
  releases :: "(jsstring, ReleaseRecord) jsmap"
  snapshots :: "(jsstring, SnapshotRecord) jsmap"
  generations :: "(jsstring, GenerationRecord) jsmap"
  activations :: "(jsstring, ActivationRecord) jsmap"
  channels :: "(jsstring, ChannelPointer) jsmap"
  servingHeads :: "(jsstring, ServingHead) jsmap"
  queries :: "(jsstring, QueryLease) jsmap"
  preflightTokens :: "(jsstring, PreflightToken) jsmap"
  jobs :: "(jsstring, JobReference) jsmap"
  holds :: "(jsstring, HoldReference) jsmap"
  historicalReferences :: "(jsstring, HistoricalReference) jsmap"
  capacityApprovals :: "(jsstring, CapacityApproval) jsmap"

record RegisterReleaseInput =
  ri_id :: jsstring
  ri_projectId :: jsstring
  ri_manifestHash :: jsstring
  ri_pins :: "ReleasePin list"
  ri_stagedAt :: int
  ri_rollbackOf :: "jsstring option"

record RegisterSnapshotInput =
  si_id :: jsstring
  si_projectId :: jsstring
  si_groupKey :: jsstring
  si_groupVersion :: jsstring
  si_createdAt :: int

record RegisterGenerationInput =
  gi_id :: jsstring
  gi_projectId :: jsstring
  gi_memberKey :: jsstring
  gi_snapshotId :: jsstring
  gi_buildReleaseId :: jsstring
  gi_compatibleReleaseIds :: "jsstring list option"
  gi_certificateByReleaseId :: "(jsstring, jsstring) jsmap option"
  gi_createdAt :: int

record CreateActivationInput =
  ai_id :: jsstring
  ai_projectId :: jsstring
  ai_sourceChannel :: jsstring
  ai_releaseId :: jsstring
  ai_members :: "(jsstring, ActivationMember) jsmap"
  ai_createdAt :: int

record PublishInput =
  pb_releaseId :: jsstring
  pb_channel :: jsstring
  pb_activationId :: jsstring
  pb_expectedControlRevision :: int
  pb_at :: int
  pb_supportUntil :: "int option"
  pb_capacityApprovalId :: "jsstring option"

record RefreshInput =
  rf_replacements :: "(jsstring \<times> jsstring) list"
  rf_expectedControlRevision :: int
  rf_at :: int
  rf_capacityApprovalId :: "jsstring option"

record ResolvedActivation =
  ra_activationId :: jsstring
  ra_releaseId :: jsstring
  ra_releaseManifestHash :: jsstring

record GarbageCollectionPlan =
  gc_plannedAtStateRevision :: int
  gc_at :: int
  gc_releaseIds :: "jsstring list"
  gc_activationIds :: "jsstring list"
  gc_generationIds :: "jsstring list"
  gc_snapshotIds :: "jsstring list"

record ProtectedIds =
  pi_releaseIds :: "jsstring list"
  pi_activationIds :: "jsstring list"
  pi_generationIds :: "jsstring list"
  pi_snapshotIds :: "jsstring list"

record CapacitySnapshot =
  cs_servingReleases :: int
  cs_generationsPerMember :: "(jsstring, int) jsmap"

record ServingContent =
  sc_activationIds :: "jsstring list"
  sc_generationIds :: "jsstring list"
  sc_snapshotIds :: "jsstring list"

type_synonym 'a runtime_result = "(RuntimeErrorCode, 'a) result"
type_synonym 'a runtime_outcome = "(RuntimeErrorCode, 'a, RuntimeState) outcome"

end
