(* ===== verification/ActivationReads.thy ===== *)
theory ActivationReads
  imports Activation
begin

text \<open>
  The parts of the runtime activation protocol that read the state
  (\<open>tools/runtime-activation/model.ts\<close>): lookups, the check of an activation, resolution of a
  selector, capacity, and what the collection must protect.
\<close>

subsection \<open>Lookups\<close>

definition requireRecord :: "(jsstring, 'a) jsmap \<Rightarrow> jsstring \<Rightarrow> 'a runtime_result" where
  "requireRecord m k = (case map_of m k of None \<Rightarrow> Inl NOT_FOUND | Some v \<Rightarrow> Inr v)"

definition assertUnusedId :: "(jsstring, 'a) jsmap \<Rightarrow> jsstring \<Rightarrow> unit runtime_result" where
  "assertUnusedId m k = guard (map_of m k = None) ALREADY_EXISTS"

text \<open>A set of strings in insertion order.\<close>

definition addToSet :: "jsstring \<Rightarrow> jsstring list \<Rightarrow> jsstring list" where
  "addToSet x xs = (if x \<in> set xs then xs else xs @ [x])"

definition addAll :: "jsstring list \<Rightarrow> jsstring list \<Rightarrow> jsstring list" where
  "addAll ys xs = foldl (\<lambda>s y. addToSet y s) xs ys"

definition unique :: "jsstring list \<Rightarrow> jsstring list" where
  "unique xs = addAll xs []"

definition fromEntries :: "('k \<times> 'v) list \<Rightarrow> ('k, 'v) jsmap" where
  "fromEntries xs = foldl (\<lambda>m (k, v). AList.update k v m) [] xs"

definition spread :: "('k, 'v) jsmap \<Rightarrow> ('k, 'v) jsmap \<Rightarrow> ('k, 'v) jsmap" where
  "spread m n = foldl (\<lambda>m (k, v). AList.update k v m) m n"

definition channelKey :: "jsstring \<Rightarrow> jsstring \<Rightarrow> jsstring" where
  "channelKey projectId channel = js_stringify_list [projectId, channel]"

definition releasePinFingerprint :: "ReleasePin \<Rightarrow> jsstring" where
  "releasePinFingerprint pin = js_stringify_list [pin_memberKey pin, pin_resourceRevisionId pin, pin_schemaHash pin,
     pin_mappingHash pin, pin_snapshotGroupKey pin]"

definition normalizeReferences :: "ContentReferencesInput \<Rightarrow> ContentReferences" where
  "normalizeReferences input =
     \<lparr>cr_releaseIds = unique (case ci_releaseIds input of None \<Rightarrow> [] | Some ids \<Rightarrow> ids),
      cr_activationIds = unique (case ci_activationIds input of None \<Rightarrow> [] | Some ids \<Rightarrow> ids),
      cr_generationIds = unique (case ci_generationIds input of None \<Rightarrow> [] | Some ids \<Rightarrow> ids),
      cr_snapshotIds = unique (case ci_snapshotIds input of None \<Rightarrow> [] | Some ids \<Rightarrow> ids)\<rparr>"

definition requireUsableRelease :: "RuntimeState \<Rightarrow> jsstring \<Rightarrow> ReleaseRecord runtime_result" where
  "requireUsableRelease st k = rbind (requireRecord (releases st) k) (\<lambda>release.
     rbind (guard (\<not> (rl_state release = Release_RETIRED \<or> rl_state release = Release_COLLECTED)) RELEASE_RETIRED) (\<lambda>_.
     Inr release))"

definition requireReadySnapshot :: "RuntimeState \<Rightarrow> jsstring \<Rightarrow> SnapshotRecord runtime_result" where
  "requireReadySnapshot st k = rbind (requireRecord (snapshots st) k) (\<lambda>snapshot.
     rbind (guard (\<not> sn_state snapshot \<noteq> READY) CONTENT_COLLECTED) (\<lambda>_. Inr snapshot))"

definition requireReadyGeneration :: "RuntimeState \<Rightarrow> jsstring \<Rightarrow> GenerationRecord runtime_result" where
  "requireReadyGeneration st k = rbind (requireRecord (generations st) k) (\<lambda>generation.
     rbind (guard (\<not> ge_state generation \<noteq> READY) CONTENT_COLLECTED) (\<lambda>_. Inr generation))"

definition requireReadyActivation :: "RuntimeState \<Rightarrow> jsstring \<Rightarrow> ActivationRecord runtime_result" where
  "requireReadyActivation st k = rbind (requireRecord (activations st) k) (\<lambda>activation.
     rbind (guard (\<not> av_state activation \<noteq> READY) CONTENT_COLLECTED) (\<lambda>_. Inr activation))"

definition requireUncollectedRelease :: "RuntimeState \<Rightarrow> jsstring \<Rightarrow> ReleaseRecord runtime_result" where
  "requireUncollectedRelease st k = rbind (requireRecord (releases st) k) (\<lambda>release.
     rbind (guard (\<not> rl_state release = Release_COLLECTED) CONTENT_COLLECTED) (\<lambda>_. Inr release))"

text \<open>A loop that only checks.\<close>

primrec checkAll :: "('a \<Rightarrow> 'b runtime_result) \<Rightarrow> 'a list \<Rightarrow> unit runtime_result" where
  "checkAll f [] = Inr ()"
| "checkAll f (x # xs) = rbind (f x) (\<lambda>_. checkAll f xs)"

definition assertReferencesAvailable :: "RuntimeState \<Rightarrow> ContentReferences \<Rightarrow> unit runtime_result" where
  "assertReferencesAvailable st r =
     rbind (guard (length (cr_releaseIds r) + length (cr_activationIds r) + length (cr_generationIds r)
       + length (cr_snapshotIds r) \<noteq> 0) INVALID_STATE) (\<lambda>_.
     rbind (checkAll (requireUncollectedRelease st) (cr_releaseIds r)) (\<lambda>_.
     rbind (checkAll (requireReadyActivation st) (cr_activationIds r)) (\<lambda>_.
     rbind (checkAll (requireReadyGeneration st) (cr_generationIds r)) (\<lambda>_.
     checkAll (requireReadySnapshot st) (cr_snapshotIds r)))))"

definition assertControlRevision :: "RuntimeState \<Rightarrow> int \<Rightarrow> unit runtime_result" where
  "assertControlRevision st expected = guard (\<not> expected \<noteq> controlRevision st) CONCURRENT_MODIFICATION"

subsection \<open>Activations\<close>

definition validateMember ::
  "RuntimeState \<Rightarrow> ActivationRecord \<Rightarrow> ReleaseRecord \<Rightarrow> bool \<Rightarrow> (jsstring, jsstring) jsmap \<Rightarrow> jsstring
     \<Rightarrow> (jsstring, jsstring) jsmap runtime_result" where
  "validateMember st activation release requireReadyContent groupVersions memberKey =
     rbind (requireRecord (rl_pins release) memberKey) (\<lambda>pin.
     rbind (requireRecord (av_members activation) memberKey) (\<lambda>member.
     rbind (requireRecord (generations st) (am_generationId member)) (\<lambda>generation.
     rbind (requireRecord (snapshots st) (am_snapshotId member)) (\<lambda>snapshot.
     rbind (guard (\<not> (ge_projectId generation \<noteq> av_projectId activation \<or> ge_memberKey generation \<noteq> memberKey
         \<or> ge_snapshotId generation \<noteq> sn_id snapshot \<or> am_snapshotId member \<noteq> sn_id snapshot)) PIN_GENERATION_MISMATCH) (\<lambda>_.
     rbind (guard (\<not> (requireReadyContent \<and> (ge_state generation \<noteq> READY \<or> sn_state snapshot \<noteq> READY))) CONTENT_COLLECTED) (\<lambda>_.
     rbind (guard (\<not> sn_groupKey snapshot \<noteq> pin_snapshotGroupKey pin) SNAPSHOT_GROUP_MISMATCH) (\<lambda>_.
     rbind (guard (\<not> (map_of groupVersions (sn_groupKey snapshot) \<noteq> None
         \<and> map_of groupVersions (sn_groupKey snapshot) \<noteq> Some (sn_groupVersion snapshot))) SNAPSHOT_GROUP_MISMATCH) (\<lambda>_.
     let groupVersions = AList.update (sn_groupKey snapshot) (sn_groupVersion snapshot) groupVersions;
         fingerprint = releasePinFingerprint pin in
     rbind (guard (\<not> (case map_of (ge_compatibilityByPin generation) fingerprint of
           None \<Rightarrow> True
         | Some p \<Rightarrow> gp_pinFingerprint p \<noteq> fingerprint \<or> gp_schemaHash p \<noteq> pin_schemaHash pin
             \<or> gp_mappingHash p \<noteq> pin_mappingHash pin)) PIN_GENERATION_MISMATCH) (\<lambda>_.
     Inr groupVersions)))))))))"

fun validateMembers ::
  "RuntimeState \<Rightarrow> ActivationRecord \<Rightarrow> ReleaseRecord \<Rightarrow> bool \<Rightarrow> (jsstring, jsstring) jsmap \<Rightarrow> jsstring list
     \<Rightarrow> unit runtime_result" where
  "validateMembers st activation release ready groupVersions [] = Inr ()"
| "validateMembers st activation release ready groupVersions (k # ks) =
     rbind (validateMember st activation release ready groupVersions k) (\<lambda>groupVersions.
     validateMembers st activation release ready groupVersions ks)"

definition validateActivation :: "RuntimeState \<Rightarrow> ActivationRecord \<Rightarrow> bool \<Rightarrow> unit runtime_result" where
  "validateActivation st activation requireReadyContent =
     rbind (requireRecord (releases st) (av_releaseId activation)) (\<lambda>release.
     rbind (guard (\<not> (rl_state release = Release_COLLECTED \<or> av_projectId activation \<noteq> rl_projectId release
         \<or> av_releaseManifestHash activation \<noteq> rl_manifestHash release)) PIN_GENERATION_MISMATCH) (\<lambda>_.
     let pinKeys = sort (map_keys (rl_pins release)); memberKeys = sort (map_keys (av_members activation)) in
     rbind (guard (\<not> js_stringify_list pinKeys \<noteq> js_stringify_list memberKeys) PIN_GENERATION_MISMATCH) (\<lambda>_.
     validateMembers st activation release requireReadyContent [] pinKeys)))"

definition resolveActivation :: "RuntimeState \<Rightarrow> RuntimeSelector \<Rightarrow> ActivationRecord runtime_result" where
  "resolveActivation st selector = (case selector of
       SelectChannel projectId channel \<Rightarrow>
         rbind (requireRecord (channels st) (channelKey projectId channel)) (\<lambda>pointer.
         requireReadyActivation st (ch_activationId pointer))
     | SelectRelease releaseId \<Rightarrow>
         rbind (requireRecord (releases st) releaseId) (\<lambda>release.
         rbind (guard (\<not> (rl_state release = Release_RETIRED \<or> rl_state release = Release_COLLECTED)) RELEASE_RETIRED) (\<lambda>_.
         rbind (guard (\<not> rl_state release \<noteq> Release_PUBLISHED) RELEASE_NOT_SERVING) (\<lambda>_.
         rbind (requireRecord (servingHeads st) (rl_id release)) (\<lambda>head.
         requireReadyActivation st (sh_activationId head))))))"

definition resolved :: "ActivationRecord \<Rightarrow> ResolvedActivation" where
  "resolved activation = \<lparr>ra_activationId = av_id activation, ra_releaseId = av_releaseId activation,
     ra_releaseManifestHash = av_releaseManifestHash activation\<rparr>"

definition resolve :: "RuntimeState \<Rightarrow> RuntimeSelector \<Rightarrow> ResolvedActivation runtime_result" where
  "resolve st selector = rbind (resolveActivation st selector) (\<lambda>activation. Inr (resolved activation))"

subsection \<open>Capacity\<close>

definition currentHeadActivations :: "RuntimeState \<Rightarrow> (jsstring, jsstring) jsmap" where
  "currentHeadActivations st = fromEntries (map (\<lambda>head. (sh_releaseId head, sh_activationId head)) (map_values (servingHeads st)))"

definition addGeneration :: "(jsstring, jsstring list) jsmap \<Rightarrow> jsstring \<times> ActivationMember \<Rightarrow> (jsstring, jsstring list) jsmap" where
  "addGeneration gens km = AList.update (fst km)
     (addToSet (am_generationId (snd km)) (case map_of gens (fst km) of None \<Rightarrow> [] | Some s \<Rightarrow> s)) gens"

fun capacityLoop ::
  "RuntimeState \<Rightarrow> jsstring \<Rightarrow> int \<Rightarrow> (jsstring, jsstring list) jsmap \<Rightarrow> (jsstring, jsstring) jsmap
     \<Rightarrow> (int \<times> (jsstring, jsstring list) jsmap) runtime_result" where
  "capacityLoop st projectId n gens [] = Inr (n, gens)"
| "capacityLoop st projectId n gens ((releaseId, activationId) # heads) =
     (if (case map_of (releases st) releaseId of
            None \<Rightarrow> True
          | Some release \<Rightarrow> rl_projectId release \<noteq> projectId \<or> rl_state release = Release_COLLECTED)
      then capacityLoop st projectId n gens heads
      else rbind (requireRecord (activations st) activationId) (\<lambda>activation.
        capacityLoop st projectId (n + 1) (foldl addGeneration gens (av_members activation)) heads))"

definition capacityForHeads :: "RuntimeState \<Rightarrow> jsstring \<Rightarrow> (jsstring, jsstring) jsmap \<Rightarrow> CapacitySnapshot runtime_result" where
  "capacityForHeads st projectId heads = rbind (capacityLoop st projectId 0 [] heads) (\<lambda>(n, gens).
     Inr \<lparr>cs_servingReleases = n, cs_generationsPerMember = map (\<lambda>(k, ids). (k, int (length ids))) gens\<rparr>)"

definition capacity :: "RuntimeState \<Rightarrow> jsstring \<Rightarrow> CapacitySnapshot runtime_result" where
  "capacity st projectId = capacityForHeads st projectId (currentHeadActivations st)"

definition assertCapacity ::
  "RuntimePolicy \<Rightarrow> RuntimeState \<Rightarrow> jsstring \<Rightarrow> (jsstring, jsstring) jsmap \<Rightarrow> int \<Rightarrow> jsstring option \<Rightarrow> unit runtime_result" where
  "assertCapacity policy st projectId proposedHeads at capacityApprovalId =
     rbind (capacityForHeads st projectId (currentHeadActivations st)) (\<lambda>current.
     rbind (capacityForHeads st projectId proposedHeads) (\<lambda>proposed.
     rbind (guard (\<not> (cs_servingReleases proposed > hardMaxServingReleases policy
         \<or> list_ex (\<lambda>(k, n). n > hardMaxServingGenerationsPerMember policy) (cs_generationsPerMember proposed))) CAPACITY_HARD_LIMIT) (\<lambda>_.
     let expandsReleaseOverage = (cs_servingReleases proposed > normalMaxServingReleases policy
           \<and> cs_servingReleases proposed > cs_servingReleases current);
         expandsGenerationOverage = list_ex (\<lambda>(k, n). n > normalMaxServingGenerationsPerMember policy
           \<and> n > (case map_of (cs_generationsPerMember current) k of None \<Rightarrow> 0 | Some c \<Rightarrow> c)) (cs_generationsPerMember proposed) in
     if \<not> expandsReleaseOverage \<and> \<not> expandsGenerationOverage then Inr ()
     else case capacityApprovalId of
         None \<Rightarrow> Inl CAPACITY_SOFT_LIMIT
       | Some approvalId \<Rightarrow>
           rbind (requireRecord (capacityApprovals st) approvalId) (\<lambda>approval.
           let maxGenerationCount = foldl max 0 (map_values (cs_generationsPerMember proposed)) in
           guard (\<not> (ca_projectId approval \<noteq> projectId \<or> at < ca_approvedAt approval \<or> at \<ge> ca_expiresAt approval
             \<or> cs_servingReleases proposed > ca_maximumServingReleases approval
             \<or> maxGenerationCount > ca_maximumServingGenerationsPerMember approval)) CAPACITY_APPROVAL_INVALID))))"

subsection \<open>What the collection must keep\<close>

definition addReferences :: "ProtectedIds \<Rightarrow> ContentReferences \<Rightarrow> ProtectedIds" where
  "addReferences p r = \<lparr>pi_releaseIds = addAll (cr_releaseIds r) (pi_releaseIds p),
     pi_activationIds = addAll (cr_activationIds r) (pi_activationIds p),
     pi_generationIds = addAll (cr_generationIds r) (pi_generationIds p),
     pi_snapshotIds = addAll (cr_snapshotIds r) (pi_snapshotIds p)\<rparr>"

definition memberGenerations :: "ActivationRecord \<Rightarrow> jsstring list" where
  "memberGenerations activation = map am_generationId (map_values (av_members activation))"

definition memberSnapshots :: "ActivationRecord \<Rightarrow> jsstring list" where
  "memberSnapshots activation = map am_snapshotId (map_values (av_members activation))"

definition expandActivation :: "RuntimeState \<Rightarrow> ProtectedIds \<Rightarrow> jsstring \<Rightarrow> ProtectedIds" where
  "expandActivation st p activationId = (case map_of (activations st) activationId of
       None \<Rightarrow> p
     | Some activation \<Rightarrow> p\<lparr>pi_releaseIds := addToSet (av_releaseId activation) (pi_releaseIds p),
         pi_generationIds := addAll (memberGenerations activation) (pi_generationIds p),
         pi_snapshotIds := addAll (memberSnapshots activation) (pi_snapshotIds p)\<rparr>)"

definition expandGeneration :: "RuntimeState \<Rightarrow> ProtectedIds \<Rightarrow> jsstring \<Rightarrow> ProtectedIds" where
  "expandGeneration st p generationId = (case map_of (generations st) generationId of
       None \<Rightarrow> p
     | Some generation \<Rightarrow> p\<lparr>pi_snapshotIds := addToSet (ge_snapshotId generation) (pi_snapshotIds p)\<rparr>)"

text \<open>One round of the loop: the activations, then the generations, that are in the sets by then.\<close>

definition expandRound :: "RuntimeState \<Rightarrow> ProtectedIds \<Rightarrow> ProtectedIds" where
  "expandRound st p = (let p = foldl (expandActivation st) p (pi_activationIds p) in
     foldl (expandGeneration st) p (pi_generationIds p))"

lemma addToSet_same [simp]: "x \<in> set xs \<Longrightarrow> addToSet x xs = xs"
  by (simp add: addToSet_def)

lemma set_addToSet [simp]: "set (addToSet x xs) = insert x (set xs)"
  by (auto simp: addToSet_def)

lemma set_addAll [simp]: "set (addAll ys xs) = set xs \<union> set ys"
  unfolding addAll_def by (induction ys arbitrary: xs) auto

lemma addAll_same [simp]: "set ys \<subseteq> set xs \<Longrightarrow> addAll ys xs = xs"
  unfolding addAll_def by (induction ys arbitrary: xs) auto

text \<open>Sets that grow.\<close>

definition contained :: "ProtectedIds \<Rightarrow> ProtectedIds \<Rightarrow> bool" where
  "contained p q \<longleftrightarrow> set (pi_releaseIds p) \<subseteq> set (pi_releaseIds q) \<and> set (pi_activationIds p) \<subseteq> set (pi_activationIds q)
     \<and> set (pi_generationIds p) \<subseteq> set (pi_generationIds q) \<and> set (pi_snapshotIds p) \<subseteq> set (pi_snapshotIds q)"

lemma contained_refl [simp]: "contained p p"
  by (simp add: contained_def)

lemma contained_trans: "contained p q \<Longrightarrow> contained q r \<Longrightarrow> contained p r"
  unfolding contained_def by blast

lemma contained_foldl: "(\<And>p x. contained p (f p x)) \<Longrightarrow> contained p (foldl f p xs)"
  by (induction xs arbitrary: p) (auto intro: contained_trans)

text \<open>An activation or a generation whose content is in the sets already.\<close>

definition activation_closed :: "RuntimeState \<Rightarrow> ProtectedIds \<Rightarrow> jsstring \<Rightarrow> bool" where
  "activation_closed st p k \<longleftrightarrow> (case map_of (activations st) k of
       None \<Rightarrow> True
     | Some a \<Rightarrow> av_releaseId a \<in> set (pi_releaseIds p) \<and> set (memberGenerations a) \<subseteq> set (pi_generationIds p)
         \<and> set (memberSnapshots a) \<subseteq> set (pi_snapshotIds p))"

definition generation_closed :: "RuntimeState \<Rightarrow> ProtectedIds \<Rightarrow> jsstring \<Rightarrow> bool" where
  "generation_closed st p k \<longleftrightarrow> (case map_of (generations st) k of
       None \<Rightarrow> True
     | Some g \<Rightarrow> ge_snapshotId g \<in> set (pi_snapshotIds p))"

definition graph_closed :: "RuntimeState \<Rightarrow> ProtectedIds \<Rightarrow> bool" where
  "graph_closed st p \<longleftrightarrow> (\<forall>k\<in>set (pi_activationIds p). activation_closed st p k) \<and> (\<forall>k\<in>set (pi_generationIds p). generation_closed st p k)"

lemma expandActivation_same: "activation_closed st p k \<Longrightarrow> expandActivation st p k = p"
  unfolding activation_closed_def expandActivation_def by (cases p) (auto split: option.splits)

lemma expandGeneration_same: "generation_closed st p k \<Longrightarrow> expandGeneration st p k = p"
  unfolding generation_closed_def expandGeneration_def by (cases p) (auto split: option.splits)

lemma foldl_same: "(\<And>x. x \<in> set xs \<Longrightarrow> f p x = p) \<Longrightarrow> foldl f p xs = p"
  by (induction xs) auto

lemma expandRound_same: "graph_closed st p \<Longrightarrow> expandRound st p = p"
  unfolding expandRound_def graph_closed_def Let_def
  by (simp add: foldl_same expandActivation_same expandGeneration_same)

lemma expandActivation_contained: "contained p (expandActivation st p k)"
  by (auto simp: expandActivation_def contained_def split: option.splits)

lemma expandGeneration_contained: "contained p (expandGeneration st p k)"
  by (auto simp: expandGeneration_def contained_def split: option.splits)

lemma activation_closed_mono: "activation_closed st p k \<Longrightarrow> contained p q \<Longrightarrow> activation_closed st q k"
  unfolding activation_closed_def contained_def by (auto split: option.splits)

lemma generation_closed_mono: "generation_closed st p k \<Longrightarrow> contained p q \<Longrightarrow> generation_closed st q k"
  unfolding generation_closed_def contained_def by (auto split: option.splits)

lemma expandActivation_closed: "activation_closed st (expandActivation st p k) k"
  unfolding activation_closed_def expandActivation_def by (auto split: option.splits)

lemma expandGeneration_closed: "generation_closed st (expandGeneration st p k) k"
  unfolding generation_closed_def expandGeneration_def by (auto split: option.splits)

lemma foldl_closed:
  assumes "\<And>p x. contained p (f p x)" "\<And>p x. C (f p x) x" "\<And>p q x. C p x \<Longrightarrow> contained p q \<Longrightarrow> C q x"
  shows "\<forall>x\<in>set xs. C (foldl f p xs) x"
proof (induction xs arbitrary: p)
  case (Cons x xs)
  have "C (foldl f (f p x) xs) x" by (rule assms(3) [OF assms(2)]) (rule contained_foldl [OF assms(1)])
  with Cons show ?case by simp
qed simp

lemma expand_same_fields:
  "pi_activationIds (foldl (expandActivation st) p xs) = pi_activationIds p"
  "pi_activationIds (foldl (expandGeneration st) p xs) = pi_activationIds p"
  "pi_generationIds (foldl (expandGeneration st) p xs) = pi_generationIds p"
  by (induction xs arbitrary: p) (auto simp: expandActivation_def expandGeneration_def split: option.splits)

lemma expandRound_contained: "contained p (expandRound st p)"
  unfolding expandRound_def Let_def
  by (rule contained_trans [OF contained_foldl contained_foldl]) (rule expandActivation_contained expandGeneration_contained)+

lemma expandRound_closed: "graph_closed st (expandRound st p)"
proof -
  define q where "q = foldl (expandActivation st) p (pi_activationIds p)"
  define r where "r = foldl (expandGeneration st) q (pi_generationIds q)"
  have "\<forall>k\<in>set (pi_activationIds p). activation_closed st q k"
    unfolding q_def by (rule foldl_closed) (auto intro: expandActivation_contained expandActivation_closed activation_closed_mono)
  moreover have "contained q r" unfolding r_def by (rule contained_foldl) (rule expandGeneration_contained)
  moreover have "\<forall>k\<in>set (pi_generationIds q). generation_closed st r k"
    unfolding r_def by (rule foldl_closed) (auto intro: expandGeneration_contained expandGeneration_closed generation_closed_mono)
  moreover have "pi_activationIds r = pi_activationIds p" "pi_generationIds r = pi_generationIds q"
    by (simp_all add: r_def q_def expand_same_fields)
  ultimately have "graph_closed st r" unfolding graph_closed_def by (auto intro: activation_closed_mono)
  moreover have "expandRound st p = r" by (simp add: expandRound_def Let_def q_def r_def)
  ultimately show ?thesis by simp
qed

text \<open>
  The loop runs while a round adds something, that is, changes the sets. It ends: a round leaves
  nothing to add.
\<close>

function expandProtectedGraph :: "RuntimeState \<Rightarrow> ProtectedIds \<Rightarrow> ProtectedIds" where
  "expandProtectedGraph st p =
     (let p' = expandRound st p in if p' \<noteq> p then expandProtectedGraph st p' else p')"
  by auto
termination
  by (relation "measure (\<lambda>(st, p). if expandRound st p = p then 0 else 1)")
     (auto simp: expandRound_same [OF expandRound_closed])

declare expandProtectedGraph.simps [simp del]

lemma expandProtectedGraph_round [code]: "expandProtectedGraph st p = expandRound st p"
proof -
  have "expandProtectedGraph st (expandRound st p) = expandRound st p"
    by (subst expandProtectedGraph.simps) (simp add: expandRound_same [OF expandRound_closed])
  then show ?thesis by (subst expandProtectedGraph.simps) (simp add: Let_def)
qed

definition activeReferences :: "RuntimeState \<Rightarrow> ContentReferences list" where
  "activeReferences st =
     map jr_references (filter (\<lambda>job. jr_state job = JobRef_ACTIVE) (map_values (jobs st)))
     @ map ho_references (filter (\<lambda>hold. ho_state hold = Hold_ACTIVE) (map_values (holds st)))
     @ map hi_references (map_values (historicalReferences st))"

definition rootIds :: "RuntimeState \<Rightarrow> int \<Rightarrow> ProtectedIds" where
  "rootIds st at = foldl addReferences
     \<lparr>pi_releaseIds = unique (map sh_releaseId (map_values (servingHeads st))),
      pi_activationIds = unique (map ch_activationId (map_values (channels st))
        @ map sh_activationId (map_values (servingHeads st))
        @ map ql_activationId (filter (\<lambda>query. ql_state query = Query_ACTIVE \<and> ql_leaseUntil query > at) (map_values (queries st)))
        @ map pt_activationId (filter (\<lambda>token. pt_state token = Token_ACTIVE \<and> pt_expiresAt token > at) (map_values (preflightTokens st)))),
      pi_generationIds = [], pi_snapshotIds = []\<rparr>
     (activeReferences st)"

definition recent :: "int \<Rightarrow> int \<Rightarrow> int option \<Rightarrow> bool" where
  "recent cutoff createdAt lastServingAt \<longleftrightarrow> max createdAt (case lastServingAt of None \<Rightarrow> createdAt | Some t \<Rightarrow> t) > cutoff"

definition generationGroup :: "GenerationRecord \<Rightarrow> jsstring" where
  "generationGroup g = js_stringify_list [ge_projectId g, ge_memberKey g]"

definition newestFirst :: "(jsstring \<Rightarrow> jsstring \<Rightarrow> int) \<Rightarrow> GenerationRecord \<Rightarrow> GenerationRecord \<Rightarrow> int" where
  "newestFirst localeCompare left right =
     or_else (ge_createdAt right - ge_createdAt left) (localeCompare (ge_id right) (ge_id left))"

definition inactiveGenerations :: "RuntimeState \<Rightarrow> ProtectedIds \<Rightarrow> GenerationRecord list" where
  "inactiveGenerations st p =
     filter (\<lambda>g. \<not> (ge_state g \<noteq> READY \<or> ge_id g \<in> set (pi_generationIds p))) (map_values (generations st))"

definition retainedGenerations :: "(jsstring \<Rightarrow> jsstring \<Rightarrow> int) \<Rightarrow> RuntimePolicy \<Rightarrow> RuntimeState \<Rightarrow> ProtectedIds \<Rightarrow> jsstring list" where
  "retainedGenerations localeCompare policy st p = (let inactive = inactiveGenerations st p in
     concat (map (\<lambda>group. map ge_id (take (nat (inactiveGenerationRetentionCount policy))
         (js_sort (newestFirst localeCompare) (filter (\<lambda>g. generationGroup g = group) inactive))))
       (unique (map generationGroup inactive))))"

definition protectedIds ::
  "(jsstring \<Rightarrow> jsstring \<Rightarrow> int) \<Rightarrow> RuntimePolicy \<Rightarrow> RuntimeState \<Rightarrow> int \<Rightarrow> bool \<Rightarrow> ProtectedIds" where
  "protectedIds localeCompare policy st at includeRetention =
     (let p = expandProtectedGraph st (rootIds st at) in
      if \<not> includeRetention then p
      else let cutoff = at - minimumInactiveRetentionMs policy;
        p = p\<lparr>pi_generationIds := addAll (retainedGenerations localeCompare policy st p) (pi_generationIds p)\<rparr>;
        p = p\<lparr>pi_releaseIds := addAll (map rl_id (filter (\<lambda>r. rl_state r = Release_STAGED
              \<or> (case rl_retiredAt r of None \<Rightarrow> False | Some t \<Rightarrow> t > cutoff)) (map_values (releases st)))) (pi_releaseIds p),
            pi_activationIds := addAll (map av_id (filter (\<lambda>a. av_state a = READY
              \<and> recent cutoff (av_createdAt a) (av_lastServingAt a)) (map_values (activations st)))) (pi_activationIds p),
            pi_snapshotIds := addAll (map sn_id (filter (\<lambda>s. sn_state s = READY
              \<and> recent cutoff (sn_createdAt s) (sn_lastServingAt s)) (map_values (snapshots st)))) (pi_snapshotIds p),
            pi_generationIds := addAll (map ge_id (filter (\<lambda>g. ge_state g = READY
              \<and> recent cutoff (ge_createdAt g) (ge_lastServingAt g)) (map_values (generations st)))) (pi_generationIds p)\<rparr> in
      expandProtectedGraph st p)"

definition assertProtectedContentReady :: "RuntimeState \<Rightarrow> ProtectedIds \<Rightarrow> unit runtime_result" where
  "assertProtectedContentReady st p =
     rbind (checkAll (requireUncollectedRelease st) (pi_releaseIds p)) (\<lambda>_.
     rbind (checkAll (requireReadyActivation st) (pi_activationIds p)) (\<lambda>_.
     rbind (checkAll (requireReadyGeneration st) (pi_generationIds p)) (\<lambda>_.
     checkAll (requireReadySnapshot st) (pi_snapshotIds p))))"

definition servingContentIds :: "RuntimeState \<Rightarrow> ServingContent" where
  "servingContentIds st = foldl (\<lambda>c head. case map_of (activations st) (sh_activationId head) of
       None \<Rightarrow> c
     | Some a \<Rightarrow> if av_state a \<noteq> READY then c
         else \<lparr>sc_activationIds = addToSet (av_id a) (sc_activationIds c),
           sc_generationIds = addAll (memberGenerations a) (sc_generationIds c),
           sc_snapshotIds = addAll (memberSnapshots a) (sc_snapshotIds c)\<rparr>)
     \<lparr>sc_activationIds = [], sc_generationIds = [], sc_snapshotIds = []\<rparr> (map_values (servingHeads st))"

definition planGarbageCollection ::
  "(jsstring \<Rightarrow> jsstring \<Rightarrow> int) \<Rightarrow> RuntimePolicy \<Rightarrow> RuntimeState \<Rightarrow> int \<Rightarrow> GarbageCollectionPlan" where
  "planGarbageCollection localeCompare policy st at = (let p = protectedIds localeCompare policy st at True in
     \<lparr>gc_plannedAtStateRevision = stateRevision st, gc_at = at,
      gc_releaseIds = sort (map rl_id (filter (\<lambda>r. rl_state r = Release_RETIRED \<and> rl_id r \<notin> set (pi_releaseIds p)) (map_values (releases st)))),
      gc_activationIds = sort (map av_id (filter (\<lambda>a. av_state a = READY \<and> av_id a \<notin> set (pi_activationIds p)) (map_values (activations st)))),
      gc_generationIds = sort (map ge_id (filter (\<lambda>g. ge_state g = READY \<and> ge_id g \<notin> set (pi_generationIds p)) (map_values (generations st)))),
      gc_snapshotIds = sort (map sn_id (filter (\<lambda>s. sn_state s = READY \<and> sn_id s \<notin> set (pi_snapshotIds p)) (map_values (snapshots st))))\<rparr>)"

end
