(* ===== verification/ActivationModel.thy ===== *)
theory ActivationModel
  imports ActivationReads
begin

text \<open>
  The operations of the runtime activation protocol (the class \<open>RuntimeActivationModel\<close> of
  \<open>tools/runtime-activation/model.ts\<close>), one definition per method: the outcome and the state after the
  call, also when the call throws.
\<close>

definition assertPolicy :: "RuntimePolicy \<Rightarrow> unit runtime_result" where
  "assertPolicy policy =
     (let vs = [minimumReleaseSupportMs policy, normalMaxServingReleases policy, hardMaxServingReleases policy,
        normalMaxServingGenerationsPerMember policy, hardMaxServingGenerationsPerMember policy,
        inactiveGenerationRetentionCount policy, minimumInactiveRetentionMs policy, maximumCapacityApprovalMs policy,
        maximumQueryLeaseMs policy, maximumPreflightTtlMs policy] in
      rbind (guard (\<not> list_ex (\<lambda>v. \<not> isSafeInteger v \<or> v \<le> 0) vs) INVALID_STATE) (\<lambda>_.
      guard (\<not> (normalMaxServingReleases policy \<ge> hardMaxServingReleases policy
        \<or> normalMaxServingGenerationsPerMember policy \<ge> hardMaxServingGenerationsPerMember policy)) INVALID_STATE))"

definition emptyState :: RuntimeState where
  "emptyState = \<lparr>controlRevision = 0, stateRevision = 0, releases = [], snapshots = [], generations = [], activations = [],
     channels = [], servingHeads = [], queries = [], preflightTokens = [], jobs = [], holds = [], historicalReferences = [],
     capacityApprovals = []\<rparr>"

definition new_RuntimeActivationModel :: "RuntimePolicy \<Rightarrow> (RuntimePolicy \<times> RuntimeState) runtime_result" where
  "new_RuntimeActivationModel policy = rbind (assertPolicy policy) (\<lambda>_. Inr (policy, emptyState))"

definition bumpState :: "RuntimeState \<Rightarrow> RuntimeState" where
  "bumpState st = st\<lparr>stateRevision := stateRevision st + 1\<rparr>"

definition bumpControl :: "RuntimeState \<Rightarrow> RuntimeState" where
  "bumpControl st = st\<lparr>controlRevision := controlRevision st + 1, stateRevision := stateRevision st + 1\<rparr>"

text \<open>Statements one after the other: the first throw ends the call and keeps what was written.\<close>

definition andThen :: "('e, 'a, 's) outcome \<Rightarrow> ('s \<Rightarrow> ('e, 'b, 's) outcome) \<Rightarrow> ('e, 'b, 's) outcome" where
  "andThen r k = (case r of (Inl e, s) \<Rightarrow> (Inl e, s) | (Inr x, s) \<Rightarrow> k s)"

text \<open>A loop that writes to the records of one collection.\<close>

fun updateEach :: "('v \<Rightarrow> 'v) \<Rightarrow> jsstring list \<Rightarrow> (jsstring, 'v) jsmap \<Rightarrow> (RuntimeErrorCode, unit, (jsstring, 'v) jsmap) outcome" where
  "updateEach f [] m = (Inr (), m)"
| "updateEach f (k # ks) m = attempt m (requireRecord m k) (\<lambda>v. updateEach f ks (AList.update k (f v) m))"

definition updateReleases :: "(ReleaseRecord \<Rightarrow> ReleaseRecord) \<Rightarrow> jsstring list \<Rightarrow> RuntimeState \<Rightarrow> unit runtime_outcome" where
  "updateReleases f ids st = map_prod id (\<lambda>m. st\<lparr>releases := m\<rparr>) (updateEach f ids (releases st))"

definition updateActivations :: "(ActivationRecord \<Rightarrow> ActivationRecord) \<Rightarrow> jsstring list \<Rightarrow> RuntimeState \<Rightarrow> unit runtime_outcome" where
  "updateActivations f ids st = map_prod id (\<lambda>m. st\<lparr>activations := m\<rparr>) (updateEach f ids (activations st))"

definition updateGenerations :: "(GenerationRecord \<Rightarrow> GenerationRecord) \<Rightarrow> jsstring list \<Rightarrow> RuntimeState \<Rightarrow> unit runtime_outcome" where
  "updateGenerations f ids st = map_prod id (\<lambda>m. st\<lparr>generations := m\<rparr>) (updateEach f ids (generations st))"

definition updateSnapshots :: "(SnapshotRecord \<Rightarrow> SnapshotRecord) \<Rightarrow> jsstring list \<Rightarrow> RuntimeState \<Rightarrow> unit runtime_outcome" where
  "updateSnapshots f ids st = map_prod id (\<lambda>m. st\<lparr>snapshots := m\<rparr>) (updateEach f ids (snapshots st))"

subsection \<open>Registration\<close>

fun collectPins :: "(jsstring, ReleasePin) jsmap \<Rightarrow> ReleasePin list \<Rightarrow> (jsstring, ReleasePin) jsmap runtime_result" where
  "collectPins pins [] = Inr pins"
| "collectPins pins (pin # rest) =
     rbind (guard (map_of pins (pin_memberKey pin) = None) INVALID_STATE) (\<lambda>_.
     collectPins (AList.update (pin_memberKey pin) pin pins) rest)"

definition checkRollback :: "RuntimeState \<Rightarrow> RegisterReleaseInput \<Rightarrow> unit runtime_result" where
  "checkRollback st input = (case ri_rollbackOf input of
       None \<Rightarrow> Inr ()
     | Some k \<Rightarrow>
         rbind (requireRecord (releases st) k) (\<lambda>source.
         rbind (guard (\<not> rl_state source = Release_COLLECTED) CONTENT_COLLECTED) (\<lambda>_.
         guard (\<not> rl_projectId source \<noteq> ri_projectId input) INVALID_STATE)))"

definition registerRelease :: "RegisterReleaseInput \<Rightarrow> RuntimeState \<Rightarrow> unit runtime_outcome" where
  "registerRelease input st =
     attempt st (assertUnusedId (releases st) (ri_id input)) (\<lambda>_.
     attempt st (checkRollback st input) (\<lambda>_.
     attempt st (collectPins [] (ri_pins input)) (\<lambda>pins.
     (Inr (), bumpState (st\<lparr>releases := AList.update (ri_id input)
       \<lparr>rl_id = ri_id input, rl_projectId = ri_projectId input, rl_manifestHash = ri_manifestHash input, rl_pins = pins,
        rl_state = Release_STAGED, rl_rollbackOf = ri_rollbackOf input, rl_stagedAt = ri_stagedAt input, rl_publishedAt = None,
        rl_supportUntil = None, rl_retiredAt = None\<rparr> (releases st)\<rparr>)))))"

definition registerSnapshot :: "RegisterSnapshotInput \<Rightarrow> RuntimeState \<Rightarrow> unit runtime_outcome" where
  "registerSnapshot input st =
     attempt st (assertUnusedId (snapshots st) (si_id input)) (\<lambda>_.
     (Inr (), bumpState (st\<lparr>snapshots := AList.update (si_id input)
       \<lparr>sn_id = si_id input, sn_projectId = si_projectId input, sn_groupKey = si_groupKey input,
        sn_groupVersion = si_groupVersion input, sn_createdAt = si_createdAt input, sn_lastServingAt = None,
        sn_state = READY\<rparr> (snapshots st)\<rparr>)))"

definition certificateFor :: "RegisterGenerationInput \<Rightarrow> jsstring \<Rightarrow> jsstring option" where
  "certificateFor input releaseId = (case gi_certificateByReleaseId input of
       None \<Rightarrow> None
     | Some certificates \<Rightarrow> map_option js_trim (map_of certificates releaseId))"

definition certifyRelease ::
  "RuntimeState \<Rightarrow> RegisterGenerationInput \<Rightarrow> SnapshotRecord \<Rightarrow> jsstring \<Rightarrow> (jsstring, GenerationCompatibilityProof) jsmap
     \<Rightarrow> jsstring \<Rightarrow> (jsstring, GenerationCompatibilityProof) jsmap runtime_result" where
  "certifyRelease st input snapshot buildFingerprint proofs releaseId =
     rbind (requireUsableRelease st releaseId) (\<lambda>release.
     rbind (requireRecord (rl_pins release) (gi_memberKey input)) (\<lambda>pin.
     rbind (guard (\<not> (rl_projectId release \<noteq> gi_projectId input \<or> pin_snapshotGroupKey pin \<noteq> sn_groupKey snapshot))
       SNAPSHOT_GROUP_MISMATCH) (\<lambda>_.
     let fingerprint = releasePinFingerprint pin;
         certificateId = (if fingerprint = buildFingerprint then Some (js ''exact-pin'') else certificateFor input releaseId) in
     case certificateId of
       None \<Rightarrow> Inl PIN_GENERATION_MISMATCH
     | Some certificate \<Rightarrow>
         rbind (guard (certificate \<noteq> []) PIN_GENERATION_MISMATCH) (\<lambda>_.
         Inr (AList.update fingerprint \<lparr>gp_releaseId = releaseId, gp_pinFingerprint = fingerprint,
           gp_schemaHash = pin_schemaHash pin, gp_mappingHash = pin_mappingHash pin, gp_certificateId = certificate\<rparr> proofs)))))"

fun certifyReleases ::
  "RuntimeState \<Rightarrow> RegisterGenerationInput \<Rightarrow> SnapshotRecord \<Rightarrow> jsstring \<Rightarrow> (jsstring, GenerationCompatibilityProof) jsmap
     \<Rightarrow> jsstring list \<Rightarrow> (jsstring, GenerationCompatibilityProof) jsmap runtime_result" where
  "certifyReleases st input snapshot buildFingerprint proofs [] = Inr proofs"
| "certifyReleases st input snapshot buildFingerprint proofs (k # ks) =
     rbind (certifyRelease st input snapshot buildFingerprint proofs k) (\<lambda>proofs.
     certifyReleases st input snapshot buildFingerprint proofs ks)"

definition registerGeneration :: "RegisterGenerationInput \<Rightarrow> RuntimeState \<Rightarrow> unit runtime_outcome" where
  "registerGeneration input st =
     attempt st (assertUnusedId (generations st) (gi_id input)) (\<lambda>_.
     attempt st (requireReadySnapshot st (gi_snapshotId input)) (\<lambda>snapshot.
     attempt st (guard (\<not> sn_projectId snapshot \<noteq> gi_projectId input) INVALID_STATE) (\<lambda>_.
     attempt st (requireUsableRelease st (gi_buildReleaseId input)) (\<lambda>buildRelease.
     attempt st (guard (\<not> rl_projectId buildRelease \<noteq> gi_projectId input) INVALID_STATE) (\<lambda>_.
     attempt st (requireRecord (rl_pins buildRelease) (gi_memberKey input)) (\<lambda>buildPin.
     attempt st (guard (\<not> pin_snapshotGroupKey buildPin \<noteq> sn_groupKey snapshot) SNAPSHOT_GROUP_MISMATCH) (\<lambda>_.
     let releaseIds = unique (gi_buildReleaseId input # (case gi_compatibleReleaseIds input of None \<Rightarrow> [] | Some ids \<Rightarrow> ids));
         buildFingerprint = releasePinFingerprint buildPin in
     attempt st (certifyReleases st input snapshot buildFingerprint [] releaseIds) (\<lambda>proofs.
     (Inr (), bumpState (st\<lparr>generations := AList.update (gi_id input)
       \<lparr>ge_id = gi_id input, ge_projectId = gi_projectId input, ge_memberKey = gi_memberKey input,
        ge_snapshotId = gi_snapshotId input, ge_buildReleaseId = gi_buildReleaseId input,
        ge_buildPinFingerprint = buildFingerprint, ge_compatibilityByPin = proofs, ge_createdAt = gi_createdAt input,
        ge_lastServingAt = None, ge_state = READY\<rparr> (generations st)\<rparr>))))))))))"

definition createActivation :: "CreateActivationInput \<Rightarrow> RuntimeState \<Rightarrow> unit runtime_outcome" where
  "createActivation input st =
     attempt st (assertUnusedId (activations st) (ai_id input)) (\<lambda>_.
     attempt st (requireUsableRelease st (ai_releaseId input)) (\<lambda>release.
     attempt st (guard (\<not> rl_projectId release \<noteq> ai_projectId input) INVALID_STATE) (\<lambda>_.
     let activation = \<lparr>av_id = ai_id input, av_projectId = ai_projectId input, av_sourceChannel = ai_sourceChannel input,
           av_releaseId = ai_releaseId input, av_releaseManifestHash = rl_manifestHash release, av_members = ai_members input,
           av_createdAt = ai_createdAt input, av_lastServingAt = None, av_state = READY\<rparr> in
     attempt st (validateActivation st activation True) (\<lambda>_.
     (Inr (), bumpState (st\<lparr>activations := AList.update (ai_id input) activation (activations st)\<rparr>))))))"

definition retirableBy :: "RuntimeState \<Rightarrow> CapacityApproval \<Rightarrow> jsstring \<Rightarrow> unit runtime_result" where
  "retirableBy st input releaseId = rbind (requireRecord (releases st) releaseId) (\<lambda>release.
     guard (\<not> (rl_projectId release \<noteq> ca_projectId input \<or> rl_state release \<noteq> Release_PUBLISHED
       \<or> (case rl_supportUntil release of None \<Rightarrow> True | Some t \<Rightarrow> t > ca_expiresAt input))) CAPACITY_APPROVAL_INVALID)"

definition registerCapacityApproval :: "RuntimePolicy \<Rightarrow> CapacityApproval \<Rightarrow> RuntimeState \<Rightarrow> unit runtime_outcome" where
  "registerCapacityApproval policy input st =
     attempt st (assertUnusedId (capacityApprovals st) (ca_id input)) (\<lambda>_.
     attempt st (guard (\<not> (ca_expiresAt input \<le> ca_approvedAt input
         \<or> ca_expiresAt input - ca_approvedAt input > maximumCapacityApprovalMs policy)) CAPACITY_APPROVAL_INVALID) (\<lambda>_.
     let releaseLimitRaised = ca_maximumServingReleases input > normalMaxServingReleases policy;
         generationLimitRaised = ca_maximumServingGenerationsPerMember input > normalMaxServingGenerationsPerMember policy in
     attempt st (guard (\<not> (ca_maximumServingReleases input < normalMaxServingReleases policy
         \<or> ca_maximumServingReleases input > hardMaxServingReleases policy
         \<or> ca_maximumServingGenerationsPerMember input < normalMaxServingGenerationsPerMember policy
         \<or> ca_maximumServingGenerationsPerMember input > hardMaxServingGenerationsPerMember policy
         \<or> \<not> releaseLimitRaised \<and> \<not> generationLimitRaised)) CAPACITY_APPROVAL_INVALID) (\<lambda>_.
     attempt st (guard (\<not> length (ca_retirementReleaseIds input) = 0) CAPACITY_APPROVAL_INVALID) (\<lambda>_.
     attempt st (checkAll (retirableBy st input) (unique (ca_retirementReleaseIds input))) (\<lambda>_.
     (Inr (), bumpState (st\<lparr>capacityApprovals := AList.update (ca_id input)
       (input\<lparr>ca_retirementReleaseIds := unique (ca_retirementReleaseIds input)\<rparr>) (capacityApprovals st)\<rparr>)))))))"

subsection \<open>Cutover\<close>

definition lost :: "jsstring list \<Rightarrow> jsstring list \<Rightarrow> jsstring list" where
  "lost before now = filter (\<lambda>k. k \<notin> set now) before"

definition recordServingTransitions :: "ServingContent \<Rightarrow> int \<Rightarrow> RuntimeState \<Rightarrow> unit runtime_outcome" where
  "recordServingTransitions previouslyServing at st =
     (let currentlyServing = servingContentIds st in
      andThen (updateActivations (\<lambda>a. a\<lparr>av_lastServingAt := Some at\<rparr>)
        (lost (sc_activationIds previouslyServing) (sc_activationIds currentlyServing)) st) (\<lambda>st.
      andThen (updateGenerations (\<lambda>g. g\<lparr>ge_lastServingAt := Some at\<rparr>)
        (lost (sc_generationIds previouslyServing) (sc_generationIds currentlyServing)) st) (\<lambda>st.
      updateSnapshots (\<lambda>s. s\<lparr>sn_lastServingAt := Some at\<rparr>)
        (lost (sc_snapshotIds previouslyServing) (sc_snapshotIds currentlyServing)) st)))"

definition bindsRelease :: "ActivationRecord \<Rightarrow> ReleaseRecord \<Rightarrow> unit runtime_result" where
  "bindsRelease activation release =
     guard (\<not> (av_releaseId activation \<noteq> rl_id release \<or> av_projectId activation \<noteq> rl_projectId release)) INVALID_STATE"

text \<open>The writes of \<open>publish\<close>.\<close>

definition publishedRelease :: "int \<Rightarrow> int \<Rightarrow> ReleaseRecord \<Rightarrow> ReleaseRecord" where
  "publishedRelease at supportUntil release =
     release\<lparr>rl_state := Release_PUBLISHED, rl_publishedAt := Some at, rl_supportUntil := Some supportUntil\<rparr>"

definition publishWrites :: "PublishInput \<Rightarrow> ReleaseRecord \<Rightarrow> ActivationRecord \<Rightarrow> int \<Rightarrow> RuntimeState \<Rightarrow> RuntimeState" where
  "publishWrites input release activation supportUntil st = st\<lparr>
     releases := AList.update (pb_releaseId input) (publishedRelease (pb_at input) supportUntil release) (releases st),
     servingHeads := AList.update (rl_id release)
       \<lparr>sh_releaseId = rl_id release, sh_activationId = av_id activation, sh_updatedAt = pb_at input\<rparr> (servingHeads st),
     channels := AList.update (channelKey (rl_projectId release) (pb_channel input))
       \<lparr>ch_projectId = rl_projectId release, ch_channel = pb_channel input, ch_activationId = av_id activation,
        ch_updatedAt = pb_at input\<rparr> (channels st)\<rparr>"

definition publish :: "RuntimePolicy \<Rightarrow> PublishInput \<Rightarrow> RuntimeState \<Rightarrow> unit runtime_outcome" where
  "publish policy input st =
     attempt st (assertControlRevision st (pb_expectedControlRevision input)) (\<lambda>_.
     attempt st (requireRecord (releases st) (pb_releaseId input)) (\<lambda>release.
     attempt st (guard (\<not> rl_state release \<noteq> Release_STAGED) INVALID_STATE) (\<lambda>_.
     attempt st (requireReadyActivation st (pb_activationId input)) (\<lambda>activation.
     attempt st (bindsRelease activation release) (\<lambda>_.
     attempt st (validateActivation st activation True) (\<lambda>_.
     let supportUntil = (case pb_supportUntil input of None \<Rightarrow> pb_at input + minimumReleaseSupportMs policy | Some t \<Rightarrow> t) in
     attempt st (guard (\<not> supportUntil < pb_at input + minimumReleaseSupportMs policy) INVALID_STATE) (\<lambda>_.
     let proposedHeads = AList.update (rl_id release) (av_id activation) (currentHeadActivations st) in
     attempt st (assertCapacity policy st (rl_projectId release) proposedHeads (pb_at input) (pb_capacityApprovalId input)) (\<lambda>_.
     andThen (recordServingTransitions (servingContentIds st) (pb_at input)
       (publishWrites input release activation supportUntil st)) (\<lambda>st.
     (Inr (), bumpControl st))))))))))"

definition checkReplacement ::
  "RuntimeState \<Rightarrow> jsstring option \<times> (jsstring, jsstring) jsmap \<Rightarrow> jsstring \<times> jsstring
     \<Rightarrow> (jsstring option \<times> (jsstring, jsstring) jsmap) runtime_result" where
  "checkReplacement st = (\<lambda>(projectId, replacementByRelease) (releaseId, activationId).
     rbind (guard (map_of replacementByRelease releaseId = None) INVALID_STATE) (\<lambda>_.
     rbind (requireRecord (releases st) releaseId) (\<lambda>release.
     rbind (guard (\<not> rl_state release \<noteq> Release_PUBLISHED) RELEASE_NOT_SERVING) (\<lambda>_.
     rbind (requireRecord (servingHeads st) (rl_id release)) (\<lambda>head.
     rbind (requireReadyActivation st activationId) (\<lambda>activation.
     rbind (bindsRelease activation release) (\<lambda>_.
     rbind (validateActivation st activation True) (\<lambda>_.
     rbind (guard (\<not> (projectId \<noteq> None \<and> projectId \<noteq> Some (rl_projectId release))) INVALID_STATE) (\<lambda>_.
     Inr (Some (rl_projectId release), AList.update (rl_id release) (av_id activation) replacementByRelease))))))))))"

fun checkReplacements ::
  "RuntimeState \<Rightarrow> jsstring option \<times> (jsstring, jsstring) jsmap \<Rightarrow> (jsstring \<times> jsstring) list
     \<Rightarrow> (jsstring option \<times> (jsstring, jsstring) jsmap) runtime_result" where
  "checkReplacements st acc [] = Inr acc"
| "checkReplacements st acc (r # rs) = rbind (checkReplacement st acc r) (\<lambda>acc. checkReplacements st acc rs)"

definition replaceHeads :: "(jsstring, jsstring) jsmap \<Rightarrow> int \<Rightarrow> RuntimeState \<Rightarrow> RuntimeState" where
  "replaceHeads replacementByRelease at st = st\<lparr>servingHeads := foldl (\<lambda>heads (releaseId, activationId).
     AList.update releaseId \<lparr>sh_releaseId = releaseId, sh_activationId = activationId, sh_updatedAt = at\<rparr> heads)
     (servingHeads st) replacementByRelease\<rparr>"

fun moveChannels :: "(jsstring, jsstring) jsmap \<Rightarrow> int \<Rightarrow> jsstring list \<Rightarrow> RuntimeState \<Rightarrow> unit runtime_outcome" where
  "moveChannels replacementByRelease at [] st = (Inr (), st)"
| "moveChannels replacementByRelease at (k # ks) st =
     attempt st (requireRecord (channels st) k) (\<lambda>pointer.
     attempt st (requireReadyActivation st (ch_activationId pointer)) (\<lambda>currentActivation.
     moveChannels replacementByRelease at ks
       (case map_of replacementByRelease (av_releaseId currentActivation) of
          None \<Rightarrow> st
        | Some replacementId \<Rightarrow> st\<lparr>channels := AList.update k
            (pointer\<lparr>ch_activationId := replacementId, ch_updatedAt := at\<rparr>) (channels st)\<rparr>)))"

definition refresh :: "RuntimePolicy \<Rightarrow> RefreshInput \<Rightarrow> RuntimeState \<Rightarrow> unit runtime_outcome" where
  "refresh policy input st =
     attempt st (assertControlRevision st (rf_expectedControlRevision input)) (\<lambda>_.
     attempt st (guard (\<not> length (rf_replacements input) = 0) INVALID_STATE) (\<lambda>_.
     attempt st (checkReplacements st (None, []) (rf_replacements input)) (\<lambda>(projectId, replacementByRelease).
     case projectId of
       None \<Rightarrow> (Inl INVALID_STATE, st)
     | Some projectId \<Rightarrow>
         let proposedHeads = spread (currentHeadActivations st) replacementByRelease in
         attempt st (assertCapacity policy st projectId proposedHeads (rf_at input) (rf_capacityApprovalId input)) (\<lambda>_.
         let previouslyServing = servingContentIds st;
             st1 = replaceHeads replacementByRelease (rf_at input) st in
         andThen (moveChannels replacementByRelease (rf_at input) (map_keys (channels st1)) st1) (\<lambda>st2.
         andThen (recordServingTransitions previouslyServing (rf_at input) st2) (\<lambda>st3.
         (Inr (), bumpControl st3)))))))"

definition notPointedAt :: "RuntimeState \<Rightarrow> jsstring \<Rightarrow> ChannelPointer \<Rightarrow> unit runtime_result" where
  "notPointedAt st releaseId pointer = rbind (requireReadyActivation st (ch_activationId pointer)) (\<lambda>activation.
     guard (\<not> av_releaseId activation = releaseId) INVALID_STATE)"

definition retireRelease :: "jsstring \<Rightarrow> int \<Rightarrow> int \<Rightarrow> RuntimeState \<Rightarrow> unit runtime_outcome" where
  "retireRelease releaseId expectedControlRevision at st =
     attempt st (assertControlRevision st expectedControlRevision) (\<lambda>_.
     attempt st (requireRecord (releases st) releaseId) (\<lambda>release.
     case (rl_state release, rl_supportUntil release) of
       (Release_PUBLISHED, Some supportUntil) \<Rightarrow>
         attempt st (guard (\<not> at < supportUntil) SUPPORT_WINDOW_ACTIVE) (\<lambda>_.
         attempt st (checkAll (notPointedAt st releaseId) (map_values (channels st))) (\<lambda>_.
         let st1 = st\<lparr>servingHeads := AList.delete releaseId (servingHeads st),
               releases := AList.update releaseId (release\<lparr>rl_state := Release_RETIRED, rl_retiredAt := Some at\<rparr>) (releases st)\<rparr> in
         andThen (recordServingTransitions (servingContentIds st) at st1) (\<lambda>st2.
         (Inr (), bumpControl st2))))
     | _ \<Rightarrow> (Inl RELEASE_NOT_SERVING, st)))"

subsection \<open>Queries, preflight tokens, references\<close>

definition beginQuery :: "RuntimePolicy \<Rightarrow> jsstring \<Rightarrow> RuntimeSelector \<Rightarrow> int \<Rightarrow> int \<Rightarrow> RuntimeState \<Rightarrow> ResolvedActivation runtime_outcome" where
  "beginQuery policy k selector startedAt leaseUntil st =
     attempt st (assertUnusedId (queries st) k) (\<lambda>_.
     attempt st (guard (\<not> (leaseUntil \<le> startedAt \<or> leaseUntil - startedAt > maximumQueryLeaseMs policy)) INVALID_STATE) (\<lambda>_.
     attempt st (resolveActivation st selector) (\<lambda>activation.
     (Inr (resolved activation), bumpState (st\<lparr>queries := AList.update k
       \<lparr>ql_id = k, ql_selector = selector, ql_activationId = av_id activation, ql_resolutionCount = 1,
        ql_startedAt = startedAt, ql_leaseUntil = leaseUntil, ql_state = Query_ACTIVE\<rparr> (queries st)\<rparr>)))))"

definition renewQueryLease :: "RuntimePolicy \<Rightarrow> jsstring \<Rightarrow> int \<Rightarrow> int \<Rightarrow> RuntimeState \<Rightarrow> unit runtime_outcome" where
  "renewQueryLease policy k at leaseUntil st =
     attempt st (requireRecord (queries st) k) (\<lambda>query.
     attempt st (guard (\<not> (ql_state query \<noteq> Query_ACTIVE \<or> ql_leaseUntil query \<le> at)) QUERY_LEASE_EXPIRED) (\<lambda>_.
     attempt st (guard (\<not> (leaseUntil \<le> at \<or> leaseUntil - at > maximumQueryLeaseMs policy)) INVALID_STATE) (\<lambda>_.
     (Inr (), bumpState (st\<lparr>queries := AList.update k (query\<lparr>ql_leaseUntil := leaseUntil\<rparr>) (queries st)\<rparr>)))))"

definition readQueryMember :: "jsstring \<Rightarrow> jsstring \<Rightarrow> int \<Rightarrow> RuntimeState \<Rightarrow> ActivationMember runtime_result" where
  "readQueryMember k memberKey at st =
     rbind (requireRecord (queries st) k) (\<lambda>query.
     rbind (guard (\<not> (ql_state query \<noteq> Query_ACTIVE \<or> ql_leaseUntil query \<le> at)) QUERY_LEASE_EXPIRED) (\<lambda>_.
     rbind (requireReadyActivation st (ql_activationId query)) (\<lambda>activation.
     requireRecord (av_members activation) memberKey)))"

definition endQuery :: "jsstring \<Rightarrow> RuntimeState \<Rightarrow> unit runtime_outcome" where
  "endQuery k st =
     attempt st (requireRecord (queries st) k) (\<lambda>query.
     attempt st (guard (\<not> ql_state query \<noteq> Query_ACTIVE) INVALID_STATE) (\<lambda>_.
     (Inr (), bumpState (st\<lparr>queries := AList.update k (query\<lparr>ql_state := Query_ENDED\<rparr>) (queries st)\<rparr>))))"

definition issuePreflight :: "RuntimePolicy \<Rightarrow> jsstring \<Rightarrow> RuntimeSelector \<Rightarrow> int \<Rightarrow> int \<Rightarrow> RuntimeState \<Rightarrow> ResolvedActivation runtime_outcome" where
  "issuePreflight policy k selector issuedAt expiresAt st =
     attempt st (assertUnusedId (preflightTokens st) k) (\<lambda>_.
     attempt st (guard (\<not> (expiresAt \<le> issuedAt \<or> expiresAt - issuedAt > maximumPreflightTtlMs policy)) INVALID_STATE) (\<lambda>_.
     attempt st (resolveActivation st selector) (\<lambda>activation.
     (Inr (resolved activation), bumpState (st\<lparr>preflightTokens := AList.update k
       \<lparr>pt_id = k, pt_selector = selector, pt_activationId = av_id activation, pt_issuedAt = issuedAt,
        pt_expiresAt = expiresAt, pt_state = Token_ACTIVE\<rparr> (preflightTokens st)\<rparr>)))))"

definition setToken :: "jsstring \<Rightarrow> PreflightToken \<Rightarrow> TokenState \<Rightarrow> RuntimeState \<Rightarrow> RuntimeState" where
  "setToken k token s st = bumpState (st\<lparr>preflightTokens := AList.update k (token\<lparr>pt_state := s\<rparr>) (preflightTokens st)\<rparr>)"

definition applyPreflight :: "jsstring \<Rightarrow> int \<Rightarrow> RuntimeState \<Rightarrow> ResolvedActivation runtime_outcome" where
  "applyPreflight k at st =
     attempt st (requireRecord (preflightTokens st) k) (\<lambda>token.
     attempt st (guard (\<not> pt_state token \<noteq> Token_ACTIVE) INVALID_STATE) (\<lambda>_.
     attempt st (guard (\<not> pt_expiresAt token \<le> at) PREFLIGHT_TOKEN_EXPIRED) (\<lambda>_.
     case resolveActivation st (pt_selector token) of
       Inl _ \<Rightarrow> (Inl PREFLIGHT_STALE, setToken k token Token_STALE st)
     | Inr current \<Rightarrow>
         if av_id current \<noteq> pt_activationId token then (Inl PREFLIGHT_STALE, setToken k token Token_STALE st)
         else (Inr (resolved current), setToken k token Token_USED st))))"

definition startJob :: "jsstring \<Rightarrow> ContentReferencesInput \<Rightarrow> RuntimeState \<Rightarrow> unit runtime_outcome" where
  "startJob k references st =
     attempt st (assertUnusedId (jobs st) k) (\<lambda>_.
     let normalized = normalizeReferences references in
     attempt st (assertReferencesAvailable st normalized) (\<lambda>_.
     (Inr (), bumpState (st\<lparr>jobs := AList.update k \<lparr>jr_id = k, jr_references = normalized, jr_state = JobRef_ACTIVE\<rparr> (jobs st)\<rparr>))))"

definition completeJob :: "jsstring \<Rightarrow> JobReferenceState \<Rightarrow> RuntimeState \<Rightarrow> unit runtime_outcome" where
  "completeJob k s st =
     attempt st (requireRecord (jobs st) k) (\<lambda>job.
     attempt st (guard (\<not> jr_state job \<noteq> JobRef_ACTIVE) INVALID_STATE) (\<lambda>_.
     (Inr (), bumpState (st\<lparr>jobs := AList.update k (job\<lparr>jr_state := s\<rparr>) (jobs st)\<rparr>))))"

definition placeHold :: "jsstring \<Rightarrow> ContentReferencesInput \<Rightarrow> jsstring \<Rightarrow> RuntimeState \<Rightarrow> unit runtime_outcome" where
  "placeHold k references reason st =
     attempt st (assertUnusedId (holds st) k) (\<lambda>_.
     let normalized = normalizeReferences references in
     attempt st (assertReferencesAvailable st normalized) (\<lambda>_.
     attempt st (guard (\<not> length (js_trim reason) = 0) INVALID_STATE) (\<lambda>_.
     (Inr (), bumpState (st\<lparr>holds := AList.update k
       \<lparr>ho_id = k, ho_references = normalized, ho_reason = reason, ho_state = Hold_ACTIVE\<rparr> (holds st)\<rparr>)))))"

definition releaseHold :: "jsstring \<Rightarrow> RuntimeState \<Rightarrow> unit runtime_outcome" where
  "releaseHold k st =
     attempt st (requireRecord (holds st) k) (\<lambda>hold.
     attempt st (guard (\<not> ho_state hold \<noteq> Hold_ACTIVE) INVALID_STATE) (\<lambda>_.
     (Inr (), bumpState (st\<lparr>holds := AList.update k (hold\<lparr>ho_state := Hold_RELEASED\<rparr>) (holds st)\<rparr>))))"

definition addHistoricalReference :: "jsstring \<Rightarrow> ContentReferencesInput \<Rightarrow> RuntimeState \<Rightarrow> unit runtime_outcome" where
  "addHistoricalReference k references st =
     attempt st (assertUnusedId (historicalReferences st) k) (\<lambda>_.
     let normalized = normalizeReferences references in
     attempt st (assertReferencesAvailable st normalized) (\<lambda>_.
     (Inr (), bumpState (st\<lparr>historicalReferences := AList.update k \<lparr>hi_id = k, hi_references = normalized\<rparr> (historicalReferences st)\<rparr>))))"

subsection \<open>Collection\<close>

definition assertNoIntersection :: "jsstring list \<Rightarrow> jsstring list \<Rightarrow> unit runtime_result" where
  "assertNoIntersection ids protected = guard (\<not> list_ex (\<lambda>k. k \<in> set protected) ids) INVALID_STATE"

definition commitGarbageCollection ::
  "(jsstring \<Rightarrow> jsstring \<Rightarrow> int) \<Rightarrow> RuntimePolicy \<Rightarrow> GarbageCollectionPlan \<Rightarrow> RuntimeState \<Rightarrow> unit runtime_outcome" where
  "commitGarbageCollection localeCompare policy plan st =
     attempt st (guard (\<not> gc_plannedAtStateRevision plan \<noteq> stateRevision st) CONCURRENT_MODIFICATION) (\<lambda>_.
     let p = protectedIds localeCompare policy st (gc_at plan) True in
     attempt st (assertNoIntersection (gc_releaseIds plan) (pi_releaseIds p)) (\<lambda>_.
     attempt st (assertNoIntersection (gc_activationIds plan) (pi_activationIds p)) (\<lambda>_.
     attempt st (assertNoIntersection (gc_generationIds plan) (pi_generationIds p)) (\<lambda>_.
     attempt st (assertNoIntersection (gc_snapshotIds plan) (pi_snapshotIds p)) (\<lambda>_.
     if length (gc_releaseIds plan) + length (gc_activationIds plan) + length (gc_generationIds plan) + length (gc_snapshotIds plan) = 0
     then (Inr (), st)
     else
       andThen (updateReleases (\<lambda>r. r\<lparr>rl_state := Release_COLLECTED\<rparr>) (gc_releaseIds plan) st) (\<lambda>st.
       andThen (updateActivations (\<lambda>a. a\<lparr>av_state := COLLECTED\<rparr>) (gc_activationIds plan) st) (\<lambda>st.
       andThen (updateGenerations (\<lambda>g. g\<lparr>ge_state := COLLECTED\<rparr>) (gc_generationIds plan) st) (\<lambda>st.
       andThen (updateSnapshots (\<lambda>s. s\<lparr>sn_state := COLLECTED\<rparr>) (gc_snapshotIds plan) st) (\<lambda>st.
       (Inr (), bumpState st))))))))))"

subsection \<open>The model's own check\<close>

definition checkPointer :: "RuntimeState \<Rightarrow> ChannelPointer \<Rightarrow> unit runtime_result" where
  "checkPointer st pointer =
     rbind (requireReadyActivation st (ch_activationId pointer)) (\<lambda>activation.
     rbind (requireRecord (releases st) (av_releaseId activation)) (\<lambda>release.
     rbind (guard (\<not> (rl_state release \<noteq> Release_PUBLISHED \<or> rl_projectId release \<noteq> ch_projectId pointer)) INVALID_STATE) (\<lambda>_.
     validateActivation st activation True)))"

definition checkHead :: "RuntimeState \<Rightarrow> ServingHead \<Rightarrow> unit runtime_result" where
  "checkHead st head =
     rbind (requireRecord (releases st) (sh_releaseId head)) (\<lambda>release.
     rbind (requireReadyActivation st (sh_activationId head)) (\<lambda>activation.
     rbind (guard (\<not> (rl_state release \<noteq> Release_PUBLISHED \<or> av_releaseId activation \<noteq> rl_id release)) INVALID_STATE) (\<lambda>_.
     validateActivation st activation True)))"

definition checkRelease :: "RuntimePolicy \<Rightarrow> RuntimeState \<Rightarrow> ReleaseRecord \<Rightarrow> unit runtime_result" where
  "checkRelease policy st release =
     (let hasHead = (map_of (servingHeads st) (rl_id release) \<noteq> None) in
      rbind (guard (\<not> (rl_state release = Release_PUBLISHED) \<noteq> hasHead) INVALID_STATE) (\<lambda>_.
      guard (\<not> (rl_state release = Release_PUBLISHED
        \<and> (case (rl_publishedAt release, rl_supportUntil release) of
             (Some publishedAt, Some supportUntil) \<Rightarrow> supportUntil - publishedAt < minimumReleaseSupportMs policy
           | _ \<Rightarrow> True))) INVALID_STATE))"

definition checkActivation :: "RuntimeState \<Rightarrow> ActivationRecord \<Rightarrow> unit runtime_result" where
  "checkActivation st activation = (if av_state activation = READY then validateActivation st activation True else Inr ())"

definition checkQuery :: "QueryLease \<Rightarrow> unit runtime_result" where
  "checkQuery query = guard (\<not> ql_resolutionCount query \<noteq> 1) INVALID_STATE"

definition checkCapacity :: "RuntimePolicy \<Rightarrow> RuntimeState \<Rightarrow> jsstring \<Rightarrow> unit runtime_result" where
  "checkCapacity policy st projectId =
     rbind (capacity st projectId) (\<lambda>c.
     rbind (guard (\<not> cs_servingReleases c > hardMaxServingReleases policy) CAPACITY_HARD_LIMIT) (\<lambda>_.
     guard (\<not> list_ex (\<lambda>(k, n). n > hardMaxServingGenerationsPerMember policy) (cs_generationsPerMember c)) CAPACITY_HARD_LIMIT))"

definition assertInvariants ::
  "(jsstring \<Rightarrow> jsstring \<Rightarrow> int) \<Rightarrow> RuntimePolicy \<Rightarrow> int \<Rightarrow> RuntimeState \<Rightarrow> unit runtime_result" where
  "assertInvariants localeCompare policy at st =
     rbind (checkAll (checkPointer st) (map_values (channels st))) (\<lambda>_.
     rbind (checkAll (checkHead st) (map_values (servingHeads st))) (\<lambda>_.
     rbind (checkAll (checkRelease policy st) (map_values (releases st))) (\<lambda>_.
     rbind (checkAll (checkActivation st) (map_values (activations st))) (\<lambda>_.
     rbind (checkAll checkQuery (map_values (queries st))) (\<lambda>_.
     rbind (assertProtectedContentReady st (protectedIds localeCompare policy st at False)) (\<lambda>_.
     checkAll (checkCapacity policy st) (unique (map rl_projectId (map_values (releases st))))))))))"

end
