(* ===== verification/Keyed.thy ===== *)
theory Keyed
  imports Prelude
begin

text \<open>
  Maps whose values carry their key: an object that holds records by their id.
\<close>

definition keyed_by :: "('v \<Rightarrow> 'k) \<Rightarrow> ('k, 'v) jsmap \<Rightarrow> bool" where
  "keyed_by f m \<longleftrightarrow> wf_jsmap m \<and> (\<forall>k v. map_of m k = Some v \<longrightarrow> f v = k)"

lemma keyed_by_Nil [simp]: "keyed_by f []"
  by (simp add: keyed_by_def)

lemma keyed_by_update: "keyed_by f m \<Longrightarrow> f v = k \<Longrightarrow> keyed_by f (AList.update k v m)"
  by (simp add: keyed_by_def)

lemma wf_jsmap_delete: "wf_jsmap m \<Longrightarrow> wf_jsmap (AList.delete k m)"
  by (simp add: wf_jsmap_def distinct_delete)

lemma map_of_delete_iff: "map_of (AList.delete k m) k' = (if k' = k then None else map_of m k')"
  by (simp add: delete_conv')

lemma keyed_by_delete: "keyed_by f m \<Longrightarrow> keyed_by f (AList.delete k m)"
  by (simp add: keyed_by_def wf_jsmap_delete map_of_delete_iff)

lemma keyed_by_wf: "keyed_by f m \<Longrightarrow> wf_jsmap m"
  by (simp add: keyed_by_def)

lemma keyed_by_id: "keyed_by f m \<Longrightarrow> map_of m k = Some v \<Longrightarrow> f v = k"
  by (simp add: keyed_by_def)

lemma keyed_by_values: "keyed_by f m \<Longrightarrow> v \<in> set (map_values m) \<longleftrightarrow> map_of m (f v) = Some v"
  by (metis keyed_by_def map_values_iff)

lemma in_values: "map_of m k = Some v \<Longrightarrow> v \<in> set (map_values m)"
  by (force dest: map_of_SomeD)

lemma keyed_by_replace: "keyed_by f m \<Longrightarrow> map_of m k = Some v \<Longrightarrow> f w = f v \<Longrightarrow> keyed_by f (AList.update k w m)"
  using keyed_by_update [of f m w k] keyed_by_id [of f m k v] by simp

end
