(* ===== verification/ActivationInvariants.thy ===== *)
theory ActivationInvariants
  imports ActivationModel Keyed
begin

text \<open>
  What is true of the state between calls, and the lemmas that carry it through a call: content that
  is there stays there (\<open>keeps_content\<close>), an activation stays valid, and the limits of capacity in
  terms of sets.
\<close>

subsection \<open>Lookups\<close>

lemma requireRecord_Inr [simp]: "requireRecord m k = Inr v \<longleftrightarrow> map_of m k = Some v"
  by (auto simp: requireRecord_def split: option.splits)

definition ready_activation :: "RuntimeState \<Rightarrow> jsstring \<Rightarrow> ActivationRecord \<Rightarrow> bool" where
  "ready_activation st k a \<longleftrightarrow> map_of (activations st) k = Some a \<and> av_state a = READY"

definition ready_generation :: "RuntimeState \<Rightarrow> jsstring \<Rightarrow> bool" where
  "ready_generation st k \<longleftrightarrow> (\<exists>g. map_of (generations st) k = Some g \<and> ge_state g = READY)"

definition ready_snapshot :: "RuntimeState \<Rightarrow> jsstring \<Rightarrow> bool" where
  "ready_snapshot st k \<longleftrightarrow> (\<exists>s. map_of (snapshots st) k = Some s \<and> sn_state s = READY)"

definition kept_release :: "RuntimeState \<Rightarrow> jsstring \<Rightarrow> bool" where
  "kept_release st k \<longleftrightarrow> (\<exists>r. map_of (releases st) k = Some r \<and> rl_state r \<noteq> Release_COLLECTED)"

definition references_available :: "RuntimeState \<Rightarrow> ContentReferences \<Rightarrow> bool" where
  "references_available st r \<longleftrightarrow> (\<forall>k\<in>set (cr_releaseIds r). kept_release st k)
     \<and> (\<forall>k\<in>set (cr_activationIds r). \<exists>a. ready_activation st k a)
     \<and> (\<forall>k\<in>set (cr_generationIds r). ready_generation st k)
     \<and> (\<forall>k\<in>set (cr_snapshotIds r). ready_snapshot st k)"

lemma checkAll_Inr [simp]: "checkAll f xs = Inr u \<longleftrightarrow> (\<forall>x\<in>set xs. \<exists>y. f x = Inr y)"
  by (induction xs) auto

lemma requireReadyActivation_Inr [simp]: "requireReadyActivation st k = Inr a \<longleftrightarrow> ready_activation st k a"
  by (auto simp: requireReadyActivation_def ready_activation_def)

lemma requireReadyGeneration_Inr [simp]: "(\<exists>g. requireReadyGeneration st k = Inr g) \<longleftrightarrow> ready_generation st k"
  by (auto simp: requireReadyGeneration_def ready_generation_def)

lemma requireReadySnapshot_Inr [simp]: "(\<exists>s. requireReadySnapshot st k = Inr s) \<longleftrightarrow> ready_snapshot st k"
  by (auto simp: requireReadySnapshot_def ready_snapshot_def)

lemma requireUncollectedRelease_Inr [simp]: "(\<exists>r. requireUncollectedRelease st k = Inr r) \<longleftrightarrow> kept_release st k"
  by (auto simp: requireUncollectedRelease_def kept_release_def)

lemma assertReferencesAvailable_Inr: "assertReferencesAvailable st r = Inr u \<Longrightarrow> references_available st r"
  unfolding assertReferencesAvailable_def references_available_def by simp

subsection \<open>Content that stays\<close>

text \<open>
  Calls other than a collection only add records, move a release along, and note when content last
  served.
\<close>

definition same_release :: "ReleaseRecord \<Rightarrow> ReleaseRecord \<Rightarrow> bool" where
  "same_release r r' \<longleftrightarrow> rl_projectId r' = rl_projectId r \<and> rl_manifestHash r' = rl_manifestHash r \<and> rl_pins r' = rl_pins r
     \<and> (rl_state r' = Release_COLLECTED \<longrightarrow> rl_state r = Release_COLLECTED)"

definition keeps_content :: "RuntimeState \<Rightarrow> RuntimeState \<Rightarrow> bool" where
  "keeps_content st st' \<longleftrightarrow>
     (\<forall>k r. map_of (releases st) k = Some r \<longrightarrow> (\<exists>r'. map_of (releases st') k = Some r' \<and> same_release r r'))
     \<and> (\<forall>k s. map_of (snapshots st) k = Some s \<longrightarrow> (\<exists>t. map_of (snapshots st') k = Some (s\<lparr>sn_lastServingAt := t\<rparr>)))
     \<and> (\<forall>k g. map_of (generations st) k = Some g \<longrightarrow> (\<exists>t. map_of (generations st') k = Some (g\<lparr>ge_lastServingAt := t\<rparr>)))
     \<and> (\<forall>k a. map_of (activations st) k = Some a \<longrightarrow> (\<exists>t. map_of (activations st') k = Some (a\<lparr>av_lastServingAt := t\<rparr>)))"

lemma keeps_release:
  assumes "keeps_content st st'" "map_of (releases st) k = Some r"
  obtains r' where "map_of (releases st') k = Some r'" "same_release r r'"
  using assms unfolding keeps_content_def by blast

lemma keeps_snapshot:
  assumes "keeps_content st st'" "map_of (snapshots st) k = Some s"
  obtains t where "map_of (snapshots st') k = Some (s\<lparr>sn_lastServingAt := t\<rparr>)"
  using assms unfolding keeps_content_def by blast

lemma keeps_generation:
  assumes "keeps_content st st'" "map_of (generations st) k = Some g"
  obtains t where "map_of (generations st') k = Some (g\<lparr>ge_lastServingAt := t\<rparr>)"
  using assms unfolding keeps_content_def by blast

lemma keeps_activation:
  assumes "keeps_content st st'" "map_of (activations st) k = Some a"
  obtains t where "map_of (activations st') k = Some (a\<lparr>av_lastServingAt := t\<rparr>)"
  using assms unfolding keeps_content_def by blast

lemma same_release_refl [simp]: "same_release r r"
  by (simp add: same_release_def)

lemma same_release_trans: "same_release r s \<Longrightarrow> same_release s t \<Longrightarrow> same_release r t"
  by (auto simp: same_release_def)

lemma keeps_refl:
  assumes "\<And>k r. map_of (releases st) k = Some r \<Longrightarrow> map_of (releases st') k = Some r"
    and "\<And>k s. map_of (snapshots st) k = Some s \<Longrightarrow> map_of (snapshots st') k = Some s"
    and "\<And>k g. map_of (generations st) k = Some g \<Longrightarrow> map_of (generations st') k = Some g"
    and "\<And>k a. map_of (activations st) k = Some a \<Longrightarrow> map_of (activations st') k = Some a"
  shows "keeps_content st st'"
  unfolding keeps_content_def
proof (intro conjI allI impI)
  show "map_of (releases st) k = Some r \<Longrightarrow> \<exists>r'. map_of (releases st') k = Some r' \<and> same_release r r'" for k r
    using assms(1) by auto
  show "map_of (snapshots st) k = Some s \<Longrightarrow> \<exists>t. map_of (snapshots st') k = Some (s\<lparr>sn_lastServingAt := t\<rparr>)" for k s
    by (rule exI [of _ "sn_lastServingAt s"]) (simp add: assms(2))
  show "map_of (generations st) k = Some g \<Longrightarrow> \<exists>t. map_of (generations st') k = Some (g\<lparr>ge_lastServingAt := t\<rparr>)" for k g
    by (rule exI [of _ "ge_lastServingAt g"]) (simp add: assms(3))
  show "map_of (activations st) k = Some a \<Longrightarrow> \<exists>t. map_of (activations st') k = Some (a\<lparr>av_lastServingAt := t\<rparr>)" for k a
    by (rule exI [of _ "av_lastServingAt a"]) (simp add: assms(4))
qed

lemma keeps_trans:
  assumes st: "keeps_content st st'" and st': "keeps_content st' st''"
  shows "keeps_content st st''"
  unfolding keeps_content_def
proof (intro conjI allI impI)
  fix k r assume "map_of (releases st) k = Some r"
  with st obtain r' where "map_of (releases st') k = Some r'" "same_release r r'" by (rule keeps_release)
  then show "\<exists>r'. map_of (releases st'') k = Some r' \<and> same_release r r'"
    by (metis st' keeps_release same_release_trans)
next
  fix k s assume "map_of (snapshots st) k = Some s"
  with st obtain t where "map_of (snapshots st') k = Some (s\<lparr>sn_lastServingAt := t\<rparr>)" by (rule keeps_snapshot)
  with st' obtain t' where "map_of (snapshots st'') k = Some (s\<lparr>sn_lastServingAt := t\<rparr>\<lparr>sn_lastServingAt := t'\<rparr>)" by (rule keeps_snapshot)
  then show "\<exists>t. map_of (snapshots st'') k = Some (s\<lparr>sn_lastServingAt := t\<rparr>)" by auto
next
  fix k g assume "map_of (generations st) k = Some g"
  with st obtain t where "map_of (generations st') k = Some (g\<lparr>ge_lastServingAt := t\<rparr>)" by (rule keeps_generation)
  with st' obtain t' where "map_of (generations st'') k = Some (g\<lparr>ge_lastServingAt := t\<rparr>\<lparr>ge_lastServingAt := t'\<rparr>)" by (rule keeps_generation)
  then show "\<exists>t. map_of (generations st'') k = Some (g\<lparr>ge_lastServingAt := t\<rparr>)" by auto
next
  fix k a assume "map_of (activations st) k = Some a"
  with st obtain t where "map_of (activations st') k = Some (a\<lparr>av_lastServingAt := t\<rparr>)" by (rule keeps_activation)
  with st' obtain t' where "map_of (activations st'') k = Some (a\<lparr>av_lastServingAt := t\<rparr>\<lparr>av_lastServingAt := t'\<rparr>)" by (rule keeps_activation)
  then show "\<exists>t. map_of (activations st'') k = Some (a\<lparr>av_lastServingAt := t\<rparr>)" by auto
qed

lemma keeps_ready:
  assumes "keeps_content st st'"
  shows "ready_activation st k a \<Longrightarrow> \<exists>t. ready_activation st' k (a\<lparr>av_lastServingAt := t\<rparr>)"
    and "ready_generation st k \<Longrightarrow> ready_generation st' k"
    and "ready_snapshot st k \<Longrightarrow> ready_snapshot st' k"
    and "kept_release st k \<Longrightarrow> kept_release st' k"
proof -
  show "\<exists>t. ready_activation st' k (a\<lparr>av_lastServingAt := t\<rparr>)" if "ready_activation st k a"
  proof -
    from that have "map_of (activations st) k = Some a" by (simp add: ready_activation_def)
    with assms obtain t where "map_of (activations st') k = Some (a\<lparr>av_lastServingAt := t\<rparr>)" by (rule keeps_activation)
    with that show ?thesis by (auto simp: ready_activation_def)
  qed
  show "ready_generation st k \<Longrightarrow> ready_generation st' k"
    unfolding ready_generation_def using keeps_generation [OF assms, of k] by fastforce
  show "ready_snapshot st k \<Longrightarrow> ready_snapshot st' k"
    unfolding ready_snapshot_def using keeps_snapshot [OF assms, of k] by fastforce
  show "kept_release st k \<Longrightarrow> kept_release st' k"
    unfolding kept_release_def same_release_def using keeps_release [OF assms, of k] by (metis same_release_def)
qed

lemma keeps_references: "keeps_content st st' \<Longrightarrow> references_available st r \<Longrightarrow> references_available st' r"
  unfolding references_available_def by (blast dest: keeps_ready)

subsection \<open>Valid activations\<close>

text \<open>What the validity of one activation rests on.\<close>

definition keeps_activation_content :: "RuntimeState \<Rightarrow> RuntimeState \<Rightarrow> ActivationRecord \<Rightarrow> bool" where
  "keeps_activation_content st st' a \<longleftrightarrow>
     (\<forall>r. map_of (releases st) (av_releaseId a) = Some r \<longrightarrow> (\<exists>r'. map_of (releases st') (av_releaseId a) = Some r' \<and> same_release r r'))
     \<and> (\<forall>m\<in>set (map_values (av_members a)). \<forall>g. map_of (generations st) (am_generationId m) = Some g \<longrightarrow>
         (\<exists>t. map_of (generations st') (am_generationId m) = Some (g\<lparr>ge_lastServingAt := t\<rparr>)))
     \<and> (\<forall>m\<in>set (map_values (av_members a)). \<forall>s. map_of (snapshots st) (am_snapshotId m) = Some s \<longrightarrow>
         (\<exists>t. map_of (snapshots st') (am_snapshotId m) = Some (s\<lparr>sn_lastServingAt := t\<rparr>)))"

lemma keeps_content_activation: "keeps_content st st' \<Longrightarrow> keeps_activation_content st st' a"
  unfolding keeps_content_def keeps_activation_content_def by blast

lemma validateMember_keeps:
  assumes "validateMember st a r True gv k = Inr gv'" "keeps_activation_content st st' a" "rl_pins r' = rl_pins r"
  shows "validateMember st' (a\<lparr>av_lastServingAt := t\<rparr>) r' True gv k = Inr gv'"
proof -
  obtain pin member g s where pin: "map_of (rl_pins r) k = Some pin" and member: "map_of (av_members a) k = Some member"
    and g: "map_of (generations st) (am_generationId member) = Some g"
    and s: "map_of (snapshots st) (am_snapshotId member) = Some s"
    using assms(1) unfolding validateMember_def by (auto simp: Let_def)
  have "member \<in> set (map_values (av_members a))" using member by (rule in_values)
  with g s assms(2) obtain tg ts where
    "map_of (generations st') (am_generationId member) = Some (g\<lparr>ge_lastServingAt := tg\<rparr>)"
    "map_of (snapshots st') (am_snapshotId member) = Some (s\<lparr>sn_lastServingAt := ts\<rparr>)"
    unfolding keeps_activation_content_def by blast
  with pin member g s assms(1,3) show ?thesis unfolding validateMember_def by (auto simp: Let_def)
qed

lemma validateMembers_keeps:
  assumes "keeps_activation_content st st' a" "rl_pins r' = rl_pins r"
  shows "validateMembers st a r True gv ks = Inr u \<Longrightarrow> validateMembers st' (a\<lparr>av_lastServingAt := t\<rparr>) r' True gv ks = Inr u"
proof (induction ks arbitrary: gv)
  case (Cons k ks)
  then obtain gv' where "validateMember st a r True gv k = Inr gv'" "validateMembers st a r True gv' ks = Inr u" by auto
  with Cons.IH validateMember_keeps [OF _ assms] show ?case by auto
qed simp

lemma validateActivation_keeps:
  assumes "validateActivation st a True = Inr u" "keeps_activation_content st st' a"
  shows "validateActivation st' (a\<lparr>av_lastServingAt := t\<rparr>) True = Inr u"
proof -
  obtain r where r: "map_of (releases st) (av_releaseId a) = Some r" "rl_state r \<noteq> Release_COLLECTED"
      "av_projectId a = rl_projectId r" "av_releaseManifestHash a = rl_manifestHash r"
      "sort (map_keys (rl_pins r)) = sort (map_keys (av_members a))"
      "validateMembers st a r True [] (sort (map_keys (rl_pins r))) = Inr u"
    using assms(1) unfolding validateActivation_def by (auto simp: Let_def)
  then obtain r' where r': "map_of (releases st') (av_releaseId a) = Some r'" "same_release r r'"
    using assms(2) unfolding keeps_activation_content_def by blast
  then have pins: "rl_pins r' = rl_pins r" by (simp add: same_release_def)
  with r r' validateMembers_keeps [OF assms(2) pins r(6)] show ?thesis
    unfolding validateActivation_def by (auto simp: Let_def same_release_def)
qed

lemma validateMembers_member:
  assumes "validateMembers st a r ready gv ks = Inr u" "k \<in> set ks"
  shows "\<exists>gv gv'. validateMember st a r ready gv k = Inr gv'"
  using assms by (induction ks arbitrary: gv) auto

text \<open>A valid activation has its release, and the content of every member.\<close>

lemma validateActivation_release:
  assumes "validateActivation st a True = Inr u"
  obtains r where "map_of (releases st) (av_releaseId a) = Some r" "rl_state r \<noteq> Release_COLLECTED" "rl_projectId r = av_projectId a"
    "rl_manifestHash r = av_releaseManifestHash a"
  using assms unfolding validateActivation_def by (auto simp: Let_def)

lemma validateActivation_member:
  assumes "validateActivation st a True = Inr u" "map_of (av_members a) k = Some m"
  obtains g s where "map_of (generations st) (am_generationId m) = Some g" "ge_state g = READY" "ge_snapshotId g = am_snapshotId m"
    "map_of (snapshots st) (am_snapshotId m) = Some s" "sn_state s = READY" "ge_projectId g = av_projectId a" "ge_memberKey g = k"
proof -
  obtain r where keys: "sort (map_keys (rl_pins r)) = sort (map_keys (av_members a))"
    and valid: "validateMembers st a r True [] (sort (map_keys (rl_pins r))) = Inr u"
    using assms(1) unfolding validateActivation_def by (auto simp: Let_def)
  have "k \<in> set (map_keys (av_members a))" using assms(2) by (force dest: map_of_SomeD)
  then have "k \<in> set (sort (map_keys (rl_pins r)))" unfolding keys by simp
  with validateMembers_member [OF valid] obtain gv gv' where "validateMember st a r True gv k = Inr gv'" by blast
  then show thesis using that assms(2) unfolding validateMember_def by (auto simp: Let_def)
qed

lemma validateActivation_content:
  assumes "validateActivation st a True = Inr u" "wf_jsmap (av_members a)"
  shows "kept_release st (av_releaseId a)" "\<forall>k\<in>set (memberGenerations a). ready_generation st k"
    "\<forall>k\<in>set (memberSnapshots a). ready_snapshot st k"
proof -
  show "kept_release st (av_releaseId a)"
    using assms(1) by (rule validateActivation_release) (auto simp: kept_release_def)
  have member: "ready_generation st (am_generationId m) \<and> ready_snapshot st (am_snapshotId m)"
    if m: "m \<in> set (map_values (av_members a))" for m
  proof -
    from m assms(2) obtain k where "map_of (av_members a) k = Some m" by (metis map_values_iff)
    with assms(1) show ?thesis
      by (rule validateActivation_member) (auto simp: ready_generation_def ready_snapshot_def)
  qed
  show "\<forall>k\<in>set (memberGenerations a). ready_generation st k" "\<forall>k\<in>set (memberSnapshots a). ready_snapshot st k"
    using member by (auto simp: memberGenerations_def memberSnapshots_def)
qed

subsection \<open>Capacity as sets\<close>

text \<open>The heads of a project among proposed heads, and the generations that serve a member in them.\<close>

definition countsFor :: "RuntimeState \<Rightarrow> jsstring \<Rightarrow> jsstring \<Rightarrow> bool" where
  "countsFor st projectId releaseId \<longleftrightarrow> (case map_of (releases st) releaseId of
       None \<Rightarrow> False
     | Some release \<Rightarrow> rl_projectId release = projectId \<and> rl_state release \<noteq> Release_COLLECTED)"

definition servedHeads :: "RuntimeState \<Rightarrow> jsstring \<Rightarrow> (jsstring, jsstring) jsmap \<Rightarrow> (jsstring \<times> jsstring) set" where
  "servedHeads st projectId heads = {h \<in> set heads. countsFor st projectId (fst h)}"

definition servedGenerations :: "RuntimeState \<Rightarrow> jsstring \<Rightarrow> (jsstring, jsstring) jsmap \<Rightarrow> jsstring \<Rightarrow> jsstring set" where
  "servedGenerations st projectId heads memberKey =
     {am_generationId m | m h a. h \<in> servedHeads st projectId heads \<and> map_of (activations st) (snd h) = Some a
        \<and> (memberKey, m) \<in> set (av_members a)}"

definition idsOf :: "(jsstring, jsstring list) jsmap \<Rightarrow> jsstring \<Rightarrow> jsstring list" where
  "idsOf gens k = (case map_of gens k of None \<Rightarrow> [] | Some ids \<Rightarrow> ids)"

definition wf_gens :: "(jsstring, jsstring list) jsmap \<Rightarrow> bool" where
  "wf_gens gens \<longleftrightarrow> wf_jsmap gens \<and> (\<forall>k ids. map_of gens k = Some ids \<longrightarrow> distinct ids)"

lemma distinct_addToSet [simp]: "distinct (addToSet x xs) \<longleftrightarrow> distinct xs"
  by (auto simp: addToSet_def)

lemma distinct_addAll [simp]: "distinct (addAll ys xs) \<longleftrightarrow> distinct xs"
  unfolding addAll_def by (induction ys arbitrary: xs) auto

lemma addGeneration_set:
  "set (idsOf (addGeneration gens km) k) = set (idsOf gens k) \<union> (if k = fst km then {am_generationId (snd km)} else {})"
  by (auto simp: addGeneration_def idsOf_def split: option.splits)

lemma wf_gens_distinct: "wf_gens gens \<Longrightarrow> distinct (idsOf gens k)"
proof (cases "map_of gens k")
  case (Some ids)
  assume "wf_gens gens"
  with Some have "distinct ids" unfolding wf_gens_def by blast
  with Some show ?thesis by (simp add: idsOf_def)
qed (simp add: idsOf_def)

lemma addGeneration_wf: "wf_gens gens \<Longrightarrow> wf_gens (addGeneration gens km)"
  unfolding wf_gens_def
proof (intro conjI allI impI)
  assume wf: "wf_jsmap gens \<and> (\<forall>k ids. map_of gens k = Some ids \<longrightarrow> distinct ids)"
  then show "wf_jsmap (addGeneration gens km)" unfolding addGeneration_def by (intro wf_jsmap_update) (rule conjunct1)
  fix k ids assume ids: "map_of (addGeneration gens km) k = Some ids"
  show "distinct ids"
  proof (cases "k = fst km")
    case True
    with ids have "ids = addToSet (am_generationId (snd km)) (idsOf gens k)"
      by (simp add: addGeneration_def idsOf_def)
    moreover have "distinct (idsOf gens k)" by (rule wf_gens_distinct) (unfold wf_gens_def, rule wf)
    ultimately show ?thesis by simp
  next
    case False
    with ids have "map_of gens k = Some ids" by (simp add: addGeneration_def)
    with wf show ?thesis by blast
  qed
qed

lemma addGenerations_set:
  "set (idsOf (foldl addGeneration gens members) k) = set (idsOf gens k) \<union> {am_generationId m | m. (k, m) \<in> set members}"
proof (induction members arbitrary: gens)
  case (Cons km members)
  show ?case unfolding foldl.simps Cons.IH addGeneration_set by (cases km) auto
qed simp

lemma addGenerations_wf: "wf_gens gens \<Longrightarrow> wf_gens (foldl addGeneration gens members)"
  by (induction members arbitrary: gens) (auto simp: addGeneration_wf)

lemma countsFor_case:
  "(case map_of (releases st) k of None \<Rightarrow> True
      | Some release \<Rightarrow> rl_projectId release \<noteq> projectId \<or> rl_state release = Release_COLLECTED) \<longleftrightarrow> \<not> countsFor st projectId k"
  by (auto simp: countsFor_def split: option.splits)

text \<open>The loop of \<open>capacityForHeads\<close> counts these sets.\<close>

lemma capacityLoop_Inr:
  assumes "\<And>h. h \<in> servedHeads st projectId heads \<Longrightarrow> map_of (activations st) (snd h) \<noteq> None" "wf_gens gens"
  shows "\<exists>gens'. capacityLoop st projectId n gens heads = Inr (n + int (length (filter (\<lambda>h. countsFor st projectId (fst h)) heads)), gens')
    \<and> wf_gens gens' \<and> (\<forall>k. set (idsOf gens' k) = set (idsOf gens k) \<union> servedGenerations st projectId heads k)"
  using assms
proof (induction heads arbitrary: n gens)
  case Nil
  then show ?case by (simp add: servedGenerations_def servedHeads_def)
next
  case (Cons h heads)
  obtain releaseId activationId where h: "h = (releaseId, activationId)" by fastforce
  have tail: "map_of (activations st) (snd h) \<noteq> None" if "h \<in> servedHeads st projectId heads" for h
    using that Cons.prems(1) by (simp add: servedHeads_def)
  show ?case
  proof (cases "countsFor st projectId releaseId")
    case False
    then have "servedHeads st projectId (h # heads) = servedHeads st projectId heads" by (auto simp: servedHeads_def h)
    with Cons.IH [OF tail Cons.prems(2), of n] False show ?thesis
      by (simp add: h countsFor_case servedGenerations_def)
  next
    case True
    then have heads: "servedHeads st projectId (h # heads) = insert h (servedHeads st projectId heads)" by (auto simp: servedHeads_def h)
    then obtain a where a: "map_of (activations st) activationId = Some a" using Cons.prems(1) [of h] h by auto
    have "servedGenerations st projectId (h # heads) k =
        {am_generationId m | m. (k, m) \<in> set (av_members a)} \<union> servedGenerations st projectId heads k" for k
      unfolding servedGenerations_def heads using a h by auto
    with Cons.IH [OF tail addGenerations_wf [OF Cons.prems(2)], of "n + 1" "av_members a"] True a show ?thesis
      by (simp add: h countsFor_case requireRecord_def addGenerations_set Un_assoc add.assoc)
  qed
qed

definition within_limits :: "RuntimePolicy \<Rightarrow> RuntimeState \<Rightarrow> jsstring \<Rightarrow> (jsstring, jsstring) jsmap \<Rightarrow> bool" where
  "within_limits policy st projectId heads \<longleftrightarrow>
     int (card (servedHeads st projectId heads)) \<le> hardMaxServingReleases policy
     \<and> (\<forall>k. int (card (servedGenerations st projectId heads k)) \<le> hardMaxServingGenerationsPerMember policy)"

lemma capacityForHeads_Inr:
  assumes "\<forall>h\<in>servedHeads st projectId heads. map_of (activations st) (snd h) \<noteq> None" "distinct heads"
  shows "\<exists>c. capacityForHeads st projectId heads = Inr c \<and> cs_servingReleases c = int (card (servedHeads st projectId heads))
     \<and> (\<forall>k n. (k, n) \<in> set (cs_generationsPerMember c) \<longrightarrow> n = int (card (servedGenerations st projectId heads k)))
     \<and> (\<forall>k. servedGenerations st projectId heads k \<noteq> {} \<longrightarrow> (k, int (card (servedGenerations st projectId heads k))) \<in> set (cs_generationsPerMember c))"
proof -
  have "wf_gens []" by (simp add: wf_gens_def)
  then have "\<exists>gens'. capacityLoop st projectId 0 [] heads =
      Inr (0 + int (length (filter (\<lambda>h. countsFor st projectId (fst h)) heads)), gens') \<and> wf_gens gens'
      \<and> (\<forall>k. set (idsOf gens' k) = set (idsOf [] k) \<union> servedGenerations st projectId heads k)"
    by (intro capacityLoop_Inr) (rule bspec [OF assms(1)])
  then obtain gens where "capacityLoop st projectId 0 [] heads =
      Inr (0 + int (length (filter (\<lambda>h. countsFor st projectId (fst h)) heads)), gens) \<and> wf_gens gens
      \<and> (\<forall>k. set (idsOf gens k) = set (idsOf [] k) \<union> servedGenerations st projectId heads k)"
    by (rule exE)
  then have loop: "capacityLoop st projectId 0 [] heads =
      Inr (int (length (filter (\<lambda>h. countsFor st projectId (fst h)) heads)), gens)" and wf: "wf_gens gens"
    and ids: "\<And>k. set (idsOf gens k) = servedGenerations st projectId heads k"
    by (simp_all add: idsOf_def)
  have "length (filter (\<lambda>h. countsFor st projectId (fst h)) heads) = card (servedHeads st projectId heads)"
    using distinct_card [OF distinct_filter [OF assms(2)], of "\<lambda>h. countsFor st projectId (fst h)"] by (simp add: servedHeads_def)
  moreover have card: "length xs = card (servedGenerations st projectId heads k)" if "map_of gens k = Some xs" for k xs
    using ids [of k] distinct_card [OF wf_gens_distinct [OF wf, of k]] that by (simp add: idsOf_def)
  moreover have "(k, int (card (servedGenerations st projectId heads k))) \<in> set (map (\<lambda>(k, ids). (k, int (length ids))) gens)"
    if "servedGenerations st projectId heads k \<noteq> {}" for k
  proof -
    from that ids [of k] obtain xs where "map_of gens k = Some xs" by (cases "map_of gens k") (auto simp: idsOf_def)
    with card [OF this] show ?thesis by (force dest: map_of_SomeD)
  qed
  moreover have "n = int (card (servedGenerations st projectId heads k))"
    if kn: "(k, n) \<in> set (map (\<lambda>(k, ids). (k, int (length ids))) gens)" for k n
  proof -
    from kn obtain xs where xs: "(k, xs) \<in> set gens" "n = int (length xs)" by auto
    moreover from wf have "distinct (map_keys gens)" by (simp add: wf_gens_def wf_jsmap_def)
    ultimately have "map_of gens k = Some xs" by simp
    with card xs show ?thesis by simp
  qed
  ultimately show ?thesis by (simp add: capacityForHeads_def loop)
qed

subsection \<open>The invariant\<close>

definition ids_inv :: "RuntimeState \<Rightarrow> bool" where
  "ids_inv st \<longleftrightarrow> keyed_by rl_id (releases st) \<and> keyed_by sn_id (snapshots st) \<and> keyed_by ge_id (generations st)
     \<and> keyed_by av_id (activations st) \<and> keyed_by sh_releaseId (servingHeads st)
     \<and> keyed_by (\<lambda>c. channelKey (ch_projectId c) (ch_channel c)) (channels st)"

definition content_inv :: "RuntimeState \<Rightarrow> bool" where
  "content_inv st \<longleftrightarrow>
     (\<forall>k a. map_of (activations st) k = Some a \<longrightarrow> wf_jsmap (av_members a)
        \<and> (av_state a = READY \<longrightarrow> validateActivation st a True = Inr ()))
     \<and> (\<forall>k g. map_of (generations st) k = Some g \<longrightarrow> ge_state g = READY \<longrightarrow> ready_snapshot st (ge_snapshotId g))"

definition serving_release :: "RuntimePolicy \<Rightarrow> ReleaseRecord \<Rightarrow> bool" where
  "serving_release policy r \<longleftrightarrow> (\<exists>p s. rl_publishedAt r = Some p \<and> rl_supportUntil r = Some s \<and> s - p \<ge> minimumReleaseSupportMs policy)"

definition heads_inv :: "RuntimePolicy \<Rightarrow> RuntimeState \<Rightarrow> bool" where
  "heads_inv policy st \<longleftrightarrow>
     (\<forall>k h. map_of (servingHeads st) k = Some h \<longrightarrow> (\<exists>r a. map_of (releases st) k = Some r \<and> rl_state r = Release_PUBLISHED
        \<and> ready_activation st (sh_activationId h) a \<and> av_releaseId a = k))
     \<and> (\<forall>k r. map_of (releases st) k = Some r \<longrightarrow> rl_state r = Release_PUBLISHED \<longrightarrow>
        map_of (servingHeads st) k \<noteq> None \<and> serving_release policy r)"

definition channels_inv :: "RuntimeState \<Rightarrow> bool" where
  "channels_inv st \<longleftrightarrow> (\<forall>k c. map_of (channels st) k = Some c \<longrightarrow> (\<exists>a h. ready_activation st (ch_activationId c) a
     \<and> map_of (servingHeads st) (av_releaseId a) = Some h \<and> sh_activationId h = ch_activationId c
     \<and> av_projectId a = ch_projectId c))"

definition capacity_inv :: "RuntimePolicy \<Rightarrow> RuntimeState \<Rightarrow> bool" where
  "capacity_inv policy st \<longleftrightarrow> (\<forall>projectId. within_limits policy st projectId (currentHeadActivations st))"

definition core_inv :: "RuntimePolicy \<Rightarrow> RuntimeState \<Rightarrow> bool" where
  "core_inv policy st \<longleftrightarrow> ids_inv st \<and> content_inv st \<and> heads_inv policy st \<and> channels_inv st \<and> capacity_inv policy st"

definition query_ok :: "int \<Rightarrow> RuntimeState \<Rightarrow> QueryLease \<Rightarrow> bool" where
  "query_ok now st q \<longleftrightarrow> ql_resolutionCount q = 1
     \<and> (ql_state q = Query_ACTIVE \<and> ql_leaseUntil q > now \<longrightarrow> (\<exists>a. ready_activation st (ql_activationId q) a))"

definition token_ok :: "int \<Rightarrow> RuntimeState \<Rightarrow> PreflightToken \<Rightarrow> bool" where
  "token_ok now st t \<longleftrightarrow> (pt_state t = Token_ACTIVE \<and> pt_expiresAt t > now \<longrightarrow> (\<exists>a. ready_activation st (pt_activationId t) a))"

definition uses_inv :: "int \<Rightarrow> RuntimeState \<Rightarrow> bool" where
  "uses_inv now st \<longleftrightarrow> wf_jsmap (queries st) \<and> wf_jsmap (preflightTokens st) \<and> wf_jsmap (jobs st) \<and> wf_jsmap (holds st)
     \<and> wf_jsmap (historicalReferences st)
     \<and> (\<forall>k q. map_of (queries st) k = Some q \<longrightarrow> query_ok now st q)
     \<and> (\<forall>k t. map_of (preflightTokens st) k = Some t \<longrightarrow> token_ok now st t)
     \<and> (\<forall>r\<in>set (activeReferences st). references_available st r)"

lemma uses_query_ok: "uses_inv now st \<Longrightarrow> map_of (queries st) k = Some q \<Longrightarrow> query_ok now st q"
  and uses_token_ok: "uses_inv now st \<Longrightarrow> map_of (preflightTokens st) k = Some t \<Longrightarrow> token_ok now st t"
  unfolding uses_inv_def by blast+

lemma core_ids: "core_inv policy st \<Longrightarrow> ids_inv st"
  by (simp add: core_inv_def)

lemma core_valid: "core_inv policy st \<Longrightarrow> ready_activation st k a \<Longrightarrow> validateActivation st a True = Inr ()"
  unfolding core_inv_def content_inv_def ready_activation_def by blast

lemma core_members: "core_inv policy st \<Longrightarrow> map_of (activations st) k = Some a \<Longrightarrow> wf_jsmap (av_members a)"
  unfolding core_inv_def content_inv_def by blast

lemma core_generation:
  "core_inv policy st \<Longrightarrow> map_of (generations st) k = Some g \<Longrightarrow> ge_state g = READY \<Longrightarrow> ready_snapshot st (ge_snapshotId g)"
  unfolding core_inv_def content_inv_def by blast

lemma core_head:
  assumes "core_inv policy st" "map_of (servingHeads st) k = Some h"
  obtains r a where "map_of (releases st) k = Some r" "rl_state r = Release_PUBLISHED" "serving_release policy r"
    "ready_activation st (sh_activationId h) a" "av_releaseId a = k"
  using assms unfolding core_inv_def heads_inv_def by blast

lemma core_published:
  assumes "core_inv policy st" "map_of (releases st) k = Some r" "rl_state r = Release_PUBLISHED"
  obtains h where "map_of (servingHeads st) k = Some h" "serving_release policy r"
  using assms unfolding core_inv_def heads_inv_def by blast

lemma core_channel:
  assumes "core_inv policy st" "map_of (channels st) k = Some c"
  obtains a h where "ready_activation st (ch_activationId c) a" "map_of (servingHeads st) (av_releaseId a) = Some h"
    "sh_activationId h = ch_activationId c" "av_projectId a = ch_projectId c"
  using assms unfolding core_inv_def channels_inv_def by blast

lemma core_content:
  assumes "core_inv policy st" "ready_activation st k a"
  shows "kept_release st (av_releaseId a)" "\<forall>k\<in>set (memberGenerations a). ready_generation st k"
    "\<forall>k\<in>set (memberSnapshots a). ready_snapshot st k"
  using validateActivation_content [OF core_valid [OF assms] core_members [OF assms(1)]] assms(2)
  unfolding ready_activation_def by blast+

lemma ready_activation_id: "ids_inv st \<Longrightarrow> ready_activation st k a \<Longrightarrow> av_id a = k"
  unfolding ids_inv_def ready_activation_def by (blast intro: keyed_by_id)

lemma release_id: "ids_inv st \<Longrightarrow> map_of (releases st) k = Some r \<Longrightarrow> rl_id r = k"
  unfolding ids_inv_def by (blast intro: keyed_by_id)

subsection \<open>What is protected is available\<close>

definition protected_available :: "RuntimeState \<Rightarrow> ProtectedIds \<Rightarrow> bool" where
  "protected_available st p \<longleftrightarrow> (\<forall>k\<in>set (pi_releaseIds p). kept_release st k)
     \<and> (\<forall>k\<in>set (pi_activationIds p). \<exists>a. ready_activation st k a)
     \<and> (\<forall>k\<in>set (pi_generationIds p). ready_generation st k)
     \<and> (\<forall>k\<in>set (pi_snapshotIds p). ready_snapshot st k)"

lemma assertProtectedContentReady_Inr: "protected_available st p \<Longrightarrow> assertProtectedContentReady st p = Inr ()"
  unfolding protected_available_def assertProtectedContentReady_def by simp

lemma set_unique [simp]: "set (unique xs) = set xs"
  by (simp add: unique_def)

lemma distinct_unique [simp]: "distinct (unique xs)"
  by (simp add: unique_def)

lemma addReferences_sets:
  "set (pi_releaseIds (foldl addReferences p rs)) = set (pi_releaseIds p) \<union> (\<Union>r\<in>set rs. set (cr_releaseIds r))"
  "set (pi_activationIds (foldl addReferences p rs)) = set (pi_activationIds p) \<union> (\<Union>r\<in>set rs. set (cr_activationIds r))"
  "set (pi_generationIds (foldl addReferences p rs)) = set (pi_generationIds p) \<union> (\<Union>r\<in>set rs. set (cr_generationIds r))"
  "set (pi_snapshotIds (foldl addReferences p rs)) = set (pi_snapshotIds p) \<union> (\<Union>r\<in>set rs. set (cr_snapshotIds r))"
  by (induction rs arbitrary: p) (auto simp: addReferences_def)

lemma rootIds_activations:
  assumes "ids_inv st" "uses_inv now st"
  shows "k \<in> set (pi_activationIds (rootIds st at)) \<longleftrightarrow>
     (\<exists>i c. map_of (channels st) i = Some c \<and> ch_activationId c = k) \<or> (\<exists>i h. map_of (servingHeads st) i = Some h \<and> sh_activationId h = k)
     \<or> (\<exists>i q. map_of (queries st) i = Some q \<and> ql_state q = Query_ACTIVE \<and> ql_leaseUntil q > at \<and> ql_activationId q = k)
     \<or> (\<exists>i t. map_of (preflightTokens st) i = Some t \<and> pt_state t = Token_ACTIVE \<and> pt_expiresAt t > at \<and> pt_activationId t = k)
     \<or> (\<exists>r\<in>set (activeReferences st). k \<in> set (cr_activationIds r))"
proof -
  have v: "v \<in> snd ` set m \<longleftrightarrow> (\<exists>i. map_of m i = Some v)" if "wf_jsmap m" for m :: "(jsstring, 'v) jsmap" and v
    using map_values_iff [OF that, of v] by simp
  have c: "c \<in> snd ` set (channels st) \<longleftrightarrow> (\<exists>i. map_of (channels st) i = Some c)" for c
    by (rule v) (use assms(1) in \<open>simp add: ids_inv_def keyed_by_def\<close>)
  have h: "h \<in> snd ` set (servingHeads st) \<longleftrightarrow> (\<exists>i. map_of (servingHeads st) i = Some h)" for h
    by (rule v) (use assms(1) in \<open>simp add: ids_inv_def keyed_by_def\<close>)
  have q: "q \<in> snd ` set (queries st) \<longleftrightarrow> (\<exists>i. map_of (queries st) i = Some q)" for q
    by (rule v) (use assms(2) in \<open>simp add: uses_inv_def\<close>)
  have t: "t \<in> snd ` set (preflightTokens st) \<longleftrightarrow> (\<exists>i. map_of (preflightTokens st) i = Some t)" for t
    by (rule v) (use assms(2) in \<open>simp add: uses_inv_def\<close>)
  have "k \<in> set (pi_activationIds (rootIds st at)) \<longleftrightarrow> (\<exists>c. c \<in> snd ` set (channels st) \<and> ch_activationId c = k)
     \<or> (\<exists>h. h \<in> snd ` set (servingHeads st) \<and> sh_activationId h = k)
     \<or> (\<exists>q. q \<in> snd ` set (queries st) \<and> ql_state q = Query_ACTIVE \<and> ql_leaseUntil q > at \<and> ql_activationId q = k)
     \<or> (\<exists>t. t \<in> snd ` set (preflightTokens st) \<and> pt_state t = Token_ACTIVE \<and> pt_expiresAt t > at \<and> pt_activationId t = k)
     \<or> (\<exists>r\<in>set (activeReferences st). k \<in> set (cr_activationIds r))"
    unfolding rootIds_def addReferences_sets by (simp add: Bex_def image_iff) blast
  then show ?thesis unfolding c h q t by blast
qed

lemma keyed_by_values_of: "keyed_by f m \<Longrightarrow> v \<in> set (map_values m) \<Longrightarrow> map_of m (f v) = Some v"
  by (rule keyed_by_values [THEN iffD1])

lemma ids_values:
  assumes "ids_inv st"
  shows "r \<in> set (map_values (releases st)) \<Longrightarrow> map_of (releases st) (rl_id r) = Some r"
    and "a \<in> set (map_values (activations st)) \<Longrightarrow> map_of (activations st) (av_id a) = Some a"
    and "h \<in> set (map_values (servingHeads st)) \<Longrightarrow> map_of (servingHeads st) (sh_releaseId h) = Some h"
    and "c \<in> set (map_values (channels st)) \<Longrightarrow> \<exists>k. map_of (channels st) k = Some c"
    and "g \<in> set (map_values (generations st)) \<Longrightarrow> map_of (generations st) (ge_id g) = Some g"
    and "s \<in> set (map_values (snapshots st)) \<Longrightarrow> map_of (snapshots st) (sn_id s) = Some s"
proof -
  note ids = assms [unfolded ids_inv_def]
  show "r \<in> set (map_values (releases st)) \<Longrightarrow> map_of (releases st) (rl_id r) = Some r" by (rule keyed_by_values_of [of rl_id]) (rule ids [THEN conjunct1])
  show "a \<in> set (map_values (activations st)) \<Longrightarrow> map_of (activations st) (av_id a) = Some a" by (rule keyed_by_values_of [of av_id]) (rule ids [THEN conjunct2, THEN conjunct2, THEN conjunct2, THEN conjunct1])
  show "h \<in> set (map_values (servingHeads st)) \<Longrightarrow> map_of (servingHeads st) (sh_releaseId h) = Some h" by (rule keyed_by_values_of [of sh_releaseId]) (rule ids [THEN conjunct2, THEN conjunct2, THEN conjunct2, THEN conjunct2, THEN conjunct1])
  show "c \<in> set (map_values (channels st)) \<Longrightarrow> \<exists>k. map_of (channels st) k = Some c" by (rule exI) (rule keyed_by_values_of [of "\<lambda>c. channelKey (ch_projectId c) (ch_channel c)"], rule ids [THEN conjunct2, THEN conjunct2, THEN conjunct2, THEN conjunct2, THEN conjunct2])
  show "g \<in> set (map_values (generations st)) \<Longrightarrow> map_of (generations st) (ge_id g) = Some g" by (rule keyed_by_values_of [of ge_id]) (rule ids [THEN conjunct2, THEN conjunct2, THEN conjunct1])
  show "s \<in> set (map_values (snapshots st)) \<Longrightarrow> map_of (snapshots st) (sn_id s) = Some s" by (rule keyed_by_values_of [of sn_id]) (rule ids [THEN conjunct2, THEN conjunct1])
qed

lemma rootIds_available:
  assumes core: "core_inv policy st" and uses: "uses_inv now st" and "now \<le> at"
  shows "protected_available st (rootIds st at)"
proof -
  note ids = core_ids [OF core]
  have refs: "references_available st r" if "r \<in> set (activeReferences st)" for r
    using that uses unfolding uses_inv_def by blast
  have "kept_release st k" if "k \<in> set (pi_releaseIds (rootIds st at))" for k
  proof -
    from that consider h where "h \<in> set (map_values (servingHeads st))" "k = sh_releaseId h"
      | r where "r \<in> set (activeReferences st)" "k \<in> set (cr_releaseIds r)"
      unfolding rootIds_def addReferences_sets by auto
    then show ?thesis
    proof cases
      case 1
      from core ids_values(3) [OF ids 1(1)] show ?thesis
        by (rule core_head) (use 1(2) in \<open>simp add: kept_release_def\<close>)
    next
      case 2
      with refs show ?thesis unfolding references_available_def by blast
    qed
  qed
  moreover have "\<exists>a. ready_activation st k a" if "k \<in> set (pi_activationIds (rootIds st at))" for k
  proof -
    from that [unfolded rootIds_activations [OF ids uses]]
    consider i c where "map_of (channels st) i = Some c" "ch_activationId c = k"
      | i h where "map_of (servingHeads st) i = Some h" "sh_activationId h = k"
      | i q where "map_of (queries st) i = Some q" "ql_state q = Query_ACTIVE" "ql_leaseUntil q > at" "ql_activationId q = k"
      | i t where "map_of (preflightTokens st) i = Some t" "pt_state t = Token_ACTIVE" "pt_expiresAt t > at" "pt_activationId t = k"
      | r where "r \<in> set (activeReferences st)" "k \<in> set (cr_activationIds r)"
      by blast
    then show ?thesis
    proof cases
      case 1
      from core 1(1) show ?thesis by (rule core_channel) (use 1(2) in auto)
    next
      case 2
      from core 2(1) show ?thesis by (rule core_head) (use 2(2) in auto)
    next
      case 3
      with \<open>now \<le> at\<close> have "ql_leaseUntil q > now" by simp
      with 3 uses_query_ok [OF uses 3(1)] show ?thesis unfolding query_ok_def by blast
    next
      case 4
      with \<open>now \<le> at\<close> have "pt_expiresAt t > now" by simp
      with 4 uses_token_ok [OF uses 4(1)] show ?thesis unfolding token_ok_def by blast
    next
      case 5
      with refs show ?thesis unfolding references_available_def by blast
    qed
  qed
  moreover have "\<forall>k\<in>set (pi_generationIds (rootIds st at)). ready_generation st k"
    unfolding rootIds_def addReferences_sets using refs by (auto simp: references_available_def)
  moreover have "\<forall>k\<in>set (pi_snapshotIds (rootIds st at)). ready_snapshot st k"
    unfolding rootIds_def addReferences_sets using refs by (auto simp: references_available_def)
  ultimately show ?thesis unfolding protected_available_def by blast
qed

lemma expandActivation_available:
  assumes core: "core_inv policy st" and p: "protected_available st p" and k: "\<exists>a. ready_activation st k a"
  shows "protected_available st (expandActivation st p k)"
proof -
  from k obtain a where a: "ready_activation st k a" by blast
  with p core_content [OF core a] show ?thesis
    unfolding protected_available_def expandActivation_def ready_activation_def by auto
qed

lemma expandGeneration_available:
  assumes core: "core_inv policy st" and p: "protected_available st p" and k: "ready_generation st k"
  shows "protected_available st (expandGeneration st p k)"
proof -
  from k obtain g where g: "map_of (generations st) k = Some g" "ge_state g = READY" unfolding ready_generation_def by blast
  with p core_generation [OF core g] show ?thesis
    unfolding protected_available_def expandGeneration_def by auto
qed

lemma expandProtectedGraph_available:
  assumes core: "core_inv policy st" and p: "protected_available st p"
  shows "protected_available st (expandProtectedGraph st p)"
proof -
  have activation: "protected_available st p \<Longrightarrow> \<forall>k\<in>set ks. \<exists>a. ready_activation st k a \<Longrightarrow>
      protected_available st (foldl (expandActivation st) p ks)" for ks p
    by (induction ks arbitrary: p) (simp_all add: expandActivation_available [OF core])
  have generation: "protected_available st p \<Longrightarrow> \<forall>k\<in>set ks. ready_generation st k \<Longrightarrow>
      protected_available st (foldl (expandGeneration st) p ks)" for ks p
    by (induction ks arbitrary: p) (simp_all add: expandGeneration_available [OF core])
  define q where "q = foldl (expandActivation st) p (pi_activationIds p)"
  have q: "protected_available st q"
    unfolding q_def by (rule activation [OF p]) (use p in \<open>simp add: protected_available_def\<close>)
  have "protected_available st (foldl (expandGeneration st) q (pi_generationIds q))"
    by (rule generation [OF q]) (use q in \<open>simp add: protected_available_def\<close>)
  then show ?thesis by (simp add: expandProtectedGraph_round expandRound_def q_def Let_def)
qed

subsection \<open>The model's own check passes\<close>

text \<open>The heads by release.\<close>

lemma map_of_rev_distinct: "distinct (map_keys xs) \<Longrightarrow> map_of (rev xs) k = map_of xs k"
proof (induction xs)
  case (Cons x xs)
  obtain i v where x: "x = (i, v)" by fastforce
  with Cons.prems have "map_of xs i = None" by (simp add: map_of_eq_None_iff)
  with Cons show ?case by (cases "map_of xs k") (auto simp: x map_add_def)
qed simp

lemma fromEntries_map_of: "map_of (fromEntries xs) k = map_of (rev xs) k"
  unfolding fromEntries_def by (induction xs rule: rev_induct) (auto split: prod.splits)

lemma fromEntries_wf [simp]: "wf_jsmap (fromEntries xs)"
  unfolding fromEntries_def by (induction xs rule: rev_induct) (auto split: prod.splits)

lemma currentHeadActivations_wf [simp]: "wf_jsmap (currentHeadActivations st)"
  by (simp add: currentHeadActivations_def)

lemma currentHeadActivations_map_of:
  assumes "ids_inv st"
  shows "map_of (currentHeadActivations st) k = map_option sh_activationId (map_of (servingHeads st) k)"
proof -
  have keyed_by: "keyed_by sh_releaseId (servingHeads st)" using assms by (simp add: ids_inv_def)
  then have entries: "map (\<lambda>head. (sh_releaseId head, sh_activationId head)) (map_values (servingHeads st))
      = map (\<lambda>(k, h). (k, sh_activationId h)) (servingHeads st)"
    by (auto simp: keyed_by_def wf_jsmap_def)
  have dist: "distinct (map_keys (map (\<lambda>(k, h). (k, sh_activationId h)) (servingHeads st)))"
    using keyed_by by (simp add: keyed_by_def wf_jsmap_def comp_def case_prod_unfold)
  have "map_of (rev (map (\<lambda>(k, h). (k, sh_activationId h)) (servingHeads st))) k = map_of (map (\<lambda>(k, h). (k, sh_activationId h)) (servingHeads st)) k"
    by (rule map_of_rev_distinct [OF dist])
  then show ?thesis
    unfolding currentHeadActivations_def fromEntries_map_of entries by (simp add: map_of_map)
qed

lemma wf_set_iff: "wf_jsmap m \<Longrightarrow> h \<in> set m \<longleftrightarrow> map_of m (fst h) = Some (snd h)"
  unfolding wf_jsmap_def by (cases h) simp

lemma wf_distinct: "wf_jsmap m \<Longrightarrow> distinct m"
  unfolding wf_jsmap_def by (simp add: distinct_map)

lemma capacity_Inr:
  assumes core: "core_inv policy st"
  obtains c where "capacity st projectId = Inr c" "cs_servingReleases c \<le> hardMaxServingReleases policy"
    "\<And>k n. (k, n) \<in> set (cs_generationsPerMember c) \<Longrightarrow> n \<le> hardMaxServingGenerationsPerMember policy"
    "cs_servingReleases c = int (card (servedHeads st projectId (currentHeadActivations st)))"
proof -
  have "map_of (activations st) (snd h) \<noteq> None" if "h \<in> servedHeads st projectId (currentHeadActivations st)" for h
  proof -
    from that obtain head where head: "map_of (servingHeads st) (fst h) = Some head" "sh_activationId head = snd h"
      by (auto simp: servedHeads_def wf_set_iff currentHeadActivations_map_of [OF core_ids [OF core]])
    from core head(1) show ?thesis by (rule core_head) (use head(2) in \<open>simp add: ready_activation_def\<close>)
  qed
  then have acts: "\<forall>h\<in>servedHeads st projectId (currentHeadActivations st). map_of (activations st) (snd h) \<noteq> None" by blast
  from capacityForHeads_Inr [OF acts wf_distinct [OF currentHeadActivations_wf]]
  obtain c where c: "capacityForHeads st projectId (currentHeadActivations st) = Inr c"
      "cs_servingReleases c = int (card (servedHeads st projectId (currentHeadActivations st)))"
      "\<forall>k n. (k, n) \<in> set (cs_generationsPerMember c) \<longrightarrow> n = int (card (servedGenerations st projectId (currentHeadActivations st) k))"
    by (elim exE conjE)
  have limits: "within_limits policy st projectId (currentHeadActivations st)"
    using core by (simp add: core_inv_def capacity_inv_def)
  show thesis
  proof (rule that)
    show "capacity st projectId = Inr c" by (simp add: capacity_def c(1))
    show "cs_servingReleases c = int (card (servedHeads st projectId (currentHeadActivations st)))" by (rule c(2))
    show "cs_servingReleases c \<le> hardMaxServingReleases policy" using limits by (simp add: within_limits_def c(2))
    show "n \<le> hardMaxServingGenerationsPerMember policy" if "(k, n) \<in> set (cs_generationsPerMember c)" for k n
      using limits c(3) [rule_format, OF that] unfolding within_limits_def by simp
  qed
qed

lemma checkPointer_Inr:
  assumes core: "core_inv policy st" and c: "map_of (channels st) k = Some c"
  shows "checkPointer st c = Inr ()"
proof -
  from core c obtain a h where a: "ready_activation st (ch_activationId c) a" "av_projectId a = ch_projectId c"
    and h: "map_of (servingHeads st) (av_releaseId a) = Some h" by (rule core_channel)
  from core h obtain r where r: "map_of (releases st) (av_releaseId a) = Some r" "rl_state r = Release_PUBLISHED" by (rule core_head)
  have valid: "validateActivation st a True = Inr ()" by (rule core_valid [OF core a(1)])
  then have "rl_projectId r = ch_projectId c"
    by (rule validateActivation_release) (use r(1) a(2) in simp)
  with a r valid show ?thesis by (auto simp: checkPointer_def)
qed

lemma checkHead_Inr:
  assumes core: "core_inv policy st" and h: "map_of (servingHeads st) k = Some h" "sh_releaseId h = k"
  shows "checkHead st h = Inr ()"
proof -
  from core h(1) obtain r a where r: "map_of (releases st) k = Some r" "rl_state r = Release_PUBLISHED"
    and a: "ready_activation st (sh_activationId h) a" "av_releaseId a = k" by (rule core_head)
  have "validateActivation st a True = Inr ()" by (rule core_valid [OF core a(1)])
  with a r h(2) release_id [OF core_ids [OF core] r(1)] show ?thesis by (auto simp: checkHead_def)
qed

lemma checkRelease_Inr:
  assumes core: "core_inv policy st" and r: "map_of (releases st) (rl_id r) = Some r"
  shows "checkRelease policy st r = Inr ()"
proof (cases "rl_state r = Release_PUBLISHED")
  case True
  with core r obtain h where "map_of (servingHeads st) (rl_id r) = Some h" "serving_release policy r" by (rule core_published)
  with True show ?thesis by (auto simp: checkRelease_def serving_release_def Let_def)
next
  case False
  have "map_of (servingHeads st) (rl_id r) = None"
  proof (rule ccontr)
    assume "map_of (servingHeads st) (rl_id r) \<noteq> None"
    then obtain h where "map_of (servingHeads st) (rl_id r) = Some h" by blast
    with core show False by (rule core_head) (use False r in simp)
  qed
  with False show ?thesis by (simp add: checkRelease_def Let_def)
qed

lemma checkCapacity_Inr: "core_inv policy st \<Longrightarrow> checkCapacity policy st projectId = Inr ()"
  by (rule capacity_Inr [of policy st projectId], assumption) (fastforce simp: checkCapacity_def list_ex_iff)

lemma assertInvariants_Inr:
  assumes core: "core_inv policy st" and uses: "uses_inv now st" and "now \<le> at"
  shows "assertInvariants localeCompare policy at st = Inr ()"
proof -
  note ids = core_ids [OF core]
  have "checkPointer st c = Inr ()" if "c \<in> set (map_values (channels st))" for c
    using ids_values(4) [OF ids that] checkPointer_Inr [OF core] by blast
  moreover have "checkHead st h = Inr ()" if "h \<in> set (map_values (servingHeads st))" for h
    using ids_values(3) [OF ids that] by (rule checkHead_Inr [OF core]) (rule refl)
  moreover have "checkRelease policy st r = Inr ()" if "r \<in> set (map_values (releases st))" for r
    using ids_values(1) [OF ids that] by (rule checkRelease_Inr [OF core])
  moreover have "checkActivation st a = Inr ()" if "a \<in> set (map_values (activations st))" for a
    using ids_values(2) [OF ids that] core unfolding checkActivation_def core_inv_def content_inv_def by auto
  moreover have "checkQuery q = Inr ()" if q: "q \<in> set (map_values (queries st))" for q
  proof -
    have "wf_jsmap (queries st)" using uses by (simp add: uses_inv_def)
    with q obtain k where "map_of (queries st) k = Some q" by (metis map_values_iff)
    with uses have "ql_resolutionCount q = 1" by (auto dest: uses_query_ok simp: query_ok_def)
    then show ?thesis by (simp add: checkQuery_def)
  qed
  moreover have "assertProtectedContentReady st (protectedIds localeCompare policy st at False) = Inr ()"
    unfolding protectedIds_def Let_def
    by (simp add: assertProtectedContentReady_Inr expandProtectedGraph_available [OF core rootIds_available [OF core uses \<open>now \<le> at\<close>]])
  moreover have "checkCapacity policy st p = Inr ()" for p
    using core by (rule checkCapacity_Inr)
  ultimately show ?thesis unfolding assertInvariants_def by simp
qed

end
