(* ===== verification/ActivationSteps.thy ===== *)
theory ActivationSteps
  imports ActivationInvariants
begin

text \<open>
  Every call of the protocol but the collection keeps the invariant, keeps what earlier calls were
  promised (\<open>promises_kept\<close>) and, when it throws, leaves the state as it was.
\<close>

subsection \<open>What later calls rely on\<close>

definition same_activation :: "ActivationRecord \<Rightarrow> ActivationRecord \<Rightarrow> bool" where
  "same_activation a a' \<longleftrightarrow> av_id a' = av_id a \<and> av_releaseId a' = av_releaseId a
     \<and> av_releaseManifestHash a' = av_releaseManifestHash a \<and> av_members a' = av_members a"

definition later_query :: "QueryLease \<Rightarrow> QueryLease \<Rightarrow> bool" where
  "later_query q q' \<longleftrightarrow> ql_activationId q' = ql_activationId q \<and> (ql_state q = Query_ENDED \<longrightarrow> ql_state q' = Query_ENDED)"

definition later_token :: "PreflightToken \<Rightarrow> PreflightToken \<Rightarrow> bool" where
  "later_token t t' \<longleftrightarrow> pt_activationId t' = pt_activationId t \<and> (pt_state t \<noteq> Token_ACTIVE \<longrightarrow> pt_state t' \<noteq> Token_ACTIVE)"

definition serves_until :: "RuntimeState \<Rightarrow> jsstring \<Rightarrow> int \<Rightarrow> bool" where
  "serves_until st k s \<longleftrightarrow> (\<exists>r. map_of (releases st) k = Some r \<and> rl_state r = Release_PUBLISHED \<and> rl_supportUntil r = Some s)"

definition promises_kept :: "int \<Rightarrow> RuntimeState \<Rightarrow> RuntimeState \<Rightarrow> bool" where
  "promises_kept now st st' \<longleftrightarrow>
     (\<forall>k a. map_of (activations st) k = Some a \<longrightarrow> (\<exists>a'. map_of (activations st') k = Some a' \<and> same_activation a a'))
     \<and> (\<forall>k q. map_of (queries st) k = Some q \<longrightarrow> (\<exists>q'. map_of (queries st') k = Some q' \<and> later_query q q'))
     \<and> (\<forall>k t. map_of (preflightTokens st) k = Some t \<longrightarrow> (\<exists>t'. map_of (preflightTokens st') k = Some t' \<and> later_token t t'))
     \<and> (\<forall>k s. serves_until st k s \<longrightarrow> serves_until st' k s \<or> s \<le> now)"

lemma same_activation_refl [simp]: "same_activation a a"
  and later_query_refl [simp]: "later_query q q"
  and later_token_refl [simp]: "later_token t t"
  by (simp_all add: same_activation_def later_query_def later_token_def)

lemma same_activation_lastServing [simp]: "same_activation a (a\<lparr>av_lastServingAt := t\<rparr>)"
  by (simp add: same_activation_def)

lemma promises_trans:
  assumes "promises_kept now st st'" "promises_kept now' st' st''" "now \<le> now'"
  shows "promises_kept now' st st''"
proof -
  note one = assms(1) [unfolded promises_kept_def] and two = assms(2) [unfolded promises_kept_def]
  have "\<exists>a'. map_of (activations st'') k = Some a' \<and> same_activation a a'" if "map_of (activations st) k = Some a" for k a
  proof -
    from that one obtain b where b: "map_of (activations st') k = Some b" "same_activation a b" by blast
    with two obtain a' where "map_of (activations st'') k = Some a'" "same_activation b a'" by blast
    with b show ?thesis by (auto simp: same_activation_def)
  qed
  moreover have "\<exists>q'. map_of (queries st'') k = Some q' \<and> later_query q q'" if "map_of (queries st) k = Some q" for k q
  proof -
    from that one obtain b where b: "map_of (queries st') k = Some b" "later_query q b" by blast
    with two obtain q' where "map_of (queries st'') k = Some q'" "later_query b q'" by blast
    with b show ?thesis by (auto simp: later_query_def)
  qed
  moreover have "\<exists>t'. map_of (preflightTokens st'') k = Some t' \<and> later_token t t'" if "map_of (preflightTokens st) k = Some t" for k t
  proof -
    from that one obtain b where b: "map_of (preflightTokens st') k = Some b" "later_token t b" by blast
    with two obtain t' where "map_of (preflightTokens st'') k = Some t'" "later_token b t'" by blast
    with b show ?thesis by (auto simp: later_token_def)
  qed
  moreover have "serves_until st'' k s \<or> s \<le> now'" if "serves_until st k s" for k s
  proof -
    from that one have "serves_until st' k s \<or> s \<le> now" by blast
    with two \<open>now \<le> now'\<close> show ?thesis by fastforce
  qed
  ultimately show ?thesis unfolding promises_kept_def by blast
qed

lemma promises_fields:
  assumes "activations st' = activations st" "releases st' = releases st"
    and "\<And>k q. map_of (queries st) k = Some q \<Longrightarrow> \<exists>q'. map_of (queries st') k = Some q' \<and> later_query q q'"
    and "\<And>k t. map_of (preflightTokens st) k = Some t \<Longrightarrow> \<exists>t'. map_of (preflightTokens st') k = Some t' \<and> later_token t t'"
  shows "promises_kept now st st'"
  unfolding promises_kept_def serves_until_def using assms by simp

lemma promises_refl [simp]: "promises_kept now st st"
  by (rule promises_fields) simp_all

lemma promises_keeps:
  assumes "keeps_content st st'" "queries st' = queries st" "preflightTokens st' = preflightTokens st"
    and "\<And>k s. serves_until st k s \<Longrightarrow> serves_until st' k s \<or> s \<le> now"
  shows "promises_kept now st st'"
  unfolding promises_kept_def
proof (intro conjI allI impI)
  fix k a assume "map_of (activations st) k = Some a"
  with assms(1) obtain t where "map_of (activations st') k = Some (a\<lparr>av_lastServingAt := t\<rparr>)" by (rule keeps_activation)
  then show "\<exists>a'. map_of (activations st') k = Some a' \<and> same_activation a a'" by simp
next
  fix k s show "serves_until st k s \<Longrightarrow> serves_until st' k s \<or> s \<le> now" by (rule assms(4))
qed (auto simp: assms(2,3))

subsection \<open>Fields that matter\<close>

lemma validateActivation_cong:
  assumes "releases st' = releases st" "generations st' = generations st" "snapshots st' = snapshots st"
  shows "validateActivation st' = validateActivation st"
proof -
  have "validateMember st' = validateMember st"
    by (intro ext) (simp add: validateMember_def assms)
  then have "validateMembers st' a r ready gv ks = validateMembers st a r ready gv ks" for a r ready gv ks
    by (induction ks arbitrary: gv) simp_all
  then show ?thesis by (intro ext) (simp add: validateActivation_def assms)
qed

lemma available_cong:
  "activations st' = activations st \<Longrightarrow> ready_activation st' k a = ready_activation st k a"
  "generations st' = generations st \<Longrightarrow> ready_generation st' k = ready_generation st k"
  "snapshots st' = snapshots st \<Longrightarrow> ready_snapshot st' k = ready_snapshot st k"
  "releases st' = releases st \<Longrightarrow> kept_release st' k = kept_release st k"
  by (simp_all add: ready_activation_def ready_generation_def ready_snapshot_def kept_release_def)

definition same_content :: "RuntimeState \<Rightarrow> RuntimeState \<Rightarrow> bool" where
  "same_content st st' \<longleftrightarrow> releases st' = releases st \<and> snapshots st' = snapshots st \<and> generations st' = generations st
     \<and> activations st' = activations st \<and> channels st' = channels st \<and> servingHeads st' = servingHeads st"

lemma references_same: "same_content st st' \<Longrightarrow> references_available st' r = references_available st r"
  by (simp add: references_available_def available_cong [of st' st] same_content_def)

lemma use_ok_cong:
  assumes "activations st' = activations st"
  shows "query_ok now st' = query_ok now st" "token_ok now st' = token_ok now st"
  by (intro ext, simp add: query_ok_def token_ok_def available_cong(1) [OF assms])+

lemma use_ok_later: "query_ok now st q \<Longrightarrow> now \<le> now' \<Longrightarrow> query_ok now' st q" "token_ok now st t \<Longrightarrow> now \<le> now' \<Longrightarrow> token_ok now' st t"
  by (auto simp: query_ok_def token_ok_def)

lemma core_same:
  assumes "same_content st st'"
  shows "core_inv policy st' = core_inv policy st"
proof -
  note same = assms [unfolded same_content_def]
  have valid: "validateActivation st' = validateActivation st" by (rule validateActivation_cong) (simp_all add: same)
  have "ids_inv st' = ids_inv st" by (simp add: ids_inv_def same)
  moreover have "content_inv st' = content_inv st" by (simp add: content_inv_def same valid available_cong [of st' st])
  moreover have "heads_inv policy st' = heads_inv policy st" by (simp add: heads_inv_def same available_cong [of st' st])
  moreover have "channels_inv st' = channels_inv st" by (simp add: channels_inv_def same available_cong [of st' st])
  moreover have "capacity_inv policy st' = capacity_inv policy st"
    by (simp add: capacity_inv_def within_limits_def servedGenerations_def servedHeads_def countsFor_def currentHeadActivations_def same)
  ultimately show ?thesis by (simp add: core_inv_def)
qed

lemma core_bump [simp]: "core_inv policy (bumpState st) = core_inv policy st" "core_inv policy (bumpControl st) = core_inv policy st"
  by (rule core_same, simp add: same_content_def bumpState_def bumpControl_def)+

lemma uses_same:
  assumes "same_content st st'" "queries st' = queries st" "preflightTokens st' = preflightTokens st" "jobs st' = jobs st"
    "holds st' = holds st" "historicalReferences st' = historicalReferences st"
  shows "uses_inv now st' = uses_inv now st"
proof -
  have "activeReferences st' = activeReferences st" by (simp add: activeReferences_def assms)
  moreover have "activations st' = activations st" using assms(1) by (simp add: same_content_def)
  ultimately show ?thesis by (simp add: uses_inv_def assms references_same [OF assms(1)] use_ok_cong [of st' st])
qed

lemma uses_bump [simp]: "uses_inv now (bumpState st) = uses_inv now st" "uses_inv now (bumpControl st) = uses_inv now st"
  by (rule uses_same, simp_all add: same_content_def bumpState_def bumpControl_def)+

lemma promises_bump: "promises_kept now st st' \<Longrightarrow> promises_kept now st (bumpState st')" "promises_kept now st st' \<Longrightarrow> promises_kept now st (bumpControl st')"
  by (rule promises_trans [OF _ promises_fields order_refl], assumption, simp_all add: bumpState_def bumpControl_def)+

lemma uses_later: "uses_inv now st \<Longrightarrow> now \<le> now' \<Longrightarrow> uses_inv now' st"
  unfolding uses_inv_def by (blast intro: use_ok_later)

lemma uses_keeps:
  assumes uses: "uses_inv now st" and keeps: "keeps_content st st'"
    and "queries st' = queries st" "preflightTokens st' = preflightTokens st" "jobs st' = jobs st"
    "holds st' = holds st" "historicalReferences st' = historicalReferences st"
  shows "uses_inv now st'"
proof -
  have "activeReferences st' = activeReferences st" by (simp add: activeReferences_def assms)
  moreover have "query_ok now st q \<Longrightarrow> query_ok now st' q" for q
    using keeps_ready(1) [OF keeps] unfolding query_ok_def by blast
  moreover have "token_ok now st t \<Longrightarrow> token_ok now st' t" for t
    using keeps_ready(1) [OF keeps] unfolding token_ok_def by blast
  ultimately show ?thesis
    using uses keeps_references [OF keeps] unfolding uses_inv_def assms(3-7) by simp
qed

subsection \<open>Outcomes of calls\<close>

definition good :: "RuntimePolicy \<Rightarrow> int \<Rightarrow> RuntimeState \<Rightarrow> bool" where
  "good policy now st \<longleftrightarrow> core_inv policy st \<and> uses_inv now st"

definition sound_effect :: "RuntimePolicy \<Rightarrow> int \<Rightarrow> RuntimeState \<Rightarrow> RuntimeState \<Rightarrow> bool" where
  "sound_effect policy now st st' \<longleftrightarrow> good policy now st' \<and> promises_kept now st st'
     \<and> (st' = st \<or> stateRevision st < stateRevision st')"

definition call_ok :: "RuntimePolicy \<Rightarrow> int \<Rightarrow> RuntimeState \<Rightarrow> 'a runtime_outcome \<Rightarrow> bool" where
  "call_ok policy now st out \<longleftrightarrow> sound_effect policy now st (snd out) \<and> (isl (fst out) \<longrightarrow> snd out = st)"

lemma call_ok_same: "good policy now st \<Longrightarrow> call_ok policy now st (r, st)"
  by (simp add: call_ok_def sound_effect_def)

lemma call_ok_attempt:
  assumes "good policy now st" "\<And>x. r = Inr x \<Longrightarrow> call_ok policy now st (k x)"
  shows "call_ok policy now st (attempt st r k)"
  using assms by (cases r) (simp_all add: call_ok_same)

lemma revision_bump [simp]: "stateRevision (bumpState st) = stateRevision st + 1" "stateRevision (bumpControl st) = stateRevision st + 1"
  by (simp_all add: bumpState_def bumpControl_def)

lemma call_ok_bump:
  assumes "core_inv policy st'" "uses_inv now st'" "promises_kept now st st'" "stateRevision st' = stateRevision st"
  shows "call_ok policy now st (Inr x, bumpState st')" "call_ok policy now st (Inr x, bumpControl st')"
  using assms by (simp_all add: call_ok_def sound_effect_def good_def promises_bump)

subsection \<open>Queries, tokens and references\<close>

text \<open>Calls that write one of the collections of uses.\<close>

lemma uses_query:
  assumes uses: "uses_inv now st" and q: "query_ok now st q"
  shows "uses_inv now (st\<lparr>queries := AList.update k q (queries st)\<rparr>)"
proof -
  let ?st = "st\<lparr>queries := AList.update k q (queries st)\<rparr>"
  have "activeReferences ?st = activeReferences st" by (simp add: activeReferences_def)
  moreover have "references_available ?st r = references_available st r" for r
    by (rule references_same) (simp add: same_content_def)
  moreover have "query_ok now ?st = query_ok now st" "token_ok now ?st = token_ok now st" by (rule use_ok_cong, simp)+
  ultimately show ?thesis using uses q unfolding uses_inv_def by simp
qed

lemma uses_token:
  assumes uses: "uses_inv now st" and t: "token_ok now st t"
  shows "uses_inv now (st\<lparr>preflightTokens := AList.update k t (preflightTokens st)\<rparr>)"
proof -
  let ?st = "st\<lparr>preflightTokens := AList.update k t (preflightTokens st)\<rparr>"
  have "activeReferences ?st = activeReferences st" by (simp add: activeReferences_def)
  moreover have "references_available ?st r = references_available st r" for r
    by (rule references_same) (simp add: same_content_def)
  moreover have "query_ok now ?st = query_ok now st" "token_ok now ?st = token_ok now st" by (rule use_ok_cong, simp)+
  ultimately show ?thesis using uses t unfolding uses_inv_def by simp
qed

lemma uses_references:
  assumes uses: "uses_inv now st" and same: "same_content st st'" and "queries st' = queries st" "preflightTokens st' = preflightTokens st"
    and wf: "wf_jsmap (jobs st')" "wf_jsmap (holds st')" "wf_jsmap (historicalReferences st')"
    and refs: "\<And>r. r \<in> set (activeReferences st') \<Longrightarrow> r \<in> set (activeReferences st) \<or> references_available st r"
  shows "uses_inv now st'"
proof -
  have "activations st' = activations st" using same by (simp add: same_content_def)
  note use_ok_cong [OF this, of now]
  moreover have "references_available st' r" if "r \<in> set (activeReferences st')" for r
    using refs [OF that] uses unfolding references_same [OF same] uses_inv_def by blast
  ultimately show ?thesis using uses wf unfolding uses_inv_def assms(3,4) by simp
qed

lemma uses_wf: "uses_inv now st \<Longrightarrow> wf_jsmap (jobs st)" "uses_inv now st \<Longrightarrow> wf_jsmap (holds st)"
  "uses_inv now st \<Longrightarrow> wf_jsmap (historicalReferences st)"
  by (simp_all add: uses_inv_def)

lemma filter_values_update: "v \<in> set (filter P (map_values (AList.update k x m))) \<Longrightarrow> v = x \<and> P x \<or> v \<in> set (filter P (map_values m))"
  using map_values_update [of v k x m] by auto

lemma uses_job:
  assumes uses: "uses_inv now st" and job: "jr_state j = JobRef_ACTIVE \<Longrightarrow> references_available st (jr_references j)"
  shows "uses_inv now (st\<lparr>jobs := AList.update k j (jobs st)\<rparr>)"
proof (rule uses_references [OF uses])
  fix r assume r: "r \<in> set (activeReferences (st\<lparr>jobs := AList.update k j (jobs st)\<rparr>))"
  then consider j' where "j' \<in> set (filter (\<lambda>job. jr_state job = JobRef_ACTIVE) (map_values (AList.update k j (jobs st))))" "r = jr_references j'"
    | "r \<in> set (activeReferences st)"
    unfolding activeReferences_def by fastforce
  then show "r \<in> set (activeReferences st) \<or> references_available st r"
  proof cases
    case 1
    from filter_values_update [OF 1(1)] job 1(2) show ?thesis unfolding activeReferences_def by auto
  qed simp
qed (use uses_wf [OF uses] in \<open>simp_all add: same_content_def\<close>)

lemma uses_hold:
  assumes uses: "uses_inv now st" and hold: "ho_state h = Hold_ACTIVE \<Longrightarrow> references_available st (ho_references h)"
  shows "uses_inv now (st\<lparr>holds := AList.update k h (holds st)\<rparr>)"
proof (rule uses_references [OF uses])
  fix r assume r: "r \<in> set (activeReferences (st\<lparr>holds := AList.update k h (holds st)\<rparr>))"
  then consider h' where "h' \<in> set (filter (\<lambda>hold. ho_state hold = Hold_ACTIVE) (map_values (AList.update k h (holds st))))" "r = ho_references h'"
    | "r \<in> set (activeReferences st)"
    unfolding activeReferences_def by fastforce
  then show "r \<in> set (activeReferences st) \<or> references_available st r"
  proof cases
    case 1
    from filter_values_update [OF 1(1)] hold 1(2) show ?thesis unfolding activeReferences_def by auto
  qed simp
qed (use uses_wf [OF uses] in \<open>simp_all add: same_content_def\<close>)

lemma uses_historical:
  assumes uses: "uses_inv now st" and hist: "references_available st (hi_references h)"
  shows "uses_inv now (st\<lparr>historicalReferences := AList.update k h (historicalReferences st)\<rparr>)"
proof (rule uses_references [OF uses])
  fix r assume r: "r \<in> set (activeReferences (st\<lparr>historicalReferences := AList.update k h (historicalReferences st)\<rparr>))"
  then consider h' where "h' \<in> set (map_values (AList.update k h (historicalReferences st)))" "r = hi_references h'"
    | "r \<in> set (activeReferences st)"
    unfolding activeReferences_def by fastforce
  then show "r \<in> set (activeReferences st) \<or> references_available st r"
  proof cases
    case 1
    from map_values_update [OF 1(1)] hist 1(2) show ?thesis unfolding activeReferences_def by auto
  qed simp
qed (use uses_wf [OF uses] in \<open>simp_all add: same_content_def\<close>)

lemma assertUnusedId_Inr [simp]: "assertUnusedId m k = Inr u \<longleftrightarrow> map_of m k = None"
  by (simp add: assertUnusedId_def)

lemma resolveActivation_ready:
  assumes "ids_inv st" "resolveActivation st selector = Inr a"
  shows "ready_activation st (av_id a) a"
proof -
  from assms(2) obtain k where k: "ready_activation st k a"
    by (cases selector) (auto simp: resolveActivation_def)
  with assms(1) have "av_id a = k" by (rule ready_activation_id)
  with k show ?thesis by simp
qed

lemma call_ok_use:
  assumes good: "good policy now st" and uses: "uses_inv now st'" and same: "same_content st st'"
    and queries: "\<And>k q. map_of (queries st) k = Some q \<Longrightarrow> \<exists>q'. map_of (queries st') k = Some q' \<and> later_query q q'"
    and tokens: "\<And>k t. map_of (preflightTokens st) k = Some t \<Longrightarrow> \<exists>t'. map_of (preflightTokens st') k = Some t' \<and> later_token t t'"
    and revision: "stateRevision st' = stateRevision st"
  shows "call_ok policy now st (Inr x, bumpState st')"
proof (rule call_ok_bump(1))
  show "core_inv policy st'" using good by (simp add: good_def core_same [OF same])
  show "promises_kept now st st'"
    by (rule promises_fields) (use same queries tokens in \<open>auto simp: same_content_def\<close>)
qed (rule uses revision)+

lemma good_ids: "good policy now st \<Longrightarrow> ids_inv st" and good_uses: "good policy now st \<Longrightarrow> uses_inv now st"
  and good_core: "good policy now st \<Longrightarrow> core_inv policy st"
  by (simp_all add: good_def core_inv_def)

lemma beginQuery_ok:
  assumes good: "good policy now st"
  shows "call_ok policy now st (beginQuery policy k selector startedAt leaseUntil st)"
  unfolding beginQuery_def
proof (rule call_ok_attempt [OF good], rule call_ok_attempt [OF good], rule call_ok_attempt [OF good])
  fix u a assume new: "assertUnusedId (queries st) k = Inr u" and a: "resolveActivation st selector = Inr a"
  let ?q = "\<lparr>ql_id = k, ql_selector = selector, ql_activationId = av_id a, ql_resolutionCount = 1,
    ql_startedAt = startedAt, ql_leaseUntil = leaseUntil, ql_state = Query_ACTIVE\<rparr>"
  have "query_ok now st ?q"
    using resolveActivation_ready [OF good_ids [OF good] a] by (auto simp: query_ok_def)
  with good have "uses_inv now (st\<lparr>queries := AList.update k ?q (queries st)\<rparr>)" by (intro uses_query good_uses)
  with good show "call_ok policy now st (Inr (resolved a), bumpState (st\<lparr>queries := AList.update k ?q (queries st)\<rparr>))"
    by (rule call_ok_use) (use new in \<open>auto simp: same_content_def\<close>)
qed

lemma renewQueryLease_ok:
  assumes good: "good policy now st" and "now \<le> at"
  shows "call_ok policy now st (renewQueryLease policy k at leaseUntil st)"
  unfolding renewQueryLease_def
proof (rule call_ok_attempt [OF good], rule call_ok_attempt [OF good], rule call_ok_attempt [OF good])
  fix q u assume "requireRecord (queries st) k = Inr q"
    and "guard (\<not> (ql_state q \<noteq> Query_ACTIVE \<or> ql_leaseUntil q \<le> at)) QUERY_LEASE_EXPIRED = Inr u"
  then have q: "map_of (queries st) k = Some q" "ql_state q = Query_ACTIVE" "ql_leaseUntil q > now"
    using \<open>now \<le> at\<close> by auto
  from uses_query_ok [OF good_uses [OF good] q(1)] q(2,3)
  have "query_ok now st (q\<lparr>ql_leaseUntil := leaseUntil\<rparr>)" by (simp add: query_ok_def)
  with good have "uses_inv now (st\<lparr>queries := AList.update k (q\<lparr>ql_leaseUntil := leaseUntil\<rparr>) (queries st)\<rparr>)" by (intro uses_query good_uses)
  with good show "call_ok policy now st (Inr (), bumpState (st\<lparr>queries := AList.update k (q\<lparr>ql_leaseUntil := leaseUntil\<rparr>) (queries st)\<rparr>))"
    by (rule call_ok_use) (use q in \<open>auto simp: same_content_def later_query_def\<close>)
qed

lemma endQuery_ok:
  assumes good: "good policy now st"
  shows "call_ok policy now st (endQuery k st)"
  unfolding endQuery_def
proof (rule call_ok_attempt [OF good], rule call_ok_attempt [OF good])
  fix q assume "requireRecord (queries st) k = Inr q"
  then have q: "map_of (queries st) k = Some q" by simp
  from uses_query_ok [OF good_uses [OF good] q(1)]
  have "query_ok now st (q\<lparr>ql_state := Query_ENDED\<rparr>)" by (simp add: query_ok_def)
  with good have "uses_inv now (st\<lparr>queries := AList.update k (q\<lparr>ql_state := Query_ENDED\<rparr>) (queries st)\<rparr>)" by (intro uses_query good_uses)
  with good show "call_ok policy now st (Inr (), bumpState (st\<lparr>queries := AList.update k (q\<lparr>ql_state := Query_ENDED\<rparr>) (queries st)\<rparr>))"
    by (rule call_ok_use) (use q in \<open>auto simp: same_content_def later_query_def\<close>)
qed

lemma issuePreflight_ok:
  assumes good: "good policy now st"
  shows "call_ok policy now st (issuePreflight policy k selector issuedAt expiresAt st)"
  unfolding issuePreflight_def
proof (rule call_ok_attempt [OF good], rule call_ok_attempt [OF good], rule call_ok_attempt [OF good])
  fix u a assume new: "assertUnusedId (preflightTokens st) k = Inr u" and a: "resolveActivation st selector = Inr a"
  let ?t = "\<lparr>pt_id = k, pt_selector = selector, pt_activationId = av_id a, pt_issuedAt = issuedAt, pt_expiresAt = expiresAt, pt_state = Token_ACTIVE\<rparr>"
  have "token_ok now st ?t"
    using resolveActivation_ready [OF good_ids [OF good] a] by (auto simp: token_ok_def)
  with good have "uses_inv now (st\<lparr>preflightTokens := AList.update k ?t (preflightTokens st)\<rparr>)" by (intro uses_token good_uses)
  with good show "call_ok policy now st (Inr (resolved a), bumpState (st\<lparr>preflightTokens := AList.update k ?t (preflightTokens st)\<rparr>))"
    by (rule call_ok_use) (use new in \<open>auto simp: same_content_def\<close>)
qed

lemma setToken_ok:
  assumes good: "good policy now st" and t: "map_of (preflightTokens st) k = Some t" and "s \<noteq> Token_ACTIVE"
  shows "sound_effect policy now st (setToken k t s st)"
proof -
  have "token_ok now st (t\<lparr>pt_state := s\<rparr>)" using \<open>s \<noteq> Token_ACTIVE\<close> by (simp add: token_ok_def)
  with good have "uses_inv now (st\<lparr>preflightTokens := AList.update k (t\<lparr>pt_state := s\<rparr>) (preflightTokens st)\<rparr>)" by (intro uses_token good_uses)
  with good have "call_ok policy now st (Inr (), bumpState (st\<lparr>preflightTokens := AList.update k (t\<lparr>pt_state := s\<rparr>) (preflightTokens st)\<rparr>))"
    by (rule call_ok_use) (use t \<open>s \<noteq> Token_ACTIVE\<close> in \<open>auto simp: same_content_def later_token_def\<close>)
  then show ?thesis by (simp add: call_ok_def setToken_def)
qed

lemma applyPreflight_ok:
  assumes good: "good policy now st"
  shows "sound_effect policy now st (snd (applyPreflight k at st))"
proof -
  have same: "sound_effect policy now st st" using good by (simp add: sound_effect_def)
  show ?thesis unfolding applyPreflight_def
  proof (rule attempt_state [where P = "sound_effect policy now st"], rule same)
    fix t assume "requireRecord (preflightTokens st) k = Inr t"
    then have t: "map_of (preflightTokens st) k = Some t" by simp
    note set_token = setToken_ok [OF good t]
    show "sound_effect policy now st (snd (attempt st (guard (\<not> pt_state t \<noteq> Token_ACTIVE) INVALID_STATE) (\<lambda>_.
      attempt st (guard (\<not> pt_expiresAt t \<le> at) PREFLIGHT_TOKEN_EXPIRED) (\<lambda>_.
      case resolveActivation st (pt_selector t) of
        Inl _ \<Rightarrow> (Inl PREFLIGHT_STALE, setToken k t Token_STALE st)
      | Inr current \<Rightarrow>
          if av_id current \<noteq> pt_activationId t then (Inl PREFLIGHT_STALE, setToken k t Token_STALE st)
          else (Inr (resolved current), setToken k t Token_USED st)))))"
      by (intro attempt_state [where P = "sound_effect policy now st"] same) (simp add: set_token split: sum.split)
  qed
qed

lemma startJob_ok:
  assumes good: "good policy now st"
  shows "call_ok policy now st (startJob k references st)"
  unfolding startJob_def Let_def
proof (rule call_ok_attempt [OF good], rule call_ok_attempt [OF good])
  fix u assume "assertReferencesAvailable st (normalizeReferences references) = Inr u"
  then have "references_available st (normalizeReferences references)" by (rule assertReferencesAvailable_Inr)
  with good have "uses_inv now (st\<lparr>jobs := AList.update k \<lparr>jr_id = k, jr_references = normalizeReferences references, jr_state = JobRef_ACTIVE\<rparr> (jobs st)\<rparr>)"
    by (intro uses_job good_uses) simp_all
  with good show "call_ok policy now st (Inr (), bumpState (st\<lparr>jobs := AList.update k
      \<lparr>jr_id = k, jr_references = normalizeReferences references, jr_state = JobRef_ACTIVE\<rparr> (jobs st)\<rparr>))"
    by (rule call_ok_use) (auto simp: same_content_def)
qed

lemma completeJob_ok:
  assumes good: "good policy now st" and "s \<noteq> JobRef_ACTIVE"
  shows "call_ok policy now st (completeJob k s st)"
  unfolding completeJob_def
proof (rule call_ok_attempt [OF good], rule call_ok_attempt [OF good])
  fix j
  have "uses_inv now (st\<lparr>jobs := AList.update k (j\<lparr>jr_state := s\<rparr>) (jobs st)\<rparr>)"
    using good \<open>s \<noteq> JobRef_ACTIVE\<close> by (intro uses_job good_uses) simp_all
  with good show "call_ok policy now st (Inr (), bumpState (st\<lparr>jobs := AList.update k (j\<lparr>jr_state := s\<rparr>) (jobs st)\<rparr>))"
    by (rule call_ok_use) (auto simp: same_content_def)
qed

lemma placeHold_ok:
  assumes good: "good policy now st"
  shows "call_ok policy now st (placeHold k references reason st)"
  unfolding placeHold_def Let_def
proof (rule call_ok_attempt [OF good], rule call_ok_attempt [OF good], rule call_ok_attempt [OF good])
  fix u assume "assertReferencesAvailable st (normalizeReferences references) = Inr u"
  then have "references_available st (normalizeReferences references)" by (rule assertReferencesAvailable_Inr)
  with good have "uses_inv now (st\<lparr>holds := AList.update k
      \<lparr>ho_id = k, ho_references = normalizeReferences references, ho_reason = reason, ho_state = Hold_ACTIVE\<rparr> (holds st)\<rparr>)"
    by (intro uses_hold good_uses) simp_all
  with good show "call_ok policy now st (Inr (), bumpState (st\<lparr>holds := AList.update k
      \<lparr>ho_id = k, ho_references = normalizeReferences references, ho_reason = reason, ho_state = Hold_ACTIVE\<rparr> (holds st)\<rparr>))"
    by (rule call_ok_use) (auto simp: same_content_def)
qed

lemma releaseHold_ok:
  assumes good: "good policy now st"
  shows "call_ok policy now st (releaseHold k st)"
  unfolding releaseHold_def
proof (rule call_ok_attempt [OF good], rule call_ok_attempt [OF good])
  fix h
  have "uses_inv now (st\<lparr>holds := AList.update k (h\<lparr>ho_state := Hold_RELEASED\<rparr>) (holds st)\<rparr>)"
    using good by (intro uses_hold good_uses) simp_all
  with good show "call_ok policy now st (Inr (), bumpState (st\<lparr>holds := AList.update k (h\<lparr>ho_state := Hold_RELEASED\<rparr>) (holds st)\<rparr>))"
    by (rule call_ok_use) (auto simp: same_content_def)
qed

lemma addHistoricalReference_ok:
  assumes good: "good policy now st"
  shows "call_ok policy now st (addHistoricalReference k references st)"
  unfolding addHistoricalReference_def Let_def
proof (rule call_ok_attempt [OF good], rule call_ok_attempt [OF good])
  fix u assume "assertReferencesAvailable st (normalizeReferences references) = Inr u"
  then have "references_available st (normalizeReferences references)" by (rule assertReferencesAvailable_Inr)
  with good have "uses_inv now (st\<lparr>historicalReferences := AList.update k
      \<lparr>hi_id = k, hi_references = normalizeReferences references\<rparr> (historicalReferences st)\<rparr>)"
    by (intro uses_historical good_uses) simp_all
  with good show "call_ok policy now st (Inr (), bumpState (st\<lparr>historicalReferences := AList.update k
      \<lparr>hi_id = k, hi_references = normalizeReferences references\<rparr> (historicalReferences st)\<rparr>))"
    by (rule call_ok_use) (auto simp: same_content_def)
qed

lemma registerCapacityApproval_ok:
  assumes good: "good policy now st"
  shows "call_ok policy now st (registerCapacityApproval policy input st)"
  unfolding registerCapacityApproval_def Let_def
proof (rule call_ok_attempt [OF good], rule call_ok_attempt [OF good], rule call_ok_attempt [OF good], rule call_ok_attempt [OF good], rule call_ok_attempt [OF good])
  let ?st = "st\<lparr>capacityApprovals := AList.update (ca_id input)
    (input\<lparr>ca_retirementReleaseIds := unique (ca_retirementReleaseIds input)\<rparr>) (capacityApprovals st)\<rparr>"
  have "uses_inv now ?st" using good_uses [OF good] by (subst uses_same [of st]) (simp_all add: same_content_def)
  with good show "call_ok policy now st (Inr (), bumpState ?st)"
    by (rule call_ok_use) (auto simp: same_content_def)
qed

end
