(* ===== verification/ActivationRegistration.thy ===== *)
theory ActivationRegistration
  imports ActivationSteps
begin

text \<open>
  Content that is added to the state keeps the invariant, and the calls that register content.
\<close>

subsection \<open>Added content\<close>

lemma content_keeps:
  assumes content: "content_inv st" and keeps: "keeps_content st st'"
    and activations: "\<And>k a'. map_of (activations st') k = Some a' \<Longrightarrow>
      (\<exists>a t. map_of (activations st) k = Some a \<and> a' = a\<lparr>av_lastServingAt := t\<rparr>)
      \<or> (wf_jsmap (av_members a') \<and> validateActivation st' a' True = Inr ())"
    and generations: "\<And>k g'. map_of (generations st') k = Some g' \<Longrightarrow>
      (\<exists>g t. map_of (generations st) k = Some g \<and> g' = g\<lparr>ge_lastServingAt := t\<rparr>) \<or> ready_snapshot st' (ge_snapshotId g')"
  shows "content_inv st'"
  unfolding content_inv_def
proof (intro conjI allI impI)
  fix k a' assume a': "map_of (activations st') k = Some a'"
  consider a t where "map_of (activations st) k = Some a" "a' = a\<lparr>av_lastServingAt := t\<rparr>"
    | "wf_jsmap (av_members a') \<and> validateActivation st' a' True = Inr ()"
    using activations [OF a'] by blast
  then have both: "wf_jsmap (av_members a') \<and> (av_state a' = READY \<longrightarrow> validateActivation st' a' True = Inr ())"
  proof cases
    case 1
    with content have a: "wf_jsmap (av_members a)" "av_state a = READY \<longrightarrow> validateActivation st a True = Inr ()"
      unfolding content_inv_def by blast+
    then have "av_state a = READY \<longrightarrow> validateActivation st' (a\<lparr>av_lastServingAt := t\<rparr>) True = Inr ()"
      by (blast intro: validateActivation_keeps keeps_content_activation [OF keeps])
    with a 1(2) show ?thesis by simp
  qed blast
  then show "wf_jsmap (av_members a')" by blast
  show "av_state a' = READY \<Longrightarrow> validateActivation st' a' True = Inr ()" using both by blast
next
  fix k g' assume g': "map_of (generations st') k = Some g'" and ready: "ge_state g' = READY"
  consider g t where "map_of (generations st) k = Some g" "g' = g\<lparr>ge_lastServingAt := t\<rparr>" | "ready_snapshot st' (ge_snapshotId g')"
    using generations [OF g'] by blast
  then show "ready_snapshot st' (ge_snapshotId g')"
  proof cases
    case 1
    with content ready have "ready_snapshot st (ge_snapshotId g)" unfolding content_inv_def by fastforce
    with 1(2) keeps_ready(3) [OF keeps] show ?thesis by simp
  qed
qed

lemma finite_served: "finite (servedHeads st projectId heads)" "finite (servedGenerations st projectId heads k)"
proof -
  show heads: "finite (servedHeads st projectId heads)" by (simp add: servedHeads_def)
  let ?members = "\<lambda>h. case map_of (activations st) (snd h) of None \<Rightarrow> [] | Some a \<Rightarrow> av_members a"
  have "servedGenerations st projectId heads k \<subseteq> (\<Union>h\<in>servedHeads st projectId heads. (am_generationId \<circ> snd) ` set (?members h))"
    unfolding servedGenerations_def by force
  then show "finite (servedGenerations st projectId heads k)" 
    by (rule finite_subset) (intro finite_UN_I heads finite_imageI finite_set)
qed

lemma limits_subset:
  assumes limits: "within_limits policy st projectId heads" and heads: "servedHeads st' projectId heads' \<subseteq> servedHeads st projectId heads"
    and activations: "\<And>h a'. h \<in> servedHeads st' projectId heads' \<Longrightarrow> map_of (activations st') (snd h) = Some a' \<Longrightarrow>
      \<exists>a. map_of (activations st) (snd h) = Some a \<and> av_members a' = av_members a"
  shows "within_limits policy st' projectId heads'"
proof -
  have gens: "servedGenerations st' projectId heads' k \<subseteq> servedGenerations st projectId heads k" for k
  proof
    fix g assume "g \<in> servedGenerations st' projectId heads' k"
    then obtain m h a' where g: "g = am_generationId m" "h \<in> servedHeads st' projectId heads'"
      "map_of (activations st') (snd h) = Some a'" "(k, m) \<in> set (av_members a')"
      unfolding servedGenerations_def by blast
    from activations [OF g(2,3)] obtain a where "map_of (activations st) (snd h) = Some a" "av_members a' = av_members a" by blast
    moreover have "h \<in> servedHeads st projectId heads" using heads g(2) by (rule subsetD)
    ultimately show "g \<in> servedGenerations st projectId heads k" using g(1,4) unfolding servedGenerations_def by (cases h) auto
  qed
  have "card (servedHeads st' projectId heads') \<le> card (servedHeads st projectId heads)"
    by (rule card_mono [OF finite_served(1) heads])
  moreover have "card (servedGenerations st' projectId heads' k) \<le> card (servedGenerations st projectId heads k)" for k
    by (rule card_mono [OF finite_served(2) gens])
  ultimately show ?thesis using limits unfolding within_limits_def by (meson of_nat_mono order_trans)
qed

text \<open>The heads stay as they are, content is added.\<close>

lemma core_added:
  assumes core: "core_inv policy st" and keeps: "keeps_content st st'" and ids: "ids_inv st'"
    and heads: "servingHeads st' = servingHeads st" and channels: "channels st' = channels st"
    and releases: "\<And>k r. map_of (releases st) k = Some r \<Longrightarrow> map_of (releases st') k = Some r"
    and published: "\<And>k r. map_of (releases st') k = Some r \<Longrightarrow> rl_state r = Release_PUBLISHED \<Longrightarrow> map_of (releases st) k = Some r"
    and activations: "\<And>k a'. map_of (activations st') k = Some a' \<Longrightarrow>
      (\<exists>a t. map_of (activations st) k = Some a \<and> a' = a\<lparr>av_lastServingAt := t\<rparr>)
      \<or> (wf_jsmap (av_members a') \<and> validateActivation st' a' True = Inr ())"
    and generations: "\<And>k g'. map_of (generations st') k = Some g' \<Longrightarrow>
      (\<exists>g t. map_of (generations st) k = Some g \<and> g' = g\<lparr>ge_lastServingAt := t\<rparr>) \<or> ready_snapshot st' (ge_snapshotId g')"
  shows "core_inv policy st'"
proof -
  have "content_inv st'"
    by (rule content_keeps [OF _ keeps activations generations]) (use core in \<open>simp add: core_inv_def\<close>)
  moreover have "heads_inv policy st'"
    unfolding heads_inv_def heads
  proof (intro conjI allI impI)
    fix k h assume "map_of (servingHeads st) k = Some h"
    with core obtain r a where "map_of (releases st) k = Some r" "rl_state r = Release_PUBLISHED"
      "ready_activation st (sh_activationId h) a" "av_releaseId a = k" by (rule core_head)
    with releases keeps_ready(1) [OF keeps] show "\<exists>r a. map_of (releases st') k = Some r \<and> rl_state r = Release_PUBLISHED
        \<and> ready_activation st' (sh_activationId h) a \<and> av_releaseId a = k" by fastforce
  next
    fix k r assume "map_of (releases st') k = Some r" "rl_state r = Release_PUBLISHED"
    then have "map_of (releases st) k = Some r" "rl_state r = Release_PUBLISHED" using published by blast+
    with core obtain h where "map_of (servingHeads st) k = Some h" "serving_release policy r" by (rule core_published)
    then show "map_of (servingHeads st) k \<noteq> None" "serving_release policy r" by simp_all
  qed
  moreover have "channels_inv st'"
    unfolding channels_inv_def channels heads
  proof (intro allI impI)
    fix k c assume "map_of (channels st) k = Some c"
    with core obtain a h where "ready_activation st (ch_activationId c) a" "map_of (servingHeads st) (av_releaseId a) = Some h"
      "sh_activationId h = ch_activationId c" "av_projectId a = ch_projectId c" by (rule core_channel)
    with keeps_ready(1) [OF keeps] show "\<exists>a h. ready_activation st' (ch_activationId c) a
        \<and> map_of (servingHeads st) (av_releaseId a) = Some h \<and> sh_activationId h = ch_activationId c \<and> av_projectId a = ch_projectId c"
      by fastforce
  qed
  moreover have "capacity_inv policy st'"
    unfolding capacity_inv_def
  proof (intro allI)
    fix projectId
    have current: "currentHeadActivations st' = currentHeadActivations st" by (simp add: currentHeadActivations_def heads)
    have head: "\<exists>head. map_of (servingHeads st) (fst h) = Some head \<and> sh_activationId head = snd h" if "h \<in> set (currentHeadActivations st)" for h
      using that by (simp add: wf_set_iff currentHeadActivations_map_of [OF core_ids [OF core]])
    show "within_limits policy st' projectId (currentHeadActivations st')"
      unfolding current
    proof (rule limits_subset)
      show "within_limits policy st projectId (currentHeadActivations st)" using core by (simp add: core_inv_def capacity_inv_def)
      show "servedHeads st' projectId (currentHeadActivations st) \<subseteq> servedHeads st projectId (currentHeadActivations st)"
      proof
        fix h assume h: "h \<in> servedHeads st' projectId (currentHeadActivations st)"
        then obtain head where "map_of (servingHeads st) (fst h) = Some head" using head unfolding servedHeads_def by blast
        with core obtain r where "map_of (releases st) (fst h) = Some r" by (rule core_head)
        with releases h show "h \<in> servedHeads st projectId (currentHeadActivations st)" by (simp add: servedHeads_def countsFor_def)
      qed
      fix h a' assume h: "h \<in> servedHeads st' projectId (currentHeadActivations st)" and a': "map_of (activations st') (snd h) = Some a'"
      then obtain head' where h': "map_of (servingHeads st) (fst h) = Some head'" "sh_activationId head' = snd h"
        using head unfolding servedHeads_def by blast
      from core h'(1) obtain r a where "ready_activation st (sh_activationId head') a" by (rule core_head)
      with h'(2) have a: "map_of (activations st) (snd h) = Some a" by (simp add: ready_activation_def)
      with keeps obtain t where "map_of (activations st') (snd h) = Some (a\<lparr>av_lastServingAt := t\<rparr>)" by (rule keeps_activation)
      with a a' show "\<exists>a. map_of (activations st) (snd h) = Some a \<and> av_members a' = av_members a" by auto
    qed
  qed
  ultimately show ?thesis using ids by (simp add: core_inv_def)
qed

subsection \<open>Registration\<close>

lemma call_ok_added:
  assumes good: "good policy now st" and core: "core_inv policy st'" and keeps: "keeps_content st st'"
    and "queries st' = queries st" "preflightTokens st' = preflightTokens st" "jobs st' = jobs st"
      "holds st' = holds st" "historicalReferences st' = historicalReferences st" "stateRevision st' = stateRevision st"
    and releases: "\<And>k s. serves_until st k s \<Longrightarrow> serves_until st' k s \<or> s \<le> now"
  shows "call_ok policy now st (Inr x, bumpState st')" "call_ok policy now st (Inr x, bumpControl st')"
proof -
  have "uses_inv now st'" by (rule uses_keeps [OF good_uses [OF good] keeps]) (rule assms)+
  moreover have "promises_kept now st st'" by (rule promises_keeps [OF keeps]) (rule assms)+
  ultimately show "call_ok policy now st (Inr x, bumpState st')" "call_ok policy now st (Inr x, bumpControl st')"
    using core assms(9) by (simp_all add: call_ok_bump)
qed

lemma serves_until_releases: "releases st' = releases st \<Longrightarrow> serves_until st' = serves_until st"
  by (intro ext) (simp add: serves_until_def)

lemma lastServing_any [simp]: "\<exists>t. a = a\<lparr>av_lastServingAt := t\<rparr>" "\<not> (\<forall>t. a \<noteq> a\<lparr>av_lastServingAt := t\<rparr>)"
    "\<exists>t. g = g\<lparr>ge_lastServingAt := t\<rparr>" "\<not> (\<forall>t. g \<noteq> g\<lparr>ge_lastServingAt := t\<rparr>)"
proof -
  show a: "\<exists>t. a = a\<lparr>av_lastServingAt := t\<rparr>" by (rule exI [of _ "av_lastServingAt a"]) simp
  show g: "\<exists>t. g = g\<lparr>ge_lastServingAt := t\<rparr>" by (rule exI [of _ "ge_lastServingAt g"]) simp
  show "\<not> (\<forall>t. a \<noteq> a\<lparr>av_lastServingAt := t\<rparr>)" "\<not> (\<forall>t. g \<noteq> g\<lparr>ge_lastServingAt := t\<rparr>)" using a g by blast+
qed

lemma registerRelease_ok:
  assumes good: "good policy now st"
  shows "call_ok policy now st (registerRelease input st)"
  unfolding registerRelease_def
proof (rule call_ok_attempt [OF good], rule call_ok_attempt [OF good], rule call_ok_attempt [OF good])
  fix u pins assume "assertUnusedId (releases st) (ri_id input) = Inr u"
  then have new: "map_of (releases st) (ri_id input) = None" by simp
  let ?r = "\<lparr>rl_id = ri_id input, rl_projectId = ri_projectId input, rl_manifestHash = ri_manifestHash input, rl_pins = pins,
    rl_state = Release_STAGED, rl_rollbackOf = ri_rollbackOf input, rl_stagedAt = ri_stagedAt input, rl_publishedAt = None,
    rl_supportUntil = None, rl_retiredAt = None\<rparr>"
  let ?st = "st\<lparr>releases := AList.update (ri_id input) ?r (releases st)\<rparr>"
  have keeps: "keeps_content st ?st" by (rule keeps_refl) (use new in auto)
  have "core_inv policy ?st"
  proof (rule core_added [OF good_core [OF good] keeps])
    show "ids_inv ?st" using good_ids [OF good] by (simp add: ids_inv_def keyed_by_update)
  qed (use new in \<open>auto split: if_splits\<close>)
  with good show "call_ok policy now st (Inr (), bumpState ?st)" 
    by (rule call_ok_added [OF _ _ keeps]) (use new in \<open>auto simp: serves_until_def\<close>)
qed

lemma registerSnapshot_ok:
  assumes good: "good policy now st"
  shows "call_ok policy now st (registerSnapshot input st)"
  unfolding registerSnapshot_def
proof (rule call_ok_attempt [OF good])
  fix u assume "assertUnusedId (snapshots st) (si_id input) = Inr u"
  then have new: "map_of (snapshots st) (si_id input) = None" by simp
  let ?s = "\<lparr>sn_id = si_id input, sn_projectId = si_projectId input, sn_groupKey = si_groupKey input,
    sn_groupVersion = si_groupVersion input, sn_createdAt = si_createdAt input, sn_lastServingAt = None, sn_state = READY\<rparr>"
  let ?st = "st\<lparr>snapshots := AList.update (si_id input) ?s (snapshots st)\<rparr>"
  have keeps: "keeps_content st ?st" by (rule keeps_refl) (use new in auto)
  have "core_inv policy ?st"
  proof (rule core_added [OF good_core [OF good] keeps])
    show "ids_inv ?st" using good_ids [OF good] by (simp add: ids_inv_def keyed_by_update)
  qed (use new in \<open>auto split: if_splits\<close>)
  with good show "call_ok policy now st (Inr (), bumpState ?st)"
    by (rule call_ok_added [OF _ _ keeps]) (auto simp: serves_until_def)
qed

lemma registerGeneration_ok:
  assumes good: "good policy now st"
  shows "call_ok policy now st (registerGeneration input st)"
  unfolding registerGeneration_def Let_def
proof (intro call_ok_attempt [OF good])
  fix u s proofs b fingerprint assume "assertUnusedId (generations st) (gi_id input) = Inr u" and s: "requireReadySnapshot st (gi_snapshotId input) = Inr s"
  then have new: "map_of (generations st) (gi_id input) = None" by simp
  from s have ready: "ready_snapshot st (gi_snapshotId input)" using requireReadySnapshot_Inr by blast
  let ?g = "\<lparr>ge_id = gi_id input, ge_projectId = gi_projectId input, ge_memberKey = gi_memberKey input,
    ge_snapshotId = gi_snapshotId input, ge_buildReleaseId = gi_buildReleaseId input,
    ge_buildPinFingerprint = releasePinFingerprint b, ge_compatibilityByPin = proofs, ge_createdAt = gi_createdAt input,
    ge_lastServingAt = None, ge_state = READY\<rparr>"
  let ?st = "st\<lparr>generations := AList.update (gi_id input) ?g (generations st)\<rparr>"
  have keeps: "keeps_content st ?st" by (rule keeps_refl) (use new in auto)
  have "core_inv policy ?st"
  proof (rule core_added [OF good_core [OF good] keeps])
    show "ids_inv ?st" using good_ids [OF good] by (simp add: ids_inv_def keyed_by_update)
    show "(\<exists>g t. map_of (generations st) k = Some g \<and> g' = g\<lparr>ge_lastServingAt := t\<rparr>) \<or> ready_snapshot ?st (ge_snapshotId g')"
      if g': "map_of (generations ?st) k = Some g'" for k g'
    proof (cases "k = gi_id input")
      case True
      with g' ready keeps_ready(3) [OF keeps] show ?thesis by auto
    next
      case False
      with g' show ?thesis by simp
    qed
  qed auto
  with good show "call_ok policy now st (Inr (), bumpState ?st)"
    by (rule call_ok_added [OF _ _ keeps]) (auto simp: serves_until_def)
qed

lemma createActivation_ok:
  assumes good: "good policy now st" and wf: "wf_jsmap (ai_members input)"
  shows "call_ok policy now st (createActivation input st)"
  unfolding createActivation_def Let_def
proof (intro call_ok_attempt [OF good])
  fix u v r
  let ?a = "\<lparr>av_id = ai_id input, av_projectId = ai_projectId input, av_sourceChannel = ai_sourceChannel input,
    av_releaseId = ai_releaseId input, av_releaseManifestHash = rl_manifestHash r, av_members = ai_members input,
    av_createdAt = ai_createdAt input, av_lastServingAt = None, av_state = READY\<rparr>"
  let ?st = "st\<lparr>activations := AList.update (ai_id input) ?a (activations st)\<rparr>"
  assume "assertUnusedId (activations st) (ai_id input) = Inr u" and valid: "validateActivation st ?a True = Inr v"
  then have new: "map_of (activations st) (ai_id input) = None" by simp
  have keeps: "keeps_content st ?st" by (rule keeps_refl) (use new in auto)
  have "core_inv policy ?st"
  proof (rule core_added [OF good_core [OF good] keeps])
    show "ids_inv ?st" using good_ids [OF good] by (simp add: ids_inv_def keyed_by_update)
    show "(\<exists>a t. map_of (activations st) k = Some a \<and> a' = a\<lparr>av_lastServingAt := t\<rparr>)
        \<or> (wf_jsmap (av_members a') \<and> validateActivation ?st a' True = Inr ())"
      if a': "map_of (activations ?st) k = Some a'" for k a'
    proof (cases "k = ai_id input")
      case True
      with a' have "a' = ?a" by simp
      moreover have "validateActivation ?st = validateActivation st" by (rule validateActivation_cong) simp_all
      ultimately show ?thesis using valid wf by simp
    next
      case False
      with a' show ?thesis by simp
    qed
  qed auto
  with good show "call_ok policy now st (Inr (), bumpState ?st)"
    by (rule call_ok_added [OF _ _ keeps]) (auto simp: serves_until_def)
qed

end
