(* ===== verification/ActivationCutover.thy ===== *)
theory ActivationCutover
  imports ActivationRegistration
begin

text \<open>
  The three calls that move serving heads and channels: publish, refresh, retire.
\<close>

subsection \<open>When content last served\<close>

lemma updateEach_Inr:
  assumes "\<And>v. f (f v) = f v"
  shows "\<forall>k\<in>set ks. map_of m k \<noteq> None \<Longrightarrow> \<exists>m'. updateEach f ks m = (Inr (), m') \<and> (wf_jsmap m \<longrightarrow> wf_jsmap m')
    \<and> (\<forall>k. map_of m' k = (if k \<in> set ks then map_option f (map_of m k) else map_of m k))"
proof (induction ks arbitrary: m)
  case (Cons k ks)
  then obtain v where v: "map_of m k = Some v" by auto
  have "\<forall>k'\<in>set ks. map_of (AList.update k (f v) m) k' \<noteq> None" using Cons.prems by simp
  from Cons.IH [OF this] obtain m' where m': "updateEach f ks (AList.update k (f v) m) = (Inr (), m')"
    "wf_jsmap (AList.update k (f v) m) \<longrightarrow> wf_jsmap m'"
    "\<forall>i. map_of m' i = (if i \<in> set ks then map_option f (map_of (AList.update k (f v) m) i) else map_of (AList.update k (f v) m) i)"
    by (elim exE conjE)
  have "updateEach f (k # ks) m = (Inr (), m')" using v m'(1) by (simp add: requireRecord_def)
  moreover have "wf_jsmap m \<longrightarrow> wf_jsmap m'" using m'(2) by simp
  moreover have "map_of m' i = (if i \<in> set (k # ks) then map_option f (map_of m i) else map_of m i)" for i
    using m'(3) [rule_format, of i] v assms by simp
  ultimately show ?case by (intro exI [of _ m']) blast
qed simp

definition content_exists :: "ServingContent \<Rightarrow> RuntimeState \<Rightarrow> bool" where
  "content_exists c st \<longleftrightarrow> (\<forall>k\<in>set (sc_activationIds c). map_of (activations st) k \<noteq> None)
     \<and> (\<forall>k\<in>set (sc_generationIds c). map_of (generations st) k \<noteq> None)
     \<and> (\<forall>k\<in>set (sc_snapshotIds c). map_of (snapshots st) k \<noteq> None)"

lemma lost_subset [simp]: "k \<in> set (lost b n) \<longleftrightarrow> k \<in> set b \<and> k \<notin> set n"
  by (auto simp: lost_def)

lemma keyed_by_mapped:
  assumes "keyed_by f m" "wf_jsmap m'" "\<And>k. map_of m' k = (if k \<in> S then map_option g (map_of m k) else map_of m k)" "\<And>v. f (g v) = f v"
  shows "keyed_by f m'"
  unfolding keyed_by_def
proof (intro conjI allI impI)
  fix k v assume "map_of m' k = Some v"
  with assms(3) [of k] obtain w where "map_of m k = Some w" "v = w \<or> v = g w"
    by (cases "map_of m k") (auto split: if_splits)
  with keyed_by_id [OF assms(1)] assms(4) show "f v = k" by metis
qed (rule assms(2))

lemma recordServingTransitions_ok:
  assumes core: "core_inv policy st" and exists: "content_exists c st"
  shows "\<exists>a g s. recordServingTransitions c at st = (Inr (), st\<lparr>activations := a, generations := g, snapshots := s\<rparr>)
    \<and> core_inv policy (st\<lparr>activations := a, generations := g, snapshots := s\<rparr>)
    \<and> keeps_content st (st\<lparr>activations := a, generations := g, snapshots := s\<rparr>)"
proof -
  let ?now = "servingContentIds st"
  let ?A = "set (lost (sc_activationIds c) (sc_activationIds ?now))" and ?G = "set (lost (sc_generationIds c) (sc_generationIds ?now))"
    and ?S = "set (lost (sc_snapshotIds c) (sc_snapshotIds ?now))"
  let ?fa = "\<lambda>a. a\<lparr>av_lastServingAt := Some at\<rparr>" and ?fg = "\<lambda>g. g\<lparr>ge_lastServingAt := Some at\<rparr>"
    and ?fs = "\<lambda>s. s\<lparr>sn_lastServingAt := Some at\<rparr>"
  note ids = core_ids [OF core, unfolded ids_inv_def]
  have "\<forall>k\<in>?A. map_of (activations st) k \<noteq> None" "\<forall>k\<in>?G. map_of (generations st) k \<noteq> None" "\<forall>k\<in>?S. map_of (snapshots st) k \<noteq> None"
    using exists unfolding content_exists_def by auto
  note exist = this
  have "\<exists>a. updateEach ?fa (lost (sc_activationIds c) (sc_activationIds ?now)) (activations st) = (Inr (), a)
      \<and> (wf_jsmap (activations st) \<longrightarrow> wf_jsmap a)
      \<and> (\<forall>k. map_of a k = (if k \<in> ?A then map_option ?fa (map_of (activations st) k) else map_of (activations st) k))"
    by (rule updateEach_Inr [OF _ exist(1)]) simp
  then obtain a where a: "updateEach ?fa (lost (sc_activationIds c) (sc_activationIds ?now)) (activations st) = (Inr (), a)"
      "wf_jsmap (activations st) \<longrightarrow> wf_jsmap a"
      "\<forall>k. map_of a k = (if k \<in> ?A then map_option ?fa (map_of (activations st) k) else map_of (activations st) k)"
    by (elim exE conjE)
  have "\<exists>g. updateEach ?fg (lost (sc_generationIds c) (sc_generationIds ?now)) (generations st) = (Inr (), g)
      \<and> (wf_jsmap (generations st) \<longrightarrow> wf_jsmap g)
      \<and> (\<forall>k. map_of g k = (if k \<in> ?G then map_option ?fg (map_of (generations st) k) else map_of (generations st) k))"
    by (rule updateEach_Inr [OF _ exist(2)]) simp
  then obtain g where g: "updateEach ?fg (lost (sc_generationIds c) (sc_generationIds ?now)) (generations st) = (Inr (), g)"
      "wf_jsmap (generations st) \<longrightarrow> wf_jsmap g"
      "\<forall>k. map_of g k = (if k \<in> ?G then map_option ?fg (map_of (generations st) k) else map_of (generations st) k)"
    by (elim exE conjE)
  have "\<exists>s. updateEach ?fs (lost (sc_snapshotIds c) (sc_snapshotIds ?now)) (snapshots st) = (Inr (), s)
      \<and> (wf_jsmap (snapshots st) \<longrightarrow> wf_jsmap s)
      \<and> (\<forall>k. map_of s k = (if k \<in> ?S then map_option ?fs (map_of (snapshots st) k) else map_of (snapshots st) k))"
    by (rule updateEach_Inr [OF _ exist(3)]) simp
  then obtain s where s: "updateEach ?fs (lost (sc_snapshotIds c) (sc_snapshotIds ?now)) (snapshots st) = (Inr (), s)"
      "wf_jsmap (snapshots st) \<longrightarrow> wf_jsmap s"
      "\<forall>k. map_of s k = (if k \<in> ?S then map_option ?fs (map_of (snapshots st) k) else map_of (snapshots st) k)"
    by (elim exE conjE)
  let ?st = "st\<lparr>activations := a, generations := g, snapshots := s\<rparr>"
  have outcome: "recordServingTransitions c at st = (Inr (), ?st)"
    by (simp add: recordServingTransitions_def Let_def andThen_def updateActivations_def updateGenerations_def updateSnapshots_def a(1) g(1) s(1))
  have keeps: "keeps_content st ?st"
    unfolding keeps_content_def
  proof (intro conjI allI impI)
    show "map_of (snapshots st) k = Some x \<Longrightarrow> \<exists>t. map_of (snapshots ?st) k = Some (x\<lparr>sn_lastServingAt := t\<rparr>)" for k x
      by (rule exI [of _ "if k \<in> ?S then Some at else sn_lastServingAt x"]) (simp add: s(3))
    show "map_of (generations st) k = Some x \<Longrightarrow> \<exists>t. map_of (generations ?st) k = Some (x\<lparr>ge_lastServingAt := t\<rparr>)" for k x
      by (rule exI [of _ "if k \<in> ?G then Some at else ge_lastServingAt x"]) (simp add: g(3))
    show "map_of (activations st) k = Some x \<Longrightarrow> \<exists>t. map_of (activations ?st) k = Some (x\<lparr>av_lastServingAt := t\<rparr>)" for k x
      by (rule exI [of _ "if k \<in> ?A then Some at else av_lastServingAt x"]) (simp add: a(3))
  qed simp
  have "core_inv policy ?st"
  proof (rule core_added [OF core keeps])
    have "keyed_by av_id a" by (rule keyed_by_mapped [where m = "activations st" and S = ?A and g = ?fa]) (use ids a(2,3) keyed_by_wf in \<open>auto simp del: lost_subset\<close>)
    moreover have "keyed_by ge_id g" by (rule keyed_by_mapped [where m = "generations st" and S = ?G and g = ?fg]) (use ids g(2,3) keyed_by_wf in \<open>auto simp del: lost_subset\<close>)
    moreover have "keyed_by sn_id s" by (rule keyed_by_mapped [where m = "snapshots st" and S = ?S and g = ?fs]) (use ids s(2,3) keyed_by_wf in \<open>auto simp del: lost_subset\<close>)
    ultimately show "ids_inv ?st" using ids by (simp add: ids_inv_def)
    show "(\<exists>b t. map_of (activations st) k = Some b \<and> a' = b\<lparr>av_lastServingAt := t\<rparr>)
        \<or> (wf_jsmap (av_members a') \<and> validateActivation ?st a' True = Inr ())" if "map_of (activations ?st) k = Some a'" for k a'
      using that a(3) [rule_format, of k] by (auto split: if_splits)
    show "(\<exists>b t. map_of (generations st) k = Some b \<and> g' = b\<lparr>ge_lastServingAt := t\<rparr>) \<or> ready_snapshot ?st (ge_snapshotId g')"
      if "map_of (generations ?st) k = Some g'" for k g'
      using that g(3) [rule_format, of k] by (auto split: if_splits)
  qed simp_all
  with outcome keeps show ?thesis by blast
qed

lemma servingContentIds_exist:
  assumes core: "core_inv policy st"
  shows "content_exists (servingContentIds st) st"
proof -
  let ?f = "\<lambda>c head. case map_of (activations st) (sh_activationId head) of
       None \<Rightarrow> c
     | Some a \<Rightarrow> if av_state a \<noteq> READY then c
         else \<lparr>sc_activationIds = addToSet (av_id a) (sc_activationIds c),
           sc_generationIds = addAll (memberGenerations a) (sc_generationIds c),
           sc_snapshotIds = addAll (memberSnapshots a) (sc_snapshotIds c)\<rparr>"
  have step: "content_exists (?f c head) st" if "content_exists c st" for c head
  proof (cases "\<exists>a. ready_activation st (sh_activationId head) a")
    case True
    then obtain a where a: "ready_activation st (sh_activationId head) a" by blast
    with ready_activation_id [OF core_ids [OF core]] have "map_of (activations st) (av_id a) \<noteq> None" by (auto simp: ready_activation_def)
    moreover have "\<forall>k\<in>set (memberGenerations a). map_of (generations st) k \<noteq> None"
      using core_content(2) [OF core a] by (auto simp: ready_generation_def)
    moreover have "\<forall>k\<in>set (memberSnapshots a). map_of (snapshots st) k \<noteq> None"
      using core_content(3) [OF core a] by (auto simp: ready_snapshot_def)
    ultimately show ?thesis using that a by (auto simp: content_exists_def ready_activation_def)
  next
    case False
    with that show ?thesis by (auto simp: ready_activation_def split: option.split)
  qed
  have "content_exists c st \<Longrightarrow> content_exists (foldl ?f c heads) st" for c heads
    by (induction heads arbitrary: c) (simp_all add: step del: option.case_cong)
  moreover have "content_exists \<lparr>sc_activationIds = [], sc_generationIds = [], sc_snapshotIds = []\<rparr> st" by (simp add: content_exists_def)
  ultimately show ?thesis unfolding servingContentIds_def by blast
qed

lemma content_exists_keeps:
  assumes "content_exists c st" and keeps: "keeps_content st st'"
  shows "content_exists c st'"
proof -
  have "map_of (activations st) k \<noteq> None \<Longrightarrow> map_of (activations st') k \<noteq> None" for k
    using keeps_activation [OF keeps] by fastforce
  moreover have "map_of (generations st) k \<noteq> None \<Longrightarrow> map_of (generations st') k \<noteq> None" for k
    using keeps_generation [OF keeps] by fastforce
  moreover have "map_of (snapshots st) k \<noteq> None \<Longrightarrow> map_of (snapshots st') k \<noteq> None" for k
    using keeps_snapshot [OF keeps] by fastforce
  ultimately show ?thesis using assms(1) unfolding content_exists_def by blast
qed

text \<open>The end of a cutover: the writes are done, what no longer serves is noted.\<close>

lemma cutover_ok:
  assumes good: "good policy now st" and core: "core_inv policy st'" and keeps: "keeps_content st st'"
    and uses: "queries st' = queries st" "preflightTokens st' = preflightTokens st" "jobs st' = jobs st"
      "holds st' = holds st" "historicalReferences st' = historicalReferences st" "stateRevision st' = stateRevision st"
    and releases: "\<And>k s. serves_until st k s \<Longrightarrow> serves_until st' k s \<or> s \<le> now"
  shows "call_ok policy now st (andThen (recordServingTransitions (servingContentIds st) at st') (\<lambda>s. (Inr (), bumpControl s)))"
proof -
  have "content_exists (servingContentIds st) st'"
    by (rule content_exists_keeps [OF servingContentIds_exist [OF good_core [OF good]] keeps])
  from recordServingTransitions_ok [OF core this, of at] obtain a g s where
    rec: "recordServingTransitions (servingContentIds st) at st' = (Inr (), st'\<lparr>activations := a, generations := g, snapshots := s\<rparr>)"
    and core': "core_inv policy (st'\<lparr>activations := a, generations := g, snapshots := s\<rparr>)"
    and keeps': "keeps_content st' (st'\<lparr>activations := a, generations := g, snapshots := s\<rparr>)" by blast
  have "serves_until (st'\<lparr>activations := a, generations := g, snapshots := s\<rparr>) = serves_until st'"
    by (rule serves_until_releases) simp
  with releases have "serves_until (st'\<lparr>activations := a, generations := g, snapshots := s\<rparr>) k u \<or> u \<le> now" if "serves_until st k u" for k u
    using that by simp
  with uses have "call_ok policy now st (Inr (), bumpControl (st'\<lparr>activations := a, generations := g, snapshots := s\<rparr>))"
    by (intro call_ok_added(2) [OF good core' keeps_trans [OF keeps keeps']]) simp_all
  then show ?thesis by (simp add: rec andThen_def)
qed

subsection \<open>Capacity after a cutover\<close>

lemma assertCapacity_limits:
  assumes check: "assertCapacity policy st projectId heads at approval = Inr u" and wf: "wf_jsmap heads"
    and exists: "\<forall>h\<in>servedHeads st projectId heads. map_of (activations st) (snd h) \<noteq> None"
    and policy: "0 \<le> hardMaxServingGenerationsPerMember policy"
  shows "within_limits policy st projectId heads"
proof -
  from check [unfolded assertCapacity_def rbind_eq_Inr_iff guard_eq_Inr_iff]
  obtain c where c: "capacityForHeads st projectId heads = Inr c"
    and guard: "\<not> (cs_servingReleases c > hardMaxServingReleases policy
      \<or> list_ex (\<lambda>(k, n). n > hardMaxServingGenerationsPerMember policy) (cs_generationsPerMember c))"
    by (elim exE conjE)
  from capacityForHeads_Inr [OF exists wf_distinct [OF wf]] c
  have n: "cs_servingReleases c = int (card (servedHeads st projectId heads))"
    and gens: "\<And>k. servedGenerations st projectId heads k \<noteq> {} \<Longrightarrow>
      (k, int (card (servedGenerations st projectId heads k))) \<in> set (cs_generationsPerMember c)" by auto
  have "int (card (servedGenerations st projectId heads k)) \<le> hardMaxServingGenerationsPerMember policy" for k
  proof (cases "servedGenerations st projectId heads k = {}")
    case False
    from gens [OF this] guard show ?thesis unfolding list_ex_iff by fastforce
  qed (simp add: policy)
  with guard n show ?thesis unfolding within_limits_def by simp
qed

lemma capacity_moved:
  assumes core: "core_inv policy st" and limits: "within_limits policy st projectId heads"
    and heads: "set (currentHeadActivations st') \<subseteq> set heads"
    and counts: "\<And>p k. countsFor st' p k \<Longrightarrow> countsFor st p k"
    and others: "\<And>h p. h \<in> set heads \<Longrightarrow> countsFor st p (fst h) \<Longrightarrow> p \<noteq> projectId \<Longrightarrow> h \<in> set (currentHeadActivations st)"
    and activations: "activations st' = activations st"
  shows "capacity_inv policy st'"
  unfolding capacity_inv_def
proof
  fix p
  have subset: "servedHeads st' p (currentHeadActivations st') \<subseteq> servedHeads st p heads"
    unfolding servedHeads_def using heads counts by blast
  show "within_limits policy st' p (currentHeadActivations st')"
  proof (cases "p = projectId")
    case True
    from True limits have "within_limits policy st p heads" by simp
    then show ?thesis by (rule limits_subset [OF _ subset]) (simp add: activations)
  next
    case False
    then have "servedHeads st p heads \<subseteq> servedHeads st p (currentHeadActivations st)"
      unfolding servedHeads_def using others by blast
    with subset have subset: "servedHeads st' p (currentHeadActivations st') \<subseteq> servedHeads st p (currentHeadActivations st)" by simp
    have "within_limits policy st p (currentHeadActivations st)" using core by (simp add: core_inv_def capacity_inv_def)
    then show ?thesis by (rule limits_subset [OF _ subset]) (simp add: activations)
  qed
qed

lemma head_exists:
  assumes core: "core_inv policy st" and h: "h \<in> set (currentHeadActivations st)"
  shows "map_of (activations st) (snd h) \<noteq> None"
proof -
  from h obtain head where head: "map_of (servingHeads st) (fst h) = Some head" "sh_activationId head = snd h"
    by (auto simp: wf_set_iff currentHeadActivations_map_of [OF core_ids [OF core]])
  from core head(1) obtain r a where "ready_activation st (sh_activationId head) a" by (rule core_head)
  with head(2) show ?thesis by (simp add: ready_activation_def)
qed

lemma ready_activation_ex: "ready_activation st k a \<Longrightarrow> map_of (activations st) k \<noteq> None"
  by (simp add: ready_activation_def)

subsection \<open>Publish\<close>

text \<open>An activation stays ready when activations stay as they are.\<close>

lemma content_same:
  assumes core: "core_inv policy st" and keeps: "keeps_content st st'"
    and same: "activations st' = activations st" "generations st' = generations st"
  shows "content_inv st'"
proof (rule content_keeps [OF _ keeps])
  show "content_inv st" using core by (simp add: core_inv_def)
qed (simp_all add: same)

lemma publishWrites_keeps:
  assumes "map_of (releases st) (pb_releaseId input) = Some r" "rl_state r = Release_STAGED"
  shows "keeps_content st (publishWrites input r a s st)"
proof -
  let ?st = "publishWrites input r a s st"
  have "keeps_content st (st\<lparr>servingHeads := servingHeads ?st, channels := channels ?st\<rparr>)" by (rule keeps_refl) simp_all
  moreover have "same_release r (publishedRelease (pb_at input) s r)" by (simp add: same_release_def publishedRelease_def)
  ultimately show ?thesis using assms(1) unfolding keeps_content_def publishWrites_def by auto
qed

lemma publishWrites_core:
  assumes core: "core_inv policy st" and r: "map_of (releases st) (pb_releaseId input) = Some r" "rl_state r = Release_STAGED"
    and a: "ready_activation st (av_id a) a" "av_releaseId a = pb_releaseId input" "av_projectId a = rl_projectId r"
    and s: "s - pb_at input \<ge> minimumReleaseSupportMs policy"
    and limits: "within_limits policy st (rl_projectId r) (AList.update (rl_id r) (av_id a) (currentHeadActivations st))"
  shows "core_inv policy (publishWrites input r a s st)"
proof -
  let ?st = "publishWrites input r a s st"
  let ?k = "pb_releaseId input"
  note ids = core_ids [OF core]
  have id: "rl_id r = ?k" by (rule release_id [OF ids r(1)])
  have fields: "releases ?st = AList.update ?k (publishedRelease (pb_at input) s r) (releases st)"
      "servingHeads ?st = AList.update ?k \<lparr>sh_releaseId = ?k, sh_activationId = av_id a, sh_updatedAt = pb_at input\<rparr> (servingHeads st)"
      "channels ?st = AList.update (channelKey (rl_projectId r) (pb_channel input)) \<lparr>ch_projectId = rl_projectId r, ch_channel = pb_channel input,
          ch_activationId = av_id a, ch_updatedAt = pb_at input\<rparr> (channels st)"
      "activations ?st = activations st" "generations ?st = generations st" "snapshots ?st = snapshots st"
    by (simp_all add: publishWrites_def id)
  have ready: "ready_activation ?st i b = ready_activation st i b" for i b by (simp add: ready_activation_def fields)
  have published: "rl_state (publishedRelease (pb_at input) s r) = Release_PUBLISHED" "serving_release policy (publishedRelease (pb_at input) s r)"
    "rl_id (publishedRelease (pb_at input) s r) = rl_id r" "rl_projectId (publishedRelease (pb_at input) s r) = rl_projectId r"
    using s by (simp_all add: publishedRelease_def serving_release_def)
  have no_head: "map_of (servingHeads st) ?k = None"
  proof (rule ccontr)
    assume "map_of (servingHeads st) ?k \<noteq> None"
    then obtain h where "map_of (servingHeads st) ?k = Some h" by blast
    with core show False by (rule core_head) (use r in simp)
  qed
  have ids': "ids_inv ?st"
    using ids id unfolding ids_inv_def fields by (simp add: keyed_by_update published)
  moreover have "content_inv ?st"
    by (rule content_same [OF core publishWrites_keeps [OF r]]) (rule fields)+
  moreover have "heads_inv policy ?st"
    unfolding heads_inv_def
  proof (intro conjI allI impI)
    fix i h assume h: "map_of (servingHeads ?st) i = Some h"
    show "\<exists>r a. map_of (releases ?st) i = Some r \<and> rl_state r = Release_PUBLISHED \<and> ready_activation ?st (sh_activationId h) a \<and> av_releaseId a = i"
    proof (cases "i = ?k")
      case True
      with h have "sh_activationId h = av_id a" by (auto simp: fields)
      with True a published(1) show ?thesis by (auto simp: fields(1) ready)
    next
      case False
      with h have "map_of (servingHeads st) i = Some h" by (simp add: fields)
      with core obtain r' b where "map_of (releases st) i = Some r'" "rl_state r' = Release_PUBLISHED"
        "ready_activation st (sh_activationId h) b" "av_releaseId b = i" by (rule core_head)
      with False show ?thesis by (auto simp: fields(1) ready)
    qed
  next
    fix i q assume q: "map_of (releases ?st) i = Some q" "rl_state q = Release_PUBLISHED"
    have both: "map_of (servingHeads ?st) i \<noteq> None \<and> serving_release policy q"
    proof (cases "i = ?k")
      case True
      with q published(2) show ?thesis by (auto simp: fields)
    next
      case False
      with q have "map_of (releases st) i = Some q" by (simp add: fields)
      from core this q(2) show ?thesis by (rule core_published) (use False in \<open>simp add: fields\<close>)
    qed
    then show "map_of (servingHeads ?st) i \<noteq> None" "serving_release policy q" by blast+
  qed
  moreover have "channels_inv ?st"
    unfolding channels_inv_def
  proof (intro allI impI)
    fix i c assume c: "map_of (channels ?st) i = Some c"
    show "\<exists>b h. ready_activation ?st (ch_activationId c) b \<and> map_of (servingHeads ?st) (av_releaseId b) = Some h
        \<and> sh_activationId h = ch_activationId c \<and> av_projectId b = ch_projectId c"
    proof (cases "i = channelKey (rl_projectId r) (pb_channel input)")
      case True
      with c have "ch_activationId c = av_id a" "ch_projectId c = rl_projectId r" by (auto simp: fields)
      with a show ?thesis by (auto simp: ready fields(2))
    next
      case False
      with c have "map_of (channels st) i = Some c" by (simp add: fields)
      with core obtain b h where b: "ready_activation st (ch_activationId c) b" "map_of (servingHeads st) (av_releaseId b) = Some h"
        "sh_activationId h = ch_activationId c" "av_projectId b = ch_projectId c" by (rule core_channel)
      with no_head have "av_releaseId b \<noteq> ?k" by auto
      with b show ?thesis by (auto simp: ready fields(2))
    qed
  qed
  moreover have "capacity_inv policy ?st"
  proof (rule capacity_moved [OF core limits])
    show "set (currentHeadActivations ?st) \<subseteq> set (AList.update (rl_id r) (av_id a) (currentHeadActivations st))"
    proof
      fix h assume "h \<in> set (currentHeadActivations ?st)"
      then have "map_option sh_activationId (map_of (servingHeads ?st) (fst h)) = Some (snd h)"
        by (simp add: wf_set_iff currentHeadActivations_map_of [OF ids'])
      then have "map_of (AList.update (rl_id r) (av_id a) (currentHeadActivations st)) (fst h) = Some (snd h)"
        by (auto simp: fields(2) id currentHeadActivations_map_of [OF ids])
      then show "h \<in> set (AList.update (rl_id r) (av_id a) (currentHeadActivations st))" by (simp add: wf_set_iff)
    qed
    show "countsFor ?st p i \<Longrightarrow> countsFor st p i" for p i
      using r published(4) by (cases "i = ?k") (simp_all add: countsFor_def fields(1))
    show "h \<in> set (currentHeadActivations st)"
      if "h \<in> set (AList.update (rl_id r) (av_id a) (currentHeadActivations st))" "countsFor st p (fst h)" "p \<noteq> rl_projectId r" for h p
      using that r by (auto simp: wf_set_iff id countsFor_def split: if_splits)
  qed (rule fields)
  ultimately show ?thesis by (simp add: core_inv_def)
qed

lemma servedHeads_exists:
  assumes core: "core_inv policy st" and heads: "\<And>h. h \<in> set heads \<Longrightarrow> h \<in> set (currentHeadActivations st) \<or> map_of (activations st) (snd h) \<noteq> None"
  shows "\<forall>h\<in>servedHeads st projectId heads. map_of (activations st) (snd h) \<noteq> None"
  using heads head_exists [OF core] unfolding servedHeads_def by blast

lemma publish_ok:
  assumes good: "good policy now st" and policy: "0 \<le> hardMaxServingGenerationsPerMember policy"
  shows "call_ok policy now st (publish policy input st)"
  unfolding publish_def Let_def
proof (intro call_ok_attempt [OF good])
  fix r :: ReleaseRecord and a :: ActivationRecord and u1 u2 u3 u4
  let ?s = "case pb_supportUntil input of None \<Rightarrow> pb_at input + minimumReleaseSupportMs policy | Some t \<Rightarrow> t"
  let ?heads = "AList.update (rl_id r) (av_id a) (currentHeadActivations st)"
  assume "requireRecord (releases st) (pb_releaseId input) = Inr r" "guard (\<not> rl_state r \<noteq> Release_STAGED) INVALID_STATE = Inr u1"
  then have r: "map_of (releases st) (pb_releaseId input) = Some r" "rl_state r = Release_STAGED" by simp_all
  assume "requireReadyActivation st (pb_activationId input) = Inr a" "bindsRelease a r = Inr u2"
  with ready_activation_id [OF good_ids [OF good]] release_id [OF good_ids [OF good] r(1)]
  have a: "ready_activation st (av_id a) a" "av_releaseId a = pb_releaseId input" "av_projectId a = rl_projectId r"
    by (auto simp: bindsRelease_def)
  assume "guard (\<not> ?s < pb_at input + minimumReleaseSupportMs policy) INVALID_STATE = Inr u3"
  then have s: "?s - pb_at input \<ge> minimumReleaseSupportMs policy" by simp
  have "h \<in> set ?heads \<Longrightarrow> h \<in> set (currentHeadActivations st) \<or> map_of (activations st) (snd h) \<noteq> None" for h
    using ready_activation_ex [OF a(1)] by (auto simp: wf_set_iff split: if_splits)
  note exists = servedHeads_exists [OF good_core [OF good] this]
  assume "assertCapacity policy st (rl_projectId r) ?heads (pb_at input) (pb_capacityApprovalId input) = Inr u4"
  from assertCapacity_limits [OF this _ exists policy] have limits: "within_limits policy st (rl_projectId r) ?heads" by simp
  show "call_ok policy now st (andThen (recordServingTransitions (servingContentIds st) (pb_at input)
      (publishWrites input r a ?s st)) (\<lambda>st. (Inr (), bumpControl st)))"
  proof (rule cutover_ok [OF good publishWrites_core [OF good_core [OF good] r a s limits] publishWrites_keeps [OF r]])
    fix k t assume "serves_until st k t"
    with r show "serves_until (publishWrites input r a ?s st) k t \<or> t \<le> now"
      by (auto simp: serves_until_def publishWrites_def)
  qed (simp_all add: publishWrites_def)
qed

end
