(* ===== verification/ActivationRefresh.thy ===== *)
theory ActivationRefresh
  imports ActivationCutover
begin

text \<open>
  Retiring a release, and refreshing the heads of serving releases and the channels that follow them.
\<close>

subsection \<open>Retire\<close>

lemma retired_keeps:
  assumes "map_of (releases st) k = Some r" "rl_state r = Release_PUBLISHED"
  shows "keeps_content st (st\<lparr>servingHeads := AList.delete k (servingHeads st),
    releases := AList.update k (r\<lparr>rl_state := Release_RETIRED, rl_retiredAt := Some at\<rparr>) (releases st)\<rparr>)"
proof -
  have "keeps_content st (st\<lparr>servingHeads := AList.delete k (servingHeads st)\<rparr>)" by (rule keeps_refl) simp_all
  moreover have "same_release r (r\<lparr>rl_state := Release_RETIRED, rl_retiredAt := Some at\<rparr>)" by (simp add: same_release_def)
  ultimately show ?thesis using assms(1) unfolding keeps_content_def by auto
qed

lemma retired_core:
  assumes core: "core_inv policy st" and r: "map_of (releases st) k = Some r" "rl_state r = Release_PUBLISHED"
    and channels: "\<And>i c a. map_of (channels st) i = Some c \<Longrightarrow> ready_activation st (ch_activationId c) a \<Longrightarrow> av_releaseId a \<noteq> k"
  shows "core_inv policy (st\<lparr>servingHeads := AList.delete k (servingHeads st),
    releases := AList.update k (r\<lparr>rl_state := Release_RETIRED, rl_retiredAt := Some at\<rparr>) (releases st)\<rparr>)"
proof -
  let ?r = "r\<lparr>rl_state := Release_RETIRED, rl_retiredAt := Some at\<rparr>"
  let ?st = "st\<lparr>servingHeads := AList.delete k (servingHeads st), releases := AList.update k ?r (releases st)\<rparr>"
  note ids = core_ids [OF core]
  have id: "rl_id r = k" by (rule release_id [OF ids r(1)])
  have ready: "ready_activation ?st i b = ready_activation st i b" for i b by (simp add: ready_activation_def)
  have ids': "ids_inv ?st"
    using ids id unfolding ids_inv_def by (simp add: keyed_by_update keyed_by_delete)
  moreover have "content_inv ?st"
    by (rule content_same [OF core retired_keeps [OF r]]) simp_all
  moreover have "heads_inv policy ?st"
    unfolding heads_inv_def
  proof (intro conjI allI impI)
    fix i h assume "map_of (servingHeads ?st) i = Some h"
    then have h: "map_of (servingHeads st) i = Some h" and "i \<noteq> k" by (auto simp: map_of_delete_iff split: if_splits)
    from core h obtain r' b where "map_of (releases st) i = Some r'" "rl_state r' = Release_PUBLISHED"
      "ready_activation st (sh_activationId h) b" "av_releaseId b = i" by (rule core_head)
    with \<open>i \<noteq> k\<close> show "\<exists>r a. map_of (releases ?st) i = Some r \<and> rl_state r = Release_PUBLISHED
        \<and> ready_activation ?st (sh_activationId h) a \<and> av_releaseId a = i" by (auto simp: ready)
  next
    fix i q assume q: "map_of (releases ?st) i = Some q" "rl_state q = Release_PUBLISHED"
    then have "i \<noteq> k" by auto
    with q have "map_of (releases st) i = Some q" by simp
    from core this q(2) obtain h where "map_of (servingHeads st) i = Some h" "serving_release policy q" by (rule core_published)
    with \<open>i \<noteq> k\<close> show "map_of (servingHeads ?st) i \<noteq> None" "serving_release policy q" by (simp_all add: map_of_delete_iff)
  qed
  moreover have "channels_inv ?st"
    unfolding channels_inv_def
  proof (intro allI impI)
    fix i c assume "map_of (channels ?st) i = Some c"
    then have c: "map_of (channels st) i = Some c" by simp
    with core obtain b h where b: "ready_activation st (ch_activationId c) b" "map_of (servingHeads st) (av_releaseId b) = Some h"
      "sh_activationId h = ch_activationId c" "av_projectId b = ch_projectId c" by (rule core_channel)
    with channels [OF c b(1)] show "\<exists>b h. ready_activation ?st (ch_activationId c) b \<and> map_of (servingHeads ?st) (av_releaseId b) = Some h
        \<and> sh_activationId h = ch_activationId c \<and> av_projectId b = ch_projectId c" by (auto simp: ready map_of_delete_iff)
  qed
  moreover have "capacity_inv policy ?st"
  proof (rule capacity_moved [OF core])
    show "within_limits policy st (rl_projectId r) (currentHeadActivations st)" using core by (simp add: core_inv_def capacity_inv_def)
    show "set (currentHeadActivations ?st) \<subseteq> set (currentHeadActivations st)"
      by (auto simp: wf_set_iff currentHeadActivations_map_of [OF ids'] currentHeadActivations_map_of [OF ids] map_of_delete_iff split: if_splits)
    show "countsFor ?st p i \<Longrightarrow> countsFor st p i" for p i
      using r by (cases "i = k") (simp_all add: countsFor_def)
  qed simp_all
  ultimately show ?thesis by (simp add: core_inv_def)
qed

lemma retireRelease_ok:
  assumes good: "good policy now st" and "at \<le> now"
  shows "call_ok policy now st (retireRelease k expected at st)"
  unfolding retireRelease_def
proof (rule call_ok_attempt [OF good], rule call_ok_attempt [OF good])
  fix u and r :: ReleaseRecord assume "requireRecord (releases st) k = Inr r"
  then have r: "map_of (releases st) k = Some r" by simp
  show "call_ok policy now st (case (rl_state r, rl_supportUntil r) of
       (Release_PUBLISHED, Some supportUntil) \<Rightarrow>
         attempt st (guard (\<not> at < supportUntil) SUPPORT_WINDOW_ACTIVE) (\<lambda>_.
         attempt st (checkAll (notPointedAt st k) (map_values (channels st))) (\<lambda>_.
         let st1 = st\<lparr>servingHeads := AList.delete k (servingHeads st),
               releases := AList.update k (r\<lparr>rl_state := Release_RETIRED, rl_retiredAt := Some at\<rparr>) (releases st)\<rparr> in
         andThen (recordServingTransitions (servingContentIds st) at st1) (\<lambda>st2.
         (Inr (), bumpControl st2))))
     | _ \<Rightarrow> (Inl RELEASE_NOT_SERVING, st))"
  proof (cases "\<exists>s. rl_state r = Release_PUBLISHED \<and> rl_supportUntil r = Some s")
    case False
    then have "(case (rl_state r, rl_supportUntil r) of (Release_PUBLISHED, Some supportUntil) \<Rightarrow> f supportUntil | _ \<Rightarrow> g) = g" for f and g :: "unit runtime_outcome"
      by (auto split: ReleaseState.split option.split)
    then show ?thesis by (simp only: call_ok_same [OF good])
  next
    case True
    then obtain s where s: "rl_state r = Release_PUBLISHED" "rl_supportUntil r = Some s" by blast
    let ?st = "st\<lparr>servingHeads := AList.delete k (servingHeads st),
               releases := AList.update k (r\<lparr>rl_state := Release_RETIRED, rl_retiredAt := Some at\<rparr>) (releases st)\<rparr>"
    have "call_ok policy now st (attempt st (guard (\<not> at < s) SUPPORT_WINDOW_ACTIVE) (\<lambda>_.
        attempt st (checkAll (notPointedAt st k) (map_values (channels st))) (\<lambda>_.
        andThen (recordServingTransitions (servingContentIds st) at ?st) (\<lambda>st2. (Inr (), bumpControl st2)))))"
    proof (rule call_ok_attempt [OF good], rule call_ok_attempt [OF good])
      fix u v assume window: "guard (\<not> at < s) SUPPORT_WINDOW_ACTIVE = Inr u"
        and free: "checkAll (notPointedAt st k) (map_values (channels st)) = Inr v"
      have "av_releaseId a \<noteq> k" if c: "map_of (channels st) i = Some c" "ready_activation st (ch_activationId c) a" for i c a
      proof -
        from free in_values [OF c(1)] obtain w where "notPointedAt st k c = Inr w" by fastforce
        with c(2) show ?thesis by (auto simp: notPointedAt_def ready_activation_def)
      qed
      note core = retired_core [OF good_core [OF good] r s(1) this, where at = at]
      show "call_ok policy now st (andThen (recordServingTransitions (servingContentIds st) at ?st) (\<lambda>st2. (Inr (), bumpControl st2)))"
      proof (rule cutover_ok [OF good core retired_keeps [OF r s(1)]])
        fix i t assume "serves_until st i t"
        with r s window \<open>at \<le> now\<close> show "serves_until ?st i t \<or> t \<le> now" by (auto simp: serves_until_def)
      qed simp_all
    qed
    with s show ?thesis by (simp add: Let_def)
  qed
qed

subsection \<open>Refresh\<close>

lemma foldl_update:
  assumes "wf_jsmap xs"
  shows "map_of (foldl (\<lambda>m (k, v). AList.update k (f k v) m) m xs) k = (case map_of xs k of None \<Rightarrow> map_of m k | Some v \<Rightarrow> Some (f k v))"
    and "wf_jsmap m \<Longrightarrow> wf_jsmap (foldl (\<lambda>m (k, v). AList.update k (f k v) m) m xs)"
proof -
  show "wf_jsmap m \<Longrightarrow> wf_jsmap (foldl (\<lambda>m (k, v). AList.update k (f k v) m) m xs)"
    by (induction xs arbitrary: m) (auto split: prod.split)
  show "map_of (foldl (\<lambda>m (k, v). AList.update k (f k v) m) m xs) k = (case map_of xs k of None \<Rightarrow> map_of m k | Some v \<Rightarrow> Some (f k v))"
    using assms
  proof (induction xs arbitrary: m)
    case (Cons x xs)
    obtain i v where x: "x = (i, v)" by fastforce
    with Cons.prems have "wf_jsmap xs" "map_of xs i = None" by (auto simp: wf_jsmap_def map_of_eq_None_iff)
    with Cons.IH [of "AList.update i (f i v) m"] show ?case by (cases "map_of xs k") (auto simp: x)
  qed simp
qed

definition replacements_ok :: "RuntimeState \<Rightarrow> jsstring option \<Rightarrow> (jsstring, jsstring) jsmap \<Rightarrow> bool" where
  "replacements_ok st projectId rep \<longleftrightarrow> wf_jsmap rep \<and> (\<forall>k i. map_of rep k = Some i \<longrightarrow>
     (\<exists>r a. map_of (releases st) k = Some r \<and> rl_state r = Release_PUBLISHED \<and> ready_activation st i a \<and> av_releaseId a = k
        \<and> av_projectId a = rl_projectId r \<and> projectId = Some (rl_projectId r)))"

lemma checkReplacement_ok:
  assumes ids: "ids_inv st" and ok: "replacements_ok st projectId rep"
    and check: "checkReplacement st (projectId, rep) (k, i) = Inr (projectId', rep')"
  shows "replacements_ok st projectId' rep'"
proof -
  from check obtain r a where r: "map_of (releases st) k = Some r" "rl_state r = Release_PUBLISHED"
    and a: "ready_activation st i a" "av_releaseId a = rl_id r" "av_projectId a = rl_projectId r"
    and project: "projectId = None \<or> projectId = Some (rl_projectId r)"
    and result: "projectId' = Some (rl_projectId r)" "rep' = AList.update (rl_id r) (av_id a) rep"
    by (auto simp: checkReplacement_def bindsRelease_def)
  have id: "rl_id r = k" by (rule release_id [OF ids r(1)])
  have "av_id a = i" by (rule ready_activation_id [OF ids a(1)])
  note new = r a this id
  show ?thesis
    unfolding replacements_ok_def result
  proof (intro conjI allI impI)
    show "wf_jsmap (AList.update (rl_id r) (av_id a) rep)" using ok by (simp add: replacements_ok_def)
    fix k' i' assume k': "map_of (AList.update (rl_id r) (av_id a) rep) k' = Some i'"
    show "\<exists>r' a. map_of (releases st) k' = Some r' \<and> rl_state r' = Release_PUBLISHED \<and> ready_activation st i' a \<and> av_releaseId a = k'
        \<and> av_projectId a = rl_projectId r' \<and> Some (rl_projectId r) = Some (rl_projectId r')"
    proof (cases "k' = k")
      case True
      with k' new show ?thesis by auto
    next
      case False
      with k' id have "map_of rep k' = Some i'" by simp
      with ok obtain r' a' where old: "map_of (releases st) k' = Some r'" "rl_state r' = Release_PUBLISHED" "ready_activation st i' a'"
        "av_releaseId a' = k'" "av_projectId a' = rl_projectId r'" "projectId = Some (rl_projectId r')"
        unfolding replacements_ok_def by blast
      with project have "rl_projectId r = rl_projectId r'" by auto
      with old show ?thesis by auto
    qed
  qed
qed

lemma checkReplacements_ok:
  assumes ids: "ids_inv st"
  shows "replacements_ok st projectId rep \<Longrightarrow> checkReplacements st (projectId, rep) rs = Inr (projectId', rep') \<Longrightarrow>
    replacements_ok st projectId' rep'"
proof (induction rs arbitrary: projectId rep)
  case (Cons x rs)
  obtain k i where x: "x = (k, i)" by fastforce
  from Cons.prems(2) obtain p q where first: "checkReplacement st (projectId, rep) (k, i) = Inr (p, q)"
    and rest: "checkReplacements st (p, q) rs = Inr (projectId', rep')" by (auto simp: x)
  show ?case by (rule Cons.IH [OF checkReplacement_ok [OF ids Cons.prems(1) first] rest])
qed simp

text \<open>A channel follows the release its activation binds.\<close>

definition moved :: "RuntimeState \<Rightarrow> (jsstring, jsstring) jsmap \<Rightarrow> int \<Rightarrow> ChannelPointer \<Rightarrow> ChannelPointer" where
  "moved st rep at c = (case map_of (activations st) (ch_activationId c) of
       None \<Rightarrow> c
     | Some a \<Rightarrow> (case map_of rep (av_releaseId a) of None \<Rightarrow> c | Some i \<Rightarrow> c\<lparr>ch_activationId := i, ch_updatedAt := at\<rparr>))"

lemma moveChannels_Inr:
  assumes "\<forall>k\<in>set ks. \<exists>c a. map_of (channels st) k = Some c \<and> ready_activation st (ch_activationId c) a" "distinct ks"
  shows "\<exists>m. moveChannels rep at ks st = (Inr (), st\<lparr>channels := m\<rparr>) \<and> (wf_jsmap (channels st) \<longrightarrow> wf_jsmap m)
    \<and> (\<forall>k. map_of m k = (if k \<in> set ks then map_option (moved st rep at) (map_of (channels st) k) else map_of (channels st) k))"
  using assms
proof (induction ks arbitrary: st)
  case Nil
  show ?case by (rule exI [of _ "channels st"]) simp
next
  case (Cons k ks)
  then obtain c a where c: "map_of (channels st) k = Some c" and a: "ready_activation st (ch_activationId c) a" by auto
  let ?st = "st\<lparr>channels := AList.update k (moved st rep at c) (channels st)\<rparr>"
  have step: "moveChannels rep at (k # ks) st = moveChannels rep at ks ?st"
  proof -
    have ready: "requireReadyActivation st (ch_activationId c) = Inr a" using a by simp
    have "map_of (activations st) (ch_activationId c) = Some a" using a by (simp add: ready_activation_def)
    then show ?thesis using c by (simp add: requireRecord_def moved_def ready update_same split: option.split)
  qed
  have "\<forall>k'\<in>set ks. \<exists>c a. map_of (channels ?st) k' = Some c \<and> ready_activation ?st (ch_activationId c) a"
    using Cons.prems by (auto simp: ready_activation_def)
  from Cons.IH [OF this] Cons.prems(2) obtain m where m: "moveChannels rep at ks ?st = (Inr (), ?st\<lparr>channels := m\<rparr>)"
      "wf_jsmap (channels ?st) \<longrightarrow> wf_jsmap m"
      "\<forall>i. map_of m i = (if i \<in> set ks then map_option (moved ?st rep at) (map_of (channels ?st) i) else map_of (channels ?st) i)"
    by auto
  have same: "moved ?st rep at = moved st rep at" by (rule ext) (simp add: moved_def)
  show ?case
  proof (rule exI [of _ m], intro conjI allI)
    show "moveChannels rep at (k # ks) st = (Inr (), st\<lparr>channels := m\<rparr>)" using step m(1) by simp
    show "wf_jsmap (channels st) \<longrightarrow> wf_jsmap m" using m(2) by simp
    show "map_of m i = (if i \<in> set (k # ks) then map_option (moved st rep at) (map_of (channels st) i) else map_of (channels st) i)" for i
      using m(3) [rule_format, of i] c Cons.prems(2) by (auto simp: same)
  qed
qed

lemma refreshed_core:
  assumes core: "core_inv policy st" and ok: "replacements_ok st (Some projectId) rep"
    and H: "wf_jsmap H" "\<And>k. map_of H k = (case map_of rep k of None \<Rightarrow> map_of (servingHeads st) k
        | Some i \<Rightarrow> Some \<lparr>sh_releaseId = k, sh_activationId = i, sh_updatedAt = at\<rparr>)"
    and C: "wf_jsmap C" "\<And>k. map_of C k = map_option (moved st rep at) (map_of (channels st) k)"
    and limits: "within_limits policy st projectId heads" and heads: "\<And>k. map_of heads k = (case map_of rep k of
        None \<Rightarrow> map_of (currentHeadActivations st) k | Some i \<Rightarrow> Some i)" "wf_jsmap heads"
  shows "core_inv policy (st\<lparr>servingHeads := H, channels := C\<rparr>)"
proof -
  let ?st = "st\<lparr>servingHeads := H, channels := C\<rparr>"
  note ids = core_ids [OF core]
  have ready: "ready_activation ?st i b = ready_activation st i b" for i b by (simp add: ready_activation_def)
  have replaced: "\<exists>r a. map_of (releases st) k = Some r \<and> rl_state r = Release_PUBLISHED \<and> ready_activation st i a \<and> av_releaseId a = k
        \<and> av_projectId a = rl_projectId r \<and> projectId = rl_projectId r" if "map_of rep k = Some i" for k i
    using ok that unfolding replacements_ok_def by blast
  have "keyed_by sh_releaseId H"
    unfolding keyed_by_def
  proof (intro conjI allI impI)
    fix k h assume "map_of H k = Some h"
    with H(2) [of k] keyed_by_id [of sh_releaseId "servingHeads st" k h] ids show "sh_releaseId h = k"
      by (auto simp: ids_inv_def split: option.splits)
  qed (rule H)
  moreover have "keyed_by (\<lambda>c. channelKey (ch_projectId c) (ch_channel c)) C"
  proof (rule keyed_by_mapped [where m = "channels st" and S = UNIV and g = "moved st rep at"])
    show "channelKey (ch_projectId (moved st rep at c)) (ch_channel (moved st rep at c)) = channelKey (ch_projectId c) (ch_channel c)" for c
      by (simp add: moved_def split: option.split)
  qed (use ids C in \<open>simp_all add: ids_inv_def\<close>)
  ultimately have ids': "ids_inv ?st" using ids by (simp add: ids_inv_def)
  moreover have "content_inv ?st"
    by (rule content_same [OF core keeps_refl]) simp_all
  moreover have "heads_inv policy ?st"
    unfolding heads_inv_def
  proof (intro conjI allI impI)
    fix k h assume h: "map_of (servingHeads ?st) k = Some h"
    show "\<exists>r a. map_of (releases ?st) k = Some r \<and> rl_state r = Release_PUBLISHED \<and> ready_activation ?st (sh_activationId h) a \<and> av_releaseId a = k"
    proof (cases "map_of rep k")
      case None
      with h H(2) [of k] have "map_of (servingHeads st) k = Some h" by simp
      with core obtain r a where "map_of (releases st) k = Some r" "rl_state r = Release_PUBLISHED"
        "ready_activation st (sh_activationId h) a" "av_releaseId a = k" by (rule core_head)
      then show ?thesis by (auto simp: ready)
    next
      case (Some i)
      with h H(2) [of k] have "sh_activationId h = i" by auto
      with replaced [OF Some] show ?thesis by (auto simp: ready)
    qed
  next
    fix k r assume "map_of (releases ?st) k = Some r" "rl_state r = Release_PUBLISHED"
    then have r: "map_of (releases st) k = Some r" "rl_state r = Release_PUBLISHED" by simp_all
    with core obtain h where "map_of (servingHeads st) k = Some h" "serving_release policy r" by (rule core_published)
    with H(2) [of k] show "map_of (servingHeads ?st) k \<noteq> None" "serving_release policy r" by (simp_all split: option.split)
  qed
  moreover have "channels_inv ?st"
    unfolding channels_inv_def
  proof (intro allI impI)
    fix k c' assume "map_of (channels ?st) k = Some c'"
    with C(2) [of k] obtain c where c: "map_of (channels st) k = Some c" and c': "c' = moved st rep at c" by auto
    from core c obtain a h where a: "ready_activation st (ch_activationId c) a" "map_of (servingHeads st) (av_releaseId a) = Some h"
      "sh_activationId h = ch_activationId c" "av_projectId a = ch_projectId c" by (rule core_channel)
    have lookup: "map_of (activations st) (ch_activationId c) = Some a" using a(1) by (simp add: ready_activation_def)
    show "\<exists>b h. ready_activation ?st (ch_activationId c') b \<and> map_of (servingHeads ?st) (av_releaseId b) = Some h
        \<and> sh_activationId h = ch_activationId c' \<and> av_projectId b = ch_projectId c'"
    proof (cases "map_of rep (av_releaseId a)")
      case None
      with c' lookup a H(2) [of "av_releaseId a"] show ?thesis by (auto simp: moved_def ready)
    next
      case (Some i)
      from replaced [OF Some] obtain r b where b: "map_of (releases st) (av_releaseId a) = Some r" "ready_activation st i b"
        "av_releaseId b = av_releaseId a" "av_projectId b = rl_projectId r" by blast
      have "rl_projectId r = av_projectId a"
        by (rule validateActivation_release [OF core_valid [OF core a(1)]]) (use b(1) in simp)
      with Some c' lookup a b H(2) [of "av_releaseId a"] show ?thesis by (auto simp: moved_def ready)
    qed
  qed
  moreover have "capacity_inv policy ?st"
  proof (rule capacity_moved [OF core limits])
    show "set (currentHeadActivations ?st) \<subseteq> set heads"
    proof
      fix h assume "h \<in> set (currentHeadActivations ?st)"
      then have "map_option sh_activationId (map_of (servingHeads ?st) (fst h)) = Some (snd h)"
        by (simp add: wf_set_iff currentHeadActivations_map_of [OF ids'])
      then have "map_of heads (fst h) = Some (snd h)"
        using H(2) [of "fst h"] by (auto simp: heads(1) currentHeadActivations_map_of [OF ids] split: option.splits)
      then show "h \<in> set heads" by (simp add: wf_set_iff [OF heads(2)])
    qed
    show "h \<in> set (currentHeadActivations st)" if h: "h \<in> set heads" "countsFor st p (fst h)" "p \<noteq> projectId" for h p
    proof (cases "map_of rep (fst h)")
      case None
      with h(1) show ?thesis by (simp add: wf_set_iff [OF heads(2)] wf_set_iff heads(1))
    next
      case (Some i)
      from replaced [OF this] h(2,3) show ?thesis by (auto simp: countsFor_def)
    qed
  qed (simp_all add: countsFor_def)
  ultimately show ?thesis by (simp add: core_inv_def)
qed

lemma spread_map_of:
  assumes "wf_jsmap rep"
  shows "map_of (spread m rep) k = (case map_of rep k of None \<Rightarrow> map_of m k | Some i \<Rightarrow> Some i)"
    and "wf_jsmap m \<Longrightarrow> wf_jsmap (spread m rep)"
  unfolding spread_def using foldl_update [OF assms, where f = "\<lambda>k v. v"] by simp_all

lemma refresh_ok:
  assumes good: "good policy now st" and policy: "0 \<le> hardMaxServingGenerationsPerMember policy"
  shows "call_ok policy now st (refresh policy input st)"
  unfolding refresh_def
proof (rule call_ok_attempt [OF good], rule call_ok_attempt [OF good], rule call_ok_attempt [OF good])
  fix u v acc
  assume acc: "checkReplacements st (None, []) (rf_replacements input) = Inr acc"
  obtain projectId rep where acc_eq: "acc = (projectId, rep)" by fastforce
  have "replacements_ok st None []" by (simp add: replacements_ok_def)
  from checkReplacements_ok [OF good_ids [OF good] this acc [unfolded acc_eq]] have ok: "replacements_ok st projectId rep" .
  then have wf: "wf_jsmap rep" by (simp add: replacements_ok_def)
  let ?at = "rf_at input"
  let ?H = "foldl (\<lambda>heads (releaseId, activationId).
     AList.update releaseId \<lparr>sh_releaseId = releaseId, sh_activationId = activationId, sh_updatedAt = ?at\<rparr> heads) (servingHeads st) rep"
  let ?heads = "spread (currentHeadActivations st) rep"
  let ?finish = "\<lambda>st2. andThen (recordServingTransitions (servingContentIds st) ?at st2) (\<lambda>st3. (Inr (), bumpControl st3))"
  have core: "core_inv policy st" by (rule good_core [OF good])
  have finish: "call_ok policy now st (attempt st (assertCapacity policy st p ?heads ?at (rf_capacityApprovalId input)) (\<lambda>_.
      andThen (moveChannels rep ?at (map_keys (channels (replaceHeads rep ?at st))) (replaceHeads rep ?at st)) ?finish))"
    if p: "projectId = Some p" for p
  proof (rule call_ok_attempt [OF good])
    fix w assume check: "assertCapacity policy st p ?heads ?at (rf_capacityApprovalId input) = Inr w"
    have heads_wf: "wf_jsmap ?heads" by (rule spread_map_of(2) [OF wf]) simp
    have heads_exist: "h \<in> set ?heads \<Longrightarrow> h \<in> set (currentHeadActivations st) \<or> map_of (activations st) (snd h) \<noteq> None" for h
    proof (cases "map_of rep (fst h)")
      case None
      assume "h \<in> set ?heads"
      with None show ?thesis by (simp add: wf_set_iff [OF heads_wf] wf_set_iff spread_map_of(1) [OF wf])
    next
      case (Some i)
      assume "h \<in> set ?heads"
      with Some have "snd h = i" by (simp add: wf_set_iff [OF heads_wf] spread_map_of(1) [OF wf])
      with ok Some obtain a where "ready_activation st (snd h) a" unfolding replacements_ok_def by blast
      then show ?thesis by (simp add: ready_activation_def)
    qed
    note limits = assertCapacity_limits [OF check heads_wf servedHeads_exists [OF core heads_exist] policy]
    have H_wf: "wf_jsmap ?H"
      by (rule foldl_update(2) [OF wf]) (use good_ids [OF good] in \<open>simp add: ids_inv_def keyed_by_def\<close>)
    note H_map = foldl_update(1) [OF wf, of "\<lambda>k i. \<lparr>sh_releaseId = k, sh_activationId = i, sh_updatedAt = ?at\<rparr>" "servingHeads st"]
    let ?st1 = "st\<lparr>servingHeads := ?H\<rparr>"
    have chan_wf: "wf_jsmap (channels st)" using good_ids [OF good] by (simp add: ids_inv_def keyed_by_def)
    have "\<forall>k\<in>set (map_keys (channels ?st1)). \<exists>c a. map_of (channels ?st1) k = Some c \<and> ready_activation ?st1 (ch_activationId c) a"
    proof
      fix k assume "k \<in> set (map_keys (channels ?st1))"
      then obtain c where c: "map_of (channels st) k = Some c" by (auto simp: map_of_eq_None_iff dest: weak_map_of_SomeI)
      with core obtain a h where "ready_activation st (ch_activationId c) a" by (rule core_channel)
      with c show "\<exists>c a. map_of (channels ?st1) k = Some c \<and> ready_activation ?st1 (ch_activationId c) a" by (auto simp: ready_activation_def)
    qed
    moreover have "distinct (map_keys (channels ?st1))" using chan_wf by (simp add: wf_jsmap_def)
    ultimately have "\<exists>m. moveChannels rep ?at (map_keys (channels ?st1)) ?st1 = (Inr (), ?st1\<lparr>channels := m\<rparr>)
      \<and> (wf_jsmap (channels ?st1) \<longrightarrow> wf_jsmap m)
      \<and> (\<forall>k. map_of m k = (if k \<in> set (map_keys (channels ?st1)) then map_option (moved ?st1 rep ?at) (map_of (channels ?st1) k) else map_of (channels ?st1) k))"
      by (rule moveChannels_Inr)
    then obtain C where C: "moveChannels rep ?at (map_keys (channels ?st1)) ?st1 = (Inr (), ?st1\<lparr>channels := C\<rparr>)"
      "wf_jsmap (channels ?st1) \<longrightarrow> wf_jsmap C"
      "\<forall>k. map_of C k = (if k \<in> set (map_keys (channels ?st1)) then map_option (moved ?st1 rep ?at) (map_of (channels ?st1) k) else map_of (channels ?st1) k)"
      by (elim exE conjE)
    have C_map: "map_of C k = map_option (moved st rep ?at) (map_of (channels st) k)" for k
    proof -
      have "moved ?st1 rep ?at = moved st rep ?at" by (rule ext) (simp add: moved_def)
      moreover have "map_of (channels st) k = None" if "k \<notin> set (map_keys (channels st))" using that by (simp add: map_of_eq_None_iff)
      ultimately show ?thesis using C(3) [rule_format, of k] by auto
    qed
    have C_wf: "wf_jsmap C" using C(2) chan_wf by simp
    have core': "core_inv policy (st\<lparr>servingHeads := ?H, channels := C\<rparr>)"
      by (rule refreshed_core [OF core ok [unfolded p] H_wf H_map C_wf C_map limits spread_map_of(1) [OF wf] heads_wf])
    have "call_ok policy now st (?finish (st\<lparr>servingHeads := ?H, channels := C\<rparr>))"
      by (rule cutover_ok [OF good core' keeps_refl]) (simp_all add: serves_until_def)
    then show "call_ok policy now st (andThen (moveChannels rep ?at (map_keys (channels (replaceHeads rep ?at st))) (replaceHeads rep ?at st)) ?finish)"
      using C(1) by (simp add: replaceHeads_def andThen_def)
  qed
  show "call_ok policy now st (case acc of (projectId, replacementByRelease) \<Rightarrow> case projectId of
       None \<Rightarrow> (Inl INVALID_STATE, st)
     | Some projectId \<Rightarrow>
         let proposedHeads = spread (currentHeadActivations st) replacementByRelease in
         attempt st (assertCapacity policy st projectId proposedHeads ?at (rf_capacityApprovalId input)) (\<lambda>_.
         let previouslyServing = servingContentIds st;
             st1 = replaceHeads replacementByRelease ?at st in
         andThen (moveChannels replacementByRelease ?at (map_keys (channels st1)) st1) (\<lambda>st2.
         andThen (recordServingTransitions previouslyServing ?at st2) (\<lambda>st3.
         (Inr (), bumpControl st3)))))"
  proof (cases projectId)
    case None
    then show ?thesis by (simp add: acc_eq call_ok_same [OF good])
  next
    case (Some p)
    from finish [OF this] Some show ?thesis by (simp add: acc_eq Let_def)
  qed
qed

end
