(* ===== verification/ActivationCollection.thy ===== *)
theory ActivationCollection
  imports ActivationRefresh
begin

text \<open>
  The commit of a garbage collection whose plan was computed in the same state: content that is
  protected stays, and what is collected nothing refers to.
\<close>

subsection \<open>What is protected\<close>

lemma protectedIds_closed: "graph_closed st (protectedIds localeCompare policy st at b)"
  unfolding protectedIds_def Let_def by (simp add: expandProtectedGraph_round expandRound_closed)

lemma contained_add: "contained p (p\<lparr>pi_generationIds := addAll xs (pi_generationIds p)\<rparr>)"
  by (auto simp: contained_def)

lemma contained_add_all: "contained p (p\<lparr>pi_releaseIds := addAll rs (pi_releaseIds p), pi_activationIds := addAll as (pi_activationIds p),
    pi_snapshotIds := addAll ss (pi_snapshotIds p), pi_generationIds := addAll gs (pi_generationIds p)\<rparr>)"
  by (auto simp: contained_def)

lemma expandProtectedGraph_contained: "contained p (expandProtectedGraph st p)"
  by (simp add: expandProtectedGraph_round expandRound_contained)

lemma rootIds_protected: "contained (rootIds st at) (protectedIds localeCompare policy st at True)"
  unfolding protectedIds_def Let_def
  by (simp only: simp_thms if_False)
     (rule contained_trans [OF expandProtectedGraph_contained contained_trans [OF contained_add
        contained_trans [OF contained_add_all expandProtectedGraph_contained]]])

text \<open>A collection, by the sets of ids it collects; the protected sets cover everything else that is there.\<close>

definition collects :: "RuntimeState \<Rightarrow> ProtectedIds \<Rightarrow> jsstring set \<Rightarrow> jsstring set \<Rightarrow> jsstring set \<Rightarrow> jsstring set \<Rightarrow> bool" where
  "collects st p R A G S \<longleftrightarrow>
     (\<forall>k\<in>R. \<exists>r. map_of (releases st) k = Some r \<and> rl_state r = Release_RETIRED)
     \<and> R \<inter> set (pi_releaseIds p) = {} \<and> A \<inter> set (pi_activationIds p) = {} \<and> G \<inter> set (pi_generationIds p) = {} \<and> S \<inter> set (pi_snapshotIds p) = {}
     \<and> (\<forall>k a. ready_activation st k a \<longrightarrow> k \<in> A \<or> k \<in> set (pi_activationIds p))
     \<and> (\<forall>k g. map_of (generations st) k = Some g \<longrightarrow> ge_state g = READY \<longrightarrow> k \<in> G \<or> k \<in> set (pi_generationIds p))"

definition collected :: "RuntimeState \<Rightarrow> jsstring set \<Rightarrow> jsstring set \<Rightarrow> jsstring set \<Rightarrow> jsstring set \<Rightarrow> RuntimeState \<Rightarrow> bool" where
  "collected st R A G S st' \<longleftrightarrow> ids_inv st' \<and> servingHeads st' = servingHeads st \<and> channels st' = channels st
     \<and> (\<forall>k. map_of (releases st') k = (if k \<in> R then map_option (\<lambda>r. r\<lparr>rl_state := Release_COLLECTED\<rparr>) (map_of (releases st) k) else map_of (releases st) k))
     \<and> (\<forall>k. map_of (activations st') k = (if k \<in> A then map_option (\<lambda>a. a\<lparr>av_state := COLLECTED\<rparr>) (map_of (activations st) k) else map_of (activations st) k))
     \<and> (\<forall>k. map_of (generations st') k = (if k \<in> G then map_option (\<lambda>g. g\<lparr>ge_state := COLLECTED\<rparr>) (map_of (generations st) k) else map_of (generations st) k))
     \<and> (\<forall>k. map_of (snapshots st') k = (if k \<in> S then map_option (\<lambda>s. s\<lparr>sn_state := COLLECTED\<rparr>) (map_of (snapshots st) k) else map_of (snapshots st) k))"

lemma collected_lookup:
  assumes "collected st R A G S st'"
  shows "map_of (releases st') k = (if k \<in> R then map_option (\<lambda>r. r\<lparr>rl_state := Release_COLLECTED\<rparr>) (map_of (releases st) k) else map_of (releases st) k)"
    "map_of (activations st') k = (if k \<in> A then map_option (\<lambda>a. a\<lparr>av_state := COLLECTED\<rparr>) (map_of (activations st) k) else map_of (activations st) k)"
    "map_of (generations st') k = (if k \<in> G then map_option (\<lambda>g. g\<lparr>ge_state := COLLECTED\<rparr>) (map_of (generations st) k) else map_of (generations st) k)"
    "map_of (snapshots st') k = (if k \<in> S then map_option (\<lambda>s. s\<lparr>sn_state := COLLECTED\<rparr>) (map_of (snapshots st) k) else map_of (snapshots st) k)"
  using assms unfolding collected_def by blast+

text \<open>What is protected stays as it is.\<close>

lemma protected_same:
  assumes "collected st R A G S st'" "collects st p R A G S"
  shows "k \<in> set (pi_releaseIds p) \<Longrightarrow> map_of (releases st') k = map_of (releases st) k"
    "k \<in> set (pi_activationIds p) \<Longrightarrow> map_of (activations st') k = map_of (activations st) k"
    "k \<in> set (pi_generationIds p) \<Longrightarrow> map_of (generations st') k = map_of (generations st) k"
    "k \<in> set (pi_snapshotIds p) \<Longrightarrow> map_of (snapshots st') k = map_of (snapshots st) k"
proof -
  note none = assms(2) [unfolded collects_def]
  have "k \<in> set (pi_releaseIds p) \<Longrightarrow> k \<notin> R" "k \<in> set (pi_activationIds p) \<Longrightarrow> k \<notin> A"
    "k \<in> set (pi_generationIds p) \<Longrightarrow> k \<notin> G" "k \<in> set (pi_snapshotIds p) \<Longrightarrow> k \<notin> S" using none by blast+
  then show "k \<in> set (pi_releaseIds p) \<Longrightarrow> map_of (releases st') k = map_of (releases st) k"
    "k \<in> set (pi_activationIds p) \<Longrightarrow> map_of (activations st') k = map_of (activations st) k"
    "k \<in> set (pi_generationIds p) \<Longrightarrow> map_of (generations st') k = map_of (generations st) k"
    "k \<in> set (pi_snapshotIds p) \<Longrightarrow> map_of (snapshots st') k = map_of (snapshots st) k"
    by (simp_all add: collected_lookup [OF assms(1)])
qed

lemma collected_ready_activation:
  assumes "collected st R A G S st'" "collects st p R A G S" "map_of (activations st') k = Some a" "av_state a = READY"
  shows "map_of (activations st) k = Some a" "k \<in> set (pi_activationIds p)"
proof -
  from assms(3,4) collected_lookup(2) [OF assms(1), of k] have k: "k \<notin> A" "map_of (activations st) k = Some a"
    by (auto split: if_splits)
  then show "map_of (activations st) k = Some a" by simp
  have "ready_activation st k a" using k assms(4) by (simp add: ready_activation_def)
  with assms(2) k show "k \<in> set (pi_activationIds p)" unfolding collects_def by blast
qed

lemma protected_ready:
  assumes "collected st R A G S st'" "collects st p R A G S"
  shows "k \<in> set (pi_releaseIds p) \<Longrightarrow> kept_release st' k = kept_release st k"
    "k \<in> set (pi_activationIds p) \<Longrightarrow> ready_activation st' k a = ready_activation st k a"
    "k \<in> set (pi_generationIds p) \<Longrightarrow> ready_generation st' k = ready_generation st k"
    "k \<in> set (pi_snapshotIds p) \<Longrightarrow> ready_snapshot st' k = ready_snapshot st k"
  using protected_same [OF assms, of k]
  by (simp_all add: kept_release_def ready_activation_def ready_generation_def ready_snapshot_def)

lemma protected_content:
  assumes "collected st R A G S st'" "collects st p R A G S" "activation_closed st p k" "map_of (activations st) k = Some a"
  shows "keeps_activation_content st st' a"
proof -
  from assms(3,4) have closed: "av_releaseId a \<in> set (pi_releaseIds p)" "set (memberGenerations a) \<subseteq> set (pi_generationIds p)"
    "set (memberSnapshots a) \<subseteq> set (pi_snapshotIds p)" by (simp_all add: activation_closed_def)
  note same = protected_same [OF assms(1,2)]
  show ?thesis
    unfolding keeps_activation_content_def
  proof (intro conjI ballI allI impI)
    show "map_of (releases st) (av_releaseId a) = Some r \<Longrightarrow> \<exists>r'. map_of (releases st') (av_releaseId a) = Some r' \<and> same_release r r'" for r
      using same(1) [OF closed(1)] by simp
    fix m assume m: "m \<in> set (map_values (av_members a))"
    then have "am_generationId m \<in> set (pi_generationIds p)" "am_snapshotId m \<in> set (pi_snapshotIds p)"
      using closed(2,3) by (auto simp: memberGenerations_def memberSnapshots_def)
    note m_same = same(3) [OF this(1)] same(4) [OF this(2)]
    show "map_of (generations st) (am_generationId m) = Some g \<Longrightarrow>
        \<exists>t. map_of (generations st') (am_generationId m) = Some (g\<lparr>ge_lastServingAt := t\<rparr>)" for g
      by (rule exI [of _ "ge_lastServingAt g"]) (simp add: m_same)
    show "map_of (snapshots st) (am_snapshotId m) = Some s \<Longrightarrow>
        \<exists>t. map_of (snapshots st') (am_snapshotId m) = Some (s\<lparr>sn_lastServingAt := t\<rparr>)" for s
      by (rule exI [of _ "sn_lastServingAt s"]) (simp add: m_same)
  qed
qed

lemma collected_core:
  assumes core: "core_inv policy st" and gone: "collected st R A G S st'" and sets: "collects st p R A G S"
    and closed: "graph_closed st p"
    and heads: "\<And>k h. map_of (servingHeads st) k = Some h \<Longrightarrow> sh_activationId h \<in> set (pi_activationIds p)"
    and chans: "\<And>k c. map_of (channels st) k = Some c \<Longrightarrow> ch_activationId c \<in> set (pi_activationIds p)"
  shows "core_inv policy st'"
proof -
  note lookup = collected_lookup [OF gone] and same = protected_same [OF gone sets] and ready = protected_ready [OF gone sets]
  have fields: "servingHeads st' = servingHeads st" "channels st' = channels st" and ids': "ids_inv st'"
    using gone unfolding collected_def by blast+
  have published: "map_of (releases st') k = Some r \<longleftrightarrow> map_of (releases st) k = Some r" if "rl_state r = Release_PUBLISHED" for k r
  proof (cases "k \<in> R")
    case True
    with sets obtain r' where r': "map_of (releases st) k = Some r'" "rl_state r' = Release_RETIRED" unfolding collects_def by blast
    with True that show ?thesis by (auto simp: lookup(1))
  qed (simp add: lookup(1))
  have "content_inv st'"
    unfolding content_inv_def
  proof (intro conjI allI impI)
    fix k a assume a: "map_of (activations st') k = Some a"
    then obtain b where "map_of (activations st) k = Some b" "av_members a = av_members b" 
      by (cases "map_of (activations st) k") (auto simp: lookup(2) split: if_splits)
    with core_members [OF core] show "wf_jsmap (av_members a)" by simp
    assume "av_state a = READY"
    note old = collected_ready_activation [OF gone sets a this]
    with closed have "activation_closed st p k" by (simp add: graph_closed_def)
    note keeps = protected_content [OF gone sets this old(1)]
    have "validateActivation st a True = Inr ()"
      using core_valid [OF core, of k a] old(1) \<open>av_state a = READY\<close> by (simp add: ready_activation_def)
    from validateActivation_keeps [OF this keeps, of "av_lastServingAt a"] show "validateActivation st' a True = Inr ()" by simp
  next
    fix k g assume "map_of (generations st') k = Some g" and g: "ge_state g = READY"
    then have "map_of (generations st) k = Some g" "k \<notin> G" by (auto simp: lookup(3) split: if_splits)
    with g sets have old: "map_of (generations st) k = Some g" "k \<in> set (pi_generationIds p)" unfolding collects_def by blast+
    with closed have "generation_closed st p k" by (simp add: graph_closed_def)
    with old(1) have "ge_snapshotId g \<in> set (pi_snapshotIds p)" by (simp add: generation_closed_def)
    with core_generation [OF core old(1) g] show "ready_snapshot st' (ge_snapshotId g)" by (simp add: ready(4))
  qed
  moreover have "heads_inv policy st'"
    unfolding heads_inv_def fields
  proof (intro conjI allI impI)
    fix k h assume h: "map_of (servingHeads st) k = Some h"
    with core obtain r a where "map_of (releases st) k = Some r" "rl_state r = Release_PUBLISHED"
      "ready_activation st (sh_activationId h) a" "av_releaseId a = k" by (rule core_head)
    then show "\<exists>r a. map_of (releases st') k = Some r \<and> rl_state r = Release_PUBLISHED
        \<and> ready_activation st' (sh_activationId h) a \<and> av_releaseId a = k" using ready(2) [OF heads [OF h]] published by blast
  next
    fix k r assume "map_of (releases st') k = Some r" and r: "rl_state r = Release_PUBLISHED"
    then have "map_of (releases st) k = Some r" using published by blast
    from core this r obtain h where "map_of (servingHeads st) k = Some h" "serving_release policy r" by (rule core_published)
    then show "map_of (servingHeads st) k \<noteq> None" "serving_release policy r" by simp_all
  qed
  moreover have "channels_inv st'"
    unfolding channels_inv_def fields
  proof (intro allI impI)
    fix k c assume c: "map_of (channels st) k = Some c"
    with core obtain a h where "ready_activation st (ch_activationId c) a" "map_of (servingHeads st) (av_releaseId a) = Some h"
      "sh_activationId h = ch_activationId c" "av_projectId a = ch_projectId c" by (rule core_channel)
    then show "\<exists>a h. ready_activation st' (ch_activationId c) a \<and> map_of (servingHeads st) (av_releaseId a) = Some h
        \<and> sh_activationId h = ch_activationId c \<and> av_projectId a = ch_projectId c" using ready(2) [OF chans [OF c]] by blast
  qed
  moreover have "capacity_inv policy st'"
    unfolding capacity_inv_def
  proof
    fix projectId
    have current: "currentHeadActivations st' = currentHeadActivations st" by (simp add: currentHeadActivations_def fields)
    have limits: "within_limits policy st projectId (currentHeadActivations st)" using core by (simp add: core_inv_def capacity_inv_def)
    have subset: "servedHeads st' projectId (currentHeadActivations st) \<subseteq> servedHeads st projectId (currentHeadActivations st)"
    proof
      fix h assume h: "h \<in> servedHeads st' projectId (currentHeadActivations st)"
      then have "fst h \<notin> R" by (auto simp: servedHeads_def countsFor_def lookup(1) split: option.splits)
      with h show "h \<in> servedHeads st projectId (currentHeadActivations st)" by (simp add: servedHeads_def countsFor_def lookup(1))
    qed
    show "within_limits policy st' projectId (currentHeadActivations st')"
      unfolding current
    proof (rule limits_subset [OF limits subset])
      fix h a' assume "map_of (activations st') (snd h) = Some a'"
      then show "\<exists>a. map_of (activations st) (snd h) = Some a \<and> av_members a' = av_members a"
        by (cases "map_of (activations st) (snd h)") (auto simp: lookup(2) split: if_splits)
    qed
  qed
  ultimately show ?thesis using ids' by (simp add: core_inv_def)
qed

lemma collected_uses:
  assumes core: "core_inv policy st" and uses: "uses_inv now st" and gone: "collected st R A G S st'" and sets: "collects st p R A G S"
    and fields: "queries st' = queries st" "preflightTokens st' = preflightTokens st" "jobs st' = jobs st" "holds st' = holds st"
      "historicalReferences st' = historicalReferences st"
    and roots: "contained (rootIds st at) p" and "at \<le> now"
  shows "uses_inv now st'"
proof -
  note ready = protected_ready [OF gone sets]
  have active: "activeReferences st' = activeReferences st" by (simp add: activeReferences_def fields)
  have root: "k \<in> set (pi_activationIds (rootIds st at)) \<Longrightarrow> k \<in> set (pi_activationIds p)" for k
    using roots unfolding contained_def by blast
  note roots_iff = rootIds_activations [OF core_ids [OF core] uses]
  have "references_available st' r" if r: "r \<in> set (activeReferences st)" for r
  proof -
    from r have "set (cr_releaseIds r) \<subseteq> set (pi_releaseIds (rootIds st at))" "set (cr_activationIds r) \<subseteq> set (pi_activationIds (rootIds st at))"
      "set (cr_generationIds r) \<subseteq> set (pi_generationIds (rootIds st at))" "set (cr_snapshotIds r) \<subseteq> set (pi_snapshotIds (rootIds st at))"
      unfolding rootIds_def addReferences_sets by auto
    with roots have "set (cr_releaseIds r) \<subseteq> set (pi_releaseIds p)" "set (cr_activationIds r) \<subseteq> set (pi_activationIds p)"
      "set (cr_generationIds r) \<subseteq> set (pi_generationIds p)" "set (cr_snapshotIds r) \<subseteq> set (pi_snapshotIds p)"
      unfolding contained_def by blast+
    moreover have "references_available st r" using uses r unfolding uses_inv_def by blast
    moreover have "\<exists>a. ready_activation st k a \<Longrightarrow> \<exists>a. ready_activation st' k a" if "k \<in> set (pi_activationIds p)" for k
      using ready(2) [OF that] by simp
    ultimately show ?thesis unfolding references_available_def using ready(1,3,4) by (meson subsetD)
  qed
  moreover have "query_ok now st' q" if q: "map_of (queries st) k = Some q" for k q
    unfolding query_ok_def
  proof (intro conjI impI)
    note ok = uses_query_ok [OF uses q]
    then show "ql_resolutionCount q = 1" by (simp add: query_ok_def)
    assume open_query: "ql_state q = Query_ACTIVE \<and> now < ql_leaseUntil q"
    with \<open>at \<le> now\<close> have "ql_state q = Query_ACTIVE" "at < ql_leaseUntil q" by simp_all
    with q have "ql_activationId q \<in> set (pi_activationIds p)" by (intro root) (unfold roots_iff, blast)
    with ok open_query show "\<exists>a. ready_activation st' (ql_activationId q) a" by (simp add: query_ok_def ready(2))
  qed
  moreover have "token_ok now st' t" if t: "map_of (preflightTokens st) k = Some t" for k t
    unfolding token_ok_def
  proof (intro impI)
    assume open_token: "pt_state t = Token_ACTIVE \<and> now < pt_expiresAt t"
    with \<open>at \<le> now\<close> have "pt_state t = Token_ACTIVE" "at < pt_expiresAt t" by simp_all
    with t have "pt_activationId t \<in> set (pi_activationIds p)" by (intro root) (unfold roots_iff, blast)
    with uses_token_ok [OF uses t] open_token show "\<exists>a. ready_activation st' (pt_activationId t) a" by (simp add: token_ok_def ready(2))
  qed
  ultimately show ?thesis using uses unfolding uses_inv_def fields active by blast
qed

lemma collected_promises:
  assumes gone: "collected st R A G S st'" and sets: "collects st p R A G S"
    and fields: "queries st' = queries st" "preflightTokens st' = preflightTokens st"
  shows "promises_kept now st st'"
  unfolding promises_kept_def fields
proof (intro conjI allI impI)
  fix k a assume "map_of (activations st) k = Some a"
  then show "\<exists>a'. map_of (activations st') k = Some a' \<and> same_activation a a'"
    by (simp add: collected_lookup [OF gone] same_activation_def)
next
  fix k s assume s: "serves_until st k s"
  have "k \<notin> R" using s sets unfolding collects_def serves_until_def by fastforce
  with s show "serves_until st' k s \<or> s \<le> now" by (simp add: serves_until_def collected_lookup [OF gone])
qed simp_all

subsection \<open>Commit\<close>

text \<open>The ids of a plan, and the sets it covers.\<close>

lemma plan_ids:
  assumes ids: "ids_inv st" and p: "p = protectedIds localeCompare policy st at True"
  defines "plan \<equiv> planGarbageCollection localeCompare policy st at"
  shows "k \<in> set (gc_releaseIds plan) \<longleftrightarrow> (\<exists>r. map_of (releases st) k = Some r \<and> rl_state r = Release_RETIRED \<and> k \<notin> set (pi_releaseIds p))"
    "k \<in> set (gc_activationIds plan) \<longleftrightarrow> (\<exists>a. map_of (activations st) k = Some a \<and> av_state a = READY \<and> k \<notin> set (pi_activationIds p))"
    "k \<in> set (gc_generationIds plan) \<longleftrightarrow> (\<exists>g. map_of (generations st) k = Some g \<and> ge_state g = READY \<and> k \<notin> set (pi_generationIds p))"
    "k \<in> set (gc_snapshotIds plan) \<longleftrightarrow> (\<exists>s. map_of (snapshots st) k = Some s \<and> sn_state s = READY \<and> k \<notin> set (pi_snapshotIds p))"
proof -
  have kv: "(\<exists>v. v \<in> set (map_values m) \<and> Q v \<and> f v = k) \<longleftrightarrow> (\<exists>v. map_of m k = Some v \<and> Q v)" if "keyed_by f m"
    for m :: "(jsstring, 'v) jsmap" and f :: "'v \<Rightarrow> jsstring" and Q
    using keyed_by_values_of [OF that] keyed_by_id [OF that] in_values [of m] by blast
  note i = ids [unfolded ids_inv_def]
  have rl: "keyed_by rl_id (releases st)" and av: "keyed_by av_id (activations st)" and ge: "keyed_by ge_id (generations st)" and sn: "keyed_by sn_id (snapshots st)"
    using i by blast+
  have sel: "k \<in> set (map f (filter (\<lambda>x. Q x \<and> f x \<notin> P) xs)) \<longleftrightarrow> (\<exists>v. v \<in> set xs \<and> (Q v \<and> k \<notin> P) \<and> f v = k)" for f :: "'v \<Rightarrow> jsstring" and xs Q P
    by auto
  show "k \<in> set (gc_releaseIds plan) \<longleftrightarrow> (\<exists>r. map_of (releases st) k = Some r \<and> rl_state r = Release_RETIRED \<and> k \<notin> set (pi_releaseIds p))"
    using kv [OF rl, of "\<lambda>r. rl_state r = Release_RETIRED \<and> k \<notin> set (pi_releaseIds p)"]
    by (simp add: plan_def planGarbageCollection_def Let_def p [symmetric] sel del: set_map)
  show "k \<in> set (gc_activationIds plan) \<longleftrightarrow> (\<exists>a. map_of (activations st) k = Some a \<and> av_state a = READY \<and> k \<notin> set (pi_activationIds p))"
    using kv [OF av, of "\<lambda>a. av_state a = READY \<and> k \<notin> set (pi_activationIds p)"]
    by (simp add: plan_def planGarbageCollection_def Let_def p [symmetric] sel del: set_map)
  show "k \<in> set (gc_generationIds plan) \<longleftrightarrow> (\<exists>g. map_of (generations st) k = Some g \<and> ge_state g = READY \<and> k \<notin> set (pi_generationIds p))"
    using kv [OF ge, of "\<lambda>g. ge_state g = READY \<and> k \<notin> set (pi_generationIds p)"]
    by (simp add: plan_def planGarbageCollection_def Let_def p [symmetric] sel del: set_map)
  show "k \<in> set (gc_snapshotIds plan) \<longleftrightarrow> (\<exists>s. map_of (snapshots st) k = Some s \<and> sn_state s = READY \<and> k \<notin> set (pi_snapshotIds p))"
    using kv [OF sn, of "\<lambda>s. sn_state s = READY \<and> k \<notin> set (pi_snapshotIds p)"]
    by (simp add: plan_def planGarbageCollection_def Let_def p [symmetric] sel del: set_map)
qed

lemma plan_collects:
  assumes ids: "ids_inv st" and p: "p = protectedIds localeCompare policy st at True"
    and plan: "plan = planGarbageCollection localeCompare policy st at"
  shows "collects st p (set (gc_releaseIds plan)) (set (gc_activationIds plan)) (set (gc_generationIds plan)) (set (gc_snapshotIds plan))"
proof -
  note sets = plan_ids [OF ids p, folded plan]
  show ?thesis
    unfolding collects_def
  proof (intro conjI)
    show "\<forall>k\<in>set (gc_releaseIds plan). \<exists>r. map_of (releases st) k = Some r \<and> rl_state r = Release_RETIRED" using sets(1) by blast
    show "set (gc_releaseIds plan) \<inter> set (pi_releaseIds p) = {}" using sets(1) by blast
    show "set (gc_activationIds plan) \<inter> set (pi_activationIds p) = {}" using sets(2) by blast
    show "set (gc_generationIds plan) \<inter> set (pi_generationIds p) = {}" using sets(3) by blast
    show "set (gc_snapshotIds plan) \<inter> set (pi_snapshotIds p) = {}" using sets(4) by blast
    show "\<forall>k a. ready_activation st k a \<longrightarrow> k \<in> set (gc_activationIds plan) \<or> k \<in> set (pi_activationIds p)"
      using sets(2) unfolding ready_activation_def by blast
    show "\<forall>k g. map_of (generations st) k = Some g \<longrightarrow> ge_state g = READY \<longrightarrow> k \<in> set (gc_generationIds plan) \<or> k \<in> set (pi_generationIds p)"
      using sets(3) by blast
  qed
qed

text \<open>The writes of a commit do not throw when the records exist.\<close>

definition collection_writes :: "GarbageCollectionPlan \<Rightarrow> RuntimeState \<Rightarrow> unit runtime_outcome" where
  "collection_writes plan st =
     andThen (updateReleases (\<lambda>r. r\<lparr>rl_state := Release_COLLECTED\<rparr>) (gc_releaseIds plan) st) (\<lambda>st.
     andThen (updateActivations (\<lambda>a. a\<lparr>av_state := COLLECTED\<rparr>) (gc_activationIds plan) st) (\<lambda>st.
     andThen (updateGenerations (\<lambda>g. g\<lparr>ge_state := COLLECTED\<rparr>) (gc_generationIds plan) st) (\<lambda>st.
     andThen (updateSnapshots (\<lambda>s. s\<lparr>sn_state := COLLECTED\<rparr>) (gc_snapshotIds plan) st) (\<lambda>st.
     (Inr (), bumpState st)))))"

lemma updateEach_keyed:
  assumes "keyed_by key m" "\<And>v. f (f v) = f v" "\<And>v. key (f v) = key v" "\<forall>k\<in>set ks. map_of m k \<noteq> None"
  obtains m' where "updateEach f ks m = (Inr (), m')" "keyed_by key m'"
    "\<forall>k. map_of m' k = (if k \<in> set ks then map_option f (map_of m k) else map_of m k)"
proof -
  from updateEach_Inr [OF assms(2,4)] obtain m' where m': "updateEach f ks m = (Inr (), m')" "wf_jsmap m \<longrightarrow> wf_jsmap m'"
    "\<forall>k. map_of m' k = (if k \<in> set ks then map_option f (map_of m k) else map_of m k)" by (elim exE conjE)
  have "keyed_by key m'"
    by (rule keyed_by_mapped [where S = "set ks" and g = f, OF assms(1)]) (use m' keyed_by_wf [OF assms(1)] assms(3) in auto)
  with m' show thesis using that by blast
qed

lemma collection_writes_Inr:
  assumes ids: "ids_inv st"
    and exist: "\<forall>k\<in>set (gc_releaseIds plan). map_of (releases st) k \<noteq> None" "\<forall>k\<in>set (gc_activationIds plan). map_of (activations st) k \<noteq> None"
      "\<forall>k\<in>set (gc_generationIds plan). map_of (generations st) k \<noteq> None" "\<forall>k\<in>set (gc_snapshotIds plan). map_of (snapshots st) k \<noteq> None"
  obtains mr ma mg ms where
    "collection_writes plan st = (Inr (), bumpState (st\<lparr>releases := mr, activations := ma, generations := mg, snapshots := ms\<rparr>))"
    "collected st (set (gc_releaseIds plan)) (set (gc_activationIds plan)) (set (gc_generationIds plan)) (set (gc_snapshotIds plan))
       (st\<lparr>releases := mr, activations := ma, generations := mg, snapshots := ms\<rparr>)"
proof -
  note i = ids [unfolded ids_inv_def]
  have rl: "keyed_by rl_id (releases st)" and av: "keyed_by av_id (activations st)" and ge: "keyed_by ge_id (generations st)" and sn: "keyed_by sn_id (snapshots st)"
    using i by blast+
  obtain mr where mr: "updateEach (\<lambda>r. r\<lparr>rl_state := Release_COLLECTED\<rparr>) (gc_releaseIds plan) (releases st) = (Inr (), mr)" "keyed_by rl_id mr"
    "\<forall>k. map_of mr k = (if k \<in> set (gc_releaseIds plan) then map_option (\<lambda>r. r\<lparr>rl_state := Release_COLLECTED\<rparr>) (map_of (releases st) k) else map_of (releases st) k)"
    by (rule updateEach_keyed [OF rl _ _ exist(1), of "\<lambda>r. r\<lparr>rl_state := Release_COLLECTED\<rparr>"]) simp_all
  obtain ma where ma: "updateEach (\<lambda>a. a\<lparr>av_state := COLLECTED\<rparr>) (gc_activationIds plan) (activations st) = (Inr (), ma)" "keyed_by av_id ma"
    "\<forall>k. map_of ma k = (if k \<in> set (gc_activationIds plan) then map_option (\<lambda>a. a\<lparr>av_state := COLLECTED\<rparr>) (map_of (activations st) k) else map_of (activations st) k)"
    by (rule updateEach_keyed [OF av _ _ exist(2), of "\<lambda>a. a\<lparr>av_state := COLLECTED\<rparr>"]) simp_all
  obtain mg where mg: "updateEach (\<lambda>g. g\<lparr>ge_state := COLLECTED\<rparr>) (gc_generationIds plan) (generations st) = (Inr (), mg)" "keyed_by ge_id mg"
    "\<forall>k. map_of mg k = (if k \<in> set (gc_generationIds plan) then map_option (\<lambda>g. g\<lparr>ge_state := COLLECTED\<rparr>) (map_of (generations st) k) else map_of (generations st) k)"
    by (rule updateEach_keyed [OF ge _ _ exist(3), of "\<lambda>g. g\<lparr>ge_state := COLLECTED\<rparr>"]) simp_all
  obtain ms where ms: "updateEach (\<lambda>s. s\<lparr>sn_state := COLLECTED\<rparr>) (gc_snapshotIds plan) (snapshots st) = (Inr (), ms)" "keyed_by sn_id ms"
    "\<forall>k. map_of ms k = (if k \<in> set (gc_snapshotIds plan) then map_option (\<lambda>s. s\<lparr>sn_state := COLLECTED\<rparr>) (map_of (snapshots st) k) else map_of (snapshots st) k)"
    by (rule updateEach_keyed [OF sn _ _ exist(4), of "\<lambda>s. s\<lparr>sn_state := COLLECTED\<rparr>"]) simp_all
  show thesis
  proof (rule that)
    show "collection_writes plan st = (Inr (), bumpState (st\<lparr>releases := mr, activations := ma, generations := mg, snapshots := ms\<rparr>))"
      by (simp add: collection_writes_def andThen_def updateReleases_def updateActivations_def updateGenerations_def updateSnapshots_def
        mr(1) ma(1) mg(1) ms(1))
    show "collected st (set (gc_releaseIds plan)) (set (gc_activationIds plan)) (set (gc_generationIds plan)) (set (gc_snapshotIds plan))
       (st\<lparr>releases := mr, activations := ma, generations := mg, snapshots := ms\<rparr>)"
      using i mr ma mg ms by (simp add: collected_def ids_inv_def)
  qed
qed

lemma plan_writes_ok:
  assumes good: "good policy now st" and "gc_at plan \<le> now" and plan: "plan = planGarbageCollection localeCompare policy st (gc_at plan)"
  obtains st' where "collection_writes plan st = (Inr (), bumpState st')" "call_ok policy now st (collection_writes plan st)"
    "collected st (set (gc_releaseIds plan)) (set (gc_activationIds plan)) (set (gc_generationIds plan)) (set (gc_snapshotIds plan)) st'"
proof -
  define p where "p = protectedIds localeCompare policy st (gc_at plan) True"
  note core = good_core [OF good] and ids = good_ids [OF good]
  note sets = plan_collects [OF ids p_def plan] and plan_sets = plan_ids [OF ids p_def, folded plan]
  obtain mr ma mg ms where
    writes: "collection_writes plan st = (Inr (), bumpState (st\<lparr>releases := mr, activations := ma, generations := mg, snapshots := ms\<rparr>))"
    and gone: "collected st (set (gc_releaseIds plan)) (set (gc_activationIds plan)) (set (gc_generationIds plan)) (set (gc_snapshotIds plan))
       (st\<lparr>releases := mr, activations := ma, generations := mg, snapshots := ms\<rparr>)"
    by (rule collection_writes_Inr [OF ids, of plan]) (use plan_sets in blast)+
  let ?st = "st\<lparr>releases := mr, activations := ma, generations := mg, snapshots := ms\<rparr>"
  have closed: "graph_closed st p" unfolding p_def by (rule protectedIds_closed)
  have roots: "contained (rootIds st (gc_at plan)) p" unfolding p_def by (rule rootIds_protected)
  have root: "k \<in> set (pi_activationIds (rootIds st (gc_at plan))) \<Longrightarrow> k \<in> set (pi_activationIds p)" for k
    using roots unfolding contained_def by blast
  note roots_iff = rootIds_activations [OF ids good_uses [OF good]]
  have "core_inv policy ?st"
  proof (rule collected_core [OF core gone sets closed])
    show "map_of (servingHeads st) k = Some h \<Longrightarrow> sh_activationId h \<in> set (pi_activationIds p)" for k h
      by (rule root) (auto simp: roots_iff)
    show "map_of (channels st) k = Some c \<Longrightarrow> ch_activationId c \<in> set (pi_activationIds p)" for k c
      by (rule root) (auto simp: roots_iff)
  qed
  moreover have "uses_inv now ?st"
    by (rule collected_uses [OF core good_uses [OF good] gone sets _ _ _ _ _ roots \<open>gc_at plan \<le> now\<close>]) simp_all
  moreover have "promises_kept now st ?st" by (rule collected_promises [OF gone sets]) simp_all
  ultimately have "call_ok policy now st (Inr () :: unit runtime_result, bumpState ?st)" by (rule call_ok_bump) simp
  with writes gone show thesis using that by simp
qed

lemma commit_unfold:
  "commitGarbageCollection localeCompare policy plan st =
     attempt st (guard (\<not> gc_plannedAtStateRevision plan \<noteq> stateRevision st) CONCURRENT_MODIFICATION) (\<lambda>_.
     let p = protectedIds localeCompare policy st (gc_at plan) True in
     attempt st (assertNoIntersection (gc_releaseIds plan) (pi_releaseIds p)) (\<lambda>_.
     attempt st (assertNoIntersection (gc_activationIds plan) (pi_activationIds p)) (\<lambda>_.
     attempt st (assertNoIntersection (gc_generationIds plan) (pi_generationIds p)) (\<lambda>_.
     attempt st (assertNoIntersection (gc_snapshotIds plan) (pi_snapshotIds p)) (\<lambda>_.
     if gc_releaseIds plan = [] \<and> gc_activationIds plan = [] \<and> gc_generationIds plan = [] \<and> gc_snapshotIds plan = []
     then (Inr (), st) else collection_writes plan st)))))"
  unfolding commitGarbageCollection_def collection_writes_def by simp

lemma commit_ok:
  assumes good: "good policy now st" and "gc_at plan \<le> now"
    and plan: "gc_plannedAtStateRevision plan = stateRevision st \<Longrightarrow> plan = planGarbageCollection localeCompare policy st (gc_at plan)"
  shows "call_ok policy now st (commitGarbageCollection localeCompare policy plan st)"
  unfolding commit_unfold Let_def
proof (intro call_ok_attempt [OF good])
  fix u assume "guard (\<not> gc_plannedAtStateRevision plan \<noteq> stateRevision st) CONCURRENT_MODIFICATION = Inr u"
  then have plan_eq: "plan = planGarbageCollection localeCompare policy st (gc_at plan)" using plan by simp
  obtain st' where "call_ok policy now st (collection_writes plan st)"
    by (rule plan_writes_ok [OF good assms(2) plan_eq])
  then show "call_ok policy now st (if gc_releaseIds plan = [] \<and> gc_activationIds plan = [] \<and> gc_generationIds plan = [] \<and> gc_snapshotIds plan = []
      then (Inr (), st) else collection_writes plan st)"
    using call_ok_same [OF good, of "Inr () :: unit runtime_result"] by simp
qed

text \<open>A plan of the same state commits, and collects what it lists.\<close>

lemma commit_collects:
  assumes good: "good policy now st" and "gc_at plan \<le> now" and revision: "gc_plannedAtStateRevision plan = stateRevision st"
    and plan: "plan = planGarbageCollection localeCompare policy st (gc_at plan)"
  shows "\<exists>st'. commitGarbageCollection localeCompare policy plan st = (Inr (), st')
    \<and> collected st (set (gc_releaseIds plan)) (set (gc_activationIds plan)) (set (gc_generationIds plan)) (set (gc_snapshotIds plan)) st'"
proof -
  define p where "p = protectedIds localeCompare policy st (gc_at plan) True"
  note ids = good_ids [OF good]
  from plan_collects [OF ids p_def plan] have none: "assertNoIntersection (gc_releaseIds plan) (pi_releaseIds p) = Inr ()"
    "assertNoIntersection (gc_activationIds plan) (pi_activationIds p) = Inr ()" "assertNoIntersection (gc_generationIds plan) (pi_generationIds p) = Inr ()"
    "assertNoIntersection (gc_snapshotIds plan) (pi_snapshotIds p) = Inr ()"
    unfolding collects_def assertNoIntersection_def guard_eq_Inr_iff list_ex_iff by blast+
  obtain st' where writes: "collection_writes plan st = (Inr (), bumpState st')" and gone: "collected st (set (gc_releaseIds plan))
      (set (gc_activationIds plan)) (set (gc_generationIds plan)) (set (gc_snapshotIds plan)) st'"
    by (rule plan_writes_ok [OF good assms(2) plan])
  have "collected st (set (gc_releaseIds plan)) (set (gc_activationIds plan)) (set (gc_generationIds plan)) (set (gc_snapshotIds plan)) (bumpState st')"
    using gone ids by (simp add: collected_def bumpState_def ids_inv_def)
  moreover have "collected st {} {} {} {} st" using ids by (simp add: collected_def)
  ultimately show ?thesis by (auto simp: commit_unfold p_def [symmetric] none revision writes)
qed

end
