(* ===== verification/ActivationMachine.thy ===== *)
theory ActivationMachine
  imports ActivationCollection
begin

text \<open>
  The protocol as a transition system: a clock that does not go back, the plans of collections that
  were handed out, and the state of the model. A call happens at the time it carries; a plan may be
  committed at any later point, with any calls in between.
\<close>

datatype RuntimeCall =
    RegisterRelease RegisterReleaseInput
  | RegisterSnapshot RegisterSnapshotInput
  | RegisterGeneration RegisterGenerationInput
  | CreateActivation CreateActivationInput
  | RegisterCapacityApproval CapacityApproval
  | Publish PublishInput
  | Refresh RefreshInput
  | RetireRelease jsstring int int
  | BeginQuery jsstring RuntimeSelector int int
  | RenewQueryLease jsstring int int
  | EndQuery jsstring
  | IssuePreflight jsstring RuntimeSelector int int
  | ApplyPreflight jsstring int
  | StartJob jsstring ContentReferencesInput
  | CompleteJob jsstring JobReferenceState
  | PlaceHold jsstring ContentReferencesInput jsstring
  | ReleaseHold jsstring
  | AddHistoricalReference jsstring ContentReferencesInput

definition silent :: "'a runtime_outcome \<Rightarrow> unit runtime_outcome" where
  "silent out = (map_sum id (\<lambda>_. ()) (fst out), snd out)"

fun perform :: "RuntimePolicy \<Rightarrow> RuntimeCall \<Rightarrow> RuntimeState \<Rightarrow> unit runtime_outcome" where
  "perform policy (RegisterRelease input) st = registerRelease input st"
| "perform policy (RegisterSnapshot input) st = registerSnapshot input st"
| "perform policy (RegisterGeneration input) st = registerGeneration input st"
| "perform policy (CreateActivation input) st = createActivation input st"
| "perform policy (RegisterCapacityApproval input) st = registerCapacityApproval policy input st"
| "perform policy (Publish input) st = publish policy input st"
| "perform policy (Refresh input) st = refresh policy input st"
| "perform policy (RetireRelease k expected at) st = retireRelease k expected at st"
| "perform policy (BeginQuery k selector at until) st = silent (beginQuery policy k selector at until st)"
| "perform policy (RenewQueryLease k at until) st = renewQueryLease policy k at until st"
| "perform policy (EndQuery k) st = endQuery k st"
| "perform policy (IssuePreflight k selector at until) st = silent (issuePreflight policy k selector at until st)"
| "perform policy (ApplyPreflight k at) st = silent (applyPreflight k at st)"
| "perform policy (StartJob k references) st = startJob k references st"
| "perform policy (CompleteJob k s) st = completeJob k s st"
| "perform policy (PlaceHold k references reason) st = placeHold k references reason st"
| "perform policy (ReleaseHold k) st = releaseHold k st"
| "perform policy (AddHistoricalReference k references) st = addHistoricalReference k references st"

text \<open>The time a call carries, and what the types of TypeScript say of its arguments.\<close>

fun timeOf :: "int \<Rightarrow> RuntimeCall \<Rightarrow> int" where
  "timeOf now (Publish input) = pb_at input"
| "timeOf now (Refresh input) = rf_at input"
| "timeOf now (RetireRelease k expected at) = at"
| "timeOf now (BeginQuery k selector at until) = at"
| "timeOf now (RenewQueryLease k at until) = at"
| "timeOf now (IssuePreflight k selector at until) = at"
| "timeOf now (ApplyPreflight k at) = at"
| "timeOf now _ = now"

fun well_typed :: "RuntimeCall \<Rightarrow> bool" where
  "well_typed (CreateActivation input) = wf_jsmap (ai_members input)"
| "well_typed (CompleteJob k s) = (s \<noteq> JobRef_ACTIVE)"
| "well_typed _ = True"

type_synonym RuntimeMachine = "int \<times> GarbageCollectionPlan list \<times> RuntimeState"

datatype RuntimeEvent = Call RuntimeCall | Plan int | Commit GarbageCollectionPlan

inductive runtime_step ::
  "(jsstring \<Rightarrow> jsstring \<Rightarrow> int) \<Rightarrow> RuntimePolicy \<Rightarrow> RuntimeMachine \<Rightarrow> RuntimeEvent \<Rightarrow> RuntimeMachine \<Rightarrow> bool"
  for localeCompare policy where
  step_call: "now \<le> timeOf now c \<Longrightarrow> well_typed c \<Longrightarrow> perform policy c st = (r, st') \<Longrightarrow>
    runtime_step localeCompare policy (now, plans, st) (Call c) (timeOf now c, plans, st')"
| step_plan: "now \<le> at \<Longrightarrow>
    runtime_step localeCompare policy (now, plans, st) (Plan at) (at, planGarbageCollection localeCompare policy st at # plans, st)"
| step_commit: "plan \<in> set plans \<Longrightarrow> commitGarbageCollection localeCompare policy plan st = (r, st') \<Longrightarrow>
    runtime_step localeCompare policy (now, plans, st) (Commit plan) (now, plans, st')"

definition runtime_init :: "RuntimePolicy \<Rightarrow> RuntimeMachine \<Rightarrow> bool" where
  "runtime_init policy m \<longleftrightarrow> (case m of (now, plans, st) \<Rightarrow> plans = [] \<and> new_RuntimeActivationModel policy = Inr (policy, st))"

definition runtime_reachable :: "(jsstring \<Rightarrow> jsstring \<Rightarrow> int) \<Rightarrow> RuntimePolicy \<Rightarrow> RuntimeMachine \<Rightarrow> bool" where
  "runtime_reachable localeCompare policy m \<longleftrightarrow> (\<exists>m0. runtime_init policy m0 \<and> reaches (runtime_step localeCompare policy) m0 m)"

subsection \<open>Every call\<close>

lemma call_ok_silent: "call_ok policy now st out \<Longrightarrow> call_ok policy now st (silent out)"
  by (simp add: call_ok_def silent_def isl_map_sum)

lemma good_later: "good policy now st \<Longrightarrow> now \<le> now' \<Longrightarrow> good policy now' st"
  unfolding good_def using uses_later by blast

lemma perform_ok:
  assumes good: "good policy now st" and policy: "0 \<le> hardMaxServingGenerationsPerMember policy"
    and "now \<le> timeOf now c" and typed: "well_typed c" and not_apply: "\<not> (\<exists>k at. c = ApplyPreflight k at)"
  shows "call_ok policy (timeOf now c) st (perform policy c st)"
proof -
  have later: "good policy now' st" if "now \<le> now'" for now' using good that by (rule good_later)
  note calls = registerRelease_ok registerSnapshot_ok registerGeneration_ok createActivation_ok registerCapacityApproval_ok
    publish_ok refresh_ok retireRelease_ok beginQuery_ok renewQueryLease_ok endQuery_ok issuePreflight_ok startJob_ok
    completeJob_ok placeHold_ok releaseHold_ok addHistoricalReference_ok call_ok_silent
  show ?thesis using typed not_apply assms(3) by (cases c) (simp_all add: calls later policy)
qed

lemma perform_effect:
  assumes good: "good policy now st" and policy: "0 \<le> hardMaxServingGenerationsPerMember policy"
    and "now \<le> timeOf now c" and typed: "well_typed c"
  shows "sound_effect policy (timeOf now c) st (snd (perform policy c st))"
proof (cases "\<exists>k at. c = ApplyPreflight k at")
  case True
  then obtain k at where c: "c = ApplyPreflight k at" by blast
  with assms(3) have "good policy at st" using good_later [OF good] by simp
  from applyPreflight_ok [OF this, of k at] show ?thesis by (simp add: c silent_def)
next
  case False
  from perform_ok [OF assms this] show ?thesis by (simp add: call_ok_def)
qed

subsection \<open>The invariant of the machine\<close>

definition plan_ok :: "(jsstring \<Rightarrow> jsstring \<Rightarrow> int) \<Rightarrow> RuntimePolicy \<Rightarrow> int \<Rightarrow> RuntimeState \<Rightarrow> GarbageCollectionPlan \<Rightarrow> bool" where
  "plan_ok localeCompare policy now st plan \<longleftrightarrow> gc_at plan \<le> now \<and> gc_plannedAtStateRevision plan \<le> stateRevision st
     \<and> (gc_plannedAtStateRevision plan = stateRevision st \<longrightarrow> plan = planGarbageCollection localeCompare policy st (gc_at plan))"

definition runtime_inv :: "(jsstring \<Rightarrow> jsstring \<Rightarrow> int) \<Rightarrow> RuntimePolicy \<Rightarrow> RuntimeMachine \<Rightarrow> bool" where
  "runtime_inv localeCompare policy m \<longleftrightarrow> (case m of (now, plans, st) \<Rightarrow> 0 \<le> hardMaxServingGenerationsPerMember policy
     \<and> good policy now st \<and> (\<forall>plan\<in>set plans. plan_ok localeCompare policy now st plan))"

definition runtime_later :: "RuntimeMachine \<Rightarrow> RuntimeMachine \<Rightarrow> bool" where
  "runtime_later m m' \<longleftrightarrow> fst m \<le> fst m' \<and> promises_kept (fst m') (snd (snd m)) (snd (snd m'))"

lemma plan_ok_effect:
  assumes "plan_ok localeCompare policy now st plan" "sound_effect policy now' st st'" "now \<le> now'"
  shows "plan_ok localeCompare policy now' st' plan"
  using assms unfolding plan_ok_def sound_effect_def by fastforce

lemma runtime_effect:
  assumes "runtime_inv localeCompare policy (now, plans, st)" "sound_effect policy now' st st'" "now \<le> now'"
  shows "runtime_inv localeCompare policy (now', plans, st')" "runtime_later (now, plans, st) (now', plans, st')"
proof -
  show "runtime_later (now, plans, st) (now', plans, st')" using assms(2,3) by (simp add: runtime_later_def sound_effect_def)
  have "good policy now' st'" using assms(2) by (simp add: sound_effect_def)
  with assms show "runtime_inv localeCompare policy (now', plans, st')"
    unfolding runtime_inv_def by (auto intro: plan_ok_effect)
qed

lemma runtime_inv_init:
  assumes "runtime_init policy m"
  shows "runtime_inv localeCompare policy m"
proof -
  obtain now where m: "m = (now, [], emptyState)" and policy: "assertPolicy policy = Inr ()"
    using assms by (cases m) (auto simp: runtime_init_def new_RuntimeActivationModel_def)
  have pos: "0 \<le> hardMaxServingReleases policy" "0 \<le> hardMaxServingGenerationsPerMember policy"
    using policy by (auto simp: assertPolicy_def Let_def)
  have "servedHeads emptyState p (currentHeadActivations emptyState) = {}" for p
    by (simp add: servedHeads_def currentHeadActivations_def emptyState_def fromEntries_def)
  then have "capacity_inv policy emptyState"
    using pos by (simp add: capacity_inv_def within_limits_def servedGenerations_def)
  then have "core_inv policy emptyState"
    by (simp add: core_inv_def ids_inv_def content_inv_def heads_inv_def channels_inv_def) (simp add: emptyState_def)
  moreover have "uses_inv now emptyState" by (simp add: uses_inv_def emptyState_def activeReferences_def)
  ultimately show ?thesis using pos by (simp add: runtime_inv_def m good_def)
qed

lemma runtime_inv_step:
  assumes inv: "runtime_inv localeCompare policy m" and step: "runtime_step localeCompare policy m l m'"
  shows "runtime_inv localeCompare policy m' \<and> runtime_later m m'"
  using step
proof cases
  case (step_call now c st r st' plans)
  from inv have good: "good policy now st" and policy: "0 \<le> hardMaxServingGenerationsPerMember policy"
    by (simp_all add: runtime_inv_def step_call)
  from perform_effect [OF good policy step_call(4,5)] step_call(6) have "sound_effect policy (timeOf now c) st st'" by simp
  with inv step_call show ?thesis using runtime_effect by blast
next
  case (step_plan now at plans st)
  from inv have good: "good policy now st" by (simp add: runtime_inv_def step_plan)
  then have "good policy at st" using step_plan(4) by (rule good_later)
  then have "sound_effect policy at st st" by (simp add: sound_effect_def)
  with inv step_plan have "runtime_inv localeCompare policy (at, plans, st) \<and> runtime_later (now, plans, st) (at, plans, st)"
    using runtime_effect by blast
  moreover have "plan_ok localeCompare policy at st (planGarbageCollection localeCompare policy st at)"
    by (simp add: plan_ok_def planGarbageCollection_def Let_def)
  ultimately show ?thesis unfolding step_plan by (simp add: runtime_inv_def runtime_later_def)
next
  case (step_commit plan plans st r st' now)
  from inv have good: "good policy now st" and plan: "plan_ok localeCompare policy now st plan"
    using step_commit(4) by (auto simp: runtime_inv_def step_commit)
  have "call_ok policy now st (commitGarbageCollection localeCompare policy plan st)"
    by (rule commit_ok [OF good]) (use plan in \<open>auto simp: plan_ok_def\<close>)
  with step_commit(5) have "sound_effect policy now st st'" by (simp add: call_ok_def)
  with inv step_commit show ?thesis using runtime_effect by blast
qed

lemma runtime_later_refl: "runtime_later m m"
  by (simp add: runtime_later_def)

lemma runtime_later_trans: "runtime_later m m' \<Longrightarrow> runtime_later m' m'' \<Longrightarrow> runtime_later m m''"
  unfolding runtime_later_def using promises_trans order_trans by blast

interpretation activation: monotone_run "runtime_init policy" "runtime_step localeCompare policy"
    "runtime_inv localeCompare policy" runtime_later
proof
  show "runtime_init policy m \<Longrightarrow> runtime_inv localeCompare policy m" for m by (rule runtime_inv_init)
  show "runtime_inv localeCompare policy m \<Longrightarrow> runtime_step localeCompare policy m l m' \<Longrightarrow> runtime_inv localeCompare policy m'" for m l m'
    using runtime_inv_step by blast
  show "runtime_inv localeCompare policy m \<Longrightarrow> runtime_step localeCompare policy m l m' \<Longrightarrow> runtime_later m m'" for m l m'
    using runtime_inv_step by blast
qed (rule runtime_later_refl runtime_later_trans, assumption?)+

lemma reachable_inv: "runtime_reachable localeCompare policy m \<Longrightarrow> runtime_inv localeCompare policy m"
  unfolding runtime_reachable_def using activation.inv_reachable by blast

lemma reachable_good: "runtime_reachable localeCompare policy (now, plans, st) \<Longrightarrow> good policy now st"
  using reachable_inv by (fastforce simp: runtime_inv_def)

lemma reaches_trans: "reaches step t u \<Longrightarrow> reaches step s t \<Longrightarrow> reaches step s u"
proof (induction rule: reaches.induct)
  case (reaches_step u l v)
  from reaches.reaches_step [OF reaches_step.IH [OF reaches_step.prems] reaches_step.hyps(2)] show ?case .
qed

lemma reachable_run:
  "runtime_reachable localeCompare policy m \<Longrightarrow> reaches (runtime_step localeCompare policy) m m' \<Longrightarrow> runtime_reachable localeCompare policy m'"
  unfolding runtime_reachable_def by (elim exE conjE) (intro exI conjI, assumption, rule reaches_trans)

lemma reachable_later:
  "runtime_reachable localeCompare policy m \<Longrightarrow> reaches (runtime_step localeCompare policy) m m' \<Longrightarrow> runtime_later m m'"
  by (rule activation.rel_run) (auto intro: reachable_inv)

end
