(* ===== verification/ActivationProtection.thy ===== *)
theory ActivationProtection
  imports ActivationCollection
begin

text \<open>
  What a collection must keep, as a closure: content is in use when a root names it, or other content
  in use refers to it. The loop of \<open>#expandProtectedGraph\<close> computes exactly this set.
\<close>

datatype ContentId = ReleaseContent jsstring | ActivationContent jsstring | GenerationContent jsstring | SnapshotContent jsstring

fun names :: "ContentReferences \<Rightarrow> ContentId \<Rightarrow> bool" where
  "names r (ReleaseContent k) \<longleftrightarrow> k \<in> set (cr_releaseIds r)"
| "names r (ActivationContent k) \<longleftrightarrow> k \<in> set (cr_activationIds r)"
| "names r (GenerationContent k) \<longleftrightarrow> k \<in> set (cr_generationIds r)"
| "names r (SnapshotContent k) \<longleftrightarrow> k \<in> set (cr_snapshotIds r)"

inductive in_use :: "RuntimeState \<Rightarrow> int \<Rightarrow> ContentId \<Rightarrow> bool" for st at where
  use_head_release: "h \<in> set (map_values (servingHeads st)) \<Longrightarrow> in_use st at (ReleaseContent (sh_releaseId h))"
| use_head: "h \<in> set (map_values (servingHeads st)) \<Longrightarrow> in_use st at (ActivationContent (sh_activationId h))"
| use_channel: "c \<in> set (map_values (channels st)) \<Longrightarrow> in_use st at (ActivationContent (ch_activationId c))"
| use_query: "q \<in> set (map_values (queries st)) \<Longrightarrow> ql_state q = Query_ACTIVE \<Longrightarrow> at < ql_leaseUntil q
    \<Longrightarrow> in_use st at (ActivationContent (ql_activationId q))"
| use_token: "t \<in> set (map_values (preflightTokens st)) \<Longrightarrow> pt_state t = Token_ACTIVE \<Longrightarrow> at < pt_expiresAt t
    \<Longrightarrow> in_use st at (ActivationContent (pt_activationId t))"
| use_job: "j \<in> set (map_values (jobs st)) \<Longrightarrow> jr_state j = JobRef_ACTIVE \<Longrightarrow> names (jr_references j) x \<Longrightarrow> in_use st at x"
| use_hold: "h \<in> set (map_values (holds st)) \<Longrightarrow> ho_state h = Hold_ACTIVE \<Longrightarrow> names (ho_references h) x \<Longrightarrow> in_use st at x"
| use_historical: "r \<in> set (map_values (historicalReferences st)) \<Longrightarrow> names (hi_references r) x \<Longrightarrow> in_use st at x"
| use_release_of: "in_use st at (ActivationContent k) \<Longrightarrow> map_of (activations st) k = Some a
    \<Longrightarrow> in_use st at (ReleaseContent (av_releaseId a))"
| use_generation_of: "in_use st at (ActivationContent k) \<Longrightarrow> map_of (activations st) k = Some a
    \<Longrightarrow> m \<in> set (map_values (av_members a)) \<Longrightarrow> in_use st at (GenerationContent (am_generationId m))"
| use_member_snapshot: "in_use st at (ActivationContent k) \<Longrightarrow> map_of (activations st) k = Some a
    \<Longrightarrow> m \<in> set (map_values (av_members a)) \<Longrightarrow> in_use st at (SnapshotContent (am_snapshotId m))"
| use_snapshot_of: "in_use st at (GenerationContent k) \<Longrightarrow> map_of (generations st) k = Some g
    \<Longrightarrow> in_use st at (SnapshotContent (ge_snapshotId g))"

fun protects :: "ProtectedIds \<Rightarrow> ContentId \<Rightarrow> bool" where
  "protects p (ReleaseContent k) \<longleftrightarrow> k \<in> set (pi_releaseIds p)"
| "protects p (ActivationContent k) \<longleftrightarrow> k \<in> set (pi_activationIds p)"
| "protects p (GenerationContent k) \<longleftrightarrow> k \<in> set (pi_generationIds p)"
| "protects p (SnapshotContent k) \<longleftrightarrow> k \<in> set (pi_snapshotIds p)"

subsection \<open>Nothing else is protected\<close>

definition only_used :: "RuntimeState \<Rightarrow> int \<Rightarrow> ProtectedIds \<Rightarrow> bool" where
  "only_used st at p \<longleftrightarrow> (\<forall>x. protects p x \<longrightarrow> in_use st at x)"

lemma only_used_iff: "only_used st at p \<longleftrightarrow>
    (\<forall>k\<in>set (pi_releaseIds p). in_use st at (ReleaseContent k)) \<and> (\<forall>k\<in>set (pi_activationIds p). in_use st at (ActivationContent k))
    \<and> (\<forall>k\<in>set (pi_generationIds p). in_use st at (GenerationContent k)) \<and> (\<forall>k\<in>set (pi_snapshotIds p). in_use st at (SnapshotContent k))"
proof
  assume "only_used st at p"
  then have used: "protects p x \<Longrightarrow> in_use st at x" for x by (simp add: only_used_def)
  show "(\<forall>k\<in>set (pi_releaseIds p). in_use st at (ReleaseContent k)) \<and> (\<forall>k\<in>set (pi_activationIds p). in_use st at (ActivationContent k))
    \<and> (\<forall>k\<in>set (pi_generationIds p). in_use st at (GenerationContent k)) \<and> (\<forall>k\<in>set (pi_snapshotIds p). in_use st at (SnapshotContent k))"
    using used [of "ReleaseContent _"] used [of "ActivationContent _"] used [of "GenerationContent _"] used [of "SnapshotContent _"] by simp
next
  assume *: "(\<forall>k\<in>set (pi_releaseIds p). in_use st at (ReleaseContent k)) \<and> (\<forall>k\<in>set (pi_activationIds p). in_use st at (ActivationContent k))
    \<and> (\<forall>k\<in>set (pi_generationIds p). in_use st at (GenerationContent k)) \<and> (\<forall>k\<in>set (pi_snapshotIds p). in_use st at (SnapshotContent k))"
  have "in_use st at x" if "protects p x" for x using that * by (cases x) simp_all
  then show "only_used st at p" by (simp add: only_used_def)
qed

lemma active_reference_cases:
  assumes "r \<in> set (activeReferences st)"
  obtains j where "j \<in> set (map_values (jobs st))" "jr_state j = JobRef_ACTIVE" "r = jr_references j"
  | h where "h \<in> set (map_values (holds st))" "ho_state h = Hold_ACTIVE" "r = ho_references h"
  | i where "i \<in> set (map_values (historicalReferences st))" "r = hi_references i"
  using assms unfolding activeReferences_def set_append set_filter set_map [of jr_references] set_map [of ho_references] set_map [of hi_references]
  by blast

lemma active_reference_used:
  assumes "r \<in> set (activeReferences st)" "names r x"
  shows "in_use st at x"
  using assms(1)
proof (cases rule: active_reference_cases)
  case (1 j)
  show ?thesis by (rule use_job [OF 1(1,2)]) (use assms(2) 1(3) in simp)
next
  case (2 h)
  show ?thesis by (rule use_hold [OF 2(1,2)]) (use assms(2) 2(3) in simp)
next
  case (3 i)
  show ?thesis by (rule use_historical [OF 3(1)]) (use assms(2) 3(2) in simp)
qed

lemma rootIds_used: "only_used st at (rootIds st at)"
proof -
  have refs: "in_use st at x" if "r \<in> set (activeReferences st)" "names r x" for r x
    using that by (rule active_reference_used)
  have named: "\<forall>k\<in>\<Union> ((\<lambda>r. set (cr_releaseIds r)) ` set (activeReferences st)). in_use st at (ReleaseContent k)"
    "\<forall>k\<in>\<Union> ((\<lambda>r. set (cr_activationIds r)) ` set (activeReferences st)). in_use st at (ActivationContent k)"
    "\<forall>k\<in>\<Union> ((\<lambda>r. set (cr_generationIds r)) ` set (activeReferences st)). in_use st at (GenerationContent k)"
    "\<forall>k\<in>\<Union> ((\<lambda>r. set (cr_snapshotIds r)) ` set (activeReferences st)). in_use st at (SnapshotContent k)"
    using refs by (fastforce)+
  have heads: "\<forall>k\<in>sh_releaseId ` set (map_values (servingHeads st)). in_use st at (ReleaseContent k)"
    "\<forall>k\<in>sh_activationId ` set (map_values (servingHeads st)). in_use st at (ActivationContent k)"
    "\<forall>k\<in>ch_activationId ` set (map_values (channels st)). in_use st at (ActivationContent k)"
    by (blast intro: in_use.intros)+
  have uses: "\<forall>k\<in>ql_activationId ` {q \<in> set (map_values (queries st)). ql_state q = Query_ACTIVE \<and> at < ql_leaseUntil q}. in_use st at (ActivationContent k)"
    "\<forall>k\<in>pt_activationId ` {t \<in> set (map_values (preflightTokens st)). pt_state t = Token_ACTIVE \<and> at < pt_expiresAt t}. in_use st at (ActivationContent k)"
    by (blast intro: in_use.intros)+
  show ?thesis
    unfolding only_used_iff rootIds_def addReferences_sets ProtectedIds.simps set_unique set_append set_map set_filter ball_Un
    using named heads uses by (intro conjI) (assumption | simp)+
qed

lemma ball_map: "(\<And>m. m \<in> set ms \<Longrightarrow> P (f m)) \<Longrightarrow> \<forall>x\<in>set (map f ms). P x"
  by simp

lemma expandActivation_used:
  assumes used: "only_used st at p" and k: "in_use st at (ActivationContent k)"
  shows "only_used st at (expandActivation st p k)"
proof (cases "map_of (activations st) k")
  case None
  with used show ?thesis by (simp add: expandActivation_def)
next
  case (Some a)
  note own = use_release_of [OF k Some] use_generation_of [OF k Some] use_member_snapshot [OF k Some]
  have members: "\<forall>x\<in>set (memberGenerations a). in_use st at (GenerationContent x)"
    "\<forall>x\<in>set (memberSnapshots a). in_use st at (SnapshotContent x)"
    unfolding memberGenerations_def memberSnapshots_def by (rule ball_map, rule own, assumption)+
  show ?thesis
    using used members own(1) by (simp add: only_used_iff expandActivation_def Some ball_Un)
qed

lemma expandGeneration_used:
  "only_used st at p \<Longrightarrow> in_use st at (GenerationContent k) \<Longrightarrow> only_used st at (expandGeneration st p k)"
  unfolding only_used_iff expandGeneration_def by (auto split: option.split intro: use_snapshot_of)

lemma foldl_used:
  assumes "\<And>p x. P p \<Longrightarrow> Q x \<Longrightarrow> P (f p x)" "P p" "\<forall>x\<in>set xs. Q x"
  shows "P (foldl f p xs)"
  using assms(2,3) by (induction xs arbitrary: p) (auto intro: assms(1))

lemma expandRound_used:
  assumes "only_used st at p"
  shows "only_used st at (expandRound st p)"
proof -
  let ?q = "foldl (expandActivation st) p (pi_activationIds p)"
  have "only_used st at ?q"
  proof (rule foldl_used [where P = "only_used st at" and Q = "\<lambda>k. in_use st at (ActivationContent k)"])
    show "\<forall>k\<in>set (pi_activationIds p). in_use st at (ActivationContent k)" using assms unfolding only_used_iff by (elim conjE)
  qed (rule expandActivation_used assms | assumption)+
  moreover from this have "\<forall>k\<in>set (pi_generationIds ?q). in_use st at (GenerationContent k)" by (simp add: only_used_iff)
  ultimately show ?thesis
    unfolding expandRound_def Let_def
    by - (rule foldl_used [where P = "only_used st at" and Q = "\<lambda>k. in_use st at (GenerationContent k)"],
      rule expandGeneration_used, assumption+)
qed

subsection \<open>Everything in use is protected\<close>

lemma protects_contained: "protects p x \<Longrightarrow> contained p q \<Longrightarrow> protects q x"
  by (cases x) (auto simp: contained_def)

lemma rootIds_references: "r \<in> set (activeReferences st) \<Longrightarrow> names r x \<Longrightarrow> protects (rootIds st at) x"
  by (cases x) (auto simp: rootIds_def addReferences_sets)

lemma active_references:
  "j \<in> set (map_values (jobs st)) \<Longrightarrow> jr_state j = JobRef_ACTIVE \<Longrightarrow> jr_references j \<in> set (activeReferences st)"
  "h \<in> set (map_values (holds st)) \<Longrightarrow> ho_state h = Hold_ACTIVE \<Longrightarrow> ho_references h \<in> set (activeReferences st)"
  "r \<in> set (map_values (historicalReferences st)) \<Longrightarrow> hi_references r \<in> set (activeReferences st)"
  unfolding activeReferences_def set_append set_map set_filter by blast+

lemma rootIds_roots:
  "h \<in> set (map_values (servingHeads st)) \<Longrightarrow> sh_releaseId h \<in> set (pi_releaseIds (rootIds st at))"
  "h \<in> set (map_values (servingHeads st)) \<Longrightarrow> sh_activationId h \<in> set (pi_activationIds (rootIds st at))"
  "c \<in> set (map_values (channels st)) \<Longrightarrow> ch_activationId c \<in> set (pi_activationIds (rootIds st at))"
  "q \<in> set (map_values (queries st)) \<Longrightarrow> ql_state q = Query_ACTIVE \<Longrightarrow> at < ql_leaseUntil q
    \<Longrightarrow> ql_activationId q \<in> set (pi_activationIds (rootIds st at))"
  "t \<in> set (map_values (preflightTokens st)) \<Longrightarrow> pt_state t = Token_ACTIVE \<Longrightarrow> at < pt_expiresAt t
    \<Longrightarrow> pt_activationId t \<in> set (pi_activationIds (rootIds st at))"
  unfolding rootIds_def addReferences_sets ProtectedIds.simps set_unique set_append set_map set_filter by blast+

lemma in_use_protected:
  assumes "in_use st at x" and roots: "contained (rootIds st at) p" and closed: "graph_closed st p"
  shows "protects p x"
  using assms(1)
proof (induction rule: in_use.induct)
  case (use_release_of k a)
  then show ?case using closed by (auto simp: graph_closed_def activation_closed_def)
next
  case (use_generation_of k a m)
  then show ?case using closed by (fastforce simp: graph_closed_def activation_closed_def memberGenerations_def)
next
  case (use_member_snapshot k a m)
  then show ?case using closed by (fastforce simp: graph_closed_def activation_closed_def memberSnapshots_def)
next
  case (use_snapshot_of k g)
  then show ?case using closed by (auto simp: graph_closed_def generation_closed_def)
next
  case (use_job j x)
  show ?case by (rule protects_contained [OF rootIds_references [OF active_references(1) [OF use_job(1,2)] use_job(3)] roots])
next
  case (use_hold h x)
  show ?case by (rule protects_contained [OF rootIds_references [OF active_references(2) [OF use_hold(1,2)] use_hold(3)] roots])
next
  case (use_historical r x)
  show ?case by (rule protects_contained [OF rootIds_references [OF active_references(3) [OF use_historical(1)] use_historical(2)] roots])
qed (rule protects_contained [OF _ roots], simp only: protects.simps rootIds_roots)+

lemma protectedIds_in_use:
  "{x. protects (protectedIds localeCompare policy st at False) x} = {x. in_use st at x}"
  "{x. in_use st at x} \<subseteq> {x. protects (protectedIds localeCompare policy st at True) x}"
proof -
  have eq: "protectedIds localeCompare policy st at False = expandProtectedGraph st (rootIds st at)" by (simp add: protectedIds_def Let_def)
  have "only_used st at (protectedIds localeCompare policy st at False)"
    unfolding eq expandProtectedGraph_round by (rule expandRound_used [OF rootIds_used])
  moreover have "contained (rootIds st at) (protectedIds localeCompare policy st at False)"
    unfolding eq by (rule expandProtectedGraph_contained)
  ultimately show "{x. protects (protectedIds localeCompare policy st at False) x} = {x. in_use st at x}"
    using in_use_protected [OF _ _ protectedIds_closed] by (auto simp: only_used_def)
  show "{x. in_use st at x} \<subseteq> {x. protects (protectedIds localeCompare policy st at True) x}"
    using in_use_protected [OF _ rootIds_protected protectedIds_closed] by blast
qed

subsection \<open>What a plan may list\<close>

fun listed :: "GarbageCollectionPlan \<Rightarrow> ContentId \<Rightarrow> bool" where
  "listed plan (ReleaseContent k) \<longleftrightarrow> k \<in> set (gc_releaseIds plan)"
| "listed plan (ActivationContent k) \<longleftrightarrow> k \<in> set (gc_activationIds plan)"
| "listed plan (GenerationContent k) \<longleftrightarrow> k \<in> set (gc_generationIds plan)"
| "listed plan (SnapshotContent k) \<longleftrightarrow> k \<in> set (gc_snapshotIds plan)"

text \<open>A record that is there, and was neither created nor in service after a time.\<close>

fun idle_since :: "RuntimeState \<Rightarrow> int \<Rightarrow> ContentId \<Rightarrow> bool" where
  "idle_since st cutoff (ReleaseContent k) \<longleftrightarrow> (\<exists>r\<in>set (map_values (releases st)). rl_id r = k \<and> rl_state r = Release_RETIRED
     \<and> \<not> (\<exists>t. rl_retiredAt r = Some t \<and> cutoff < t))"
| "idle_since st cutoff (ActivationContent k) \<longleftrightarrow> (\<exists>a\<in>set (map_values (activations st)). av_id a = k \<and> av_state a = READY
     \<and> av_createdAt a \<le> cutoff \<and> \<not> (\<exists>t. av_lastServingAt a = Some t \<and> cutoff < t))"
| "idle_since st cutoff (GenerationContent k) \<longleftrightarrow> (\<exists>g\<in>set (map_values (generations st)). ge_id g = k \<and> ge_state g = READY
     \<and> ge_createdAt g \<le> cutoff \<and> \<not> (\<exists>t. ge_lastServingAt g = Some t \<and> cutoff < t))"
| "idle_since st cutoff (SnapshotContent k) \<longleftrightarrow> (\<exists>s\<in>set (map_values (snapshots st)). sn_id s = k \<and> sn_state s = READY
     \<and> sn_createdAt s \<le> cutoff \<and> \<not> (\<exists>t. sn_lastServingAt s = Some t \<and> cutoff < t))"

lemma recent_iff: "recent cutoff createdAt servedAt \<longleftrightarrow> cutoff < createdAt \<or> (\<exists>t. servedAt = Some t \<and> cutoff < t)"
  by (cases servedAt) (auto simp: recent_def)

lemma map_filter_in: "x \<in> set xs \<Longrightarrow> P x \<Longrightarrow> f x \<in> set (map f (filter P xs))"
  by simp

lemma recent_protected:
  "r \<in> set (map_values (releases st)) \<Longrightarrow> rl_retiredAt r = Some t \<Longrightarrow> at - minimumInactiveRetentionMs policy < t
      \<Longrightarrow> rl_id r \<in> set (pi_releaseIds (protectedIds localeCompare policy st at True))"
    "a \<in> set (map_values (activations st)) \<Longrightarrow> av_state a = READY \<Longrightarrow> recent (at - minimumInactiveRetentionMs policy) (av_createdAt a) (av_lastServingAt a)
      \<Longrightarrow> av_id a \<in> set (pi_activationIds (protectedIds localeCompare policy st at True))"
    "g \<in> set (map_values (generations st)) \<Longrightarrow> ge_state g = READY \<Longrightarrow> recent (at - minimumInactiveRetentionMs policy) (ge_createdAt g) (ge_lastServingAt g)
      \<Longrightarrow> ge_id g \<in> set (pi_generationIds (protectedIds localeCompare policy st at True))"
    "s \<in> set (map_values (snapshots st)) \<Longrightarrow> sn_state s = READY \<Longrightarrow> recent (at - minimumInactiveRetentionMs policy) (sn_createdAt s) (sn_lastServingAt s)
      \<Longrightarrow> sn_id s \<in> set (pi_snapshotIds (protectedIds localeCompare policy st at True))"
proof -
  define p where "p = expandProtectedGraph st (rootIds st at)"
  define rs where "rs = map rl_id (filter (\<lambda>r. rl_state r = Release_STAGED
    \<or> (case rl_retiredAt r of None \<Rightarrow> False | Some t \<Rightarrow> at - minimumInactiveRetentionMs policy < t)) (map_values (releases st)))"
  define as where "as = map av_id (filter (\<lambda>a. av_state a = READY \<and> recent (at - minimumInactiveRetentionMs policy) (av_createdAt a) (av_lastServingAt a)) (map_values (activations st)))"
  define ss where "ss = map sn_id (filter (\<lambda>s. sn_state s = READY \<and> recent (at - minimumInactiveRetentionMs policy) (sn_createdAt s) (sn_lastServingAt s)) (map_values (snapshots st)))"
  define gs where "gs = map ge_id (filter (\<lambda>g. ge_state g = READY \<and> recent (at - minimumInactiveRetentionMs policy) (ge_createdAt g) (ge_lastServingAt g)) (map_values (generations st)))"
  define q where "q = p\<lparr>pi_generationIds := addAll (retainedGenerations localeCompare policy st p) (pi_generationIds p)\<rparr>"
  define w where "w = q\<lparr>pi_releaseIds := addAll rs (pi_releaseIds q), pi_activationIds := addAll as (pi_activationIds q),
    pi_snapshotIds := addAll ss (pi_snapshotIds q), pi_generationIds := addAll gs (pi_generationIds q)\<rparr>"
  have "protectedIds localeCompare policy st at True = expandProtectedGraph st w"
    unfolding protectedIds_def Let_def by (simp add: w_def q_def p_def rs_def as_def ss_def gs_def)
  then have "contained w (protectedIds localeCompare policy st at True)" by (simp add: expandProtectedGraph_contained)
  then have kept: "set rs \<subseteq> set (pi_releaseIds (protectedIds localeCompare policy st at True))"
    "set as \<subseteq> set (pi_activationIds (protectedIds localeCompare policy st at True))"
    "set gs \<subseteq> set (pi_generationIds (protectedIds localeCompare policy st at True))"
    "set ss \<subseteq> set (pi_snapshotIds (protectedIds localeCompare policy st at True))"
    by (simp_all add: contained_def w_def)
  show "r \<in> set (map_values (releases st)) \<Longrightarrow> rl_retiredAt r = Some t \<Longrightarrow> at - minimumInactiveRetentionMs policy < t
      \<Longrightarrow> rl_id r \<in> set (pi_releaseIds (protectedIds localeCompare policy st at True))"
    by (rule subsetD [OF kept(1)]) (unfold rs_def, rule map_filter_in, assumption, simp)
  show "a \<in> set (map_values (activations st)) \<Longrightarrow> av_state a = READY \<Longrightarrow> recent (at - minimumInactiveRetentionMs policy) (av_createdAt a) (av_lastServingAt a)
      \<Longrightarrow> av_id a \<in> set (pi_activationIds (protectedIds localeCompare policy st at True))"
    by (rule subsetD [OF kept(2)]) (unfold as_def, rule map_filter_in, assumption, simp)
  show "g \<in> set (map_values (generations st)) \<Longrightarrow> ge_state g = READY \<Longrightarrow> recent (at - minimumInactiveRetentionMs policy) (ge_createdAt g) (ge_lastServingAt g)
      \<Longrightarrow> ge_id g \<in> set (pi_generationIds (protectedIds localeCompare policy st at True))"
    by (rule subsetD [OF kept(3)]) (unfold gs_def, rule map_filter_in, assumption, simp)
  show "s \<in> set (map_values (snapshots st)) \<Longrightarrow> sn_state s = READY \<Longrightarrow> recent (at - minimumInactiveRetentionMs policy) (sn_createdAt s) (sn_lastServingAt s)
      \<Longrightarrow> sn_id s \<in> set (pi_snapshotIds (protectedIds localeCompare policy st at True))"
    by (rule subsetD [OF kept(4)]) (unfold ss_def, rule map_filter_in, assumption, simp)
qed

lemma filtered: "x \<in> set (sort (map f (filter P xs))) \<Longrightarrow> \<exists>y\<in>set xs. P y \<and> f y = x"
  by auto

lemma planned_is_idle:
  assumes "listed (planGarbageCollection localeCompare policy st at) x"
  shows "idle_since st (at - minimumInactiveRetentionMs policy) x \<and> \<not> protects (protectedIds localeCompare policy st at True) x"
proof (cases x)
  case (ReleaseContent k)
  with assms have "k \<in> set (gc_releaseIds (planGarbageCollection localeCompare policy st at))" by (simp only: listed.simps)
  from filtered [OF this [unfolded planGarbageCollection_def Let_def GarbageCollectionPlan.simps]]
  obtain r where r: "r \<in> set (map_values (releases st))" "rl_state r = Release_RETIRED" "rl_id r = k"
    "rl_id r \<notin> set (pi_releaseIds (protectedIds localeCompare policy st at True))" by blast
  with recent_protected(1) [OF r(1)] show ?thesis unfolding ReleaseContent idle_since.simps protects.simps by blast
next
  case (ActivationContent k)
  with assms have "k \<in> set (gc_activationIds (planGarbageCollection localeCompare policy st at))" by (simp only: listed.simps)
  from filtered [OF this [unfolded planGarbageCollection_def Let_def GarbageCollectionPlan.simps]]
  obtain a where a: "a \<in> set (map_values (activations st))" "av_state a = READY" "av_id a = k"
    "av_id a \<notin> set (pi_activationIds (protectedIds localeCompare policy st at True))" by blast
  from recent_protected(2) [OF a(1,2)] a(4) have "\<not> recent (at - minimumInactiveRetentionMs policy) (av_createdAt a) (av_lastServingAt a)" by blast
  with a show ?thesis unfolding ActivationContent idle_since.simps protects.simps recent_iff not_less [symmetric] by blast
next
  case (GenerationContent k)
  with assms have "k \<in> set (gc_generationIds (planGarbageCollection localeCompare policy st at))" by (simp only: listed.simps)
  from filtered [OF this [unfolded planGarbageCollection_def Let_def GarbageCollectionPlan.simps]]
  obtain g where g: "g \<in> set (map_values (generations st))" "ge_state g = READY" "ge_id g = k"
    "ge_id g \<notin> set (pi_generationIds (protectedIds localeCompare policy st at True))" by blast
  from recent_protected(3) [OF g(1,2)] g(4) have "\<not> recent (at - minimumInactiveRetentionMs policy) (ge_createdAt g) (ge_lastServingAt g)" by blast
  with g show ?thesis unfolding GenerationContent idle_since.simps protects.simps recent_iff not_less [symmetric] by blast
next
  case (SnapshotContent k)
  with assms have "k \<in> set (gc_snapshotIds (planGarbageCollection localeCompare policy st at))" by (simp only: listed.simps)
  from filtered [OF this [unfolded planGarbageCollection_def Let_def GarbageCollectionPlan.simps]]
  obtain s where s: "s \<in> set (map_values (snapshots st))" "sn_state s = READY" "sn_id s = k"
    "sn_id s \<notin> set (pi_snapshotIds (protectedIds localeCompare policy st at True))" by blast
  from recent_protected(4) [OF s(1,2)] s(4) have "\<not> recent (at - minimumInactiveRetentionMs policy) (sn_createdAt s) (sn_lastServingAt s)" by blast
  with s show ?thesis unfolding SnapshotContent idle_since.simps protects.simps recent_iff not_less [symmetric] by blast
qed

end
