(* ===== verification/ActivationProperties.thy ===== *)
theory ActivationProperties
  imports ActivationMachine ActivationProtection
begin

text \<open>
  What the runtime activation protocol promises in every reachable state, each with a run that shows
  the promise at work.
\<close>

subsection \<open>Runs\<close>

fun do_calls :: "RuntimePolicy \<Rightarrow> RuntimeCall list \<Rightarrow> int \<times> RuntimeState \<Rightarrow> (int \<times> RuntimeState) option" where
  "do_calls policy [] m = Some m"
| "do_calls policy (c # cs) (now, st) = (if now \<le> timeOf now c \<and> well_typed c
     then do_calls policy cs (timeOf now c, snd (perform policy c st)) else None)"

lemma do_calls_reaches:
  "do_calls policy cs (now, st) = Some (now', st') \<Longrightarrow> reaches (runtime_step localeCompare policy) (now, plans, st) (now', plans, st')"
proof (induction cs arbitrary: now st)
  case Nil
  then show ?case by (simp add: reaches_refl)
next
  case (Cons c cs)
  then have c: "now \<le> timeOf now c" "well_typed c" and rest: "do_calls policy cs (timeOf now c, snd (perform policy c st)) = Some (now', st')"
    by (auto split: if_splits)
  have "runtime_step localeCompare policy (now, plans, st) (Call c) (timeOf now c, plans, snd (perform policy c st))"
    by (rule step_call [OF c, where r = "fst (perform policy c st)"]) simp
  with reaches_refl have "reaches (runtime_step localeCompare policy) (now, plans, st) (timeOf now c, plans, snd (perform policy c st))"
    by (rule reaches_step)
  with Cons.IH [OF rest] show ?case by (rule reaches_trans)
qed

lemma do_calls_reachable:
  assumes "do_calls policy cs (now, emptyState) = Some (now', st')" "assertPolicy policy = Inr ()"
  shows "runtime_reachable localeCompare policy (now', [], st')"
  unfolding runtime_reachable_def
proof (intro exI conjI)
  show "runtime_init policy (now, [], emptyState)" using assms(2) by (simp add: runtime_init_def new_RuntimeActivationModel_def)
  show "reaches (runtime_step localeCompare policy) (now, [], emptyState) (now', [], st')" by (rule do_calls_reaches [OF assms(1)])
qed

lemma default_policy_valid: "assertPolicy defaultRuntimePolicy = Inr ()"
  by code_simp

subsection \<open>A deployment\<close>

text \<open>Two generations of the data of one release; the release is published on the first.\<close>

definition example_release :: "RuntimeCall list" where
  "example_release =
    [RegisterRelease \<lparr>ri_id = js ''r'', ri_projectId = js ''p'', ri_manifestHash = js ''m'',
       ri_pins = [\<lparr>pin_memberKey = js ''k'', pin_resourceRevisionId = js ''1'', pin_schemaHash = js ''s'', pin_mappingHash = js ''h'', pin_snapshotGroupKey = js ''g''\<rparr>],
       ri_stagedAt = 0, ri_rollbackOf = None\<rparr>,
     RegisterSnapshot \<lparr>si_id = js ''s1'', si_projectId = js ''p'', si_groupKey = js ''g'', si_groupVersion = js ''1'', si_createdAt = 0\<rparr>,
     RegisterSnapshot \<lparr>si_id = js ''s2'', si_projectId = js ''p'', si_groupKey = js ''g'', si_groupVersion = js ''2'', si_createdAt = 0\<rparr>,
     RegisterGeneration \<lparr>gi_id = js ''g1'', gi_projectId = js ''p'', gi_memberKey = js ''k'', gi_snapshotId = js ''s1'', gi_buildReleaseId = js ''r'',
       gi_compatibleReleaseIds = None, gi_certificateByReleaseId = None, gi_createdAt = 0\<rparr>,
     RegisterGeneration \<lparr>gi_id = js ''g2'', gi_projectId = js ''p'', gi_memberKey = js ''k'', gi_snapshotId = js ''s2'', gi_buildReleaseId = js ''r'',
       gi_compatibleReleaseIds = None, gi_certificateByReleaseId = None, gi_createdAt = 0\<rparr>,
     CreateActivation \<lparr>ai_id = js ''a1'', ai_projectId = js ''p'', ai_sourceChannel = js ''c'', ai_releaseId = js ''r'',
       ai_members = [(js ''k'', \<lparr>am_generationId = js ''g1'', am_snapshotId = js ''s1''\<rparr>)], ai_createdAt = 0\<rparr>,
     CreateActivation \<lparr>ai_id = js ''a2'', ai_projectId = js ''p'', ai_sourceChannel = js ''c'', ai_releaseId = js ''r'',
       ai_members = [(js ''k'', \<lparr>am_generationId = js ''g2'', am_snapshotId = js ''s2''\<rparr>)], ai_createdAt = 0\<rparr>,
     Publish \<lparr>pb_releaseId = js ''r'', pb_channel = js ''c'', pb_activationId = js ''a1'', pb_expectedControlRevision = 0, pb_at = 10,
       pb_supportUntil = None, pb_capacityApprovalId = None\<rparr>]"

definition example_refresh :: "RuntimeCall list" where
  "example_refresh = [Refresh \<lparr>rf_replacements = [(js ''r'', js ''a2'')], rf_expectedControlRevision = 1, rf_at = 30, rf_capacityApprovalId = None\<rparr>]"

lemma example_release_run:
  obtains st where "do_calls defaultRuntimePolicy example_release (0, emptyState) = Some (10, st)"
    "resolve st (SelectChannel (js ''p'') (js ''c'')) = Inr \<lparr>ra_activationId = js ''a1'', ra_releaseId = js ''r'', ra_releaseManifestHash = js ''m''\<rparr>"
proof -
  have "(case do_calls defaultRuntimePolicy example_release (0, emptyState) of
      None \<Rightarrow> False
    | Some (now, st) \<Rightarrow> now = 10 \<and> resolve st (SelectChannel (js ''p'') (js ''c''))
        = Inr \<lparr>ra_activationId = js ''a1'', ra_releaseId = js ''r'', ra_releaseManifestHash = js ''m''\<rparr>)"
    by code_simp
  then show thesis using that by (auto split: option.splits)
qed

subsection \<open>Properties\<close>

text \<open>
  Claim C2. In every state that calls, plans and commits of collections reach from a new model, in any
  order and interleaving and also when calls throw, \<open>assertInvariants\<close> passes at every time from now on.
\<close>

theorem activation_invariants_hold:
  assumes "runtime_reachable localeCompare policy (now, plans, st)" and "now \<le> at"
  shows "assertInvariants localeCompare policy at st = Inr ()"
  using assertInvariants_Inr [OF good_core good_uses] reachable_good [OF assms(1)] assms(2) by blast

theorem activation_invariants_hold_witness:
  "\<exists>st. runtime_reachable compareText defaultRuntimePolicy (10, [], st) \<and> servingHeads st \<noteq> []
     \<and> assertInvariants compareText defaultRuntimePolicy 20 st = Inr ()"
proof -
  have "(case do_calls defaultRuntimePolicy example_release (0, emptyState) of
      None \<Rightarrow> False | Some (now, st) \<Rightarrow> now = 10 \<and> servingHeads st \<noteq> [])" by code_simp
  then obtain st where st: "do_calls defaultRuntimePolicy example_release (0, emptyState) = Some (10, st)" "servingHeads st \<noteq> []"
    by (auto split: option.splits)
  have reachable: "runtime_reachable compareText defaultRuntimePolicy (10, [], st)"
    by (rule do_calls_reachable [OF st(1) default_policy_valid])
  moreover have "assertInvariants compareText defaultRuntimePolicy 20 st = Inr ()"
    by (rule activation_invariants_hold [OF reachable]) simp
  ultimately show ?thesis using st(2) by blast
qed

text \<open>
  Claim C4. Snapshot isolation: what a query has read once it reads again, whatever is published,
  refreshed, retired or collected in between, as long as its lease runs; and the generation and the
  snapshot it reads are there.
\<close>

theorem query_reads_stable:
  assumes reachable: "runtime_reachable localeCompare policy (now, plans, st)"
    and run: "reaches (runtime_step localeCompare policy) (now, plans, st) (now', plans', st')"
    and read: "readQueryMember k memberKey t st = Inr m"
    and open_query: "map_of (queries st') k = Some q" "ql_state q = Query_ACTIVE" "now' \<le> t'" "t' < ql_leaseUntil q"
  shows "readQueryMember k memberKey t' st' = Inr m
    \<and> (\<exists>g s. map_of (generations st') (am_generationId m) = Some g \<and> ge_state g = READY \<and> ge_memberKey g = memberKey
        \<and> map_of (snapshots st') (am_snapshotId m) = Some s \<and> sn_state s = READY)"
proof -
  from read obtain q0 a where q0: "map_of (queries st) k = Some q0" and a: "ready_activation st (ql_activationId q0) a"
    and m: "map_of (av_members a) memberKey = Some m" by (auto simp: readQueryMember_def)
  have kept: "promises_kept now' st st'" using reachable_later [OF reachable run] by (simp add: runtime_later_def)
  then have "ql_activationId q = ql_activationId q0"
    using q0 open_query(1) unfolding promises_kept_def later_query_def by fastforce
  moreover obtain b where b: "map_of (activations st') (ql_activationId q0) = Some b" "av_members b = av_members a"
    using kept a unfolding promises_kept_def ready_activation_def same_activation_def by blast
  moreover have good: "good policy now' st'" by (rule reachable_good [OF reachable_run [OF reachable run]])
  moreover have "query_ok now' st' q" by (rule uses_query_ok [OF good_uses [OF good] open_query(1)])
  ultimately have ready: "ready_activation st' (ql_activationId q) b"
    using open_query(2-4) by (auto simp: query_ok_def ready_activation_def)
  have "map_of (av_members b) memberKey = Some m" using b m by simp
  with ready open_query have "readQueryMember k memberKey t' st' = Inr m" by (auto simp: readQueryMember_def)
  moreover obtain g s where "map_of (generations st') (am_generationId m) = Some g" "ge_state g = READY"
      "map_of (snapshots st') (am_snapshotId m) = Some s" "sn_state s = READY" "ge_memberKey g = memberKey"
    by (rule validateActivation_member [OF core_valid [OF good_core [OF good] ready] \<open>map_of (av_members b) memberKey = Some m\<close>])
  ultimately show ?thesis by blast
qed

text \<open>The query reads the first generation after the head and the channel have moved to the second.\<close>

theorem query_reads_stable_witness:
  "\<exists>st st'. readQueryMember (js ''q'') (js ''k'') 25 st = Inr \<lparr>am_generationId = js ''g1'', am_snapshotId = js ''s1''\<rparr>
     \<and> resolve st' (SelectRelease (js ''r'')) = Inr \<lparr>ra_activationId = js ''a2'', ra_releaseId = js ''r'', ra_releaseManifestHash = js ''m''\<rparr>
     \<and> readQueryMember (js ''q'') (js ''k'') 40 st' = Inr \<lparr>am_generationId = js ''g1'', am_snapshotId = js ''s1''\<rparr>"
proof -
  let ?m = "\<lparr>am_generationId = js ''g1'', am_snapshotId = js ''s1''\<rparr>"
  let ?q = "\<lparr>ql_id = js ''q'', ql_selector = SelectRelease (js ''r''), ql_activationId = js ''a1'', ql_resolutionCount = 1,
    ql_startedAt = 20, ql_leaseUntil = 100, ql_state = Query_ACTIVE\<rparr>"
  have "(case do_calls defaultRuntimePolicy (example_release @ [BeginQuery (js ''q'') (SelectRelease (js ''r'')) 20 100]) (0, emptyState) of
      None \<Rightarrow> False
    | Some (now, st) \<Rightarrow> now = 20 \<and> readQueryMember (js ''q'') (js ''k'') 25 st = Inr ?m
        \<and> (case do_calls defaultRuntimePolicy example_refresh (20, st) of
             None \<Rightarrow> False
           | Some (now', st') \<Rightarrow> now' = 30 \<and> map_of (queries st') (js ''q'') = Some ?q
               \<and> resolve st' (SelectRelease (js ''r'')) = Inr \<lparr>ra_activationId = js ''a2'', ra_releaseId = js ''r'', ra_releaseManifestHash = js ''m''\<rparr>))"
    by code_simp
  then obtain st st' where first: "do_calls defaultRuntimePolicy (example_release @ [BeginQuery (js ''q'') (SelectRelease (js ''r'')) 20 100]) (0, emptyState) = Some (20, st)"
      and read: "readQueryMember (js ''q'') (js ''k'') 25 st = Inr ?m"
      and second: "do_calls defaultRuntimePolicy example_refresh (20, st) = Some (30, st')"
      and q: "map_of (queries st') (js ''q'') = Some ?q"
      and head: "resolve st' (SelectRelease (js ''r'')) = Inr \<lparr>ra_activationId = js ''a2'', ra_releaseId = js ''r'', ra_releaseManifestHash = js ''m''\<rparr>"
    by (auto split: option.splits)
  have "readQueryMember (js ''q'') (js ''k'') 40 st' = Inr ?m"
    using query_reads_stable [OF do_calls_reachable [OF first default_policy_valid] do_calls_reaches [OF second] read q, of 40] by simp
  with read head show ?thesis by blast
qed

text \<open>
  Claim C8. A published release resolves, to an activation of its own, in every later state before the
  end of its support window, whatever is called in between.
\<close>

theorem supported_release_resolves:
  assumes reachable: "runtime_reachable localeCompare policy (now, plans, st)"
    and run: "reaches (runtime_step localeCompare policy) (now, plans, st) (now', plans', st')"
    and r: "map_of (releases st) k = Some r" "rl_state r = Release_PUBLISHED" "rl_supportUntil r = Some s" "now' < s"
  shows "\<exists>a. resolve st' (SelectRelease k) = Inr a \<and> ra_releaseId a = k"
proof -
  have "promises_kept now' st st'" using reachable_later [OF reachable run] by (simp add: runtime_later_def)
  moreover have "serves_until st k s" using r by (simp add: serves_until_def)
  ultimately have "serves_until st' k s" using \<open>now' < s\<close> unfolding promises_kept_def by fastforce
  then obtain r' where r': "map_of (releases st') k = Some r'" "rl_state r' = Release_PUBLISHED" by (auto simp: serves_until_def)
  have good: "good policy now' st'" by (rule reachable_good [OF reachable_run [OF reachable run]])
  from core_published [OF good_core [OF good] r'] obtain h where h: "map_of (servingHeads st') k = Some h" by blast
  from core_head [OF good_core [OF good] h] obtain a where a: "ready_activation st' (sh_activationId h) a" "av_releaseId a = k" by blast
  have "resolveActivation st' (SelectRelease k) = Inr a"
    using r' h a(1) release_id [OF good_ids [OF good] r'(1)] by (auto simp: resolveActivation_def)
  with a(2) show ?thesis by (auto simp: resolve_def resolved_def)
qed

theorem supported_release_resolves_witness:
  "\<exists>st' a. runtime_reachable compareText defaultRuntimePolicy (30, [], st') \<and> resolve st' (SelectRelease (js ''r'')) = Inr a
     \<and> ra_releaseId a = js ''r''"
proof -
  have "(case do_calls defaultRuntimePolicy example_release (0, emptyState) of
      None \<Rightarrow> False
    | Some (now, st) \<Rightarrow> now = 10
        \<and> (case map_of (releases st) (js ''r'') of None \<Rightarrow> False | Some r \<Rightarrow> rl_state r = Release_PUBLISHED \<and> rl_supportUntil r = Some 7776000010)
        \<and> (case do_calls defaultRuntimePolicy example_refresh (10, st) of None \<Rightarrow> False | Some (now', st') \<Rightarrow> now' = 30))"
    by code_simp
  then obtain st st' r where first: "do_calls defaultRuntimePolicy example_release (0, emptyState) = Some (10, st)"
      and r: "map_of (releases st) (js ''r'') = Some r" "rl_state r = Release_PUBLISHED" "rl_supportUntil r = Some 7776000010"
      and second: "do_calls defaultRuntimePolicy example_refresh (10, st) = Some (30, st')"
    by (auto split: option.splits)
  note reachable = do_calls_reachable [OF first default_policy_valid, of compareText]
  note run = do_calls_reaches [OF second, of compareText "[]"]
  from supported_release_resolves [OF reachable run r] reachable_run [OF reachable run] show ?thesis by auto
qed

text \<open>What serves a project: its published releases, and the generations of a member in the activations at their heads.\<close>

definition published_releases :: "RuntimeState \<Rightarrow> jsstring \<Rightarrow> jsstring set" where
  "published_releases st projectId = {k. \<exists>r. map_of (releases st) k = Some r \<and> rl_state r = Release_PUBLISHED \<and> rl_projectId r = projectId}"

definition serving_generations :: "RuntimeState \<Rightarrow> jsstring \<Rightarrow> jsstring \<Rightarrow> jsstring set" where
  "serving_generations st projectId memberKey = {am_generationId m | m k h a. k \<in> published_releases st projectId
     \<and> map_of (servingHeads st) k = Some h \<and> map_of (activations st) (sh_activationId h) = Some a \<and> (memberKey, m) \<in> set (av_members a)}"

lemma served_heads:
  assumes good: "good policy now st"
  shows "servedHeads st projectId (currentHeadActivations st) =
    {(k, sh_activationId h) | k h. k \<in> published_releases st projectId \<and> map_of (servingHeads st) k = Some h}"
proof -
  note core = good_core [OF good]
  have "countsFor st projectId k \<longleftrightarrow> k \<in> published_releases st projectId" if h: "map_of (servingHeads st) k = Some h" for k h
  proof -
    from core_head [OF core h] obtain r where "map_of (releases st) k = Some r" "rl_state r = Release_PUBLISHED" by blast
    then show ?thesis by (simp add: countsFor_def published_releases_def)
  qed
  then show ?thesis
    by (auto simp: servedHeads_def wf_set_iff currentHeadActivations_map_of [OF good_ids [OF good]])
qed

lemma served_releases:
  assumes good: "good policy now st"
  shows "card (servedHeads st projectId (currentHeadActivations st)) = card (published_releases st projectId)"
proof -
  have head: "\<exists>h. map_of (servingHeads st) k = Some h" if published: "k \<in> published_releases st projectId" for k
  proof -
    from published obtain r where "map_of (releases st) k = Some r" "rl_state r = Release_PUBLISHED" by (auto simp: published_releases_def)
    from core_published [OF good_core [OF good] this] show ?thesis by blast
  qed
  have "published_releases st projectId = fst ` servedHeads st projectId (currentHeadActivations st)"
    unfolding served_heads [OF good] image_def using head by auto
  moreover have "inj_on fst (servedHeads st projectId (currentHeadActivations st))"
    unfolding served_heads [OF good] by (rule inj_onI) auto
  ultimately show ?thesis by (simp add: card_image)
qed

lemma served_generations:
  assumes good: "good policy now st"
  shows "servedGenerations st projectId (currentHeadActivations st) k = serving_generations st projectId k"
  unfolding servedGenerations_def serving_generations_def served_heads [OF good] by auto

text \<open>
  Claim C20. Capacity: in every reachable state \<open>capacity\<close> reports the number of published releases of a
  project, and for every member that is served the number of distinct generations that serve it in the
  activations at the heads of these releases; these numbers are within the hard limits.
\<close>

theorem capacity_within_hard_limits:
  assumes reachable: "runtime_reachable localeCompare policy (now, plans, st)"
  shows "\<exists>c. capacity st projectId = Inr c
    \<and> cs_servingReleases c = int (card (published_releases st projectId))
    \<and> int (card (published_releases st projectId)) \<le> hardMaxServingReleases policy
    \<and> (\<forall>k. (case map_of (cs_generationsPerMember c) k of None \<Rightarrow> 0 | Some n \<Rightarrow> n) = int (card (serving_generations st projectId k))
        \<and> int (card (serving_generations st projectId k)) \<le> hardMaxServingGenerationsPerMember policy)"
proof -
  have good: "good policy now st" by (rule reachable_good [OF reachable])
  let ?heads = "currentHeadActivations st"
  note serving = served_generations [OF good, of projectId]
  have acts: "\<forall>h\<in>servedHeads st projectId ?heads. map_of (activations st) (snd h) \<noteq> None"
  proof
    fix h assume "h \<in> servedHeads st projectId ?heads"
    then obtain k head where h: "h = (k, sh_activationId head)" "map_of (servingHeads st) k = Some head" unfolding served_heads [OF good] by blast
    from core_head [OF good_core [OF good] h(2)] show "map_of (activations st) (snd h) \<noteq> None" by (auto simp: ready_activation_def h(1))
  qed
  obtain c where c: "capacityForHeads st projectId ?heads = Inr c" "cs_servingReleases c = int (card (servedHeads st projectId ?heads))"
    and only: "\<forall>k n. (k, n) \<in> set (cs_generationsPerMember c) \<longrightarrow> n = int (card (serving_generations st projectId k))"
    and each: "\<forall>k. serving_generations st projectId k \<noteq> {} \<longrightarrow> (k, int (card (serving_generations st projectId k))) \<in> set (cs_generationsPerMember c)"
    using capacityForHeads_Inr [OF acts wf_distinct [OF currentHeadActivations_wf]] unfolding serving by (elim exE conjE)
  have "(case map_of (cs_generationsPerMember c) k of None \<Rightarrow> 0 | Some n \<Rightarrow> n) = int (card (serving_generations st projectId k))" for k
  proof (cases "map_of (cs_generationsPerMember c) k")
    case None
    then have "serving_generations st projectId k = {}" using each by (force simp: map_of_eq_None_iff)
    with None show ?thesis by simp
  next
    case (Some n)
    then show ?thesis using only map_of_SomeD [OF Some] by simp
  qed
  moreover have "within_limits policy st projectId ?heads"
    using good_core [OF good] by (simp add: core_inv_def capacity_inv_def)
  ultimately show ?thesis
    using c unfolding within_limits_def served_releases [OF good] serving capacity_def by blast
qed

theorem capacity_within_hard_limits_witness:
  "\<exists>st c. runtime_reachable compareText defaultRuntimePolicy (10, [], st) \<and> capacity st (js ''p'') = Inr c
     \<and> cs_servingReleases c = int (card (published_releases st (js ''p''))) \<and> card (published_releases st (js ''p'')) \<le> 64"
proof -
  obtain st where st: "do_calls defaultRuntimePolicy example_release (0, emptyState) = Some (10, st)" by (rule example_release_run)
  have reachable: "runtime_reachable compareText defaultRuntimePolicy (10, [], st)"
    by (rule do_calls_reachable [OF st default_policy_valid])
  from capacity_within_hard_limits [OF this, of "js ''p''"] show ?thesis
    using reachable by (auto simp: defaultRuntimePolicy_def)
qed

text \<open>
  A channel of a project and the release its activation binds resolve to the same
  activation, in every reachable state, and the release belongs to that project.
\<close>

theorem channel_resolves_as_release:
  assumes reachable: "runtime_reachable localeCompare policy (now, plans, st)"
    and channel: "resolve st (SelectChannel projectId channel) = Inr a"
  shows "resolve st (SelectRelease (ra_releaseId a)) = Inr a
    \<and> (\<exists>r. map_of (releases st) (ra_releaseId a) = Some r \<and> rl_state r = Release_PUBLISHED \<and> rl_projectId r = projectId
        \<and> rl_manifestHash r = ra_releaseManifestHash a)"
proof -
  have good: "good policy now st" by (rule reachable_good [OF reachable])
  note core = good_core [OF good] and ids = good_ids [OF good]
  from channel obtain c x where c: "map_of (channels st) (channelKey projectId channel) = Some c"
    and x: "ready_activation st (ch_activationId c) x" and a: "a = resolved x"
    by (auto simp: resolve_def resolveActivation_def)
  from core_channel [OF core c] obtain y h where y: "ready_activation st (ch_activationId c) y" "map_of (servingHeads st) (av_releaseId y) = Some h"
    "sh_activationId h = ch_activationId c" "av_projectId y = ch_projectId c" by blast
  have "y = x" using x y(1) by (simp add: ready_activation_def)
  have "keyed_by (\<lambda>c. channelKey (ch_projectId c) (ch_channel c)) (channels st)" using ids by (simp add: ids_inv_def)
  from keyed_by_id [OF this c] have "ch_projectId c = projectId" by (simp add: channelKey_def)
  from core_head [OF core y(2)] obtain r where r: "map_of (releases st) (av_releaseId y) = Some r" "rl_state r = Release_PUBLISHED" by blast
  have "rl_projectId r = av_projectId x" "rl_manifestHash r = av_releaseManifestHash x"
    by (rule validateActivation_release [OF core_valid [OF core x]], use r \<open>y = x\<close> in simp)+
  moreover have "resolveActivation st (SelectRelease (av_releaseId x)) = Inr x"
    using r y x \<open>y = x\<close> release_id [OF ids r(1)] by (auto simp: resolveActivation_def)
  ultimately show ?thesis using r y(4) \<open>y = x\<close> \<open>ch_projectId c = projectId\<close> by (simp add: a resolve_def resolved_def)
qed

theorem channel_resolves_as_release_witness:
  "\<exists>st. resolve st (SelectChannel (js ''p'') (js ''c'')) = Inr \<lparr>ra_activationId = js ''a1'', ra_releaseId = js ''r'', ra_releaseManifestHash = js ''m''\<rparr>
     \<and> resolve st (SelectRelease (js ''r'')) = Inr \<lparr>ra_activationId = js ''a1'', ra_releaseId = js ''r'', ra_releaseManifestHash = js ''m''\<rparr>"
proof -
  obtain st where st: "do_calls defaultRuntimePolicy example_release (0, emptyState) = Some (10, st)"
    and channel: "resolve st (SelectChannel (js ''p'') (js ''c'')) = Inr \<lparr>ra_activationId = js ''a1'', ra_releaseId = js ''r'', ra_releaseManifestHash = js ''m''\<rparr>"
    by (rule example_release_run)
  from channel_resolves_as_release [OF do_calls_reachable [OF st default_policy_valid] channel] channel show ?thesis by auto
qed

lemma promised_token:
  "promises_kept now st st' \<Longrightarrow> map_of (preflightTokens st) k = Some t \<Longrightarrow>
     \<exists>t'. map_of (preflightTokens st') k = Some t' \<and> pt_activationId t' = pt_activationId t"
  unfolding promises_kept_def later_token_def by blast

lemma applyPreflight_Inr:
  assumes "applyPreflight k t st = (Inr a, st')" "map_of (preflightTokens st) k = Some token"
  shows "\<exists>current. resolveActivation st (pt_selector token) = Inr current \<and> av_id current = pt_activationId token
    \<and> a = resolved current \<and> st' = setToken k token Token_USED st"
  using assms by (auto simp: applyPreflight_def requireRecord_def attempt_eq_Inr_iff split: sum.splits if_splits)

lemma applyPreflight_Inl:
  assumes "applyPreflight k t st = (Inl e, st')"
  shows "st' = st \<or> (\<exists>token. e = PREFLIGHT_STALE \<and> map_of (preflightTokens st) k = Some token \<and> st' = setToken k token Token_STALE st)"
proof (cases "map_of (preflightTokens st) k")
  case None
  with assms show ?thesis by (simp add: applyPreflight_def requireRecord_def)
next
  case (Some token)
  show ?thesis
  proof (cases "pt_state token = Token_ACTIVE \<and> \<not> pt_expiresAt token \<le> t")
    case True
    with Some assms show ?thesis
      by (cases "resolveActivation st (pt_selector token)") (auto simp: applyPreflight_def requireRecord_def split: if_splits)
  next
    case False
    with Some assms show ?thesis by (cases "pt_state token = Token_ACTIVE") (auto simp: applyPreflight_def requireRecord_def)
  qed
qed

text \<open>
  Claim C24. A preflight token that is applied, after any calls in between, gives exactly what was
  resolved when it was issued, and is applied once: in the state it leaves and in every state that later
  calls reach, an attempt to apply it again is refused and changes nothing.
\<close>

theorem preflight_binds_activation:
  assumes reachable: "runtime_reachable localeCompare policy (now, plans, st)" and "now \<le> issuedAt"
    and issue: "issuePreflight policy k selector issuedAt expiresAt st = (Inr a, st1)"
    and run: "reaches (runtime_step localeCompare policy) (issuedAt, plans, st1) (now', plans', st')"
    and apply_token: "applyPreflight k t st' = (Inr a', st'')" and "now' \<le> t"
    and later: "reaches (runtime_step localeCompare policy) (t, plans', st'') (now2, plans2, st2)"
  shows "a' = a \<and> applyPreflight k t' st2 = (Inl INVALID_STATE, st2)"
proof -
  have good: "good policy now st" by (rule reachable_good [OF reachable])
  from issue obtain x where x: "resolveActivation st selector = Inr x" and a: "a = resolved x"
    and st1: "st1 = bumpState (st\<lparr>preflightTokens := AList.update k
       \<lparr>pt_id = k, pt_selector = selector, pt_activationId = av_id x, pt_issuedAt = issuedAt, pt_expiresAt = expiresAt,
        pt_state = Token_ACTIVE\<rparr> (preflightTokens st)\<rparr>)"
    by (auto simp: issuePreflight_def attempt_eq_Inr_iff)
  have ready: "ready_activation st (av_id x) x" by (rule resolveActivation_ready [OF good_ids [OF good] x])
  have "runtime_step localeCompare policy (now, plans, st) (Call (IssuePreflight k selector issuedAt expiresAt))
      (timeOf now (IssuePreflight k selector issuedAt expiresAt), plans, st1)"
    by (rule step_call [where r = "Inr ()"]) (use assms(2) issue in \<open>simp_all add: silent_def\<close>)
  from reaches_step [where step = "runtime_step localeCompare policy", OF reaches_refl this]
  have "reaches (runtime_step localeCompare policy) (now, plans, st) (issuedAt, plans, st1)" by simp
  note reachable1 = reachable_run [OF reachable this]
  have kept: "promises_kept now' st1 st'" using reachable_later [OF reachable1 run] by (simp add: runtime_later_def)
  have "map_of (preflightTokens st1) k = Some \<lparr>pt_id = k, pt_selector = selector, pt_activationId = av_id x, pt_issuedAt = issuedAt,
      pt_expiresAt = expiresAt, pt_state = Token_ACTIVE\<rparr>" by (simp add: st1 bumpState_def)
  from promised_token [OF kept this] obtain token where token: "map_of (preflightTokens st') k = Some token" "pt_activationId token = av_id x"
    by auto
  from applyPreflight_Inr [OF apply_token token(1)] obtain current where current: "resolveActivation st' (pt_selector token) = Inr current" "av_id current = pt_activationId token"
    and a': "a' = resolved current" and st'': "st'' = setToken k token Token_USED st'"
    by blast
  have good': "good policy now' st'" by (rule reachable_good [OF reachable_run [OF reachable1 run]])
  have "ready_activation st' (av_id x) current"
    using resolveActivation_ready [OF good_ids [OF good'] current(1)] current(2) token(2) by simp
  moreover have "map_of (activations st1) (av_id x) = Some x" using ready by (simp add: st1 bumpState_def ready_activation_def)
  then obtain y where "map_of (activations st') (av_id x) = Some y" "same_activation x y" using kept unfolding promises_kept_def by blast
  ultimately have "same_activation x current" by (simp add: ready_activation_def)
  then have "a' = a" by (simp add: a a' resolved_def same_activation_def)
  moreover have "map_of (preflightTokens st'') k = Some (token\<lparr>pt_state := Token_USED\<rparr>)" by (simp add: st'' setToken_def bumpState_def)
  moreover have "runtime_step localeCompare policy (now', plans', st') (Call (ApplyPreflight k t)) (timeOf now' (ApplyPreflight k t), plans', st'')"
    by (rule step_call [where r = "Inr ()"]) (use \<open>now' \<le> t\<close> apply_token in \<open>simp_all add: silent_def\<close>)
  from reaches_step [where step = "runtime_step localeCompare policy", OF reaches_refl this]
  have "reaches (runtime_step localeCompare policy) (now', plans', st') (t, plans', st'')" by simp
  from reachable_later [OF reachable_run [OF reachable_run [OF reachable1 run] this] later]
  have "promises_kept now2 st'' st2" by (simp add: runtime_later_def)
  then have "\<exists>t2. map_of (preflightTokens st2) k = Some t2 \<and> later_token used t2" if "map_of (preflightTokens st'') k = Some used" for used
    using that unfolding promises_kept_def by blast
  ultimately obtain token2 where "map_of (preflightTokens st2) k = Some token2" "pt_state token2 \<noteq> Token_ACTIVE"
    by (fastforce simp: later_token_def)
  then have "applyPreflight k t' st2 = (Inl INVALID_STATE, st2)" by (simp add: applyPreflight_def requireRecord_def)
  with \<open>a' = a\<close> show ?thesis by simp
qed

theorem preflight_binds_activation_witness:
  "\<exists>st st''. applyPreflight (js ''t'') 40 st = (Inr \<lparr>ra_activationId = js ''a1'', ra_releaseId = js ''r'', ra_releaseManifestHash = js ''m''\<rparr>, st'')
     \<and> applyPreflight (js ''t'') 50 st'' = (Inl INVALID_STATE, st'')"
proof -
  let ?a = "\<lparr>ra_activationId = js ''a1'', ra_releaseId = js ''r'', ra_releaseManifestHash = js ''m''\<rparr>"
  let ?query = "[BeginQuery (js ''q'') (SelectRelease (js ''r'')) 30 90]"
  have "(case do_calls defaultRuntimePolicy example_release (0, emptyState) of
      None \<Rightarrow> False
    | Some (now, st) \<Rightarrow> now = 10
        \<and> (case issuePreflight defaultRuntimePolicy (js ''t'') (SelectRelease (js ''r'')) 20 100 st of
             (r, st1) \<Rightarrow> r = Inr ?a
               \<and> (case do_calls defaultRuntimePolicy ?query (20, st1) of
                    None \<Rightarrow> False
                  | Some (now', st') \<Rightarrow> now' = 30 \<and> fst (applyPreflight (js ''t'') 40 st') = Inr ?a)))"
    by code_simp
  then obtain st st1 st' where first: "do_calls defaultRuntimePolicy example_release (0, emptyState) = Some (10, st)"
      and issue: "issuePreflight defaultRuntimePolicy (js ''t'') (SelectRelease (js ''r'')) 20 100 st = (Inr ?a, st1)"
      and second: "do_calls defaultRuntimePolicy ?query (20, st1) = Some (30, st')"
      and applied: "fst (applyPreflight (js ''t'') 40 st') = Inr ?a"
    by (auto split: option.splits prod.splits)
  obtain st'' where st'': "applyPreflight (js ''t'') 40 st' = (Inr ?a, st'')" using applied by (cases "applyPreflight (js ''t'') 40 st'") auto
  have "?a = ?a \<and> applyPreflight (js ''t'') 50 st'' = (Inl INVALID_STATE, st'')"
    by (rule preflight_binds_activation [OF do_calls_reachable [OF first default_policy_valid] _ issue do_calls_reaches [OF second] st'' _ reaches_refl]) simp_all
  with st'' show ?thesis by blast
qed

text \<open>
  Claim C17. In every reachable state a call of a method that throws leaves the state as it was, although
  the writes of a cutover are not undone, and so does the commit of any plan of a collection that was
  made earlier in the run; the one exception marks a stale preflight token.
\<close>

theorem failed_calls_leave_state:
  assumes reachable: "runtime_reachable localeCompare policy (now, plans, st)"
    and failed: "now \<le> timeOf now c \<and> well_typed c \<and> perform policy c st = (Inl e, st')
      \<or> plan \<in> set plans \<and> commitGarbageCollection localeCompare policy plan st = (Inl e, st')"
  shows "st' = st \<or> (\<exists>k at token. c = ApplyPreflight k at \<and> e = PREFLIGHT_STALE \<and> map_of (preflightTokens st) k = Some token
        \<and> st' = setToken k token Token_STALE st)"
proof -
  from reachable_inv [OF reachable] have good: "good policy now st" and policy: "0 \<le> hardMaxServingGenerationsPerMember policy"
    and plans: "\<forall>plan\<in>set plans. plan_ok localeCompare policy now st plan" by (simp_all add: runtime_inv_def)
  from failed consider
      (commit) "plan \<in> set plans" "commitGarbageCollection localeCompare policy plan st = (Inl e, st')"
    | (token) k at where "c = ApplyPreflight k at" "perform policy c st = (Inl e, st')"
    | (other) "now \<le> timeOf now c" "well_typed c" "perform policy c st = (Inl e, st')" "\<not> (\<exists>k at. c = ApplyPreflight k at)"
    by blast
  then show ?thesis
  proof cases
    case commit
    have "plan_ok localeCompare policy now st plan" using plans commit(1) by blast
    then have "call_ok policy now st (commitGarbageCollection localeCompare policy plan st)"
      by (intro commit_ok [OF good]) (auto simp: plan_ok_def)
    with commit(2) show ?thesis by (simp add: call_ok_def)
  next
    case (token k at)
    then have "applyPreflight k at st = (Inl e, st')"
      by (cases "applyPreflight k at st"; cases "fst (applyPreflight k at st)") (simp_all add: silent_def)
    from applyPreflight_Inl [OF this] token(1) show ?thesis by blast
  next
    case other
    from perform_ok [OF good policy other(1,2,4)] other(3) show ?thesis by (simp add: call_ok_def)
  qed
qed

text \<open>A release in its support window is not retired, and nothing has changed.\<close>

theorem failed_calls_leave_state_witness:
  "\<exists>st st'. perform defaultRuntimePolicy (RetireRelease (js ''r'') 1 20) st = (Inl SUPPORT_WINDOW_ACTIVE, st') \<and> st' = st"
proof -
  let ?call = "RetireRelease (js ''r'') 1 20"
  have "(case do_calls defaultRuntimePolicy example_release (0, emptyState) of
      None \<Rightarrow> False
    | Some (now, st) \<Rightarrow> now = 10 \<and> fst (perform defaultRuntimePolicy ?call st) = Inl SUPPORT_WINDOW_ACTIVE)"
    by code_simp
  then obtain st where first: "do_calls defaultRuntimePolicy example_release (0, emptyState) = Some (10, st)"
      and failed: "fst (perform defaultRuntimePolicy ?call st) = Inl SUPPORT_WINDOW_ACTIVE"
    by (auto split: option.splits)
  obtain st' where st': "perform defaultRuntimePolicy ?call st = (Inl SUPPORT_WINDOW_ACTIVE, st')"
    using failed by (cases "perform defaultRuntimePolicy ?call st") auto
  from failed_calls_leave_state [OF do_calls_reachable [OF first default_policy_valid], of ?call SUPPORT_WINDOW_ACTIVE st'] st'
  show ?thesis by auto
qed

text \<open>
  Claim C14. What the model protects is exactly what is in use: content that a serving head, a channel,
  a running query, an unexpired preflight token, an active job or hold, or a historical reference names,
  and what such content refers to in turn. A collection protects at least this, and a plan lists only
  records that are there, that are not in use, and that were neither created nor in service, nor
  retired, within the time of retention.
\<close>

theorem protected_content_exact:
  "{x. protects (protectedIds localeCompare policy st at False) x} = {x. in_use st at x}
   \<and> {x. in_use st at x} \<subseteq> {x. protects (protectedIds localeCompare policy st at True) x}
   \<and> {x. listed (planGarbageCollection localeCompare policy st at) x}
       \<subseteq> {x. idle_since st (at - minimumInactiveRetentionMs policy) x} - {x. in_use st at x}"
proof (intro conjI subsetI)
  show "{x. protects (protectedIds localeCompare policy st at False) x} = {x. in_use st at x}" by (rule protectedIds_in_use)
next
  fix x assume "x \<in> {x. in_use st at x}"
  then show "x \<in> {x. protects (protectedIds localeCompare policy st at True) x}" by (rule subsetD [OF protectedIds_in_use(2)])
next
  fix x assume "x \<in> {x. listed (planGarbageCollection localeCompare policy st at) x}"
  then have idle: "idle_since st (at - minimumInactiveRetentionMs policy) x"
    and open_to_collection: "\<not> protects (protectedIds localeCompare policy st at True) x"
    using planned_is_idle by blast+
  from open_to_collection have "\<not> in_use st at x" using protectedIds_in_use(2) by blast
  with idle show "x \<in> {x. idle_since st (at - minimumInactiveRetentionMs policy) x} - {x. in_use st at x}" by simp
qed

text \<open>
  Claim C13. The commit of a plan succeeds when nothing has changed since the plan was made: it marks
  exactly the records the plan lists, and the activations that stay ready are the protected ones.
\<close>

theorem planned_collection_commits:
  assumes reachable: "runtime_reachable localeCompare policy (now, plans, st)" and plan: "plan \<in> set plans"
    and revision: "gc_plannedAtStateRevision plan = stateRevision st"
  shows "\<exists>st'. commitGarbageCollection localeCompare policy plan st = (Inr (), st')
    \<and> collected st (set (gc_releaseIds plan)) (set (gc_activationIds plan)) (set (gc_generationIds plan)) (set (gc_snapshotIds plan)) st'
    \<and> {k. \<exists>a. ready_activation st' k a} = {k \<in> set (pi_activationIds (protectedIds localeCompare policy st (gc_at plan) True)). \<exists>a. ready_activation st k a}"
proof -
  from reachable_inv [OF reachable] have good: "good policy now st" and plans: "\<forall>plan\<in>set plans. plan_ok localeCompare policy now st plan"
    by (simp_all add: runtime_inv_def)
  from plans plan have "plan_ok localeCompare policy now st plan" by (rule bspec)
  with revision have at: "gc_at plan \<le> now" and plan_eq: "plan = planGarbageCollection localeCompare policy st (gc_at plan)"
    by (simp_all add: plan_ok_def)
  from commit_collects [OF good at revision plan_eq] obtain st' where commit: "commitGarbageCollection localeCompare policy plan st = (Inr (), st')"
    and gone: "collected st (set (gc_releaseIds plan)) (set (gc_activationIds plan)) (set (gc_generationIds plan)) (set (gc_snapshotIds plan)) st'"
    by blast
  define p where "p = protectedIds localeCompare policy st (gc_at plan) True"
  note sets = plan_collects [OF good_ids [OF good] p_def plan_eq]
  have "(\<exists>a. ready_activation st' k a) \<longleftrightarrow> k \<in> set (pi_activationIds p) \<and> (\<exists>a. ready_activation st k a)" for k
  proof
    assume "\<exists>a. ready_activation st' k a"
    then obtain a where "map_of (activations st') k = Some a" "av_state a = READY" by (auto simp: ready_activation_def)
    with collected_ready_activation [OF gone sets this] show "k \<in> set (pi_activationIds p) \<and> (\<exists>a. ready_activation st k a)"
      by (auto simp: ready_activation_def)
  next
    assume "k \<in> set (pi_activationIds p) \<and> (\<exists>a. ready_activation st k a)"
    then show "\<exists>a. ready_activation st' k a" using protected_ready(2) [OF gone sets] by blast
  qed
  with commit gone show ?thesis unfolding p_def by blast
qed

text \<open>An activation that was never published is collected after the time of retention.\<close>

definition example_staged :: "RuntimeCall list" where
  "example_staged = map (nth example_release) [0, 1, 3, 5]"

theorem planned_collection_commits_witness:
  "\<exists>st plan st'. gc_activationIds plan = [js ''a1''] \<and> commitGarbageCollection compareText defaultRuntimePolicy plan st = (Inr (), st')
     \<and> (\<exists>a. map_of (activations st') (js ''a1'') = Some a \<and> av_state a = COLLECTED)"
proof -
  let ?at = "40 * 24 * 60 * 60 * 1000"
  have "(case do_calls defaultRuntimePolicy example_staged (0, emptyState) of
      None \<Rightarrow> False
    | Some (now, st) \<Rightarrow> now = 0 \<and> gc_activationIds (planGarbageCollection compareText defaultRuntimePolicy st ?at) = [js ''a1'']
        \<and> map_of (activations st) (js ''a1'') \<noteq> None)"
    by code_simp
  then obtain st where run: "do_calls defaultRuntimePolicy example_staged (0, emptyState) = Some (0, st)"
    and ids: "gc_activationIds (planGarbageCollection compareText defaultRuntimePolicy st ?at) = [js ''a1'']"
    and old: "map_of (activations st) (js ''a1'') \<noteq> None"
    by (auto split: option.splits)
  let ?plan = "planGarbageCollection compareText defaultRuntimePolicy st ?at"
  have "runtime_step compareText defaultRuntimePolicy (0, [], st) (Plan ?at) (?at, [?plan], st)" by (rule step_plan) simp
  from reaches_step [where step = "runtime_step compareText defaultRuntimePolicy", OF reaches_refl this]
  have reachable: "runtime_reachable compareText defaultRuntimePolicy (?at, [?plan], st)"
    by (rule reachable_run [OF do_calls_reachable [OF run default_policy_valid]])
  have "?plan \<in> set [?plan]" "gc_plannedAtStateRevision ?plan = stateRevision st"
    by (simp_all add: planGarbageCollection_def Let_def)
  from planned_collection_commits [OF reachable this] obtain st' where
    commit: "commitGarbageCollection compareText defaultRuntimePolicy ?plan st = (Inr (), st')"
    and gone: "collected st (set (gc_releaseIds ?plan)) (set (gc_activationIds ?plan)) (set (gc_generationIds ?plan)) (set (gc_snapshotIds ?plan)) st'"
    by blast
  have "\<exists>a. map_of (activations st') (js ''a1'') = Some a \<and> av_state a = COLLECTED"
    using collected_lookup(2) [OF gone, of "js ''a1''"] ids old by auto
  with ids commit show ?thesis by blast
qed

end
