(* ===== verification/ControlPlane.thy ===== *)
theory ControlPlane
  imports Js Keyed
begin

text \<open>
  The model of the metadata control plane (\<open>tools/metadata-control-plane/model.ts\<close>): the life cycles
  of resource revisions, releases and package changes, authorization of management requests, the
  order of locks, and the two transactions, which publish a release and replace the role bindings of
  a project.

  The functions of the file do not mutate their arguments: a transaction clones the state, writes to
  the clone and returns it, or throws. A function that throws is a function into \<open>control_result\<close>;
  objects keyed by strings are maps in insertion order, whose keys are not the names of members of
  \<open>Object.prototype\<close> or array indices. Etags, epochs and revisions are integers.
\<close>

subsection \<open>Errors and checks\<close>

datatype MetadataControlPlaneErrorCode =
    ALREADY_EXISTS | CONCURRENT_MODIFICATION | FORBIDDEN | INVALID_INPUT | INVALID_STATE | NOT_FOUND
  | TRANSACTION_ABORTED

type_synonym 'a control_result = "(MetadataControlPlaneErrorCode, 'a) result"

definition control_requireState :: "'s \<Rightarrow> 's list \<Rightarrow> unit control_result" where
  "control_requireState state allowed = guard (state \<in> set allowed) INVALID_STATE"

definition control_requireRecord :: "(jsstring, 'a) jsmap \<Rightarrow> jsstring \<Rightarrow> 'a control_result" where
  "control_requireRecord records k = (case map_of records k of None \<Rightarrow> Inl NOT_FOUND | Some v \<Rightarrow> Inr v)"

definition failAt :: "'p option \<Rightarrow> 'p \<Rightarrow> unit control_result" where
  "failAt actual expected = guard (actual \<noteq> Some expected) TRANSACTION_ABORTED"

definition required :: "jsstring \<Rightarrow> jsstring control_result" where
  "required v = rbind (guard (js_trim v \<noteq> []) INVALID_INPUT) (\<lambda>_. Inr v)"

subsection \<open>Resource revisions\<close>

datatype ResourceRevisionState = Rev_DRAFT | Rev_VALIDATED | Rev_PUBLISHED | Rev_DEPRECATED | Rev_ARCHIVED

record ResourceRevision =
  rr_id :: jsstring
  rr_resourceId :: jsstring
  rr_parentRevisionId :: "jsstring option"
  rr_contentDigest :: jsstring
  rr_etag :: int
  rr_state :: ResourceRevisionState

definition patchDraftRevision :: "ResourceRevision \<Rightarrow> int \<Rightarrow> jsstring \<Rightarrow> ResourceRevision control_result" where
  "patchDraftRevision revision expectedEtag contentDigest =
     rbind (control_requireState (rr_state revision) [Rev_DRAFT]) (\<lambda>_.
     rbind (guard (\<not> rr_etag revision \<noteq> expectedEtag) CONCURRENT_MODIFICATION) (\<lambda>_.
     rbind (required contentDigest) (\<lambda>digest.
     Inr (revision\<lparr>rr_contentDigest := digest, rr_etag := rr_etag revision + 1\<rparr>))))"

definition validateRevision :: "ResourceRevision \<Rightarrow> ResourceRevision control_result" where
  "validateRevision revision = rbind (control_requireState (rr_state revision) [Rev_DRAFT]) (\<lambda>_.
     Inr (revision\<lparr>rr_state := Rev_VALIDATED\<rparr>))"

definition publishRevision :: "ResourceRevision \<Rightarrow> ResourceRevision control_result" where
  "publishRevision revision = rbind (control_requireState (rr_state revision) [Rev_VALIDATED]) (\<lambda>_.
     Inr (revision\<lparr>rr_state := Rev_PUBLISHED\<rparr>))"

definition deprecateRevision :: "ResourceRevision \<Rightarrow> ResourceRevision control_result" where
  "deprecateRevision revision = rbind (control_requireState (rr_state revision) [Rev_PUBLISHED]) (\<lambda>_.
     Inr (revision\<lparr>rr_state := Rev_DEPRECATED\<rparr>))"

definition archiveRevision :: "ResourceRevision \<Rightarrow> ResourceRevision control_result" where
  "archiveRevision revision = rbind (control_requireState (rr_state revision) [Rev_DEPRECATED]) (\<lambda>_.
     Inr (revision\<lparr>rr_state := Rev_ARCHIVED\<rparr>))"

definition editImmutableRevision :: "ResourceRevision \<Rightarrow> jsstring \<Rightarrow> jsstring \<Rightarrow> ResourceRevision control_result" where
  "editImmutableRevision revision childId contentDigest =
     rbind (control_requireState (rr_state revision) [Rev_VALIDATED, Rev_PUBLISHED, Rev_DEPRECATED]) (\<lambda>_.
     rbind (required childId) (\<lambda>childId.
     rbind (required contentDigest) (\<lambda>contentDigest.
     Inr \<lparr>rr_id = childId, rr_resourceId = rr_resourceId revision, rr_parentRevisionId = Some (rr_id revision),
       rr_contentDigest = contentDigest, rr_etag = 1, rr_state = Rev_DRAFT\<rparr>)))"

subsection \<open>Releases and package changes\<close>

datatype ControlReleaseState = Rel_DRAFT | Rel_STAGING | Rel_READY | Rel_FAILED | Rel_PUBLISHED | Rel_SUPERSEDED

record ControlRelease =
  cr_id :: jsstring
  cr_projectId :: jsstring
  cr_manifestDigest :: jsstring
  cr_state :: ControlReleaseState

fun legal_release_targets :: "ControlReleaseState \<Rightarrow> ControlReleaseState list" where
  "legal_release_targets Rel_DRAFT = [Rel_STAGING, Rel_FAILED]"
| "legal_release_targets Rel_STAGING = [Rel_READY, Rel_FAILED]"
| "legal_release_targets Rel_READY = [Rel_PUBLISHED]"
| "legal_release_targets Rel_FAILED = []"
| "legal_release_targets Rel_PUBLISHED = [Rel_SUPERSEDED]"
| "legal_release_targets Rel_SUPERSEDED = []"

definition transitionRelease :: "ControlRelease \<Rightarrow> ControlReleaseState \<Rightarrow> ControlRelease control_result" where
  "transitionRelease release target =
     rbind (guard (target \<in> set (legal_release_targets (cr_state release))) INVALID_STATE) (\<lambda>_.
     Inr (release\<lparr>cr_state := target\<rparr>))"

datatype PackageChangeState = Change_PENDING | Change_ACTIVE | Change_SUPERSEDED | Change_FAILED

record PackageInstallation =
  in_id :: jsstring
  in_projectId :: jsstring
  in_activePackageRevisionId :: "jsstring option"
  in_activeReleaseId :: "jsstring option"

record PackageInstallationChange =
  pc_id :: jsstring
  pc_installationId :: jsstring
  pc_targetPackageRevisionId :: jsstring
  pc_targetReleaseId :: jsstring
  pc_state :: PackageChangeState

fun legal_change_targets :: "PackageChangeState \<Rightarrow> PackageChangeState list" where
  "legal_change_targets Change_PENDING = [Change_ACTIVE, Change_FAILED]"
| "legal_change_targets Change_ACTIVE = [Change_SUPERSEDED]"
| "legal_change_targets Change_SUPERSEDED = []"
| "legal_change_targets Change_FAILED = []"

definition transitionPackageChange :: "PackageInstallationChange \<Rightarrow> PackageChangeState \<Rightarrow> PackageInstallationChange control_result" where
  "transitionPackageChange change target =
     rbind (guard (target \<in> set (legal_change_targets (pc_state change))) INVALID_STATE) (\<lambda>_.
     Inr (change\<lparr>pc_state := target\<rparr>))"

subsection \<open>Authorization of management requests\<close>

datatype ManagementRole = OWNER | EDITOR | VIEWER | EXECUTOR | AUDITOR

datatype ManagementPermission = Metadata_read | Metadata_edit | Release_publish | Package_manage | Role_manage

text \<open>
  The identity and the request come from outside, so the code checks the names of their own fields:
  they are part of the record. The number \<open>authenticationTime\<close> is \<open>None\<close> when it is not finite.
\<close>

record FoundationIdentity =
  fi_keys :: "jsstring list"
  fi_principalId :: jsstring
  fi_authenticationTime :: "int option"
  fi_claimsFingerprint :: jsstring

record ManagementAuthorizationRequest =
  mr_keys :: "jsstring list"
  mr_principalId :: jsstring
  mr_projectId :: jsstring
  mr_resourceId :: "jsstring option"
  mr_permission :: ManagementPermission

datatype BindingState = Binding_ACTIVE | Binding_REVOKED

record RoleBindingInput =
  rb_id :: jsstring
  rb_projectId :: jsstring
  rb_principalId :: jsstring
  rb_resourceId :: "jsstring option"
  rb_role :: ManagementRole

record RoleBinding = RoleBindingInput +
  rb_state :: BindingState

fun rolePermissions :: "ManagementRole \<Rightarrow> ManagementPermission list" where
  "rolePermissions OWNER = [Metadata_read, Metadata_edit, Release_publish, Package_manage, Role_manage]"
| "rolePermissions EDITOR = [Metadata_read, Metadata_edit]"
| "rolePermissions VIEWER = [Metadata_read]"
| "rolePermissions EXECUTOR = []"
| "rolePermissions AUDITOR = []"

definition permissionsFor :: "RoleBinding list \<Rightarrow> ManagementPermission set" where
  "permissionsFor bindings = (\<Union>binding\<in>set bindings. set (rolePermissions (rb_role binding)))"

definition assertExactKeys :: "jsstring list \<Rightarrow> jsstring list \<Rightarrow> unit control_result" where
  "assertExactKeys keys expected = (let actual = sort keys; requiredKeys = sort expected in
     guard (\<not> (length actual \<noteq> length requiredKeys \<or> list_ex (\<lambda>(k, r). k \<noteq> r) (zip actual requiredKeys))) INVALID_INPUT)"

definition authorizeManagementRequest ::
  "FoundationIdentity \<Rightarrow> ManagementAuthorizationRequest \<Rightarrow> RoleBinding list \<Rightarrow> bool control_result" where
  "authorizeManagementRequest identity request bindings =
     rbind (assertExactKeys (fi_keys identity) (map js [''principalId'', ''authenticationTime'', ''claimsFingerprint''])) (\<lambda>_.
     rbind (assertExactKeys (mr_keys request)
       (if mr_resourceId request = None then map js [''principalId'', ''projectId'', ''permission'']
        else map js [''principalId'', ''projectId'', ''resourceId'', ''permission''])) (\<lambda>_.
     rbind (required (fi_principalId identity)) (\<lambda>principalId.
     rbind (guard (\<not> principalId \<noteq> mr_principalId request) INVALID_INPUT) (\<lambda>_.
     rbind (required (fi_claimsFingerprint identity)) (\<lambda>_.
     rbind (guard (fi_authenticationTime identity \<noteq> None) INVALID_INPUT) (\<lambda>_.
     let active = filter (\<lambda>binding. rb_state binding = Binding_ACTIVE \<and> rb_projectId binding = mr_projectId request
           \<and> rb_principalId binding = mr_principalId request) bindings;
         projectPermissions = permissionsFor (filter (\<lambda>binding. rb_resourceId binding = None) active) in
     if mr_permission request \<notin> projectPermissions then Inr False
     else if mr_resourceId request = None then Inr True
     else let resourceBindings = filter (\<lambda>binding. rb_resourceId binding = mr_resourceId request) active in
       if length resourceBindings = 0 then Inr True
       else Inr (mr_permission request \<in> permissionsFor resourceBindings)))))))"

subsection \<open>The order of locks\<close>

datatype LockDomain =
    PROJECT_CONTROL | RELEASE_CHANNEL | RELEASE | RELEASE_PINS | SNAPSHOT_GROUP | OBJECT_TYPE_CUTOVER
  | GENERATION_INVENTORY | SERVING_HEADS

definition LOCK_ORDER :: "LockDomain list" where
  "LOCK_ORDER = [PROJECT_CONTROL, RELEASE_CHANNEL, RELEASE, RELEASE_PINS, SNAPSHOT_GROUP,
     OBJECT_TYPE_CUTOVER, GENERATION_INVENTORY, SERVING_HEADS]"

definition PUBLISH_LOCK_PLAN :: "LockDomain list" where
  "PUBLISH_LOCK_PLAN = [PROJECT_CONTROL, RELEASE_CHANNEL, RELEASE, RELEASE_PINS, SERVING_HEADS]"

definition SNAPSHOT_CUTOVER_LOCK_PLAN :: "LockDomain list" where
  "SNAPSHOT_CUTOVER_LOCK_PLAN = [PROJECT_CONTROL, RELEASE_CHANNEL, SNAPSHOT_GROUP, OBJECT_TYPE_CUTOVER,
     GENERATION_INVENTORY, SERVING_HEADS]"

text \<open>\<open>indexOf\<close>, which is -1 for a value that is not in the list.\<close>

fun js_indexOf :: "'v list \<Rightarrow> 'v \<Rightarrow> int" where
  "js_indexOf [] v = -1"
| "js_indexOf (w # ws) v = (if w = v then 0 else let i = js_indexOf ws v in if i = -1 then -1 else i + 1)"

fun lockLoop :: "int \<Rightarrow> LockDomain list \<Rightarrow> unit control_result" where
  "lockLoop previous [] = Inr ()"
| "lockLoop previous (lock # plan) = (let rank = js_indexOf LOCK_ORDER lock in
     rbind (guard (\<not> rank \<le> previous) INVALID_INPUT) (\<lambda>_. lockLoop rank plan))"

definition assertLockPlan :: "LockDomain list \<Rightarrow> unit control_result" where
  "assertLockPlan plan = lockLoop (-1) plan"

subsection \<open>The state\<close>

record RuntimeActivationControl =
  ac_id :: jsstring
  ac_releaseId :: jsstring
  ac_manifestDigest :: jsstring
  ac_memberIds :: "jsstring list"

record ChannelControlPointer =
  cc_projectId :: jsstring
  cc_channel :: jsstring
  cc_releaseId :: jsstring
  cc_activationId :: jsstring

record ServingHeadControlPointer =
  hc_releaseId :: jsstring
  hc_activationId :: jsstring

record MetadataControlPlaneState =
  mc_controlRevision :: int
  mc_releases :: "(jsstring, ControlRelease) jsmap"
  mc_activations :: "(jsstring, RuntimeActivationControl) jsmap"
  mc_channels :: "(jsstring, ChannelControlPointer) jsmap"
  mc_servingHeads :: "(jsstring, ServingHeadControlPointer) jsmap"
  mc_packageInstallations :: "(jsstring, PackageInstallation) jsmap"
  mc_packageChanges :: "(jsstring, PackageInstallationChange) jsmap"
  mc_roleBindings :: "(jsstring, RoleBinding) jsmap"
  mc_authorizationEpochs :: "(jsstring, int) jsmap"

definition createMetadataControlPlaneState :: MetadataControlPlaneState where
  "createMetadataControlPlaneState = \<lparr>mc_controlRevision = 0, mc_releases = [], mc_activations = [], mc_channels = [],
     mc_servingHeads = [], mc_packageInstallations = [], mc_packageChanges = [], mc_roleBindings = [],
     mc_authorizationEpochs = []\<rparr>"

subsection \<open>Invariants\<close>

primrec control_checkAll :: "('a \<Rightarrow> unit control_result) \<Rightarrow> 'a list \<Rightarrow> unit control_result" where
  "control_checkAll f [] = Inr ()"
| "control_checkAll f (x # xs) = rbind (f x) (\<lambda>_. control_checkAll f xs)"

definition checkControlChannel :: "MetadataControlPlaneState \<Rightarrow> ChannelControlPointer \<Rightarrow> unit control_result" where
  "checkControlChannel st channel =
     rbind (control_requireRecord (mc_releases st) (cc_releaseId channel)) (\<lambda>release.
     rbind (control_requireRecord (mc_activations st) (cc_activationId channel)) (\<lambda>activation.
     rbind (guard (\<not> (cr_state release \<noteq> Rel_PUBLISHED \<or> ac_releaseId activation \<noteq> cr_id release)) INVALID_STATE) (\<lambda>_.
     guard (\<not> map_option hc_activationId (map_of (mc_servingHeads st) (cr_id release)) \<noteq> Some (ac_id activation)) INVALID_STATE)))"

definition activeChanges :: "MetadataControlPlaneState \<Rightarrow> jsstring \<Rightarrow> PackageInstallationChange list" where
  "activeChanges st installationId = filter (\<lambda>change. pc_installationId change = installationId \<and> pc_state change = Change_ACTIVE)
     (map_values (mc_packageChanges st))"

definition checkInstallation :: "MetadataControlPlaneState \<Rightarrow> PackageInstallation \<Rightarrow> unit control_result" where
  "checkInstallation st installation =
     (if in_activeReleaseId installation = None
      then guard (\<not> in_activePackageRevisionId installation \<noteq> None) INVALID_STATE
      else case activeChanges st (in_id installation) of
          [active] \<Rightarrow> guard (\<not> (Some (pc_targetReleaseId active) \<noteq> in_activeReleaseId installation
            \<or> Some (pc_targetPackageRevisionId active) \<noteq> in_activePackageRevisionId installation)) INVALID_STATE
        | _ \<Rightarrow> Inl INVALID_STATE)"

definition assertMetadataControlPlaneInvariants :: "MetadataControlPlaneState \<Rightarrow> unit control_result" where
  "assertMetadataControlPlaneInvariants st =
     rbind (assertLockPlan PUBLISH_LOCK_PLAN) (\<lambda>_.
     rbind (assertLockPlan SNAPSHOT_CUTOVER_LOCK_PLAN) (\<lambda>_.
     rbind (control_checkAll (checkControlChannel st) (map_values (mc_channels st))) (\<lambda>_.
     control_checkAll (checkInstallation st) (map_values (mc_packageInstallations st)))))"

subsection \<open>Publishing a release\<close>

datatype PublishFailurePoint = After_release | After_serving_head | After_channel | After_installations | After_epoch

record PublishReleaseInput =
  pr_projectId :: jsstring
  pr_releaseId :: jsstring
  pr_activationId :: jsstring
  pr_channel :: jsstring
  pr_expectedControlRevision :: int
  pr_packageChangeId :: "jsstring option"
  pr_failurePoint :: "PublishFailurePoint option"

definition controlChannelKey :: "jsstring \<Rightarrow> jsstring \<Rightarrow> jsstring" where
  "controlChannelKey projectId channel = projectId @ js '':'' @ channel"

definition packagePublishAlreadyApplied :: "MetadataControlPlaneState \<Rightarrow> PublishReleaseInput \<Rightarrow> bool" where
  "packagePublishAlreadyApplied st input = (case pr_packageChangeId input of
       None \<Rightarrow> True
     | Some changeId \<Rightarrow> (case map_of (mc_packageChanges st) changeId of
         None \<Rightarrow> False
       | Some change \<Rightarrow> pc_state change = Change_ACTIVE \<and>
           (case map_of (mc_packageInstallations st) (pc_installationId change) of
              None \<Rightarrow> False
            | Some installation \<Rightarrow> in_activePackageRevisionId installation = Some (pc_targetPackageRevisionId change)
                \<and> in_activeReleaseId installation = Some (pc_targetReleaseId change))))"

fun supersedeChanges ::
  "jsstring \<Rightarrow> PackageInstallationChange list \<Rightarrow> (jsstring, PackageInstallationChange) jsmap
     \<Rightarrow> (jsstring, PackageInstallationChange) jsmap control_result" where
  "supersedeChanges installationId [] changes = Inr changes"
| "supersedeChanges installationId (existing # rest) changes =
     (if pc_installationId existing = installationId \<and> pc_state existing = Change_ACTIVE
      then rbind (transitionPackageChange existing Change_SUPERSEDED) (\<lambda>superseded.
        supersedeChanges installationId rest (AList.update (pc_id existing) superseded changes))
      else supersedeChanges installationId rest changes)"

definition activatePackageChange ::
  "MetadataControlPlaneState \<Rightarrow> jsstring \<Rightarrow> PublishReleaseInput \<Rightarrow> MetadataControlPlaneState control_result" where
  "activatePackageChange st packageChangeId input =
     rbind (control_requireRecord (mc_packageChanges st) packageChangeId) (\<lambda>change.
     rbind (control_requireRecord (mc_packageInstallations st) (pc_installationId change)) (\<lambda>installation.
     rbind (guard (\<not> (in_projectId installation \<noteq> pr_projectId input \<or> pc_targetReleaseId change \<noteq> pr_releaseId input)) INVALID_INPUT) (\<lambda>_.
     rbind (control_requireState (pc_state change) [Change_PENDING]) (\<lambda>_.
     rbind (supersedeChanges (in_id installation) (map_values (mc_packageChanges st)) (mc_packageChanges st)) (\<lambda>changes.
     rbind (transitionPackageChange change Change_ACTIVE) (\<lambda>activated.
     Inr (st\<lparr>mc_packageChanges := AList.update (pc_id change) activated changes,
       mc_packageInstallations := AList.update (in_id installation)
         (installation\<lparr>in_activePackageRevisionId := Some (pc_targetPackageRevisionId change),
           in_activeReleaseId := Some (pc_targetReleaseId change)\<rparr>) (mc_packageInstallations st)\<rparr>)))))))"

definition supersedeOnChannel ::
  "ChannelControlPointer option \<Rightarrow> jsstring \<Rightarrow> (jsstring, ControlRelease) jsmap \<Rightarrow> (jsstring, ControlRelease) jsmap control_result" where
  "supersedeOnChannel existingChannel releaseId releases = (case existingChannel of
       None \<Rightarrow> Inr releases
     | Some c \<Rightarrow>
         if cc_releaseId c = releaseId then Inr releases
         else case map_of releases (cc_releaseId c) of
             None \<Rightarrow> Inr releases
           | Some old \<Rightarrow>
               if cr_state old = Rel_PUBLISHED
               then rbind (transitionRelease old Rel_SUPERSEDED) (\<lambda>superseded. Inr (AList.update (cr_id old) superseded releases))
               else Inr releases)"

definition alreadyPublished :: "MetadataControlPlaneState \<Rightarrow> PublishReleaseInput \<Rightarrow> bool" where
  "alreadyPublished st input \<longleftrightarrow>
     map_option cr_state (map_of (mc_releases st) (pr_releaseId input)) = Some Rel_PUBLISHED
     \<and> (case map_of (mc_channels st) (controlChannelKey (pr_projectId input) (pr_channel input)) of
          None \<Rightarrow> False
        | Some c \<Rightarrow> cc_releaseId c = pr_releaseId input \<and> cc_activationId c = pr_activationId input)
     \<and> map_option hc_activationId (map_of (mc_servingHeads st) (pr_releaseId input)) = Some (pr_activationId input)
     \<and> packagePublishAlreadyApplied st input"

definition publishWritesControl :: "MetadataControlPlaneState \<Rightarrow> PublishReleaseInput \<Rightarrow> MetadataControlPlaneState control_result" where
  "publishWritesControl st input =
     (let channelKey = controlChannelKey (pr_projectId input) (pr_channel input) in
     rbind (control_requireRecord (mc_releases st) (pr_releaseId input)) (\<lambda>release.
     rbind (transitionRelease release Rel_PUBLISHED) (\<lambda>published.
     let releases = AList.update (pr_releaseId input) published (mc_releases st) in
     rbind (failAt (pr_failurePoint input) After_release) (\<lambda>_.
     let heads = AList.update (pr_releaseId input)
           \<lparr>hc_releaseId = pr_releaseId input, hc_activationId = pr_activationId input\<rparr> (mc_servingHeads st) in
     rbind (failAt (pr_failurePoint input) After_serving_head) (\<lambda>_.
     rbind (supersedeOnChannel (map_of (mc_channels st) channelKey) (pr_releaseId input) releases) (\<lambda>releases.
     let channels = AList.update channelKey \<lparr>cc_projectId = pr_projectId input, cc_channel = pr_channel input,
           cc_releaseId = pr_releaseId input, cc_activationId = pr_activationId input\<rparr> (mc_channels st) in
     rbind (failAt (pr_failurePoint input) After_channel) (\<lambda>_.
     let next1 = st\<lparr>mc_releases := releases, mc_servingHeads := heads, mc_channels := channels\<rparr> in
     rbind (case pr_packageChangeId input of None \<Rightarrow> Inr next1 | Some changeId \<Rightarrow> activatePackageChange next1 changeId input) (\<lambda>next2.
     rbind (failAt (pr_failurePoint input) After_installations) (\<lambda>_.
     let epoch = (case map_of (mc_authorizationEpochs st) (pr_projectId input) of None \<Rightarrow> 0 | Some e \<Rightarrow> e) + 1 in
     rbind (failAt (pr_failurePoint input) After_epoch) (\<lambda>_.
     Inr (next2\<lparr>mc_authorizationEpochs := AList.update (pr_projectId input) epoch (mc_authorizationEpochs st),
       mc_controlRevision := mc_controlRevision st + 1\<rparr>)))))))))))"

definition publishReleaseTransaction ::
  "MetadataControlPlaneState \<Rightarrow> PublishReleaseInput \<Rightarrow> MetadataControlPlaneState control_result" where
  "publishReleaseTransaction st input =
     rbind (assertLockPlan PUBLISH_LOCK_PLAN) (\<lambda>_.
     rbind (control_requireRecord (mc_releases st) (pr_releaseId input)) (\<lambda>currentRelease.
     rbind (control_requireRecord (mc_activations st) (pr_activationId input)) (\<lambda>activation.
     if alreadyPublished st input then Inr st
     else
       rbind (guard (\<not> mc_controlRevision st \<noteq> pr_expectedControlRevision input) CONCURRENT_MODIFICATION) (\<lambda>_.
       rbind (control_requireState (cr_state currentRelease) [Rel_READY]) (\<lambda>_.
       rbind (guard (\<not> (cr_projectId currentRelease \<noteq> pr_projectId input \<or> ac_releaseId activation \<noteq> pr_releaseId input
         \<or> ac_manifestDigest activation \<noteq> cr_manifestDigest currentRelease)) INVALID_INPUT) (\<lambda>_.
       rbind (guard (\<not> length (ac_memberIds activation) \<noteq> 0) INVALID_STATE) (\<lambda>_.
       rbind (publishWritesControl st input) (\<lambda>published.
       rbind (assertMetadataControlPlaneInvariants published) (\<lambda>_. Inr published)))))))))"

subsection \<open>Replacing role bindings\<close>

datatype RoleBindingFailurePoint = After_bindings | After_binding_epoch

record ReplaceRoleBindingsInput =
  rp_projectId :: jsstring
  rp_expectedEpoch :: int
  rp_desired :: "RoleBindingInput list"
  rp_failurePoint :: "RoleBindingFailurePoint option"

fun role_text :: "ManagementRole \<Rightarrow> jsstring" where
  "role_text OWNER = js ''OWNER''"
| "role_text EDITOR = js ''EDITOR''"
| "role_text VIEWER = js ''VIEWER''"
| "role_text EXECUTOR = js ''EXECUTOR''"
| "role_text AUDITOR = js ''AUDITOR''"

text \<open>\<open>JSON.stringify\<close> of a list of strings and nulls.\<close>

definition js_stringify_nullable :: "jsstring option \<Rightarrow> jsstring" where
  "js_stringify_nullable v = (case v of None \<Rightarrow> js ''null'' | Some s \<Rightarrow> js_quote s)"

definition canonicalBinding :: "('a) RoleBindingInput_scheme \<Rightarrow> jsstring" where
  "canonicalBinding binding = 91 # js_join [44] (map js_stringify_nullable
     [Some (rb_projectId binding), Some (rb_principalId binding), rb_resourceId binding, Some (role_text (rb_role binding))]) @ [93]"

definition canonicalBindings :: "('a) RoleBindingInput_scheme list \<Rightarrow> jsstring" where
  "canonicalBindings bindings = js_join [10] (sort (map canonicalBinding bindings))"

definition activate_binding :: "RoleBindingInput \<Rightarrow> RoleBinding" where
  "activate_binding b = RoleBindingInput.extend b \<lparr>rb_state = Binding_ACTIVE\<rparr>"

definition revoke_active :: "jsstring \<Rightarrow> RoleBinding \<Rightarrow> RoleBinding" where
  "revoke_active projectId binding =
     (if rb_projectId binding = projectId \<and> rb_state binding = Binding_ACTIVE then binding\<lparr>rb_state := Binding_REVOKED\<rparr> else binding)"

fun insertBindings :: "RoleBindingInput list \<Rightarrow> (jsstring, RoleBinding) jsmap \<Rightarrow> (jsstring, RoleBinding) jsmap control_result" where
  "insertBindings [] bindings = Inr bindings"
| "insertBindings (binding # rest) bindings =
     rbind (guard (\<not> map_of bindings (rb_id binding) \<noteq> None) ALREADY_EXISTS) (\<lambda>_.
     insertBindings rest (AList.update (rb_id binding) (activate_binding binding) bindings))"

definition activeBindings :: "MetadataControlPlaneState \<Rightarrow> jsstring \<Rightarrow> RoleBinding list" where
  "activeBindings st projectId = filter (\<lambda>binding. rb_projectId binding = projectId \<and> rb_state binding = Binding_ACTIVE)
     (map_values (mc_roleBindings st))"

definition replaceRoleBindingsTransaction ::
  "MetadataControlPlaneState \<Rightarrow> ReplaceRoleBindingsInput \<Rightarrow> MetadataControlPlaneState control_result" where
  "replaceRoleBindingsTransaction st input =
     (case map_of (mc_authorizationEpochs st) (rp_projectId input) of
       None \<Rightarrow> Inl NOT_FOUND
     | Some currentEpoch \<Rightarrow>
         rbind (guard (\<not> currentEpoch \<noteq> rp_expectedEpoch input) CONCURRENT_MODIFICATION) (\<lambda>_.
         rbind (control_checkAll (\<lambda>binding. guard (\<not> rb_projectId binding \<noteq> rp_projectId input) INVALID_INPUT) (rp_desired input)) (\<lambda>_.
         let desiredCanonicalKeys = map canonicalBinding (rp_desired input) in
         rbind (guard (\<not> length (remdups desiredCanonicalKeys) \<noteq> length desiredCanonicalKeys) INVALID_INPUT) (\<lambda>_.
         if canonicalBindings (activeBindings st (rp_projectId input)) = canonicalBindings (rp_desired input) then Inr st
         else
           rbind (insertBindings (rp_desired input)
             (map (\<lambda>(k, binding). (k, revoke_active (rp_projectId input) binding)) (mc_roleBindings st))) (\<lambda>bindings.
           rbind (failAt (rp_failurePoint input) After_bindings) (\<lambda>_.
           rbind (failAt (rp_failurePoint input) After_binding_epoch) (\<lambda>_.
           Inr (st\<lparr>mc_roleBindings := bindings,
             mc_authorizationEpochs := AList.update (rp_projectId input) (currentEpoch + 1) (mc_authorizationEpochs st),
             mc_controlRevision := mc_controlRevision st + 1\<rparr>))))))))"

end
