(* ===== verification/ControlPlaneFacts.thy ===== *)
theory ControlPlaneFacts
  imports ControlPlane "HOL-Library.Multiset"
begin

text \<open>
  What the transactions of the metadata control plane do to its state, in terms of maps: the cutover
  of a publish, the replacement of role bindings, the invariant of the state, and what only moves
  forward along a run of transactions.
\<close>

subsection \<open>Lookups and checks\<close>

lemma control_requireRecord_Inr [simp]: "control_requireRecord m k = Inr v \<longleftrightarrow> map_of m k = Some v"
  by (auto simp: control_requireRecord_def split: option.splits)

lemma control_requireState_Inr [simp]: "control_requireState s allowed = Inr u \<longleftrightarrow> s \<in> set allowed"
  by (simp add: control_requireState_def)

lemma failAt_Inr [simp]: "failAt p q = Inr u \<longleftrightarrow> p \<noteq> Some q"
  by (simp add: failAt_def)

lemma failAt_None [simp]: "failAt None q = Inr ()"
  by simp

lemma control_checkAll_Inr [simp]: "control_checkAll f xs = Inr u \<longleftrightarrow> (\<forall>x\<in>set xs. f x = Inr ())"
  by (induction xs) auto

lemma transitionRelease_Inr [simp]:
  "transitionRelease r s = Inr r' \<longleftrightarrow> s \<in> set (legal_release_targets (cr_state r)) \<and> r' = r\<lparr>cr_state := s\<rparr>"
  by (auto simp: transitionRelease_def)

lemma transitionPackageChange_Inr [simp]:
  "transitionPackageChange c s = Inr c' \<longleftrightarrow> s \<in> set (legal_change_targets (pc_state c)) \<and> c' = c\<lparr>pc_state := s\<rparr>"
  by (auto simp: transitionPackageChange_def)

lemma lock_plans_accepted [simp]:
  "assertLockPlan PUBLISH_LOCK_PLAN = Inr ()" "assertLockPlan SNAPSHOT_CUTOVER_LOCK_PLAN = Inr ()"
  by code_simp+

subsection \<open>Consistent states\<close>

lemma all_values: "wf_jsmap m \<Longrightarrow> (\<forall>v\<in>set (map_values m). P v) \<longleftrightarrow> (\<forall>k v. map_of m k = Some v \<longrightarrow> P v)"
  unfolding Ball_def map_values_iff by blast

text \<open>Exactly one value of a map satisfies a predicate.\<close>

lemma filter_values_singleton:
  assumes "keyed_by f m"
  shows "filter P (map_values m) = [x] \<longleftrightarrow> (\<forall>v. map_of m (f v) = Some v \<and> P v \<longleftrightarrow> v = x)"
proof -
  have "distinct (map f (map_values m))"
    by (rule distinct_keyed_ids [OF keyed_by_wf [OF assms] keyed_by_id [OF assms]])
  then have "distinct (map_values m)" by (rule distinct_map [THEN iffD1, THEN conjunct1])
  then have d: "distinct (filter P (map_values m))" by simp
  have "filter P (map_values m) = [x] \<longleftrightarrow> set (filter P (map_values m)) = {x}"
  proof
    assume "set (filter P (map_values m)) = {x}"
    with d show "filter P (map_values m) = [x]"
      by (cases "filter P (map_values m)" rule: remdups_adj.cases) (auto simp del: set_filter)
  qed simp
  then show ?thesis using keyed_by_values [OF assms] by (auto simp: set_eq_iff)
qed

definition control_keys :: "MetadataControlPlaneState \<Rightarrow> bool" where
  "control_keys st \<longleftrightarrow> keyed_by cr_id (mc_releases st) \<and> keyed_by ac_id (mc_activations st)
     \<and> keyed_by (\<lambda>c. controlChannelKey (cc_projectId c) (cc_channel c)) (mc_channels st)
     \<and> keyed_by hc_releaseId (mc_servingHeads st) \<and> keyed_by in_id (mc_packageInstallations st)
     \<and> keyed_by pc_id (mc_packageChanges st) \<and> keyed_by rb_id (mc_roleBindings st) \<and> wf_jsmap (mc_authorizationEpochs st)"

text \<open>No two channels point at one release.\<close>

definition channels_apart :: "MetadataControlPlaneState \<Rightarrow> bool" where
  "channels_apart st \<longleftrightarrow> (\<forall>k c k' c'. map_of (mc_channels st) k = Some c \<and> map_of (mc_channels st) k' = Some c'
     \<and> cc_releaseId c = cc_releaseId c' \<longrightarrow> k = k')"

text \<open>No two active bindings grant the same.\<close>

definition bindings_once :: "MetadataControlPlaneState \<Rightarrow> bool" where
  "bindings_once st \<longleftrightarrow> (\<forall>k b k' b'. map_of (mc_roleBindings st) k = Some b \<and> map_of (mc_roleBindings st) k' = Some b'
     \<and> rb_state b = Binding_ACTIVE \<and> rb_state b' = Binding_ACTIVE \<and> canonicalBinding b = canonicalBinding b' \<longrightarrow> k = k')"

definition channel_consistent :: "MetadataControlPlaneState \<Rightarrow> ChannelControlPointer \<Rightarrow> bool" where
  "channel_consistent st c \<longleftrightarrow> (\<exists>r a h. map_of (mc_releases st) (cc_releaseId c) = Some r \<and> cr_state r = Rel_PUBLISHED
     \<and> map_of (mc_activations st) (cc_activationId c) = Some a \<and> ac_releaseId a = cc_releaseId c
     \<and> map_of (mc_servingHeads st) (cc_releaseId c) = Some h \<and> hc_activationId h = cc_activationId c)"

definition active_change :: "MetadataControlPlaneState \<Rightarrow> jsstring \<Rightarrow> PackageInstallationChange \<Rightarrow> bool" where
  "active_change st n x \<longleftrightarrow> map_of (mc_packageChanges st) (pc_id x) = Some x \<and> pc_installationId x = n \<and> pc_state x = Change_ACTIVE"

definition installation_consistent :: "MetadataControlPlaneState \<Rightarrow> PackageInstallation \<Rightarrow> bool" where
  "installation_consistent st n \<longleftrightarrow> (case in_activeReleaseId n of
       None \<Rightarrow> in_activePackageRevisionId n = None
     | Some releaseId \<Rightarrow> \<exists>x. (\<forall>y. active_change st (in_id n) y \<longleftrightarrow> y = x) \<and> pc_targetReleaseId x = releaseId
         \<and> in_activePackageRevisionId n = Some (pc_targetPackageRevisionId x))"

lemma assertMetadataControlPlaneInvariants_Inr:
  assumes "control_keys st"
  shows "assertMetadataControlPlaneInvariants st = Inr () \<longleftrightarrow>
    (\<forall>k c. map_of (mc_channels st) k = Some c \<longrightarrow> channel_consistent st c)
    \<and> (\<forall>k n. map_of (mc_packageInstallations st) k = Some n \<longrightarrow> installation_consistent st n)"
proof -
  have keys: "keyed_by cr_id (mc_releases st)" "keyed_by ac_id (mc_activations st)"
      "wf_jsmap (mc_channels st)" "wf_jsmap (mc_packageInstallations st)" "keyed_by pc_id (mc_packageChanges st)"
    using assms by (auto simp: control_keys_def dest: keyed_by_wf)
  have channel: "checkControlChannel st c = Inr () \<longleftrightarrow> channel_consistent st c" for c
    using keyed_by_id [OF keys(1)] keyed_by_id [OF keys(2)]
    by (force simp: checkControlChannel_def channel_consistent_def)
  have list: "(case xs of [a] \<Rightarrow> guard (\<not> (Some (pc_targetReleaseId a) \<noteq> r \<or> Some (pc_targetPackageRevisionId a) \<noteq> p)) INVALID_STATE
        | _ \<Rightarrow> Inl INVALID_STATE) = Inr ()
      \<longleftrightarrow> (\<exists>x. xs = [x] \<and> Some (pc_targetReleaseId x) = r \<and> Some (pc_targetPackageRevisionId x) = p)" for xs r p
    by (auto split: list.splits)
  have active: "activeChanges st n = [x] \<longleftrightarrow> (\<forall>y. active_change st n y \<longleftrightarrow> y = x)" for n x
    unfolding activeChanges_def active_change_def by (rule filter_values_singleton [OF keys(5)])
  have installation: "checkInstallation st n = Inr () \<longleftrightarrow> installation_consistent st n" for n
    unfolding checkInstallation_def installation_consistent_def
    by (cases "in_activeReleaseId n") (auto simp: list active)
  show ?thesis
    unfolding assertMetadataControlPlaneInvariants_def
    by (simp add: channel installation all_values [OF keys(3)] all_values [OF keys(4)] del: set_map)
qed

definition control_ok :: "MetadataControlPlaneState \<Rightarrow> bool" where
  "control_ok st \<longleftrightarrow> control_keys st \<and> channels_apart st \<and> bindings_once st
     \<and> assertMetadataControlPlaneInvariants st = Inr ()"

lemma control_ok_parts:
  assumes "control_ok st"
  shows "control_keys st" "channels_apart st" "bindings_once st"
    "map_of (mc_channels st) k = Some c \<Longrightarrow> channel_consistent st c"
    "map_of (mc_packageInstallations st) k = Some n \<Longrightarrow> installation_consistent st n"
  using assms assertMetadataControlPlaneInvariants_Inr by (auto simp: control_ok_def)

subsection \<open>The cutover\<close>

text \<open>What a publish must find, and the state it leaves.\<close>

definition publishable_change :: "MetadataControlPlaneState \<Rightarrow> PublishReleaseInput \<Rightarrow> jsstring \<Rightarrow> bool" where
  "publishable_change st i k \<longleftrightarrow> (\<exists>c n. map_of (mc_packageChanges st) k = Some c \<and> pc_state c = Change_PENDING
     \<and> pc_targetReleaseId c = pr_releaseId i \<and> map_of (mc_packageInstallations st) (pc_installationId c) = Some n
     \<and> in_projectId n = pr_projectId i)"

definition publishable :: "MetadataControlPlaneState \<Rightarrow> PublishReleaseInput \<Rightarrow> bool" where
  "publishable st i \<longleftrightarrow> (\<exists>r a. map_of (mc_releases st) (pr_releaseId i) = Some r \<and> cr_state r = Rel_READY
     \<and> cr_projectId r = pr_projectId i \<and> map_of (mc_activations st) (pr_activationId i) = Some a
     \<and> ac_releaseId a = pr_releaseId i \<and> ac_manifestDigest a = cr_manifestDigest r \<and> ac_memberIds a = [])
     \<and> mc_controlRevision st = pr_expectedControlRevision i
     \<and> (\<forall>k. pr_packageChangeId i = Some k \<longrightarrow> publishable_change st i k)"

definition supersede_change :: "jsstring \<Rightarrow> PackageInstallationChange \<Rightarrow> PackageInstallationChange" where
  "supersede_change n c = (if pc_installationId c = n \<and> pc_state c = Change_ACTIVE then c\<lparr>pc_state := Change_SUPERSEDED\<rparr> else c)"

definition packages_switched :: "MetadataControlPlaneState \<Rightarrow> jsstring \<Rightarrow> MetadataControlPlaneState \<Rightarrow> bool" where
  "packages_switched st k st' \<longleftrightarrow> (\<exists>c n. map_of (mc_packageChanges st) k = Some c
     \<and> map_of (mc_packageInstallations st) (pc_installationId c) = Some n
     \<and> map_of (mc_packageChanges st') = (\<lambda>k'. if k' = k then Some (c\<lparr>pc_state := Change_ACTIVE\<rparr>)
         else map_option (supersede_change (pc_installationId c)) (map_of (mc_packageChanges st) k'))
     \<and> map_of (mc_packageInstallations st') = (map_of (mc_packageInstallations st))(pc_installationId c \<mapsto>
         n\<lparr>in_activePackageRevisionId := Some (pc_targetPackageRevisionId c), in_activeReleaseId := Some (pc_targetReleaseId c)\<rparr>))"

definition release_on_channel :: "MetadataControlPlaneState \<Rightarrow> PublishReleaseInput \<Rightarrow> jsstring option" where
  "release_on_channel st i = map_option cc_releaseId (map_of (mc_channels st) (controlChannelKey (pr_projectId i) (pr_channel i)))"

definition supersede_release :: "ControlRelease \<Rightarrow> ControlRelease" where
  "supersede_release r = (if cr_state r = Rel_PUBLISHED then r\<lparr>cr_state := Rel_SUPERSEDED\<rparr> else r)"

definition cutover :: "MetadataControlPlaneState \<Rightarrow> PublishReleaseInput \<Rightarrow> MetadataControlPlaneState \<Rightarrow> bool" where
  "cutover st i st' \<longleftrightarrow>
     map_of (mc_releases st') = (\<lambda>k. if k = pr_releaseId i then map_option (\<lambda>r. r\<lparr>cr_state := Rel_PUBLISHED\<rparr>) (map_of (mc_releases st) k)
       else if release_on_channel st i = Some k then map_option supersede_release (map_of (mc_releases st) k)
       else map_of (mc_releases st) k)
     \<and> map_of (mc_servingHeads st') = (map_of (mc_servingHeads st))(pr_releaseId i \<mapsto>
         \<lparr>hc_releaseId = pr_releaseId i, hc_activationId = pr_activationId i\<rparr>)
     \<and> map_of (mc_channels st') = (map_of (mc_channels st))(controlChannelKey (pr_projectId i) (pr_channel i) \<mapsto>
         \<lparr>cc_projectId = pr_projectId i, cc_channel = pr_channel i, cc_releaseId = pr_releaseId i, cc_activationId = pr_activationId i\<rparr>)
     \<and> (case pr_packageChangeId i of
          None \<Rightarrow> mc_packageChanges st' = mc_packageChanges st \<and> mc_packageInstallations st' = mc_packageInstallations st
        | Some k \<Rightarrow> packages_switched st k st')
     \<and> map_of (mc_authorizationEpochs st') = (map_of (mc_authorizationEpochs st))(pr_projectId i \<mapsto>
         (case map_of (mc_authorizationEpochs st) (pr_projectId i) of None \<Rightarrow> 0 | Some e \<Rightarrow> e) + 1)
     \<and> mc_controlRevision st' = mc_controlRevision st + 1
     \<and> mc_activations st' = mc_activations st \<and> mc_roleBindings st' = mc_roleBindings st"

lemma supersedeChanges_map:
  assumes "keyed_by pc_id m" and "\<forall>x\<in>set xs. map_of m0 (pc_id x) = Some x"
  obtains m' where "supersedeChanges n xs m = Inr m'" "keyed_by pc_id m'"
    "\<And>k. map_of m' k = (if \<exists>x\<in>set xs. pc_id x = k \<and> pc_installationId x = n \<and> pc_state x = Change_ACTIVE
       then map_option (supersede_change n) (map_of m0 k) else map_of m k)"
  using assms
proof (induction xs arbitrary: m thesis)
  case Nil
  then show ?case by simp
next
  case (Cons x xs)
  show ?case
  proof (cases "pc_installationId x = n \<and> pc_state x = Change_ACTIVE")
    case True
    let ?m = "AList.update (pc_id x) (x\<lparr>pc_state := Change_SUPERSEDED\<rparr>) m"
    from Cons.IH [of ?m] Cons.prems(2,3) obtain m' where m': "supersedeChanges n xs ?m = Inr m'" "keyed_by pc_id m'"
      "\<And>k. map_of m' k = (if \<exists>x\<in>set xs. pc_id x = k \<and> pc_installationId x = n \<and> pc_state x = Change_ACTIVE
         then map_option (supersede_change n) (map_of m0 k) else map_of ?m k)"
      by (auto simp: keyed_by_update)
    show ?thesis
    proof (rule Cons.prems(1))
      show "supersedeChanges n (x # xs) m = Inr m'" using True m'(1) by (simp add: transitionPackageChange_def)
      show "map_of m' k = (if \<exists>y\<in>set (x # xs). pc_id y = k \<and> pc_installationId y = n \<and> pc_state y = Change_ACTIVE
          then map_option (supersede_change n) (map_of m0 k) else map_of m k)" for k
        using True Cons.prems(3) by (auto simp: m'(3) supersede_change_def)
    qed (rule m'(2))
  next
    case False
    from Cons.IH [of m] Cons.prems(2,3) obtain m' where m': "supersedeChanges n xs m = Inr m'" "keyed_by pc_id m'"
      "\<And>k. map_of m' k = (if \<exists>x\<in>set xs. pc_id x = k \<and> pc_installationId x = n \<and> pc_state x = Change_ACTIVE
         then map_option (supersede_change n) (map_of m0 k) else map_of m k)"
      by auto
    show ?thesis
      by (rule Cons.prems(1) [of m']) (use False m' in auto)
  qed
qed

lemma supersedeChanges_all:
  assumes keys: "keyed_by pc_id m"
  obtains m' where "supersedeChanges n (map_values m) m = Inr m'" "keyed_by pc_id m'"
    "\<And>k. map_of m' k = map_option (supersede_change n) (map_of m k)"
proof (rule supersedeChanges_map [OF keys])
  show "\<forall>x\<in>set (map_values m). map_of m (pc_id x) = Some x" using keyed_by_values [OF keys] by blast
  fix m'
  assume m': "supersedeChanges n (map_values m) m = Inr m'" "keyed_by pc_id m'"
    "\<And>k. map_of m' k = (if \<exists>x\<in>set (map_values m). pc_id x = k \<and> pc_installationId x = n \<and> pc_state x = Change_ACTIVE
       then map_option (supersede_change n) (map_of m k) else map_of m k)"
  have "map_of m' k = map_option (supersede_change n) (map_of m k)" for k
  proof (cases "map_of m k")
    case (Some v)
    moreover have "pc_id v = k" by (rule keyed_by_id [OF keys Some])
    moreover have "v \<in> set (map_values m)" by (rule in_values [OF Some])
    ultimately show ?thesis by (auto simp: m'(3) supersede_change_def)
  qed (auto simp: m'(3))
  with m'(1,2) show thesis by (rule that)
qed

lemma activatePackageChange_Inr:
  assumes keys: "keyed_by pc_id (mc_packageChanges st)" "keyed_by in_id (mc_packageInstallations st)"
    and act: "activatePackageChange st k i = Inr st'"
  obtains changes installations where "publishable_change st i k" "packages_switched st k st'"
    "st' = st\<lparr>mc_packageChanges := changes, mc_packageInstallations := installations\<rparr>"
    "keyed_by pc_id changes" "keyed_by in_id installations"
proof -
  from act obtain c n m where c: "map_of (mc_packageChanges st) k = Some c"
      "map_of (mc_packageInstallations st) (pc_installationId c) = Some n"
      "in_projectId n = pr_projectId i" "pc_targetReleaseId c = pr_releaseId i" "pc_state c = Change_PENDING"
      "supersedeChanges (in_id n) (map_values (mc_packageChanges st)) (mc_packageChanges st) = Inr m"
    and st': "st' = st\<lparr>mc_packageChanges := AList.update (pc_id c) (c\<lparr>pc_state := Change_ACTIVE\<rparr>) m,
       mc_packageInstallations := AList.update (in_id n) (n\<lparr>in_activePackageRevisionId := Some (pc_targetPackageRevisionId c),
           in_activeReleaseId := Some (pc_targetReleaseId c)\<rparr>) (mc_packageInstallations st)\<rparr>"
    unfolding activatePackageChange_def by auto
  have id: "pc_id c = k" "in_id n = pc_installationId c"
    by (rule keyed_by_id [OF keys(1) c(1)], rule keyed_by_id [OF keys(2) c(2)])
  obtain m' where m': "supersedeChanges (in_id n) (map_values (mc_packageChanges st)) (mc_packageChanges st) = Inr m'"
      "keyed_by pc_id m'" "\<And>k. map_of m' k = map_option (supersede_change (in_id n)) (map_of (mc_packageChanges st) k)"
    by (rule supersedeChanges_all [OF keys(1), of "in_id n"]) blast
  have [simp]: "m = m'" using c(6) m'(1) by simp
  show thesis
  proof
    show "publishable_change st i k" using c unfolding publishable_change_def by blast
    show "packages_switched st k st'"
      unfolding packages_switched_def using c(1,2) by (auto simp: st' id m'(3) fun_eq_iff)
    show "keyed_by pc_id (AList.update (pc_id c) (c\<lparr>pc_state := Change_ACTIVE\<rparr>) m)"
      using m'(2) by (simp add: keyed_by_update)
    show "keyed_by in_id (AList.update (in_id n) (n\<lparr>in_activePackageRevisionId := Some (pc_targetPackageRevisionId c),
           in_activeReleaseId := Some (pc_targetReleaseId c)\<rparr>) (mc_packageInstallations st))"
      using keys(2) by (simp add: keyed_by_update)
  qed (rule st')
qed

lemma activatePackageChange_ready:
  assumes keys: "keyed_by pc_id (mc_packageChanges st)" and "publishable_change st i k"
  obtains st' where "activatePackageChange st k i = Inr st'"
proof -
  from assms(2) obtain c n where c: "map_of (mc_packageChanges st) k = Some c" "pc_state c = Change_PENDING"
      "pc_targetReleaseId c = pr_releaseId i" "map_of (mc_packageInstallations st) (pc_installationId c) = Some n"
      "in_projectId n = pr_projectId i" by (auto simp: publishable_change_def)
  moreover obtain m' where "supersedeChanges (in_id n) (map_values (mc_packageChanges st)) (mc_packageChanges st) = Inr m'"
    by (rule supersedeChanges_all [OF keys])
  ultimately show thesis using that by (simp add: activatePackageChange_def)
qed

lemma supersedeOnChannel_map:
  assumes "keyed_by cr_id m"
  obtains m' where "supersedeOnChannel c k m = Inr m'" "keyed_by cr_id m'"
    "\<And>k'. map_of m' k' = (if map_option cc_releaseId c = Some k' \<and> k' \<noteq> k then map_option supersede_release (map_of m k') else map_of m k')"
proof (cases c)
  case (Some pointer)
  show thesis
  proof (cases "map_of m (cc_releaseId pointer)")
    case (Some old)
    have id: "cr_id old = cc_releaseId pointer" by (rule keyed_by_id [OF assms Some])
    show thesis
    proof (cases "cc_releaseId pointer \<noteq> k \<and> cr_state old = Rel_PUBLISHED")
      case True
      show thesis
      proof (rule that)
        show "supersedeOnChannel c k m = Inr (AList.update (cr_id old) (old\<lparr>cr_state := Rel_SUPERSEDED\<rparr>) m)"
          using True Some \<open>c = Some pointer\<close> by (simp add: supersedeOnChannel_def transitionRelease_def)
      qed (use True Some id assms \<open>c = Some pointer\<close> in \<open>auto simp: supersede_release_def keyed_by_update\<close>)
    next
      case False
      show thesis
      proof (rule that)
        show "supersedeOnChannel c k m = Inr m"
          using False Some \<open>c = Some pointer\<close> by (auto simp: supersedeOnChannel_def)
      qed (use False Some assms \<open>c = Some pointer\<close> in \<open>auto simp: supersede_release_def\<close>)
    qed
  next
    case None
    show thesis
      by (rule that [of m]) (use None assms \<open>c = Some pointer\<close> in \<open>auto simp: supersedeOnChannel_def\<close>)
  qed
qed (use that [of m] assms in \<open>simp add: supersedeOnChannel_def\<close>)

lemma packages_cong:
  assumes "mc_packageChanges st = mc_packageChanges s" "mc_packageInstallations st = mc_packageInstallations s"
  shows "packages_switched st k st' \<longleftrightarrow> packages_switched s k st'" "publishable_change st i k \<longleftrightarrow> publishable_change s i k"
  using assms by (simp_all only: packages_switched_def publishable_change_def)

lemma publishWritesControl_Inr:
  assumes keys: "control_keys st" and writes: "publishWritesControl st i = Inr st'"
  shows "pr_failurePoint i = None" "\<forall>k. pr_packageChangeId i = Some k \<longrightarrow> publishable_change st i k"
    "cutover st i st'" "control_keys st'"
proof -
  let ?key = "controlChannelKey (pr_projectId i) (pr_channel i)"
  let ?c = "\<lparr>cc_projectId = pr_projectId i, cc_channel = pr_channel i, cc_releaseId = pr_releaseId i, cc_activationId = pr_activationId i\<rparr>"
  let ?h = "\<lparr>hc_releaseId = pr_releaseId i, hc_activationId = pr_activationId i\<rparr>"
  let ?e = "(case map_of (mc_authorizationEpochs st) (pr_projectId i) of None \<Rightarrow> 0 | Some e \<Rightarrow> e) + 1"
  let ?next = "\<lambda>m. st\<lparr>mc_releases := m, mc_servingHeads := AList.update (pr_releaseId i) ?h (mc_servingHeads st),
    mc_channels := AList.update ?key ?c (mc_channels st)\<rparr>"
  note w = writes [unfolded publishWritesControl_def Let_def rbind_eq_Inr_iff control_requireRecord_Inr transitionRelease_Inr failAt_Inr sum.inject]
  from w obtain r published m next2 where r: "map_of (mc_releases st) (pr_releaseId i) = Some r"
      and published: "published = r\<lparr>cr_state := Rel_PUBLISHED\<rparr>"
      and m': "supersedeOnChannel (map_of (mc_channels st) ?key) (pr_releaseId i)
        (AList.update (pr_releaseId i) published (mc_releases st)) = Inr m"
      and next2: "(case pr_packageChangeId i of None \<Rightarrow> Inr (?next m) | Some k \<Rightarrow> activatePackageChange (?next m) k i) = Inr next2"
      and st'': "next2\<lparr>mc_authorizationEpochs := AList.update (pr_projectId i) ?e (mc_authorizationEpochs st),
        mc_controlRevision := mc_controlRevision st + 1\<rparr> = st'"
      and points: "pr_failurePoint i \<noteq> Some After_release" "pr_failurePoint i \<noteq> Some After_serving_head"
        "pr_failurePoint i \<noteq> Some After_channel" "pr_failurePoint i \<noteq> Some After_installations" "pr_failurePoint i \<noteq> Some After_epoch"
    by (elim exE conjE) (rule that, assumption+)
  note m = m' [unfolded published] and st' = st'' [symmetric]
  show "pr_failurePoint i = None" using points by (cases "pr_failurePoint i"; cases "the (pr_failurePoint i)") simp_all
  have k: "keyed_by cr_id (mc_releases st)" "keyed_by pc_id (mc_packageChanges st)" "keyed_by in_id (mc_packageInstallations st)"
    using keys by (simp_all add: control_keys_def)
  have "keyed_by cr_id (AList.update (pr_releaseId i) (r\<lparr>cr_state := Rel_PUBLISHED\<rparr>) (mc_releases st))"
    using keyed_by_id [OF k(1) r] k(1) by (simp add: keyed_by_update)
  then obtain m2 where m2: "supersedeOnChannel (map_of (mc_channels st) ?key) (pr_releaseId i)
        (AList.update (pr_releaseId i) (r\<lparr>cr_state := Rel_PUBLISHED\<rparr>) (mc_releases st)) = Inr m2" "keyed_by cr_id m2"
    "\<And>k. map_of m2 k = (if map_option cc_releaseId (map_of (mc_channels st) ?key) = Some k \<and> k \<noteq> pr_releaseId i
       then map_option supersede_release (map_of (AList.update (pr_releaseId i) (r\<lparr>cr_state := Rel_PUBLISHED\<rparr>) (mc_releases st)) k)
       else map_of (AList.update (pr_releaseId i) (r\<lparr>cr_state := Rel_PUBLISHED\<rparr>) (mc_releases st)) k)"
    by (rule supersedeOnChannel_map [of _ "map_of (mc_channels st) ?key" "pr_releaseId i"]) blast
  have "m2 = m" using m m2(1) by simp
  note km = m2(2) [unfolded this] and mm = m2(3) [unfolded this]
  have releases: "map_of m = (\<lambda>k. if k = pr_releaseId i then map_option (\<lambda>r. r\<lparr>cr_state := Rel_PUBLISHED\<rparr>) (map_of (mc_releases st) k)
       else if release_on_channel st i = Some k then map_option supersede_release (map_of (mc_releases st) k)
       else map_of (mc_releases st) k)"
    using r by (auto simp: mm release_on_channel_def fun_eq_iff)
  have switched: "(\<forall>k. pr_packageChangeId i = Some k \<longrightarrow> publishable_change st i k)
    \<and> (case pr_packageChangeId i of
          None \<Rightarrow> mc_packageChanges next2 = mc_packageChanges st \<and> mc_packageInstallations next2 = mc_packageInstallations st
        | Some k \<Rightarrow> packages_switched st k next2)
    \<and> (\<exists>changes installations. next2 = (?next m)\<lparr>mc_packageChanges := changes, mc_packageInstallations := installations\<rparr>
        \<and> keyed_by pc_id changes \<and> keyed_by in_id installations)"
  proof (cases "pr_packageChangeId i")
    case None
    with next2 have "next2 = ?next m" by simp
    with None k show ?thesis by (intro conjI exI [of _ "mc_packageChanges st"] exI [of _ "mc_packageInstallations st"]) auto
  next
    case (Some change)
    with next2 have act: "activatePackageChange (?next m) change i = Inr next2" by simp
    have k': "keyed_by pc_id (mc_packageChanges (?next m))" "keyed_by in_id (mc_packageInstallations (?next m))" using k by simp_all
    show ?thesis
      by (rule activatePackageChange_Inr [OF k' act]) (use Some in \<open>auto simp: packages_cong [of "?next m" st]\<close>)
  qed
  then show "\<forall>k. pr_packageChangeId i = Some k \<longrightarrow> publishable_change st i k" by blast
  from switched obtain changes installations where n: "next2 = (?next m)\<lparr>mc_packageChanges := changes, mc_packageInstallations := installations\<rparr>"
    "keyed_by pc_id changes" "keyed_by in_id installations" by blast
  have "case pr_packageChangeId i of
          None \<Rightarrow> mc_packageChanges st' = mc_packageChanges st \<and> mc_packageInstallations st' = mc_packageInstallations st
        | Some k \<Rightarrow> packages_switched st k st'"
    using switched by (auto simp: st' packages_switched_def split: option.splits)
  then show "cutover st i st'"
    unfolding cutover_def by (intro conjI) (simp_all add: st' n(1) releases fun_eq_iff)
  show "control_keys st'"
    using keys km n(2,3) by (simp add: control_keys_def st' n(1) keyed_by_update)
qed

lemma publishWritesControl_ready:
  assumes keys: "control_keys st" and ready: "publishable st i" "pr_failurePoint i = None"
  obtains st' where "publishWritesControl st i = Inr st'"
proof -
  let ?key = "controlChannelKey (pr_projectId i) (pr_channel i)"
  from ready obtain r where r: "map_of (mc_releases st) (pr_releaseId i) = Some r" "cr_state r = Rel_READY"
    by (auto simp: publishable_def)
  have k: "keyed_by cr_id (mc_releases st)" "keyed_by pc_id (mc_packageChanges st)" using keys by (simp_all add: control_keys_def)
  have "keyed_by cr_id (AList.update (pr_releaseId i) (r\<lparr>cr_state := Rel_PUBLISHED\<rparr>) (mc_releases st))"
    using keyed_by_id [OF k(1) r(1)] k(1) by (simp add: keyed_by_update)
  then obtain m where m: "supersedeOnChannel (map_of (mc_channels st) ?key) (pr_releaseId i)
        (AList.update (pr_releaseId i) (r\<lparr>cr_state := Rel_PUBLISHED\<rparr>) (mc_releases st)) = Inr m"
    by (rule supersedeOnChannel_map [of _ "map_of (mc_channels st) ?key" "pr_releaseId i"])
  let ?next = "st\<lparr>mc_releases := m, mc_servingHeads := AList.update (pr_releaseId i)
      \<lparr>hc_releaseId = pr_releaseId i, hc_activationId = pr_activationId i\<rparr> (mc_servingHeads st),
    mc_channels := AList.update ?key \<lparr>cc_projectId = pr_projectId i, cc_channel = pr_channel i,
      cc_releaseId = pr_releaseId i, cc_activationId = pr_activationId i\<rparr> (mc_channels st)\<rparr>"
  have "\<exists>next2. (case pr_packageChangeId i of None \<Rightarrow> Inr ?next | Some k \<Rightarrow> activatePackageChange ?next k i) = Inr next2"
  proof (cases "pr_packageChangeId i")
    case (Some change)
    have pending: "publishable_change ?next i change"
      using ready(1) Some by (simp add: publishable_def packages_cong [of ?next st])
    have changes: "keyed_by pc_id (mc_packageChanges ?next)" using k by simp
    obtain next2 where "activatePackageChange ?next change i = Inr next2"
      by (rule activatePackageChange_ready [OF changes pending])
    with Some show ?thesis by simp
  qed simp
  then obtain next2 where next2: "(case pr_packageChangeId i of None \<Rightarrow> Inr ?next | Some k \<Rightarrow> activatePackageChange ?next k i) = Inr next2" ..
  have published: "transitionRelease r Rel_PUBLISHED = Inr (r\<lparr>cr_state := Rel_PUBLISHED\<rparr>)"
    "control_requireRecord (mc_releases st) (pr_releaseId i) = Inr r"
    using r by (simp_all add: transitionRelease_def)
  show thesis
    by (rule that) (simp only: publishWritesControl_def Let_def published ready(2) failAt_None rbind_Inr m next2)
qed

subsection \<open>The cutover keeps the state consistent\<close>

lemma active_change_switched:
  assumes keys: "control_keys st" and switched: "packages_switched st k st'"
    and c: "map_of (mc_packageChanges st) k = Some c"
  shows "active_change st' n y \<longleftrightarrow> (if n = pc_installationId c then y = c\<lparr>pc_state := Change_ACTIVE\<rparr>
    else pc_id y \<noteq> k \<and> active_change st n y)"
proof -
  have changes: "map_of (mc_packageChanges st') = (\<lambda>k'. if k' = k then Some (c\<lparr>pc_state := Change_ACTIVE\<rparr>)
      else map_option (supersede_change (pc_installationId c)) (map_of (mc_packageChanges st) k'))"
    using switched c by (auto simp: packages_switched_def)
  have id: "pc_id v = k'" if "map_of (mc_packageChanges st) k' = Some v" for k' v
    using keys that by (auto simp: control_keys_def dest: keyed_by_id)
  show ?thesis
  proof (cases "pc_id y = k")
    case True
    then show ?thesis using id [OF c] by (auto simp: active_change_def changes)
  next
    case False
    then have "y \<noteq> c\<lparr>pc_state := Change_ACTIVE\<rparr>" using id [OF c] by auto
    moreover have "active_change st' n y \<longleftrightarrow> n \<noteq> pc_installationId c \<and> active_change st n y"
    proof (cases "map_of (mc_packageChanges st) (pc_id y)")
      case None
      with False show ?thesis by (simp add: active_change_def changes)
    next
      case (Some v)
      have "active_change st' n y \<longleftrightarrow> supersede_change (pc_installationId c) v = y \<and> pc_installationId y = n \<and> pc_state y = Change_ACTIVE"
        using False Some by (simp add: active_change_def changes)
      also have "\<dots> \<longleftrightarrow> n \<noteq> pc_installationId c \<and> v = y \<and> pc_installationId y = n \<and> pc_state y = Change_ACTIVE"
        by (cases "pc_installationId v = pc_installationId c \<and> pc_state v = Change_ACTIVE") (auto simp: supersede_change_def)
      finally show ?thesis using Some by (simp add: active_change_def)
    qed
    ultimately show ?thesis using False by simp
  qed
qed

lemma installation_consistent_cong:
  "(\<And>y. active_change st' (in_id n) y \<longleftrightarrow> active_change st (in_id n) y)
     \<Longrightarrow> installation_consistent st' n \<longleftrightarrow> installation_consistent st n"
  by (cases "in_activeReleaseId n") (simp_all add: installation_consistent_def)

lemma installation_consistent_switched:
  assumes ok: "control_ok st" and switched: "packages_switched st k st'" and pending: "publishable_change st i k"
    and n: "map_of (mc_packageInstallations st') kn = Some n"
  shows "installation_consistent st' n"
proof -
  note keys = control_ok_parts(1) [OF ok]
  from switched obtain c n0 where c: "map_of (mc_packageChanges st) k = Some c"
      "map_of (mc_packageInstallations st) (pc_installationId c) = Some n0"
      "map_of (mc_packageInstallations st') = (map_of (mc_packageInstallations st))(pc_installationId c \<mapsto>
         n0\<lparr>in_activePackageRevisionId := Some (pc_targetPackageRevisionId c), in_activeReleaseId := Some (pc_targetReleaseId c)\<rparr>)"
    by (auto simp: packages_switched_def)
  have state: "pc_state c = Change_PENDING" using pending c(1) by (simp add: publishable_change_def)
  have id: "in_id x = k'" if "map_of (mc_packageInstallations st) k' = Some x" for k' x
    using keys that by (auto simp: control_keys_def dest: keyed_by_id)
  note active = active_change_switched [OF keys switched c(1)]
  show ?thesis
  proof (cases "kn = pc_installationId c")
    case True
    then have "in_activeReleaseId n = Some (pc_targetReleaseId c)" "in_id n = pc_installationId c"
      "in_activePackageRevisionId n = Some (pc_targetPackageRevisionId c)" using n c(3) id [OF c(2)] by auto
    then show ?thesis
      by (simp add: installation_consistent_def active) (rule exI [of _ "c\<lparr>pc_state := Change_ACTIVE\<rparr>"], simp)
  next
    case False
    with n c(3) have old: "map_of (mc_packageInstallations st) kn = Some n" by simp
    have "pc_id y \<noteq> k" if "active_change st (in_id n) y" for y
      using that state c(1) by (auto simp: active_change_def)
    then have "active_change st' (in_id n) y \<longleftrightarrow> active_change st (in_id n) y" for y
      using False id [OF old] by (auto simp: active)
    then show ?thesis using control_ok_parts(5) [OF ok old] installation_consistent_cong by blast
  qed
qed

lemma cutover_consistent:
  assumes ok: "control_ok st" and ready: "publishable st i" and cut: "cutover st i st'" and keys: "control_keys st'"
  shows "control_ok st'"
proof -
  let ?key = "controlChannelKey (pr_projectId i) (pr_channel i)" and ?rel = "pr_releaseId i"
  from ready obtain r a where r: "map_of (mc_releases st) ?rel = Some r" "cr_state r = Rel_READY"
      "map_of (mc_activations st) (pr_activationId i) = Some a" "ac_releaseId a = ?rel"
    by (auto simp: publishable_def)
  note parts = control_ok_parts [OF ok]
  have maps: "map_of (mc_releases st') = (\<lambda>k. if k = ?rel then map_option (\<lambda>r. r\<lparr>cr_state := Rel_PUBLISHED\<rparr>) (map_of (mc_releases st) k)
       else if release_on_channel st i = Some k then map_option supersede_release (map_of (mc_releases st) k)
       else map_of (mc_releases st) k)"
    "map_of (mc_servingHeads st') = (map_of (mc_servingHeads st))(?rel \<mapsto> \<lparr>hc_releaseId = ?rel, hc_activationId = pr_activationId i\<rparr>)"
    "map_of (mc_channels st') = (map_of (mc_channels st))(?key \<mapsto>
         \<lparr>cc_projectId = pr_projectId i, cc_channel = pr_channel i, cc_releaseId = ?rel, cc_activationId = pr_activationId i\<rparr>)"
    "mc_activations st' = mc_activations st" "mc_roleBindings st' = mc_roleBindings st"
    using cut unfolding cutover_def by blast+
  have free: "cc_releaseId c \<noteq> ?rel" if "map_of (mc_channels st) k = Some c" for k c
    using parts(4) [OF that] r(1,2) by (auto simp: channel_consistent_def)
  have "channels_apart st'"
    using parts(2) free unfolding channels_apart_def maps(3) by (metis ChannelControlPointer.select_convs(3) fun_upd_apply option.inject)
  moreover have "bindings_once st'" using parts(3) by (simp add: bindings_once_def maps(5))
  moreover have "channel_consistent st' c" if c: "map_of (mc_channels st') k = Some c" for k c
  proof (cases "k = ?key")
    case True
    with c r show ?thesis by (auto simp: maps(3) channel_consistent_def maps(1,2,4))
  next
    case False
    with c have old: "map_of (mc_channels st) k = Some c" by (simp add: maps(3))
    have "release_on_channel st i \<noteq> Some (cc_releaseId c)"
      using parts(2) old False unfolding channels_apart_def release_on_channel_def by fastforce
    then show ?thesis using parts(4) [OF old] free [OF old] by (simp add: channel_consistent_def maps(1,2,4))
  qed
  moreover have "installation_consistent st' n" if n: "map_of (mc_packageInstallations st') k = Some n" for k n
  proof (cases "pr_packageChangeId i")
    case None
    with cut have "mc_packageChanges st' = mc_packageChanges st" "mc_packageInstallations st' = mc_packageInstallations st"
      by (auto simp: cutover_def)
    then have "active_change st' = active_change st" "map_of (mc_packageInstallations st) k = Some n"
      using n by (simp_all add: active_change_def fun_eq_iff)
    then show ?thesis using parts(5) installation_consistent_cong [of st' n st] by simp
  next
    case (Some change)
    with cut have "packages_switched st change st'" by (auto simp: cutover_def)
    moreover have "publishable_change st i change" using ready Some by (simp add: publishable_def)
    ultimately show ?thesis using installation_consistent_switched [OF ok] n by blast
  qed
  ultimately show ?thesis
    using keys by (simp add: control_ok_def assertMetadataControlPlaneInvariants_Inr)
qed

end
