(* ===== verification/ControlPlaneSteps.thy ===== *)
theory ControlPlaneSteps
  imports ControlPlaneFacts
begin

text \<open>
  The two transactions of the metadata control plane as a whole: when a publish returns and what it
  leaves, that it may be repeated, what a replacement of role bindings does to the grants of a project,
  and the runs of transactions from a consistent state.
\<close>

subsection \<open>Publishing\<close>

lemma publish_Inr:
  assumes keys: "control_keys st" and call: "publishReleaseTransaction st i = Inr st'"
  shows "map_of (mc_releases st) (pr_releaseId i) \<noteq> None" "map_of (mc_activations st) (pr_activationId i) \<noteq> None"
    "alreadyPublished st i \<and> st' = st
      \<or> \<not> alreadyPublished st i \<and> publishable st i \<and> pr_failurePoint i = None \<and> cutover st i st' \<and> control_keys st'"
proof -
  from call show "map_of (mc_releases st) (pr_releaseId i) \<noteq> None" "map_of (mc_activations st) (pr_activationId i) \<noteq> None"
    by (auto simp: publishReleaseTransaction_def)
  show "alreadyPublished st i \<and> st' = st
      \<or> \<not> alreadyPublished st i \<and> publishable st i \<and> pr_failurePoint i = None \<and> cutover st i st' \<and> control_keys st'"
  proof (cases "alreadyPublished st i")
    case False
    from call False obtain r a where r: "map_of (mc_releases st) (pr_releaseId i) = Some r" "cr_state r = Rel_READY"
        "map_of (mc_activations st) (pr_activationId i) = Some a" "mc_controlRevision st = pr_expectedControlRevision i"
        "cr_projectId r = pr_projectId i" "ac_releaseId a = pr_releaseId i" "ac_manifestDigest a = cr_manifestDigest r"
        "ac_memberIds a = []" and writes: "publishWritesControl st i = Inr st'"
      by (auto simp: publishReleaseTransaction_def)
    note effect = publishWritesControl_Inr [OF keys writes]
    have "publishable st i" using r effect(2) by (simp add: publishable_def)
    with False effect show ?thesis by blast
  qed (use call in \<open>auto simp: publishReleaseTransaction_def\<close>)
qed

lemma publish_ready:
  assumes ok: "control_ok st" and ready: "publishable st i" "pr_failurePoint i = None"
  obtains st' where "publishReleaseTransaction st i = Inr st'"
proof -
  note keys = control_ok_parts(1) [OF ok]
  obtain st' where writes: "publishWritesControl st i = Inr st'" by (rule publishWritesControl_ready [OF keys ready])
  have "control_ok st'"
    by (rule cutover_consistent [OF ok ready(1)]) (use publishWritesControl_Inr [OF keys writes] in auto)
  then have "assertMetadataControlPlaneInvariants st' = Inr ()" by (simp add: control_ok_def)
  moreover have "\<not> alreadyPublished st i" using ready(1) by (auto simp: publishable_def alreadyPublished_def)
  ultimately show thesis
    using that [of st'] ready(1) writes by (auto simp: publishReleaseTransaction_def publishable_def)
qed

lemma publish_consistent: "control_ok st \<Longrightarrow> publishReleaseTransaction st i = Inr st' \<Longrightarrow> control_ok st'"
  using publish_Inr [OF control_ok_parts(1)] cutover_consistent by blast

text \<open>After a cutover the release is published for that channel, activation and package change.\<close>

lemma cutover_published:
  assumes keys: "control_keys st" and ready: "publishable st i" and cut: "cutover st i st'"
    and same: "pr_projectId j = pr_projectId i" "pr_releaseId j = pr_releaseId i" "pr_activationId j = pr_activationId i"
      "pr_channel j = pr_channel i" "pr_packageChangeId j = pr_packageChangeId i"
  shows "alreadyPublished st' j"
proof -
  from ready obtain r where r: "map_of (mc_releases st) (pr_releaseId i) = Some r" by (auto simp: publishable_def)
  have "packagePublishAlreadyApplied st' j"
  proof (cases "pr_packageChangeId i")
    case (Some k)
    with cut have "packages_switched st k st'" by (auto simp: cutover_def)
    then show ?thesis using Some by (auto simp: packages_switched_def packagePublishAlreadyApplied_def same)
  qed (simp add: packagePublishAlreadyApplied_def same)
  with r cut show ?thesis by (simp add: alreadyPublished_def cutover_def same)
qed

subsection \<open>Canonical bindings\<close>

lemma js_stringify_nullable_inject:
  "js_stringify_nullable v @ r = js_stringify_nullable v' @ r' \<longleftrightarrow> v = v' \<and> r = r'"
proof -
  have "js ''null'' = 110 # js ''ull''" by code_simp
  then show ?thesis
    by (cases v; cases v') (simp_all add: js_stringify_nullable_def js_quote_inject, simp_all add: js_quote_def)
qed

lemma role_text_inject [simp]: "role_text r = role_text s \<longleftrightarrow> r = s"
  by (cases r; cases s) simp_all

lemma canonicalBinding_inject:
  "canonicalBinding b = canonicalBinding c \<longleftrightarrow> rb_projectId b = rb_projectId c \<and> rb_principalId b = rb_principalId c
     \<and> rb_resourceId b = rb_resourceId c \<and> rb_role b = rb_role c"
  using js_stringify_nullable_inject [of "Some (role_text (rb_role b))" "[]" "Some (role_text (rb_role c))" "[]"]
  by (auto simp: canonicalBinding_def js_stringify_nullable_inject)

text \<open>Quoted text has no line feed, so the lines of a text determine it.\<close>

lemma hex_digit_not_line: "d < 16 \<Longrightarrow> hex_digit d \<noteq> 10"
  using unit_of_inject [of "if d < 10 then 48 + d else 87 + d" 10] by (auto simp: hex_digit_def simp del: of_nat_add)

lemma unicode_escape_no_line: "10 \<notin> set (unicode_escape u)"
proof -
  have "unat u div 4096 < 16" by (rule less_mult_imp_div_less) (use unat_unit_less [of u] in simp)
  then have "hex_digit (unat u div 4096) \<noteq> 10" by (rule hex_digit_not_line)
  moreover have "hex_digit (n mod 16) \<noteq> 10" for n by (rule hex_digit_not_line) simp
  ultimately show ?thesis by (auto simp: unicode_escape_def eq_commute [of 10])
qed

lemma quote_no_line: "10 \<notin> set (js_quote s)"
proof -
  have unit: "10 \<notin> set (if is_high u \<or> is_low u then unicode_escape u else quote_unit u)" for u
    using unicode_escape_no_line by (auto simp: quote_unit_def)
  have surrogate: "is_high u \<or> is_low u \<Longrightarrow> u \<noteq> 10" for u by (auto simp: is_high_def is_low_def)
  have "10 \<notin> set (quote_body s)"
    by (induction s rule: quote_body.induct) (use unit surrogate in \<open>auto split: if_splits\<close>)
  then show ?thesis by (simp add: js_quote_def)
qed

lemma canonicalBinding_no_line: "10 \<notin> set (canonicalBinding b)" "canonicalBinding b \<noteq> []"
proof -
  have "10 \<notin> set (js_stringify_nullable v)" for v
    by (cases v) (simp_all add: js_stringify_nullable_def quote_no_line js_code)
  then show "10 \<notin> set (canonicalBinding b)" by (simp add: canonicalBinding_def)
qed (simp add: canonicalBinding_def)

lemma js_join_lines_inject:
  "\<forall>x\<in>set xs. 10 \<notin> set x \<and> x \<noteq> [] \<Longrightarrow> \<forall>y\<in>set ys. 10 \<notin> set y \<and> y \<noteq> []
     \<Longrightarrow> js_join [10] xs = js_join [10] ys \<Longrightarrow> xs = ys"
proof (induction xs arbitrary: ys)
  case Nil
  then show ?case by (cases ys) (auto simp: js_join_Cons)
next
  case (Cons x xs)
  then obtain y ys' where ys: "ys = y # ys'" by (cases ys) (auto simp: js_join_Cons)
  have line: "takeWhile (\<lambda>u. u \<noteq> 10) (js_join [10] (z # zs)) = z" if "10 \<notin> set z" for z zs
  proof -
    have z: "\<And>u. u \<in> set z \<Longrightarrow> u \<noteq> 10" using that by auto
    have "takeWhile (\<lambda>u. u \<noteq> 10) (z @ 10 # r) = z" for r by (subst takeWhile_append2) (use z in auto)
    moreover have "takeWhile (\<lambda>u. u \<noteq> 10) z = z" using z by (simp add: takeWhile_eq_all_conv)
    ultimately show ?thesis by (simp add: js_join_Cons)
  qed
  have "x = y" using line [of x xs] line [of y ys'] Cons.prems ys by simp
  moreover have "xs = [] \<longleftrightarrow> ys' = []" "js_join [10] xs = js_join [10] ys'"
    using Cons.prems ys \<open>x = y\<close> by (auto simp: js_join_Cons split: if_splits)
  ultimately show ?case using Cons.IH [of ys'] Cons.prems ys by auto
qed

lemma canonicalBindings_eq_iff:
  "canonicalBindings xs = canonicalBindings ys \<longleftrightarrow> mset (map canonicalBinding xs) = mset (map canonicalBinding ys)"
proof -
  have "canonicalBindings xs = canonicalBindings ys \<longleftrightarrow> sort (map canonicalBinding xs) = sort (map canonicalBinding ys)"
    unfolding canonicalBindings_def
    by (auto intro!: js_join_lines_inject simp: canonicalBinding_no_line canonicalBinding_no_line(2) [symmetric])
  also have "\<dots> \<longleftrightarrow> mset (map canonicalBinding xs) = mset (map canonicalBinding ys)"
    using properties_for_sort [of "sort (map canonicalBinding ys)" "map canonicalBinding xs"] by (auto dest: arg_cong [of _ _ mset])
  finally show ?thesis .
qed

subsection \<open>Replacing role bindings\<close>

text \<open>What the active bindings of a project grant: a principal has a role, on a resource or everywhere.\<close>

type_synonym grant = "jsstring \<times> jsstring option \<times> ManagementRole"

definition grant_of :: "('a) RoleBindingInput_scheme \<Rightarrow> grant" where
  "grant_of b = (rb_principalId b, rb_resourceId b, rb_role b)"

definition grants :: "MetadataControlPlaneState \<Rightarrow> jsstring \<Rightarrow> grant set" where
  "grants st p = {grant_of b | k b. map_of (mc_roleBindings st) k = Some b \<and> rb_projectId b = p \<and> rb_state b = Binding_ACTIVE}"

lemma activate_binding_simps [simp]:
  "rb_id (activate_binding b) = rb_id b" "rb_projectId (activate_binding b) = rb_projectId b"
  "grant_of (activate_binding b) = grant_of b" "rb_state (activate_binding b) = Binding_ACTIVE"
  "canonicalBinding (activate_binding b) = canonicalBinding b"
  by (simp_all add: activate_binding_def RoleBindingInput.defs grant_of_def canonicalBinding_def)

lemma revoke_active_simps [simp]:
  "rb_id (revoke_active p b) = rb_id b" "rb_projectId (revoke_active p b) = rb_projectId b"
  "grant_of (revoke_active p b) = grant_of b" "canonicalBinding (revoke_active p b) = canonicalBinding b"
  "rb_state (revoke_active p b) = Binding_ACTIVE \<longleftrightarrow> rb_state b = Binding_ACTIVE \<and> rb_projectId b \<noteq> p"
  by (auto simp: revoke_active_def grant_of_def canonicalBinding_def)

lemma insertBindings_Inr:
  assumes "insertBindings ds m = Inr m'" and "keyed_by rb_id m"
  shows "keyed_by rb_id m'" "distinct (map rb_id ds)" "\<forall>d\<in>set ds. map_of m (rb_id d) = None"
    "map_of m' k = (case map_of m k of Some b \<Rightarrow> Some b | None \<Rightarrow> map_of (map (\<lambda>d. (rb_id d, activate_binding d)) ds) k)"
proof -
  have "keyed_by rb_id m' \<and> distinct (map rb_id ds) \<and> (\<forall>d\<in>set ds. map_of m (rb_id d) = None)
    \<and> (\<forall>k. map_of m' k = (case map_of m k of Some b \<Rightarrow> Some b | None \<Rightarrow> map_of (map (\<lambda>d. (rb_id d, activate_binding d)) ds) k))"
    using assms
  proof (induction ds arbitrary: m)
    case Nil
    then show ?case by (auto split: option.splits)
  next
    case (Cons d ds)
    let ?m = "AList.update (rb_id d) (activate_binding d) m"
    from Cons.prems have "insertBindings ds ?m = Inr m'" "keyed_by rb_id ?m" and new: "map_of m (rb_id d) = None"
      by (auto simp: keyed_by_update)
    note IH = Cons.IH [OF this(1,2)]
    have fresh: "rb_id e \<noteq> rb_id d \<and> map_of m (rb_id e) = None" if "e \<in> set ds" for e
      using IH that by (fastforce split: if_splits)
    then have "rb_id d \<notin> rb_id ` set ds" by force
    moreover have "map_of m' k = (case map_of m k of Some b \<Rightarrow> Some b
        | None \<Rightarrow> map_of (map (\<lambda>d. (rb_id d, activate_binding d)) (d # ds)) k)" for k
      using IH new by (auto split: option.splits)
    ultimately show ?case using IH fresh new by auto
  qed
  then show "keyed_by rb_id m'" "distinct (map rb_id ds)" "\<forall>d\<in>set ds. map_of m (rb_id d) = None"
    "map_of m' k = (case map_of m k of Some b \<Rightarrow> Some b | None \<Rightarrow> map_of (map (\<lambda>d. (rb_id d, activate_binding d)) ds) k)"
    by blast+
qed

definition bindings_replaced :: "MetadataControlPlaneState \<Rightarrow> ReplaceRoleBindingsInput \<Rightarrow> MetadataControlPlaneState \<Rightarrow> bool" where
  "bindings_replaced st i st' \<longleftrightarrow>
     map_of (mc_roleBindings st') = (\<lambda>k. case map_of (mc_roleBindings st) k of
         Some b \<Rightarrow> Some (revoke_active (rp_projectId i) b)
       | None \<Rightarrow> map_of (map (\<lambda>d. (rb_id d, activate_binding d)) (rp_desired i)) k)
     \<and> distinct (map rb_id (rp_desired i)) \<and> (\<forall>d\<in>set (rp_desired i). map_of (mc_roleBindings st) (rb_id d) = None)
     \<and> (\<exists>bindings. st' = st\<lparr>mc_roleBindings := bindings,
         mc_authorizationEpochs := AList.update (rp_projectId i) (rp_expectedEpoch i + 1) (mc_authorizationEpochs st),
         mc_controlRevision := mc_controlRevision st + 1\<rparr>)"

lemma replace_Inr:
  assumes keys: "control_keys st" and call: "replaceRoleBindingsTransaction st i = Inr st'"
  shows "map_of (mc_authorizationEpochs st) (rp_projectId i) = Some (rp_expectedEpoch i)"
    "\<forall>d\<in>set (rp_desired i). rb_projectId d = rp_projectId i" "distinct (map canonicalBinding (rp_desired i))"
    "if canonicalBindings (activeBindings st (rp_projectId i)) = canonicalBindings (rp_desired i) then st' = st
     else bindings_replaced st i st' \<and> control_keys st'"
proof -
  let ?same = "canonicalBindings (activeBindings st (rp_projectId i)) = canonicalBindings (rp_desired i)"
  let ?revoked = "map (\<lambda>(k, b). (k, revoke_active (rp_projectId i) b)) (mc_roleBindings st)"
  from call obtain e where e: "map_of (mc_authorizationEpochs st) (rp_projectId i) = Some e"
    by (auto simp: replaceRoleBindingsTransaction_def split: option.splits)
  note body = call [unfolded replaceRoleBindingsTransaction_def Let_def e option.case]
  from body have checks: "e = rp_expectedEpoch i" "\<forall>d\<in>set (rp_desired i). rb_projectId d = rp_projectId i"
      "length (remdups (map canonicalBinding (rp_desired i))) = length (map canonicalBinding (rp_desired i))"
    by (simp_all only: rbind_eq_Inr_iff guard_eq_Inr_iff control_checkAll_Inr not_not simp_thms, auto)
  then show "map_of (mc_authorizationEpochs st) (rp_projectId i) = Some (rp_expectedEpoch i)"
    "\<forall>d\<in>set (rp_desired i). rb_projectId d = rp_projectId i" "distinct (map canonicalBinding (rp_desired i))"
    using e by (simp_all only: length_remdups_eq remdups_id_iff_distinct)
  show "if ?same then st' = st else bindings_replaced st i st' \<and> control_keys st'"
  proof (cases ?same)
    case False
    with body checks(1) obtain bindings where ins: "insertBindings (rp_desired i) ?revoked = Inr bindings"
      and st': "st' = st\<lparr>mc_roleBindings := bindings,
         mc_authorizationEpochs := AList.update (rp_projectId i) (rp_expectedEpoch i + 1) (mc_authorizationEpochs st),
         mc_controlRevision := mc_controlRevision st + 1\<rparr>"
      by (auto simp: failAt_def)
    have revoked: "map_of ?revoked k = map_option (revoke_active (rp_projectId i)) (map_of (mc_roleBindings st) k)" for k
      by (simp add: map_of_map)
    have "keyed_by rb_id ?revoked"
      using keys by (auto simp: control_keys_def keyed_by_def revoked wf_jsmap_def comp_def case_prod_unfold)
    note ins' = insertBindings_Inr [OF ins this, unfolded revoked]
    have "bindings_replaced st i st'"
      using ins'(2-4) by (auto simp: bindings_replaced_def st' fun_eq_iff split: option.splits)
    moreover have "control_keys st'" using keys ins'(1) by (simp add: control_keys_def st')
    ultimately show ?thesis using False by simp
  qed (use body in auto)
qed

lemma canonicalBinding_grant:
  "rb_projectId b = rb_projectId c \<Longrightarrow> canonicalBinding b = canonicalBinding c \<longleftrightarrow> grant_of b = grant_of c"
  by (auto simp: canonicalBinding_inject grant_of_def)

lemma activeBindings_set:
  assumes "keyed_by rb_id (mc_roleBindings st)"
  shows "b \<in> set (activeBindings st p) \<longleftrightarrow> map_of (mc_roleBindings st) (rb_id b) = Some b \<and> rb_projectId b = p \<and> rb_state b = Binding_ACTIVE"
  using keyed_by_values [OF assms] by (auto simp: activeBindings_def)

lemma grants_active:
  assumes "keyed_by rb_id (mc_roleBindings st)"
  shows "grants st p = grant_of ` set (activeBindings st p)"
  using keyed_by_id [OF assms] by (force simp: grants_def image_iff activeBindings_set [OF assms])

lemma images_eq_transfer:
  assumes "\<And>a b. a \<in> A \<Longrightarrow> b \<in> B \<Longrightarrow> f a = g b \<longleftrightarrow> h a = h' b"
  shows "f ` A = g ` B \<longleftrightarrow> h ` A = h' ` B"
proof -
  have iff: "p ` A = q ` B \<longleftrightarrow> (\<forall>a\<in>A. \<exists>b\<in>B. p a = q b) \<and> (\<forall>b\<in>B. \<exists>a\<in>A. p a = q b)" for p :: "'a \<Rightarrow> 'z" and q
    unfolding set_eq_subset image_subset_iff image_iff by (auto simp: eq_commute)
  have iff': "p ` A = q ` B \<longleftrightarrow> (\<forall>a\<in>A. \<exists>b\<in>B. p a = q b) \<and> (\<forall>b\<in>B. \<exists>a\<in>A. p a = q b)" for p :: "'a \<Rightarrow> 'y" and q
    unfolding set_eq_subset image_subset_iff image_iff by (auto simp: eq_commute)
  show ?thesis unfolding iff iff' using assms by simp
qed

lemma canonicalBindings_grants:
  assumes ok: "control_ok st" and desired: "\<forall>d\<in>set ds. rb_projectId d = p" "distinct (map canonicalBinding ds)"
  shows "canonicalBindings (activeBindings st p) = canonicalBindings ds \<longleftrightarrow> grants st p = grant_of ` set ds"
proof -
  have k: "keyed_by rb_id (mc_roleBindings st)" using control_ok_parts(1) [OF ok] by (simp add: control_keys_def)
  note active = activeBindings_set [OF k, of _ p]
  have "distinct (map rb_id (map_values (mc_roleBindings st)))"
    by (rule distinct_keyed_ids [OF keyed_by_wf [OF k] keyed_by_id [OF k]])
  then have "distinct (map_values (mc_roleBindings st))" by (rule distinct_map [THEN iffD1, THEN conjunct1])
  then have "distinct (activeBindings st p)" by (simp add: activeBindings_def)
  moreover have "inj_on canonicalBinding (set (activeBindings st p))"
  proof (rule inj_onI)
    fix b c
    assume "b \<in> set (activeBindings st p)" "c \<in> set (activeBindings st p)" "canonicalBinding b = canonicalBinding c"
    then show "b = c" using control_ok_parts(3) [OF ok] unfolding bindings_once_def active by (metis option.inject)
  qed
  ultimately have "distinct (map canonicalBinding (activeBindings st p))" by (simp add: distinct_map)
  from set_eq_iff_mset_eq_distinct [OF this desired(2)]
  have "canonicalBindings (activeBindings st p) = canonicalBindings ds
      \<longleftrightarrow> canonicalBinding ` set (activeBindings st p) = canonicalBinding ` set ds"
    by (simp add: canonicalBindings_eq_iff)
  also have "\<dots> \<longleftrightarrow> grants st p = grant_of ` set ds"
  proof -
    have eq: "canonicalBinding b = canonicalBinding d \<longleftrightarrow> grant_of b = grant_of d"
      if "b \<in> set (activeBindings st p)" "d \<in> set ds" for b d
      using that desired(1) active by (intro canonicalBinding_grant) auto
    then show ?thesis unfolding grants_active [OF k] by (rule images_eq_transfer)
  qed
  finally show ?thesis .
qed

lemma bindings_replaced_keeps:
  assumes "bindings_replaced st i st'"
  shows "mc_releases st' = mc_releases st" "mc_activations st' = mc_activations st" "mc_channels st' = mc_channels st"
    "mc_servingHeads st' = mc_servingHeads st" "mc_packageInstallations st' = mc_packageInstallations st"
    "mc_packageChanges st' = mc_packageChanges st" "mc_controlRevision st' = mc_controlRevision st + 1"
    "mc_authorizationEpochs st' = AList.update (rp_projectId i) (rp_expectedEpoch i + 1) (mc_authorizationEpochs st)"
  using assms unfolding bindings_replaced_def by auto

text \<open>The active bindings after a replacement: the desired ones, and those of other projects.\<close>

lemma bindings_replaced_active:
  assumes replaced: "bindings_replaced st i st'" and desired: "\<forall>d\<in>set (rp_desired i). rb_projectId d = rp_projectId i"
  shows "map_of (mc_roleBindings st') k = Some b \<and> rb_state b = Binding_ACTIVE \<longleftrightarrow>
    map_of (mc_roleBindings st) k = Some b \<and> rb_state b = Binding_ACTIVE \<and> rb_projectId b \<noteq> rp_projectId i
    \<or> (\<exists>d\<in>set (rp_desired i). rb_id d = k \<and> b = activate_binding d)"
proof -
  let ?new = "map (\<lambda>d. (rb_id d, activate_binding d)) (rp_desired i)"
  have dist: "distinct (map rb_id (rp_desired i))" and fresh: "\<forall>d\<in>set (rp_desired i). map_of (mc_roleBindings st) (rb_id d) = None"
    using replaced by (auto simp: bindings_replaced_def)
  have st': "map_of (mc_roleBindings st') k = (case map_of (mc_roleBindings st) k of
      Some b \<Rightarrow> Some (revoke_active (rp_projectId i) b) | None \<Rightarrow> map_of ?new k)"
    using replaced by (simp add: bindings_replaced_def)
  have "distinct (map fst ?new)" using dist by (simp add: comp_def)
  then have new: "map_of ?new k = Some b \<longleftrightarrow> (\<exists>d\<in>set (rp_desired i). rb_id d = k \<and> b = activate_binding d)"
    by (simp only: map_of_eq_Some_iff) auto
  show ?thesis
  proof (cases "map_of (mc_roleBindings st) k")
    case None
    then show ?thesis using new by (auto simp: st')
  next
    case (Some c)
    moreover have "\<not> (\<exists>d\<in>set (rp_desired i). rb_id d = k \<and> b = activate_binding d)" using fresh Some by auto
    moreover have "revoke_active (rp_projectId i) c = c" if "rb_projectId c \<noteq> rp_projectId i"
      using that by (simp add: revoke_active_def)
    ultimately show ?thesis by (auto simp: st')
  qed
qed

lemma replace_grants:
  assumes ok: "control_ok st" and call: "replaceRoleBindingsTransaction st i = Inr st'"
  shows "grants st' q = (if q = rp_projectId i then grant_of ` set (rp_desired i) else grants st q)"
    "if grants st (rp_projectId i) = grant_of ` set (rp_desired i) then st' = st else bindings_replaced st i st'"
    "control_ok st'"
proof -
  note facts = replace_Inr [OF control_ok_parts(1) [OF ok] call]
  note same = canonicalBindings_grants [OF ok facts(2,3)]
  show effect: "if grants st (rp_projectId i) = grant_of ` set (rp_desired i) then st' = st else bindings_replaced st i st'"
    using facts(4) by (simp add: same split: if_splits)
  show "grants st' q = (if q = rp_projectId i then grant_of ` set (rp_desired i) else grants st q)"
  proof (cases "grants st (rp_projectId i) = grant_of ` set (rp_desired i)")
    case False
    with effect have replaced: "bindings_replaced st i st'" by simp
    have "x \<in> grants st' q \<longleftrightarrow> (\<exists>k b. map_of (mc_roleBindings st) k = Some b \<and> rb_state b = Binding_ACTIVE
          \<and> rb_projectId b \<noteq> rp_projectId i \<and> rb_projectId b = q \<and> x = grant_of b)
        \<or> (\<exists>d\<in>set (rp_desired i). q = rp_projectId i \<and> x = grant_of d)" for x
    proof -
      have "x \<in> grants st' q \<longleftrightarrow> (\<exists>k b. (map_of (mc_roleBindings st') k = Some b \<and> rb_state b = Binding_ACTIVE)
          \<and> rb_projectId b = q \<and> x = grant_of b)"
        unfolding grants_def by blast
      also have "\<dots> \<longleftrightarrow> (\<exists>k b. map_of (mc_roleBindings st) k = Some b \<and> rb_state b = Binding_ACTIVE
          \<and> rb_projectId b \<noteq> rp_projectId i \<and> rb_projectId b = q \<and> x = grant_of b)
        \<or> (\<exists>d\<in>set (rp_desired i). rb_projectId (activate_binding d) = q \<and> x = grant_of (activate_binding d))"
        unfolding bindings_replaced_active [OF replaced facts(2)] by blast
      finally show ?thesis using facts(2) by auto
    qed
    then show ?thesis by (auto simp: grants_def set_eq_iff)
  qed (use effect in auto)
  show "control_ok st'"
  proof (cases "grants st (rp_projectId i) = grant_of ` set (rp_desired i)")
    case True
    with effect ok show ?thesis by simp
  next
    case False
    with facts(4) have replaced: "bindings_replaced st i st'" and keys: "control_keys st'" by (simp_all add: same)
    note active = bindings_replaced_active [OF replaced facts(2)]
    have "bindings_once st'"
      unfolding bindings_once_def
    proof (intro allI impI, elim conjE)
      fix k b k' b'
      assume b: "map_of (mc_roleBindings st') k = Some b" "rb_state b = Binding_ACTIVE"
        and b': "map_of (mc_roleBindings st') k' = Some b'" "rb_state b' = Binding_ACTIVE"
        and eq: "canonicalBinding b = canonicalBinding b'"
      then have p: "rb_projectId b = rb_projectId b'" by (simp add: canonicalBinding_inject)
      from active [of k b] active [of k' b'] b b' consider
        (old) "map_of (mc_roleBindings st) k = Some b" "map_of (mc_roleBindings st) k' = Some b'"
        | (new) d d' where "d \<in> set (rp_desired i)" "rb_id d = k" "b = activate_binding d"
            "d' \<in> set (rp_desired i)" "rb_id d' = k'" "b' = activate_binding d'"
        using p facts(2) by (auto 4 4)
      then show "k = k'"
      proof cases
        case old
        with b b' eq control_ok_parts(3) [OF ok] show ?thesis unfolding bindings_once_def by blast
      next
        case (new d d')
        with eq have "canonicalBinding d = canonicalBinding d'" by simp
        with new facts(3) have "d = d'" by (auto simp: distinct_map dest: inj_onD)
        with new show ?thesis by simp
      qed
    qed
    moreover have "channel_consistent st' c = channel_consistent st c" for c
      by (simp add: channel_consistent_def bindings_replaced_keeps [OF replaced])
    moreover have "installation_consistent st' n = installation_consistent st n" for n
      by (rule installation_consistent_cong) (simp add: active_change_def bindings_replaced_keeps [OF replaced])
    ultimately show ?thesis
      using keys ok control_ok_parts [OF ok]
      by (simp add: control_ok_def assertMetadataControlPlaneInvariants_Inr channels_apart_def bindings_replaced_keeps [OF replaced])
  qed
qed

end
