(* ===== verification/ControlPlaneProperties.thy ===== *)
theory ControlPlaneProperties
  imports ControlPlaneSteps
begin

text \<open>
  The results on the metadata control plane: its transactions, their runs from a consistent state,
  the decision on a management request, and the order of locks.
\<close>

subsection \<open>Runs of transactions\<close>

datatype ControlEvent = PublishRelease PublishReleaseInput | ReplaceBindings ReplaceRoleBindingsInput

inductive control_step :: "MetadataControlPlaneState \<Rightarrow> ControlEvent \<Rightarrow> MetadataControlPlaneState \<Rightarrow> bool" where
  control_publish: "publishReleaseTransaction st i = Inr st' \<Longrightarrow> control_step st (PublishRelease i) st'"
| control_replace: "replaceRoleBindingsTransaction st i = Inr st' \<Longrightarrow> control_step st (ReplaceBindings i) st'"

text \<open>Bindings are revoked but not changed otherwise, and not active again.\<close>

definition binding_later :: "RoleBinding \<Rightarrow> RoleBinding \<Rightarrow> bool" where
  "binding_later b b' \<longleftrightarrow> b' = b \<or> rb_state b = Binding_ACTIVE \<and> b' = b\<lparr>rb_state := Binding_REVOKED\<rparr>"

definition same_active :: "MetadataControlPlaneState \<Rightarrow> MetadataControlPlaneState \<Rightarrow> jsstring \<Rightarrow> bool" where
  "same_active st st' p \<longleftrightarrow> (\<forall>k b. rb_projectId b = p \<and> rb_state b = Binding_ACTIVE
     \<longrightarrow> (map_of (mc_roleBindings st) k = Some b \<longleftrightarrow> map_of (mc_roleBindings st') k = Some b))"

definition control_later :: "MetadataControlPlaneState \<Rightarrow> MetadataControlPlaneState \<Rightarrow> bool" where
  "control_later st st' \<longleftrightarrow>
     (\<forall>k b. map_of (mc_roleBindings st) k = Some b \<longrightarrow> (\<exists>b'. map_of (mc_roleBindings st') k = Some b' \<and> binding_later b b'))
     \<and> (\<forall>p e. map_of (mc_authorizationEpochs st) p = Some e \<longrightarrow>
         (\<exists>e'. map_of (mc_authorizationEpochs st') p = Some e' \<and> (e < e' \<or> e = e' \<and> same_active st st' p)))
     \<and> (mc_controlRevision st < mc_controlRevision st' \<or> st' = st)"

lemma control_later_refl: "control_later st st"
  by (simp add: control_later_def binding_later_def same_active_def)

lemma control_later_trans:
  assumes "control_later s t" "control_later t u"
  shows "control_later s u"
proof -
  have "\<exists>b'. map_of (mc_roleBindings u) k = Some b' \<and> binding_later b b'" if "map_of (mc_roleBindings s) k = Some b" for k b
  proof -
    from assms(1) that obtain b' where b': "map_of (mc_roleBindings t) k = Some b'" "binding_later b b'" unfolding control_later_def by blast
    from assms(2) b'(1) obtain b'' where "map_of (mc_roleBindings u) k = Some b''" "binding_later b' b''" unfolding control_later_def by blast
    with b'(2) show ?thesis by (auto simp: binding_later_def)
  qed
  moreover have "\<exists>e'. map_of (mc_authorizationEpochs u) p = Some e' \<and> (e < e' \<or> e = e' \<and> same_active s u p)"
    if e: "map_of (mc_authorizationEpochs s) p = Some e" for p e
  proof -
    from assms(1) e obtain e' where e': "map_of (mc_authorizationEpochs t) p = Some e'" "e < e' \<or> e = e' \<and> same_active s t p"
      unfolding control_later_def by blast
    from assms(2) e'(1) obtain e'' where "map_of (mc_authorizationEpochs u) p = Some e''" "e' < e'' \<or> e' = e'' \<and> same_active t u p"
      unfolding control_later_def by blast
    with e'(2) show ?thesis by (auto simp: same_active_def)
  qed
  moreover have "mc_controlRevision s < mc_controlRevision u \<or> u = s" using assms unfolding control_later_def by auto
  ultimately show ?thesis unfolding control_later_def by blast
qed

lemma control_step_later:
  assumes ok: "control_ok st" and "control_step st l st'"
  shows "control_later st st'"
  using assms(2)
proof (cases rule: control_step.cases)
  case (control_publish i)
  show ?thesis
  proof (cases "st' = st")
    case False
    with publish_Inr(3) [OF control_ok_parts(1) [OF ok] control_publish(2)] have cut: "cutover st i st'" by blast
    then show ?thesis by (auto simp: control_later_def cutover_def binding_later_def same_active_def)
  qed (simp add: control_later_refl)
next
  case (control_replace i)
  note facts = replace_Inr [OF control_ok_parts(1) [OF ok] control_replace(2)]
  show ?thesis
  proof (cases "st' = st")
    case False
    with replace_grants(2) [OF ok control_replace(2)] have replaced: "bindings_replaced st i st'" by (simp split: if_splits)
    have "same_active st st' p" if "p \<noteq> rp_projectId i" for p
      using bindings_replaced_active [OF replaced facts(2)] that facts(2) unfolding same_active_def by fastforce
    moreover have "\<exists>b'. map_of (mc_roleBindings st') k = Some b' \<and> binding_later b b'" if "map_of (mc_roleBindings st) k = Some b" for k b
      using replaced that by (auto simp: bindings_replaced_def binding_later_def revoke_active_def)
    ultimately show ?thesis
      using facts(1) by (auto simp: control_later_def bindings_replaced_keeps [OF replaced])
  qed (simp add: control_later_refl)
qed

interpretation control: monotone_run control_ok control_step control_ok control_later
proof
  show "control_ok t" if "control_ok s" "control_step s l t" for s l t
    using that(2) by (cases rule: control_step.cases) (use that(1) publish_consistent replace_grants(3) in blast)+
qed (auto intro: control_later_refl control_later_trans control_step_later)

text \<open>
  An installation of a package whose first release serves the channel, while the next release and the
  change of the package wait.
\<close>

definition control_example :: MetadataControlPlaneState where
  "control_example = createMetadataControlPlaneState\<lparr>mc_controlRevision := 11,
     mc_releases := [(js ''r1'', \<lparr>cr_id = js ''r1'', cr_projectId = js ''p1'', cr_manifestDigest = js ''m1'', cr_state = Rel_PUBLISHED\<rparr>),
       (js ''r2'', \<lparr>cr_id = js ''r2'', cr_projectId = js ''p1'', cr_manifestDigest = js ''m2'', cr_state = Rel_READY\<rparr>)],
     mc_activations := [(js ''a1'', \<lparr>ac_id = js ''a1'', ac_releaseId = js ''r1'', ac_manifestDigest = js ''m1'', ac_memberIds = []\<rparr>),
       (js ''a2'', \<lparr>ac_id = js ''a2'', ac_releaseId = js ''r2'', ac_manifestDigest = js ''m2'', ac_memberIds = []\<rparr>)],
     mc_channels := [(js ''p1:production'', \<lparr>cc_projectId = js ''p1'', cc_channel = js ''production'', cc_releaseId = js ''r1'',
       cc_activationId = js ''a1''\<rparr>)],
     mc_servingHeads := [(js ''r1'', \<lparr>hc_releaseId = js ''r1'', hc_activationId = js ''a1''\<rparr>)],
     mc_packageInstallations := [(js ''i1'', \<lparr>in_id = js ''i1'', in_projectId = js ''p1'',
       in_activePackageRevisionId = Some (js ''pkg-r1''), in_activeReleaseId = Some (js ''r1'')\<rparr>)],
     mc_packageChanges := [
       (js ''c1'', \<lparr>pc_id = js ''c1'', pc_installationId = js ''i1'', pc_targetPackageRevisionId = js ''pkg-r1'',
         pc_targetReleaseId = js ''r1'', pc_state = Change_ACTIVE\<rparr>),
       (js ''c2'', \<lparr>pc_id = js ''c2'', pc_installationId = js ''i1'', pc_targetPackageRevisionId = js ''pkg-r2'',
         pc_targetReleaseId = js ''r2'', pc_state = Change_PENDING\<rparr>)],
     mc_roleBindings := [(js ''old'', \<lparr>rb_id = js ''old'', rb_projectId = js ''p1'', rb_principalId = js ''alice'',
       rb_resourceId = None, rb_role = VIEWER, rb_state = Binding_ACTIVE\<rparr>)],
     mc_authorizationEpochs := [(js ''p1'', 7), (js ''p2'', 1)]\<rparr>"

definition control_example_publish :: PublishReleaseInput where
  "control_example_publish = \<lparr>pr_projectId = js ''p1'', pr_releaseId = js ''r2'', pr_activationId = js ''a2'',
     pr_channel = js ''production'', pr_expectedControlRevision = 11, pr_packageChangeId = Some (js ''c2''), pr_failurePoint = None\<rparr>"

definition control_example_replace :: "string \<Rightarrow> int \<Rightarrow> ReplaceRoleBindingsInput" where
  "control_example_replace p e = \<lparr>rp_projectId = js p, rp_expectedEpoch = e, rp_desired = [\<lparr>rb_id = js ''new'', rb_projectId = js p,
     rb_principalId = js ''alice'', rb_resourceId = None, rb_role = EDITOR\<rparr>], rp_failurePoint = None\<rparr>"

lemma control_example_ok: "control_ok control_example"
proof -
  have "assertMetadataControlPlaneInvariants control_example = Inr ()" by code_simp
  moreover have "js ''p1:production'' = controlChannelKey (js ''p1'') (js ''production'')" by code_simp
  ultimately show ?thesis
    by (simp add: control_ok_def control_keys_def keyed_by_def wf_jsmap_def channels_apart_def bindings_once_def
        control_example_def createMetadataControlPlaneState_def)
qed

subsection \<open>Properties\<close>

lemma alreadyPublished_returns:
  assumes "alreadyPublished st i" and "map_of (mc_activations st) (pr_activationId i) \<noteq> None"
  shows "publishReleaseTransaction st i = Inr st"
proof -
  from assms obtain r a where "control_requireRecord (mc_releases st) (pr_releaseId i) = Inr r"
      "control_requireRecord (mc_activations st) (pr_activationId i) = Inr a" by (auto simp: alreadyPublished_def)
  then show ?thesis using assms(1) by (simp add: publishReleaseTransaction_def del: control_requireRecord_Inr)
qed

lemma alreadyPublished_retry:
  "alreadyPublished st (i\<lparr>pr_expectedControlRevision := n, pr_failurePoint := f\<rparr>) \<longleftrightarrow> alreadyPublished st i"
  by (simp add: alreadyPublished_def packagePublishAlreadyApplied_def cong: option.case_cong)

lemma control_example_publishes:
  obtains st' where "publishReleaseTransaction control_example control_example_publish = Inr st'" "\<not> alreadyPublished control_example control_example_publish"
proof -
  have "case publishReleaseTransaction control_example control_example_publish of Inl _ \<Rightarrow> False | Inr _ \<Rightarrow> True"
    "\<not> alreadyPublished control_example control_example_publish" by code_simp+
  with that show thesis by (auto split: sum.splits)
qed

text \<open>
  Claim C6. A publish on a consistent state returns exactly when it has been applied already or the
  release is ready, the activation and the package change fit it, and the revision is current; the
  check of the invariants at its end never fails. It then returns the state as it was, or switches
  release, serving head, channel, package pointers, epoch and revision together and nothing else.
\<close>

theorem publish_switches_all:
  assumes ok: "control_ok st"
  shows "case publishReleaseTransaction st i of
      Inl _ \<Rightarrow> \<not> (map_of (mc_activations st) (pr_activationId i) \<noteq> None \<and> alreadyPublished st i)
        \<and> \<not> (publishable st i \<and> pr_failurePoint i = None)
    | Inr st' \<Rightarrow> alreadyPublished st i \<and> st' = st
        \<or> publishable st i \<and> pr_failurePoint i = None \<and> cutover st i st' \<and> control_ok st'"
proof (cases "publishReleaseTransaction st i")
  case (Inl e)
  have "\<not> (publishable st i \<and> pr_failurePoint i = None)" using publish_ready [OF ok] Inl by fastforce
  moreover have "\<not> (map_of (mc_activations st) (pr_activationId i) \<noteq> None \<and> alreadyPublished st i)"
    using Inl alreadyPublished_returns by fastforce
  ultimately show ?thesis using Inl by simp
next
  case (Inr st')
  from publish_Inr(3) [OF control_ok_parts(1) [OF ok] Inr] publish_consistent [OF ok Inr] show ?thesis using Inr by auto
qed

theorem publish_switches_all_witness:
  "\<exists>st'. publishReleaseTransaction control_example control_example_publish = Inr st'
     \<and> cutover control_example control_example_publish st'"
proof -
  obtain st' where "publishReleaseTransaction control_example control_example_publish = Inr st'"
    "\<not> alreadyPublished control_example control_example_publish" by (rule control_example_publishes)
  with publish_switches_all [OF control_example_ok, of control_example_publish] show ?thesis by simp
qed

text \<open>
  Claim C25. Publishing may be repeated: the same request, with whatever expected revision, on the state
  that a publish has left returns that state.
\<close>

theorem publish_repeatable:
  assumes "control_ok st" and "publishReleaseTransaction st i = Inr st'"
  shows "publishReleaseTransaction st' (i\<lparr>pr_expectedControlRevision := n, pr_failurePoint := f\<rparr>) = Inr st'"
proof -
  let ?j = "i\<lparr>pr_expectedControlRevision := n, pr_failurePoint := f\<rparr>"
  note keys = control_ok_parts(1) [OF assms(1)]
  note facts = publish_Inr [OF keys assms(2)]
  have activation: "map_of (mc_activations st') (pr_activationId i) \<noteq> None"
    using facts(2,3) by (auto simp: cutover_def)
  have "alreadyPublished st' ?j"
  proof (cases "alreadyPublished st i")
    case True
    with facts(3) show ?thesis by (simp add: alreadyPublished_retry)
  next
    case False
    with facts(3) show ?thesis by (intro cutover_published [OF keys]) auto
  qed
  with activation show ?thesis by (simp add: alreadyPublished_returns)
qed

theorem publish_repeatable_witness:
  "\<exists>st'. st' \<noteq> control_example \<and> publishReleaseTransaction control_example control_example_publish = Inr st'
     \<and> publishReleaseTransaction st' control_example_publish = Inr st'"
proof -
  obtain st' where st': "publishReleaseTransaction control_example control_example_publish = Inr st'"
    "\<not> alreadyPublished control_example control_example_publish" by (rule control_example_publishes)
  have "mc_controlRevision st' \<noteq> mc_controlRevision control_example"
    using publish_Inr(3) [OF control_ok_parts(1) [OF control_example_ok] st'(1)] st'(2) by (auto simp: cutover_def)
  moreover have "publishReleaseTransaction st' control_example_publish = Inr st'"
    using publish_repeatable [OF control_example_ok st'(1), where n = 11 and f = None] by (simp add: control_example_publish_def)
  ultimately show ?thesis using st'(1) by auto
qed

text \<open>
  Claim C16. Replacing the role bindings of a project makes what its active bindings grant exactly what
  is desired, and leaves the grants of every other project; the epoch of the project and the revision
  go up by one exactly when the grants change, and otherwise the state is returned as it was.
\<close>

theorem role_bindings_replaced:
  assumes "control_ok st" and "replaceRoleBindingsTransaction st i = Inr st'"
  shows "grants st' = (grants st)(rp_projectId i := grant_of ` set (rp_desired i))
    \<and> (if grants st' = grants st then st' = st
       else mc_controlRevision st' = mc_controlRevision st + 1
         \<and> map_of (mc_authorizationEpochs st') = (map_of (mc_authorizationEpochs st))(rp_projectId i \<mapsto> rp_expectedEpoch i + 1)
         \<and> map_of (mc_authorizationEpochs st) (rp_projectId i) = Some (rp_expectedEpoch i))"
proof -
  have g: "grants st' = (grants st)(rp_projectId i := grant_of ` set (rp_desired i))"
    using replace_grants(1) [OF assms] by (auto simp: fun_eq_iff)
  then have "grants st' = grants st \<longleftrightarrow> grants st (rp_projectId i) = grant_of ` set (rp_desired i)"
    by (metis fun_upd_same fun_upd_triv)
  with g replace_grants(2) [OF assms] replace_Inr(1) [OF control_ok_parts(1) [OF assms(1)] assms(2)] show ?thesis
    by (auto simp: bindings_replaced_keeps fun_eq_iff split: if_splits)
qed

theorem role_bindings_replaced_witness:
  "\<exists>st'. replaceRoleBindingsTransaction control_example (control_example_replace ''p1'' 7) = Inr st'
     \<and> grants st' (js ''p1'') = {(js ''alice'', None, EDITOR)}"
proof -
  have "case replaceRoleBindingsTransaction control_example (control_example_replace ''p1'' 7) of Inl _ \<Rightarrow> False | Inr _ \<Rightarrow> True" by code_simp
  then obtain st' where st': "replaceRoleBindingsTransaction control_example (control_example_replace ''p1'' 7) = Inr st'"
    by (auto split: sum.splits)
  with role_bindings_replaced [OF control_example_ok st'] show ?thesis
    by (auto simp: control_example_replace_def grant_of_def)
qed

subsection \<open>Decisions on management requests\<close>

text \<open>
  The decision in terms of roles: a binding of the principal for the whole project has the permission,
  and, when there are bindings for the resource in question, one of them has it too.
\<close>

definition binding_applies :: "ManagementAuthorizationRequest \<Rightarrow> RoleBinding \<Rightarrow> bool" where
  "binding_applies request b \<longleftrightarrow> rb_state b = Binding_ACTIVE \<and> rb_projectId b = mr_projectId request
     \<and> rb_principalId b = mr_principalId request"

definition role_permits :: "RoleBinding set \<Rightarrow> ManagementAuthorizationRequest \<Rightarrow> jsstring option \<Rightarrow> bool" where
  "role_permits bs request resource \<longleftrightarrow> (\<exists>b\<in>bs. binding_applies request b \<and> rb_resourceId b = resource
     \<and> mr_permission request \<in> set (rolePermissions (rb_role b)))"

definition request_granted :: "RoleBinding set \<Rightarrow> ManagementAuthorizationRequest \<Rightarrow> bool" where
  "request_granted bs request \<longleftrightarrow> role_permits bs request None
     \<and> (\<forall>resource. mr_resourceId request = Some resource \<longrightarrow>
         role_permits bs request (Some resource) \<or> \<not> (\<exists>b\<in>bs. binding_applies request b \<and> rb_resourceId b = Some resource))"

definition request_well_formed :: "FoundationIdentity \<Rightarrow> ManagementAuthorizationRequest \<Rightarrow> bool" where
  "request_well_formed identity request \<longleftrightarrow>
     mset (fi_keys identity) = mset (map js [''principalId'', ''authenticationTime'', ''claimsFingerprint''])
     \<and> mset (mr_keys request) = mset (map js (if mr_resourceId request = None then [''principalId'', ''projectId'', ''permission'']
         else [''principalId'', ''projectId'', ''resourceId'', ''permission'']))
     \<and> fi_principalId identity = mr_principalId request \<and> js_trim (fi_principalId identity) \<noteq> []
     \<and> js_trim (fi_claimsFingerprint identity) \<noteq> [] \<and> fi_authenticationTime identity \<noteq> None"

lemma assertExactKeys_eq: "assertExactKeys keys expected = guard (mset keys = mset expected) INVALID_INPUT"
proof -
  have zip: "length xs = length ys \<Longrightarrow> list_ex (\<lambda>(k, r). k \<noteq> r) (zip xs ys) \<longleftrightarrow> xs \<noteq> ys" for xs ys :: "jsstring list"
    by (induction xs ys rule: list_induct2) auto
  have "sort keys = sort expected \<longleftrightarrow> mset keys = mset expected"
    using properties_for_sort [of "sort expected" keys] by (auto dest: arg_cong [of _ _ mset])
  moreover have "\<not> (length (sort keys) \<noteq> length (sort expected) \<or> list_ex (\<lambda>(k, r). k \<noteq> r) (zip (sort keys) (sort expected)))
      \<longleftrightarrow> sort keys = sort expected"
  proof (cases "length (sort keys) = length (sort expected)")
    case True
    with zip [OF True] show ?thesis by simp
  next
    case False
    then have "sort keys \<noteq> sort expected" by metis
    with False show ?thesis by blast
  qed
  ultimately show ?thesis by (simp add: assertExactKeys_def Let_def)
qed

lemma permissionsFor_active:
  "p \<in> permissionsFor (filter (\<lambda>b. rb_resourceId b = r) (filter (\<lambda>b. rb_state b = Binding_ACTIVE \<and> rb_projectId b = mr_projectId request
       \<and> rb_principalId b = mr_principalId request) bs))
     \<longleftrightarrow> (\<exists>b\<in>set bs. binding_applies request b \<and> rb_resourceId b = r \<and> p \<in> set (rolePermissions (rb_role b)))"
  by (auto simp: permissionsFor_def binding_applies_def)

text \<open>
  Claim C26. \<open>authorizeManagementRequest\<close> refuses every identity and request that is not well-formed with
  \<open>INVALID_INPUT\<close>, and decides every other by the roles: a binding on a resource can take a permission
  of the project away but never add one.
\<close>

theorem management_requests_decided:
  "authorizeManagementRequest identity request bindings =
     (if request_well_formed identity request then Inr (request_granted (set bindings) request) else Inl INVALID_INPUT)"
proof (cases "request_well_formed identity request")
  case True
  have empty: "length (filter (\<lambda>b. rb_resourceId b = r) (filter (\<lambda>b. rb_state b = Binding_ACTIVE \<and> rb_projectId b = mr_projectId request
       \<and> rb_principalId b = mr_principalId request) bindings)) = 0
     \<longleftrightarrow> \<not> (\<exists>b\<in>set bindings. binding_applies request b \<and> rb_resourceId b = r)" for r
    by (auto simp: binding_applies_def filter_empty_conv)
  from True have "authorizeManagementRequest identity request bindings =
      (if \<not> role_permits (set bindings) request None then Inr False
       else if mr_resourceId request = None then Inr True
       else if \<not> (\<exists>b\<in>set bindings. binding_applies request b \<and> rb_resourceId b = mr_resourceId request) then Inr True
       else Inr (role_permits (set bindings) request (mr_resourceId request)))"
    unfolding authorizeManagementRequest_def assertExactKeys_eq request_well_formed_def Let_def permissionsFor_active empty
    by (auto simp: required_def role_permits_def)
  then show ?thesis using True by (auto simp: request_granted_def)
next
  case False
  then show ?thesis
    by (auto simp: authorizeManagementRequest_def assertExactKeys_eq request_well_formed_def required_def guard_def)
qed

text \<open>
  Claim C15. The authorization epoch of a project identifies its permissions: as long as the epoch is the
  same, whatever is published and replaced in between, every management request for the project gets the
  same decision, so a decision cached with its epoch is current.
\<close>

theorem epoch_identifies_permissions:
  assumes ok: "control_ok st" and run: "reaches control_step st st'"
    and epochs: "map_of (mc_authorizationEpochs st) (mr_projectId request) = Some e"
      "map_of (mc_authorizationEpochs st') (mr_projectId request) = Some e"
  shows "authorizeManagementRequest identity request (map_values (mc_roleBindings st'))
    = authorizeManagementRequest identity request (map_values (mc_roleBindings st))"
proof -
  have keys: "keyed_by rb_id (mc_roleBindings st)" "keyed_by rb_id (mc_roleBindings st')"
    using control_ok_parts(1) [OF ok] control_ok_parts(1) [OF control.inv_reachable [OF ok run]] by (simp_all add: control_keys_def)
  from control.rel_run [OF run ok] epochs have "same_active st st' (mr_projectId request)"
    unfolding control_later_def by force
  then have "b \<in> set (map_values (mc_roleBindings st')) \<longleftrightarrow> b \<in> set (map_values (mc_roleBindings st))" if "binding_applies request b" for b
    using that unfolding keyed_by_values [OF keys(1)] keyed_by_values [OF keys(2)] same_active_def binding_applies_def by blast
  then have "role_permits (set (map_values (mc_roleBindings st'))) request r = role_permits (set (map_values (mc_roleBindings st))) request r"
    and "(\<exists>b\<in>set (map_values (mc_roleBindings st')). binding_applies request b \<and> rb_resourceId b = r)
      = (\<exists>b\<in>set (map_values (mc_roleBindings st)). binding_applies request b \<and> rb_resourceId b = r)" for r
    unfolding role_permits_def by blast+
  then show ?thesis unfolding management_requests_decided request_granted_def by simp
qed

theorem epoch_identifies_permissions_witness:
  "\<exists>st'. st' \<noteq> control_example \<and> replaceRoleBindingsTransaction control_example (control_example_replace ''p2'' 1) = Inr st'
     \<and> (\<forall>identity keys. authorizeManagementRequest identity \<lparr>mr_keys = keys, mr_principalId = js ''alice'', mr_projectId = js ''p1'',
           mr_resourceId = None, mr_permission = Metadata_read\<rparr> (map_values (mc_roleBindings st'))
         = authorizeManagementRequest identity \<lparr>mr_keys = keys, mr_principalId = js ''alice'', mr_projectId = js ''p1'',
           mr_resourceId = None, mr_permission = Metadata_read\<rparr> (map_values (mc_roleBindings control_example)))"
proof -
  have "case replaceRoleBindingsTransaction control_example (control_example_replace ''p2'' 1) of
      Inl _ \<Rightarrow> False
    | Inr st' \<Rightarrow> mc_controlRevision st' = 12 \<and> map_of (mc_authorizationEpochs st') (js ''p1'') = Some 7" by code_simp
  then obtain st' where st': "replaceRoleBindingsTransaction control_example (control_example_replace ''p2'' 1) = Inr st'"
      "mc_controlRevision st' = 12" "map_of (mc_authorizationEpochs st') (js ''p1'') = Some 7"
    by (auto split: sum.splits)
  have example: "mc_controlRevision control_example = 11" "map_of (mc_authorizationEpochs control_example) (js ''p1'') = Some 7"
    by (simp_all add: control_example_def)
  note run = reaches_step [where step = control_step, OF reaches_refl control_replace [OF st'(1)]]
  have "st' \<noteq> control_example" using st'(2) example(1) by auto
  then show ?thesis
    using st'(1) epoch_identifies_permissions [OF control_example_ok run, where e = 7] st'(3) example(2) by auto
qed

subsection \<open>The order of locks\<close>

abbreviation lock_rank :: "LockDomain \<Rightarrow> int" where
  "lock_rank \<equiv> js_indexOf LOCK_ORDER"

lemma lock_rank_bounds: "0 \<le> lock_rank l \<and> lock_rank l \<le> 7"
  by (cases l) (simp_all add: LOCK_ORDER_def Let_def)

lemma lockLoop_sorted:
  "lockLoop previous plan = Inr () \<longleftrightarrow> sorted_wrt (<) (previous # map lock_rank plan)"
proof (induction plan arbitrary: previous)
  case (Cons l plan)
  then show ?case by (auto simp: Let_def)
qed simp

definition waits_for :: "('p \<Rightarrow> LockDomain list) \<Rightarrow> ('p \<Rightarrow> nat) \<Rightarrow> ('p \<times> 'p) set" where
  "waits_for plan n = {(p, q). n p < length (plan p) \<and> plan p ! n p \<in> set (take (n q) (plan q))}"

text \<open>
  Claim C18. Transactions that take their locks in the order of plans that \<open>assertLockPlan\<close> accepts do not
  deadlock: with each transaction holding the locks of its plan up to some point, no chain of
  transactions that wait for a lock the next one holds returns to its start.
\<close>

theorem lock_plans_do_not_deadlock:
  assumes accepted: "\<And>p. assertLockPlan (plan p) = Inr ()"
  shows "acyclic (waits_for plan n)"
proof -
  define f where "f p = (if n p < length (plan p) then lock_rank (plan p ! n p) else 8)" for p
  have sorted: "sorted_wrt (<) (map lock_rank (plan p))" for p
    using accepted [of p] by (simp add: assertLockPlan_def lockLoop_sorted)
  have up: "f p < f q" if edge: "(p, q) \<in> waits_for plan n" for p q
  proof -
    from edge have p: "n p < length (plan p)" and "plan p ! n p \<in> set (take (n q) (plan q))" by (auto simp: waits_for_def)
    then obtain j where j: "j < n q" "j < length (plan q)" "plan q ! j = plan p ! n p" by (auto simp: in_set_conv_nth)
    show ?thesis
    proof (cases "n q < length (plan q)")
      case True
      with j sorted_wrt_nth_less [OF sorted, of j "n q" q] have "lock_rank (plan q ! j) < lock_rank (plan q ! n q)" by simp
      with True p j(3) show ?thesis by (simp add: f_def)
    next
      case False
      with p lock_rank_bounds [of "plan p ! n p"] show ?thesis by (simp add: f_def)
    qed
  qed
  have "f p < f q" if "(p, q) \<in> (waits_for plan n)\<^sup>+" for p q
    using that by (induction rule: trancl.induct) (use up in \<open>auto intro: less_trans\<close>)
  then show ?thesis unfolding acyclic_def by blast
qed

theorem lock_plans_do_not_deadlock_witness:
  "(False, True) \<in> waits_for (\<lambda>publish. if publish then PUBLISH_LOCK_PLAN else SNAPSHOT_CUTOVER_LOCK_PLAN) (\<lambda>publish. if publish then 2 else 1)
     \<and> acyclic (waits_for (\<lambda>publish. if publish then PUBLISH_LOCK_PLAN else SNAPSHOT_CUTOVER_LOCK_PLAN) (\<lambda>publish. if publish then 2 else 1))"
  using lock_plans_do_not_deadlock [of "\<lambda>publish. if publish then PUBLISH_LOCK_PLAN else SNAPSHOT_CUTOVER_LOCK_PLAN"
      "\<lambda>publish. if publish then 2 else 1"]
  by (simp add: waits_for_def PUBLISH_LOCK_PLAN_def SNAPSHOT_CUTOVER_LOCK_PLAN_def assertLockPlan_def LOCK_ORDER_def Let_def numeral_2_eq_2)

subsection \<open>Channel keys\<close>

text \<open>
  The key of a channel joins project and channel with a colon, so two projects can share a key: here
  the project \<open>p1:a\<close> publishes on its channel \<open>b\<close> and takes the channel \<open>a:b\<close> of the project \<open>p1\<close>,
  whose release is superseded. The state before is consistent, and so is the state after.
\<close>

definition colliding_example :: MetadataControlPlaneState where
  "colliding_example = createMetadataControlPlaneState\<lparr>
     mc_releases := [(js ''r1'', \<lparr>cr_id = js ''r1'', cr_projectId = js ''p1'', cr_manifestDigest = js ''m1'', cr_state = Rel_PUBLISHED\<rparr>),
       (js ''r2'', \<lparr>cr_id = js ''r2'', cr_projectId = js ''p1:a'', cr_manifestDigest = js ''m2'', cr_state = Rel_READY\<rparr>)],
     mc_activations := [(js ''a1'', \<lparr>ac_id = js ''a1'', ac_releaseId = js ''r1'', ac_manifestDigest = js ''m1'', ac_memberIds = []\<rparr>),
       (js ''a2'', \<lparr>ac_id = js ''a2'', ac_releaseId = js ''r2'', ac_manifestDigest = js ''m2'', ac_memberIds = []\<rparr>)],
     mc_channels := [(js ''p1:a:b'', \<lparr>cc_projectId = js ''p1'', cc_channel = js ''a:b'', cc_releaseId = js ''r1'',
       cc_activationId = js ''a1''\<rparr>)],
     mc_servingHeads := [(js ''r1'', \<lparr>hc_releaseId = js ''r1'', hc_activationId = js ''a1''\<rparr>)]\<rparr>"

theorem channel_keys_collide:
  "\<exists>i st' c r. control_ok colliding_example \<and> publishReleaseTransaction colliding_example i = Inr st'
     \<and> map_of (mc_channels colliding_example) (controlChannelKey (js ''p1'') (js ''a:b'')) = Some c \<and> cc_projectId c = js ''p1''
     \<and> pr_projectId i = js ''p1:a'' \<and> map_of (mc_releases st') (cc_releaseId c) = Some r \<and> cr_projectId r = js ''p1''
     \<and> cr_state r = Rel_SUPERSEDED"
proof -
  let ?i = "\<lparr>pr_projectId = js ''p1:a'', pr_releaseId = js ''r2'', pr_activationId = js ''a2'', pr_channel = js ''b'',
     pr_expectedControlRevision = 0, pr_packageChangeId = None, pr_failurePoint = None\<rparr>"
  have "assertMetadataControlPlaneInvariants colliding_example = Inr ()" by code_simp
  moreover have "js ''p1:a:b'' = controlChannelKey (js ''p1'') (js ''a:b'')" by code_simp
  ultimately have "control_ok colliding_example"
    by (simp add: control_ok_def control_keys_def keyed_by_def wf_jsmap_def channels_apart_def bindings_once_def
        colliding_example_def createMetadataControlPlaneState_def)
  moreover have "case publishReleaseTransaction colliding_example ?i of Inl _ \<Rightarrow> False
    | Inr st' \<Rightarrow> (case map_of (mc_channels colliding_example) (controlChannelKey (js ''p1'') (js ''a:b'')) of None \<Rightarrow> False
      | Some c \<Rightarrow> cc_projectId c = js ''p1'' \<and> (case map_of (mc_releases st') (cc_releaseId c) of None \<Rightarrow> False
        | Some r \<Rightarrow> cr_projectId r = js ''p1'' \<and> cr_state r = Rel_SUPERSEDED))" by code_simp
  ultimately show ?thesis
    by (intro exI [of _ ?i]) (auto split: sum.splits option.splits)
qed

end
