(* ===== verification/CollectionPlan.thy ===== *)
theory CollectionPlan
  imports Js
begin

text \<open>
  The planner of garbage collection (\<open>packages/materialization-domain/src/garbage-collection.ts\<close>): from
  a snapshot of the inventory of a project it decides which generations, head sets, staging of
  attempts, orphan uploads and indexes may be collected, or that nothing may.

  The planner is a pure function. It throws one kind of error, so a function that may throw is a
  function into \<open>gc_result\<close>. Instants are whole milliseconds, so integers, and byte counts, which are bigints, too;
  \<open>localeCompare\<close>, given by the locale data of the runtime, is an argument. Strings of kinds that only
  serve as tags are datatypes; where they are compared or reported they have their text.
\<close>

subsection \<open>The inventory\<close>

definition GC_DAY_IN_MS :: int where
  "GC_DAY_IN_MS = 24 * 60 * 60 * 1000"

record GcRetentionPolicy =
  successfulGenerationMs :: int
  failedGenerationMs :: int
  stagingGenerationMs :: int
  attemptStagingMs :: int
  orphanUploadMs :: int

definition DEFAULT_GC_RETENTION_POLICY :: GcRetentionPolicy where
  "DEFAULT_GC_RETENTION_POLICY = \<lparr>successfulGenerationMs = 7 * GC_DAY_IN_MS, failedGenerationMs = 7 * GC_DAY_IN_MS,
     stagingGenerationMs = 7 * GC_DAY_IN_MS, attemptStagingMs = GC_DAY_IN_MS, orphanUploadMs = GC_DAY_IN_MS\<rparr>"

datatype GcCapabilityState = Cap_ACTIVE | Cap_INACTIVE

datatype GcScanStatus = Scan_COMPLETE | Scan_INACTIVE | Scan_MISSING | Scan_FAILED | Scan_VERSION_MISMATCH

record GcRootCapability =
  gp_capabilityKey :: jsstring
  gp_state :: GcCapabilityState
  gp_expectedVersion :: jsstring

record GcProviderScan =
  gs_capabilityKey :: jsstring
  gs_status :: GcScanStatus
  gs_providerVersion :: "jsstring option"
  gs_rootCount :: int
  gs_rootDigest :: "jsstring option"

datatype GcRootKind =
    CHANNEL | SERVING_HEAD | ACTIVE_JOB | CURRENT_HEAD_SET | PREPARED_CUTOVER | PREFLIGHT_TOKEN | QUERY_LEASE
  | INVESTIGATION_HOLD | HISTORICAL_ACTION | HISTORICAL_CHANGESET | HISTORICAL_ARTIFACT | HISTORICAL_ACTIVATION

fun root_kind_text :: "GcRootKind \<Rightarrow> jsstring" where
  "root_kind_text CHANNEL = js ''CHANNEL''"
| "root_kind_text SERVING_HEAD = js ''SERVING_HEAD''"
| "root_kind_text ACTIVE_JOB = js ''ACTIVE_JOB''"
| "root_kind_text CURRENT_HEAD_SET = js ''CURRENT_HEAD_SET''"
| "root_kind_text PREPARED_CUTOVER = js ''PREPARED_CUTOVER''"
| "root_kind_text PREFLIGHT_TOKEN = js ''PREFLIGHT_TOKEN''"
| "root_kind_text QUERY_LEASE = js ''QUERY_LEASE''"
| "root_kind_text INVESTIGATION_HOLD = js ''INVESTIGATION_HOLD''"
| "root_kind_text HISTORICAL_ACTION = js ''HISTORICAL_ACTION''"
| "root_kind_text HISTORICAL_CHANGESET = js ''HISTORICAL_CHANGESET''"
| "root_kind_text HISTORICAL_ARTIFACT = js ''HISTORICAL_ARTIFACT''"
| "root_kind_text HISTORICAL_ACTIVATION = js ''HISTORICAL_ACTIVATION''"

record GcRoot =
  gr_kind :: GcRootKind
  gr_rootId :: jsstring
  gr_capabilityKey :: jsstring
  gr_expiresAt :: "int option"

datatype GcGenerationState = Gen_READY | Gen_ACTIVE | Gen_RETIRED | Gen_STAGING | Gen_FAILED_STAGING | Gen_COLLECTED

record GcGeneration =
  gg_generationId :: jsstring
  gg_memberKey :: jsstring
  gg_state :: GcGenerationState
  gg_createdAt :: int
  gg_changedAt :: int
  gg_leftServingAt :: "int option"
  gg_measuredBytes :: "int option"
  gg_indexSignatures :: "jsstring list"
  gg_roots :: "GcRoot list"

datatype GcHeadSetState = Heads_BUILDING | Heads_PREPARED | Heads_ACTIVE | Heads_RETIRED | Heads_COLLECTED

record GcHeadSet =
  gh_headSetId :: jsstring
  gh_state :: GcHeadSetState
  gh_createdAt :: int
  gh_measuredBytes :: "int option"
  gh_generationIds :: "jsstring list"

datatype GcIndexState = Index_PLANNED | Index_BUILDING | Index_READY | Index_FAILED | Index_RETIRED

record GcIndex =
  gx_physicalSignature :: jsstring
  gx_indexName :: jsstring
  gx_state :: GcIndexState
  gx_observedBytes :: "int option"

datatype GcAttemptState = Attempt_ACTIVE | Attempt_TERMINAL

record GcAttempt =
  ga_attemptId :: jsstring
  ga_state :: GcAttemptState
  ga_finishedAt :: "int option"
  ga_measuredBytes :: "int option"
  ga_generationIds :: "jsstring list"

datatype GcUploadState = Up_CREATED | Up_UPLOADED | Up_FAILED | Up_EXPIRED | Up_FINALIZED | Up_CLEANED

record GcOrphanUpload =
  gu_sessionId :: jsstring
  gu_state :: GcUploadState
  gu_orphanedAt :: int
  gu_cleanupAfter :: int
  gu_measuredBytes :: "int option"
  gu_exactVersionKnown :: bool

record GcInventorySnapshot =
  gi_projectId :: jsstring
  gi_observedAt :: int
  gi_stateRevision :: int
  gi_inventoryRevision :: int
  gi_measurementComplete :: bool
  gi_classificationComplete :: bool
  gi_indexInventoryComplete :: bool
  gi_providerRegistryDigest :: jsstring
  gi_capabilities :: "GcRootCapability list"
  gi_providerScans :: "GcProviderScan list"
  gi_generations :: "GcGeneration list"
  gi_headSets :: "GcHeadSet list"
  gi_indexes :: "GcIndex list"
  gi_attempts :: "GcAttempt list"
  gi_orphanUploads :: "GcOrphanUpload list"

subsection \<open>Plans\<close>

datatype GcEntryKind = GENERATION | HEAD_SET | INDEX | ATTEMPT_STAGING | ORPHAN_UPLOAD

fun entry_kind_text :: "GcEntryKind \<Rightarrow> jsstring" where
  "entry_kind_text GENERATION = js ''GENERATION''"
| "entry_kind_text HEAD_SET = js ''HEAD_SET''"
| "entry_kind_text INDEX = js ''INDEX''"
| "entry_kind_text ATTEMPT_STAGING = js ''ATTEMPT_STAGING''"
| "entry_kind_text ORPHAN_UPLOAD = js ''ORPHAN_UPLOAD''"

datatype GcDisposition = CANDIDATE | RETAINED | PROTECTED

record GcPlanEntry =
  ge_kind :: GcEntryKind
  ge_key :: jsstring
  ge_disposition :: GcDisposition
  ge_reasons :: "jsstring list"
  ge_estimatedBytes :: int
  ge_indexImpact :: "jsstring list"

datatype GcPlanStatus = Plan_READY | Plan_BLOCKED

record GcPlanAnalysis =
  gn_status :: GcPlanStatus
  gn_projectId :: jsstring
  gn_observedAt :: int
  gn_stateRevision :: int
  gn_inventoryRevision :: int
  gn_providerRegistryDigest :: jsstring
  gn_entries :: "GcPlanEntry list"
  gn_candidates :: "GcPlanEntry list"
  gn_retained :: "GcPlanEntry list"
  gn_protected :: "GcPlanEntry list"
  gn_reclaimableBytes :: int
  gn_blockedReasons :: "jsstring list"

datatype GcError = GarbageCollectionInventoryError

type_synonym 'a gc_result = "(GcError, 'a) result"

subsection \<open>Validation\<close>

definition safeInstant :: "int \<Rightarrow> bool" where
  "safeInstant v \<longleftrightarrow> isSafeInteger v \<and> v \<ge> 0"

definition assertUnique :: "jsstring list \<Rightarrow> unit gc_result" where
  "assertUnique values = guard (\<not> (list_ex (\<lambda>v. js_trim v = []) values
     \<or> length (remdups values) \<noteq> length values)) GarbageCollectionInventoryError"

definition uniqueSorted :: "jsstring list \<Rightarrow> jsstring list" where
  "uniqueSorted values = sort (remdups values)"

definition validatePolicy :: "GcRetentionPolicy \<Rightarrow> unit gc_result" where
  "validatePolicy policy =
     rbind (mapM (\<lambda>v. guard (\<not> (\<not> isSafeInteger v \<or> v < GC_DAY_IN_MS)) GarbageCollectionInventoryError)
       [successfulGenerationMs policy, failedGenerationMs policy, stagingGenerationMs policy, attemptStagingMs policy,
        orphanUploadMs policy]) (\<lambda>_.
     guard (\<not> (successfulGenerationMs policy < 7 * GC_DAY_IN_MS \<or> failedGenerationMs policy < 7 * GC_DAY_IN_MS
       \<or> stagingGenerationMs policy < 7 * GC_DAY_IN_MS)) GarbageCollectionInventoryError)"

definition root_key :: "GcRoot \<Rightarrow> jsstring" where
  "root_key root = gr_capabilityKey root @ js '':'' @ root_kind_text (gr_kind root) @ js '':'' @ gr_rootId root"

definition validateGeneration :: "GcGeneration \<Rightarrow> unit gc_result" where
  "validateGeneration generation =
     rbind (guard (\<not> (js_trim (gg_memberKey generation) = [] \<or> \<not> safeInstant (gg_createdAt generation)
       \<or> \<not> safeInstant (gg_changedAt generation) \<or> gg_changedAt generation < gg_createdAt generation
       \<or> (case gg_leftServingAt generation of None \<Rightarrow> False
            | Some left \<Rightarrow> \<not> safeInstant left \<or> left < gg_createdAt generation)
       \<or> (case gg_measuredBytes generation of None \<Rightarrow> False | Some bytes \<Rightarrow> bytes < 0))) GarbageCollectionInventoryError) (\<lambda>_.
     rbind (assertUnique (gg_indexSignatures generation)) (\<lambda>_.
     assertUnique (map root_key (gg_roots generation))))"

definition validateSnapshot :: "GcInventorySnapshot \<Rightarrow> unit gc_result" where
  "validateSnapshot snapshot =
     rbind (guard (\<not> (js_trim (gi_projectId snapshot) = [] \<or> \<not> isSafeInteger (gi_observedAt snapshot)
       \<or> gi_observedAt snapshot < 0 \<or> gi_stateRevision snapshot < 1 \<or> gi_inventoryRevision snapshot < 1
       \<or> js_trim (gi_providerRegistryDigest snapshot) = [])) GarbageCollectionInventoryError) (\<lambda>_.
     rbind (assertUnique (map gp_capabilityKey (gi_capabilities snapshot))) (\<lambda>_.
     rbind (assertUnique (map gs_capabilityKey (gi_providerScans snapshot))) (\<lambda>_.
     rbind (assertUnique (map gg_generationId (gi_generations snapshot))) (\<lambda>_.
     rbind (assertUnique (map gh_headSetId (gi_headSets snapshot))) (\<lambda>_.
     rbind (assertUnique (map gx_physicalSignature (gi_indexes snapshot))) (\<lambda>_.
     rbind (assertUnique (map ga_attemptId (gi_attempts snapshot))) (\<lambda>_.
     rbind (assertUnique (map gu_sessionId (gi_orphanUploads snapshot))) (\<lambda>_.
     rbind (mapM validateGeneration (gi_generations snapshot)) (\<lambda>_. Inr ())))))))))"

definition requiredBytes :: "int option \<Rightarrow> int gc_result" where
  "requiredBytes value = (case value of None \<Rightarrow> Inl GarbageCollectionInventoryError | Some bytes \<Rightarrow> Inr bytes)"

subsection \<open>Completeness\<close>

definition capabilityReasons :: "GcInventorySnapshot \<Rightarrow> GcRootCapability \<Rightarrow> jsstring list" where
  "capabilityReasons snapshot capability =
     (let k = gp_capabilityKey capability;
          scan = find (\<lambda>candidate. gs_capabilityKey candidate = k) (gi_providerScans snapshot) in
     if gp_state capability = Cap_INACTIVE then
       (case scan of
          None \<Rightarrow> [js ''INACTIVE_PROVIDER_STATE_INVALID:'' @ k]
        | Some s \<Rightarrow> if gs_status s \<noteq> Scan_INACTIVE then [js ''INACTIVE_PROVIDER_STATE_INVALID:'' @ k] else [])
     else (case scan of
          None \<Rightarrow> [js ''PROVIDER_MISSING:'' @ k]
        | Some s \<Rightarrow>
            if gs_status s = Scan_MISSING then [js ''PROVIDER_MISSING:'' @ k]
            else if gs_status s = Scan_FAILED then [js ''PROVIDER_FAILED:'' @ k]
            else if gs_status s = Scan_VERSION_MISMATCH \<or> gs_status s \<noteq> Scan_COMPLETE
                \<or> gs_providerVersion s \<noteq> Some (gp_expectedVersion capability)
              then [js ''PROVIDER_VERSION_MISMATCH:'' @ k]
            else if gs_rootDigest s = None \<or> gs_rootCount s < 0 then [js ''PROVIDER_SCAN_INVALID:'' @ k]
            else []))"

definition generationReasons :: "GcInventorySnapshot \<Rightarrow> GcGeneration \<Rightarrow> jsstring list" where
  "generationReasons snapshot generation =
     (if gg_state generation \<noteq> Gen_COLLECTED \<and> gg_measuredBytes generation = None
      then [js ''GENERATION_MEASUREMENT_MISSING:'' @ gg_generationId generation] else [])
     @ concat (map (\<lambda>signature. if signature \<notin> set (map gx_physicalSignature (gi_indexes snapshot))
         then [js ''INDEX_INVENTORY_MISSING:'' @ signature] else []) (gg_indexSignatures generation))"

definition measuredItems :: "GcInventorySnapshot \<Rightarrow> (jsstring \<times> int option) list" where
  "measuredItems snapshot = map (\<lambda>h. (gh_headSetId h, gh_measuredBytes h)) (gi_headSets snapshot)
     @ map (\<lambda>a. (ga_attemptId a, ga_measuredBytes a)) (gi_attempts snapshot)
     @ map (\<lambda>u. (gu_sessionId u, gu_measuredBytes u)) (gi_orphanUploads snapshot)"

definition completenessViolations :: "GcInventorySnapshot \<Rightarrow> jsstring list" where
  "completenessViolations snapshot = uniqueSorted (
     (if \<not> gi_measurementComplete snapshot then [js ''MEASUREMENT_INCOMPLETE''] else [])
     @ (if \<not> gi_classificationComplete snapshot then [js ''CLASSIFICATION_INCOMPLETE''] else [])
     @ (if \<not> gi_indexInventoryComplete snapshot then [js ''INDEX_INVENTORY_INCOMPLETE''] else [])
     @ concat (map (capabilityReasons snapshot) (gi_capabilities snapshot))
     @ concat (map (generationReasons snapshot) (gi_generations snapshot))
     @ concat (map (\<lambda>(k, bytes). if bytes = None then [js ''ITEM_MEASUREMENT_MISSING:'' @ k] else []) (measuredItems snapshot))
     @ concat (map (\<lambda>index. if gx_state index \<noteq> Index_RETIRED \<and> gx_observedBytes index = None
         then [js ''INDEX_MEASUREMENT_MISSING:'' @ gx_physicalSignature index] else []) (gi_indexes snapshot)))"

subsection \<open>Dispositions\<close>

definition gc_entry ::
  "GcEntryKind \<Rightarrow> jsstring \<Rightarrow> GcDisposition \<Rightarrow> jsstring list \<Rightarrow> int \<Rightarrow> jsstring list \<Rightarrow> GcPlanEntry" where
  "gc_entry kind key disposition reasons estimatedBytes indexImpact =
     \<lparr>ge_kind = kind, ge_key = key, ge_disposition = disposition, ge_reasons = uniqueSorted reasons,
      ge_estimatedBytes = estimatedBytes, ge_indexImpact = uniqueSorted indexImpact\<rparr>"

definition compareRoots :: "(jsstring \<Rightarrow> jsstring \<Rightarrow> int) \<Rightarrow> GcRoot \<Rightarrow> GcRoot \<Rightarrow> int" where
  "compareRoots localeCompare left right =
     or_else (localeCompare (root_kind_text (gr_kind left)) (root_kind_text (gr_kind right)))
       (or_else (localeCompare (gr_capabilityKey left) (gr_capabilityKey right))
         (localeCompare (gr_rootId left) (gr_rootId right)))"

definition activeRoots :: "(jsstring \<Rightarrow> jsstring \<Rightarrow> int) \<Rightarrow> GcInventorySnapshot \<Rightarrow> GcGeneration \<Rightarrow> GcRoot list" where
  "activeRoots localeCompare snapshot generation = js_sort (compareRoots localeCompare)
     (filter (\<lambda>root. case gr_expiresAt root of None \<Rightarrow> True | Some expiresAt \<Rightarrow> expiresAt > gi_observedAt snapshot) (gg_roots generation))"

definition newestSuccess :: "(jsstring \<Rightarrow> jsstring \<Rightarrow> int) \<Rightarrow> GcGeneration \<Rightarrow> GcGeneration \<Rightarrow> int" where
  "newestSuccess localeCompare left right =
     or_else (gg_changedAt right - gg_changedAt left) (localeCompare (gg_generationId left) (gg_generationId right))"

definition successfulGenerations :: "GcGeneration list \<Rightarrow> GcGeneration list" where
  "successfulGenerations generations =
     filter (\<lambda>generation. \<not> (gg_state generation \<noteq> Gen_READY \<and> gg_state generation \<noteq> Gen_RETIRED)) generations"

definition recentOfMember :: "(jsstring \<Rightarrow> jsstring \<Rightarrow> int) \<Rightarrow> GcGeneration list \<Rightarrow> jsstring \<Rightarrow> jsstring list" where
  "recentOfMember localeCompare generations memberKey = map gg_generationId (take 2 (js_sort (newestSuccess localeCompare)
     (filter (\<lambda>generation. gg_memberKey generation = memberKey) (successfulGenerations generations))))"

definition deriveRecentSuccessfulGenerationIds :: "(jsstring \<Rightarrow> jsstring \<Rightarrow> int) \<Rightarrow> GcGeneration list \<Rightarrow> jsstring list" where
  "deriveRecentSuccessfulGenerationIds localeCompare generations = concat (map (recentOfMember localeCompare generations)
     (remdups (map gg_memberKey (successfulGenerations generations))))"

fun generationRetentionMs :: "GcGenerationState \<Rightarrow> GcRetentionPolicy \<Rightarrow> int" where
  "generationRetentionMs Gen_FAILED_STAGING policy = failedGenerationMs policy"
| "generationRetentionMs Gen_STAGING policy = stagingGenerationMs policy"
| "generationRetentionMs _ policy = successfulGenerationMs policy"

fun generationGraceReason :: "GcGenerationState \<Rightarrow> jsstring" where
  "generationGraceReason Gen_FAILED_STAGING = js ''FAILED_GENERATION_GRACE_ACTIVE''"
| "generationGraceReason Gen_STAGING = js ''STAGING_GENERATION_GRACE_ACTIVE''"
| "generationGraceReason _ = js ''GENERATION_GRACE_ACTIVE''"

fun candidateReason :: "GcGenerationState \<Rightarrow> jsstring" where
  "candidateReason Gen_FAILED_STAGING = js ''FAILED_GENERATION_RETENTION_ELAPSED''"
| "candidateReason Gen_STAGING = js ''ORPHAN_STAGING_RETENTION_ELAPSED''"
| "candidateReason _ = js ''UNREFERENCED_GENERATION''"

definition graceAnchor :: "GcGeneration \<Rightarrow> int" where
  "graceAnchor generation = max (max (gg_createdAt generation) (gg_changedAt generation))
     (case gg_leftServingAt generation of None \<Rightarrow> 0 | Some left \<Rightarrow> left)"

definition retentionReasons :: "GcRetentionPolicy \<Rightarrow> GcInventorySnapshot \<Rightarrow> jsstring list \<Rightarrow> GcGeneration \<Rightarrow> jsstring list" where
  "retentionReasons policy snapshot recent generation =
     (if gg_generationId generation \<in> set recent then [js ''RECENT_SUCCESS''] else [])
     @ (if gi_observedAt snapshot - graceAnchor generation < generationRetentionMs (gg_state generation) policy
        then [generationGraceReason (gg_state generation)] else [])"

text \<open>
  The loop over the generations ends early, with the reason for the block, at a generation in service
  that nothing refers to; otherwise it gives the entries and the ids of the candidates.
\<close>

fun generationLoop ::
  "(jsstring \<Rightarrow> jsstring \<Rightarrow> int) \<Rightarrow> GcRetentionPolicy \<Rightarrow> GcInventorySnapshot \<Rightarrow> jsstring list \<Rightarrow> GcGeneration list
     \<Rightarrow> GcPlanEntry list \<Rightarrow> jsstring list \<Rightarrow> (jsstring list + GcPlanEntry list \<times> jsstring list) gc_result" where
  "generationLoop localeCompare policy snapshot recent [] entries candidates = Inr (Inr (entries, candidates))"
| "generationLoop localeCompare policy snapshot recent (generation # rest) entries candidates =
     (if gg_state generation = Gen_COLLECTED then generationLoop localeCompare policy snapshot recent rest entries candidates
      else let roots = activeRoots localeCompare snapshot generation; k = gg_generationId generation in
        if roots \<noteq> [] then
          rbind (requiredBytes (gg_measuredBytes generation)) (\<lambda>bytes.
          generationLoop localeCompare policy snapshot recent rest
            (entries @ [gc_entry GENERATION k PROTECTED (map (root_kind_text \<circ> gr_kind) roots) bytes (gg_indexSignatures generation)]) candidates)
        else if gg_state generation = Gen_ACTIVE then Inr (Inl [js ''ACTIVE_GENERATION_UNROOTED:'' @ k])
        else let reasons = retentionReasons policy snapshot recent generation in
          if reasons \<noteq> [] then
            rbind (requiredBytes (gg_measuredBytes generation)) (\<lambda>bytes.
            generationLoop localeCompare policy snapshot recent rest
              (entries @ [gc_entry GENERATION k RETAINED reasons bytes (gg_indexSignatures generation)]) candidates)
          else
            rbind (requiredBytes (gg_measuredBytes generation)) (\<lambda>bytes.
            generationLoop localeCompare policy snapshot recent rest
              (entries @ [gc_entry GENERATION k CANDIDATE [candidateReason (gg_state generation)] bytes (gg_indexSignatures generation)])
              (candidates @ [k])))"

definition allCollectable :: "GcInventorySnapshot \<Rightarrow> jsstring list \<Rightarrow> jsstring list \<Rightarrow> bool" where
  "allCollectable snapshot candidates generationIds \<longleftrightarrow> list_all (\<lambda>k. k \<in> set candidates
     \<or> map_option gg_state (map_of (map (\<lambda>g. (gg_generationId g, g)) (gi_generations snapshot)) k) = Some Gen_COLLECTED) generationIds"

definition headSetEntry :: "GcInventorySnapshot \<Rightarrow> jsstring list \<Rightarrow> GcHeadSet \<Rightarrow> GcPlanEntry gc_result" where
  "headSetEntry snapshot candidates headSet =
     (let active = (gh_state headSet = Heads_ACTIVE);
          immutableInFlight = (gh_state headSet = Heads_BUILDING \<or> gh_state headSet = Heads_PREPARED);
          collectable = allCollectable snapshot candidates (gh_generationIds headSet) in
     rbind (requiredBytes (gh_measuredBytes headSet)) (\<lambda>bytes.
     Inr (gc_entry HEAD_SET (gh_headSetId headSet)
       (if active \<or> immutableInFlight \<or> \<not> collectable then PROTECTED else CANDIDATE)
       (if active then [js ''CURRENT_HEAD_SET''] else if immutableInFlight then [js ''IN_FLIGHT_HEAD_SET'']
        else if collectable then [js ''RETIRED_HEAD_SET''] else [js ''HEAD_SET_REFERENCES_RETAINED_GENERATION''])
       bytes [])))"

definition attemptEntry :: "GcRetentionPolicy \<Rightarrow> GcInventorySnapshot \<Rightarrow> jsstring list \<Rightarrow> GcAttempt \<Rightarrow> GcPlanEntry gc_result" where
  "attemptEntry policy snapshot candidates attempt' =
     (if ga_state attempt' = Attempt_ACTIVE
      then rbind (requiredBytes (ga_measuredBytes attempt')) (\<lambda>bytes.
        Inr (gc_entry ATTEMPT_STAGING (ga_attemptId attempt') PROTECTED [js ''ACTIVE_ATTEMPT''] bytes []))
      else let collectable = allCollectable snapshot candidates (ga_generationIds attempt');
          graceElapsed = (case ga_finishedAt attempt' of None \<Rightarrow> False
            | Some finishedAt \<Rightarrow> gi_observedAt snapshot - finishedAt \<ge> attemptStagingMs policy) in
        rbind (requiredBytes (ga_measuredBytes attempt')) (\<lambda>bytes.
        Inr (gc_entry ATTEMPT_STAGING (ga_attemptId attempt') (if collectable \<and> graceElapsed then CANDIDATE else RETAINED)
          (if \<not> collectable then [js ''ATTEMPT_REFERENCES_RETAINED_GENERATION'']
           else if graceElapsed then [js ''ATTEMPT_STAGING_RETENTION_ELAPSED''] else [js ''ATTEMPT_STAGING_GRACE_ACTIVE''])
          bytes [])))"

definition uploadEntry :: "GcRetentionPolicy \<Rightarrow> GcInventorySnapshot \<Rightarrow> GcOrphanUpload \<Rightarrow> GcPlanEntry gc_result" where
  "uploadEntry policy snapshot upload =
     (let orphan = (gu_state upload = Up_FAILED \<or> gu_state upload = Up_EXPIRED);
          retentionElapsed = (gi_observedAt snapshot \<ge> gu_cleanupAfter upload
            \<and> gi_observedAt snapshot - gu_orphanedAt upload \<ge> orphanUploadMs policy);
          candidate = (orphan \<and> gu_exactVersionKnown upload \<and> retentionElapsed) in
     rbind (requiredBytes (gu_measuredBytes upload)) (\<lambda>bytes.
     Inr (gc_entry ORPHAN_UPLOAD (gu_sessionId upload)
       (if candidate then CANDIDATE else if orphan then RETAINED else PROTECTED)
       (if candidate then [js ''ORPHAN_UPLOAD_RETENTION_ELAPSED'']
        else if \<not> orphan then [js ''REGISTERED_OR_IN_FLIGHT_UPLOAD'']
        else if \<not> gu_exactVersionKnown upload then [js ''ORPHAN_VERSION_UNKNOWN''] else [js ''ORPHAN_UPLOAD_GRACE_ACTIVE''])
       bytes [])))"

definition nonCandidateGenerationSignatures :: "GcInventorySnapshot \<Rightarrow> jsstring list \<Rightarrow> jsstring list" where
  "nonCandidateGenerationSignatures snapshot candidates = remdups (concat (map gg_indexSignatures
     (filter (\<lambda>generation. gg_state generation \<noteq> Gen_COLLECTED \<and> gg_generationId generation \<notin> set candidates) (gi_generations snapshot))))"

definition indexEntry :: "GcInventorySnapshot \<Rightarrow> jsstring list \<Rightarrow> GcIndex \<Rightarrow> GcPlanEntry gc_result" where
  "indexEntry snapshot candidates index =
     (let referenced = gx_physicalSignature index \<in> set (nonCandidateGenerationSignatures snapshot candidates);
          candidate = (gx_state index = Index_READY \<and> \<not> referenced) in
     rbind (requiredBytes (gx_observedBytes index)) (\<lambda>bytes.
     Inr (gc_entry INDEX (gx_physicalSignature index) (if candidate then CANDIDATE else PROTECTED)
       (if candidate then [js ''ZERO_REFERENCES_AFTER_PLAN''] else [js ''INDEX_STILL_REQUIRED''])
       bytes [gx_indexName index])))"

subsection \<open>The analysis\<close>

definition compareEntries :: "(jsstring \<Rightarrow> jsstring \<Rightarrow> int) \<Rightarrow> GcPlanEntry \<Rightarrow> GcPlanEntry \<Rightarrow> int" where
  "compareEntries localeCompare left right = or_else (localeCompare (entry_kind_text (ge_kind left)) (entry_kind_text (ge_kind right)))
     (localeCompare (ge_key left) (ge_key right))"

definition readyAnalysis :: "(jsstring \<Rightarrow> jsstring \<Rightarrow> int) \<Rightarrow> GcInventorySnapshot \<Rightarrow> GcPlanEntry list \<Rightarrow> GcPlanAnalysis" where
  "readyAnalysis localeCompare snapshot values =
     (let entries = js_sort (compareEntries localeCompare) values;
          candidates = filter (\<lambda>item. ge_disposition item = CANDIDATE) entries in
     \<lparr>gn_status = Plan_READY, gn_projectId = gi_projectId snapshot, gn_observedAt = gi_observedAt snapshot,
      gn_stateRevision = gi_stateRevision snapshot, gn_inventoryRevision = gi_inventoryRevision snapshot,
      gn_providerRegistryDigest = gi_providerRegistryDigest snapshot, gn_entries = entries, gn_candidates = candidates,
      gn_retained = filter (\<lambda>item. ge_disposition item = RETAINED) entries,
      gn_protected = filter (\<lambda>item. ge_disposition item = PROTECTED) entries,
      gn_reclaimableBytes = foldl (\<lambda>sum item. sum + ge_estimatedBytes item) 0 candidates, gn_blockedReasons = []\<rparr>)"

definition blockedAnalysis :: "GcInventorySnapshot \<Rightarrow> jsstring list \<Rightarrow> GcPlanAnalysis" where
  "blockedAnalysis snapshot reasons =
     \<lparr>gn_status = Plan_BLOCKED, gn_projectId = gi_projectId snapshot, gn_observedAt = gi_observedAt snapshot,
      gn_stateRevision = gi_stateRevision snapshot, gn_inventoryRevision = gi_inventoryRevision snapshot,
      gn_providerRegistryDigest = gi_providerRegistryDigest snapshot, gn_entries = [], gn_candidates = [],
      gn_retained = [], gn_protected = [], gn_reclaimableBytes = 0, gn_blockedReasons = uniqueSorted reasons\<rparr>"

definition analyzeGarbageCollectionInventory ::
  "(jsstring \<Rightarrow> jsstring \<Rightarrow> int) \<Rightarrow> GcInventorySnapshot \<Rightarrow> GcRetentionPolicy \<Rightarrow> GcPlanAnalysis gc_result" where
  "analyzeGarbageCollectionInventory localeCompare snapshot policy =
     rbind (validatePolicy policy) (\<lambda>_.
     rbind (validateSnapshot snapshot) (\<lambda>_.
     let blockedReasons = completenessViolations snapshot in
     if length blockedReasons > 0 then Inr (blockedAnalysis snapshot blockedReasons)
     else
       rbind (generationLoop localeCompare policy snapshot
         (deriveRecentSuccessfulGenerationIds localeCompare (gi_generations snapshot)) (gi_generations snapshot) [] []) (\<lambda>outcome.
       case outcome of
         Inl reasons \<Rightarrow> Inr (blockedAnalysis snapshot reasons)
       | Inr (entries, candidates) \<Rightarrow>
           rbind (mapM (headSetEntry snapshot candidates)
             (filter (\<lambda>headSet. gh_state headSet \<noteq> Heads_COLLECTED) (gi_headSets snapshot))) (\<lambda>headSets.
           rbind (mapM (attemptEntry policy snapshot candidates) (gi_attempts snapshot)) (\<lambda>attempts.
           rbind (mapM (uploadEntry policy snapshot)
             (filter (\<lambda>upload. gu_state upload \<noteq> Up_CLEANED) (gi_orphanUploads snapshot))) (\<lambda>uploads.
           rbind (mapM (indexEntry snapshot candidates)
             (filter (\<lambda>index. gx_state index \<noteq> Index_RETIRED) (gi_indexes snapshot))) (\<lambda>indexes.
           Inr (readyAnalysis localeCompare snapshot (entries @ headSets @ attempts @ uploads @ indexes)))))))))"

end
