(* ===== verification/CollectionPlanFacts.thy ===== *)
theory CollectionPlanFacts
  imports CollectionPlan "HOL-Library.Multiset"
begin

text \<open>
  The planner of garbage collection in terms of sets: what a complete inventory is, which generations
  the loop finds collectable, and the list of entries a plan has.
\<close>

subsection \<open>Checks\<close>

lemma gc_error_eq: "(e :: GcError) = GarbageCollectionInventoryError"
  by (cases e) simp

lemma uniqueSorted_eq_Nil [simp]: "uniqueSorted xs = [] \<longleftrightarrow> xs = []"
proof
  assume "uniqueSorted xs = []"
  then have "set (uniqueSorted xs) = {}" by simp
  then show "xs = []" by (simp add: uniqueSorted_def)
qed (simp add: uniqueSorted_def)

lemma assertUnique_Inr: "assertUnique xs = Inr u \<Longrightarrow> distinct xs"
  by (simp add: assertUnique_def length_remdups_eq)

lemma requiredBytes_Some [simp]: "v = Some b \<Longrightarrow> requiredBytes v = Inr b"
  by (simp add: requiredBytes_def)

lemma validateSnapshot_unique:
  assumes "validateSnapshot snapshot = Inr u"
  shows "distinct (map gs_capabilityKey (gi_providerScans snapshot))"
    "distinct (map gg_generationId (gi_generations snapshot))" "distinct (map gh_headSetId (gi_headSets snapshot))"
    "distinct (map gx_physicalSignature (gi_indexes snapshot))" "distinct (map ga_attemptId (gi_attempts snapshot))"
    "distinct (map gu_sessionId (gi_orphanUploads snapshot))"
  using assms by (auto simp: validateSnapshot_def dest!: assertUnique_Inr)

lemma validatePolicy_week:
  assumes "validatePolicy policy = Inr u"
  shows "7 * GC_DAY_IN_MS \<le> generationRetentionMs s policy" "GC_DAY_IN_MS \<le> attemptStagingMs policy" "GC_DAY_IN_MS \<le> orphanUploadMs policy"
proof -
  from assms have "7 * GC_DAY_IN_MS \<le> successfulGenerationMs policy" "7 * GC_DAY_IN_MS \<le> failedGenerationMs policy"
      "7 * GC_DAY_IN_MS \<le> stagingGenerationMs policy" "GC_DAY_IN_MS \<le> attemptStagingMs policy" "GC_DAY_IN_MS \<le> orphanUploadMs policy"
    by (auto simp: validatePolicy_def)
  then show "7 * GC_DAY_IN_MS \<le> generationRetentionMs s policy" "GC_DAY_IN_MS \<le> attemptStagingMs policy" "GC_DAY_IN_MS \<le> orphanUploadMs policy"
    by (cases s, simp_all)
qed

subsection \<open>Complete inventories\<close>

definition capability_scanned :: "GcInventorySnapshot \<Rightarrow> GcRootCapability \<Rightarrow> bool" where
  "capability_scanned snapshot capability \<longleftrightarrow> (\<exists>s\<in>set (gi_providerScans snapshot). gs_capabilityKey s = gp_capabilityKey capability
     \<and> (case gp_state capability of
          Cap_INACTIVE \<Rightarrow> gs_status s = Scan_INACTIVE
        | Cap_ACTIVE \<Rightarrow> gs_status s = Scan_COMPLETE \<and> gs_providerVersion s = Some (gp_expectedVersion capability)
            \<and> gs_rootDigest s \<noteq> None \<and> 0 \<le> gs_rootCount s))"

definition complete_inventory :: "GcInventorySnapshot \<Rightarrow> bool" where
  "complete_inventory snapshot \<longleftrightarrow> gi_measurementComplete snapshot \<and> gi_classificationComplete snapshot
     \<and> gi_indexInventoryComplete snapshot
     \<and> (\<forall>capability\<in>set (gi_capabilities snapshot). capability_scanned snapshot capability)
     \<and> (\<forall>g\<in>set (gi_generations snapshot). (gg_state g = Gen_COLLECTED \<or> gg_measuredBytes g \<noteq> None)
         \<and> set (gg_indexSignatures g) \<subseteq> gx_physicalSignature ` set (gi_indexes snapshot))
     \<and> (\<forall>(k, bytes)\<in>set (measuredItems snapshot). bytes \<noteq> None)
     \<and> (\<forall>x\<in>set (gi_indexes snapshot). gx_state x = Index_RETIRED \<or> gx_observedBytes x \<noteq> None)"

lemma find_distinct:
  assumes "distinct (map f xs)"
  shows "find (\<lambda>x. f x = k) xs = Some x \<longleftrightarrow> x \<in> set xs \<and> f x = k"
  using assms by (induction xs) auto

lemma capabilityReasons_Nil:
  assumes "distinct (map gs_capabilityKey (gi_providerScans snapshot))"
  shows "capabilityReasons snapshot capability = [] \<longleftrightarrow> capability_scanned snapshot capability"
proof (cases "find (\<lambda>s. gs_capabilityKey s = gp_capabilityKey capability) (gi_providerScans snapshot)")
  case None
  have "capabilityReasons snapshot capability \<noteq> []"
    by (cases "gp_state capability") (simp_all add: capabilityReasons_def Let_def None)
  moreover have "\<not> capability_scanned snapshot capability"
    using None by (auto simp: capability_scanned_def find_None_iff)
  ultimately show ?thesis by simp
next
  case (Some s)
  then have only: "s' = s" if "s' \<in> set (gi_providerScans snapshot)" "gs_capabilityKey s' = gp_capabilityKey capability" for s'
    using that find_distinct [OF assms, of "gp_capabilityKey capability"] by (metis option.inject)
  have s: "s \<in> set (gi_providerScans snapshot)" "gs_capabilityKey s = gp_capabilityKey capability"
    using Some find_distinct [OF assms] by auto
  have "capability_scanned snapshot capability \<longleftrightarrow> (case gp_state capability of
          Cap_INACTIVE \<Rightarrow> gs_status s = Scan_INACTIVE
        | Cap_ACTIVE \<Rightarrow> gs_status s = Scan_COMPLETE \<and> gs_providerVersion s = Some (gp_expectedVersion capability)
            \<and> gs_rootDigest s \<noteq> None \<and> 0 \<le> gs_rootCount s)"
    unfolding capability_scanned_def using s only by blast
  then show ?thesis
    using Some by (cases "gp_state capability"; cases "gs_status s") (auto simp: capabilityReasons_def Let_def)
qed

lemma concat_map_Nil: "concat (map f xs) = [] \<longleftrightarrow> (\<forall>x\<in>set xs. f x = [])"
  by simp

lemma completenessViolations_Nil:
  assumes "validateSnapshot snapshot = Inr u"
  shows "completenessViolations snapshot = [] \<longleftrightarrow> complete_inventory snapshot"
proof -
  have generation: "generationReasons snapshot g = [] \<longleftrightarrow> (gg_state g = Gen_COLLECTED \<or> gg_measuredBytes g \<noteq> None)
      \<and> set (gg_indexSignatures g) \<subseteq> gx_physicalSignature ` set (gi_indexes snapshot)" for g
    by (auto simp: generationReasons_def)
  show ?thesis
    unfolding completenessViolations_def complete_inventory_def
    by (simp add: concat_map_Nil generation capabilityReasons_Nil [OF validateSnapshot_unique(1) [OF assms]]
        case_prod_unfold disj_commute del: concat_eq_Nil_conv cong: if_cong)
qed

subsection \<open>Generations\<close>

definition live_root :: "GcInventorySnapshot \<Rightarrow> GcGeneration \<Rightarrow> bool" where
  "live_root snapshot g \<longleftrightarrow> (\<exists>r\<in>set (gg_roots g). gr_expiresAt r = None \<or> (\<exists>t. gr_expiresAt r = Some t \<and> gi_observedAt snapshot < t))"

lemma activeRoots_Nil [simp]: "activeRoots lc snapshot g = [] \<longleftrightarrow> \<not> live_root snapshot g"
  by (auto simp: activeRoots_def live_root_def filter_empty_conv split: option.splits)

definition unrooted_active :: "GcInventorySnapshot \<Rightarrow> GcGeneration \<Rightarrow> bool" where
  "unrooted_active snapshot g \<longleftrightarrow> gg_state g = Gen_ACTIVE \<and> \<not> live_root snapshot g"

definition collectable_generation :: "(jsstring \<Rightarrow> jsstring \<Rightarrow> int) \<Rightarrow> GcRetentionPolicy \<Rightarrow> GcInventorySnapshot \<Rightarrow> GcGeneration \<Rightarrow> bool" where
  "collectable_generation lc policy snapshot g \<longleftrightarrow> gg_state g \<noteq> Gen_COLLECTED \<and> \<not> live_root snapshot g
     \<and> gg_generationId g \<notin> set (deriveRecentSuccessfulGenerationIds lc (gi_generations snapshot))
     \<and> generationRetentionMs (gg_state g) policy \<le> gi_observedAt snapshot - graceAnchor g"

definition generation_entry :: "(jsstring \<Rightarrow> jsstring \<Rightarrow> int) \<Rightarrow> GcRetentionPolicy \<Rightarrow> GcInventorySnapshot \<Rightarrow> GcGeneration \<Rightarrow> GcPlanEntry" where
  "generation_entry lc policy snapshot g = (let roots = activeRoots lc snapshot g;
       reasons = retentionReasons policy snapshot (deriveRecentSuccessfulGenerationIds lc (gi_generations snapshot)) g in
     gc_entry GENERATION (gg_generationId g)
       (if live_root snapshot g then PROTECTED else if collectable_generation lc policy snapshot g then CANDIDATE else RETAINED)
       (if live_root snapshot g then map (root_kind_text \<circ> gr_kind) roots
        else if collectable_generation lc policy snapshot g then [candidateReason (gg_state g)] else reasons)
       (the (gg_measuredBytes g)) (gg_indexSignatures g))"

abbreviation (input) measured :: "GcGeneration \<Rightarrow> bool" where
  "measured g \<equiv> gg_state g = Gen_COLLECTED \<or> gg_measuredBytes g \<noteq> None"

lemma generationLoop_blocked:
  assumes "\<forall>g\<in>set gs. measured g" "\<exists>g\<in>set gs. unrooted_active snapshot g"
  shows "\<exists>reasons. generationLoop lc policy snapshot recent gs es cs = Inr (Inl reasons) \<and> reasons \<noteq> []"
  using assms
proof (induction gs arbitrary: es cs)
  case (Cons g gs)
  show ?case
  proof (cases "unrooted_active snapshot g")
    case True
    then show ?thesis by (simp add: unrooted_active_def)
  next
    case False
    then have later: "\<exists>reasons. generationLoop lc policy snapshot recent gs es cs = Inr (Inl reasons) \<and> reasons \<noteq> []" for es cs
      using Cons by auto
    show ?thesis
    proof (cases "gg_state g = Gen_COLLECTED")
      case True
      then show ?thesis by (simp add: later)
    next
      case measured: False
      then obtain b where "gg_measuredBytes g = Some b" using Cons.prems by auto
      then show ?thesis using measured False by (simp add: Let_def later unrooted_active_def)
    qed
  qed
qed simp

lemma retentionReasons_Nil: "retentionReasons policy snapshot recent g = [] \<longleftrightarrow> gg_generationId g \<notin> set recent
    \<and> generationRetentionMs (gg_state g) policy \<le> gi_observedAt snapshot - graceAnchor g"
  by (auto simp: retentionReasons_def)

lemma generationLoop_ready:
  assumes "\<forall>g\<in>set gs. measured g" "\<not> (\<exists>g\<in>set gs. unrooted_active snapshot g)"
  shows "generationLoop lc policy snapshot (deriveRecentSuccessfulGenerationIds lc (gi_generations snapshot)) gs es cs =
      Inr (Inr (es @ map (generation_entry lc policy snapshot) (filter (\<lambda>g. gg_state g \<noteq> Gen_COLLECTED) gs),
        cs @ map gg_generationId (filter (collectable_generation lc policy snapshot) gs)))"
  using assms
proof (induction gs arbitrary: es cs)
  case (Cons g gs)
  let ?recent = "deriveRecentSuccessfulGenerationIds lc (gi_generations snapshot)"
  let ?reasons = "retentionReasons policy snapshot ?recent g"
  consider (collected) "gg_state g = Gen_COLLECTED"
    | (rooted) b where "gg_state g \<noteq> Gen_COLLECTED" "gg_measuredBytes g = Some b" "live_root snapshot g"
    | (other) b where "gg_state g \<noteq> Gen_COLLECTED" "gg_measuredBytes g = Some b" "\<not> live_root snapshot g" "gg_state g \<noteq> Gen_ACTIVE"
    using Cons.prems by (auto simp: unrooted_active_def)
  then show ?case
  proof cases
    case collected
    then show ?thesis using Cons by (simp add: collectable_generation_def)
  next
    case rooted
    then show ?thesis using Cons by (simp add: collectable_generation_def generation_entry_def Let_def)
  next
    case other
    then have "collectable_generation lc policy snapshot g \<longleftrightarrow> ?reasons = []"
      by (simp add: collectable_generation_def retentionReasons_Nil)
    then show ?thesis using Cons other by (simp add: generation_entry_def Let_def)
  qed
qed simp

subsection \<open>The analysis\<close>

definition candidate_ids :: "(jsstring \<Rightarrow> jsstring \<Rightarrow> int) \<Rightarrow> GcRetentionPolicy \<Rightarrow> GcInventorySnapshot \<Rightarrow> jsstring list" where
  "candidate_ids lc policy snapshot = map gg_generationId (filter (collectable_generation lc policy snapshot) (gi_generations snapshot))"

definition planned_entries :: "(jsstring \<Rightarrow> jsstring \<Rightarrow> int) \<Rightarrow> GcRetentionPolicy \<Rightarrow> GcInventorySnapshot \<Rightarrow> GcPlanEntry list" where
  "planned_entries lc policy snapshot = (let cs = candidate_ids lc policy snapshot in
     map (generation_entry lc policy snapshot) (filter (\<lambda>g. gg_state g \<noteq> Gen_COLLECTED) (gi_generations snapshot))
     @ map (projr \<circ> headSetEntry snapshot cs) (filter (\<lambda>h. gh_state h \<noteq> Heads_COLLECTED) (gi_headSets snapshot))
     @ map (projr \<circ> attemptEntry policy snapshot cs) (gi_attempts snapshot)
     @ map (projr \<circ> uploadEntry policy snapshot) (filter (\<lambda>u. gu_state u \<noteq> Up_CLEANED) (gi_orphanUploads snapshot))
     @ map (projr \<circ> indexEntry snapshot cs) (filter (\<lambda>x. gx_state x \<noteq> Index_RETIRED) (gi_indexes snapshot)))"

lemma mapM_projr:
  assumes "\<And>x. x \<in> set xs \<Longrightarrow> \<exists>y. f x = Inr y"
  shows "mapM f xs = Inr (map (projr \<circ> f) xs)"
  using assms by (intro mapM_Inr) fastforce

lemma measured_entries:
  "gh_measuredBytes h \<noteq> None \<Longrightarrow> \<exists>e. headSetEntry snapshot cs h = Inr e"
  "ga_measuredBytes a \<noteq> None \<Longrightarrow> \<exists>e. attemptEntry policy snapshot cs a = Inr e"
  "gu_measuredBytes u \<noteq> None \<Longrightarrow> \<exists>e. uploadEntry policy snapshot u = Inr e"
  "gx_observedBytes x \<noteq> None \<Longrightarrow> \<exists>e. indexEntry snapshot cs x = Inr e"
  by (auto simp: headSetEntry_def attemptEntry_def uploadEntry_def indexEntry_def Let_def)

lemma complete_measured:
  assumes "complete_inventory snapshot"
  shows "g \<in> set (gi_generations snapshot) \<Longrightarrow> measured g"
    "h \<in> set (gi_headSets snapshot) \<Longrightarrow> gh_measuredBytes h \<noteq> None"
    "a \<in> set (gi_attempts snapshot) \<Longrightarrow> ga_measuredBytes a \<noteq> None"
    "u \<in> set (gi_orphanUploads snapshot) \<Longrightarrow> gu_measuredBytes u \<noteq> None"
    "x \<in> set (gi_indexes snapshot) \<Longrightarrow> gx_state x = Index_RETIRED \<or> gx_observedBytes x \<noteq> None"
  using assms unfolding complete_inventory_def measuredItems_def by (simp_all add: ball_Un)

lemma analysis_blocked:
  assumes "validatePolicy policy = Inr ()" "validateSnapshot snapshot = Inr ()"
    and "\<not> complete_inventory snapshot \<or> (\<exists>g\<in>set (gi_generations snapshot). unrooted_active snapshot g)"
  shows "\<exists>reasons. reasons \<noteq> [] \<and> analyzeGarbageCollectionInventory lc snapshot policy = Inr (blockedAnalysis snapshot reasons)"
proof (cases "complete_inventory snapshot")
  case False
  then show ?thesis
    using assms completenessViolations_Nil [OF assms(2)] by (auto simp: analyzeGarbageCollectionInventory_def)
next
  case True
  then obtain reasons where "reasons \<noteq> []"
      "generationLoop lc policy snapshot (deriveRecentSuccessfulGenerationIds lc (gi_generations snapshot)) (gi_generations snapshot) [] []
        = Inr (Inl reasons)"
    using generationLoop_blocked [of "gi_generations snapshot"] complete_measured(1) assms(3) by metis
  then show ?thesis
    using True assms(1,2) completenessViolations_Nil [OF assms(2)] by (auto simp: analyzeGarbageCollectionInventory_def)
qed

lemma analysis_ready:
  assumes "validatePolicy policy = Inr ()" "validateSnapshot snapshot = Inr ()"
    and complete: "complete_inventory snapshot" and "\<not> (\<exists>g\<in>set (gi_generations snapshot). unrooted_active snapshot g)"
  shows "analyzeGarbageCollectionInventory lc snapshot policy = Inr (readyAnalysis lc snapshot (planned_entries lc policy snapshot))"
proof -
  note complete_measured [OF complete]
  have loop: "generationLoop lc policy snapshot (deriveRecentSuccessfulGenerationIds lc (gi_generations snapshot)) (gi_generations snapshot) [] []
      = Inr (Inr (map (generation_entry lc policy snapshot) (filter (\<lambda>g. gg_state g \<noteq> Gen_COLLECTED) (gi_generations snapshot)),
          candidate_ids lc policy snapshot))"
    using generationLoop_ready [of "gi_generations snapshot" snapshot lc policy "[]" "[]"] complete_measured(1) [OF complete] assms(4)
    by (simp add: candidate_ids_def)
  have heads: "mapM (headSetEntry snapshot cs) (filter (\<lambda>h. gh_state h \<noteq> Heads_COLLECTED) (gi_headSets snapshot))
      = Inr (map (projr \<circ> headSetEntry snapshot cs) (filter (\<lambda>h. gh_state h \<noteq> Heads_COLLECTED) (gi_headSets snapshot)))" for cs
    by (rule mapM_projr, rule measured_entries) (simp add: complete_measured(2) [OF complete] del: not_None_eq)
  have attempts: "mapM (attemptEntry policy snapshot cs) (gi_attempts snapshot)
      = Inr (map (projr \<circ> attemptEntry policy snapshot cs) (gi_attempts snapshot))" for cs
    by (rule mapM_projr, rule measured_entries) (simp add: complete_measured(3) [OF complete] del: not_None_eq)
  have uploads: "mapM (uploadEntry policy snapshot) (filter (\<lambda>u. gu_state u \<noteq> Up_CLEANED) (gi_orphanUploads snapshot))
      = Inr (map (projr \<circ> uploadEntry policy snapshot) (filter (\<lambda>u. gu_state u \<noteq> Up_CLEANED) (gi_orphanUploads snapshot)))"
    by (rule mapM_projr, rule measured_entries) (simp add: complete_measured(4) [OF complete] del: not_None_eq)
  have indexes: "mapM (indexEntry snapshot cs) (filter (\<lambda>x. gx_state x \<noteq> Index_RETIRED) (gi_indexes snapshot))
      = Inr (map (projr \<circ> indexEntry snapshot cs) (filter (\<lambda>x. gx_state x \<noteq> Index_RETIRED) (gi_indexes snapshot)))" for cs
    by (rule mapM_projr, rule measured_entries) (use complete_measured(5) [OF complete] in auto)
  show ?thesis
    using assms completenessViolations_Nil [OF assms(2)]
    by (simp add: analyzeGarbageCollectionInventory_def loop heads attempts uploads indexes planned_entries_def Let_def)
qed

lemma analysis_Inr:
  assumes "analyzeGarbageCollectionInventory lc snapshot policy = Inr plan"
  shows "validatePolicy policy = Inr ()" "validateSnapshot snapshot = Inr ()"
  using assms by (auto simp: analyzeGarbageCollectionInventory_def)

lemma analysis_ready_status:
  assumes "analyzeGarbageCollectionInventory lc snapshot policy = Inr plan" "gn_status plan = Plan_READY"
  shows "complete_inventory snapshot" "\<not> (\<exists>g\<in>set (gi_generations snapshot). unrooted_active snapshot g)"
    "plan = readyAnalysis lc snapshot (planned_entries lc policy snapshot)"
proof -
  note valid = analysis_Inr [OF assms(1)]
  have "complete_inventory snapshot \<and> \<not> (\<exists>g\<in>set (gi_generations snapshot). unrooted_active snapshot g)"
  proof (rule ccontr)
    assume "\<not> ?thesis"
    then obtain reasons where "analyzeGarbageCollectionInventory lc snapshot policy = Inr (blockedAnalysis snapshot reasons)"
      using analysis_blocked [OF valid] by blast
    then show False using assms by (simp add: blockedAnalysis_def)
  qed
  then show *: "complete_inventory snapshot" "\<not> (\<exists>g\<in>set (gi_generations snapshot). unrooted_active snapshot g)" by auto
  show "plan = readyAnalysis lc snapshot (planned_entries lc policy snapshot)"
    using analysis_ready [OF valid *] assms(1) by simp
qed

lemma analysis_candidates:
  assumes "analyzeGarbageCollectionInventory lc snapshot policy = Inr plan" "e \<in> set (gn_candidates plan)"
  shows "complete_inventory snapshot" "\<not> (\<exists>g\<in>set (gi_generations snapshot). unrooted_active snapshot g)"
    "plan = readyAnalysis lc snapshot (planned_entries lc policy snapshot)"
proof -
  have "gn_status plan = Plan_READY"
  proof (rule ccontr)
    assume blocked: "gn_status plan \<noteq> Plan_READY"
    note valid = analysis_Inr [OF assms(1)]
    have "plan \<noteq> readyAnalysis lc snapshot (planned_entries lc policy snapshot)"
      using blocked by (auto simp: readyAnalysis_def Let_def)
    then obtain reasons where "plan = blockedAnalysis snapshot reasons"
      using analysis_ready [OF valid, of lc] analysis_blocked [OF valid, of lc] assms(1) by fastforce
    then show False using assms(2) by (simp add: blockedAnalysis_def)
  qed
  note analysis_ready_status [OF assms(1) this]
  then show "complete_inventory snapshot" "\<not> (\<exists>g\<in>set (gi_generations snapshot). unrooted_active snapshot g)"
    "plan = readyAnalysis lc snapshot (planned_entries lc policy snapshot)" by auto
qed

subsection \<open>Entries\<close>

lemma ready_candidates [simp]:
  "e \<in> set (gn_candidates (readyAnalysis lc snapshot es)) \<longleftrightarrow> e \<in> set es \<and> ge_disposition e = CANDIDATE"
  by (simp add: readyAnalysis_def Let_def)

lemma gc_entry_simps [simp]:
  "ge_kind (gc_entry k key d r b i) = k" "ge_key (gc_entry k key d r b i) = key" "ge_disposition (gc_entry k key d r b i) = d"
  "ge_estimatedBytes (gc_entry k key d r b i) = b"
  by (simp_all add: gc_entry_def)

lemma generation_entry_simps [simp]:
  "ge_kind (generation_entry lc policy snapshot g) = GENERATION"
  "ge_key (generation_entry lc policy snapshot g) = gg_generationId g"
  "ge_disposition (generation_entry lc policy snapshot g) = CANDIDATE \<longleftrightarrow> collectable_generation lc policy snapshot g"
  "ge_estimatedBytes (generation_entry lc policy snapshot g) = the (gg_measuredBytes g)"
  by (auto simp: generation_entry_def Let_def collectable_generation_def)

lemma head_set_entry_simps:
  assumes "gh_measuredBytes h = Some b"
  shows "ge_kind (projr (headSetEntry snapshot cs h)) = HEAD_SET" "ge_key (projr (headSetEntry snapshot cs h)) = gh_headSetId h"
    "ge_estimatedBytes (projr (headSetEntry snapshot cs h)) = b"
    "ge_disposition (projr (headSetEntry snapshot cs h)) = CANDIDATE \<longleftrightarrow>
      gh_state h \<notin> {Heads_ACTIVE, Heads_BUILDING, Heads_PREPARED} \<and> allCollectable snapshot cs (gh_generationIds h)"
  using assms by (auto simp: headSetEntry_def Let_def)

lemma attempt_entry_simps:
  assumes "ga_measuredBytes a = Some b"
  shows "ge_kind (projr (attemptEntry policy snapshot cs a)) = ATTEMPT_STAGING" "ge_key (projr (attemptEntry policy snapshot cs a)) = ga_attemptId a"
    "ge_estimatedBytes (projr (attemptEntry policy snapshot cs a)) = b"
    "ge_disposition (projr (attemptEntry policy snapshot cs a)) = CANDIDATE \<longleftrightarrow> ga_state a = Attempt_TERMINAL
      \<and> allCollectable snapshot cs (ga_generationIds a)
      \<and> (\<exists>t. ga_finishedAt a = Some t \<and> attemptStagingMs policy \<le> gi_observedAt snapshot - t)"
  using assms by (cases "ga_state a"; auto simp: attemptEntry_def Let_def split: option.splits)+

lemma upload_entry_simps:
  assumes "gu_measuredBytes u = Some b"
  shows "ge_kind (projr (uploadEntry policy snapshot u)) = ORPHAN_UPLOAD" "ge_key (projr (uploadEntry policy snapshot u)) = gu_sessionId u"
    "ge_estimatedBytes (projr (uploadEntry policy snapshot u)) = b"
    "ge_disposition (projr (uploadEntry policy snapshot u)) = CANDIDATE \<longleftrightarrow> gu_state u \<in> {Up_FAILED, Up_EXPIRED}
      \<and> gu_exactVersionKnown u \<and> gu_cleanupAfter u \<le> gi_observedAt snapshot
      \<and> orphanUploadMs policy \<le> gi_observedAt snapshot - gu_orphanedAt u"
  using assms by (auto simp: uploadEntry_def Let_def)

lemma index_entry_simps:
  assumes "gx_observedBytes x = Some b"
  shows "ge_kind (projr (indexEntry snapshot cs x)) = INDEX" "ge_key (projr (indexEntry snapshot cs x)) = gx_physicalSignature x"
    "ge_estimatedBytes (projr (indexEntry snapshot cs x)) = b"
    "ge_disposition (projr (indexEntry snapshot cs x)) = CANDIDATE \<longleftrightarrow> gx_state x = Index_READY
      \<and> (\<forall>g\<in>set (gi_generations snapshot). gx_physicalSignature x \<in> set (gg_indexSignatures g)
          \<longrightarrow> gg_state g = Gen_COLLECTED \<or> gg_generationId g \<in> set cs)"
proof -
  have "gx_physicalSignature x \<in> set (nonCandidateGenerationSignatures snapshot cs) \<longleftrightarrow> \<not> (\<forall>g\<in>set (gi_generations snapshot).
      gx_physicalSignature x \<in> set (gg_indexSignatures g) \<longrightarrow> gg_state g = Gen_COLLECTED \<or> gg_generationId g \<in> set cs)"
    unfolding nonCandidateGenerationSignatures_def by auto
  then show "ge_disposition (projr (indexEntry snapshot cs x)) = CANDIDATE \<longleftrightarrow> gx_state x = Index_READY
      \<and> (\<forall>g\<in>set (gi_generations snapshot). gx_physicalSignature x \<in> set (gg_indexSignatures g)
          \<longrightarrow> gg_state g = Gen_COLLECTED \<or> gg_generationId g \<in> set cs)"
    using assms by (simp add: indexEntry_def Let_def)
qed (use assms in \<open>simp_all add: indexEntry_def Let_def\<close>)

lemma planned_cases:
  assumes "complete_inventory snapshot" "e \<in> set (planned_entries lc policy snapshot)"
  obtains (generation) g where "g \<in> set (gi_generations snapshot)" "gg_state g \<noteq> Gen_COLLECTED" "e = generation_entry lc policy snapshot g"
  | (head_set) h b where "h \<in> set (gi_headSets snapshot)" "gh_state h \<noteq> Heads_COLLECTED" "gh_measuredBytes h = Some b"
      "e = projr (headSetEntry snapshot (candidate_ids lc policy snapshot) h)"
  | (staging) a b where "a \<in> set (gi_attempts snapshot)" "ga_measuredBytes a = Some b"
      "e = projr (attemptEntry policy snapshot (candidate_ids lc policy snapshot) a)"
  | (upload) u b where "u \<in> set (gi_orphanUploads snapshot)" "gu_measuredBytes u = Some b" "e = projr (uploadEntry policy snapshot u)"
  | (index) x b where "x \<in> set (gi_indexes snapshot)" "gx_state x \<noteq> Index_RETIRED" "gx_observedBytes x = Some b"
      "e = projr (indexEntry snapshot (candidate_ids lc policy snapshot) x)"
proof -
  note measured = complete_measured [OF assms(1)]
  from assms(2) consider
      "e \<in> generation_entry lc policy snapshot ` {g \<in> set (gi_generations snapshot). gg_state g \<noteq> Gen_COLLECTED}"
    | "e \<in> (projr \<circ> headSetEntry snapshot (candidate_ids lc policy snapshot)) ` {h \<in> set (gi_headSets snapshot). gh_state h \<noteq> Heads_COLLECTED}"
    | "e \<in> (projr \<circ> attemptEntry policy snapshot (candidate_ids lc policy snapshot)) ` set (gi_attempts snapshot)"
    | "e \<in> (projr \<circ> uploadEntry policy snapshot) ` set (gi_orphanUploads snapshot)"
    | "e \<in> (projr \<circ> indexEntry snapshot (candidate_ids lc policy snapshot)) ` {x \<in> set (gi_indexes snapshot). gx_state x \<noteq> Index_RETIRED}"
    unfolding planned_entries_def Let_def by auto
  then show ?thesis
  proof cases
    case 1
    then obtain g where "e = generation_entry lc policy snapshot g" "g \<in> set (gi_generations snapshot)" "gg_state g \<noteq> Gen_COLLECTED"
      by auto
    then show ?thesis by (intro generation)
  next
    case 2
    then obtain h where h: "e = projr (headSetEntry snapshot (candidate_ids lc policy snapshot) h)" "h \<in> set (gi_headSets snapshot)"
        "gh_state h \<noteq> Heads_COLLECTED" by auto
    moreover obtain b where "gh_measuredBytes h = Some b" using measured(2) h(2) by blast
    ultimately show ?thesis by (intro head_set)
  next
    case 3
    then obtain a where a: "e = projr (attemptEntry policy snapshot (candidate_ids lc policy snapshot) a)" "a \<in> set (gi_attempts snapshot)"
      by auto
    moreover obtain b where "ga_measuredBytes a = Some b" using measured(3) a(2) by blast
    ultimately show ?thesis by (intro staging)
  next
    case 4
    then obtain u where u: "e = projr (uploadEntry policy snapshot u)" "u \<in> set (gi_orphanUploads snapshot)" by auto
    moreover obtain b where "gu_measuredBytes u = Some b" using measured(4) u(2) by blast
    ultimately show ?thesis by (intro upload)
  next
    case 5
    then obtain x where x: "e = projr (indexEntry snapshot (candidate_ids lc policy snapshot) x)" "x \<in> set (gi_indexes snapshot)"
        "gx_state x \<noteq> Index_RETIRED" by auto
    moreover obtain b where "gx_observedBytes x = Some b" using measured(5) x(2,3) by blast
    ultimately show ?thesis by (intro index)
  qed
qed

lemma planned_generations:
  assumes "g \<in> set (gi_generations snapshot)" "collectable_generation lc policy snapshot g"
  shows "generation_entry lc policy snapshot g \<in> set (planned_entries lc policy snapshot)"
  using assms by (simp add: planned_entries_def Let_def collectable_generation_def)

text \<open>A generation is gone after a plan when it was collected before or is a candidate of it.\<close>

definition gone :: "GcPlanAnalysis \<Rightarrow> GcGeneration \<Rightarrow> bool" where
  "gone plan g \<longleftrightarrow> gg_state g = Gen_COLLECTED
     \<or> (\<exists>c\<in>set (gn_candidates plan). ge_kind c = GENERATION \<and> ge_key c = gg_generationId g)"

text \<open>The ids of the candidates are the keys of the candidate entries of generations.\<close>

lemma candidate_gone:
  assumes "analyzeGarbageCollectionInventory lc snapshot policy = Inr plan" "e \<in> set (gn_candidates plan)"
    and "k \<in> set (candidate_ids lc policy snapshot)"
  shows "\<exists>c\<in>set (gn_candidates plan). ge_kind c = GENERATION \<and> ge_key c = k"
proof -
  from assms(3) obtain g where "g \<in> set (gi_generations snapshot)" "collectable_generation lc policy snapshot g" "k = gg_generationId g"
    by (auto simp: candidate_ids_def)
  then show ?thesis
    using analysis_candidates(3) [OF assms(1,2)] planned_generations
    by (intro bexI [of _ "generation_entry lc policy snapshot g"]) auto
qed

lemma collectable_gone:
  assumes "analyzeGarbageCollectionInventory lc snapshot policy = Inr plan" "e \<in> set (gn_candidates plan)"
    and "allCollectable snapshot (candidate_ids lc policy snapshot) ks" "k \<in> set ks"
  shows "\<exists>g\<in>set (gi_generations snapshot). gg_generationId g = k \<and> gone plan g"
proof (cases "k \<in> set (candidate_ids lc policy snapshot)")
  case True
  then obtain g where "g \<in> set (gi_generations snapshot)" "k = gg_generationId g" by (auto simp: candidate_ids_def)
  then show ?thesis using candidate_gone [OF assms(1,2) True] by (auto simp: gone_def)
next
  case False
  then obtain g where "map_of (map (\<lambda>g. (gg_generationId g, g)) (gi_generations snapshot)) k = Some g" "gg_state g = Gen_COLLECTED"
    using assms(3,4) by (auto simp: allCollectable_def list_all_iff)
  then show ?thesis by (auto simp: gone_def dest!: map_of_SomeD)
qed

subsection \<open>The newest successes of a member\<close>

abbreviation (input) success :: "GcGeneration \<Rightarrow> bool" where
  "success g \<equiv> gg_state g = Gen_READY \<or> gg_state g = Gen_RETIRED"

lemma newestSuccess_comparator:
  assumes "js_comparator lc"
  shows "js_comparator (newestSuccess lc)"
proof
  fix x y z
  show "sgn (newestSuccess lc x y) = - sgn (newestSuccess lc y x)"
    using js_comparator.cmp_anti [OF assms, of "gg_generationId x" "gg_generationId y"]
    by (auto simp: newestSuccess_def or_else_def sgn_if split: if_splits)
  assume "newestSuccess lc x y \<le> 0" "newestSuccess lc y z \<le> 0"
  then show "newestSuccess lc x z \<le> 0"
    using js_comparator.cmp_trans [OF assms, of "gg_generationId x" "gg_generationId y" "gg_generationId z"]
    by (auto simp: newestSuccess_def or_else_def split: if_splits)
qed

lemma newestSuccess_changedAt: "newestSuccess lc a g \<le> 0 \<Longrightarrow> gg_changedAt g \<le> gg_changedAt a"
  by (auto simp: newestSuccess_def or_else_def split: if_splits)

lemma two_newer_successes:
  assumes lc: "js_comparator lc" and ids: "distinct (map gg_generationId gs)"
    and g: "g \<in> set gs" "success g" and old: "gg_generationId g \<notin> set (deriveRecentSuccessfulGenerationIds lc gs)"
  shows "\<exists>a\<in>set gs. \<exists>b\<in>set gs. distinct (map gg_generationId [a, b, g])
    \<and> (\<forall>c\<in>{a, b}. success c \<and> gg_memberKey c = gg_memberKey g \<and> gg_changedAt g \<le> gg_changedAt c)"
proof -
  define S where "S = js_sort (newestSuccess lc) (filter (\<lambda>c. gg_memberKey c = gg_memberKey g) (successfulGenerations gs))"
  have S: "set S = {c \<in> set gs. success c \<and> gg_memberKey c = gg_memberKey g}"
    by (auto simp: S_def successfulGenerations_def)
  have "distinct gs" using ids by (simp add: distinct_map)
  then have "distinct S" by (simp add: S_def successfulGenerations_def)
  have "g \<in> set S" using g S by simp
  moreover have "g \<notin> set (take 2 S)"
  proof
    assume "g \<in> set (take 2 S)"
    then have "gg_generationId g \<in> set (recentOfMember lc gs (gg_memberKey g))"
      by (simp add: recentOfMember_def S_def)
    then show False
      using old g by (auto simp: deriveRecentSuccessfulGenerationIds_def successfulGenerations_def)
  qed
  ultimately obtain a b rest where rest: "S = a # b # rest" "g \<in> set rest"
    by (cases S; cases "tl S") auto
  have "sorted_wrt (\<lambda>x y. newestSuccess lc x y \<le> 0) S"
    unfolding S_def by (rule js_comparator.in_order_sort [OF newestSuccess_comparator [OF lc]])
  with rest have "newestSuccess lc a g \<le> 0" "newestSuccess lc b g \<le> 0" by auto
  then have "gg_changedAt g \<le> gg_changedAt a" "gg_changedAt g \<le> gg_changedAt b" by (auto intro: newestSuccess_changedAt)
  moreover have in_gs: "a \<in> set gs" "b \<in> set gs" using rest S by auto
  moreover have "distinct (map gg_generationId [a, b, g])"
    using \<open>distinct S\<close> rest in_gs g(1) ids by (auto simp: distinct_map inj_on_def)
  ultimately show ?thesis using rest S by (intro bexI [of _ a] bexI [of _ b]) auto
qed

subsection \<open>Sorting\<close>

lemma mset_js_insort [simp]: "mset (js_insort cmp x xs) = add_mset x (mset xs)"
  by (induction xs) auto

lemma mset_js_sort [simp]: "mset (js_sort cmp xs) = mset xs"
  by (induction xs) (auto simp: js_sort_Cons)

subsection \<open>Accounting\<close>

text \<open>What a plan is to account for: every item of the inventory that is not yet collected, with its bytes.\<close>

definition inventory_items :: "GcInventorySnapshot \<Rightarrow> (GcEntryKind \<times> jsstring \<times> int option) list" where
  "inventory_items snapshot =
     map (\<lambda>g. (GENERATION, gg_generationId g, gg_measuredBytes g)) (filter (\<lambda>g. gg_state g \<noteq> Gen_COLLECTED) (gi_generations snapshot))
     @ map (\<lambda>h. (HEAD_SET, gh_headSetId h, gh_measuredBytes h)) (filter (\<lambda>h. gh_state h \<noteq> Heads_COLLECTED) (gi_headSets snapshot))
     @ map (\<lambda>a. (ATTEMPT_STAGING, ga_attemptId a, ga_measuredBytes a)) (gi_attempts snapshot)
     @ map (\<lambda>u. (ORPHAN_UPLOAD, gu_sessionId u, gu_measuredBytes u)) (filter (\<lambda>u. gu_state u \<noteq> Up_CLEANED) (gi_orphanUploads snapshot))
     @ map (\<lambda>x. (INDEX, gx_physicalSignature x, gx_observedBytes x)) (filter (\<lambda>x. gx_state x \<noteq> Index_RETIRED) (gi_indexes snapshot))"

abbreviation entry_item :: "GcPlanEntry \<Rightarrow> GcEntryKind \<times> jsstring \<times> int option" where
  "entry_item e \<equiv> (ge_kind e, ge_key e, Some (ge_estimatedBytes e))"

lemma planned_items:
  assumes "complete_inventory snapshot"
  shows "map entry_item (planned_entries lc policy snapshot) = inventory_items snapshot"
proof -
  note measured = complete_measured [OF assms]
  have "entry_item (generation_entry lc policy snapshot g) = (GENERATION, gg_generationId g, gg_measuredBytes g)"
    if "g \<in> set (gi_generations snapshot)" "gg_state g \<noteq> Gen_COLLECTED" for g
    using measured(1) [OF that(1)] that(2) by auto
  moreover have "entry_item (projr (headSetEntry snapshot cs h)) = (HEAD_SET, gh_headSetId h, gh_measuredBytes h)"
    if "h \<in> set (gi_headSets snapshot)" for cs h
    using measured(2) [OF that] by (auto simp: head_set_entry_simps)
  moreover have "entry_item (projr (attemptEntry policy snapshot cs a)) = (ATTEMPT_STAGING, ga_attemptId a, ga_measuredBytes a)"
    if "a \<in> set (gi_attempts snapshot)" for cs a
    using measured(3) [OF that] by (auto simp: attempt_entry_simps)
  moreover have "entry_item (projr (uploadEntry policy snapshot u)) = (ORPHAN_UPLOAD, gu_sessionId u, gu_measuredBytes u)"
    if "u \<in> set (gi_orphanUploads snapshot)" for u
    using measured(4) [OF that] by (auto simp: upload_entry_simps)
  moreover have "entry_item (projr (indexEntry snapshot cs x)) = (INDEX, gx_physicalSignature x, gx_observedBytes x)"
    if "x \<in> set (gi_indexes snapshot)" "gx_state x \<noteq> Index_RETIRED" for cs x
    using measured(5) [OF that(1)] that by (auto simp: index_entry_simps)
  ultimately show ?thesis
    unfolding planned_entries_def inventory_items_def Let_def map_append list.map_comp o_def
    by (intro arg_cong2 [of _ _ _ _ "(@)"] map_cong refl) auto
qed

lemma distinct_inventory_items:
  assumes "validateSnapshot snapshot = Inr u"
  shows "distinct (map (\<lambda>(kind, key, bytes). (kind, key)) (inventory_items snapshot))"
  using validateSnapshot_unique [OF assms]
  by (auto simp: inventory_items_def distinct_map inj_on_def)

lemma mset_dispositions: "mset (filter (\<lambda>e. ge_disposition e = CANDIDATE) es) + mset (filter (\<lambda>e. ge_disposition e = RETAINED) es)
    + mset (filter (\<lambda>e. ge_disposition e = PROTECTED) es) = mset es"
proof (induction es)
  case (Cons e es)
  then show ?case by (cases "ge_disposition e") auto
qed simp

lemma foldl_sum: "foldl (\<lambda>sum item. sum + f item) (s :: int) xs = s + sum_list (map f xs)"
  by (induction xs arbitrary: s) auto

subsection \<open>What the checks accept\<close>

definition valid_retention :: "GcRetentionPolicy \<Rightarrow> bool" where
  "valid_retention policy \<longleftrightarrow> list_all isSafeInteger [successfulGenerationMs policy, failedGenerationMs policy,
       stagingGenerationMs policy, attemptStagingMs policy, orphanUploadMs policy]
     \<and> list_all (\<lambda>v. 7 * GC_DAY_IN_MS \<le> v) [successfulGenerationMs policy, failedGenerationMs policy, stagingGenerationMs policy]
     \<and> list_all (\<lambda>v. GC_DAY_IN_MS \<le> v) [attemptStagingMs policy, orphanUploadMs policy]"

definition distinct_names :: "jsstring list \<Rightarrow> bool" where
  "distinct_names ks \<longleftrightarrow> distinct ks \<and> list_all (\<lambda>k. js_trim k \<noteq> []) ks"

definition valid_generation :: "GcGeneration \<Rightarrow> bool" where
  "valid_generation g \<longleftrightarrow> js_trim (gg_memberKey g) \<noteq> [] \<and> safeInstant (gg_createdAt g) \<and> safeInstant (gg_changedAt g)
     \<and> gg_createdAt g \<le> gg_changedAt g
     \<and> (case gg_leftServingAt g of None \<Rightarrow> True | Some t \<Rightarrow> safeInstant t \<and> gg_createdAt g \<le> t)
     \<and> (case gg_measuredBytes g of None \<Rightarrow> True | Some b \<Rightarrow> 0 \<le> b)
     \<and> distinct_names (gg_indexSignatures g) \<and> distinct_names (map root_key (gg_roots g))"

definition valid_inventory :: "GcInventorySnapshot \<Rightarrow> bool" where
  "valid_inventory snapshot \<longleftrightarrow> js_trim (gi_projectId snapshot) \<noteq> [] \<and> safeInstant (gi_observedAt snapshot)
     \<and> 1 \<le> gi_stateRevision snapshot \<and> 1 \<le> gi_inventoryRevision snapshot \<and> js_trim (gi_providerRegistryDigest snapshot) \<noteq> []
     \<and> list_all distinct_names [map gp_capabilityKey (gi_capabilities snapshot), map gs_capabilityKey (gi_providerScans snapshot),
         map gg_generationId (gi_generations snapshot), map gh_headSetId (gi_headSets snapshot),
         map gx_physicalSignature (gi_indexes snapshot), map ga_attemptId (gi_attempts snapshot),
         map gu_sessionId (gi_orphanUploads snapshot)]
     \<and> list_all valid_generation (gi_generations snapshot)"

lemma assertUnique_eq: "assertUnique xs = Inr () \<longleftrightarrow> distinct_names xs"
  by (auto simp: assertUnique_def distinct_names_def length_remdups_eq list_all_iff list_ex_iff)

lemma validatePolicy_eq: "validatePolicy policy = Inr () \<longleftrightarrow> valid_retention policy"
  by (auto simp: validatePolicy_def valid_retention_def GC_DAY_IN_MS_def)

lemma validateGeneration_eq: "validateGeneration g = Inr () \<longleftrightarrow> valid_generation g"
  by (auto simp: validateGeneration_def valid_generation_def assertUnique_eq split: option.splits)

lemma mapM_unit: "(\<exists>us. mapM (f :: 'a \<Rightarrow> (GcError, unit) result) xs = Inr us) \<longleftrightarrow> list_all (\<lambda>x. f x = Inr ()) xs"
  by (induction xs) auto

lemma validateSnapshot_eq: "validateSnapshot snapshot = Inr () \<longleftrightarrow> valid_inventory snapshot"
  by (auto simp: validateSnapshot_def valid_inventory_def assertUnique_eq mapM_unit validateGeneration_eq safeInstant_def)

lemma analysis_invalid:
  assumes "\<not> (valid_retention policy \<and> valid_inventory snapshot)"
  shows "analyzeGarbageCollectionInventory lc snapshot policy = Inl GarbageCollectionInventoryError"
proof (cases "validatePolicy policy")
  case (Inr u)
  then have "validateSnapshot snapshot \<noteq> Inr ()" using assms by (simp add: validatePolicy_eq validateSnapshot_eq)
  then obtain e where "validateSnapshot snapshot = Inl e" by (cases "validateSnapshot snapshot") auto
  then show ?thesis using Inr by (simp add: analyzeGarbageCollectionInventory_def gc_error_eq)
qed (simp add: analyzeGarbageCollectionInventory_def gc_error_eq)

end
