(* ===== verification/CollectionPlanProperties.thy ===== *)
theory CollectionPlanProperties
  imports CollectionPlanFacts
begin

text \<open>
  The properties of the planner of garbage collection: when it plans and when it blocks, what it
  promises of the generations it lets go of, that a plan leaves no reference open, and that its
  entries account for the inventory.
\<close>

subsection \<open>An inventory\<close>

text \<open>
  Four generations of one member: one in service, two recent successes and an old one, which an old
  head set, an attempt that has ended and an index of its own go with.
\<close>

definition example_generation :: "string \<Rightarrow> GcGenerationState \<Rightarrow> int \<Rightarrow> string \<Rightarrow> GcRoot list \<Rightarrow> GcGeneration" where
  "example_generation k state day signature roots = \<lparr>gg_generationId = js k, gg_memberKey = js ''customer'', gg_state = state,
     gg_createdAt = 0, gg_changedAt = day * GC_DAY_IN_MS, gg_leftServingAt = None, gg_measuredBytes = Some 100,
     gg_indexSignatures = [js signature], gg_roots = roots\<rparr>"

definition example_inventory :: GcInventorySnapshot where
  "example_inventory = \<lparr>gi_projectId = js ''p'', gi_observedAt = 30 * GC_DAY_IN_MS, gi_stateRevision = 1, gi_inventoryRevision = 1,
     gi_measurementComplete = True, gi_classificationComplete = True, gi_indexInventoryComplete = True,
     gi_providerRegistryDigest = js ''d'',
     gi_capabilities = [\<lparr>gp_capabilityKey = js ''serving'', gp_state = Cap_ACTIVE, gp_expectedVersion = js ''1''\<rparr>],
     gi_providerScans = [\<lparr>gs_capabilityKey = js ''serving'', gs_status = Scan_COMPLETE, gs_providerVersion = Some (js ''1''),
        gs_rootCount = 1, gs_rootDigest = Some (js ''r'')\<rparr>],
     gi_generations = [example_generation ''g1'' Gen_READY 1 ''old'' [],
        example_generation ''g2'' Gen_READY 2 ''shared'' [],
        example_generation ''g3'' Gen_READY 3 ''shared'' [],
        example_generation ''g4'' Gen_ACTIVE 4 ''shared''
          [\<lparr>gr_kind = SERVING_HEAD, gr_rootId = js ''h'', gr_capabilityKey = js ''serving'', gr_expiresAt = None\<rparr>]],
     gi_headSets = [\<lparr>gh_headSetId = js ''hs1'', gh_state = Heads_RETIRED, gh_createdAt = 0, gh_measuredBytes = Some 10,
        gh_generationIds = [js ''g1'']\<rparr>],
     gi_indexes = [\<lparr>gx_physicalSignature = js ''old'', gx_indexName = js ''ix1'', gx_state = Index_READY, gx_observedBytes = Some 7\<rparr>,
        \<lparr>gx_physicalSignature = js ''shared'', gx_indexName = js ''ix2'', gx_state = Index_READY, gx_observedBytes = Some 8\<rparr>],
     gi_attempts = [\<lparr>ga_attemptId = js ''a1'', ga_state = Attempt_TERMINAL, ga_finishedAt = Some GC_DAY_IN_MS,
        ga_measuredBytes = Some 5, ga_generationIds = [js ''g1'']\<rparr>],
     gi_orphanUploads = []\<rparr>"

definition example_plan :: GcPlanAnalysis where
  "example_plan = projr (analyzeGarbageCollectionInventory compareBy example_inventory DEFAULT_GC_RETENTION_POLICY)"

lemma example_planned: "analyzeGarbageCollectionInventory compareBy example_inventory DEFAULT_GC_RETENTION_POLICY = Inr example_plan"
proof -
  have "\<not> isl (analyzeGarbageCollectionInventory compareBy example_inventory DEFAULT_GC_RETENTION_POLICY)" by code_simp
  then show ?thesis unfolding example_plan_def by (cases "analyzeGarbageCollectionInventory compareBy example_inventory DEFAULT_GC_RETENTION_POLICY") auto
qed

lemma compareBy_comparator: "js_comparator (compareBy :: jsstring \<Rightarrow> jsstring \<Rightarrow> int)"
proof
  fix x y z :: jsstring
  show "sgn (compareBy x y) = - sgn (compareBy y x)" by (auto simp: compareBy_def)
  show "compareBy x y \<le> 0 \<Longrightarrow> compareBy y z \<le> 0 \<Longrightarrow> compareBy x z \<le> 0" by simp
qed

lemma example_candidates: "map (\<lambda>e. (ge_kind e, ge_key e)) (gn_candidates example_plan)
    = [(ATTEMPT_STAGING, js ''a1''), (GENERATION, js ''g1''), (HEAD_SET, js ''hs1''), (INDEX, js ''old'')]"
  by code_simp

lemma example_ready: "gn_status example_plan = Plan_READY" "gn_reclaimableBytes example_plan = 122"
  by code_simp+

subsection \<open>Plans and blocks\<close>

text \<open>
  Claim C11. The planner throws exactly when the retention policy or the snapshot is not valid: the error
  for incomplete bytes is not reached. Otherwise it plans exactly when the inventory is complete and every
  generation in service has a live root, and a block has no entry, nothing to reclaim and a reason.
\<close>

theorem collection_planned_or_blocked:
  "case analyzeGarbageCollectionInventory localeCompare snapshot policy of
     Inl e \<Rightarrow> \<not> (valid_retention policy \<and> valid_inventory snapshot)
   | Inr plan \<Rightarrow> valid_retention policy \<and> valid_inventory snapshot
       \<and> gn_stateRevision plan = gi_stateRevision snapshot \<and> gn_inventoryRevision plan = gi_inventoryRevision snapshot
       \<and> gn_providerRegistryDigest plan = gi_providerRegistryDigest snapshot
       \<and> (if complete_inventory snapshot \<and> \<not> (\<exists>g\<in>set (gi_generations snapshot). unrooted_active snapshot g)
          then gn_status plan = Plan_READY \<and> gn_blockedReasons plan = []
          else gn_status plan = Plan_BLOCKED \<and> gn_blockedReasons plan \<noteq> [] \<and> gn_entries plan = [] \<and> gn_candidates plan = []
            \<and> gn_retained plan = [] \<and> gn_protected plan = [] \<and> gn_reclaimableBytes plan = 0)"
proof (cases "valid_retention policy \<and> valid_inventory snapshot")
  case False
  then show ?thesis by (simp add: analysis_invalid)
next
  case True
  then have valid: "validatePolicy policy = Inr ()" "validateSnapshot snapshot = Inr ()"
    by (simp_all add: validatePolicy_eq validateSnapshot_eq)
  show ?thesis
  proof (cases "complete_inventory snapshot \<and> \<not> (\<exists>g\<in>set (gi_generations snapshot). unrooted_active snapshot g)")
    case ready: True
    then have "analyzeGarbageCollectionInventory localeCompare snapshot policy
        = Inr (readyAnalysis localeCompare snapshot (planned_entries localeCompare policy snapshot))"
      using analysis_ready [OF valid] by blast
    then show ?thesis unfolding if_P [OF ready] using True by (simp add: readyAnalysis_def Let_def)
  next
    case blocked: False
    then obtain reasons where "reasons \<noteq> []"
        "analyzeGarbageCollectionInventory localeCompare snapshot policy = Inr (blockedAnalysis snapshot reasons)"
      using analysis_blocked [OF valid] by blast
    then show ?thesis unfolding if_not_P [OF blocked] using True by (simp add: blockedAnalysis_def)
  qed
qed

subsection \<open>What is let go\<close>

text \<open>
  Claim C9. A generation is a candidate only if it is neither in service nor collected, no root of it is
  live, and at least seven days have passed since it was created, changed and left service. When
  \<open>localeCompare\<close> is a comparator, a candidate that succeeded has at least two other successes of its
  member that changed no earlier.
\<close>

theorem collected_generations_are_unused:
  assumes "analyzeGarbageCollectionInventory localeCompare snapshot policy = Inr plan"
    and "e \<in> set (gn_candidates plan)" "ge_kind e = GENERATION"
  shows "\<exists>g\<in>set (gi_generations snapshot). gg_generationId g = ge_key e \<and> gg_state g \<notin> {Gen_ACTIVE, Gen_COLLECTED}
    \<and> (\<forall>r\<in>set (gg_roots g). \<exists>t. gr_expiresAt r = Some t \<and> t \<le> gi_observedAt snapshot)
    \<and> gg_createdAt g + 7 * GC_DAY_IN_MS \<le> gi_observedAt snapshot
    \<and> gg_changedAt g + 7 * GC_DAY_IN_MS \<le> gi_observedAt snapshot
    \<and> (\<forall>t. gg_leftServingAt g = Some t \<longrightarrow> t + 7 * GC_DAY_IN_MS \<le> gi_observedAt snapshot)
    \<and> (js_comparator localeCompare \<and> gg_state g \<in> {Gen_READY, Gen_RETIRED} \<longrightarrow>
        (\<exists>a\<in>set (gi_generations snapshot). \<exists>b\<in>set (gi_generations snapshot).
          distinct (map gg_generationId [a, b, g])
          \<and> (\<forall>c\<in>{a, b}. gg_state c \<in> {Gen_READY, Gen_RETIRED} \<and> gg_memberKey c = gg_memberKey g
              \<and> gg_changedAt g \<le> gg_changedAt c)))"
proof -
  note ready = analysis_candidates [OF assms(1,2)]
  have planned: "e \<in> set (planned_entries localeCompare policy snapshot)" "ge_disposition e = CANDIDATE"
    using assms(2) ready(3) by simp_all
  obtain g where g: "g \<in> set (gi_generations snapshot)" "e = generation_entry localeCompare policy snapshot g"
    using ready(1) planned(1) assms(3)
    by (cases rule: planned_cases) (simp_all add: head_set_entry_simps attempt_entry_simps upload_entry_simps index_entry_simps)
  then have collectable: "collectable_generation localeCompare policy snapshot g" using planned(2) by simp
  have week: "7 * GC_DAY_IN_MS \<le> gi_observedAt snapshot - graceAnchor g"
    using collectable validatePolicy_week(1) [OF analysis_Inr(1) [OF assms(1)], of "gg_state g"]
    by (simp add: collectable_generation_def)
  have "gg_state g \<noteq> Gen_ACTIVE"
    using ready(2) g(1) collectable by (auto simp: collectable_generation_def unrooted_active_def)
  moreover have "\<exists>t. gr_expiresAt r = Some t \<and> t \<le> gi_observedAt snapshot" if "r \<in> set (gg_roots g)" for r
    using collectable that by (cases "gr_expiresAt r") (auto simp: collectable_generation_def live_root_def)
  moreover note two_newer_successes [OF _ validateSnapshot_unique(2) [OF analysis_Inr(2) [OF assms(1)]] g(1)]
  ultimately show ?thesis
    using g collectable week by (intro bexI [of _ g]) (auto simp: collectable_generation_def graceAnchor_def)
qed

theorem collected_generations_are_unused_witness:
  "\<exists>e\<in>set (gn_candidates example_plan). ge_kind e = GENERATION \<and> (\<exists>g\<in>set (gi_generations example_inventory).
     gg_generationId g = ge_key e \<and> gg_state g \<notin> {Gen_ACTIVE, Gen_COLLECTED}
     \<and> gg_changedAt g + 7 * GC_DAY_IN_MS \<le> gi_observedAt example_inventory
     \<and> (\<exists>a\<in>set (gi_generations example_inventory). \<exists>b\<in>set (gi_generations example_inventory).
          distinct (map gg_generationId [a, b, g]) \<and> gg_changedAt g \<le> gg_changedAt a \<and> gg_changedAt g \<le> gg_changedAt b))"
proof -
  obtain e where e: "e \<in> set (gn_candidates example_plan)" "ge_kind e = GENERATION"
    using example_candidates by (cases "gn_candidates example_plan"; cases "tl (gn_candidates example_plan)") auto
  have states: "\<forall>g\<in>set (gi_generations example_inventory). gg_state g \<in> {Gen_READY, Gen_RETIRED, Gen_ACTIVE}"
    by (simp add: example_inventory_def example_generation_def)
  from collected_generations_are_unused [OF example_planned e] obtain g where g: "g \<in> set (gi_generations example_inventory)"
      "gg_generationId g = ge_key e" "gg_state g \<notin> {Gen_ACTIVE, Gen_COLLECTED}"
      "gg_changedAt g + 7 * GC_DAY_IN_MS \<le> gi_observedAt example_inventory"
    and two: "js_comparator (compareBy :: jsstring \<Rightarrow> jsstring \<Rightarrow> int) \<and> gg_state g \<in> {Gen_READY, Gen_RETIRED} \<longrightarrow>
        (\<exists>a\<in>set (gi_generations example_inventory). \<exists>b\<in>set (gi_generations example_inventory).
          distinct (map gg_generationId [a, b, g]) \<and> (\<forall>c\<in>{a, b}. gg_state c \<in> {Gen_READY, Gen_RETIRED}
            \<and> gg_memberKey c = gg_memberKey g \<and> gg_changedAt g \<le> gg_changedAt c))"
    by blast
  have "gg_state g \<in> {Gen_READY, Gen_RETIRED}" using states g(1,3) by auto
  with two compareBy_comparator obtain a b where "a \<in> set (gi_generations example_inventory)" "b \<in> set (gi_generations example_inventory)"
      "distinct (map gg_generationId [a, b, g])" "gg_changedAt g \<le> gg_changedAt a" "gg_changedAt g \<le> gg_changedAt b" by blast
  with e g show ?thesis by blast
qed

text \<open>
  Claim C10. What a plan lets go leaves no reference open. A head set or the staging of an attempt is a
  candidate only if it is retired, or the attempt has ended at least a day ago, and every generation it
  names is a candidate of the plan or collected; an index only if it is ready and every generation with its
  signature is a candidate or collected; an upload only if it failed or expired at least a day ago, its
  version is known and its time for cleanup has come.
\<close>

theorem plan_leaves_no_reference_open:
  assumes "analyzeGarbageCollectionInventory localeCompare snapshot policy = Inr plan" "e \<in> set (gn_candidates plan)"
  shows "case ge_kind e of
      GENERATION \<Rightarrow> \<exists>g\<in>set (gi_generations snapshot). gg_generationId g = ge_key e
    | HEAD_SET \<Rightarrow> \<exists>h\<in>set (gi_headSets snapshot). gh_headSetId h = ge_key e \<and> gh_state h = Heads_RETIRED
        \<and> (\<forall>k\<in>set (gh_generationIds h). \<exists>g\<in>set (gi_generations snapshot). gg_generationId g = k \<and> gone plan g)
    | ATTEMPT_STAGING \<Rightarrow> \<exists>a\<in>set (gi_attempts snapshot). ga_attemptId a = ge_key e \<and> ga_state a = Attempt_TERMINAL
        \<and> (\<exists>t. ga_finishedAt a = Some t \<and> t + GC_DAY_IN_MS \<le> gi_observedAt snapshot)
        \<and> (\<forall>k\<in>set (ga_generationIds a). \<exists>g\<in>set (gi_generations snapshot). gg_generationId g = k \<and> gone plan g)
    | INDEX \<Rightarrow> \<exists>x\<in>set (gi_indexes snapshot). gx_physicalSignature x = ge_key e \<and> gx_state x = Index_READY
        \<and> (\<forall>g\<in>set (gi_generations snapshot). gx_physicalSignature x \<in> set (gg_indexSignatures g) \<longrightarrow> gone plan g)
    | ORPHAN_UPLOAD \<Rightarrow> \<exists>u\<in>set (gi_orphanUploads snapshot). gu_sessionId u = ge_key e \<and> gu_state u \<in> {Up_FAILED, Up_EXPIRED}
        \<and> gu_exactVersionKnown u \<and> gu_cleanupAfter u \<le> gi_observedAt snapshot
        \<and> gu_orphanedAt u + GC_DAY_IN_MS \<le> gi_observedAt snapshot"
proof -
  note ready = analysis_candidates [OF assms(1,2)]
  note valid = analysis_Inr [OF assms(1)]
  have planned: "e \<in> set (planned_entries localeCompare policy snapshot)" "ge_disposition e = CANDIDATE"
    using assms(2) ready(3) by simp_all
  note gone = candidate_gone [OF assms(1,2)]
  note collectable = collectable_gone [OF assms(1,2)]
  show ?thesis
    using ready(1) planned(1)
  proof (cases rule: planned_cases)
    case (generation g)
    then show ?thesis by auto
  next
    case (head_set h b)
    then show ?thesis
      using planned(2) collectable [of "gh_generationIds h"]
      by (cases "gh_state h") (auto simp: head_set_entry_simps [OF head_set(3)])
  next
    case (staging a b)
    then show ?thesis
      using planned(2) collectable [of "ga_generationIds a"] validatePolicy_week(2) [OF valid(1)]
      by (auto simp: attempt_entry_simps [OF staging(2)])
  next
    case (upload u b)
    then show ?thesis
      using planned(2) validatePolicy_week(3) [OF valid(1)] by (auto simp: upload_entry_simps [OF upload(2)])
  next
    case (index x b)
    then show ?thesis using planned(2) gone by (auto simp: index_entry_simps [OF index(3)] gone_def)
  qed
qed

theorem plan_leaves_no_reference_open_witness:
  "(\<exists>h\<in>set (gi_headSets example_inventory). \<forall>k\<in>set (gh_generationIds h).
      \<exists>g\<in>set (gi_generations example_inventory). gg_generationId g = k \<and> gone example_plan g)
    \<and> (\<exists>e\<in>set (gn_candidates example_plan). ge_kind e = INDEX)"
proof -
  obtain a g h x where es: "gn_candidates example_plan = [a, g, h, x]" and "ge_kind h = HEAD_SET" "ge_kind x = INDEX"
    using example_candidates by (auto simp: map_eq_Cons_conv)
  then show ?thesis using plan_leaves_no_reference_open [OF example_planned, of h] by auto
qed

text \<open>
  Claim C23. A plan accounts for its inventory: it has exactly one entry for every item that is not yet
  collected, with the bytes measured for it, each entry is in exactly one of the three lists, and the
  bytes to reclaim are the sum over the candidates.
\<close>

theorem plan_accounts_for_inventory:
  assumes "analyzeGarbageCollectionInventory localeCompare snapshot policy = Inr plan" "gn_status plan = Plan_READY"
  shows "mset (map (\<lambda>e. (ge_kind e, ge_key e, Some (ge_estimatedBytes e))) (gn_entries plan)) = mset (inventory_items snapshot)
    \<and> distinct (map (\<lambda>e. (ge_kind e, ge_key e)) (gn_entries plan))
    \<and> mset (gn_candidates plan) + mset (gn_retained plan) + mset (gn_protected plan) = mset (gn_entries plan)
    \<and> gn_reclaimableBytes plan = (\<Sum>e\<leftarrow>gn_candidates plan. ge_estimatedBytes e)"
proof -
  note valid = analysis_Inr [OF assms(1)]
  have complete: "complete_inventory snapshot" and plan: "plan = readyAnalysis localeCompare snapshot (planned_entries localeCompare policy snapshot)"
    using analysis_ready_status [OF assms] by auto
  have "mset (gn_entries plan) = mset (planned_entries localeCompare policy snapshot)"
    by (simp add: plan readyAnalysis_def Let_def)
  then have items: "mset (map entry_item (gn_entries plan)) = mset (inventory_items snapshot)"
    by (simp flip: planned_items [OF complete, of localeCompare policy])
  have "mset (map (\<lambda>(kind, key, bytes). (kind, key)) (map entry_item (gn_entries plan)))
      = mset (map (\<lambda>(kind, key, bytes). (kind, key)) (inventory_items snapshot))"
    unfolding mset_map [of "\<lambda>(kind, key, bytes). (kind, key)"] items by (rule refl)
  from mset_eq_imp_distinct_iff [OF this] have "distinct (map (\<lambda>e. (ge_kind e, ge_key e)) (gn_entries plan))"
    using distinct_inventory_items [OF valid(2)] by (simp add: o_def)
  moreover have "mset (gn_candidates plan) + mset (gn_retained plan) + mset (gn_protected plan) = mset (gn_entries plan)"
    unfolding plan readyAnalysis_def Let_def GcPlanAnalysis.simps by (rule mset_dispositions)
  moreover have "gn_reclaimableBytes plan = (\<Sum>e\<leftarrow>gn_candidates plan. ge_estimatedBytes e)"
    unfolding plan readyAnalysis_def Let_def GcPlanAnalysis.simps foldl_sum by simp
  ultimately show ?thesis using items by blast
qed

theorem plan_accounts_for_inventory_witness:
  "gn_status example_plan = Plan_READY \<and> size (mset (inventory_items example_inventory)) = 8
    \<and> mset (map (\<lambda>e. (ge_kind e, ge_key e, Some (ge_estimatedBytes e))) (gn_entries example_plan)) = mset (inventory_items example_inventory)
    \<and> (\<Sum>e\<leftarrow>gn_candidates example_plan. ge_estimatedBytes e) = 122"
proof -
  have "length (inventory_items example_inventory) = 8" by code_simp
  then show ?thesis
    using plan_accounts_for_inventory [OF example_planned example_ready(1)] example_ready by simp
qed

end
