(* ===== verification/Spec2Isabelle.thy ===== *)
theory Spec2Isabelle
  imports JobProperties OutboxProperties PolicyProperties ValueProperties ActivationProperties ControlPlaneProperties
    CollectionPlanProperties
begin

text \<open>
  \<^bold>\<open>A verification of the core of Ontos.\<close>

  Ontos is a TypeScript platform for governed data: it materializes managed data sets into
  PostgreSQL, publishes an ontology of object types over them, compiles queries against that
  ontology, and answers them under row- and property-level policies. Its packages are layered
  (\<open>*-domain\<close> pure, \<open>*-application\<close> orchestration, \<open>*-postgres\<close> persistence); \<open>src/tools\<close> holds the
  executable models of its protocols. This development models six parts that the rest relies on:
  durable work, the activation of releases at run time, the control plane of metadata, the planner of
  garbage collection, policy decisions under changing authorization, and canonical values.

  \<^bold>\<open>Foundations.\<close> \<open>Prelude\<close> has results with errors as values (\<open>rbind\<close>, \<open>guard\<close>), operations that
  return a result and the state they leave, also when they throw (\<open>attempt\<close>), runs of a step function
  with the invariant and relation rules proved once in locales, stable sorting by a comparison
  (locale \<open>js_comparator\<close>) and association lists for \<open>Map\<close>. \<open>Js\<close> has strings as lists of 16-bit code
  units, printing and reading of integers, and \<open>JSON.stringify\<close> of strings with a decoder. \<open>Utf8\<close> has
  code points, UTF-8 as \<open>TextEncoder\<close> writes it, and its order. \<open>Keyed\<close> has maps whose values carry their key.

  \<^bold>\<open>Durable work\<close> (\<open>src/tools/job-outbox\<close>). \<open>DurableWork\<close> is \<open>shared.ts\<close>: retry policies, database
  time, leases with fencing tokens, attempts, audit. \<open>Job\<close> is the class \<open>JobStateModel\<close> of \<open>job.ts\<close>
  and \<open>Outbox\<close> the class \<open>OutboxStateModel\<close> of \<open>outbox.ts\<close>, one definition per method, every throw a
  branch that keeps the state as it is at the throw. \<open>JobInvariants\<close>, \<open>JobProgress\<close>, \<open>OutboxInvariants\<close>
  and \<open>OutboxSteps\<close> prove what every method keeps; \<open>JobProperties\<close> and \<open>OutboxProperties\<close> state the
  results over all sequences of calls: the models' own \<open>assertInvariants\<close> never fails, a lease that was
  lost is refused for good, states only move forward, events of a stream are delivered in order and one
  at a time, commits and enqueues are idempotent, and expired leases end.

  \<^bold>\<open>Runtime activation\<close> (\<open>src/tools/runtime-activation/model.ts\<close>). \<open>Activation\<close> has the records of the
  protocol, \<open>ActivationReads\<close> the lookups, the check of an activation, resolution, capacity and the ids a
  collection must protect, \<open>ActivationModel\<close> one definition per method of \<open>RuntimeActivationModel\<close>.
  \<open>ActivationInvariants\<close> states the invariant in two parts, one of the content and one of what uses it;
  \<open>ActivationSteps\<close>, \<open>ActivationRegistration\<close>, \<open>ActivationCutover\<close> (\<open>publish\<close>), \<open>ActivationRefresh\<close>
  (\<open>refresh\<close>, \<open>retireRelease\<close>) and \<open>ActivationCollection\<close> prove that every method keeps it and what
  it promises to queries, tokens and supported releases. \<open>ActivationMachine\<close> composes them: a clock that does
  not go back, the calls, and collections in two phases, whose plans may be committed any time later.
  \<open>ActivationProtection\<close> defines what content is in use, as a closure of references, and proves that the
  loop over the protected sets computes it.
  \<open>ActivationProperties\<close> states the results: the model's own \<open>assertInvariants\<close> never fails, a query reads the
  same generation until its lease ends, a supported release resolves, channels agree with releases,
  capacity counts what is served and stays within the hard limits, a preflight token applies once and to
  what it was issued for, failed calls leave the state, exactly the content in use is protected, and a
  plan at the current revision commits.

  \<^bold>\<open>Metadata control plane\<close> (\<open>src/tools/metadata-control-plane/model.ts\<close>). \<open>ControlPlane\<close> has one
  definition per function: the life cycles of revisions, releases and package changes, the decision on
  management requests, the order of locks, and the transactions that publish a release and replace role
  bindings. \<open>ControlPlaneFacts\<close> states the cutover of a publish in terms of maps and proves that the
  transaction implements it and keeps the state consistent, \<open>ControlPlaneSteps\<close> does the same for role
  bindings; \<open>ControlPlaneProperties\<close> states the results: a publish returns exactly
  when it should, switches everything together and may be repeated, a replacement of role bindings makes
  exactly the desired grants, an unchanged epoch means unchanged permissions, and accepted lock plans do
  not deadlock. That the invariants hold after a publish is the check the transaction ends with; what is
  proved is that this check never fails on a consistent state.

  \<^bold>\<open>Collection plans\<close> (\<open>src/packages/materialization-domain/src/garbage-collection.ts\<close>).
  \<open>CollectionPlan\<close> has the inventory of a project and the planner, one definition per function and one per
  loop of \<open>analyzeGarbageCollectionInventory\<close>. \<open>CollectionPlanFacts\<close> states which policies and inventories
  are valid and complete and gives the entries of a plan in closed form; \<open>CollectionPlanProperties\<close>
  states the results: when the planner throws, blocks or plans, what is true of a generation it lets go,
  that a plan leaves no reference open, and that it accounts for the whole inventory. The order of
  \<open>localeCompare\<close> is a parameter; only the choice of the newest successes needs it to be a comparator.

  \<^bold>\<open>Policy epochs\<close> (\<open>src/tools/policy-epoch\<close>). \<open>PolicyEpoch\<close> is \<open>model.ts\<close>: the authorization store with
  its transactions, the notification bus, the store of compiled policies and the fingerprints.
  \<open>PolicyProcess\<close> is \<open>process.ts\<close>: a decision process with its cache, epoch floors and clock guard. What
  the stores and clocks do during one \<open>await\<close> is an argument of \<open>decide\<close>. \<open>PolicyKeys\<close>, \<open>PolicyMoves\<close>,
  \<open>PolicyDecide\<close>, \<open>PolicyStore\<close> and \<open>PolicyHarness\<close> prove the invariants of each part and of the whole
  harness; \<open>PolicyProperties\<close> states the results: decisions agree with the store at the epoch they
  carry, a process fails closed, an announced epoch is respected, cached decisions are recent, the store
  refines a map of bindings, and cache keys separate requests of well-formed strings, while subjects that
  differ only in lone surrogates share a key. SHA-256 is a parameter.

  \<^bold>\<open>Canonical values\<close> (\<open>src/packages/value-codec/src\<close>). \<open>ValueText\<close> is \<open>error.ts\<close> and \<open>text.ts\<close>,
  \<open>ValueScalars\<close> is \<open>scalars.ts\<close>, \<open>ValueJson\<close> and \<open>ValueJsonParse\<close> are \<open>json.ts\<close>, \<open>ValueProperty\<close> is
  \<open>property.ts\<close> and \<open>ValuePrimaryKey\<close> is \<open>primary-key.ts\<close>. \<open>ValueCalendar\<close> proves the day-number
  arithmetic against counting days, \<open>ValueTime\<close> timestamps, \<open>ValueNumbers\<close> integers and decimals,
  \<open>ValueShapes\<close> which values are canonical, and \<open>ValueInstant\<close> what instant a timestamp denotes, by its
  fields and a count of days, apart from the functions of the codec. \<open>ValueProperties\<close> states the results: canonical JSON is a
  reference text under limits on the whole, round-trips and identifies values; the canonical scalars of
  each type are known exactly, are fixed points and totally ordered; a timestamp is accepted
  exactly when it denotes an instant, keeps it and sorts by it; primary keys never collide by their encoding.

  \<^bold>\<open>Modelling.\<close> State is a record per class, passed explicitly; objects are values, which is sound where
  the code clones or freezes what it hands out, and a record mutated before a throw is kept mutated.
  A \<open>Map\<close> is an association list in insertion order. A number that the code checks to be a safe integer
  is an \<open>int\<close>, a \<open>bigint\<close> is an \<open>int\<close>. Loops are structural recursion, except the closure of the protected
  ids (\<open>expandProtectedGraph\<close>), which terminates because a round leaves nothing to add, the JSON
  writer, whose termination is proved by size, and the JSON parser, whose fuel is the length of the text; the theorems
  on canonical texts show that it is enough.

  \<^bold>\<open>Not modelled.\<close> Error messages; \<open>get\<close> and \<open>snapshot\<close>, which only clone; values of classes that are not
  plain objects, and arrays with holes, as inputs of the codec; Unicode normalization and upper-casing,
  which are a parameter of the primary keys with the one hypothesis that they keep text well-formed; and
  SHA-256, a parameter without hypotheses. Of the other packages: the \<open>*-postgres\<close> packages, \<open>apps\<close>, the
  object store and the handler host are I/O whose meaning is that of PostgreSQL, S3 or Node; the read
  client is generated; \<open>contracts\<close> and \<open>metadata-domain\<close> validate wire documents; \<open>query-domain\<close>
  compiles to SQL. In the runtime activation protocol
  and the control plane, ids that are names of members of \<open>Object.prototype\<close> or array indices
  (which change the order of the keys of an object), and \<open>localeCompare\<close>, which is a parameter without
  hypotheses. Besides the planner, \<open>materialization-domain\<close> reads CSV files and mappings whose regular
  expressions, Unicode tables and number formats would have to be taken as parameters; that part is not
  modelled.
\<close>

end
